(* ===== verification/Umb_Prelude.thy ===== *)
theory Umb_Prelude
  imports Main "HOL-Library.Word"
begin

text \<open>
  Shared vocabulary of the development: Python values, the exception classes of the
  Umbilical modules, programs that pass a state and may raise, and the weakest
  precondition \<open>wp\<close> through which every component is reasoned about.
  Nothing here models a particular component.
\<close>

section \<open>Collections of facts\<close>

named_theorems wp_simps "weakest preconditions of the program combinators"
named_theorems frame_simps "what an operation leaves unchanged"
named_theorems impl_intros "refinement rules for transaction bodies"
named_theorems enc_simps "evaluation of text and byte encodings"

section \<open>Python values\<close>

text \<open>
  A Python \<open>str\<close> is a sequence of code points, lone surrogates included, so it is a list
  of numbers and not a HOL \<open>string\<close>. \<open>py\<close> turns a HOL literal into one.
\<close>

type_synonym pystr = "nat list"
type_synonym byte = "8 word"

definition py :: "string \<Rightarrow> pystr" where
  "py s = map of_char s"

lemma py_Nil [simp]: "py [] = []"
  by (simp add: py_def)

lemma py_Cons [simp]: "py (c # s) = of_char c # py s"
  by (simp add: py_def)

lemma py_append: "py (s @ t) = py s @ py t"
  by (simp add: py_def)

lemma py_inject [simp]: "py s = py t \<longleftrightarrow> s = t"
  by (simp add: py_def inj_on_def map_inj_on [of py] inj_map_eq_map [of of_char] inj_of_char)

text \<open>
  Values whose dynamic type the code inspects. \<open>PyStrSub\<close> is an instance of a proper
  subclass of \<open>str\<close>; a float carries the integer it is equal to, if there is one, which
  is all that a comparison with an integer can see.
\<close>

datatype pyval =
    PyNone
  | PyBool bool
  | PyInt int
  | PyFloat "int option"
  | PyStr pystr
  | PyStrSub pystr
  | PyBytes "byte list"
  | PyTuple "pyval list"
  | PyList "pyval list"
  | PyDict "(pyval \<times> pyval) list"
  | PyObject nat

text \<open>\<open>type(v) is str\<close>, \<open>isinstance(v, str)\<close> and \<open>type(v) is int\<close>, with the value they give.\<close>

fun exact_str :: "pyval \<Rightarrow> pystr option" where
  "exact_str (PyStr s) = Some s"
| "exact_str _ = None"

fun as_str :: "pyval \<Rightarrow> pystr option" where
  "as_str (PyStr s) = Some s"
| "as_str (PyStrSub s) = Some s"
| "as_str _ = None"

fun exact_int :: "pyval \<Rightarrow> int option" where
  "exact_int (PyInt i) = Some i"
| "exact_int _ = None"

fun exact_dict :: "pyval \<Rightarrow> (pyval \<times> pyval) list option" where
  "exact_dict (PyDict d) = Some d"
| "exact_dict _ = None"

text \<open>Python's \<open>v == s\<close> against a string and \<open>v == n\<close> against an integer.\<close>

definition py_eq_str :: "pyval \<Rightarrow> pystr \<Rightarrow> bool" where
  "py_eq_str v s \<longleftrightarrow> as_str v = Some s"

fun py_eq_int :: "pyval \<Rightarrow> int \<Rightarrow> bool" where
  "py_eq_int (PyInt i) n \<longleftrightarrow> i = n"
| "py_eq_int (PyBool b) n \<longleftrightarrow> (if b then 1 else 0) = n"
| "py_eq_int (PyFloat f) n \<longleftrightarrow> f = Some n"
| "py_eq_int _ _ \<longleftrightarrow> False"

lemma exact_str_Some [simp]: "exact_str v = Some s \<longleftrightarrow> v = PyStr s"
  by (cases v) auto

lemma exact_int_Some [simp]: "exact_int v = Some i \<longleftrightarrow> v = PyInt i"
  by (cases v) auto

lemma exact_dict_Some [simp]: "exact_dict v = Some d \<longleftrightarrow> v = PyDict d"
  by (cases v) auto

lemma exact_str_as_str: "exact_str v = Some s \<Longrightarrow> as_str v = Some s"
  by (cases v) auto

end
