(* ===== verification/Umb_Errors.thy ===== *)
theory Umb_Errors
  imports Umb_Prelude
begin

text \<open>
  The exception classes of the modelled modules with their subclass order, the standard
  exceptions those modules let through or catch, and programs over a state that may raise.
  An exception leaves the state the program had reached, as in Python.
\<close>

section \<open>Exceptions\<close>

text \<open>
  \<open>AuthorityStoreError\<close>, \<open>WorkGraphClientError\<close> and \<open>PublicationError\<close> carry their message,
  because the code tells different outcomes apart by it alone; every other class stands for
  itself. \<open>DatabaseError\<close> is \<open>sqlite3.DatabaseError\<close> with its subclasses.
\<close>

datatype exn =
    AuthorityStoreError string
  | AuthorityStoreExistsError
  | AuthorityStoreMissingError
  | AuthorityStoreMalformedError
  | AuthorityStoreVersionError
  | AuthorityStoreMigrationRequiredError
  | GenerationOverflowError
  | ExecutionKeyNotRegisteredError
  | CommandSpecConflictError
  | ExecutionKeyNotCommandBoundError
  | CommandSpecHashMismatchError
  | ControllerGenerationNotCurrentError
  | ExecutionAdmissionConflictError
  | ExecutionAdmissionMissingError
  | ExecutionAdmissionMismatchError
  | ExecutionLaunchAlreadyClaimedError
  | ExecutionLaunchStateError
  | InvalidAuthorityScopeError
  | InvalidExecutionKeyError
  | InvalidCommandSpecHashError
  | InvalidControllerGenerationError
  | InvalidProcessExitCodeError
  | InvalidExecutionIdentityError
  | InvalidLocalCommandSpecError
  | InvalidQueryParameter
  | AlreadyClaimedError
  | NotClaimedError
  | WorkGraphClientError string
  | PublicationError string
  | DatabaseError
  | UnicodeEncodeError
  | OverflowError
  | FileExistsError
  | OSError
  | TypeError
  | ValueError
  | UnicodeDecodeError
  | IndexError
  | KeyError
  | AssertionError
  | AttributeError
  | RuntimeError
  | HTTPException
  | TimeoutExpired
  | SystemExit int

text \<open>Which classes an \<open>except\<close> clause naming the base class catches.\<close>

fun is_authority_error :: "exn \<Rightarrow> bool" where
  "is_authority_error (AuthorityStoreError _) = True"
| "is_authority_error AuthorityStoreExistsError = True"
| "is_authority_error AuthorityStoreMissingError = True"
| "is_authority_error AuthorityStoreMalformedError = True"
| "is_authority_error AuthorityStoreVersionError = True"
| "is_authority_error AuthorityStoreMigrationRequiredError = True"
| "is_authority_error GenerationOverflowError = True"
| "is_authority_error ExecutionKeyNotRegisteredError = True"
| "is_authority_error CommandSpecConflictError = True"
| "is_authority_error ExecutionKeyNotCommandBoundError = True"
| "is_authority_error CommandSpecHashMismatchError = True"
| "is_authority_error ControllerGenerationNotCurrentError = True"
| "is_authority_error ExecutionAdmissionConflictError = True"
| "is_authority_error ExecutionAdmissionMissingError = True"
| "is_authority_error ExecutionAdmissionMismatchError = True"
| "is_authority_error ExecutionLaunchAlreadyClaimedError = True"
| "is_authority_error ExecutionLaunchStateError = True"
| "is_authority_error _ = False"

fun is_malformed_error :: "exn \<Rightarrow> bool" where
  "is_malformed_error AuthorityStoreMalformedError = True"
| "is_malformed_error AuthorityStoreVersionError = True"
| "is_malformed_error AuthorityStoreMigrationRequiredError = True"
| "is_malformed_error _ = False"

lemma malformed_is_authority: "is_malformed_error e \<Longrightarrow> is_authority_error e"
  by (cases e) auto

fun is_client_error :: "exn \<Rightarrow> bool" where
  "is_client_error (WorkGraphClientError _) = True"
| "is_client_error (PublicationError _) = True"
| "is_client_error _ = False"

text \<open>
  \<open>OSError\<close> stands for itself and its other subclasses, \<open>HTTPError\<close> and \<open>URLError\<close> among them. The
  classes of \<open>http.client\<close>, here \<open>HTTPException\<close>, are neither \<open>OSError\<close> nor \<open>ValueError\<close>.
\<close>

fun is_os_error :: "exn \<Rightarrow> bool" where
  "is_os_error OSError = True"
| "is_os_error FileExistsError = True"
| "is_os_error _ = False"

fun is_value_error :: "exn \<Rightarrow> bool" where
  "is_value_error ValueError = True"
| "is_value_error UnicodeEncodeError = True"
| "is_value_error UnicodeDecodeError = True"
| "is_value_error InvalidAuthorityScopeError = True"
| "is_value_error InvalidExecutionKeyError = True"
| "is_value_error InvalidCommandSpecHashError = True"
| "is_value_error InvalidControllerGenerationError = True"
| "is_value_error InvalidProcessExitCodeError = True"
| "is_value_error InvalidExecutionIdentityError = True"
| "is_value_error InvalidLocalCommandSpecError = True"
| "is_value_error _ = False"

section \<open>Programs that pass a state and may raise\<close>

type_synonym ('s, 'a) prog = "'s \<Rightarrow> (exn + 'a) \<times> 's"

definition ret :: "'a \<Rightarrow> ('s, 'a) prog" where
  "ret x = (\<lambda>s. (Inr x, s))"

definition raise :: "exn \<Rightarrow> ('s, 'a) prog" where
  "raise e = (\<lambda>s. (Inl e, s))"

definition bnd :: "('s, 'a) prog \<Rightarrow> ('a \<Rightarrow> ('s, 'b) prog) \<Rightarrow> ('s, 'b) prog" where
  "bnd m f = (\<lambda>s. case m s of (Inl e, t) \<Rightarrow> (Inl e, t) | (Inr x, t) \<Rightarrow> f x t)"

definition sq :: "('s, 'a) prog \<Rightarrow> ('s, 'b) prog \<Rightarrow> ('s, 'b) prog" where
  "sq m n = bnd m (\<lambda>_. n)"

text \<open>\<open>try: m except: h\<close>; the handler sees the exception and may raise it again.\<close>

definition try_except :: "('s, 'a) prog \<Rightarrow> (exn \<Rightarrow> ('s, 'a) prog) \<Rightarrow> ('s, 'a) prog" where
  "try_except m h = (\<lambda>s. case m s of (Inl e, t) \<Rightarrow> h e t | (Inr x, t) \<Rightarrow> (Inr x, t))"

text \<open>\<open>try: m finally: f\<close>; an exception of \<open>f\<close> replaces the outcome of \<open>m\<close>.\<close>

definition try_finally :: "('s, 'a) prog \<Rightarrow> ('s, unit) prog \<Rightarrow> ('s, 'a) prog" where
  "try_finally m f = (\<lambda>s. case m s of (r, t) \<Rightarrow> (case f t of (Inl e, u) \<Rightarrow> (Inl e, u) | (Inr _, u) \<Rightarrow> (r, u)))"

definition gets :: "('s \<Rightarrow> 'a) \<Rightarrow> ('s, 'a) prog" where
  "gets f = (\<lambda>s. (Inr (f s), s))"

definition modify :: "('s \<Rightarrow> 's) \<Rightarrow> ('s, unit) prog" where
  "modify f = (\<lambda>s. (Inr (), f s))"

definition guard :: "bool \<Rightarrow> exn \<Rightarrow> ('s, unit) prog" where
  "guard b e = (if b then ret () else raise e)"

text \<open>A result that is already known, as a program.\<close>

definition of_result :: "exn + 'a \<Rightarrow> ('s, 'a) prog" where
  "of_result r = (\<lambda>s. (r, s))"

text \<open>A \<open>for\<close> loop that runs \<open>f\<close> on each element and stops at the first exception.\<close>

primrec for_each :: "'a list \<Rightarrow> ('a \<Rightarrow> ('s, unit) prog) \<Rightarrow> ('s, unit) prog" where
  "for_each [] f = ret ()"
| "for_each (x # xs) f = sq (f x) (for_each xs f)"

section \<open>Weakest preconditions\<close>

text \<open>
  \<open>wp m Q E s\<close>: run from \<open>s\<close>, \<open>m\<close> returns a value and state in \<open>Q\<close> or raises an exception
  in \<open>E\<close>. Programs are total functions, so this is total correctness.
\<close>

definition wp :: "('s, 'a) prog \<Rightarrow> ('a \<Rightarrow> 's \<Rightarrow> bool) \<Rightarrow> (exn \<Rightarrow> 's \<Rightarrow> bool) \<Rightarrow> 's \<Rightarrow> bool" where
  "wp m Q E s = (case m s of (Inl e, t) \<Rightarrow> E e t | (Inr x, t) \<Rightarrow> Q x t)"

lemma wp_ret [wp_simps]: "wp (ret x) Q E s = Q x s"
  by (simp add: wp_def ret_def)

lemma wp_raise [wp_simps]: "wp (raise e) Q E s = E e s"
  by (simp add: wp_def raise_def)

lemma wp_bnd [wp_simps]: "wp (bnd m f) Q E s = wp m (\<lambda>x. wp (f x) Q E) E s"
  by (simp add: wp_def bnd_def split: prod.splits sum.splits)

lemma wp_sq [wp_simps]: "wp (sq m n) Q E s = wp m (\<lambda>_. wp n Q E) E s"
  by (simp add: sq_def wp_bnd)

lemma wp_try_except [wp_simps]:
  "wp (try_except m h) Q E s = wp m Q (\<lambda>e. wp (h e) Q E) s"
  by (simp add: wp_def try_except_def split: prod.splits sum.splits)

lemma wp_try_finally [wp_simps]:
  "wp (try_finally m f) Q E s =
     wp m (\<lambda>x. wp f (\<lambda>_. Q x) E) (\<lambda>e. wp f (\<lambda>_. E e) E) s"
  by (simp add: wp_def try_finally_def split: prod.splits sum.splits)

lemma wp_gets [wp_simps]: "wp (gets f) Q E s = Q (f s) s"
  by (simp add: wp_def gets_def)

lemma wp_modify [wp_simps]: "wp (modify f) Q E s = Q () (f s)"
  by (simp add: wp_def modify_def)

lemma wp_guard [wp_simps]: "wp (guard b e) Q E s = (if b then Q () s else E e s)"
  by (simp add: guard_def wp_simps)

lemma wp_of_result [wp_simps]:
  "wp (of_result r) Q E s = (case r of Inl e \<Rightarrow> E e s | Inr x \<Rightarrow> Q x s)"
  by (simp add: wp_def of_result_def split: sum.splits)

lemma wp_mono:
  "wp m Q E s \<Longrightarrow> (\<And>x t. Q x t \<Longrightarrow> Q' x t) \<Longrightarrow> (\<And>e t. E e t \<Longrightarrow> E' e t) \<Longrightarrow> wp m Q' E' s"
  by (auto simp: wp_def split: prod.splits sum.splits)

lemma wp_conj:
  "wp m Q E s \<Longrightarrow> wp m Q' E' s \<Longrightarrow> wp m (\<lambda>x t. Q x t \<and> Q' x t) (\<lambda>e t. E e t \<and> E' e t) s"
  by (auto simp: wp_def split: prod.splits sum.splits)

text \<open>Reading a run off a weakest precondition, and back.\<close>

lemma wpD_Inr: "wp m Q E s \<Longrightarrow> m s = (Inr x, t) \<Longrightarrow> Q x t"
  by (simp add: wp_def)

lemma wpD_Inl: "wp m Q E s \<Longrightarrow> m s = (Inl e, t) \<Longrightarrow> E e t"
  by (simp add: wp_def)

lemma wpI_run:
  "(\<And>x t. m s = (Inr x, t) \<Longrightarrow> Q x t) \<Longrightarrow> (\<And>e t. m s = (Inl e, t) \<Longrightarrow> E e t) \<Longrightarrow> wp m Q E s"
  by (simp add: wp_def split: prod.splits sum.splits)

text \<open>Evaluation of the combinators on a given state.\<close>

lemma run_simps:
  "ret x s = (Inr x, s)"
  "raise e s = (Inl e, s)"
  "gets f s = (Inr (f s), s)"
  "modify g s = (Inr (), g s)"
  "of_result r s = (r, s)"
  by (simp_all add: ret_def raise_def gets_def modify_def of_result_def)

lemma run_guard: "guard b e s = (if b then (Inr (), s) else (Inl e, s))"
  by (simp add: guard_def run_simps)

lemma run_bnd: "bnd m f s = (case m s of (Inl e, t) \<Rightarrow> (Inl e, t) | (Inr x, t) \<Rightarrow> f x t)"
  by (simp add: bnd_def)

lemma run_sq: "sq m n s = (case m s of (Inl e, t) \<Rightarrow> (Inl e, t) | (Inr x, t) \<Rightarrow> n t)"
  by (simp add: sq_def bnd_def)

lemma run_try_except:
  "try_except m h s = (case m s of (Inl e, t) \<Rightarrow> h e t | (Inr x, t) \<Rightarrow> (Inr x, t))"
  by (simp add: try_except_def)

lemmas run_combinators = run_simps run_guard run_bnd run_sq run_try_except

section \<open>Results\<close>

text \<open>\<open>and_then\<close> passes a result on, as consecutive statements do.\<close>

definition and_then :: "exn + 'a \<Rightarrow> ('a \<Rightarrow> exn + 'b) \<Rightarrow> exn + 'b" where
  "and_then r f = (case r of Inl e \<Rightarrow> Inl e | Inr x \<Rightarrow> f x)"

lemma and_then_Inr: "and_then r f = Inr y \<longleftrightarrow> (\<exists>x. r = Inr x \<and> f x = Inr y)"
  by (simp add: and_then_def split: sum.split)

lemma and_then_Inl: "and_then r f = Inl e \<longleftrightarrow> r = Inl e \<or> (\<exists>x. r = Inr x \<and> f x = Inl e)"
  by (simp add: and_then_def split: sum.split)

lemma and_then_simps [simp]: "and_then (Inr x) f = f x" "and_then (Inl e) f = Inl e"
  by (simp_all add: and_then_def)

primrec all_results :: "('a \<Rightarrow> exn + 'b) \<Rightarrow> 'a list \<Rightarrow> exn + 'b list" where
  "all_results f [] = Inr []"
| "all_results f (x # xs) = and_then (f x) (\<lambda>y. and_then (all_results f xs) (\<lambda>ys. Inr (y # ys)))"

lemma all_results_Inr: "all_results f xs = Inr ys \<longleftrightarrow> list_all2 (\<lambda>x y. f x = Inr y) xs ys"
  by (induction xs arbitrary: ys) (auto simp: and_then_Inr list_all2_Cons1)

lemma all_results_Inl: "all_results f xs = Inl e \<Longrightarrow> \<exists>x\<in>set xs. f x = Inl e"
  by (induction xs) (auto simp: and_then_Inl)

definition check_that :: "bool \<Rightarrow> exn \<Rightarrow> exn + unit" where
  "check_that b e = (if b then Inr () else Inl e)"

lemma check_that_simps [simp]:
  "check_that b e = Inr u \<longleftrightarrow> b" "check_that b e = Inl e' \<longleftrightarrow> \<not> b \<and> e' = e"
  by (auto simp: check_that_def)

end
