(* ===== verification/Py_Text.thy ===== *)
theory Py_Text
  imports Umb_Errors
begin

unbundle bit_operations_syntax

text \<open>
  The parts of Python's standard library that build identities: strict UTF-8, big-endian
  \<open>int.to_bytes\<close>, length framing, URL-safe base64 and decimal text. The one contract
  they share, that codes can be read back from the front of a byte string, is the locale
  \<open>prefix_code\<close>; every concrete encoding is an interpretation of it.
\<close>

section \<open>Codes that can be read from the front\<close>

locale prefix_code =
  fixes enc :: "'a \<Rightarrow> 'b list"
    and valid :: "'a \<Rightarrow> bool"
  assumes front_unique:
    "valid a \<Longrightarrow> valid b \<Longrightarrow> enc a @ xs = enc b @ ys \<Longrightarrow> a = b \<and> xs = ys"
begin

lemma enc_inject: "valid a \<Longrightarrow> valid b \<Longrightarrow> enc a = enc b \<Longrightarrow> a = b"
  using front_unique [of a b "[]" "[]"] by simp

lemma concat_front_unique:
  "list_all valid as \<Longrightarrow> list_all valid bs \<Longrightarrow> length as = length bs \<Longrightarrow>
   concat (map enc as) @ xs = concat (map enc bs) @ ys \<Longrightarrow> as = bs \<and> xs = ys"
proof (induction as arbitrary: bs)
  case Nil
  then show ?case by simp
next
  case (Cons a as)
  from Cons.prems(3) obtain b bs' where bs: "bs = b # bs'" by (cases bs) auto
  with Cons.prems have "enc a @ (concat (map enc as) @ xs) = enc b @ (concat (map enc bs') @ ys)"
    and "valid a" and "valid b" by simp_all
  then have ab: "a = b" and rest: "concat (map enc as) @ xs = concat (map enc bs') @ ys"
    using front_unique by blast+
  from Cons.IH [OF _ _ _ rest] Cons.prems bs have "as = bs' \<and> xs = ys" by simp
  with ab bs show ?case by simp
qed

end

locale nonempty_prefix_code = prefix_code +
  assumes nonempty: "valid a \<Longrightarrow> enc a \<noteq> []"
begin

lemma concat_inject:
  "list_all valid as \<Longrightarrow> list_all valid bs \<Longrightarrow>
   concat (map enc as) = concat (map enc bs) \<Longrightarrow> as = bs"
proof (induction as arbitrary: bs)
  case Nil
  then show ?case using nonempty by (cases bs) auto
next
  case (Cons a as)
  then obtain b bs' where bs: "bs = b # bs'" using nonempty by (cases bs) auto
  with Cons.prems have "enc a @ concat (map enc as) = enc b @ concat (map enc bs')"
    and "valid a" and "valid b" by simp_all
  then have ab: "a = b" and rest: "concat (map enc as) = concat (map enc bs')"
    using front_unique by blast+
  from Cons.IH [OF _ _ rest] Cons.prems bs have "as = bs'" by simp
  with ab bs show ?case by simp
qed

end

section \<open>Strict UTF-8\<close>

definition is_scalar :: "nat \<Rightarrow> bool" where
  "is_scalar c \<longleftrightarrow> c < 0xD800 \<or> 0xE000 \<le> c \<and> c < 0x110000"

definition utf8_char :: "nat \<Rightarrow> byte list" where
  "utf8_char c =
     (if c < 0x80 then [of_nat c]
      else if c < 0x800 then [of_nat (0xC0 + c div 64), of_nat (0x80 + c mod 64)]
      else if c < 0x10000
        then [of_nat (0xE0 + c div 4096), of_nat (0x80 + c div 64 mod 64), of_nat (0x80 + c mod 64)]
      else [of_nat (0xF0 + c div 262144), of_nat (0x80 + c div 4096 mod 64),
            of_nat (0x80 + c div 64 mod 64), of_nat (0x80 + c mod 64)])"

text \<open>\<open>s.encode("utf-8", errors="strict")\<close>; \<open>None\<close> stands for \<open>UnicodeEncodeError\<close>.\<close>

definition utf8_encode :: "pystr \<Rightarrow> byte list option" where
  "utf8_encode s = (if list_all is_scalar s then Some (concat (map utf8_char s)) else None)"

definition encodable :: "pystr \<Rightarrow> bool" where
  "encodable s \<longleftrightarrow> list_all is_scalar s"

lemma of_nat_byte_eq: "a < 256 \<Longrightarrow> b < 256 \<Longrightarrow> (of_nat a :: byte) = of_nat b \<longleftrightarrow> a = b"
  by (simp add: word_of_nat_eq_iff take_bit_eq_mod)

lemma div_mod_64: "(c::nat) div 64 = d div 64 \<Longrightarrow> c mod 64 = d mod 64 \<Longrightarrow> c = d"
  by (metis div_mult_mod_eq)

lemma div_4096: "(c::nat) div 4096 = c div 64 div 64"
  by (simp add: div_mult2_eq [symmetric])

lemma div_262144: "(c::nat) div 262144 = c div 64 div 64 div 64"
  by (simp add: div_mult2_eq [symmetric])

lemma utf8_char_1: "c < 0x80 \<Longrightarrow> utf8_char c = [of_nat c]"
  by (simp add: utf8_char_def)

lemma utf8_char_2:
  "0x80 \<le> c \<Longrightarrow> c < 0x800 \<Longrightarrow> utf8_char c = [of_nat (0xC0 + c div 64), of_nat (0x80 + c mod 64)]"
  by (simp add: utf8_char_def)

lemma utf8_char_3:
  "0x800 \<le> c \<Longrightarrow> c < 0x10000 \<Longrightarrow>
   utf8_char c = [of_nat (0xE0 + c div 4096), of_nat (0x80 + c div 64 mod 64), of_nat (0x80 + c mod 64)]"
  by (simp add: utf8_char_def)

lemma utf8_char_4:
  "0x10000 \<le> c \<Longrightarrow>
   utf8_char c = [of_nat (0xF0 + c div 262144), of_nat (0x80 + c div 4096 mod 64),
                  of_nat (0x80 + c div 64 mod 64), of_nat (0x80 + c mod 64)]"
  by (simp add: utf8_char_def)

text \<open>The first byte tells how long the code is, and the bytes determine the code point.\<close>

definition lead_class :: "nat \<Rightarrow> nat" where
  "lead_class b = (if b < 0x80 then 1 else if b < 0xE0 then 2 else if b < 0xF0 then 3 else 4)"

definition utf8_lead :: "nat \<Rightarrow> nat" where
  "utf8_lead c = (if c < 0x80 then c else if c < 0x800 then 0xC0 + c div 64
     else if c < 0x10000 then 0xE0 + c div 4096 else 0xF0 + c div 262144)"

lemma utf8_lead_bound: "c < 0x110000 \<Longrightarrow> utf8_lead c < 256"
  by (auto simp: utf8_lead_def)

lemma utf8_lead_class:
  "c < 0x110000 \<Longrightarrow> lead_class (utf8_lead c) =
     (if c < 0x80 then 1 else if c < 0x800 then 2 else if c < 0x10000 then 3 else 4)"
  by (auto simp: lead_class_def utf8_lead_def)

lemma utf8_char_lead: "\<exists>bs. utf8_char c = of_nat (utf8_lead c) # bs"
  by (auto simp: utf8_char_def utf8_lead_def)

lemma utf8_same_class:
  assumes "c < 0x110000" "d < 0x110000" "utf8_char c @ xs = utf8_char d @ ys"
  shows "(c < 0x80 \<longleftrightarrow> d < 0x80) \<and> (c < 0x800 \<longleftrightarrow> d < 0x800) \<and> (c < 0x10000 \<longleftrightarrow> d < 0x10000)"
proof -
  obtain bs cs where "utf8_char c = of_nat (utf8_lead c) # bs" "utf8_char d = of_nat (utf8_lead d) # cs"
    using utf8_char_lead by blast
  with assms(3) have "(of_nat (utf8_lead c) :: byte) = of_nat (utf8_lead d)" by simp
  then have "utf8_lead c = utf8_lead d"
    using assms utf8_lead_bound of_nat_byte_eq by blast
  then have "lead_class (utf8_lead c) = lead_class (utf8_lead d)" by simp
  then show ?thesis
    unfolding utf8_lead_class [OF assms(1)] utf8_lead_class [OF assms(2)]
    by (auto split: if_splits)
qed

lemma utf8_front_unique:
  assumes c: "c < 0x110000" and d: "d < 0x110000" and eq: "utf8_char c @ xs = utf8_char d @ ys"
  shows "c = d \<and> xs = ys"
proof -
  note cls = utf8_same_class [OF c d eq]
  consider "c < 0x80" "d < 0x80" | "0x80 \<le> c" "c < 0x800" "0x80 \<le> d" "d < 0x800"
    | "0x800 \<le> c" "c < 0x10000" "0x800 \<le> d" "d < 0x10000" | "0x10000 \<le> c" "0x10000 \<le> d"
    using cls by linarith
  then show ?thesis
  proof cases
    case 1
    with eq show ?thesis by (simp add: utf8_char_1 of_nat_byte_eq)
  next
    case 2
    have "c div 64 < 64" "d div 64 < 64" using 2 by simp_all
    with eq 2 have "c div 64 = d div 64" "c mod 64 = d mod 64" "xs = ys"
      by (simp_all add: utf8_char_2 of_nat_byte_eq del: of_nat_add)
    then show ?thesis using div_mod_64 by blast
  next
    case 3
    have "c div 4096 < 16" "d div 4096 < 16" using 3 by simp_all
    with eq 3 have "c div 4096 = d div 4096" "c div 64 mod 64 = d div 64 mod 64"
      "c mod 64 = d mod 64" "xs = ys"
      by (simp_all add: utf8_char_3 of_nat_byte_eq del: of_nat_add)
    then show ?thesis using div_mod_64 by (metis div_4096)
  next
    case 4
    have "c div 262144 < 8" "d div 262144 < 8" using c d by simp_all
    with eq 4 have "c div 262144 = d div 262144" "c div 4096 mod 64 = d div 4096 mod 64"
      "c div 64 mod 64 = d div 64 mod 64" "c mod 64 = d mod 64" "xs = ys"
      by (simp_all add: utf8_char_4 of_nat_byte_eq del: of_nat_add)
    then show ?thesis using div_mod_64 by (metis div_4096 div_262144)
  qed
qed

interpretation utf8: nonempty_prefix_code utf8_char is_scalar
proof
  show "a = b \<and> xs = ys" if "is_scalar a" "is_scalar b" "utf8_char a @ xs = utf8_char b @ ys"
    for a b xs ys
    using that by (intro utf8_front_unique) (auto simp: is_scalar_def)
  show "utf8_char a \<noteq> []" for a
    by (simp add: utf8_char_def)
qed

lemma utf8_encode_inject:
  "utf8_encode s = Some b \<Longrightarrow> utf8_encode t = Some b \<Longrightarrow> s = t"
  using utf8.concat_inject by (auto simp: utf8_encode_def split: if_splits)

lemma utf8_encode_Some: "(\<exists>b. utf8_encode s = Some b) \<longleftrightarrow> encodable s"
  by (simp add: utf8_encode_def encodable_def)

lemma utf8_encode_None: "utf8_encode s = None \<longleftrightarrow> \<not> encodable s"
  by (simp add: utf8_encode_def encodable_def)

lemma encodable_Nil [simp]: "encodable []"
  by (simp add: encodable_def)

lemma encodable_append [simp]: "encodable (s @ t) \<longleftrightarrow> encodable s \<and> encodable t"
  by (simp add: encodable_def)

lemma encodable_Cons [simp]: "encodable (c # s) \<longleftrightarrow> is_scalar c \<and> encodable s"
  by (simp add: encodable_def)

lemma char_scalar [simp]: "is_scalar (of_char c)"
proof -
  have "of_char c < (256 :: nat)" by (rule nat_of_char_less_256)
  then show ?thesis unfolding is_scalar_def by linarith
qed

lemma encodable_py [simp]: "encodable (py s)"
  by (induction s) simp_all

end
