(* ===== verification/Py_Bytes.thy ===== *)
theory Py_Bytes
  imports Py_Text
begin

text \<open>
  Byte-level encodings of the standard library: \<open>int.to_bytes(8, "big")\<close>, the length
  frame built from it, \<open>base64.urlsafe_b64encode\<close>, \<open>hashlib.sha256\<close> (FIPS 180-4) and
  \<open>bytes.hex\<close>. Framing and base64 are shown to be readable back.
\<close>

section \<open>Big-endian unsigned integers\<close>

definition bytes_of :: "string \<Rightarrow> byte list" where
  "bytes_of s = map of_char s"

primrec be_bytes :: "nat \<Rightarrow> nat \<Rightarrow> byte list" where
  "be_bytes 0 n = []"
| "be_bytes (Suc k) n = be_bytes k (n div 256) @ [of_nat (n mod 256)]"

definition be_value :: "byte list \<Rightarrow> nat" where
  "be_value bs = foldl (\<lambda>a b. a * 256 + unat b) 0 bs"

definition max_framed :: nat where
  "max_framed = 2 ^ 64 - 1"

text \<open>\<open>n.to_bytes(8, byteorder="big", signed=False)\<close>; \<open>None\<close> stands for \<open>OverflowError\<close>.\<close>

definition to_bytes8 :: "nat \<Rightarrow> byte list option" where
  "to_bytes8 n = (if n \<le> max_framed then Some (be_bytes 8 n) else None)"

lemma length_be_bytes [simp]: "length (be_bytes k n) = k"
  by (induction k arbitrary: n) simp_all

lemma be_value_be_bytes: "be_value (be_bytes k n) = n mod 256 ^ k"
proof (induction k arbitrary: n)
  case 0
  then show ?case by (simp add: be_value_def)
next
  case (Suc k)
  have "be_value (be_bytes (Suc k) n) = be_value (be_bytes k (n div 256)) * 256 + n mod 256"
    by (simp add: be_value_def unat_of_nat take_bit_eq_mod)
  also have "\<dots> = (n div 256) mod 256 ^ k * 256 + n mod 256" by (simp add: Suc.IH)
  also have "\<dots> = n mod 256 ^ Suc k"
    by (simp add: mod_mult2_eq [of n 256 "256 ^ k"] mult.commute)
  finally show ?case .
qed

lemma be_value_be_bytes8: "n \<le> max_framed \<Longrightarrow> be_value (be_bytes 8 n) = n"
  by (simp add: be_value_be_bytes max_framed_def)

lemma be_bytes8_inject:
  "n \<le> max_framed \<Longrightarrow> m \<le> max_framed \<Longrightarrow> be_bytes 8 n = be_bytes 8 m \<Longrightarrow> n = m"
  by (metis be_value_be_bytes8)

interpretation be8: nonempty_prefix_code "be_bytes 8" "\<lambda>n. n \<le> max_framed"
proof
  show "a = b \<and> xs = ys"
    if "a \<le> max_framed" "b \<le> max_framed" "be_bytes 8 a @ xs = be_bytes 8 b @ ys"
    for a b and xs ys
  proof -
    have "be_bytes 8 a = be_bytes 8 b \<and> xs = ys"
      using that(3) by (simp add: append_eq_append_conv)
    then show ?thesis using that be_bytes8_inject by blast
  qed
  show "be_bytes 8 a \<noteq> []" for a
    using length_be_bytes [of 8 a] by fastforce
qed

section \<open>Length framing\<close>

text \<open>The 8-byte big-endian length of a byte string, then the bytes themselves.\<close>

definition framed :: "byte list \<Rightarrow> byte list" where
  "framed b = be_bytes 8 (length b) @ b"

definition frameable :: "byte list \<Rightarrow> bool" where
  "frameable b \<longleftrightarrow> length b \<le> max_framed"

lemma length_framed: "length (framed b) = 8 + length b"
  by (simp add: framed_def)

interpretation frame: nonempty_prefix_code framed frameable
proof
  show "a = b \<and> xs = ys"
    if "frameable a" "frameable b" "framed a @ xs = framed b @ ys" for a b and xs ys
  proof -
    have "be_bytes 8 (length a) @ a @ xs = be_bytes 8 (length b) @ b @ ys"
      using that(3) by (simp add: framed_def)
    then have "length a = length b" and "a @ xs = b @ ys"
      using that(1,2) be8.front_unique unfolding frameable_def by blast+
    then show ?thesis by simp
  qed
  show "framed a \<noteq> []" for a
    using length_framed [of a] by fastforce
qed

section \<open>URL-safe base64\<close>

definition b64_digit :: "nat \<Rightarrow> nat" where
  "b64_digit i = (if i < 26 then 65 + i else if i < 52 then 97 + (i - 26)
     else if i < 62 then 48 + (i - 52) else if i = 62 then 45 else 95)"

fun b64_encode :: "byte list \<Rightarrow> pystr" where
  "b64_encode [] = []"
| "b64_encode [a] =
     [b64_digit (unat a div 4), b64_digit (unat a mod 4 * 16), 61, 61]"
| "b64_encode [a, b] =
     [b64_digit (unat a div 4), b64_digit (unat a mod 4 * 16 + unat b div 16),
      b64_digit (unat b mod 16 * 4), 61]"
| "b64_encode (a # b # c # rest) =
     [b64_digit (unat a div 4), b64_digit (unat a mod 4 * 16 + unat b div 16),
      b64_digit (unat b mod 16 * 4 + unat c div 64), b64_digit (unat c mod 64)]
     @ b64_encode rest"

lemma b64_digit_inject: "i < 64 \<Longrightarrow> j < 64 \<Longrightarrow> b64_digit i = b64_digit j \<longleftrightarrow> i = j"
  by (auto simp: b64_digit_def split: if_splits)

lemma b64_digit_not_pad: "b64_digit i < 128 \<and> b64_digit i \<noteq> 61" if "i < 64"
  using that by (auto simp: b64_digit_def)

lemma unat_byte_less: "unat (b :: byte) < 256"
  using unsigned_less [of b] by simp

lemma digits_inject: "(r::nat) < k \<Longrightarrow> r' < k \<Longrightarrow> q * k + r = q' * k + r' \<longleftrightarrow> q = q' \<and> r = r'"
  by (metis div_mult_self3 mod_mult_self3 div_less mod_less add.commute add_0 not_less_zero)

lemma sextets:
  "unat (a :: byte) div 4 < 64" "unat (a :: byte) mod 4 * 16 + unat (b :: byte) div 16 < 64"
  "unat (a :: byte) mod 4 * 16 < 64"
  "unat (b :: byte) mod 16 * 4 + unat (c :: byte) div 64 < 64" "unat (b :: byte) mod 16 * 4 < 64"
  "unat (c :: byte) mod 64 < 64"
  using unat_byte_less [of a] unat_byte_less [of b] unat_byte_less [of c] by linarith+

lemma sextets_split:
  fixes a b c a' b' c' :: byte
  shows "unat a mod 4 * 16 + unat b div 16 = unat a' mod 4 * 16 + unat b' div 16 \<longleftrightarrow>
     unat a mod 4 = unat a' mod 4 \<and> unat b div 16 = unat b' div 16"
    and "unat b mod 16 * 4 + unat c div 64 = unat b' mod 16 * 4 + unat c' div 64 \<longleftrightarrow>
     unat b mod 16 = unat b' mod 16 \<and> unat c div 64 = unat c' div 64"
  using unat_byte_less [of b] unat_byte_less [of b'] unat_byte_less [of c] unat_byte_less [of c']
  by (simp_all add: digits_inject)

lemma byte_split: "a = b \<longleftrightarrow> unat a div k = unat b div k \<and> unat a mod k = unat b mod k"
  for a b :: byte
  by (metis div_mult_mod_eq word_unat_eq_iff)

lemma b64_digit_pad_eq: "i < 64 \<Longrightarrow> b64_digit i = 61 \<longleftrightarrow> False" "i < 64 \<Longrightarrow> 61 = b64_digit i \<longleftrightarrow> False"
  using b64_digit_not_pad [of i] by auto

lemmas b64_cases = b64_digit_inject b64_digit_pad_eq sextets

lemma b64_encode_inject: "b64_encode xs = b64_encode ys \<Longrightarrow> xs = ys"
proof (induction xs arbitrary: ys rule: b64_encode.induct)
  case 1
  then show ?case by (cases ys rule: b64_encode.cases) simp_all
next
  case (2 a)
  then show ?case
    by (cases ys rule: b64_encode.cases)
      (simp_all add: b64_cases byte_split [of a _ 4])
next
  case (3 a b)
  then show ?case
    by (cases ys rule: b64_encode.cases)
      (simp_all add: b64_cases sextets_split byte_split [of a _ 4] byte_split [of b _ 16])
next
  case (4 a b c rest)
  then show ?case
    by (cases ys rule: b64_encode.cases)
      (simp_all add: b64_cases sextets_split byte_split [of a _ 4] byte_split [of b _ 16]
        byte_split [of c _ 64])
qed

lemma b64_encode_ascii: "list_all (\<lambda>c. c < 128) (b64_encode xs)"
  by (induction xs rule: b64_encode.induct) (simp_all add: b64_digit_not_pad sextets)

section \<open>Hexadecimal and decimal text\<close>

definition hex_digit :: "nat \<Rightarrow> nat" where
  "hex_digit i = (if i < 10 then 48 + i else 87 + i)"

definition hex_text :: "byte list \<Rightarrow> pystr" where
  "hex_text bs = concat (map (\<lambda>b. [hex_digit (unat b div 16), hex_digit (unat b mod 16)]) bs)"

text \<open>Decimal digits of a natural number, as \<open>str(n)\<close> prints them.\<close>

fun decimal :: "nat \<Rightarrow> pystr" where
  "decimal n = (if n < 10 then [48 + n] else decimal (n div 10) @ [48 + n mod 10])"

declare decimal.simps [simp del]

lemma length_hex_text: "length (hex_text bs) = 2 * length bs"
  by (induction bs) (simp_all add: hex_text_def)

lemma hex_digit_ascii: "hex_digit i < 128" if "i < 16"
  using that by (simp add: hex_digit_def)

lemma hex_text_ascii: "list_all (\<lambda>c. c < 128) (hex_text bs)"
proof (induction bs)
  case (Cons b bs)
  have "unat b div 16 < 16" using unat_byte_less [of b] by linarith
  with Cons show ?case by (simp add: hex_text_def hex_digit_ascii)
qed (simp add: hex_text_def)

lemma ascii_encodable: "list_all (\<lambda>c. c < 128) s \<Longrightarrow> encodable s"
  by (induction s) (auto simp: is_scalar_def)

section \<open>SHA-256\<close>

text \<open>\<open>hashlib.sha256(data).digest()\<close>, written out from FIPS 180-4.\<close>

type_synonym w32 = "32 word"

definition sha_k :: "w32 list" where
  "sha_k =
     [0x428A2F98, 0x71374491, 0xB5C0FBCF, 0xE9B5DBA5,
      0x3956C25B, 0x59F111F1, 0x923F82A4, 0xAB1C5ED5,
      0xD807AA98, 0x12835B01, 0x243185BE, 0x550C7DC3,
      0x72BE5D74, 0x80DEB1FE, 0x9BDC06A7, 0xC19BF174,
      0xE49B69C1, 0xEFBE4786, 0x0FC19DC6, 0x240CA1CC,
      0x2DE92C6F, 0x4A7484AA, 0x5CB0A9DC, 0x76F988DA,
      0x983E5152, 0xA831C66D, 0xB00327C8, 0xBF597FC7,
      0xC6E00BF3, 0xD5A79147, 0x06CA6351, 0x14292967,
      0x27B70A85, 0x2E1B2138, 0x4D2C6DFC, 0x53380D13,
      0x650A7354, 0x766A0ABB, 0x81C2C92E, 0x92722C85,
      0xA2BFE8A1, 0xA81A664B, 0xC24B8B70, 0xC76C51A3,
      0xD192E819, 0xD6990624, 0xF40E3585, 0x106AA070,
      0x19A4C116, 0x1E376C08, 0x2748774C, 0x34B0BCB5,
      0x391C0CB3, 0x4ED8AA4A, 0x5B9CCA4F, 0x682E6FF3,
      0x748F82EE, 0x78A5636F, 0x84C87814, 0x8CC70208,
      0x90BEFFFA, 0xA4506CEB, 0xBEF9A3F7, 0xC67178F2]"

definition sha_init :: "w32 list" where
  "sha_init =
     [0x6A09E667, 0xBB67AE85, 0x3C6EF372, 0xA54FF53A,
      0x510E527F, 0x9B05688C, 0x1F83D9AB, 0x5BE0CD19]"

definition sha_ch :: "w32 \<Rightarrow> w32 \<Rightarrow> w32 \<Rightarrow> w32" where
  "sha_ch x y z = (x AND y) XOR (NOT x AND z)"

definition sha_maj :: "w32 \<Rightarrow> w32 \<Rightarrow> w32 \<Rightarrow> w32" where
  "sha_maj x y z = (x AND y) XOR (x AND z) XOR (y AND z)"

definition sha_rot3 :: "nat \<Rightarrow> nat \<Rightarrow> nat \<Rightarrow> w32 \<Rightarrow> w32" where
  "sha_rot3 i j k x = word_rotr i x XOR word_rotr j x XOR word_rotr k x"

definition sha_shift3 :: "nat \<Rightarrow> nat \<Rightarrow> nat \<Rightarrow> w32 \<Rightarrow> w32" where
  "sha_shift3 i j k x = word_rotr i x XOR word_rotr j x XOR drop_bit k x"

text \<open>The message schedule, kept newest word first.\<close>

primrec sha_schedule :: "nat \<Rightarrow> w32 list \<Rightarrow> w32 list" where
  "sha_schedule 0 ws = ws"
| "sha_schedule (Suc n) ws = sha_schedule n
     ((sha_shift3 17 19 10 (ws ! 1) + ws ! 6 + sha_shift3 7 18 3 (ws ! 14) + ws ! 15) # ws)"

fun sha_round :: "w32 list \<Rightarrow> w32 \<times> w32 \<Rightarrow> w32 list" where
  "sha_round [a, b, c, d, e, f, g, h] (k, w) =
     (let t1 = h + sha_rot3 6 11 25 e + sha_ch e f g + k + w;
          t2 = sha_rot3 2 13 22 a + sha_maj a b c
      in [t1 + t2, a, b, c, d + t1, e, f, g])"
| "sha_round st _ = st"

definition sha_block :: "w32 list \<Rightarrow> w32 list \<Rightarrow> w32 list" where
  "sha_block st ws =
     map2 (+) st (foldl sha_round st (zip sha_k (rev (sha_schedule 48 (rev ws)))))"

definition sha_pad :: "byte list \<Rightarrow> byte list" where
  "sha_pad m = m @ [0x80] @ replicate ((119 - length m mod 64) mod 64) 0
     @ be_bytes 8 (8 * length m)"

fun word_of_bytes :: "byte list \<Rightarrow> w32 list" where
  "word_of_bytes (a # b # c # d # rest) = of_nat (be_value [a, b, c, d]) # word_of_bytes rest"
| "word_of_bytes _ = []"

fun sha_blocks :: "w32 list \<Rightarrow> w32 list \<Rightarrow> w32 list" where
  "sha_blocks st ws = (if length ws < 16 then st else sha_blocks (sha_block st (take 16 ws)) (drop 16 ws))"

declare sha_blocks.simps [simp del]

definition sha256 :: "byte list \<Rightarrow> byte list" where
  "sha256 m = concat (map (\<lambda>w. be_bytes 4 (unat w)) (sha_blocks sha_init (word_of_bytes (sha_pad m))))"

definition sha256_hex :: "byte list \<Rightarrow> pystr" where
  "sha256_hex m = hex_text (sha256 m)"

end
