(* ===== verification/Execution_Identity.thy ===== *)
theory Execution_Identity
  imports Umb_Errors Py_Bytes
begin

text \<open>
  \<open>master/buildbot/umbilical_execution_identity.py\<close>: the canonical execution key of four opaque
  identities, a domain prefix followed by four length-framed UTF-8 components, in URL-safe
  base 64. Arguments are arbitrary Python values; every \<open>raise\<close> is a branch.
\<close>

definition domain_prefix :: "byte list" where
  "domain_prefix = bytes_of ''umbilical-execution-key-v1'' @ [0]"

definition frame_identity_component :: "pyval \<Rightarrow> exn + byte list" where
  "frame_identity_component v = (case exact_str v of
       None \<Rightarrow> Inl InvalidExecutionIdentityError
     | Some s \<Rightarrow> if s = [] then Inl InvalidExecutionIdentityError
         else (case utf8_encode s of
             None \<Rightarrow> Inl InvalidExecutionIdentityError
           | Some encoded \<Rightarrow>
               if length encoded > max_framed then Inl InvalidExecutionIdentityError
               else Inr (be_bytes 8 (length encoded) @ encoded)))"

definition canonical_identity_payload :: "pyval \<Rightarrow> pyval \<Rightarrow> pyval \<Rightarrow> pyval \<Rightarrow> exn + byte list" where
  "canonical_identity_payload repository subject revision causal_root =
     and_then (frame_identity_component repository) (\<lambda>f1.
     and_then (frame_identity_component subject) (\<lambda>f2.
     and_then (frame_identity_component revision) (\<lambda>f3.
     and_then (frame_identity_component causal_root) (\<lambda>f4.
       Inr (domain_prefix @ f1 @ f2 @ f3 @ f4)))))"

definition derive_execution_key :: "pyval \<Rightarrow> pyval \<Rightarrow> pyval \<Rightarrow> pyval \<Rightarrow> exn + pystr" where
  "derive_execution_key repository subject revision causal_root =
     and_then (canonical_identity_payload repository subject revision causal_root) (\<lambda>payload.
       Inr (py ''uek1:'' @ b64_encode payload))"

section \<open>Components\<close>

text \<open>The components the function accepts: exact, non-empty, encodable, not overlong strings.\<close>

definition identity_component :: "pyval \<Rightarrow> bool" where
  "identity_component v \<longleftrightarrow> (\<exists>s. v = PyStr s \<and> s \<noteq> [] \<and> encodable s \<and> frameable (the (utf8_encode s)))"

lemma component_Inr:
  "frame_identity_component v = Inr f \<longleftrightarrow>
     (\<exists>s b. v = PyStr s \<and> s \<noteq> [] \<and> utf8_encode s = Some b \<and> frameable b \<and> f = framed b)"
  by (auto simp: frame_identity_component_def framed_def frameable_def split: option.splits if_splits)

lemma component_Inl:
  "frame_identity_component v = Inl e \<longleftrightarrow> e = InvalidExecutionIdentityError \<and> \<not> identity_component v"
proof (cases "exact_str v")
  case None
  then have "\<not> identity_component v" by (auto simp: identity_component_def)
  with None show ?thesis by (auto simp: frame_identity_component_def)
next
  case (Some s)
  have "encodable s \<longleftrightarrow> utf8_encode s \<noteq> None" by (simp add: utf8_encode_None)
  with Some show ?thesis
    by (cases "utf8_encode s") (auto simp: frame_identity_component_def identity_component_def frameable_def)
qed

lemma component_accepts: "(\<exists>f. frame_identity_component v = Inr f) \<longleftrightarrow> identity_component v"
  using component_Inl [of v] by (cases "frame_identity_component v") auto

lemma component_front_unique:
  assumes "frame_identity_component v = Inr f" "frame_identity_component w = Inr g" "f @ xs = g @ ys"
  shows "v = w \<and> f = g \<and> xs = ys"
proof -
  obtain s b t c where s: "v = PyStr s" "utf8_encode s = Some b" "frameable b" "f = framed b"
    "w = PyStr t" "utf8_encode t = Some c" "frameable c" "g = framed c"
    using assms(1,2) by (auto simp: component_Inr)
  then have "b = c \<and> xs = ys" using assms(3) frame.front_unique by blast
  with s show ?thesis using utf8_encode_inject by auto
qed

lemma payload_inject:
  assumes "canonical_identity_payload a b c d = Inr p" "canonical_identity_payload a' b' c' d' = Inr p"
  shows "a = a' \<and> b = b' \<and> c = c' \<and> d = d'"
proof -
  obtain f1 f2 f3 f4 g1 g2 g3 g4 where
    f: "frame_identity_component a = Inr f1" "frame_identity_component b = Inr f2"
       "frame_identity_component c = Inr f3" "frame_identity_component d = Inr f4"
    and g: "frame_identity_component a' = Inr g1" "frame_identity_component b' = Inr g2"
       "frame_identity_component c' = Inr g3" "frame_identity_component d' = Inr g4"
    and eq: "f1 @ f2 @ f3 @ f4 = g1 @ g2 @ g3 @ g4"
    using assms by (auto simp: canonical_identity_payload_def and_then_Inr)
  note e1 = component_front_unique [OF f(1) g(1) eq]
  then have "f2 @ f3 @ f4 = g2 @ g3 @ g4" by simp
  note e2 = component_front_unique [OF f(2) g(2) this]
  then have "f3 @ f4 = g3 @ g4" by simp
  note e3 = component_front_unique [OF f(3) g(3) this]
  then have "f4 @ [] = g4 @ []" by simp
  note e4 = component_front_unique [OF f(4) g(4) this]
  show ?thesis using e1 e2 e3 e4 by simp
qed

lemma derive_accepts:
  "(\<exists>k. derive_execution_key a b c d = Inr k) \<longleftrightarrow>
     identity_component a \<and> identity_component b \<and> identity_component c \<and> identity_component d"
  by (auto simp: derive_execution_key_def canonical_identity_payload_def and_then_Inr
      component_accepts [symmetric])

lemma derive_error: "derive_execution_key a b c d = Inl e \<Longrightarrow> e = InvalidExecutionIdentityError"
  by (auto simp: derive_execution_key_def canonical_identity_payload_def and_then_Inl component_Inl)

lemma derived_key_ascii: "derive_execution_key a b c d = Inr k \<Longrightarrow> list_all (\<lambda>c. c < 128) k"
  by (auto simp: derive_execution_key_def and_then_Inr b64_encode_ascii)

lemma derived_key_usable:
  "derive_execution_key a b c d = Inr k \<Longrightarrow> k \<noteq> [] \<and> encodable k"
  using derived_key_ascii ascii_encodable by (auto simp: derive_execution_key_def and_then_Inr)

lemma derive_inject:
  assumes "derive_execution_key a b c d = Inr k" "derive_execution_key a' b' c' d' = Inr k"
  shows "a = a' \<and> b = b' \<and> c = c' \<and> d = d'"
proof -
  obtain p q where p: "canonical_identity_payload a b c d = Inr p" "canonical_identity_payload a' b' c' d' = Inr q"
    "b64_encode p = b64_encode q"
    using assms by (auto simp: derive_execution_key_def and_then_Inr)
  then have "p = q" using b64_encode_inject by blast
  with p payload_inject show ?thesis by blast
qed

end
