(* ===== verification/Sqlite.thy ===== *)
theory Sqlite
  imports Py_Bytes
begin

text \<open>
  What the authority store uses of the standard library's \<open>sqlite3\<close> module: a database
  file, a connection with at most one transaction, and statements that may fail.

  A transaction works on a private copy (\<open>work\<close>) that \<open>COMMIT\<close> publishes as the durable
  database. Every statement first consumes one entry of the connection's fault schedule:
  it may fail without effect, take effect and still report an error, be aborted together
  with its transaction, or (for a pragma) be refused. The empty schedule is a run without
  failures. All theorems about faults quantify over every schedule.
\<close>

section \<open>Stored values and tables\<close>

datatype sqlval =
    SNull
  | SInteger int
  | SReal
  | SText pystr
  | SBlob "byte list"

text \<open>SQL's \<open>typeof\<close>, and the Python object a column of that value is fetched as.\<close>

fun sql_typeof :: "sqlval \<Rightarrow> string" where
  "sql_typeof SNull = ''null''"
| "sql_typeof (SInteger _) = ''integer''"
| "sql_typeof SReal = ''real''"
| "sql_typeof (SText _) = ''text''"
| "sql_typeof (SBlob _) = ''blob''"

fun py_of_sql :: "sqlval \<Rightarrow> pyval" where
  "py_of_sql SNull = PyNone"
| "py_of_sql (SInteger i) = PyInt i"
| "py_of_sql SReal = PyFloat None"
| "py_of_sql (SText s) = PyStr s"
| "py_of_sql (SBlob b) = PyBytes b"

text \<open>SQL's \<open>=\<close> in a \<open>WHERE\<close> or \<open>ON\<close> clause: never true of \<open>NULL\<close>.\<close>

fun sql_eq :: "sqlval \<Rightarrow> sqlval \<Rightarrow> bool" where
  "sql_eq (SInteger i) (SInteger j) \<longleftrightarrow> i = j"
| "sql_eq (SText s) (SText t) \<longleftrightarrow> s = t"
| "sql_eq (SBlob a) (SBlob b) \<longleftrightarrow> a = b"
| "sql_eq _ _ \<longleftrightarrow> False"

lemma sql_eq_text [simp]: "sql_eq v (SText s) \<longleftrightarrow> v = SText s" "sql_eq (SText s) v \<longleftrightarrow> v = SText s"
  by (cases v; auto)+

lemma sql_eq_integer [simp]: "sql_eq v (SInteger i) \<longleftrightarrow> v = SInteger i"
  by (cases v) auto

type_synonym column_info = "nat \<times> string \<times> string \<times> nat \<times> string option \<times> nat"

record schema_row =
  obj_type :: string
  obj_name :: string
  obj_table :: string
  obj_sql :: "string option"
  obj_columns :: "column_info list"

record gen_row =
  gr_scope :: sqlval
  gr_generation :: sqlval

record key_row =
  kr_key :: sqlval

record bind_row =
  br_key :: sqlval
  br_hash :: sqlval

record adm_row =
  ar_key :: sqlval
  ar_scope :: sqlval
  ar_generation :: sqlval

record launch_row =
  lr_key :: sqlval
  lr_hash :: sqlval
  lr_scope :: sqlval
  lr_generation :: sqlval
  lr_state :: sqlval
  lr_exit :: sqlval

record database =
  user_version :: int
  pages_ok :: bool
  journal_mode :: string
  schema :: "schema_row list"
  t_gens :: "gen_row list"
  t_keys :: "key_row list"
  t_binds :: "bind_row list"
  t_adms :: "adm_row list"
  t_launches :: "launch_row list"

text \<open>The database SQLite sees in a new, empty file.\<close>

definition empty_database :: database where
  "empty_database = \<lparr>user_version = 0, pages_ok = True, journal_mode = ''delete'',
     schema = [], t_gens = [], t_keys = [], t_binds = [], t_adms = [], t_launches = []\<rparr>"

text \<open>
  \<open>PRAGMA integrity_check\<close> answers \<open>ok\<close> only if the file's pages are sound and no table
  violates the uniqueness of its primary key; \<open>pages_ok\<close> stands for everything else the
  pragma looks at and is arbitrary.
\<close>

definition integrity_check :: "database \<Rightarrow> bool" where
  "integrity_check d \<longleftrightarrow> pages_ok d
     \<and> distinct (map gr_scope (t_gens d)) \<and> distinct (map kr_key (t_keys d))
     \<and> distinct (map br_key (t_binds d)) \<and> distinct (map ar_key (t_adms d))
     \<and> distinct (map lr_key (t_launches d))"

definition has_table :: "string \<Rightarrow> database \<Rightarrow> bool" where
  "has_table n d \<longleftrightarrow> list_ex (\<lambda>r. obj_name r = n) (schema d)"

definition table_info :: "string \<Rightarrow> database \<Rightarrow> column_info list" where
  "table_info n d = (case find (\<lambda>r. obj_name r = n) (schema d) of None \<Rightarrow> [] | Some r \<Rightarrow> obj_columns r)"

text \<open>A \<open>CREATE TABLE\<close> statement: its text, and the table it describes.\<close>

record ddl =
  ddl_name :: string
  ddl_text :: string
  ddl_columns :: "column_info list"

text \<open>SQLite keeps the statement's text from the word \<open>CREATE\<close> on.\<close>

definition stored_sql :: "string \<Rightarrow> string" where
  "stored_sql t = dropWhile (\<lambda>c. c = CHR 0x0A \<or> c = CHR '' '') t"

definition create_table_row :: "ddl \<Rightarrow> schema_row" where
  "create_table_row t = \<lparr>obj_type = ''table'', obj_name = ddl_name t, obj_table = ddl_name t,
     obj_sql = Some (stored_sql (ddl_text t)), obj_columns = ddl_columns t\<rparr>"

section \<open>Connections\<close>

datatype fault = FOk | FError | FApplied | FAborted | FRefused

record conn =
  durable :: database
  work :: "database option"
  is_open :: bool
  write_locked :: bool
  busy :: bool
  synchronous :: int
  faults :: "fault list"

text \<open>
  \<open>write_locked\<close>: this connection holds the database's write lock; \<open>busy\<close>: another one does.
\<close>

definition view :: "'z conn_scheme \<Rightarrow> database" where
  "view c = (case work c of None \<Rightarrow> durable c | Some d \<Rightarrow> d)"

definition in_transaction :: "'z conn_scheme \<Rightarrow> bool" where
  "in_transaction c \<longleftrightarrow> work c \<noteq> None"

definition put_view :: "database \<Rightarrow> 'z conn_scheme \<Rightarrow> 'z conn_scheme" where
  "put_view d c = (case work c of None \<Rightarrow> c\<lparr>durable := d\<rparr> | Some _ \<Rightarrow> c\<lparr>work := Some d\<rparr>)"

definition end_tx :: "'z conn_scheme \<Rightarrow> 'z conn_scheme" where
  "end_tx c = c\<lparr>work := None, write_locked := False\<rparr>"

definition take_fault :: "('z conn_scheme, fault) prog" where
  "take_fault = (\<lambda>c. case faults c of [] \<Rightarrow> (Inr FOk, c) | f # fs \<Rightarrow> (Inr f, c\<lparr>faults := fs\<rparr>))"

section \<open>Statements\<close>

text \<open>
  \<open>connection.execute(sql, parameters)\<close>. A closed connection raises \<open>ProgrammingError\<close> and a
  text parameter with a lone surrogate raises \<open>UnicodeEncodeError\<close>, both before SQLite runs
  anything. \<open>act\<close> is what the statement does when it runs.
\<close>

definition execute_f :: "pystr list \<Rightarrow> (fault \<Rightarrow> ('z conn_scheme, 'a) prog) \<Rightarrow> ('z conn_scheme, 'a) prog" where
  "execute_f ps act = bnd (gets is_open) (\<lambda>opened.
     if \<not> opened then raise DatabaseError
     else if \<not> list_all encodable ps then raise UnicodeEncodeError
     else bnd take_fault (\<lambda>f. case f of
         FOk \<Rightarrow> act f
       | FRefused \<Rightarrow> act f
       | FError \<Rightarrow> raise DatabaseError
       | FApplied \<Rightarrow> sq (act f) (raise DatabaseError)
       | FAborted \<Rightarrow> sq (modify end_tx) (raise DatabaseError)))"

definition execute :: "pystr list \<Rightarrow> ('z conn_scheme, 'a) prog \<Rightarrow> ('z conn_scheme, 'a) prog" where
  "execute ps act = execute_f ps (\<lambda>_. act)"

text \<open>A query on the tables \<open>ns\<close>: \<open>OperationalError\<close> (no such table) unless the schema has them.\<close>

definition has_tables :: "string list \<Rightarrow> database \<Rightarrow> bool" where
  "has_tables ns d \<longleftrightarrow> list_all (\<lambda>n. has_table n d) ns"

definition select :: "string list \<Rightarrow> pystr list \<Rightarrow> (database \<Rightarrow> 'r) \<Rightarrow> ('z conn_scheme, 'r) prog" where
  "select ns ps f = execute ps (\<lambda>c. if has_tables ns (view c) then (Inr (f (view c)), c) else (Inl DatabaseError, c))"

definition pragma :: "(database \<Rightarrow> 'r) \<Rightarrow> ('z conn_scheme, 'r) prog" where
  "pragma f = execute [] (gets (\<lambda>c. f (view c)))"

text \<open>
  A statement that changes the database; \<open>None\<close> is a violated constraint or a missing table.
  Outside a transaction it commits at once, which another writer's lock prevents.
\<close>

definition change :: "pystr list \<Rightarrow> (database \<Rightarrow> ('r \<times> database) option) \<Rightarrow> ('z conn_scheme, 'r) prog" where
  "change ps f = execute ps (\<lambda>c.
     if busy c \<and> \<not> in_transaction c then (Inl DatabaseError, c)
     else case f (view c) of
       None \<Rightarrow> (Inl DatabaseError, c)
     | Some (r, d) \<Rightarrow> (Inr r, put_view d c))"

definition begin_immediate :: "('z conn_scheme, unit) prog" where
  "begin_immediate = execute [] (\<lambda>c.
     if in_transaction c \<or> busy c then (Inl DatabaseError, c)
     else (Inr (), c\<lparr>work := Some (durable c), write_locked := True\<rparr>))"

definition begin_deferred :: "('z conn_scheme, unit) prog" where
  "begin_deferred = execute [] (\<lambda>c.
     if in_transaction c then (Inl DatabaseError, c)
     else (Inr (), c\<lparr>work := Some (durable c)\<rparr>))"

definition commit_tx :: "('z conn_scheme, unit) prog" where
  "commit_tx = execute [] (\<lambda>c. case work c of
       None \<Rightarrow> (Inl DatabaseError, c)
     | Some d \<Rightarrow> (Inr (), end_tx (c\<lparr>durable := d\<rparr>)))"

definition rollback_tx :: "('z conn_scheme, unit) prog" where
  "rollback_tx = execute [] (\<lambda>c.
     if in_transaction c then (Inr (), end_tx c) else (Inl DatabaseError, c))"

text \<open>\<open>connection.close()\<close>: an open transaction is rolled back; closing twice is harmless.\<close>

definition close_connection :: "('z conn_scheme, unit) prog" where
  "close_connection = bnd take_fault (\<lambda>f. case f of
       FError \<Rightarrow> raise DatabaseError
     | FApplied \<Rightarrow> sq (modify (\<lambda>c. end_tx c\<lparr>is_open := False\<rparr>)) (raise DatabaseError)
     | FAborted \<Rightarrow> sq (modify end_tx) (raise DatabaseError)
     | _ \<Rightarrow> modify (\<lambda>c. end_tx c\<lparr>is_open := False\<rparr>))"

text \<open>A new table is empty, whatever rows a table of that name had before it was dropped.\<close>

definition with_table :: "ddl \<Rightarrow> database \<Rightarrow> database" where
  "with_table t d = d\<lparr>schema := schema d @ [create_table_row t],
     t_gens := if ddl_name t = ''controller_generations'' then [] else t_gens d,
     t_keys := if ddl_name t = ''execution_keys'' then [] else t_keys d,
     t_binds := if ddl_name t = ''execution_command_bindings'' then [] else t_binds d,
     t_adms := if ddl_name t = ''execution_admissions'' then [] else t_adms d,
     t_launches := if ddl_name t = ''execution_launches'' then [] else t_launches d\<rparr>"

definition create_table :: "ddl \<Rightarrow> ('z conn_scheme, unit) prog" where
  "create_table t = change [] (\<lambda>d. if has_table (ddl_name t) d then None else Some ((), with_table t d))"

definition set_user_version :: "int \<Rightarrow> ('z conn_scheme, unit) prog" where
  "set_user_version v = change [] (\<lambda>d. Some ((), d\<lparr>user_version := v\<rparr>))"

text \<open>\<open>PRAGMA journal_mode=WAL\<close> answers the mode that is in force afterwards.\<close>

definition pragma_journal_wal :: "('z conn_scheme, string) prog" where
  "pragma_journal_wal = execute_f [] (\<lambda>f. if f = FRefused then gets (\<lambda>c. journal_mode (view c))
     else (\<lambda>c. (Inr ''wal'', put_view ((view c)\<lparr>journal_mode := ''wal''\<rparr>) c)))"

definition pragma_synchronous_full :: "('z conn_scheme, unit) prog" where
  "pragma_synchronous_full = execute_f [] (\<lambda>f. if f = FRefused then ret ()
     else modify (\<lambda>c. c\<lparr>synchronous := 2\<rparr>))"

definition pragma_synchronous :: "('z conn_scheme, int) prog" where
  "pragma_synchronous = execute [] (gets synchronous)"

text \<open>Rows of a primary-key lookup (\<open>WHERE key = ?\<close> with \<open>fetchone\<close>) and of a \<open>LEFT JOIN\<close>.\<close>

definition row_by :: "('row \<Rightarrow> sqlval) \<Rightarrow> pystr \<Rightarrow> 'row list \<Rightarrow> 'row option" where
  "row_by key s rows = find (\<lambda>r. sql_eq (key r) (SText s)) rows"

definition left_join :: "('row \<Rightarrow> sqlval) \<Rightarrow> sqlval \<Rightarrow> 'row list \<Rightarrow> 'row option list" where
  "left_join key v rows = (case filter (\<lambda>r. sql_eq (key r) v) rows of [] \<Rightarrow> [None] | rs \<Rightarrow> map Some rs)"

text \<open>\<open>INSERT\<close>: refused when the primary key is taken or a \<open>CHECK\<close> of the table fails.\<close>

definition insert_row :: "('row \<Rightarrow> sqlval) \<Rightarrow> ('row \<Rightarrow> bool) \<Rightarrow> 'row \<Rightarrow> 'row list \<Rightarrow> 'row list option" where
  "insert_row key check r rows =
     (if check r \<and> \<not> list_ex (\<lambda>q. key q = key r) rows then Some (rows @ [r]) else None)"

definition text_nonempty :: "sqlval \<Rightarrow> bool" where
  "text_nonempty v \<longleftrightarrow> (case v of SText s \<Rightarrow> s \<noteq> [] | _ \<Rightarrow> False)"

definition integer_positive :: "sqlval \<Rightarrow> bool" where
  "integer_positive v \<longleftrightarrow> (case v of SInteger i \<Rightarrow> 0 < i | _ \<Rightarrow> False)"

end
