(* ===== verification/Sqlite_Tx.thy ===== *)
theory Sqlite_Tx
  imports Sqlite
begin

text \<open>
  How a program behaves inside an open transaction. A program is \<open>faithful\<close> if, whatever the
  fault schedule, it either does exactly what it does without faults or raises an exception
  that the store's \<open>except\<close> clauses catch; in both cases it leaves everything but the
  transaction's private copy alone. Faithfulness is closed under the combinators, so that a
  transaction body is faithful by its shape and only its fault-free run has to be computed.
\<close>

section \<open>Fault-free connections\<close>

definition quiet :: "'z conn_scheme \<Rightarrow> 'z conn_scheme" where
  "quiet c = c\<lparr>faults := []\<rparr>"

lemma quiet_fields [simp]:
  "faults (quiet c) = []" "work (quiet c) = work c" "is_open (quiet c) = is_open c"
  "durable (quiet c) = durable c" "write_locked (quiet c) = write_locked c"
  "busy (quiet c) = busy c" "view (quiet c) = view c" "in_transaction (quiet c) = in_transaction c"
  by (simp_all add: quiet_def view_def in_transaction_def split: option.splits)

lemma quiet_update [simp]:
  "quiet (c\<lparr>work := w\<rparr>) = (quiet c)\<lparr>work := w\<rparr>" "quiet (c\<lparr>faults := fs\<rparr>) = quiet c"
  "quiet (quiet c) = quiet c"
  by (simp_all add: quiet_def)

lemma quiet_id: "faults c = [] \<Longrightarrow> quiet c = c"
  by (simp add: quiet_def)

lemma quiet_put_back: "(quiet c)\<lparr>work := w, faults := fs\<rparr> = c\<lparr>work := w, faults := fs\<rparr>"
  by (simp add: quiet_def)

text \<open>Updates are kept in the order of the fields.\<close>

lemma update_order [simp]:
  "c\<lparr>faults := fs, work := w\<rparr> = c\<lparr>work := w, faults := fs\<rparr>"
  "c\<lparr>write_locked := l, work := w\<rparr> = c\<lparr>work := w, write_locked := l\<rparr>"
  "c\<lparr>faults := fs, write_locked := l\<rparr> = c\<lparr>write_locked := l, faults := fs\<rparr>"
  "c\<lparr>work := w, durable := d\<rparr> = c\<lparr>durable := d, work := w\<rparr>"
  "c\<lparr>write_locked := l, durable := d\<rparr> = c\<lparr>durable := d, write_locked := l\<rparr>"
  "c\<lparr>faults := fs, durable := d\<rparr> = c\<lparr>durable := d, faults := fs\<rparr>"
  by (cases c; simp)+

lemma same_work: "work c = Some d \<Longrightarrow> c\<lparr>work := Some d\<rparr> = c"
  by (cases c) simp

lemma same_work_ex: "work c = Some d \<Longrightarrow> \<exists>d'. \<forall>fs. c\<lparr>faults := fs\<rparr> = c\<lparr>work := Some d', faults := fs\<rparr>"
  by (rule exI [where x = d]) (simp add: same_work)

lemma same_work_faults: "work c = Some d \<Longrightarrow> c\<lparr>work := Some d, faults := faults c\<rparr> = c"
  by (cases c) simp

lemma same_work_quiet: "work c = Some d \<Longrightarrow> (quiet c)\<lparr>work := Some d\<rparr> = quiet c"
  by (rule same_work) simp

lemma view_in_tx [simp]: "work c = Some d \<Longrightarrow> view c = d"
  by (simp add: view_def)

lemma put_view_in_tx [simp]: "work c = Some d \<Longrightarrow> put_view d' c = c\<lparr>work := Some d'\<rparr>"
  by (simp add: put_view_def)

lemma in_transaction_iff [simp]: "work c = Some d \<Longrightarrow> in_transaction c"
  by (simp add: in_transaction_def)

section \<open>What the except clauses catch\<close>

definition handled :: "exn \<Rightarrow> bool" where
  "handled e \<longleftrightarrow> is_authority_error e \<or> e = DatabaseError"

lemma handled_DatabaseError [simp]: "handled DatabaseError"
  by (simp add: handled_def)

lemma handled_authority: "is_authority_error e \<Longrightarrow> handled e"
  by (simp add: handled_def)

text \<open>What a failed statement raises, if need be translated by a validator.\<close>

definition statement_error :: "exn \<Rightarrow> bool" where
  "statement_error e \<longleftrightarrow> e = DatabaseError \<or> e = AuthorityStoreMalformedError"

lemma statement_error_DatabaseError [simp]: "statement_error DatabaseError"
  by (simp add: statement_error_def)

lemma statement_error_handled: "statement_error e \<Longrightarrow> handled e"
  by (auto simp: statement_error_def handled_def)

text \<open>What a failed statement may have done to the connection: at most lost the transaction.\<close>

definition spoiled :: "'z conn_scheme \<Rightarrow> 'z conn_scheme \<Rightarrow> bool" where
  "spoiled c c' \<longleftrightarrow> (\<exists>w l fs. c' = c\<lparr>work := w, write_locked := l, faults := fs\<rparr>
     \<and> (if w = None then \<not> l else l = write_locked c))"

lemma spoiled_step: "spoiled (c\<lparr>work := Some d, faults := fs\<rparr>) c' \<Longrightarrow> spoiled c c'"
proof -
  assume "spoiled (c\<lparr>work := Some d, faults := fs\<rparr>) c'"
  then obtain w l fs' where "c' = c\<lparr>work := w, write_locked := l, faults := fs'\<rparr>"
    "if w = None then \<not> l else l = write_locked c"
    by (auto simp: spoiled_def)
  then show "spoiled c c'" unfolding spoiled_def by blast
qed

lemma spoiled_faults: "work c = Some d \<Longrightarrow> spoiled c (c\<lparr>faults := fs\<rparr>)"
  unfolding spoiled_def
  by (rule exI [where x = "Some d"], rule exI [where x = "write_locked c"], rule exI [where x = fs])
    (simp add: conn.defs)

lemma spoiled_work: "spoiled c (c\<lparr>work := Some d, faults := fs\<rparr>)"
  unfolding spoiled_def
  by (rule exI [where x = "Some d"], rule exI [where x = "write_locked c"], rule exI [where x = fs]) simp

lemma spoiled_end_tx: "spoiled c (end_tx (c\<lparr>faults := fs\<rparr>))"
  unfolding spoiled_def end_tx_def
  by (rule exI [where x = None], rule exI [where x = False], rule exI [where x = fs]) simp

section \<open>Faithful programs\<close>

definition quiet_run :: "('z conn_scheme, 'a) prog \<Rightarrow> 'z conn_scheme \<Rightarrow> exn + 'a \<Rightarrow> database \<Rightarrow> bool" where
  "quiet_run m c r d \<longleftrightarrow> m (quiet c) = (r, (quiet c)\<lparr>work := Some d\<rparr>)"

definition same_run :: "('z conn_scheme, 'a) prog \<Rightarrow> 'z conn_scheme \<Rightarrow> exn + 'a \<Rightarrow> database \<Rightarrow> bool" where
  "same_run m c r d \<longleftrightarrow> (\<exists>fs. m c = (r, c\<lparr>work := Some d, faults := fs\<rparr>))"

definition failed_run :: "('z conn_scheme, 'a) prog \<Rightarrow> 'z conn_scheme \<Rightarrow> bool" where
  "failed_run m c \<longleftrightarrow> (\<exists>e c'. m c = (Inl e, c') \<and> statement_error e \<and> spoiled c c')"

definition faithful :: "('z conn_scheme, 'a) prog \<Rightarrow> bool" where
  "faithful m \<longleftrightarrow> (\<forall>c d. is_open c \<longrightarrow> work c = Some d \<longrightarrow>
     (\<exists>r d'. quiet_run m c r d' \<and> (same_run m c r d' \<or> failed_run m c)))"

lemma faithfulI:
  assumes "\<And>c d. is_open c \<Longrightarrow> work c = Some d \<Longrightarrow>
    \<exists>r d'. quiet_run m c r d' \<and> (same_run m c r d' \<or> failed_run m c)"
  shows "faithful m"
  using assms by (auto simp: faithful_def)

lemma faithfulD:
  "faithful m \<Longrightarrow> is_open c \<Longrightarrow> work c = Some d \<Longrightarrow>
   \<exists>r d'. quiet_run m c r d' \<and> (same_run m c r d' \<or> failed_run m c)"
  by (auto simp: faithful_def)

lemma same_run_here: "m c = (r, c) \<Longrightarrow> work c = Some d \<Longrightarrow> same_run m c r d"
  unfolding same_run_def by (rule exI [where x = "faults c"]) (simp add: same_work_faults)

lemma quiet_run_here: "m (quiet c) = (r, quiet c) \<Longrightarrow> work c = Some d \<Longrightarrow> quiet_run m c r d"
  unfolding quiet_run_def by (simp add: same_work_quiet)

lemma faithful_constant:
  assumes "\<And>c. m c = (r, c)"
  shows "faithful m"
proof (rule faithfulI)
  fix c :: "'a conn_scheme" and d
  assume "is_open c" and w: "work c = Some d"
  have "quiet_run m c r d" and "same_run m c r d"
    using assms w by (auto intro: quiet_run_here same_run_here)
  then show "\<exists>r d'. quiet_run m c r d' \<and> (same_run m c r d' \<or> failed_run m c)" by blast
qed

lemma faithful_ret [impl_intros]: "faithful (ret x)"
  by (rule faithful_constant) (simp add: run_simps)

lemma faithful_raise [impl_intros]: "faithful (raise e)"
  by (rule faithful_constant) (simp add: run_simps)

lemma faithful_of_result [impl_intros]: "faithful (of_result r)"
  by (rule faithful_constant) (simp add: run_simps)

lemma faithful_guard [impl_intros]: "faithful (guard b e)"
  by (simp add: guard_def faithful_ret faithful_raise)

lemma faithful_if [impl_intros]: "faithful m \<Longrightarrow> faithful n \<Longrightarrow> faithful (if b then m else n)"
  by simp

lemma faithful_case_option [impl_intros]:
  "faithful m \<Longrightarrow> (\<And>x. faithful (f x)) \<Longrightarrow> faithful (case v of None \<Rightarrow> m | Some x \<Rightarrow> f x)"
  by (cases v) simp_all

text \<open>Sequencing: the two runs of a composition, from those of its parts.\<close>

lemma quiet_run_bnd_Inl: "quiet_run m c (Inl e) d \<Longrightarrow> quiet_run (bnd m f) c (Inl e) d"
  by (simp add: quiet_run_def run_bnd)

lemma quiet_run_bnd_Inr:
  "quiet_run m c (Inr x) d \<Longrightarrow> quiet_run (f x) (c\<lparr>work := Some d, faults := fs\<rparr>) r d' \<Longrightarrow>
   quiet_run (bnd m f) c r d'"
  by (simp add: quiet_run_def run_bnd quiet_def)

lemma same_run_bnd_Inl: "same_run m c (Inl e) d \<Longrightarrow> same_run (bnd m f) c (Inl e) d"
  by (auto simp: same_run_def run_bnd)

lemma bnd_after_same_run:
  assumes "m c = (Inr x, c\<lparr>work := Some d, faults := fs\<rparr>)"
  shows "same_run (f x) (c\<lparr>work := Some d, faults := fs\<rparr>) r d' \<Longrightarrow> same_run (bnd m f) c r d'"
    and "failed_run (f x) (c\<lparr>work := Some d, faults := fs\<rparr>) \<Longrightarrow> failed_run (bnd m f) c"
  using assms by (auto simp: same_run_def failed_run_def run_bnd dest: spoiled_step)

lemma failed_run_bnd: "failed_run m c \<Longrightarrow> failed_run (bnd m f) c"
  by (auto simp: failed_run_def run_bnd)

lemma faithful_bnd [impl_intros]:
  assumes m: "faithful m" and f: "\<And>x. faithful (f x)"
  shows "faithful (bnd m f)"
proof (rule faithfulI)
  fix c :: "'a conn_scheme" and d
  assume c: "is_open c" "work c = Some d"
  obtain r1 d1 where q: "quiet_run m c r1 d1" and s: "same_run m c r1 d1 \<or> failed_run m c"
    using faithfulD [OF m c] by blast
  show "\<exists>r d'. quiet_run (bnd m f) c r d' \<and> (same_run (bnd m f) c r d' \<or> failed_run (bnd m f) c)"
  proof (cases r1)
    case (Inl e)
    with q s show ?thesis
      using quiet_run_bnd_Inl same_run_bnd_Inl failed_run_bnd by metis
  next
    case (Inr x)
    have next_run: "\<exists>r d'. quiet_run (f x) (c\<lparr>work := Some d1, faults := fs\<rparr>) r d' \<and>
        (same_run (f x) (c\<lparr>work := Some d1, faults := fs\<rparr>) r d' \<or>
         failed_run (f x) (c\<lparr>work := Some d1, faults := fs\<rparr>))" for fs
      using c by (intro faithfulD [OF f]) simp_all
    show ?thesis
    proof (cases "failed_run m c")
      case True
      with next_run [of "[]"] q Inr show ?thesis
        using quiet_run_bnd_Inr failed_run_bnd by metis
    next
      case False
      with s Inr obtain fs where "m c = (Inr x, c\<lparr>work := Some d1, faults := fs\<rparr>)"
        by (auto simp: same_run_def)
      with next_run [of fs] q Inr show ?thesis
        using quiet_run_bnd_Inr bnd_after_same_run by metis
    qed
  qed
qed

lemma faithful_sq [impl_intros]: "faithful m \<Longrightarrow> faithful n \<Longrightarrow> faithful (sq m n)"
  by (simp add: sq_def faithful_bnd)

lemma faithful_for_each [impl_intros]: "(\<And>x. faithful (f x)) \<Longrightarrow> faithful (for_each xs f)"
  by (induction xs) (auto intro: impl_intros)

text \<open>An \<open>except\<close> clause that turns one caught exception into another.\<close>

lemma faithful_convert [impl_intros]:
  assumes m: "faithful m" and g: "\<And>e. statement_error e \<Longrightarrow> statement_error (g e)"
  shows "faithful (try_except m (\<lambda>e. raise (g e)))"
proof (rule faithfulI)
  fix c :: "'a conn_scheme" and d
  assume c: "is_open c" "work c = Some d"
  obtain r1 d1 where q: "quiet_run m c r1 d1" and s: "same_run m c r1 d1 \<or> failed_run m c"
    using faithfulD [OF m c] by blast
  let ?r = "case r1 of Inl e \<Rightarrow> Inl (g e) | Inr x \<Rightarrow> Inr x"
  have "quiet_run (try_except m (\<lambda>e. raise (g e))) c ?r d1"
    using q by (auto simp: quiet_run_def run_combinators split: sum.splits)
  moreover have "same_run (try_except m (\<lambda>e. raise (g e))) c ?r d1" if "same_run m c r1 d1"
    using that by (auto simp: same_run_def run_combinators split: sum.splits)
  moreover have "failed_run (try_except m (\<lambda>e. raise (g e))) c" if "failed_run m c"
    using that g by (auto simp: failed_run_def run_combinators)
  ultimately show "\<exists>r d'. quiet_run (try_except m (\<lambda>e. raise (g e))) c r d' \<and>
      (same_run (try_except m (\<lambda>e. raise (g e))) c r d' \<or> failed_run (try_except m (\<lambda>e. raise (g e))) c)"
    using s by blast
qed

text \<open>Statements that read or change only the transaction's copy.\<close>

definition local_act :: "('z conn_scheme, 'a) prog \<Rightarrow> bool" where
  "local_act act \<longleftrightarrow> (\<forall>c d. is_open c \<longrightarrow> work c = Some d \<longrightarrow>
     (\<exists>r d'. \<forall>fs. act (c\<lparr>faults := fs\<rparr>) = (r, c\<lparr>work := Some d', faults := fs\<rparr>)))"

lemma execute_cases:
  assumes c: "is_open c" "list_all encodable ps"
  shows "execute ps act c = (case faults c of [] \<Rightarrow> act c
     | FError # fs \<Rightarrow> (Inl DatabaseError, c\<lparr>faults := fs\<rparr>)
     | FApplied # fs \<Rightarrow> (case act (c\<lparr>faults := fs\<rparr>) of (Inl e, c') \<Rightarrow> (Inl e, c')
         | (Inr _, c') \<Rightarrow> (Inl DatabaseError, c'))
     | FAborted # fs \<Rightarrow> (Inl DatabaseError, end_tx (c\<lparr>faults := fs\<rparr>))
     | f # fs \<Rightarrow> act (c\<lparr>faults := fs\<rparr>))"
  using c by (auto simp: execute_def execute_f_def run_combinators take_fault_def
      split: list.splits fault.splits prod.splits sum.splits)

lemma execute_unencodable:
  "is_open c \<Longrightarrow> \<not> list_all encodable ps \<Longrightarrow> execute ps act c = (Inl UnicodeEncodeError, c)"
  by (simp add: execute_def execute_f_def run_combinators)

lemma faithful_execute:
  assumes act: "local_act act"
  shows "faithful (execute ps act)"
proof (rule faithfulI)
  fix c :: "'a conn_scheme" and d
  assume c: "is_open c" "work c = Some d"
  show "\<exists>r d'. quiet_run (execute ps act) c r d' \<and>
      (same_run (execute ps act) c r d' \<or> failed_run (execute ps act) c)"
  proof (cases "list_all encodable ps")
    case False
    then have "quiet_run (execute ps act) c (Inl UnicodeEncodeError) d"
      and "same_run (execute ps act) c (Inl UnicodeEncodeError) d"
      using c by (auto intro!: quiet_run_here same_run_here simp: execute_unencodable)
    then show ?thesis by blast
  next
    case enc: True
    obtain r d' where r: "\<And>fs. act (c\<lparr>faults := fs\<rparr>) = (r, c\<lparr>work := Some d', faults := fs\<rparr>)"
      using act c unfolding local_act_def by blast
    have r0: "act c = (r, c\<lparr>work := Some d', faults := faults c\<rparr>)"
      using r [of "faults c"] by simp
    have q: "quiet_run (execute ps act) c r d'"
      using c enc r [of "[]"] by (simp add: quiet_run_def execute_cases) (simp add: quiet_def)
    have failed: "failed_run (execute ps act) c"
      if "execute ps act c = (Inl e, c')" "statement_error e" "spoiled c c'" for e c'
      using that by (auto simp: failed_run_def)
    show ?thesis
    proof (cases "faults c")
      case Nil
      with c enc r0 have "same_run (execute ps act) c r d'"
        by (auto simp: same_run_def execute_cases)
      with q show ?thesis by blast
    next
      case (Cons f fs)
      note run = execute_cases [OF c(1) enc, of act, unfolded Cons, simplified]
      have ok: "same_run (execute ps act) c r d'" if "f = FOk \<or> f = FRefused"
        using that run r [of fs] by (auto simp: same_run_def)
      have err: "failed_run (execute ps act) c" if "f = FError"
        using that run by (intro failed [OF _ _ spoiled_faults [OF c(2)]]) auto
      have aborted: "failed_run (execute ps act) c" if "f = FAborted"
        using that run by (intro failed [OF _ _ spoiled_end_tx]) auto
      have applied: "same_run (execute ps act) c r d' \<or> failed_run (execute ps act) c" if "f = FApplied"
      proof (cases r)
        case (Inl e)
        with that run r [of fs] show ?thesis by (auto simp: same_run_def)
      next
        case (Inr x)
        with that run r [of fs] show ?thesis by (intro disjI2 failed [OF _ _ spoiled_work]) auto
      qed
      from q ok err aborted applied show ?thesis by (cases f) blast+
    qed
  qed
qed

lemma faithful_select [impl_intros]: "faithful (select ns ps f)"
  unfolding select_def
proof (rule faithful_execute, unfold local_act_def, intro allI impI)
  fix c :: "'a conn_scheme" and d
  assume "is_open c" "work c = Some d"
  then show "\<exists>r d'. \<forall>fs. (if has_tables ns (view (c\<lparr>faults := fs\<rparr>))
      then (Inr (f (view (c\<lparr>faults := fs\<rparr>))), c\<lparr>faults := fs\<rparr>)
      else (Inl DatabaseError, c\<lparr>faults := fs\<rparr>)) = (r, c\<lparr>work := Some d', faults := fs\<rparr>)"
    by (cases "has_tables ns d") (auto intro: same_work_ex)
qed

lemma faithful_pragma [impl_intros]: "faithful (pragma f)"
  unfolding pragma_def
proof (rule faithful_execute, unfold local_act_def, intro allI impI)
  fix c :: "'a conn_scheme" and d
  assume "is_open c" "work c = Some d"
  then show "\<exists>r d'. \<forall>fs. gets (\<lambda>c. f (view c)) (c\<lparr>faults := fs\<rparr>) = (r, c\<lparr>work := Some d', faults := fs\<rparr>)"
    by (auto simp: run_simps intro: same_work_ex)
qed

lemma faithful_change [impl_intros]: "faithful (change ps f)"
  unfolding change_def
proof (rule faithful_execute, unfold local_act_def, intro allI impI)
  fix c :: "'a conn_scheme" and d
  assume "is_open c" "work c = Some d"
  then show "\<exists>r d'. \<forall>fs. (if busy (c\<lparr>faults := fs\<rparr>) \<and> \<not> in_transaction (c\<lparr>faults := fs\<rparr>)
        then (Inl DatabaseError, c\<lparr>faults := fs\<rparr>)
        else case f (view (c\<lparr>faults := fs\<rparr>)) of
          None \<Rightarrow> (Inl DatabaseError, c\<lparr>faults := fs\<rparr>)
        | Some (r, d) \<Rightarrow> (Inr r, put_view d (c\<lparr>faults := fs\<rparr>))) =
       (r, c\<lparr>work := Some d', faults := fs\<rparr>)"
    by (cases "f d") (auto intro: same_work_ex)
qed

section \<open>Fault-free runs inside a transaction\<close>

lemma quiet_execute:
  "is_open c \<Longrightarrow> faults c = [] \<Longrightarrow>
   execute ps act c = (if list_all encodable ps then act c else (Inl UnicodeEncodeError, c))"
  by (simp add: execute_def execute_f_def run_combinators take_fault_def)

lemma quiet_select:
  "is_open c \<Longrightarrow> faults c = [] \<Longrightarrow> work c = Some d \<Longrightarrow>
   select ns ps f c = (if list_all encodable ps
     then if has_tables ns d then (Inr (f d), c) else (Inl DatabaseError, c)
     else (Inl UnicodeEncodeError, c))"
  by (simp add: select_def quiet_execute)

lemma quiet_pragma:
  "is_open c \<Longrightarrow> faults c = [] \<Longrightarrow> work c = Some d \<Longrightarrow> pragma f c = (Inr (f d), c)"
  by (simp add: pragma_def quiet_execute run_combinators)

lemma quiet_change:
  "is_open c \<Longrightarrow> faults c = [] \<Longrightarrow> work c = Some d \<Longrightarrow>
   change ps f c = (if list_all encodable ps
     then case f d of None \<Rightarrow> (Inl DatabaseError, c) | Some (r, d') \<Rightarrow> (Inr r, c\<lparr>work := Some d'\<rparr>)
     else (Inl UnicodeEncodeError, c))"
  by (auto simp: change_def quiet_execute split: option.splits)

lemmas quiet_statements = quiet_select quiet_pragma quiet_change

section \<open>Programs that only check\<close>

text \<open>
  \<open>checks m P\<close>: in a transaction or outside of one, and without faults, \<open>m\<close> leaves the connection as
  it is and returns exactly if the database it sees satisfies \<open>P\<close>; otherwise it raises one of the
  errors for malformed stores, or \<open>DatabaseError\<close> if a table is missing. With faults it does the
  same or raises the error of a failed statement, which can at most have lost the transaction.
\<close>

definition check_error :: "exn \<Rightarrow> bool" where
  "check_error e \<longleftrightarrow> is_malformed_error e \<or> e = DatabaseError"

definition lost :: "'z conn_scheme \<Rightarrow> 'z conn_scheme \<Rightarrow> bool" where
  "lost c c' \<longleftrightarrow> (\<exists>fs. c' = c\<lparr>faults := fs\<rparr> \<or> c' = end_tx (c\<lparr>faults := fs\<rparr>))"

definition read_failed :: "('z conn_scheme, 'a) prog \<Rightarrow> 'z conn_scheme \<Rightarrow> bool" where
  "read_failed m c \<longleftrightarrow> (\<exists>e c'. m c = (Inl e, c') \<and> statement_error e \<and> lost c c')"

definition checks_at :: "('z conn_scheme, 'a) prog \<Rightarrow> (database \<Rightarrow> bool) \<Rightarrow> 'z conn_scheme \<Rightarrow> exn + 'a \<Rightarrow> bool" where
  "checks_at m P c r \<longleftrightarrow> m (quiet c) = (r, quiet c) \<and> (isl r \<longleftrightarrow> \<not> P (view c))
     \<and> (\<forall>e. r = Inl e \<longrightarrow> check_error e) \<and> ((\<exists>fs. m c = (r, c\<lparr>faults := fs\<rparr>)) \<or> read_failed m c)"

definition checks :: "('z conn_scheme, 'a) prog \<Rightarrow> (database \<Rightarrow> bool) \<Rightarrow> bool" where
  "checks m P \<longleftrightarrow> (\<forall>c. is_open c \<longrightarrow> (\<exists>r. checks_at m P c r))"

lemma view_faults [simp]: "view (c\<lparr>faults := fs\<rparr>) = view c"
  by (simp add: view_def split: option.split)

lemma lost_step: "lost (c\<lparr>faults := fs\<rparr>) c' \<Longrightarrow> lost c c'"
  by (auto simp: lost_def)

lemma lost_fields: "lost c c' \<Longrightarrow> durable c' = durable c \<and> is_open c' = is_open c \<and> busy c' = busy c \<and> (work c' = work c \<or> work c' = None)"
  by (auto simp: lost_def end_tx_def)

lemma checksI:
  assumes "\<And>c. is_open c \<Longrightarrow> \<exists>r. checks_at m P c r"
  shows "checks m P"
  using assms by (simp add: checks_def)

lemma checksD: "checks m P \<Longrightarrow> is_open c \<Longrightarrow> \<exists>r. checks_at m P c r"
  by (simp add: checks_def)

lemma checksE:
  assumes "checks m P" "is_open c" "faults c = []"
  obtains (good) x where "m c = (Inr x, c)" "P (view c)"
    | (bad) e where "m c = (Inl e, c)" "\<not> P (view c)" "check_error e"
proof -
  obtain r where r: "m c = (r, c)" "isl r \<longleftrightarrow> \<not> P (view c)" "\<forall>e. r = Inl e \<longrightarrow> check_error e"
    using checksD [OF assms(1,2)] by (auto simp: checks_at_def quiet_id assms(3))
  show thesis
  proof (cases r)
    case (Inl e)
    with r show thesis by (intro bad) auto
  next
    case (Inr x)
    with r show thesis by (intro good) auto
  qed
qed

text \<open>A run of a checking program with any faults.\<close>

lemma checked_run:
  assumes "checks m P" "is_open c"
  obtains (good) x fs where "m c = (Inr x, c\<lparr>faults := fs\<rparr>)" "P (view c)"
    | (bad) e c' where "m c = (Inl e, c')" "check_error e" "lost c c'"
proof -
  obtain r where r: "isl r \<longleftrightarrow> \<not> P (view c)" "\<forall>e. r = Inl e \<longrightarrow> check_error e"
    "(\<exists>fs. m c = (r, c\<lparr>faults := fs\<rparr>)) \<or> read_failed m c"
    using checksD [OF assms] by (auto simp: checks_at_def)
  have error: "statement_error e \<Longrightarrow> check_error e" for e
    by (auto simp: statement_error_def check_error_def)
  consider "read_failed m c" | fs where "m c = (r, c\<lparr>faults := fs\<rparr>)" using r(3) by blast
  then show thesis
  proof cases
    case 1
    then show thesis using error bad by (auto simp: read_failed_def)
  next
    case 2
    then show thesis
    proof (cases r)
      case (Inl e)
      with 2 r(2) show thesis by (intro bad [of e]) (auto simp: lost_def)
    next
      case (Inr x)
      with 2 r(1) show thesis by (intro good) auto
    qed
  qed
qed

named_theorems check_intros "composition of checking programs"

lemma checks_constant:
  assumes "\<And>c. m c = (r, c)" "isl r \<longleftrightarrow> \<not> b" "\<And>e. r = Inl e \<Longrightarrow> check_error e"
  shows "checks m (\<lambda>_. b)"
proof (rule checksI)
  fix c :: "'a conn_scheme"
  have "m c = (r, c\<lparr>faults := faults c\<rparr>)" using assms(1) by simp
  then show "\<exists>r. checks_at m (\<lambda>_. b) c r" unfolding checks_at_def using assms by blast
qed

lemma checks_ret [check_intros]: "checks (ret x) (\<lambda>_. True)"
  by (rule checks_constant [where r = "Inr x"]) (simp_all add: run_simps)

lemma checks_guard [check_intros]: "check_error e \<Longrightarrow> checks (guard b e) (\<lambda>_. b)"
  by (cases b; rule checks_constant) (auto simp: run_combinators)

lemma checks_of_result [check_intros]:
  "(\<And>e. r = Inl e \<Longrightarrow> check_error e) \<Longrightarrow> checks (of_result r) (\<lambda>_. \<not> isl r)"
  by (rule checks_constant) (simp_all add: run_simps)

text \<open>Sequencing, for a first part that raises or passes \<open>x\<close> on.\<close>

lemma checks_at_bnd_Inl: "checks_at m P c (Inl e) \<Longrightarrow> \<not> R (view c) \<Longrightarrow> checks_at (bnd m f) R c (Inl e)"
  by (auto simp: checks_at_def run_bnd read_failed_def)

lemma checks_at_bnd_Inr:
  assumes m: "checks_at m P c (Inr x)" and f: "\<And>fs. checks_at (f x) Q (c\<lparr>faults := fs\<rparr>) (r' fs)"
    and R: "R (view c) \<longleftrightarrow> Q (view c)"
  shows "checks_at (bnd m f) R c (r' [])"
proof -
  have same: "r' fs = r' []" for fs
    using f [of fs] f [of "[]"] by (simp add: checks_at_def)
  have q: "m (quiet c) = (Inr x, quiet c)" "f x (quiet c) = (r' [], quiet c)" "isl (r' []) \<longleftrightarrow> \<not> R (view c)"
    "\<forall>e. r' [] = Inl e \<longrightarrow> check_error e"
    using m f [of "[]"] R by (auto simp: checks_at_def)
  have "(\<exists>fs. bnd m f c = (r' [], c\<lparr>faults := fs\<rparr>)) \<or> read_failed (bnd m f) c"
  proof (cases "read_failed m c")
    case True
    then show ?thesis by (auto simp: read_failed_def run_bnd)
  next
    case False
    then obtain fs where fs: "m c = (Inr x, c\<lparr>faults := fs\<rparr>)" using m by (auto simp: checks_at_def)
    then have run: "bnd m f c = f x (c\<lparr>faults := fs\<rparr>)" by (simp add: run_bnd)
    have "(\<exists>gs. f x (c\<lparr>faults := fs\<rparr>) = (r' [], c\<lparr>faults := fs, faults := gs\<rparr>)) \<or> read_failed (f x) (c\<lparr>faults := fs\<rparr>)"
      using f [of fs] unfolding checks_at_def same [of fs] by blast
    moreover have "read_failed (f x) (c\<lparr>faults := fs\<rparr>) \<Longrightarrow> read_failed (bnd m f) c"
      unfolding read_failed_def run using lost_step by blast
    ultimately show ?thesis unfolding run by auto
  qed
  with q show ?thesis by (simp add: checks_at_def run_bnd)
qed

lemma checks_bnd:
  assumes m: "checks m P" and f: "\<And>x. checks (f x) (Q x)"
    and R: "\<And>c x. is_open c \<Longrightarrow> checks_at m P c (Inr x) \<Longrightarrow> R (view c) \<longleftrightarrow> Q x (view c)"
    and no: "\<And>d. \<not> P d \<Longrightarrow> \<not> R d"
  shows "checks (bnd m f) R"
proof (rule checksI)
  fix c :: "'a conn_scheme"
  assume c: "is_open c"
  obtain r where r: "checks_at m P c r" using checksD [OF m c] by blast
  show "\<exists>r. checks_at (bnd m f) R c r"
  proof (cases r)
    case (Inl e)
    with r have "\<not> R (view c)" using no by (simp add: checks_at_def)
    from checks_at_bnd_Inl [where R = R, OF r [unfolded Inl] this] show ?thesis by (rule exI)
  next
    case (Inr x)
    have "\<forall>fs. \<exists>r. checks_at (f x) (Q x) (c\<lparr>faults := fs\<rparr>) r"
      using checksD [OF f] c by simp
    then obtain r' where "\<And>fs. checks_at (f x) (Q x) (c\<lparr>faults := fs\<rparr>) (r' fs)" by metis
    from checks_at_bnd_Inr [where f = f and Q = "Q x" and R = R, OF r [unfolded Inr] this R [OF c r [unfolded Inr]]] show ?thesis by (rule exI)
  qed
qed

lemma checks_sq [check_intros]:
  assumes "checks m P" "checks n Q"
  shows "checks (sq m n) (\<lambda>d. P d \<and> Q d)"
  unfolding sq_def
  by (rule checks_bnd [OF assms(1), where Q = "\<lambda>_. Q"]) (use assms in \<open>auto simp: checks_at_def\<close>)

lemma checks_bnd_result [check_intros]:
  assumes "\<And>e. r = Inl e \<Longrightarrow> check_error e" "\<And>x. r = Inr x \<Longrightarrow> checks (f x) (P x)"
  shows "checks (bnd (of_result r) f) (\<lambda>d. case r of Inl _ \<Rightarrow> False | Inr x \<Rightarrow> P x d)"
proof (cases r)
  case (Inl e)
  have "checks (bnd (of_result r) f) (\<lambda>_. False)"
    by (rule checks_constant [where r = "Inl e"]) (use Inl assms(1) in \<open>auto simp: run_combinators\<close>)
  with Inl show ?thesis by simp
next
  case (Inr x)
  have "bnd (of_result r) f = f x" by (simp add: fun_eq_iff run_combinators Inr)
  with assms(2) [OF Inr] Inr show ?thesis by simp
qed

text \<open>Queries.\<close>

lemma read_execute:
  assumes act: "\<And>c. act c = (r (view c), c)" and c: "is_open c"
  shows "execute [] act (quiet c) = (r (view c), quiet c)
    \<and> ((\<exists>fs. execute [] act c = (r (view c), c\<lparr>faults := fs\<rparr>)) \<or> read_failed (execute [] act) c)"
proof -
  have "\<exists>fs. c = c\<lparr>faults := fs\<rparr>" by (rule exI [of _ "faults c"]) simp
  moreover have "lost c (c\<lparr>faults := fs\<rparr>)" "lost c (end_tx (c\<lparr>faults := fs\<rparr>))" for fs
    by (auto simp: lost_def)
  ultimately show ?thesis
    using c by (auto simp: execute_cases act read_failed_def split: list.split fault.split sum.split)
qed

lemma checks_pragma: "checks (pragma f) (\<lambda>_. True)" "checks_at (pragma f) P c (Inr x) \<Longrightarrow> is_open c \<Longrightarrow> x = f (view c)"
proof -
  have read: "is_open c \<Longrightarrow> pragma f (quiet c) = (Inr (f (view c)), quiet c) \<and>
      ((\<exists>fs. pragma f c = (Inr (f (view c)), c\<lparr>faults := fs\<rparr>)) \<or> read_failed (pragma f) c)" for c
    unfolding pragma_def by (rule read_execute) (simp_all add: run_simps)
  have "is_open c \<Longrightarrow> checks_at (pragma f) (\<lambda>_. True) c (Inr (f (view c)))" for c
    using read [of c] by (simp add: checks_at_def)
  then show "checks (pragma f) (\<lambda>_. True)" by (intro checksI exI)
  show "checks_at (pragma f) P c (Inr x) \<Longrightarrow> is_open c \<Longrightarrow> x = f (view c)"
    using read [of c] by (simp add: checks_at_def)
qed

lemma checks_select: "checks (select ns [] f) (has_tables ns)"
  "checks_at (select ns [] f) P c (Inr x) \<Longrightarrow> is_open c \<Longrightarrow> has_tables ns (view c) \<and> x = f (view c)"
proof -
  let ?r = "\<lambda>d. if has_tables ns d then Inr (f d) else Inl DatabaseError"
  have read: "is_open c \<Longrightarrow> select ns [] f (quiet c) = (?r (view c), quiet c) \<and>
      ((\<exists>fs. select ns [] f c = (?r (view c), c\<lparr>faults := fs\<rparr>)) \<or> read_failed (select ns [] f) c)" for c
    unfolding select_def by (rule read_execute) simp_all
  have "is_open c \<Longrightarrow> checks_at (select ns [] f) (has_tables ns) c (?r (view c))" for c
    using read [of c] by (simp add: checks_at_def check_error_def)
  then show "checks (select ns [] f) (has_tables ns)" by (intro checksI exI)
  show "checks_at (select ns [] f) P c (Inr x) \<Longrightarrow> is_open c \<Longrightarrow> has_tables ns (view c) \<and> x = f (view c)"
    using read [of c] by (auto simp: checks_at_def split: if_splits)
qed

lemma checks_bnd_pragma [check_intros]:
  assumes "\<And>x. checks (g x) (P x)"
  shows "checks (bnd (pragma f) g) (\<lambda>d. P (f d) d)"
  by (rule checks_bnd [OF checks_pragma(1) assms]) (auto dest: checks_pragma(2))

lemma checks_bnd_select [check_intros]:
  assumes "\<And>x. checks (g x) (P x)"
  shows "checks (bnd (select ns [] f) g) (\<lambda>d. has_tables ns d \<and> P (f d) d)"
  by (rule checks_bnd [OF checks_select(1) assms]) (auto dest: checks_select(2))

lemma checks_for_each [check_intros]:
  assumes "\<And>x. checks (f x) (P x)"
  shows "checks (for_each xs f) (\<lambda>d. \<forall>x\<in>set xs. P x d)"
proof (induction xs)
  case Nil
  show ?case using checks_ret [of "()"] by simp
next
  case (Cons x xs)
  from checks_sq [OF assms [of x] Cons.IH] show ?case by simp
qed

text \<open>An \<open>except\<close> clause that turns one error into another.\<close>

lemma checks_convert:
  assumes m: "checks m P" and g: "\<And>e. check_error e \<Longrightarrow> check_error (g e)" "\<And>e. statement_error e \<Longrightarrow> statement_error (g e)"
  shows "checks (try_except m (\<lambda>e. raise (g e))) P"
proof (rule checksI)
  fix c :: "'a conn_scheme"
  assume "is_open c"
  then obtain r where r: "checks_at m P c r" using checksD [OF m] by blast
  let ?r = "case r of Inl e \<Rightarrow> Inl (g e) | Inr x \<Rightarrow> Inr x"
  have "checks_at (try_except m (\<lambda>e. raise (g e))) P c ?r"
    using r g by (cases r) (auto simp: checks_at_def run_combinators read_failed_def)
  then show "\<exists>r. checks_at (try_except m (\<lambda>e. raise (g e))) P c r" by (rule exI)
qed

lemma checks_weaken: "checks m P \<Longrightarrow> (\<And>d. P d \<longleftrightarrow> Q d) \<Longrightarrow> checks m Q"
  by (auto simp: checks_def checks_at_def)

end
