(* ===== verification/Authority_Types.thy ===== *)
theory Authority_Types
  imports Sqlite_Tx
begin

text \<open>
  Constants, table definitions, enumerations and observations of
  \<open>master/buildbot/umbilical_authority.py\<close>, and the state of an \<open>AuthorityStore\<close> object:
  its connection, whether it still refers to it, and whether it is poisoned.
\<close>

section \<open>Constants\<close>

definition v1_schema_version :: int where "v1_schema_version = 1"
definition v2_schema_version :: int where "v2_schema_version = 2"
definition v3_schema_version :: int where "v3_schema_version = 3"
definition v4_schema_version :: int where "v4_schema_version = 4"
definition schema_version :: int where "schema_version = 5"
definition max_generation :: int where "max_generation = 2 ^ 63 - 1"
definition min_sqlite_integer :: int where "min_sqlite_integer = - (2 ^ 63)"
definition max_sqlite_integer :: int where "max_sqlite_integer = 2 ^ 63 - 1"

lemmas schema_versions = v1_schema_version_def v2_schema_version_def v3_schema_version_def
  v4_schema_version_def schema_version_def

section \<open>Table definitions\<close>

text \<open>A triple-quoted statement: a line break, then its lines; \<open>q1\<close> is a quote, \<open>qq\<close> SQL's empty string.\<close>

definition sql_lines :: "string list \<Rightarrow> string" where
  "sql_lines ls = CHR 0x0A # concat (map (\<lambda>l. l @ [CHR 0x0A]) ls)"

definition qq :: string where
  "qq = [CHR 0x27, CHR 0x27]"

definition q1 :: string where
  "q1 = [CHR 0x27]"

definition create_generations_sql :: ddl where
  "create_generations_sql = \<lparr>ddl_name = ''controller_generations'',
     ddl_text = sql_lines
       [''CREATE TABLE controller_generations ('',
        ''    scope TEXT NOT NULL PRIMARY KEY'',
        ''        CHECK(typeof(scope) = 'text' AND scope <> '' @ qq @ ''),'',
        ''    generation INTEGER NOT NULL'',
        ''        CHECK(typeof(generation) = 'integer' AND generation > 0)'',
        '') WITHOUT ROWID''],
     ddl_columns = [(0, ''scope'', ''TEXT'', 1, None, 1), (1, ''generation'', ''INTEGER'', 1, None, 0)]\<rparr>"

definition create_execution_keys_sql :: ddl where
  "create_execution_keys_sql = \<lparr>ddl_name = ''execution_keys'',
     ddl_text = sql_lines
       [''CREATE TABLE execution_keys ('',
        ''    execution_key TEXT NOT NULL PRIMARY KEY'',
        ''        CHECK(typeof(execution_key) = 'text' AND execution_key <> '' @ qq @ '')'',
        '') WITHOUT ROWID''],
     ddl_columns = [(0, ''execution_key'', ''TEXT'', 1, None, 1)]\<rparr>"

definition create_execution_command_bindings_sql :: ddl where
  "create_execution_command_bindings_sql = \<lparr>ddl_name = ''execution_command_bindings'',
     ddl_text = sql_lines
       [''CREATE TABLE execution_command_bindings ('',
        ''    execution_key TEXT NOT NULL PRIMARY KEY'',
        ''        CHECK(typeof(execution_key) = 'text' AND execution_key <> '' @ qq @ ''),'',
        ''    command_spec_hash TEXT NOT NULL'',
        ''        CHECK(typeof(command_spec_hash) = 'text' AND command_spec_hash <> '' @ qq @ '')'',
        '') WITHOUT ROWID''],
     ddl_columns = [(0, ''execution_key'', ''TEXT'', 1, None, 1),
       (1, ''command_spec_hash'', ''TEXT'', 1, None, 0)]\<rparr>"

definition create_execution_admissions_sql :: ddl where
  "create_execution_admissions_sql = \<lparr>ddl_name = ''execution_admissions'',
     ddl_text = sql_lines
       [''CREATE TABLE execution_admissions ('',
        ''    execution_key TEXT NOT NULL PRIMARY KEY'',
        ''        CHECK(typeof(execution_key) = 'text' AND execution_key <> '' @ qq @ ''),'',
        ''    authority_scope TEXT NOT NULL'',
        ''        CHECK(typeof(authority_scope) = 'text' AND authority_scope <> '' @ qq @ ''),'',
        ''    controller_generation INTEGER NOT NULL'',
        ''        CHECK('',
        ''            typeof(controller_generation) = 'integer'' @ q1,
        ''            AND controller_generation > 0'',
        ''        )'',
        '') WITHOUT ROWID''],
     ddl_columns = [(0, ''execution_key'', ''TEXT'', 1, None, 1),
       (1, ''authority_scope'', ''TEXT'', 1, None, 0),
       (2, ''controller_generation'', ''INTEGER'', 1, None, 0)]\<rparr>"

definition create_execution_launches_sql :: ddl where
  "create_execution_launches_sql = \<lparr>ddl_name = ''execution_launches'',
     ddl_text = sql_lines
       [''CREATE TABLE execution_launches ('',
        ''    execution_key TEXT NOT NULL PRIMARY KEY'',
        ''        CHECK(typeof(execution_key) = 'text' AND execution_key <> '' @ qq @ ''),'',
        ''    command_spec_hash TEXT NOT NULL'',
        ''        CHECK(typeof(command_spec_hash) = 'text' AND command_spec_hash <> '' @ qq @ ''),'',
        ''    authority_scope TEXT NOT NULL'',
        ''        CHECK(typeof(authority_scope) = 'text' AND authority_scope <> '' @ qq @ ''),'',
        ''    controller_generation INTEGER NOT NULL'',
        ''        CHECK('',
        ''            typeof(controller_generation) = 'integer'' @ q1,
        ''            AND controller_generation > 0'',
        ''        ),'',
        ''    launch_state TEXT NOT NULL'',
        ''        CHECK('',
        ''            typeof(launch_state) = 'text'' @ q1,
        ''            AND launch_state IN ('intent', 'unknown', 'terminal')'',
        ''        ),'',
        ''    exit_code INTEGER'',
        ''        CHECK('',
        ''            (launch_state IN ('intent', 'unknown') AND exit_code IS NULL)'',
        ''            OR (launch_state = 'terminal' AND typeof(exit_code) = 'integer')'',
        ''        )'',
        '') WITHOUT ROWID''],
     ddl_columns = [(0, ''execution_key'', ''TEXT'', 1, None, 1),
       (1, ''command_spec_hash'', ''TEXT'', 1, None, 0),
       (2, ''authority_scope'', ''TEXT'', 1, None, 0),
       (3, ''controller_generation'', ''INTEGER'', 1, None, 0),
       (4, ''launch_state'', ''TEXT'', 1, None, 0),
       (5, ''exit_code'', ''INTEGER'', 0, None, 0)]\<rparr>"

lemmas ddl_defs = create_generations_sql_def create_execution_keys_sql_def
  create_execution_command_bindings_sql_def create_execution_admissions_sql_def
  create_execution_launches_sql_def

lemma stored_sql_lines: "stored_sql (sql_lines ((CHR ''C'' # l) # ls)) = tl (sql_lines ((CHR ''C'' # l) # ls))"
  by (simp add: stored_sql_def sql_lines_def)

section \<open>Results and observations\<close>

datatype ExecutionKeyRegistration = KEY_NEW | KEY_DUPLICATE

datatype CommandSpecBindingResult = BOUND | ALREADY_BOUND

datatype ExecutionAdmissionResult = ADMITTED | ALREADY_ADMITTED

datatype ExecutionLaunchState = INTENT | UNKNOWN | TERMINAL

fun launch_state_value :: "ExecutionLaunchState \<Rightarrow> string" where
  "launch_state_value INTENT = ''intent''"
| "launch_state_value UNKNOWN = ''unknown''"
| "launch_state_value TERMINAL = ''terminal''"

text \<open>\<open>ExecutionLaunchState(text)\<close>; \<open>None\<close> stands for \<open>ValueError\<close>.\<close>

definition launch_state_of :: "pystr \<Rightarrow> ExecutionLaunchState option" where
  "launch_state_of s =
     (if s = py ''intent'' then Some INTENT else if s = py ''unknown'' then Some UNKNOWN
      else if s = py ''terminal'' then Some TERMINAL else None)"

lemma launch_state_value_inject [simp]: "launch_state_value a = launch_state_value b \<longleftrightarrow> a = b"
  by (cases a; cases b) simp_all

lemma launch_state_of_value [simp]: "launch_state_of (py (launch_state_value st)) = Some st"
  by (cases st) (simp_all add: launch_state_of_def del: py_Cons)

lemma launch_state_of_Some: "launch_state_of s = Some st \<longleftrightarrow> s = py (launch_state_value st)"
  by (cases st) (auto simp: launch_state_of_def simp del: py_Cons)

text \<open>The order in which a launch moves through its states.\<close>

instantiation ExecutionLaunchState :: linorder
begin

fun rank :: "ExecutionLaunchState \<Rightarrow> nat" where
  "rank INTENT = 0"
| "rank UNKNOWN = 1"
| "rank TERMINAL = 2"

definition less_eq_ExecutionLaunchState :: "ExecutionLaunchState \<Rightarrow> ExecutionLaunchState \<Rightarrow> bool" where
  "a \<le> b \<longleftrightarrow> rank a \<le> rank b"

definition less_ExecutionLaunchState :: "ExecutionLaunchState \<Rightarrow> ExecutionLaunchState \<Rightarrow> bool" where
  "a < b \<longleftrightarrow> rank a < rank b"

instance
proof
  fix a b :: ExecutionLaunchState
  show "a \<le> b \<Longrightarrow> b \<le> a \<Longrightarrow> a = b"
    by (cases a; cases b) (simp_all add: less_eq_ExecutionLaunchState_def)
qed (auto simp: less_eq_ExecutionLaunchState_def less_ExecutionLaunchState_def)

end

record ExecutionAdmission =
  adm_key :: pystr
  adm_scope :: pystr
  adm_generation :: int

record ExecutionLaunch =
  lch_key :: pystr
  lch_hash :: pystr
  lch_scope :: pystr
  lch_generation :: int
  lch_state :: ExecutionLaunchState
  lch_exit :: "int option"

section \<open>The store object\<close>

text \<open>
  \<open>connected\<close>: \<open>self._connection is not None\<close>; \<open>poisoned\<close>: \<open>self._poisoned\<close>. The connection's
  own fields are those of \<open>conn\<close>.
\<close>

record store = conn +
  store_path :: pystr
  connected :: bool
  poisoned :: bool

lemma store_update_order [simp]:
  fixes s :: store
  shows "s\<lparr>connected := b, work := w\<rparr> = s\<lparr>work := w, connected := b\<rparr>"
    and "s\<lparr>poisoned := p, work := w\<rparr> = s\<lparr>work := w, poisoned := p\<rparr>"
    and "s\<lparr>connected := b, faults := fs\<rparr> = s\<lparr>faults := fs, connected := b\<rparr>"
    and "s\<lparr>poisoned := p, faults := fs\<rparr> = s\<lparr>faults := fs, poisoned := p\<rparr>"
  by (cases s; simp)+

end
