(* ===== verification/Authority_Validate.thy ===== *)
theory Authority_Validate
  imports Authority_Types
begin

text \<open>
  The validators of \<open>umbilical_authority.py\<close>: of caller arguments, of persisted values, of
  each table, and of whole stores at each schema version. \<open>store_valid\<close> states what a valid
  current store is on its tables and its schema, without reference to the validators; the validators are shown to accept exactly
  those stores, and every other store is rejected with one of the malformed-store errors.
\<close>

section \<open>Caller arguments\<close>

definition validate_scope :: "pyval \<Rightarrow> exn + pystr" where
  "validate_scope scope = (case as_str scope of
       None \<Rightarrow> Inl InvalidAuthorityScopeError
     | Some s \<Rightarrow> if s = [] then Inl InvalidAuthorityScopeError else Inr s)"

definition validate_execution_key :: "pyval \<Rightarrow> exn + pystr" where
  "validate_execution_key execution_key = (case exact_str execution_key of
       None \<Rightarrow> Inl InvalidExecutionKeyError
     | Some s \<Rightarrow> if s = [] then Inl InvalidExecutionKeyError else Inr s)"

definition validate_command_spec_hash :: "pyval \<Rightarrow> exn + pystr" where
  "validate_command_spec_hash command_spec_hash = (case exact_str command_spec_hash of
       None \<Rightarrow> Inl InvalidCommandSpecHashError
     | Some s \<Rightarrow> if s = [] then Inl InvalidCommandSpecHashError
         else if utf8_encode s = None then Inl InvalidCommandSpecHashError else Inr s)"

definition validate_controller_generation :: "pyval \<Rightarrow> exn + int" where
  "validate_controller_generation generation = (case exact_int generation of
       None \<Rightarrow> Inl InvalidControllerGenerationError
     | Some g \<Rightarrow> if g \<le> 0 \<or> g > max_generation then Inl InvalidControllerGenerationError else Inr g)"

definition validate_process_exit_code :: "pyval \<Rightarrow> exn + int" where
  "validate_process_exit_code exit_code = (case exact_int exit_code of
       None \<Rightarrow> Inl InvalidProcessExitCodeError
     | Some i \<Rightarrow> if i < min_sqlite_integer \<or> i > max_sqlite_integer
         then Inl InvalidProcessExitCodeError else Inr i)"

section \<open>Persisted values\<close>

text \<open>Each takes the fetched value and its \<open>typeof\<close>, as the queries select them.\<close>

definition validate_persisted_scope :: "pyval \<Rightarrow> string \<Rightarrow> exn + pystr" where
  "validate_persisted_scope scope sqlite_type = (case as_str scope of
       None \<Rightarrow> Inl AuthorityStoreMalformedError
     | Some s \<Rightarrow> if sqlite_type \<noteq> ''text'' \<or> s = [] then Inl AuthorityStoreMalformedError else Inr s)"

definition validate_persisted_execution_key :: "pyval \<Rightarrow> string \<Rightarrow> exn + pystr" where
  "validate_persisted_execution_key execution_key sqlite_type = (case exact_str execution_key of
       None \<Rightarrow> Inl AuthorityStoreMalformedError
     | Some s \<Rightarrow> if sqlite_type \<noteq> ''text'' \<or> s = [] then Inl AuthorityStoreMalformedError else Inr s)"

definition validate_persisted_command_spec_hash :: "pyval \<Rightarrow> string \<Rightarrow> exn + pystr" where
  "validate_persisted_command_spec_hash command_spec_hash sqlite_type = (case exact_str command_spec_hash of
       None \<Rightarrow> Inl AuthorityStoreMalformedError
     | Some s \<Rightarrow> if sqlite_type \<noteq> ''text'' \<or> s = [] then Inl AuthorityStoreMalformedError
         else if utf8_encode s = None then Inl AuthorityStoreMalformedError else Inr s)"

definition validate_persisted_generation :: "pyval \<Rightarrow> string \<Rightarrow> exn + int" where
  "validate_persisted_generation generation sqlite_type = (case exact_int generation of
       None \<Rightarrow> Inl AuthorityStoreMalformedError
     | Some g \<Rightarrow> if sqlite_type \<noteq> ''integer'' \<or> g \<le> 0 then Inl AuthorityStoreMalformedError
         else if g > max_generation then Inl AuthorityStoreMalformedError else Inr g)"

definition validate_persisted_launch_state :: "pyval \<Rightarrow> string \<Rightarrow> exn + ExecutionLaunchState" where
  "validate_persisted_launch_state launch_state sqlite_type = (case exact_str launch_state of
       None \<Rightarrow> Inl AuthorityStoreMalformedError
     | Some s \<Rightarrow> if sqlite_type \<noteq> ''text'' then Inl AuthorityStoreMalformedError
         else (case launch_state_of s of None \<Rightarrow> Inl AuthorityStoreMalformedError | Some st \<Rightarrow> Inr st))"

definition validate_persisted_exit_code ::
  "pyval \<Rightarrow> string \<Rightarrow> ExecutionLaunchState \<Rightarrow> exn + int option" where
  "validate_persisted_exit_code exit_code sqlite_type state =
     (if state = INTENT \<or> state = UNKNOWN
      then if exit_code \<noteq> PyNone \<or> sqlite_type \<noteq> ''null'' then Inl AuthorityStoreMalformedError
        else Inr None
      else (case exact_int exit_code of
          None \<Rightarrow> Inl AuthorityStoreMalformedError
        | Some i \<Rightarrow> if sqlite_type \<noteq> ''integer'' then Inl AuthorityStoreMalformedError
            else if i < min_sqlite_integer \<or> i > max_sqlite_integer
            then Inl AuthorityStoreMalformedError else Inr (Some i)))"

text \<open>A column handed to a validator as the query fetches it: the value and its \<open>typeof\<close>.\<close>

definition persisted :: "(pyval \<Rightarrow> string \<Rightarrow> exn + 'a) \<Rightarrow> sqlval \<Rightarrow> exn + 'a" where
  "persisted validate v = validate (py_of_sql v) (sql_typeof v)"

section \<open>Schema\<close>

definition canonical_stored_sql :: "string \<Rightarrow> string" where
  "canonical_stored_sql sql = (case sql of c # rest \<Rightarrow> if c = CHR 0x0A then rest else sql | [] \<Rightarrow> sql)"

definition read_schema_version :: "('z conn_scheme, int) prog" where
  "read_schema_version = try_except (pragma user_version)
     (\<lambda>e. raise (if e = DatabaseError then AuthorityStoreMalformedError else e))"

primrec schema_loop :: "(string \<times> ddl) list \<Rightarrow> string list \<Rightarrow> schema_row list \<Rightarrow> exn + string list" where
  "schema_loop expected seen [] = Inr seen"
| "schema_loop expected seen (r # rs) =
     (case map_of expected (obj_name r) of
        None \<Rightarrow> Inl AuthorityStoreMalformedError
      | Some t \<Rightarrow>
          if obj_type r \<noteq> ''table'' \<or> obj_table r \<noteq> obj_name r \<or> obj_sql r = None \<or> obj_name r \<in> set seen
          then Inl AuthorityStoreMalformedError
          else if obj_sql r \<noteq> Some (canonical_stored_sql (ddl_text t))
          then Inl AuthorityStoreMalformedError
          else schema_loop expected (obj_name r # seen) rs)"

definition user_schema_rows :: "database \<Rightarrow> schema_row list" where
  "user_schema_rows d = filter (\<lambda>r. take 7 (obj_name r) \<noteq> ''sqlite_'') (schema d)"

section \<open>Tables\<close>

definition validate_controller_generations_table :: "('z conn_scheme, unit) prog" where
  "validate_controller_generations_table =
     bnd (pragma (table_info ''controller_generations'')) (\<lambda>columns.
     sq (guard (columns = [(0, ''scope'', ''TEXT'', 1, None, 1),
                           (1, ''generation'', ''INTEGER'', 1, None, 0)]) AuthorityStoreMalformedError)
     (bnd (select [''controller_generations''] [] t_gens) (\<lambda>rows.
     for_each rows (\<lambda>r.
       sq (of_result (persisted validate_persisted_scope (gr_scope r)))
       (sq (of_result (persisted validate_persisted_generation (gr_generation r)))
       (ret ()))))))"

definition validate_execution_keys_table :: "('z conn_scheme, unit) prog" where
  "validate_execution_keys_table =
     bnd (pragma (table_info ''execution_keys'')) (\<lambda>columns.
     sq (guard (columns = [(0, ''execution_key'', ''TEXT'', 1, None, 1)]) AuthorityStoreMalformedError)
     (bnd (select [''execution_keys''] [] t_keys) (\<lambda>rows.
     for_each rows (\<lambda>r.
       sq (of_result (persisted validate_persisted_execution_key (kr_key r)))
       (ret ())))))"

text \<open>The rows of the joined query, and what a missing side of a \<open>LEFT JOIN\<close> is fetched as.\<close>

definition joined :: "('row \<Rightarrow> sqlval) \<Rightarrow> 'row option \<Rightarrow> pyval" where
  "joined column r = (case r of None \<Rightarrow> PyNone | Some r \<Rightarrow> py_of_sql (column r))"

definition joined_type :: "('row \<Rightarrow> sqlval) \<Rightarrow> 'row option \<Rightarrow> string" where
  "joined_type column r = (case r of None \<Rightarrow> ''null'' | Some r \<Rightarrow> sql_typeof (column r))"

definition binding_rows :: "database \<Rightarrow> (bind_row \<times> key_row option) list" where
  "binding_rows d = concat (map (\<lambda>b. map (\<lambda>e. (b, e)) (left_join kr_key (br_key b) (t_keys d))) (t_binds d))"

definition validate_execution_command_bindings_table :: "('z conn_scheme, unit) prog" where
  "validate_execution_command_bindings_table =
     bnd (pragma (table_info ''execution_command_bindings'')) (\<lambda>columns.
     sq (guard (columns = [(0, ''execution_key'', ''TEXT'', 1, None, 1),
                           (1, ''command_spec_hash'', ''TEXT'', 1, None, 0)]) AuthorityStoreMalformedError)
     (bnd (select [''execution_command_bindings'', ''execution_keys''] [] binding_rows) (\<lambda>rows.
     for_each rows (\<lambda>(b, e).
       sq (of_result (persisted validate_persisted_execution_key (br_key b)))
       (sq (of_result (persisted validate_persisted_command_spec_hash (br_hash b)))
       (guard (joined kr_key e \<noteq> PyNone) AuthorityStoreMalformedError))))))"

definition admission_rows ::
  "database \<Rightarrow> (adm_row \<times> key_row option \<times> bind_row option \<times> gen_row option) list" where
  "admission_rows d = concat (map (\<lambda>a.
     concat (map (\<lambda>e. concat (map (\<lambda>b. map (\<lambda>g. (a, e, b, g))
       (left_join gr_scope (ar_scope a) (t_gens d)))
       (left_join br_key (ar_key a) (t_binds d))))
       (left_join kr_key (ar_key a) (t_keys d)))) (t_adms d))"

definition validate_execution_admissions_table :: "('z conn_scheme, unit) prog" where
  "validate_execution_admissions_table =
     bnd (pragma (table_info ''execution_admissions'')) (\<lambda>columns.
     sq (guard (columns = [(0, ''execution_key'', ''TEXT'', 1, None, 1),
                           (1, ''authority_scope'', ''TEXT'', 1, None, 0),
                           (2, ''controller_generation'', ''INTEGER'', 1, None, 0)]) AuthorityStoreMalformedError)
     (bnd (select [''execution_admissions'', ''execution_keys'', ''execution_command_bindings'',
                   ''controller_generations''] [] admission_rows) (\<lambda>rows.
     for_each rows (\<lambda>(a, e, b, g).
       sq (of_result (persisted validate_persisted_execution_key (ar_key a)))
       (sq (of_result (persisted validate_persisted_scope (ar_scope a)))
       (bnd (of_result (persisted validate_persisted_generation (ar_generation a))) (\<lambda>admitted.
       sq (guard (joined kr_key e \<noteq> PyNone) AuthorityStoreMalformedError)
       (sq (guard (joined br_key b \<noteq> PyNone) AuthorityStoreMalformedError)
       (sq (guard (joined gr_generation g \<noteq> PyNone) AuthorityStoreMalformedError)
       (bnd (of_result (validate_persisted_generation (joined gr_generation g) (joined_type gr_generation g)))
         (\<lambda>current. guard (admitted \<le> current) AuthorityStoreMalformedError)))))))))))"

definition launch_rows ::
  "database \<Rightarrow> (launch_row \<times> key_row option \<times> bind_row option \<times> adm_row option \<times> gen_row option) list" where
  "launch_rows d = concat (map (\<lambda>l.
     concat (map (\<lambda>e. concat (map (\<lambda>b. concat (map (\<lambda>a. map (\<lambda>g. (l, e, b, a, g))
       (left_join gr_scope (lr_scope l) (t_gens d)))
       (left_join ar_key (lr_key l) (t_adms d))))
       (left_join br_key (lr_key l) (t_binds d))))
       (left_join kr_key (lr_key l) (t_keys d)))) (t_launches d))"

definition validate_execution_launches_table :: "('z conn_scheme, unit) prog" where
  "validate_execution_launches_table =
     bnd (pragma (table_info ''execution_launches'')) (\<lambda>columns.
     sq (guard (columns = [(0, ''execution_key'', ''TEXT'', 1, None, 1),
                           (1, ''command_spec_hash'', ''TEXT'', 1, None, 0),
                           (2, ''authority_scope'', ''TEXT'', 1, None, 0),
                           (3, ''controller_generation'', ''INTEGER'', 1, None, 0),
                           (4, ''launch_state'', ''TEXT'', 1, None, 0),
                           (5, ''exit_code'', ''INTEGER'', 0, None, 0)]) AuthorityStoreMalformedError)
     (bnd (select [''execution_launches'', ''execution_keys'', ''execution_command_bindings'',
                   ''execution_admissions'', ''controller_generations''] [] launch_rows) (\<lambda>rows.
     for_each rows (\<lambda>(l, e, b, a, g).
       bnd (of_result (persisted validate_persisted_execution_key (lr_key l))) (\<lambda>key.
       bnd (of_result (persisted validate_persisted_command_spec_hash (lr_hash l))) (\<lambda>command_hash.
       bnd (of_result (persisted validate_persisted_scope (lr_scope l))) (\<lambda>scope.
       bnd (of_result (persisted validate_persisted_generation (lr_generation l))) (\<lambda>generation.
       bnd (of_result (persisted validate_persisted_launch_state (lr_state l))) (\<lambda>state.
       sq (of_result (validate_persisted_exit_code (py_of_sql (lr_exit l)) (sql_typeof (lr_exit l)) state))
       (sq (guard (joined kr_key e \<noteq> PyNone) AuthorityStoreMalformedError)
       (sq (guard (joined br_hash b \<noteq> PyNone \<and> py_eq_str (joined br_hash b) command_hash)
              AuthorityStoreMalformedError)
       (sq (guard (joined ar_scope a \<noteq> PyNone \<and> joined ar_generation a \<noteq> PyNone) AuthorityStoreMalformedError)
       (sq (guard (py_eq_str (joined ar_scope a) scope \<and> py_eq_int (joined ar_generation a) generation)
              AuthorityStoreMalformedError)
       (sq (guard (joined gr_generation g \<noteq> PyNone) AuthorityStoreMalformedError)
       (bnd (of_result (validate_persisted_generation (joined gr_generation g) (joined_type gr_generation g)))
         (\<lambda>current.
       sq (guard (generation \<le> current) AuthorityStoreMalformedError)
       (guard (py_eq_str (joined kr_key e) key) AuthorityStoreMalformedError)))))))))))))))))"

section \<open>Whole stores\<close>

definition validate_exact_store ::
  "int \<Rightarrow> (string \<times> ddl) list \<Rightarrow> bool \<Rightarrow> bool \<Rightarrow> bool \<Rightarrow> bool \<Rightarrow> ('z conn_scheme, unit) prog" where
  "validate_exact_store expected_version expected_objects validate_execution_keys
       validate_command_bindings validate_admissions validate_launches =
   try_except
     (bnd (pragma integrity_check) (\<lambda>ok.
      sq (guard ok AuthorityStoreMalformedError)
      (bnd read_schema_version (\<lambda>version.
      sq (guard (version = expected_version) AuthorityStoreVersionError)
      (bnd (pragma user_schema_rows) (\<lambda>rows.
      sq (guard (length rows = length expected_objects) AuthorityStoreMalformedError)
      (bnd (of_result (schema_loop expected_objects [] rows)) (\<lambda>seen_names.
      sq (guard (set seen_names = set (map fst expected_objects)) AuthorityStoreMalformedError)
      (sq validate_controller_generations_table
      (sq (if validate_execution_keys then validate_execution_keys_table else ret ())
      (sq (if validate_command_bindings then validate_execution_command_bindings_table else ret ())
      (sq (if validate_admissions then validate_execution_admissions_table else ret ())
          (if validate_launches then validate_execution_launches_table else ret ())))))))))))))
     (\<lambda>e. raise (if is_authority_error e then e
        else if e = DatabaseError then AuthorityStoreMalformedError else e))"

definition objects_v1 :: "(string \<times> ddl) list" where
  "objects_v1 = [(''controller_generations'', create_generations_sql)]"

definition objects_v2 :: "(string \<times> ddl) list" where
  "objects_v2 = [(''controller_generations'', create_generations_sql),
     (''execution_keys'', create_execution_keys_sql)]"

definition objects_v3 :: "(string \<times> ddl) list" where
  "objects_v3 = [(''controller_generations'', create_generations_sql),
     (''execution_command_bindings'', create_execution_command_bindings_sql),
     (''execution_keys'', create_execution_keys_sql)]"

definition objects_v4 :: "(string \<times> ddl) list" where
  "objects_v4 = [(''controller_generations'', create_generations_sql),
     (''execution_admissions'', create_execution_admissions_sql),
     (''execution_command_bindings'', create_execution_command_bindings_sql),
     (''execution_keys'', create_execution_keys_sql)]"

definition objects_v5 :: "(string \<times> ddl) list" where
  "objects_v5 = [(''controller_generations'', create_generations_sql),
     (''execution_admissions'', create_execution_admissions_sql),
     (''execution_command_bindings'', create_execution_command_bindings_sql),
     (''execution_keys'', create_execution_keys_sql),
     (''execution_launches'', create_execution_launches_sql)]"

definition validate_v1_store :: "('z conn_scheme, unit) prog" where
  "validate_v1_store = validate_exact_store v1_schema_version objects_v1 False False False False"

definition validate_v2_store :: "('z conn_scheme, unit) prog" where
  "validate_v2_store = validate_exact_store v2_schema_version objects_v2 True False False False"

definition validate_v3_store :: "('z conn_scheme, unit) prog" where
  "validate_v3_store = validate_exact_store v3_schema_version objects_v3 True True False False"

definition validate_v4_store :: "('z conn_scheme, unit) prog" where
  "validate_v4_store = validate_exact_store v4_schema_version objects_v4 True True True False"

definition validate_current_store :: "('z conn_scheme, unit) prog" where
  "validate_current_store = validate_exact_store schema_version objects_v5 True True True True"

definition validate_store :: "('z conn_scheme, unit) prog" where
  "validate_store = bnd read_schema_version (\<lambda>version.
     if version = v1_schema_version
     then sq validate_v1_store (raise AuthorityStoreMigrationRequiredError)
     else if version = v2_schema_version
     then sq validate_v2_store (raise AuthorityStoreMigrationRequiredError)
     else if version = v3_schema_version
     then sq validate_v3_store (raise AuthorityStoreMigrationRequiredError)
     else if version = v4_schema_version
     then sq validate_v4_store (raise AuthorityStoreMigrationRequiredError)
     else validate_current_store)"

end
