(* ===== verification/Authority_Valid.thy ===== *)
theory Authority_Valid
  imports Authority_Validate
begin

text \<open>
  What a valid current store is, stated on the tables, and the proof that the validators of
  \<open>Authority_Validate\<close> accept exactly these stores. The proof composes \<open>checks\<close> facts along
  the structure of each validator.
\<close>

section \<open>Valid rows and tables\<close>

definition hash_ok :: "sqlval \<Rightarrow> bool" where
  "hash_ok v \<longleftrightarrow> (case v of SText s \<Rightarrow> s \<noteq> [] \<and> encodable s | _ \<Rightarrow> False)"

definition generation_ok :: "sqlval \<Rightarrow> bool" where
  "generation_ok v \<longleftrightarrow> (case v of SInteger g \<Rightarrow> 0 < g \<and> g \<le> max_generation | _ \<Rightarrow> False)"

definition generation_le :: "sqlval \<Rightarrow> sqlval \<Rightarrow> bool" where
  "generation_le v w \<longleftrightarrow> (case (v, w) of (SInteger g, SInteger h) \<Rightarrow> g \<le> h | _ \<Rightarrow> False)"

definition launch_ok :: "sqlval \<Rightarrow> sqlval \<Rightarrow> bool" where
  "launch_ok st ex \<longleftrightarrow>
     st = SText (py ''intent'') \<and> ex = SNull \<or> st = SText (py ''unknown'') \<and> ex = SNull
     \<or> st = SText (py ''terminal'') \<and> (case ex of SInteger i \<Rightarrow>
         min_sqlite_integer \<le> i \<and> i \<le> max_sqlite_integer | _ \<Rightarrow> False)"

definition gen_valid :: "gen_row \<Rightarrow> bool" where
  "gen_valid r \<longleftrightarrow> text_nonempty (gr_scope r) \<and> generation_ok (gr_generation r)"

definition key_valid :: "key_row \<Rightarrow> bool" where
  "key_valid r \<longleftrightarrow> text_nonempty (kr_key r)"

definition bind_valid :: "database \<Rightarrow> bind_row \<Rightarrow> bool" where
  "bind_valid d b \<longleftrightarrow> text_nonempty (br_key b) \<and> hash_ok (br_hash b)
     \<and> (\<exists>e\<in>set (t_keys d). kr_key e = br_key b)"

definition adm_valid :: "database \<Rightarrow> adm_row \<Rightarrow> bool" where
  "adm_valid d a \<longleftrightarrow> text_nonempty (ar_key a) \<and> text_nonempty (ar_scope a) \<and> generation_ok (ar_generation a)
     \<and> (\<exists>e\<in>set (t_keys d). kr_key e = ar_key a) \<and> (\<exists>b\<in>set (t_binds d). br_key b = ar_key a)
     \<and> (\<exists>g\<in>set (t_gens d). gr_scope g = ar_scope a)
     \<and> (\<forall>g\<in>set (t_gens d). gr_scope g = ar_scope a \<longrightarrow>
          generation_ok (gr_generation g) \<and> generation_le (ar_generation a) (gr_generation g))"

definition launch_valid :: "database \<Rightarrow> launch_row \<Rightarrow> bool" where
  "launch_valid d l \<longleftrightarrow> text_nonempty (lr_key l) \<and> hash_ok (lr_hash l) \<and> text_nonempty (lr_scope l)
     \<and> generation_ok (lr_generation l) \<and> launch_ok (lr_state l) (lr_exit l)
     \<and> (\<exists>e\<in>set (t_keys d). kr_key e = lr_key l)
     \<and> (\<exists>b\<in>set (t_binds d). br_key b = lr_key l)
     \<and> (\<forall>b\<in>set (t_binds d). br_key b = lr_key l \<longrightarrow> br_hash b = lr_hash l)
     \<and> (\<exists>a\<in>set (t_adms d). ar_key a = lr_key l)
     \<and> (\<forall>a\<in>set (t_adms d). ar_key a = lr_key l \<longrightarrow>
          ar_scope a = lr_scope l \<and> ar_generation a = lr_generation l)
     \<and> (\<exists>g\<in>set (t_gens d). gr_scope g = lr_scope l)
     \<and> (\<forall>g\<in>set (t_gens d). gr_scope g = lr_scope l \<longrightarrow>
          generation_ok (gr_generation g) \<and> generation_le (lr_generation l) (gr_generation g))"

definition gens_valid :: "database \<Rightarrow> bool" where
  "gens_valid d \<longleftrightarrow> (\<forall>r\<in>set (t_gens d). gen_valid r)"

definition keys_valid :: "database \<Rightarrow> bool" where
  "keys_valid d \<longleftrightarrow> (\<forall>r\<in>set (t_keys d). key_valid r)"

definition binds_valid :: "database \<Rightarrow> bool" where
  "binds_valid d \<longleftrightarrow> (\<forall>r\<in>set (t_binds d). bind_valid d r)"

definition adms_valid :: "database \<Rightarrow> bool" where
  "adms_valid d \<longleftrightarrow> (\<forall>r\<in>set (t_adms d). adm_valid d r)"

definition launches_valid :: "database \<Rightarrow> bool" where
  "launches_valid d \<longleftrightarrow> (\<forall>r\<in>set (t_launches d). launch_valid d r)"

text \<open>
  The schema of the objects expected at some version: there is one user object for each of these tables and no
  other, and each is the table as its \<open>CREATE TABLE\<close> text made it.
\<close>

definition object_valid :: "(string \<times> ddl) list \<Rightarrow> schema_row \<Rightarrow> bool" where
  "object_valid objects r \<longleftrightarrow> obj_type r = ''table'' \<and> obj_table r = obj_name r \<and> (case map_of objects (obj_name r) of
     None \<Rightarrow> False
   | Some t \<Rightarrow> obj_sql r = Some (canonical_stored_sql (ddl_text t)))"

definition schema_valid :: "(string \<times> ddl) list \<Rightarrow> database \<Rightarrow> bool" where
  "schema_valid objects d \<longleftrightarrow> length (user_schema_rows d) = length objects
     \<and> (\<forall>r\<in>set (user_schema_rows d). object_valid objects r) \<and> distinct (map obj_name (user_schema_rows d))
     \<and> obj_name ` set (user_schema_rows d) = fst ` set objects"

definition table_valid :: "ddl \<Rightarrow> database \<Rightarrow> bool" where
  "table_valid t d \<longleftrightarrow> table_info (ddl_name t) d = ddl_columns t \<and> has_table (ddl_name t) d"

definition exact_valid :: "int \<Rightarrow> (string \<times> ddl) list \<Rightarrow> bool \<Rightarrow> bool \<Rightarrow> bool \<Rightarrow> bool \<Rightarrow> database \<Rightarrow> bool" where
  "exact_valid version objects keys binds adms launches d \<longleftrightarrow>
     integrity_check d \<and> user_version d = version \<and> schema_valid objects d
     \<and> (\<forall>t\<in>set objects. table_valid (snd t) d) \<and> gens_valid d
     \<and> (keys \<longrightarrow> keys_valid d) \<and> (binds \<longrightarrow> binds_valid d)
     \<and> (adms \<longrightarrow> adms_valid d) \<and> (launches \<longrightarrow> launches_valid d)"

definition v1_valid :: "database \<Rightarrow> bool" where
  "v1_valid = exact_valid v1_schema_version objects_v1 False False False False"

definition v2_valid :: "database \<Rightarrow> bool" where
  "v2_valid = exact_valid v2_schema_version objects_v2 True False False False"

definition v3_valid :: "database \<Rightarrow> bool" where
  "v3_valid = exact_valid v3_schema_version objects_v3 True True False False"

definition v4_valid :: "database \<Rightarrow> bool" where
  "v4_valid = exact_valid v4_schema_version objects_v4 True True True False"

definition store_valid :: "database \<Rightarrow> bool" where
  "store_valid = exact_valid schema_version objects_v5 True True True True"

section \<open>Errors of the validators\<close>

named_theorems check_errors "errors raised by the validators of persisted values"

lemma persisted_scope_error [check_errors]:
  "persisted validate_persisted_scope v = Inl e \<Longrightarrow> check_error e"
  by (auto simp: persisted_def validate_persisted_scope_def check_error_def split: option.splits if_splits)

lemma persisted_key_error [check_errors]:
  "persisted validate_persisted_execution_key v = Inl e \<Longrightarrow> check_error e"
  by (auto simp: persisted_def validate_persisted_execution_key_def check_error_def split: option.splits if_splits)

lemma persisted_hash_error [check_errors]:
  "persisted validate_persisted_command_spec_hash v = Inl e \<Longrightarrow> check_error e"
  by (auto simp: persisted_def validate_persisted_command_spec_hash_def check_error_def
      split: option.splits if_splits)

lemma validate_persisted_generation_error [check_errors]:
  "validate_persisted_generation v t = Inl e \<Longrightarrow> check_error e"
  by (auto simp: validate_persisted_generation_def check_error_def split: option.splits if_splits)

lemma persisted_generation_error [check_errors]:
  "persisted validate_persisted_generation v = Inl e \<Longrightarrow> check_error e"
  by (simp add: persisted_def validate_persisted_generation_error)

lemma persisted_state_error [check_errors]:
  "persisted validate_persisted_launch_state v = Inl e \<Longrightarrow> check_error e"
  by (auto simp: persisted_def validate_persisted_launch_state_def check_error_def
      split: option.splits if_splits)

lemma persisted_exit_error [check_errors]:
  "validate_persisted_exit_code v t st = Inl e \<Longrightarrow> check_error e"
  by (auto simp: validate_persisted_exit_code_def check_error_def split: option.splits if_splits)

lemma schema_loop_error [check_errors]:
  "schema_loop objects seen rows = Inl e \<Longrightarrow> check_error e"
  by (induction rows arbitrary: seen) (auto simp: check_error_def split: option.splits if_splits)

lemma check_error_malformed [check_intros]:
  "check_error AuthorityStoreMalformedError" "check_error AuthorityStoreVersionError"
  "check_error AuthorityStoreMigrationRequiredError"
  by (simp_all add: check_error_def)

section \<open>Success of the validators of persisted values\<close>

lemma persisted_scope_Inr:
  "persisted validate_persisted_scope v = Inr s \<longleftrightarrow> v = SText s \<and> s \<noteq> []"
  by (cases v) (auto simp: persisted_def validate_persisted_scope_def)

lemma persisted_key_Inr:
  "persisted validate_persisted_execution_key v = Inr s \<longleftrightarrow> v = SText s \<and> s \<noteq> []"
  by (cases v) (auto simp: persisted_def validate_persisted_execution_key_def split: option.splits)

lemma persisted_hash_Inr:
  "persisted validate_persisted_command_spec_hash v = Inr s \<longleftrightarrow> v = SText s \<and> s \<noteq> [] \<and> encodable s"
  by (cases v) (auto simp: persisted_def validate_persisted_command_spec_hash_def utf8_encode_None
      split: option.splits)

lemma persisted_generation_Inr:
  "persisted validate_persisted_generation v = Inr g \<longleftrightarrow> v = SInteger g \<and> 0 < g \<and> g \<le> max_generation"
  by (cases v) (auto simp: persisted_def validate_persisted_generation_def split: option.splits)

lemma persisted_state_Inr:
  "persisted validate_persisted_launch_state v = Inr st \<longleftrightarrow> v = SText (py (launch_state_value st))"
  by (cases v) (auto simp: persisted_def validate_persisted_launch_state_def launch_state_of_Some
      split: option.splits)

lemma persisted_exit_Inr:
  "validate_persisted_exit_code (py_of_sql v) (sql_typeof v) st = Inr x \<longleftrightarrow>
     (if st = TERMINAL then \<exists>i. v = SInteger i \<and> min_sqlite_integer \<le> i \<and> i \<le> max_sqlite_integer \<and> x = Some i
      else v = SNull \<and> x = None)"
  by (cases v; cases st) (auto simp: validate_persisted_exit_code_def split: option.splits)

text \<open>A value is accepted exactly if it is a valid one of its column.\<close>

lemma not_isl_iff: "\<not> isl r \<longleftrightarrow> (\<exists>x. r = Inr x)"
  by (cases r) auto

lemma persisted_accepts:
  "\<not> isl (persisted validate_persisted_scope v) \<longleftrightarrow> text_nonempty v"
  "\<not> isl (persisted validate_persisted_execution_key v) \<longleftrightarrow> text_nonempty v"
  "\<not> isl (persisted validate_persisted_command_spec_hash v) \<longleftrightarrow> hash_ok v"
  "\<not> isl (persisted validate_persisted_generation v) \<longleftrightarrow> generation_ok v"
  by (cases v; auto simp: not_isl_iff persisted_scope_Inr persisted_key_Inr persisted_hash_Inr
      persisted_generation_Inr text_nonempty_def hash_ok_def generation_ok_def)+

lemmas persisted_Inr = persisted_scope_Inr persisted_key_Inr persisted_hash_Inr
  persisted_generation_Inr persisted_state_Inr persisted_exit_Inr

section \<open>Checking programs of the validators\<close>

lemma checks_if [check_intros]:
  "checks m P \<Longrightarrow> checks n Q \<Longrightarrow> checks (if b then m else n) (\<lambda>d. if b then P d else Q d)"
  by simp

lemma checks_case_prod [check_intros]:
  "(\<And>a b. checks (f a b) (P a b)) \<Longrightarrow> checks (case x of (a, b) \<Rightarrow> f a b) (\<lambda>d. case x of (a, b) \<Rightarrow> P a b d)"
  by (cases x) simp

lemma checks_bnd_version [check_intros]:
  assumes "\<And>x. checks (g x) (P x)"
  shows "checks (bnd read_schema_version g) (\<lambda>d. P (user_version d) d)"
proof -
  have version: "checks read_schema_version (\<lambda>_. True)"
    unfolding read_schema_version_def
    by (rule checks_convert [OF checks_pragma(1)]) (auto simp: check_error_def statement_error_def)
  moreover have "x = user_version (view c)" if "is_open c" "checks_at read_schema_version Q c (Inr x)" for x Q and c :: "'a conn_scheme"
    using that checks_pragma(2) [of user_version "\<lambda>_. True" c x] checksD [OF checks_pragma(1) [of user_version], of c]
    by (auto simp: read_schema_version_def run_combinators checks_at_def split: prod.splits sum.splits)
  ultimately show ?thesis by (intro checks_bnd [OF version assms]) auto
qed

lemma handled_convert: "statement_error e \<Longrightarrow> statement_error (if is_authority_error e then e
     else if e = DatabaseError then AuthorityStoreMalformedError else e)"
  by (auto simp: statement_error_def)

lemma handled_convert_version: "statement_error e \<Longrightarrow> statement_error (if e = DatabaseError then AuthorityStoreMalformedError else e)"
  by (auto simp: statement_error_def)

lemma convert_check_error:
  "check_error e \<Longrightarrow> check_error (if is_authority_error e then e
     else if e = DatabaseError then AuthorityStoreMalformedError else e)"
  by (auto simp: check_error_def)

text \<open>A missing side of a \<open>LEFT JOIN\<close>, and the rows on both sides of one.\<close>

lemma all_left_join:
  "(\<forall>x\<in>set (left_join key v rows). P x) \<longleftrightarrow>
     (\<forall>r\<in>set rows. sql_eq (key r) v \<longrightarrow> P (Some r)) \<and> ((\<exists>r\<in>set rows. sql_eq (key r) v) \<or> P None)"
proof (cases "filter (\<lambda>r. sql_eq (key r) v) rows")
  case Nil
  then have "\<forall>r\<in>set rows. \<not> sql_eq (key r) v" by (simp add: filter_empty_conv)
  with Nil show ?thesis by (auto simp: left_join_def)
next
  case (Cons r rs)
  have set_eq: "set (left_join key v rows) = Some ` {r \<in> set rows. sql_eq (key r) v}"
  proof -
    have "set (left_join key v rows) = Some ` set (filter (\<lambda>r. sql_eq (key r) v) rows)"
      unfolding left_join_def Cons by simp
    then show ?thesis by simp
  qed
  moreover from Cons have "\<exists>r\<in>set rows. sql_eq (key r) v"
    by (metis (mono_tags, lifting) list.set_intros(1) mem_Collect_eq set_filter)
  ultimately show ?thesis by auto
qed

lemma joined_None [simp]: "joined column None = PyNone" "joined_type column None = ''null''"
  by (simp_all add: joined_def joined_type_def)

lemma joined_Some [simp]: "joined column (Some r) = py_of_sql (column r)"
  "joined_type column (Some r) = sql_typeof (column r)"
  by (simp_all add: joined_def joined_type_def)

lemma py_of_sql_None [simp]: "py_of_sql v = PyNone \<longleftrightarrow> v = SNull"
  by (cases v) auto

lemma py_eq_str_sql [simp]: "py_eq_str (py_of_sql v) s \<longleftrightarrow> v = SText s"
  by (cases v) (auto simp: py_eq_str_def)

lemma py_eq_int_sql [simp]: "py_eq_int (py_of_sql v) i \<longleftrightarrow> v = SInteger i"
  by (cases v) auto

lemma persisted_fold: "validate (py_of_sql v) (sql_typeof v) = persisted validate v"
  by (simp add: persisted_def)

lemma checks_gens_table:
  "checks validate_controller_generations_table
     (\<lambda>d. table_valid create_generations_sql d \<and> gens_valid d)"
  unfolding validate_controller_generations_table_def
  by (rule checks_weaken, (rule check_intros | erule check_errors)+)
    (auto simp: table_valid_def ddl_defs has_tables_def gens_valid_def gen_valid_def persisted_accepts)

lemma checks_keys_table:
  "checks validate_execution_keys_table
     (\<lambda>d. table_valid create_execution_keys_sql d \<and> keys_valid d)"
  unfolding validate_execution_keys_table_def
  by (rule checks_weaken, (rule check_intros | erule check_errors)+)
    (auto simp: table_valid_def ddl_defs has_tables_def keys_valid_def key_valid_def persisted_accepts)

text \<open>
  For the joined tables: the condition on one row of the joined query, and what it amounts to
  over all matching rows.
\<close>

lemma text_value: "text_nonempty v \<Longrightarrow> \<exists>s. v = SText s \<and> s \<noteq> []"
  by (cases v) (auto simp: text_nonempty_def)

lemma generation_value: "generation_ok v \<Longrightarrow> \<exists>g. v = SInteger g \<and> 0 < g \<and> g \<le> max_generation"
  by (cases v) (auto simp: generation_ok_def)

lemma hash_value: "hash_ok v \<Longrightarrow> \<exists>s. v = SText s \<and> s \<noteq> [] \<and> encodable s"
  by (cases v) (auto simp: hash_ok_def)

lemma left_join_not_Nil [simp]: "left_join key v rows \<noteq> []"
  by (simp add: left_join_def split: list.splits)

lemma sql_eq_eq: "sql_eq a b \<Longrightarrow> a = b"
  by (cases a; cases b) auto

lemma text_nonempty_simps [simp]: "text_nonempty (SText s) \<longleftrightarrow> s \<noteq> []" "\<not> text_nonempty SNull"
  by (simp_all add: text_nonempty_def)

lemma hash_ok_text [simp]: "hash_ok (SText s) \<longleftrightarrow> s \<noteq> [] \<and> encodable s"
  by (simp add: hash_ok_def)

lemma generation_ok_integer [simp]: "generation_ok (SInteger g) \<longleftrightarrow> 0 < g \<and> g \<le> max_generation"
  by (simp add: generation_ok_def)

lemma generation_le_integers [simp]: "generation_le (SInteger g) (SInteger h) \<longleftrightarrow> g \<le> h"
  by (simp add: generation_le_def)

lemma bind_row_valid:
  "(\<forall>e\<in>set (left_join kr_key (br_key b) (t_keys d)).
      \<not> isl (persisted validate_persisted_execution_key (br_key b)) \<and>
      \<not> isl (persisted validate_persisted_command_spec_hash (br_hash b)) \<and>
      joined kr_key e \<noteq> PyNone) \<longleftrightarrow> bind_valid d b"
proof (cases "text_nonempty (br_key b)")
  case True
  then obtain k where "br_key b = SText k" "k \<noteq> []" using text_value by blast
  then show ?thesis by (auto simp: all_left_join persisted_accepts bind_valid_def)
next
  case False
  then show ?thesis by (auto simp: all_left_join persisted_accepts bind_valid_def)
qed

lemma checks_bindings_table:
  "checks validate_execution_command_bindings_table
     (\<lambda>d. table_valid create_execution_command_bindings_sql d \<and> has_table ''execution_keys'' d
        \<and> binds_valid d)"
  unfolding validate_execution_command_bindings_table_def
  by (rule checks_weaken, (rule check_intros | erule check_errors)+)
    (simp add: table_valid_def ddl_defs has_tables_def binds_valid_def binding_rows_def
      bind_row_valid [symmetric] conj_ac)

text \<open>The condition the admissions loop checks on one row of its joined query.\<close>

definition adm_row_check :: "adm_row \<Rightarrow> key_row option \<Rightarrow> bind_row option \<Rightarrow> gen_row option \<Rightarrow> bool" where
  "adm_row_check a e b g \<longleftrightarrow>
     \<not> isl (persisted validate_persisted_execution_key (ar_key a)) \<and>
     \<not> isl (persisted validate_persisted_scope (ar_scope a)) \<and>
     (case persisted validate_persisted_generation (ar_generation a) of Inl _ \<Rightarrow> False
      | Inr admitted \<Rightarrow> joined kr_key e \<noteq> PyNone \<and> joined br_key b \<noteq> PyNone
          \<and> joined gr_generation g \<noteq> PyNone
          \<and> (case validate_persisted_generation (joined gr_generation g) (joined_type gr_generation g) of
                Inl _ \<Rightarrow> False
              | Inr current \<Rightarrow> admitted \<le> current))"

lemma generation_check_le:
  "(case validate_persisted_generation (py_of_sql v) (sql_typeof v) of Inl _ \<Rightarrow> False
     | Inr current \<Rightarrow> g \<le> current) \<longleftrightarrow> generation_ok v \<and> generation_le (SInteger g) v"
  by (cases v) (auto simp: validate_persisted_generation_def generation_ok_def generation_le_def
      split: option.splits)

lemma generation_ok_not_null: "generation_ok v \<Longrightarrow> v \<noteq> SNull"
  by (auto simp: generation_ok_def)

lemma adm_row_check_iff:
  "adm_row_check a e b g \<longleftrightarrow> text_nonempty (ar_key a) \<and> text_nonempty (ar_scope a)
     \<and> generation_ok (ar_generation a) \<and> joined kr_key e \<noteq> PyNone \<and> joined br_key b \<noteq> PyNone
     \<and> (case g of None \<Rightarrow> False | Some r \<Rightarrow>
          generation_ok (gr_generation r) \<and> generation_le (ar_generation a) (gr_generation r))"
proof (cases "generation_ok (ar_generation a)")
  case True
  then obtain n where n: "ar_generation a = SInteger n" "0 < n" "n \<le> max_generation"
    using generation_value by blast
  then have "persisted validate_persisted_generation (ar_generation a) = Inr n"
    by (simp add: persisted_generation_Inr)
  with True n show ?thesis
    by (cases g) (auto simp: adm_row_check_def persisted_accepts generation_check_le
        dest: generation_ok_not_null)
next
  case False
  then have "isl (persisted validate_persisted_generation (ar_generation a))"
    using persisted_accepts(4) by blast
  with False show ?thesis by (auto simp: adm_row_check_def split: sum.splits)
qed

lemma adm_row_valid:
  "(\<forall>e\<in>set (left_join kr_key (ar_key a) (t_keys d)).
     \<forall>b\<in>set (left_join br_key (ar_key a) (t_binds d)).
     \<forall>g\<in>set (left_join gr_scope (ar_scope a) (t_gens d)). adm_row_check a e b g) \<longleftrightarrow> adm_valid d a"
proof (cases "text_nonempty (ar_key a) \<and> text_nonempty (ar_scope a)")
  case True
  then obtain k sc where "ar_key a = SText k" "k \<noteq> []" "ar_scope a = SText sc" "sc \<noteq> []"
    using text_value by blast
  then show ?thesis
    by (auto simp: all_left_join adm_row_check_iff adm_valid_def)
next
  case False
  then show ?thesis
    by (auto simp: all_left_join adm_row_check_iff adm_valid_def)
qed

lemma checks_admissions_table:
  "checks validate_execution_admissions_table
     (\<lambda>d. table_valid create_execution_admissions_sql d
        \<and> has_tables [''execution_keys'', ''execution_command_bindings'', ''controller_generations''] d
        \<and> adms_valid d)"
  unfolding validate_execution_admissions_table_def
  by (rule checks_weaken, (rule check_intros | erule check_errors)+)
    (simp add: table_valid_def ddl_defs has_tables_def adms_valid_def admission_rows_def
      adm_row_valid [symmetric] adm_row_check_def conj_ac)

text \<open>The condition the launches loop checks on one row of its joined query.\<close>

definition launch_row_check ::
  "launch_row \<Rightarrow> key_row option \<Rightarrow> bind_row option \<Rightarrow> adm_row option \<Rightarrow> gen_row option \<Rightarrow> bool" where
  "launch_row_check l e b a g \<longleftrightarrow>
     (case persisted validate_persisted_execution_key (lr_key l) of Inl _ \<Rightarrow> False | Inr key \<Rightarrow>
     (case persisted validate_persisted_command_spec_hash (lr_hash l) of Inl _ \<Rightarrow> False | Inr command_hash \<Rightarrow>
     (case persisted validate_persisted_scope (lr_scope l) of Inl _ \<Rightarrow> False | Inr scope \<Rightarrow>
     (case persisted validate_persisted_generation (lr_generation l) of Inl _ \<Rightarrow> False | Inr generation \<Rightarrow>
     (case persisted validate_persisted_launch_state (lr_state l) of Inl _ \<Rightarrow> False | Inr state \<Rightarrow>
        \<not> isl (validate_persisted_exit_code (py_of_sql (lr_exit l)) (sql_typeof (lr_exit l)) state)
        \<and> joined kr_key e \<noteq> PyNone
        \<and> (joined br_hash b \<noteq> PyNone \<and> py_eq_str (joined br_hash b) command_hash)
        \<and> (joined ar_scope a \<noteq> PyNone \<and> joined ar_generation a \<noteq> PyNone)
        \<and> (py_eq_str (joined ar_scope a) scope \<and> py_eq_int (joined ar_generation a) generation)
        \<and> joined gr_generation g \<noteq> PyNone
        \<and> (case validate_persisted_generation (joined gr_generation g) (joined_type gr_generation g) of
              Inl _ \<Rightarrow> False
            | Inr current \<Rightarrow> generation \<le> current \<and> py_eq_str (joined kr_key e) key))))))"

definition launch_columns_ok :: "launch_row \<Rightarrow> bool" where
  "launch_columns_ok l \<longleftrightarrow> text_nonempty (lr_key l) \<and> hash_ok (lr_hash l) \<and> text_nonempty (lr_scope l)
     \<and> generation_ok (lr_generation l) \<and> launch_ok (lr_state l) (lr_exit l)"

lemma ex_launch_state: "(\<exists>st. P st) \<longleftrightarrow> P INTENT \<or> P UNKNOWN \<or> P TERMINAL"
  by (metis ExecutionLaunchState.exhaust)

lemma launch_state_ok:
  "launch_ok st ex \<longleftrightarrow> (\<exists>state. st = SText (py (launch_state_value state))
     \<and> \<not> isl (validate_persisted_exit_code (py_of_sql ex) (sql_typeof ex) state))"
proof -
  have "\<not> isl (validate_persisted_exit_code (py_of_sql ex) (sql_typeof ex) state) \<longleftrightarrow>
      (if state = TERMINAL then (case ex of SInteger i \<Rightarrow> min_sqlite_integer \<le> i \<and> i \<le> max_sqlite_integer | _ \<Rightarrow> False)
       else ex = SNull)" for state
    unfolding not_isl_iff persisted_exit_Inr by (cases ex) auto
  then show ?thesis
    unfolding launch_ok_def ex_launch_state by auto
qed

lemma launch_row_check_columns: "launch_row_check l e b a g \<Longrightarrow> launch_columns_ok l"
  by (auto simp: launch_row_check_def launch_columns_ok_def persisted_Inr launch_state_ok not_isl_iff
      split: sum.splits)

lemma launch_row_check_iff:
  assumes "lr_key l = SText k" "k \<noteq> []" "lr_hash l = SText h" "hash_ok (SText h)"
    "lr_scope l = SText sc" "sc \<noteq> []" "lr_generation l = SInteger n" "generation_ok (SInteger n)"
    "launch_ok (lr_state l) (lr_exit l)"
  shows "launch_row_check l e b a g \<longleftrightarrow>
     (case e of None \<Rightarrow> False | Some r \<Rightarrow> kr_key r = SText k)
     \<and> (case b of None \<Rightarrow> False | Some r \<Rightarrow> br_hash r = SText h)
     \<and> (case a of None \<Rightarrow> False | Some r \<Rightarrow> ar_scope r = SText sc \<and> ar_generation r = SInteger n)
     \<and> (case g of None \<Rightarrow> False | Some r \<Rightarrow>
          generation_ok (gr_generation r) \<and> generation_le (SInteger n) (gr_generation r))"
proof -
  obtain state where st: "lr_state l = SText (py (launch_state_value state))"
    and ex: "\<not> isl (validate_persisted_exit_code (py_of_sql (lr_exit l)) (sql_typeof (lr_exit l)) state)"
    using assms(9) launch_state_ok by blast
  have "persisted validate_persisted_execution_key (lr_key l) = Inr k"
    "persisted validate_persisted_command_spec_hash (lr_hash l) = Inr h"
    "persisted validate_persisted_scope (lr_scope l) = Inr sc"
    "persisted validate_persisted_generation (lr_generation l) = Inr n"
    "persisted validate_persisted_launch_state (lr_state l) = Inr state"
    using assms st by (simp_all add: persisted_Inr)
  moreover have "(case validate_persisted_generation (py_of_sql v) (sql_typeof v) of Inl _ \<Rightarrow> False
     | Inr current \<Rightarrow> n \<le> current \<and> X) \<longleftrightarrow> generation_ok v \<and> generation_le (SInteger n) v \<and> X" for v X
    using generation_check_le [of n v] by (auto split: sum.splits)
  ultimately show ?thesis
    using ex
    by (cases e; cases b; cases a; cases g)
      (auto simp: launch_row_check_def py_eq_str_def [of PyNone] dest: generation_ok_not_null)
qed

lemma left_join_member: "\<exists>x. x \<in> set (left_join key v rows)"
  using left_join_not_Nil [of key v rows] by (meson list.set_sel(1))

lemma ball4_split:
  "E \<noteq> {} \<Longrightarrow> B \<noteq> {} \<Longrightarrow> A \<noteq> {} \<Longrightarrow> G \<noteq> {} \<Longrightarrow>
   (\<forall>e\<in>E. \<forall>b\<in>B. \<forall>a\<in>A. \<forall>g\<in>G. P e \<and> Q b \<and> R a \<and> S g) \<longleftrightarrow>
   (\<forall>e\<in>E. P e) \<and> (\<forall>b\<in>B. Q b) \<and> (\<forall>a\<in>A. R a) \<and> (\<forall>g\<in>G. S g)"
  by blast

lemma all_left_join_option:
  "(\<forall>x\<in>set (left_join key (SText s) rows). case x of None \<Rightarrow> False | Some r \<Rightarrow> P r) \<longleftrightarrow>
     (\<exists>r\<in>set rows. key r = SText s) \<and> (\<forall>r\<in>set rows. key r = SText s \<longrightarrow> P r)"
  by (auto simp: all_left_join)

lemma launch_row_valid:
  "(\<forall>e\<in>set (left_join kr_key (lr_key l) (t_keys d)).
     \<forall>b\<in>set (left_join br_key (lr_key l) (t_binds d)).
     \<forall>a\<in>set (left_join ar_key (lr_key l) (t_adms d)).
     \<forall>g\<in>set (left_join gr_scope (lr_scope l) (t_gens d)). launch_row_check l e b a g) \<longleftrightarrow> launch_valid d l"
  (is "?checked \<longleftrightarrow> _")
proof (cases "launch_columns_ok l")
  case True
  then obtain k h sc n where cols: "lr_key l = SText k" "k \<noteq> []" "lr_hash l = SText h" "hash_ok (SText h)"
    "lr_scope l = SText sc" "sc \<noteq> []" "lr_generation l = SInteger n" "generation_ok (SInteger n)"
    "launch_ok (lr_state l) (lr_exit l)"
    unfolding launch_columns_ok_def
    using text_value [of "lr_key l"] text_value [of "lr_scope l"] hash_value [of "lr_hash l"]
      generation_value [of "lr_generation l"] by auto
  show ?thesis
    unfolding launch_row_check_iff [OF cols] launch_valid_def cols(1,3,5,7)
    by (subst ball4_split, simp_all only: set_empty left_join_not_Nil not_False_eq_True)
      (use cols in \<open>auto simp: all_left_join_option\<close>)
next
  case False
  obtain e b a g where "e \<in> set (left_join kr_key (lr_key l) (t_keys d))"
    "b \<in> set (left_join br_key (lr_key l) (t_binds d))" "a \<in> set (left_join ar_key (lr_key l) (t_adms d))"
    "g \<in> set (left_join gr_scope (lr_scope l) (t_gens d))"
    using left_join_member [of kr_key] left_join_member [of br_key] left_join_member [of ar_key]
      left_join_member [of gr_scope] by metis
  then have "\<not> ?checked"
    using False launch_row_check_columns [of l e b a g] by blast
  with False show ?thesis by (auto simp: launch_valid_def launch_columns_ok_def)
qed

lemma checks_launches_table:
  "checks validate_execution_launches_table
     (\<lambda>d. table_valid create_execution_launches_sql d
        \<and> has_tables [''execution_keys'', ''execution_command_bindings'', ''execution_admissions'',
            ''controller_generations''] d
        \<and> launches_valid d)"
  unfolding validate_execution_launches_table_def
  by (rule checks_weaken, (rule check_intros | erule check_errors)+)
    (simp add: table_valid_def ddl_defs has_tables_def launches_valid_def launch_rows_def
      launch_row_valid [symmetric] launch_row_check_def)

section \<open>Whole stores\<close>

lemmas checks_tables = checks_gens_table checks_keys_table checks_bindings_table
  checks_admissions_table checks_launches_table

lemma schema_loop_Inr:
  "schema_loop objects seen rows = Inr out \<longleftrightarrow> (\<forall>r\<in>set rows. object_valid objects r) \<and> distinct (map obj_name rows)
     \<and> set (map obj_name rows) \<inter> set seen = {} \<and> out = rev (map obj_name rows) @ seen"
proof (induction rows arbitrary: seen)
  case (Cons r rows)
  show ?case by (auto simp: Cons.IH object_valid_def split: option.splits)
qed auto

lemma schema_loop_accepts:
  "(case schema_loop objects [] rows of Inl _ \<Rightarrow> False | Inr seen \<Rightarrow> set seen = set (map fst objects)) \<longleftrightarrow>
     (\<forall>r\<in>set rows. object_valid objects r) \<and> distinct (map obj_name rows) \<and> obj_name ` set rows = fst ` set objects"
proof (cases "schema_loop objects [] rows")
  case (Inl e)
  then have "\<not> ((\<forall>r\<in>set rows. object_valid objects r) \<and> distinct (map obj_name rows))"
    using schema_loop_Inr [of objects "[]" rows "rev (map obj_name rows) @ []"] by auto
  with Inl show ?thesis by auto
next
  case (Inr seen)
  show ?thesis using Inr [unfolded schema_loop_Inr] by (auto simp: Inr)
qed

lemma checks_schema:
  "checks (bnd (of_result (schema_loop objects [] rows)) (\<lambda>seen.
       sq (guard (set seen = set (map fst objects)) AuthorityStoreMalformedError) m))
     (\<lambda>d. (case schema_loop objects [] rows of Inl _ \<Rightarrow> False
          | Inr seen \<Rightarrow> set seen = set (map fst objects)) \<and> P d)"
  if "checks m P"
proof (cases "schema_loop objects [] rows")
  case (Inl e)
  have "check_error e" using Inl by (rule schema_loop_error)
  have "checks (bnd (of_result (schema_loop objects [] rows)) (\<lambda>seen.
      sq (guard (set seen = set (map fst objects)) AuthorityStoreMalformedError) m)) (\<lambda>_. False)"
    by (rule checks_constant [where r = "Inl e"]) (use Inl \<open>check_error e\<close> in \<open>auto simp: run_combinators\<close>)
  with Inl show ?thesis by simp
next
  case (Inr seen)
  have "checks (bnd (of_result (schema_loop objects [] rows)) (\<lambda>seen.
      sq (guard (set seen = set (map fst objects)) AuthorityStoreMalformedError) m))
    (\<lambda>d. set seen = set (map fst objects) \<and> P d)"
    using checks_sq [OF checks_guard [OF check_error_malformed(1)] that, of "set seen = set (map fst objects)"]
    by (simp add: Inr bnd_def of_result_def)
  with Inr show ?thesis by simp
qed

lemma checks_exact_store:
  "checks (validate_exact_store version objects keys binds adms launches)
     (\<lambda>d. integrity_check d \<and> user_version d = version \<and> schema_valid objects d
        \<and> table_valid create_generations_sql d \<and> gens_valid d
        \<and> (keys \<longrightarrow> table_valid create_execution_keys_sql d \<and> keys_valid d)
        \<and> (binds \<longrightarrow> table_valid create_execution_command_bindings_sql d
             \<and> has_table ''execution_keys'' d \<and> binds_valid d)
        \<and> (adms \<longrightarrow> table_valid create_execution_admissions_sql d
             \<and> has_tables [''execution_keys'', ''execution_command_bindings'', ''controller_generations''] d
             \<and> adms_valid d)
        \<and> (launches \<longrightarrow> table_valid create_execution_launches_sql d
             \<and> has_tables [''execution_keys'', ''execution_command_bindings'', ''execution_admissions'',
                 ''controller_generations''] d
             \<and> launches_valid d))"
  unfolding validate_exact_store_def
  by (rule checks_weaken,
      (rule checks_convert checks_schema checks_bnd_version checks_bnd_pragma checks_sq checks_guard
        checks_if checks_tables checks_ret convert_check_error handled_convert check_error_malformed | assumption)+)
    (auto simp: schema_valid_def schema_loop_accepts)

text \<open>Each version's validator accepts exactly the valid stores of that version.\<close>

lemma table_names:
  "table_valid create_generations_sql d \<Longrightarrow> has_table ''controller_generations'' d"
  "table_valid create_execution_keys_sql d \<Longrightarrow> has_table ''execution_keys'' d"
  "table_valid create_execution_command_bindings_sql d \<Longrightarrow> has_table ''execution_command_bindings'' d"
  "table_valid create_execution_admissions_sql d \<Longrightarrow> has_table ''execution_admissions'' d"
  "table_valid create_execution_launches_sql d \<Longrightarrow> has_table ''execution_launches'' d"
  by (simp_all add: table_valid_def ddl_defs)

lemmas checks_version_simps = exact_valid_def has_tables_def objects_v1_def objects_v2_def
  objects_v3_def objects_v4_def objects_v5_def

lemma checks_v1: "checks validate_v1_store v1_valid"
  unfolding validate_v1_store_def v1_valid_def
  by (rule checks_weaken [OF checks_exact_store]) (auto simp: checks_version_simps)

lemma checks_v2: "checks validate_v2_store v2_valid"
  unfolding validate_v2_store_def v2_valid_def
  by (rule checks_weaken [OF checks_exact_store]) (auto simp: checks_version_simps)

lemma checks_v3: "checks validate_v3_store v3_valid"
  unfolding validate_v3_store_def v3_valid_def
  by (rule checks_weaken [OF checks_exact_store]) (auto simp: checks_version_simps dest: table_names)

lemma checks_v4: "checks validate_v4_store v4_valid"
  unfolding validate_v4_store_def v4_valid_def
  by (rule checks_weaken [OF checks_exact_store]) (auto simp: checks_version_simps dest: table_names)

lemma checks_current: "checks validate_current_store store_valid"
  unfolding validate_current_store_def store_valid_def
  by (rule checks_weaken [OF checks_exact_store]) (auto simp: checks_version_simps dest: table_names)

lemma checks_raise [check_intros]: "check_error e \<Longrightarrow> checks (raise e) (\<lambda>_. False)"
  by (rule checks_constant [where r = "Inl e"]) (simp_all add: run_simps)

lemma checks_store: "checks validate_store store_valid"
  unfolding validate_store_def
  by (rule checks_weaken,
      (rule checks_bnd_version checks_if checks_sq checks_v1 checks_v2 checks_v3 checks_v4
        checks_current checks_raise check_error_malformed)+)
    (auto simp: store_valid_def exact_valid_def schema_versions)

section \<open>Validation under faults\<close>

lemma faithful_case_prod [impl_intros]:
  "(\<And>a b. faithful (f a b)) \<Longrightarrow> faithful (case x of (a, b) \<Rightarrow> f a b)"
  by (cases x) simp

lemma faithful_read_schema_version [impl_intros]: "faithful read_schema_version"
  unfolding read_schema_version_def
  by (rule faithful_convert faithful_pragma handled_convert_version | assumption)+

lemma faithful_tables [impl_intros]:
  "faithful validate_controller_generations_table" "faithful validate_execution_keys_table"
  "faithful validate_execution_command_bindings_table" "faithful validate_execution_admissions_table"
  "faithful validate_execution_launches_table"
  unfolding validate_controller_generations_table_def validate_execution_keys_table_def
    validate_execution_command_bindings_table_def validate_execution_admissions_table_def
    validate_execution_launches_table_def
  by (intro impl_intros)+

lemma faithful_exact_store [impl_intros]:
  "faithful (validate_exact_store version objects keys binds adms launches)"
  unfolding validate_exact_store_def
  by (intro impl_intros handled_convert)

lemma faithful_versions [impl_intros]:
  "faithful validate_v1_store" "faithful validate_v2_store" "faithful validate_v3_store"
  "faithful validate_v4_store" "faithful validate_current_store"
  unfolding validate_v1_store_def validate_v2_store_def validate_v3_store_def
    validate_v4_store_def validate_current_store_def
  by (rule faithful_exact_store)+

lemma faithful_validate_store [impl_intros]: "faithful validate_store"
  unfolding validate_store_def by (intro impl_intros)

text \<open>No \<open>DatabaseError\<close> leaves a validator: every rejection is a malformed-store error.\<close>

lemma convert_not_database_error:
  "try_except m (\<lambda>e. raise (if is_authority_error e then e
     else if e = DatabaseError then AuthorityStoreMalformedError else e)) c = (Inl e, c') \<Longrightarrow> e \<noteq> DatabaseError"
  by (auto simp: run_combinators split: prod.splits sum.splits if_splits)

lemma exact_store_error:
  "validate_exact_store version objects keys binds adms launches c = (Inl e, c') \<Longrightarrow> e \<noteq> DatabaseError"
  unfolding validate_exact_store_def by (rule convert_not_database_error)

lemmas version_validators = validate_v1_store_def validate_v2_store_def validate_v3_store_def
  validate_v4_store_def validate_current_store_def

lemma validate_store_error: "validate_store c = (Inl e, c') \<Longrightarrow> e \<noteq> DatabaseError"
  by (auto simp: validate_store_def read_schema_version_def version_validators run_combinators
      dest!: exact_store_error split: prod.splits sum.splits if_splits)

lemma validate_store_accepts:
  assumes "is_open c" "faults c = []" "work c = Some d" "store_valid d"
  shows "validate_store c = (Inr (), c)"
  by (rule checksE [OF checks_store assms(1,2)]) (use assms(3,4) in auto)

lemma validate_store_rejects:
  assumes "is_open c" "faults c = []" "work c = Some d" "\<not> store_valid d"
  obtains e where "validate_store c = (Inl e, c)" "is_malformed_error e"
proof (rule checksE [OF checks_store assms(1,2)])
  fix e
  assume run: "validate_store c = (Inl e, c)" and "check_error e"
  then have "is_malformed_error e"
    using validate_store_error [OF run] by (auto simp: check_error_def)
  with run show thesis by (rule that)
qed (use assms(3,4) in simp)

end
