(* ===== verification/Authority_Ops.thy ===== *)
theory Authority_Ops
  imports Authority_Valid
begin

text \<open>
  The operations of an open \<open>AuthorityStore\<close> (\<open>umbilical_authority.py\<close>), each the whole method:
  the usable-connection check, the argument checks, the transaction with the validation it starts
  with, the statements of its body and its \<open>except\<close> clauses. The two shapes of \<open>try\<close> block the
  methods share are \<open>transaction\<close> and \<open>consequential\<close>.
\<close>

section \<open>Failure handling\<close>

text \<open>\<open>connection.in_transaction\<close>, an attribute that also refuses a closed connection.\<close>

definition conn_in_transaction :: "('z conn_scheme, bool) prog" where
  "conn_in_transaction = bnd (gets is_open) (\<lambda>opened.
     if opened then gets in_transaction else raise DatabaseError)"

definition rollback_transaction :: "('z conn_scheme, unit) prog" where
  "rollback_transaction = rollback_tx"

definition require_usable_connection :: "(store, unit) prog" where
  "require_usable_connection = bnd (gets poisoned) (\<lambda>p.
     if p then raise (AuthorityStoreError ''authority store is poisoned after uncertain transaction cleanup'')
     else bnd (gets connected) (\<lambda>c.
       if \<not> c then raise (AuthorityStoreError ''authority store is closed'') else ret ()))"

definition poison :: "(store, unit) prog" where
  "poison = sq (modify (\<lambda>s. s\<lparr>poisoned := True\<rparr>)) (bnd (gets connected) (\<lambda>c.
     sq (modify (\<lambda>s. s\<lparr>connected := False\<rparr>))
        (if c then try_except close_connection (\<lambda>e. if e = DatabaseError then ret () else raise e)
         else ret ())))"

definition rollback_after_failure :: "(store, unit) prog" where
  "rollback_after_failure = try_except
     (sq (bnd conn_in_transaction (\<lambda>b. if b then rollback_transaction else ret ()))
         (bnd conn_in_transaction (\<lambda>b. if b then raise DatabaseError else ret ())))
     (\<lambda>e. if e = DatabaseError
        then sq poison (raise (AuthorityStoreError ''authority transaction rollback failed; store permanently poisoned''))
        else raise e)"

definition uncertain_commit :: "string \<Rightarrow> exn" where
  "uncertain_commit operation = AuthorityStoreError (operation @
     '' COMMIT outcome is uncertain; physical launch authority must be treated as consumed until durable state is inspected'')"

definition handle_consequential_failure :: "bool \<Rightarrow> string \<Rightarrow> exn \<Rightarrow> (store, 'a) prog" where
  "handle_consequential_failure commit_started operation cause =
     (if commit_started then sq poison (raise (uncertain_commit operation))
      else sq rollback_after_failure (raise cause))"

section \<open>The two shapes of a transaction\<close>

text \<open>\<open>except AuthorityStoreError\<close> and \<open>except sqlite3.DatabaseError\<close> of the ordinary methods.\<close>

definition after_failure :: "string \<Rightarrow> exn \<Rightarrow> (store, 'a) prog" where
  "after_failure message e =
     (if is_authority_error e then sq rollback_after_failure (raise e)
      else if e = DatabaseError then sq rollback_after_failure (raise (AuthorityStoreError message))
      else raise e)"

definition transaction :: "(store, unit) prog \<Rightarrow> string \<Rightarrow> (store, 'a) prog \<Rightarrow> (store, 'a) prog" where
  "transaction begin_tx message body = try_except
     (sq begin_tx (sq validate_store (bnd body (\<lambda>r. sq commit_tx (ret r)))))
     (after_failure message)"

text \<open>\<open>commit_started\<close> is set right before \<open>COMMIT\<close>; both \<open>except\<close> clauses pass it on.\<close>

definition consequential_failure :: "bool \<Rightarrow> string \<Rightarrow> exn \<Rightarrow> (store, 'a) prog" where
  "consequential_failure commit_started operation e =
     (if is_authority_error e \<or> e = DatabaseError
      then handle_consequential_failure commit_started operation e else raise e)"

definition consequential :: "string \<Rightarrow> (store, 'a) prog \<Rightarrow> (store, 'a) prog" where
  "consequential operation body =
     bnd (try_except (sq begin_immediate (sq validate_store body)) (consequential_failure False operation))
       (\<lambda>r. sq (try_except commit_tx (consequential_failure True operation)) (ret r))"

section \<open>Statements on the tables\<close>

text \<open>The \<open>CHECK\<close> constraints of the table definitions.\<close>

definition gen_check :: "gen_row \<Rightarrow> bool" where
  "gen_check r \<longleftrightarrow> text_nonempty (gr_scope r) \<and> integer_positive (gr_generation r)"

definition key_check :: "key_row \<Rightarrow> bool" where
  "key_check r \<longleftrightarrow> text_nonempty (kr_key r)"

definition bind_check :: "bind_row \<Rightarrow> bool" where
  "bind_check r \<longleftrightarrow> text_nonempty (br_key r) \<and> text_nonempty (br_hash r)"

definition adm_check :: "adm_row \<Rightarrow> bool" where
  "adm_check r \<longleftrightarrow> text_nonempty (ar_key r) \<and> text_nonempty (ar_scope r) \<and> integer_positive (ar_generation r)"

definition launch_check :: "launch_row \<Rightarrow> bool" where
  "launch_check r \<longleftrightarrow> text_nonempty (lr_key r) \<and> text_nonempty (lr_hash r) \<and> text_nonempty (lr_scope r)
     \<and> integer_positive (lr_generation r)
     \<and> (lr_state r = SText (py ''intent'') \<and> lr_exit r = SNull
        \<or> lr_state r = SText (py ''unknown'') \<and> lr_exit r = SNull
        \<or> lr_state r = SText (py ''terminal'') \<and> sql_typeof (lr_exit r) = ''integer'')"

definition insert_gen :: "gen_row \<Rightarrow> database \<Rightarrow> (unit \<times> database) option" where
  "insert_gen r d = (if has_table ''controller_generations'' d
     then map_option (\<lambda>rs. ((), d\<lparr>t_gens := rs\<rparr>)) (insert_row gr_scope gen_check r (t_gens d)) else None)"

definition insert_key :: "key_row \<Rightarrow> database \<Rightarrow> (unit \<times> database) option" where
  "insert_key r d = (if has_table ''execution_keys'' d
     then map_option (\<lambda>rs. ((), d\<lparr>t_keys := rs\<rparr>)) (insert_row kr_key key_check r (t_keys d)) else None)"

definition insert_bind :: "bind_row \<Rightarrow> database \<Rightarrow> (unit \<times> database) option" where
  "insert_bind r d = (if has_table ''execution_command_bindings'' d
     then map_option (\<lambda>rs. ((), d\<lparr>t_binds := rs\<rparr>)) (insert_row br_key bind_check r (t_binds d)) else None)"

definition insert_adm :: "adm_row \<Rightarrow> database \<Rightarrow> (unit \<times> database) option" where
  "insert_adm r d = (if has_table ''execution_admissions'' d
     then map_option (\<lambda>rs. ((), d\<lparr>t_adms := rs\<rparr>)) (insert_row ar_key adm_check r (t_adms d)) else None)"

definition insert_launch :: "launch_row \<Rightarrow> database \<Rightarrow> (unit \<times> database) option" where
  "insert_launch r d = (if has_table ''execution_launches'' d
     then map_option (\<lambda>rs. ((), d\<lparr>t_launches := rs\<rparr>)) (insert_row lr_key launch_check r (t_launches d)) else None)"

text \<open>\<open>UPDATE\<close>: the number of rows that matched, and the table with them changed.\<close>

definition update_rows :: "('row \<Rightarrow> bool) \<Rightarrow> ('row \<Rightarrow> 'row) \<Rightarrow> 'row list \<Rightarrow> 'row list" where
  "update_rows p f rows = map (\<lambda>r. if p r then f r else r) rows"

definition update_gen :: "pystr \<Rightarrow> int \<Rightarrow> int \<Rightarrow> database \<Rightarrow> (nat \<times> database) option" where
  "update_gen scope current generation d =
     (let p = (\<lambda>r. gr_scope r = SText scope \<and> gr_generation r = SInteger current);
          rows = update_rows p (\<lambda>r. r\<lparr>gr_generation := SInteger generation\<rparr>) (t_gens d)
      in if has_table ''controller_generations'' d \<and> (generation > 0 \<or> \<not> list_ex p (t_gens d))
         then Some (length (filter p (t_gens d)), d\<lparr>t_gens := rows\<rparr>) else None)"

definition launch_matches :: "pystr \<Rightarrow> pystr \<Rightarrow> string \<Rightarrow> launch_row \<Rightarrow> bool" where
  "launch_matches key hash state r \<longleftrightarrow> lr_key r = SText key \<and> lr_hash r = SText hash
     \<and> lr_state r = SText (py state) \<and> lr_exit r = SNull"

definition update_launch_unknown :: "pystr \<Rightarrow> pystr \<Rightarrow> database \<Rightarrow> (nat \<times> database) option" where
  "update_launch_unknown key hash d =
     (let p = launch_matches key hash ''intent'';
          rows = update_rows p (\<lambda>r. r\<lparr>lr_state := SText (py ''unknown'')\<rparr>) (t_launches d)
      in if has_table ''execution_launches'' d
         then Some (length (filter p (t_launches d)), d\<lparr>t_launches := rows\<rparr>) else None)"

definition update_launch_terminal :: "pystr \<Rightarrow> pystr \<Rightarrow> int \<Rightarrow> database \<Rightarrow> (nat \<times> database) option" where
  "update_launch_terminal key hash code d =
     (let p = launch_matches key hash ''unknown'';
          rows = update_rows p (\<lambda>r. r\<lparr>lr_state := SText (py ''terminal''), lr_exit := SInteger code\<rparr>) (t_launches d)
      in if has_table ''execution_launches'' d
         then Some (length (filter p (t_launches d)), d\<lparr>t_launches := rows\<rparr>) else None)"

section \<open>Controller generations\<close>

definition acquire_generation_body :: "pystr \<Rightarrow> (store, int) prog" where
  "acquire_generation_body scope =
     bnd (select [''controller_generations''] [scope] (\<lambda>d. row_by gr_scope scope (t_gens d))) (\<lambda>row.
     case row of
       None \<Rightarrow> sq (change [scope] (insert_gen \<lparr>gr_scope = SText scope, gr_generation = SInteger 1\<rparr>)) (ret 1)
     | Some r \<Rightarrow> bnd (of_result (persisted validate_persisted_generation (gr_generation r))) (\<lambda>current.
         if current = max_generation then raise GenerationOverflowError
         else bnd (change [scope] (update_gen scope current (current + 1))) (\<lambda>rowcount.
           sq (guard (rowcount = 1) AuthorityStoreMalformedError) (ret (current + 1)))))"

definition acquire_generation :: "pyval \<Rightarrow> (store, int) prog" where
  "acquire_generation scope_arg = sq require_usable_connection
     (bnd (of_result (validate_scope scope_arg)) (\<lambda>scope.
      transaction begin_immediate ''generation acquisition failed'' (acquire_generation_body scope)))"

definition read_generation_body :: "pystr \<Rightarrow> (store, int option) prog" where
  "read_generation_body scope =
     bnd (select [''controller_generations''] [scope] (\<lambda>d. row_by gr_scope scope (t_gens d))) (\<lambda>row.
     case row of
       None \<Rightarrow> ret None
     | Some r \<Rightarrow> bnd (of_result (persisted validate_persisted_generation (gr_generation r))) (\<lambda>g. ret (Some g)))"

definition read_generation :: "pyval \<Rightarrow> (store, int option) prog" where
  "read_generation scope_arg = sq require_usable_connection
     (bnd (of_result (validate_scope scope_arg)) (\<lambda>scope.
      transaction begin_deferred ''generation read failed'' (read_generation_body scope)))"

definition is_current_generation :: "pyval \<Rightarrow> pyval \<Rightarrow> (store, bool) prog" where
  "is_current_generation scope_arg generation = sq require_usable_connection
     (bnd (of_result (validate_scope scope_arg)) (\<lambda>scope.
      case exact_int generation of
        None \<Rightarrow> ret False
      | Some g \<Rightarrow> if g \<le> 0 \<or> g > max_generation then ret False
          else bnd (read_generation scope_arg) (\<lambda>current. ret (current = Some g))))"

section \<open>Execution keys\<close>

definition register_execution_key_body :: "pystr \<Rightarrow> (store, ExecutionKeyRegistration) prog" where
  "register_execution_key_body key =
     bnd (select [''execution_keys''] [key] (\<lambda>d. row_by kr_key key (t_keys d))) (\<lambda>row.
     case row of
       None \<Rightarrow> sq (change [key] (insert_key \<lparr>kr_key = SText key\<rparr>)) (ret KEY_NEW)
     | Some r \<Rightarrow> bnd (of_result (persisted validate_persisted_execution_key (kr_key r))) (\<lambda>p.
         sq (guard (p = key) AuthorityStoreMalformedError) (ret KEY_DUPLICATE)))"

definition register_execution_key :: "pyval \<Rightarrow> (store, ExecutionKeyRegistration) prog" where
  "register_execution_key key_arg = sq require_usable_connection
     (bnd (of_result (validate_execution_key key_arg)) (\<lambda>key.
      transaction begin_immediate ''ExecutionKey registration failed'' (register_execution_key_body key)))"

definition execution_key_exists_body :: "pystr \<Rightarrow> (store, bool) prog" where
  "execution_key_exists_body key =
     bnd (select [''execution_keys''] [key] (\<lambda>d. row_by kr_key key (t_keys d))) (\<lambda>row.
     case row of
       None \<Rightarrow> ret False
     | Some r \<Rightarrow> bnd (of_result (persisted validate_persisted_execution_key (kr_key r))) (\<lambda>p.
         sq (guard (p = key) AuthorityStoreMalformedError) (ret True)))"

definition execution_key_exists :: "pyval \<Rightarrow> (store, bool) prog" where
  "execution_key_exists key_arg = sq require_usable_connection
     (bnd (of_result (validate_execution_key key_arg)) (\<lambda>key.
      transaction begin_deferred ''ExecutionKey existence read failed'' (execution_key_exists_body key)))"

text \<open>The lookup of the registered key that most bodies start with.\<close>

definition require_registered :: "pystr \<Rightarrow> (store, unit) prog" where
  "require_registered key =
     bnd (select [''execution_keys''] [key] (\<lambda>d. row_by kr_key key (t_keys d))) (\<lambda>row.
     case row of
       None \<Rightarrow> raise ExecutionKeyNotRegisteredError
     | Some r \<Rightarrow> bnd (of_result (persisted validate_persisted_execution_key (kr_key r))) (\<lambda>p.
         guard (p = key) AuthorityStoreMalformedError))"

section \<open>Command bindings\<close>

definition bind_command_spec_hash_body :: "pystr \<Rightarrow> pystr \<Rightarrow> (store, CommandSpecBindingResult) prog" where
  "bind_command_spec_hash_body key hash =
     sq (require_registered key)
     (bnd (select [''execution_command_bindings''] [key] (\<lambda>d. row_by br_key key (t_binds d))) (\<lambda>row.
     case row of
       None \<Rightarrow> sq (change [key, hash] (insert_bind \<lparr>br_key = SText key, br_hash = SText hash\<rparr>)) (ret BOUND)
     | Some r \<Rightarrow> bnd (of_result (persisted validate_persisted_command_spec_hash (br_hash r))) (\<lambda>h.
         sq (guard (h = hash) CommandSpecConflictError) (ret ALREADY_BOUND))))"

definition bind_command_spec_hash :: "pyval \<Rightarrow> pyval \<Rightarrow> (store, CommandSpecBindingResult) prog" where
  "bind_command_spec_hash key_arg hash_arg = sq require_usable_connection
     (bnd (of_result (validate_execution_key key_arg)) (\<lambda>key.
      bnd (of_result (validate_command_spec_hash hash_arg)) (\<lambda>hash.
      transaction begin_immediate ''CommandSpecHash binding failed'' (bind_command_spec_hash_body key hash))))"

definition read_command_spec_hash_body :: "pystr \<Rightarrow> (store, pystr option) prog" where
  "read_command_spec_hash_body key =
     sq (require_registered key)
     (bnd (select [''execution_command_bindings''] [key] (\<lambda>d. row_by br_key key (t_binds d))) (\<lambda>row.
     case row of
       None \<Rightarrow> ret None
     | Some r \<Rightarrow> bnd (of_result (persisted validate_persisted_command_spec_hash (br_hash r))) (\<lambda>h. ret (Some h))))"

definition read_command_spec_hash :: "pyval \<Rightarrow> (store, pystr option) prog" where
  "read_command_spec_hash key_arg = sq require_usable_connection
     (bnd (of_result (validate_execution_key key_arg)) (\<lambda>key.
      transaction begin_deferred ''CommandSpecHash read failed'' (read_command_spec_hash_body key)))"

section \<open>Admissions\<close>

definition admit_execution_body :: "pystr \<Rightarrow> pystr \<Rightarrow> int \<Rightarrow> (store, ExecutionAdmissionResult) prog" where
  "admit_execution_body key scope generation =
     sq (require_registered key)
     (bnd (select [''execution_command_bindings''] [key] (\<lambda>d. row_by br_key key (t_binds d))) (\<lambda>binding.
     case binding of None \<Rightarrow> raise ExecutionKeyNotCommandBoundError | Some b \<Rightarrow>
     sq (of_result (persisted validate_persisted_command_spec_hash (br_hash b)))
     (bnd (select [''controller_generations''] [scope] (\<lambda>d. row_by gr_scope scope (t_gens d))) (\<lambda>generation_row.
     case generation_row of None \<Rightarrow> raise ControllerGenerationNotCurrentError | Some g \<Rightarrow>
     bnd (of_result (persisted validate_persisted_generation (gr_generation g))) (\<lambda>current_generation.
     if current_generation \<noteq> generation then raise ControllerGenerationNotCurrentError else
     bnd (select [''execution_admissions''] [key] (\<lambda>d. row_by ar_key key (t_adms d))) (\<lambda>admission_row.
     case admission_row of
       None \<Rightarrow> sq (change [key, scope] (insert_adm
           \<lparr>ar_key = SText key, ar_scope = SText scope, ar_generation = SInteger generation\<rparr>)) (ret ADMITTED)
     | Some a \<Rightarrow>
         bnd (of_result (persisted validate_persisted_execution_key (ar_key a))) (\<lambda>admitted_key.
         bnd (of_result (persisted validate_persisted_scope (ar_scope a))) (\<lambda>admitted_scope.
         bnd (of_result (persisted validate_persisted_generation (ar_generation a))) (\<lambda>admitted_generation.
         if admitted_key \<noteq> key \<or> admitted_scope \<noteq> scope \<or> admitted_generation \<noteq> generation
         then raise ExecutionAdmissionConflictError else ret ALREADY_ADMITTED)))))))))"

definition admit_execution :: "pyval \<Rightarrow> pyval \<Rightarrow> pyval \<Rightarrow> (store, ExecutionAdmissionResult) prog" where
  "admit_execution key_arg scope_arg expected_generation = sq require_usable_connection
     (bnd (of_result (validate_execution_key key_arg)) (\<lambda>key.
      bnd (of_result (validate_scope scope_arg)) (\<lambda>scope.
      bnd (of_result (validate_controller_generation expected_generation)) (\<lambda>generation.
      transaction begin_immediate ''execution admission failed'' (admit_execution_body key scope generation)))))"

definition read_execution_admission_body :: "pystr \<Rightarrow> (store, ExecutionAdmission option) prog" where
  "read_execution_admission_body key =
     sq (require_registered key)
     (bnd (select [''execution_admissions''] [key] (\<lambda>d. row_by ar_key key (t_adms d))) (\<lambda>row.
     case row of
       None \<Rightarrow> ret None
     | Some a \<Rightarrow>
         bnd (of_result (persisted validate_persisted_execution_key (ar_key a))) (\<lambda>admitted_key.
         bnd (of_result (persisted validate_persisted_scope (ar_scope a))) (\<lambda>admitted_scope.
         bnd (of_result (persisted validate_persisted_generation (ar_generation a))) (\<lambda>admitted_generation.
         ret (Some \<lparr>adm_key = admitted_key, adm_scope = admitted_scope,
           adm_generation = admitted_generation\<rparr>))))))"

definition read_execution_admission :: "pyval \<Rightarrow> (store, ExecutionAdmission option) prog" where
  "read_execution_admission key_arg = sq require_usable_connection
     (bnd (of_result (validate_execution_key key_arg)) (\<lambda>key.
      transaction begin_deferred ''execution admission read failed'' (read_execution_admission_body key)))"

section \<open>Launches\<close>

definition claim_execution_launch_body :: "pystr \<Rightarrow> pystr \<Rightarrow> int \<Rightarrow> pystr \<Rightarrow> (store, ExecutionLaunch) prog" where
  "claim_execution_launch_body key scope generation hash =
     sq (require_registered key)
     (bnd (select [''execution_command_bindings''] [key] (\<lambda>d. row_by br_key key (t_binds d))) (\<lambda>binding.
     case binding of None \<Rightarrow> raise ExecutionKeyNotCommandBoundError | Some b \<Rightarrow>
     bnd (of_result (persisted validate_persisted_command_spec_hash (br_hash b))) (\<lambda>bound_hash.
     if bound_hash \<noteq> hash then raise CommandSpecHashMismatchError else
     bnd (select [''execution_admissions''] [key] (\<lambda>d. row_by ar_key key (t_adms d))) (\<lambda>admission.
     case admission of None \<Rightarrow> raise ExecutionAdmissionMissingError | Some a \<Rightarrow>
     bnd (of_result (persisted validate_persisted_scope (ar_scope a))) (\<lambda>admitted_scope.
     bnd (of_result (persisted validate_persisted_generation (ar_generation a))) (\<lambda>admitted_generation.
     if admitted_scope \<noteq> scope \<or> admitted_generation \<noteq> generation then raise ExecutionAdmissionMismatchError else
     bnd (select [''controller_generations''] [scope] (\<lambda>d. row_by gr_scope scope (t_gens d))) (\<lambda>generation_row.
     case generation_row of None \<Rightarrow> raise ControllerGenerationNotCurrentError | Some g \<Rightarrow>
     bnd (of_result (persisted validate_persisted_generation (gr_generation g))) (\<lambda>current_generation.
     if current_generation \<noteq> generation then raise ControllerGenerationNotCurrentError else
     bnd (select [''execution_launches''] [key] (\<lambda>d. row_by lr_key key (t_launches d))) (\<lambda>prior.
     case prior of Some _ \<Rightarrow> raise ExecutionLaunchAlreadyClaimedError | None \<Rightarrow>
     sq (change [key, hash, scope] (insert_launch
          \<lparr>lr_key = SText key, lr_hash = SText hash, lr_scope = SText scope,
           lr_generation = SInteger generation, lr_state = SText (py ''intent''), lr_exit = SNull\<rparr>))
     (ret \<lparr>lch_key = key, lch_hash = hash, lch_scope = scope, lch_generation = generation,
           lch_state = INTENT, lch_exit = None\<rparr>))))))))))"

definition claim_execution_launch :: "pyval \<Rightarrow> pyval \<Rightarrow> pyval \<Rightarrow> pyval \<Rightarrow> (store, ExecutionLaunch) prog" where
  "claim_execution_launch key_arg scope_arg expected_generation hash_arg = sq require_usable_connection
     (bnd (of_result (validate_execution_key key_arg)) (\<lambda>key.
      bnd (of_result (validate_scope scope_arg)) (\<lambda>scope.
      bnd (of_result (validate_controller_generation expected_generation)) (\<lambda>generation.
      bnd (of_result (validate_command_spec_hash hash_arg)) (\<lambda>hash.
      consequential ''execution launch claim'' (claim_execution_launch_body key scope generation hash))))))"

definition read_launch_row :: "pystr \<Rightarrow> (store, launch_row option) prog" where
  "read_launch_row key = select [''execution_launches''] [key] (\<lambda>d. row_by lr_key key (t_launches d))"

definition execution_launch_from_row :: "launch_row \<Rightarrow> (store, ExecutionLaunch) prog" where
  "execution_launch_from_row r =
     bnd (of_result (persisted validate_persisted_execution_key (lr_key r))) (\<lambda>key.
     bnd (of_result (persisted validate_persisted_command_spec_hash (lr_hash r))) (\<lambda>hash.
     bnd (of_result (persisted validate_persisted_scope (lr_scope r))) (\<lambda>scope.
     bnd (of_result (persisted validate_persisted_generation (lr_generation r))) (\<lambda>generation.
     bnd (of_result (persisted validate_persisted_launch_state (lr_state r))) (\<lambda>state.
     bnd (of_result (validate_persisted_exit_code (py_of_sql (lr_exit r)) (sql_typeof (lr_exit r)) state)) (\<lambda>code.
     ret \<lparr>lch_key = key, lch_hash = hash, lch_scope = scope, lch_generation = generation,
          lch_state = state, lch_exit = code\<rparr>))))))"

definition mark_execution_launch_unknown_body :: "pystr \<Rightarrow> pystr \<Rightarrow> (store, ExecutionLaunch) prog" where
  "mark_execution_launch_unknown_body key hash =
     bnd (read_launch_row key) (\<lambda>row.
     case row of None \<Rightarrow> raise ExecutionLaunchStateError | Some r \<Rightarrow>
     bnd (execution_launch_from_row r) (\<lambda>launch.
     if lch_hash launch \<noteq> hash then raise CommandSpecHashMismatchError
     else if lch_state launch \<noteq> INTENT then raise ExecutionLaunchStateError else
     bnd (change [key, hash] (update_launch_unknown key hash)) (\<lambda>rowcount.
     sq (guard (rowcount = 1) AuthorityStoreMalformedError)
     (ret \<lparr>lch_key = lch_key launch, lch_hash = lch_hash launch, lch_scope = lch_scope launch,
           lch_generation = lch_generation launch, lch_state = UNKNOWN, lch_exit = None\<rparr>))))"

definition mark_execution_launch_unknown :: "pyval \<Rightarrow> pyval \<Rightarrow> (store, ExecutionLaunch) prog" where
  "mark_execution_launch_unknown key_arg hash_arg = sq require_usable_connection
     (bnd (of_result (validate_execution_key key_arg)) (\<lambda>key.
      bnd (of_result (validate_command_spec_hash hash_arg)) (\<lambda>hash.
      consequential ''execution launch UNKNOWN transition'' (mark_execution_launch_unknown_body key hash))))"

definition record_execution_terminal_result_body :: "pystr \<Rightarrow> pystr \<Rightarrow> int \<Rightarrow> (store, ExecutionLaunch) prog" where
  "record_execution_terminal_result_body key hash exit_code =
     bnd (read_launch_row key) (\<lambda>row.
     case row of None \<Rightarrow> raise ExecutionLaunchStateError | Some r \<Rightarrow>
     bnd (execution_launch_from_row r) (\<lambda>launch.
     if lch_hash launch \<noteq> hash then raise CommandSpecHashMismatchError
     else if lch_state launch \<noteq> UNKNOWN then raise ExecutionLaunchStateError else
     bnd (change [key, hash] (update_launch_terminal key hash exit_code)) (\<lambda>rowcount.
     sq (guard (rowcount = 1) AuthorityStoreMalformedError)
     (ret \<lparr>lch_key = lch_key launch, lch_hash = lch_hash launch, lch_scope = lch_scope launch,
           lch_generation = lch_generation launch, lch_state = TERMINAL, lch_exit = Some exit_code\<rparr>))))"

definition record_execution_terminal_result :: "pyval \<Rightarrow> pyval \<Rightarrow> pyval \<Rightarrow> (store, ExecutionLaunch) prog" where
  "record_execution_terminal_result key_arg hash_arg exit_code_arg = sq require_usable_connection
     (bnd (of_result (validate_execution_key key_arg)) (\<lambda>key.
      bnd (of_result (validate_command_spec_hash hash_arg)) (\<lambda>hash.
      bnd (of_result (validate_process_exit_code exit_code_arg)) (\<lambda>exit_code.
      consequential ''execution terminal-result transition''
        (record_execution_terminal_result_body key hash exit_code)))))"

definition read_execution_launch_body :: "pystr \<Rightarrow> (store, ExecutionLaunch option) prog" where
  "read_execution_launch_body key =
     sq (require_registered key)
     (bnd (read_launch_row key) (\<lambda>row.
     case row of
       None \<Rightarrow> ret None
     | Some r \<Rightarrow> bnd (execution_launch_from_row r) (\<lambda>launch. ret (Some launch))))"

definition read_execution_launch :: "pyval \<Rightarrow> (store, ExecutionLaunch option) prog" where
  "read_execution_launch key_arg = sq require_usable_connection
     (bnd (of_result (validate_execution_key key_arg)) (\<lambda>key.
      transaction begin_deferred ''execution launch read failed'' (read_execution_launch_body key)))"

section \<open>Closing\<close>

definition close_store :: "(store, unit) prog" where
  "close_store = bnd (gets connected) (\<lambda>c.
     sq (modify (\<lambda>s. s\<lparr>connected := False\<rparr>)) (if c then close_connection else ret ()))"

end
