(* ===== verification/Authority_Abstract.thy ===== *)
theory Authority_Abstract
  imports Authority_Ops
begin

text \<open>
  The abstract authority: generations, registered keys, bindings, admissions and launches as
  maps, with one pure operation per method of the store. \<open>abs_of\<close> reads this state off the
  tables of a database. \<open>authority_ok\<close> is the abstract well-formedness that validity of the
  tables gives. The operations here are specifications; \<open>Authority_Refine\<close> shows that the
  code's transactions implement them.
\<close>

record auth =
  generations :: "pystr \<rightharpoonup> int"
  registered :: "pystr set"
  bindings :: "pystr \<rightharpoonup> pystr"
  admissions :: "pystr \<rightharpoonup> pystr \<times> int"
  launches :: "pystr \<rightharpoonup> ExecutionLaunch"

section \<open>Abstract operations\<close>

definition a_param :: "pystr list \<Rightarrow> (auth, unit) prog" where
  "a_param ps = guard (list_all encodable ps) UnicodeEncodeError"

definition a_acquire :: "pystr \<Rightarrow> (auth, int) prog" where
  "a_acquire scope = sq (a_param [scope]) (\<lambda>a. case generations a scope of
       None \<Rightarrow> (Inr 1, a\<lparr>generations := (generations a)(scope \<mapsto> 1)\<rparr>)
     | Some g \<Rightarrow> if g = max_generation then (Inl GenerationOverflowError, a)
         else (Inr (g + 1), a\<lparr>generations := (generations a)(scope \<mapsto> g + 1)\<rparr>))"

definition a_read_generation :: "pystr \<Rightarrow> (auth, int option) prog" where
  "a_read_generation scope = sq (a_param [scope]) (gets (\<lambda>a. generations a scope))"

definition a_register :: "pystr \<Rightarrow> (auth, ExecutionKeyRegistration) prog" where
  "a_register key = sq (a_param [key]) (\<lambda>a.
     if key \<in> registered a then (Inr KEY_DUPLICATE, a)
     else (Inr KEY_NEW, a\<lparr>registered := insert key (registered a)\<rparr>))"

definition a_exists :: "pystr \<Rightarrow> (auth, bool) prog" where
  "a_exists key = sq (a_param [key]) (gets (\<lambda>a. key \<in> registered a))"

definition a_registered :: "pystr \<Rightarrow> (auth, unit) prog" where
  "a_registered key = sq (a_param [key]) (\<lambda>a.
     if key \<in> registered a then (Inr (), a) else (Inl ExecutionKeyNotRegisteredError, a))"

definition a_bind :: "pystr \<Rightarrow> pystr \<Rightarrow> (auth, CommandSpecBindingResult) prog" where
  "a_bind key hash = sq (a_registered key) (\<lambda>a. case bindings a key of
       None \<Rightarrow> (Inr BOUND, a\<lparr>bindings := (bindings a)(key \<mapsto> hash)\<rparr>)
     | Some h \<Rightarrow> (if h = hash then Inr ALREADY_BOUND else Inl CommandSpecConflictError, a))"

definition a_read_hash :: "pystr \<Rightarrow> (auth, pystr option) prog" where
  "a_read_hash key = sq (a_registered key) (gets (\<lambda>a. bindings a key))"

definition a_admit :: "pystr \<Rightarrow> pystr \<Rightarrow> int \<Rightarrow> (auth, ExecutionAdmissionResult) prog" where
  "a_admit key scope generation = sq (a_registered key) (\<lambda>a.
     if bindings a key = None then (Inl ExecutionKeyNotCommandBoundError, a)
     else sq (a_param [scope]) (\<lambda>a.
       if generations a scope \<noteq> Some generation then (Inl ControllerGenerationNotCurrentError, a)
       else case admissions a key of
           None \<Rightarrow> (Inr ADMITTED, a\<lparr>admissions := (admissions a)(key \<mapsto> (scope, generation))\<rparr>)
         | Some x \<Rightarrow> (if x = (scope, generation) then Inr ALREADY_ADMITTED
             else Inl ExecutionAdmissionConflictError, a)) a)"

definition a_read_admission :: "pystr \<Rightarrow> (auth, ExecutionAdmission option) prog" where
  "a_read_admission key = sq (a_registered key) (gets (\<lambda>a. map_option
     (\<lambda>(scope, generation). \<lparr>adm_key = key, adm_scope = scope, adm_generation = generation\<rparr>)
     (admissions a key)))"

definition intent_launch :: "pystr \<Rightarrow> pystr \<Rightarrow> int \<Rightarrow> pystr \<Rightarrow> ExecutionLaunch" where
  "intent_launch key scope generation hash = \<lparr>lch_key = key, lch_hash = hash, lch_scope = scope,
     lch_generation = generation, lch_state = INTENT, lch_exit = None\<rparr>"

definition a_claim :: "pystr \<Rightarrow> pystr \<Rightarrow> int \<Rightarrow> pystr \<Rightarrow> (auth, ExecutionLaunch) prog" where
  "a_claim key scope generation hash = sq (a_registered key) (\<lambda>a.
     if bindings a key = None then (Inl ExecutionKeyNotCommandBoundError, a)
     else if bindings a key \<noteq> Some hash then (Inl CommandSpecHashMismatchError, a)
     else if admissions a key = None then (Inl ExecutionAdmissionMissingError, a)
     else if admissions a key \<noteq> Some (scope, generation) then (Inl ExecutionAdmissionMismatchError, a)
     else sq (a_param [scope]) (\<lambda>a.
       if generations a scope \<noteq> Some generation then (Inl ControllerGenerationNotCurrentError, a)
       else if launches a key \<noteq> None then (Inl ExecutionLaunchAlreadyClaimedError, a)
       else (Inr (intent_launch key scope generation hash),
         a\<lparr>launches := (launches a)(key \<mapsto> intent_launch key scope generation hash)\<rparr>)) a)"

text \<open>
  Both launch transitions: the launch must exist, carry the same command hash and be in the
  state the transition leaves; it then becomes \<open>to_launch launch\<close>.
\<close>

definition a_transition ::
  "pystr \<Rightarrow> pystr \<Rightarrow> ExecutionLaunchState \<Rightarrow> (ExecutionLaunch \<Rightarrow> ExecutionLaunch) \<Rightarrow> (auth, ExecutionLaunch) prog" where
  "a_transition key hash from_state to_launch = sq (a_param [key]) (\<lambda>a. case launches a key of
       None \<Rightarrow> (Inl ExecutionLaunchStateError, a)
     | Some l \<Rightarrow>
         if lch_hash l \<noteq> hash then (Inl CommandSpecHashMismatchError, a)
         else if lch_state l \<noteq> from_state then (Inl ExecutionLaunchStateError, a)
         else (Inr (to_launch l), a\<lparr>launches := (launches a)(key \<mapsto> to_launch l)\<rparr>))"

definition a_mark :: "pystr \<Rightarrow> pystr \<Rightarrow> (auth, ExecutionLaunch) prog" where
  "a_mark key hash = a_transition key hash INTENT (\<lambda>l. l\<lparr>lch_state := UNKNOWN, lch_exit := None\<rparr>)"

definition a_record :: "pystr \<Rightarrow> pystr \<Rightarrow> int \<Rightarrow> (auth, ExecutionLaunch) prog" where
  "a_record key hash code =
     a_transition key hash UNKNOWN (\<lambda>l. l\<lparr>lch_state := TERMINAL, lch_exit := Some code\<rparr>)"

definition a_read_launch :: "pystr \<Rightarrow> (auth, ExecutionLaunch option) prog" where
  "a_read_launch key = sq (a_registered key) (gets (\<lambda>a. launches a key))"

lemmas a_op_defs = a_acquire_def a_read_generation_def a_register_def a_exists_def a_bind_def
  a_read_hash_def a_admit_def a_read_admission_def a_claim_def a_mark_def a_record_def
  a_read_launch_def a_transition_def a_registered_def a_param_def

section \<open>Reading the abstract state off the tables\<close>

fun text_of :: "sqlval \<Rightarrow> pystr option" where
  "text_of (SText s) = Some s"
| "text_of _ = None"

fun int_of :: "sqlval \<Rightarrow> int option" where
  "int_of (SInteger i) = Some i"
| "int_of _ = None"

definition launch_of_row :: "launch_row \<Rightarrow> ExecutionLaunch option" where
  "launch_of_row r = (case (text_of (lr_key r), text_of (lr_hash r), text_of (lr_scope r),
       int_of (lr_generation r), Option.bind (text_of (lr_state r)) launch_state_of) of
       (Some k, Some h, Some sc, Some g, Some st) \<Rightarrow>
         Some \<lparr>lch_key = k, lch_hash = h, lch_scope = sc, lch_generation = g, lch_state = st,
           lch_exit = int_of (lr_exit r)\<rparr>
     | _ \<Rightarrow> None)"

definition abs_of :: "database \<Rightarrow> auth" where
  "abs_of d = \<lparr>
     generations = (\<lambda>s. Option.bind (row_by gr_scope s (t_gens d)) (\<lambda>r. int_of (gr_generation r))),
     registered = {k. row_by kr_key k (t_keys d) \<noteq> None},
     bindings = (\<lambda>k. Option.bind (row_by br_key k (t_binds d)) (\<lambda>r. text_of (br_hash r))),
     admissions = (\<lambda>k. Option.bind (row_by ar_key k (t_adms d)) (\<lambda>r.
       Option.bind (text_of (ar_scope r)) (\<lambda>s. map_option (\<lambda>g. (s, g)) (int_of (ar_generation r))))),
     launches = (\<lambda>k. Option.bind (row_by lr_key k (t_launches d)) launch_of_row)\<rparr>"

lemma row_by_Some: "row_by key s rows = Some r \<Longrightarrow> r \<in> set rows \<and> key r = SText s"
  by (auto simp: row_by_def find_Some_iff)

lemma row_by_None: "row_by key s rows = None \<longleftrightarrow> (\<forall>r\<in>set rows. key r \<noteq> SText s)"
  by (auto simp: row_by_def find_None_iff)

lemma row_by_unique:
  "distinct (map key rows) \<Longrightarrow> r \<in> set rows \<Longrightarrow> key r = SText s \<Longrightarrow> row_by key s rows = Some r"
  by (induction rows) (auto simp: row_by_def, metis image_eqI)

lemma row_by_append:
  "row_by key s (rows @ [r]) = (case row_by key s rows of
     Some q \<Rightarrow> Some q | None \<Rightarrow> if key r = SText s then Some r else None)"
  by (induction rows) (auto simp: row_by_def)

lemma row_by_update:
  "(\<And>r. key (f r) = key r) \<Longrightarrow>
   row_by key s (update_rows p f rows) = map_option (\<lambda>r. if p r then f r else r) (row_by key s rows)"
  by (induction rows) (auto simp: row_by_def update_rows_def)

section \<open>Valid stores\<close>

lemma store_valid_parts:
  "store_valid d \<longleftrightarrow> integrity_check d \<and> user_version d = schema_version \<and> schema_valid objects_v5 d
     \<and> (\<forall>t\<in>set objects_v5. table_valid (snd t) d)
     \<and> gens_valid d \<and> keys_valid d \<and> binds_valid d \<and> adms_valid d \<and> launches_valid d"
  by (simp add: store_valid_def exact_valid_def)

lemma store_tables:
  "store_valid d \<Longrightarrow> has_table ''controller_generations'' d"
  "store_valid d \<Longrightarrow> has_table ''execution_keys'' d"
  "store_valid d \<Longrightarrow> has_table ''execution_command_bindings'' d"
  "store_valid d \<Longrightarrow> has_table ''execution_admissions'' d"
  "store_valid d \<Longrightarrow> has_table ''execution_launches'' d"
  unfolding store_valid_parts objects_v5_def by (auto dest: table_names)

text \<open>The rows a lookup finds in a valid store, with the values they hold.\<close>

lemma valid_gen_row:
  assumes "store_valid d" "row_by gr_scope s (t_gens d) = Some r"
  obtains g where "gr_scope r = SText s" "gr_generation r = SInteger g" "0 < g" "g \<le> max_generation"
    "generations (abs_of d) s = Some g"
proof -
  have "gr_scope r = SText s" "gen_valid r"
    using assms row_by_Some [OF assms(2)] by (auto simp: store_valid_parts gens_valid_def)
  then show thesis
    using generation_value [of "gr_generation r"] assms(2) that by (auto simp: gen_valid_def abs_of_def)
qed

lemma valid_bind_row:
  assumes "store_valid d" "row_by br_key k (t_binds d) = Some r"
  obtains h where "br_key r = SText k" "br_hash r = SText h" "h \<noteq> []" "encodable h"
    "bindings (abs_of d) k = Some h"
proof -
  have "br_key r = SText k" "bind_valid d r"
    using assms row_by_Some [OF assms(2)] by (auto simp: store_valid_parts binds_valid_def)
  then show thesis
    using hash_value [of "br_hash r"] assms(2) that by (auto simp: bind_valid_def abs_of_def)
qed

lemma valid_key_row:
  assumes "store_valid d" "row_by kr_key k (t_keys d) = Some r"
  shows "kr_key r = SText k" "k \<noteq> []" "k \<in> registered (abs_of d)"
  using assms row_by_Some [OF assms(2)]
  by (auto simp: store_valid_parts keys_valid_def key_valid_def abs_of_def)

lemma valid_adm_row:
  assumes "store_valid d" "row_by ar_key k (t_adms d) = Some r"
  obtains s g where "ar_key r = SText k" "k \<noteq> []" "ar_scope r = SText s" "s \<noteq> []" "ar_generation r = SInteger g"
    "0 < g" "g \<le> max_generation" "admissions (abs_of d) k = Some (s, g)"
proof -
  have "ar_key r = SText k" "adm_valid d r"
    using assms row_by_Some [OF assms(2)] by (auto simp: store_valid_parts adms_valid_def)
  then show thesis
    using generation_value [of "ar_generation r"] text_value [of "ar_scope r"] assms(2) that
    by (auto simp: adm_valid_def abs_of_def)
qed

text \<open>A launch as a row stores it.\<close>

definition row_of_launch :: "ExecutionLaunch \<Rightarrow> launch_row" where
  "row_of_launch l = \<lparr>lr_key = SText (lch_key l), lr_hash = SText (lch_hash l),
     lr_scope = SText (lch_scope l), lr_generation = SInteger (lch_generation l),
     lr_state = SText (py (launch_state_value (lch_state l))),
     lr_exit = (case lch_exit l of None \<Rightarrow> SNull | Some i \<Rightarrow> SInteger i)\<rparr>"

definition launch_fields_ok :: "ExecutionLaunch \<Rightarrow> bool" where
  "launch_fields_ok l \<longleftrightarrow> lch_key l \<noteq> [] \<and> lch_hash l \<noteq> [] \<and> encodable (lch_hash l) \<and> lch_scope l \<noteq> []
     \<and> 0 < lch_generation l \<and> lch_generation l \<le> max_generation
     \<and> (lch_state l = TERMINAL \<longleftrightarrow> lch_exit l \<noteq> None)
     \<and> (\<forall>i. lch_exit l = Some i \<longrightarrow> min_sqlite_integer \<le> i \<and> i \<le> max_sqlite_integer)"

lemma launch_columns_row:
  assumes "launch_columns_ok r"
  obtains l where "r = row_of_launch l" "launch_fields_ok l"
proof -
  obtain k h s g where cols: "lr_key r = SText k" "k \<noteq> []" "lr_hash r = SText h" "h \<noteq> []" "encodable h"
    "lr_scope r = SText s" "s \<noteq> []" "lr_generation r = SInteger g" "0 < g" "g \<le> max_generation"
    using assms text_value [of "lr_key r"] text_value [of "lr_scope r"] hash_value [of "lr_hash r"]
      generation_value [of "lr_generation r"] by (auto simp: launch_columns_ok_def)
  obtain st where st: "lr_state r = SText (py (launch_state_value st))"
    and "\<not> isl (validate_persisted_exit_code (py_of_sql (lr_exit r)) (sql_typeof (lr_exit r)) st)"
    using assms launch_state_ok by (auto simp: launch_columns_ok_def)
  then obtain x where x: "if st = TERMINAL then \<exists>i. lr_exit r = SInteger i \<and> min_sqlite_integer \<le> i
      \<and> i \<le> max_sqlite_integer \<and> x = Some i else lr_exit r = SNull \<and> x = None"
    unfolding not_isl_iff persisted_exit_Inr by blast
  let ?l = "\<lparr>lch_key = k, lch_hash = h, lch_scope = s, lch_generation = g, lch_state = st, lch_exit = x\<rparr>"
  have exit: "lr_exit r = (case x of None \<Rightarrow> SNull | Some i \<Rightarrow> SInteger i)"
    "st = TERMINAL \<longleftrightarrow> x \<noteq> None" "\<forall>i. x = Some i \<longrightarrow> min_sqlite_integer \<le> i \<and> i \<le> max_sqlite_integer"
    using x by (auto split: if_splits)
  have "r = row_of_launch ?l"
    by (rule launch_row.equality) (simp_all add: row_of_launch_def cols st exit(1))
  moreover have "launch_fields_ok ?l" using cols exit by (simp add: launch_fields_ok_def)
  ultimately show thesis by (rule that)
qed

lemma launch_of_row_of_launch [simp]: "launch_of_row (row_of_launch l) = Some l"
  by (cases "lch_exit l") (simp_all add: launch_of_row_def row_of_launch_def)

lemma valid_launch_row:
  assumes "store_valid d" "row_by lr_key k (t_launches d) = Some r"
  obtains l where "r = row_of_launch l" "launch_fields_ok l" "lch_key l = k"
    "launches (abs_of d) k = Some l"
proof -
  have r: "lr_key r = SText k" "launch_valid d r"
    using assms row_by_Some [OF assms(2)] by (auto simp: store_valid_parts launches_valid_def)
  then have "launch_columns_ok r"
    by (simp add: launch_valid_def launch_columns_ok_def)
  then obtain l where l: "r = row_of_launch l" "launch_fields_ok l"
    by (rule launch_columns_row)
  moreover have "lch_key l = k" using r(1) l(1) by (simp add: row_of_launch_def)
  moreover have "launches (abs_of d) k = Some l" using assms(2) l by (simp add: abs_of_def)
  ultimately show thesis by (rule that)
qed

lemma abs_of_None:
  "row_by gr_scope s (t_gens d) = None \<Longrightarrow> generations (abs_of d) s = None"
  "row_by br_key k (t_binds d) = None \<Longrightarrow> bindings (abs_of d) k = None"
  "row_by ar_key k (t_adms d) = None \<Longrightarrow> admissions (abs_of d) k = None"
  "row_by lr_key k (t_launches d) = None \<Longrightarrow> launches (abs_of d) k = None"
  "row_by kr_key k (t_keys d) = None \<Longrightarrow> k \<notin> registered (abs_of d)"
  by (simp_all add: abs_of_def)

end
