(* ===== verification/Authority_Effects.thy ===== *)
theory Authority_Effects
  imports Authority_Abstract
begin

text \<open>
  The effect of each \<open>INSERT\<close> and \<open>UPDATE\<close> of the store on a valid database: the statement
  succeeds, the result is valid again, and the abstract state changes in the one place the
  statement is about.
\<close>

section \<open>Validity depends on the tables and the schema\<close>

lemma schema_table_update [simp]:
  "schema_valid objects (d\<lparr>t_gens := g\<rparr>) = schema_valid objects d"
  "schema_valid objects (d\<lparr>t_keys := k\<rparr>) = schema_valid objects d"
  "schema_valid objects (d\<lparr>t_binds := b\<rparr>) = schema_valid objects d"
  "schema_valid objects (d\<lparr>t_adms := a\<rparr>) = schema_valid objects d"
  "schema_valid objects (d\<lparr>t_launches := l\<rparr>) = schema_valid objects d"
  by (simp_all add: schema_valid_def user_schema_rows_def)

lemma table_table_update [simp]:
  "table_valid t (d\<lparr>t_gens := g\<rparr>) = table_valid t d"
  "table_valid t (d\<lparr>t_keys := k\<rparr>) = table_valid t d"
  "table_valid t (d\<lparr>t_binds := b\<rparr>) = table_valid t d"
  "table_valid t (d\<lparr>t_adms := a\<rparr>) = table_valid t d"
  "table_valid t (d\<lparr>t_launches := l\<rparr>) = table_valid t d"
  by (simp_all add: table_valid_def table_info_def has_table_def)

lemmas tables_valid_defs = gens_valid_def keys_valid_def binds_valid_def adms_valid_def launches_valid_def
lemmas rows_valid_defs = gen_valid_def key_valid_def bind_valid_def adm_valid_def launch_valid_def

lemma row_by_new: "row_by key s rows = None \<Longrightarrow> r \<in> set rows \<Longrightarrow> key r \<noteq> SText s"
  by (simp add: row_by_None)

lemma row_by_new_image [simp]: "row_by key s rows = None \<Longrightarrow> SText s \<notin> key ` set rows"
  by (auto simp: row_by_None)

lemma insert_row_new:
  "check r \<Longrightarrow> row_by key s rows = None \<Longrightarrow> key r = SText s \<Longrightarrow> insert_row key check r rows = Some (rows @ [r])"
  by (auto simp: insert_row_def list_ex_iff row_by_None)

section \<open>Insertions\<close>

lemma store_valid_insert_gen:
  assumes "store_valid d" "row_by gr_scope s (t_gens d) = None" "s \<noteq> []" "0 < g" "g \<le> max_generation"
  shows "store_valid (d\<lparr>t_gens := t_gens d @ [\<lparr>gr_scope = SText s, gr_generation = SInteger g\<rparr>]\<rparr>)"
proof -
  let ?d = "d\<lparr>t_gens := t_gens d @ [\<lparr>gr_scope = SText s, gr_generation = SInteger g\<rparr>]\<rparr>"
  note new = row_by_new [OF assms(2)]
  have "adm_valid ?d a" if "adm_valid d a" for a
    using that new by (auto simp: adm_valid_def)
  moreover have "launch_valid ?d l" if "launch_valid d l" for l
    using that new by (auto simp: launch_valid_def)
  ultimately show ?thesis
    using assms by (auto simp: store_valid_parts integrity_check_def tables_valid_defs gen_valid_def bind_valid_def)
qed

lemma store_valid_insert_key:
  assumes "store_valid d" "row_by kr_key k (t_keys d) = None" "k \<noteq> []"
  shows "store_valid (d\<lparr>t_keys := t_keys d @ [\<lparr>kr_key = SText k\<rparr>]\<rparr>)"
proof -
  let ?d = "d\<lparr>t_keys := t_keys d @ [\<lparr>kr_key = SText k\<rparr>]\<rparr>"
  have "bind_valid ?d b" if "bind_valid d b" for b
    using that by (auto simp: bind_valid_def)
  moreover have "adm_valid ?d a" if "adm_valid d a" for a
    using that by (auto simp: adm_valid_def)
  moreover have "launch_valid ?d l" if "launch_valid d l" for l
    using that by (auto simp: launch_valid_def)
  ultimately show ?thesis
    using assms by (auto simp: store_valid_parts integrity_check_def tables_valid_defs key_valid_def)
qed

lemma store_valid_insert_bind:
  assumes "store_valid d" "row_by kr_key k (t_keys d) = Some r" "row_by br_key k (t_binds d) = None"
    "k \<noteq> []" "h \<noteq> []" "encodable h"
  shows "store_valid (d\<lparr>t_binds := t_binds d @ [\<lparr>br_key = SText k, br_hash = SText h\<rparr>]\<rparr>)"
proof -
  let ?d = "d\<lparr>t_binds := t_binds d @ [\<lparr>br_key = SText k, br_hash = SText h\<rparr>]\<rparr>"
  note new = row_by_new [OF assms(3)]
  have "bind_valid ?d b" if "bind_valid d b" for b
    using that by (auto simp: bind_valid_def)
  moreover have "adm_valid ?d a" if "adm_valid d a" for a
    using that by (auto simp: adm_valid_def)
  moreover have "launch_valid ?d l" if "launch_valid d l" for l
    using that new by (auto simp: launch_valid_def)
  moreover have "bind_valid ?d \<lparr>br_key = SText k, br_hash = SText h\<rparr>"
    using assms row_by_Some [OF assms(2)] by (auto simp: bind_valid_def)
  ultimately show ?thesis
    using assms by (auto simp: store_valid_parts integrity_check_def tables_valid_defs)
qed

lemma store_valid_insert_adm:
  assumes "store_valid d" "row_by kr_key k (t_keys d) = Some e" "row_by br_key k (t_binds d) = Some b"
    "row_by gr_scope s (t_gens d) = Some q" "gr_generation q = SInteger g"
    "row_by ar_key k (t_adms d) = None" "k \<noteq> []" "s \<noteq> []" "0 < g" "g \<le> max_generation"
  shows "store_valid (d\<lparr>t_adms := t_adms d @
    [\<lparr>ar_key = SText k, ar_scope = SText s, ar_generation = SInteger g\<rparr>]\<rparr>)"
proof -
  let ?a = "\<lparr>ar_key = SText k, ar_scope = SText s, ar_generation = SInteger g\<rparr>"
  let ?d = "d\<lparr>t_adms := t_adms d @ [?a]\<rparr>"
  note new = row_by_new [OF assms(6)]
  have only: "r = q" if "r \<in> set (t_gens d)" "gr_scope r = SText s" for r
    using row_by_unique [of gr_scope "t_gens d" r s] that assms(1,4)
    by (simp add: store_valid_parts integrity_check_def)
  have q: "q \<in> set (t_gens d)" "gr_scope q = SText s"
    and e: "\<exists>e\<in>set (t_keys d). kr_key e = SText k" and b: "\<exists>b\<in>set (t_binds d). br_key b = SText k"
    using row_by_Some [OF assms(2)] row_by_Some [OF assms(3)] row_by_Some [OF assms(4)] by blast+
  have current: "\<forall>r\<in>set (t_gens d). gr_scope r = SText s \<longrightarrow>
      generation_ok (gr_generation r) \<and> generation_le (SInteger g) (gr_generation r)"
    using only assms(5,9,10) by (metis generation_ok_integer generation_le_integers order_refl)
  have "adm_valid ?d a \<longleftrightarrow> adm_valid d a" for a
    by (simp add: adm_valid_def)
  moreover have "adm_valid d ?a"
    using q e b current assms(7-10) by (simp add: adm_valid_def) blast
  moreover have "launch_valid ?d l" if "launch_valid d l" for l
    using that new by (auto simp: launch_valid_def)
  ultimately show ?thesis
    using assms by (auto simp: store_valid_parts integrity_check_def tables_valid_defs bind_valid_def)
qed

lemma store_valid_insert_launch:
  assumes "store_valid d" "row_by kr_key k (t_keys d) = Some e"
    "row_by br_key k (t_binds d) = Some b" "br_hash b = SText h"
    "row_by ar_key k (t_adms d) = Some a" "ar_scope a = SText s" "ar_generation a = SInteger g"
    "row_by lr_key k (t_launches d) = None"
  shows "store_valid (d\<lparr>t_launches := t_launches d @ [row_of_launch (intent_launch k s g h)]\<rparr>)"
proof -
  let ?l = "row_of_launch (intent_launch k s g h)"
  let ?d = "d\<lparr>t_launches := t_launches d @ [?l]\<rparr>"
  have b: "br_key b = SText k" "r \<in> set (t_binds d) \<Longrightarrow> br_key r = SText k \<Longrightarrow> r = b" for r
    using row_by_Some [OF assms(3)] row_by_unique [of br_key "t_binds d" r k] assms(1,3)
    by (simp_all add: store_valid_parts integrity_check_def)
  have a: "adm_valid d a" "ar_key a = SText k" "r \<in> set (t_adms d) \<Longrightarrow> ar_key r = SText k \<Longrightarrow> r = a" for r
    using row_by_Some [OF assms(5)] row_by_unique [of ar_key "t_adms d" r k] assms(1,5)
    by (simp_all add: store_valid_parts integrity_check_def adms_valid_def)
  have in_d: "bind_valid d b" "a \<in> set (t_adms d)" "b \<in> set (t_binds d)"
    using row_by_Some [OF assms(3)] row_by_Some [OF assms(5)] assms(1)
    by (simp_all add: store_valid_parts binds_valid_def)
  have only: "\<forall>r\<in>set (t_binds d). br_key r = SText k \<longrightarrow> br_hash r = SText h"
    "\<forall>r\<in>set (t_adms d). ar_key r = SText k \<longrightarrow> ar_scope r = SText s \<and> ar_generation r = SInteger g"
    using a(3) b(2) assms(4,6,7) by blast+
  have "\<exists>r\<in>set (t_binds d). br_key r = SText k" "\<exists>r\<in>set (t_adms d). ar_key r = SText k"
    using a(2) b(1) in_d by blast+
  with a(1,2) only in_d(1) assms(4,6,7) have "launch_valid d ?l"
    unfolding launch_valid_def row_of_launch_def intent_launch_def adm_valid_def bind_valid_def
    by (simp add: launch_ok_def)
  moreover have "launch_valid ?d l = launch_valid d l" "adm_valid ?d x = adm_valid d x"
    "bind_valid ?d y = bind_valid d y" for l x y
    by (simp_all add: launch_valid_def adm_valid_def bind_valid_def)
  moreover have "lr_key ?l = SText k" by (simp add: row_of_launch_def intent_launch_def)
  ultimately show ?thesis
    using assms by (auto simp: store_valid_parts integrity_check_def tables_valid_defs)
qed

section \<open>Updates\<close>

lemma map_update_rows: "(\<And>r. key (f r) = key r) \<Longrightarrow> map key (update_rows p f rows) = map key rows"
  by (simp add: update_rows_def)

lemma in_update_rows:
  "r \<in> set (update_rows p f rows) \<longleftrightarrow> (\<exists>q\<in>set rows. r = (if p q then f q else q))"
  unfolding update_rows_def set_map by blast

lemma ex_update_rows: "(\<exists>r\<in>set (update_rows p f rows). P r) \<longleftrightarrow> (\<exists>q\<in>set rows. P (if p q then f q else q))"
  unfolding update_rows_def set_map by blast

lemma filter_unique:
  assumes "distinct (map key rows)" "row_by key s rows = Some r" "\<And>q. p q \<Longrightarrow> key q = SText s" "p r"
  shows "filter p rows = [r]"
  using assms
proof (induction rows)
  case (Cons q rows)
  show ?case
  proof (cases "key q = SText s")
    case True
    with Cons.prems have "q = r" "\<forall>x\<in>set rows. key x \<noteq> SText s" by (auto simp: row_by_def image_iff)
    with Cons.prems show ?thesis by (auto simp: filter_empty_conv)
  next
    case False
    with Cons show ?thesis by (auto simp: row_by_def)
  qed
qed (simp add: row_by_def)

lemma store_valid_update_gen:
  assumes "store_valid d" "0 < g" "g < max_generation"
    "p = (\<lambda>r. gr_scope r = SText s \<and> gr_generation r = SInteger g)"
  shows "store_valid (d\<lparr>t_gens := update_rows p (\<lambda>r. r\<lparr>gr_generation := SInteger (g + 1)\<rparr>) (t_gens d)\<rparr>)"
proof -
  let ?d = "d\<lparr>t_gens := update_rows p (\<lambda>r. r\<lparr>gr_generation := SInteger (g + 1)\<rparr>) (t_gens d)\<rparr>"
  have le: "generation_le v (SInteger g) \<Longrightarrow> generation_le v (SInteger (g + 1))" for v
    by (cases v) (simp_all add: generation_le_def)
  have "gen_valid r" if r_in: "r \<in> set (t_gens ?d)" for r
  proof -
    obtain q where "q \<in> set (t_gens d)" "r = (if p q then q\<lparr>gr_generation := SInteger (g + 1)\<rparr> else q)"
      using r_in by (simp add: in_update_rows) blast
    moreover from this have "gen_valid q" using assms(1) by (simp add: store_valid_parts gens_valid_def)
    ultimately show ?thesis using assms(2,3) by (simp add: gen_valid_def split: if_splits)
  qed
  moreover have scopes: "\<exists>r\<in>set (t_gens ?d). gr_scope r = v"
    if "\<exists>r\<in>set (t_gens d). gr_scope r = v" for v
    using that by (simp add: ex_update_rows if_distrib cong: if_cong)
  moreover have newer: "\<forall>r\<in>set (t_gens ?d). gr_scope r = v \<longrightarrow>
      generation_ok (gr_generation r) \<and> generation_le w (gr_generation r)"
    if old: "\<forall>r\<in>set (t_gens d). gr_scope r = v \<longrightarrow>
      generation_ok (gr_generation r) \<and> generation_le w (gr_generation r)" for v w
  proof (intro ballI impI)
    fix r assume "r \<in> set (t_gens ?d)" and v: "gr_scope r = v"
    then obtain q where q: "q \<in> set (t_gens d)"
      "r = (if p q then q\<lparr>gr_generation := SInteger (g + 1)\<rparr> else q)"
      by (simp add: in_update_rows) blast
    then have "generation_ok (gr_generation q) \<and> generation_le w (gr_generation q)"
      using old v by (auto split: if_splits)
    with q(2) assms(2-4) le show "generation_ok (gr_generation r) \<and> generation_le w (gr_generation r)"
      by (auto split: if_splits)
  qed
  moreover have "adm_valid ?d a" if "adm_valid d a" for a
    using that scopes newer [of "ar_scope a" "ar_generation a"] by (simp add: adm_valid_def)
  moreover have "launch_valid ?d l" if "launch_valid d l" for l
    using that scopes newer [of "lr_scope l" "lr_generation l"] by (simp add: launch_valid_def)
  ultimately show ?thesis
    using assms(1) by (auto simp: store_valid_parts integrity_check_def tables_valid_defs map_update_rows bind_valid_def)
qed

lemma store_valid_update_launch:
  assumes "store_valid d" "\<And>r. p r \<Longrightarrow> launch_ok (lr_state (f r)) (lr_exit (f r))"
    "\<And>r. lr_key (f r) = lr_key r \<and> lr_hash (f r) = lr_hash r \<and> lr_scope (f r) = lr_scope r
       \<and> lr_generation (f r) = lr_generation r"
  shows "store_valid (d\<lparr>t_launches := update_rows p f (t_launches d)\<rparr>)"
proof -
  let ?d = "d\<lparr>t_launches := update_rows p f (t_launches d)\<rparr>"
  have "launch_valid ?d l" if l_in: "l \<in> set (t_launches ?d)" for l
  proof -
    obtain r where r: "r \<in> set (t_launches d)" "l = (if p r then f r else r)"
      using l_in by (simp add: in_update_rows) blast
    then have "launch_valid d r" using assms(1) by (simp add: store_valid_parts launches_valid_def)
    with r assms(2) [of r] assms(3) [of r] show ?thesis by (simp add: launch_valid_def split: if_splits)
  qed
  moreover have "adm_valid ?d x = adm_valid d x" "bind_valid ?d y = bind_valid d y" for x y
    by (simp_all add: adm_valid_def bind_valid_def)
  ultimately show ?thesis
    using assms(1,3) by (auto simp: store_valid_parts integrity_check_def tables_valid_defs map_update_rows)
qed

section \<open>The abstract state afterwards\<close>

lemma abs_insert_gen:
  "row_by gr_scope s (t_gens d) = None \<Longrightarrow>
   abs_of (d\<lparr>t_gens := t_gens d @ [\<lparr>gr_scope = SText s, gr_generation = SInteger g\<rparr>]\<rparr>) =
   (abs_of d)\<lparr>generations := (generations (abs_of d))(s \<mapsto> g)\<rparr>"
  by (auto simp: abs_of_def row_by_append fun_eq_iff split: option.splits)

lemma abs_insert_key:
  "abs_of (d\<lparr>t_keys := t_keys d @ [\<lparr>kr_key = SText k\<rparr>]\<rparr>) =
   (abs_of d)\<lparr>registered := insert k (registered (abs_of d))\<rparr>"
  by (auto simp: abs_of_def row_by_append fun_eq_iff split: option.splits if_splits)

lemma abs_insert_bind:
  "row_by br_key k (t_binds d) = None \<Longrightarrow>
   abs_of (d\<lparr>t_binds := t_binds d @ [\<lparr>br_key = SText k, br_hash = SText h\<rparr>]\<rparr>) =
   (abs_of d)\<lparr>bindings := (bindings (abs_of d))(k \<mapsto> h)\<rparr>"
  by (auto simp: abs_of_def row_by_append fun_eq_iff split: option.splits)

lemma abs_insert_adm:
  "row_by ar_key k (t_adms d) = None \<Longrightarrow>
   abs_of (d\<lparr>t_adms := t_adms d @ [\<lparr>ar_key = SText k, ar_scope = SText s, ar_generation = SInteger g\<rparr>]\<rparr>) =
   (abs_of d)\<lparr>admissions := (admissions (abs_of d))(k \<mapsto> (s, g))\<rparr>"
  by (auto simp: abs_of_def row_by_append fun_eq_iff split: option.splits)

lemma abs_insert_launch:
  "row_by lr_key (lch_key l) (t_launches d) = None \<Longrightarrow>
   abs_of (d\<lparr>t_launches := t_launches d @ [row_of_launch l]\<rparr>) =
   (abs_of d)\<lparr>launches := (launches (abs_of d))(lch_key l \<mapsto> l)\<rparr>"
proof -
  assume new: "row_by lr_key (lch_key l) (t_launches d) = None"
  have "lr_key (row_of_launch l) = SText (lch_key l)" by (simp add: row_of_launch_def)
  with new show ?thesis by (auto simp: abs_of_def row_by_append fun_eq_iff split: option.splits)
qed

lemma abs_update_gen:
  assumes "row_by gr_scope s (t_gens d) = Some r" "gr_generation r = SInteger g"
    "p = (\<lambda>r. gr_scope r = SText s \<and> gr_generation r = SInteger g)"
  shows "abs_of (d\<lparr>t_gens := update_rows p (\<lambda>r. r\<lparr>gr_generation := SInteger g'\<rparr>) (t_gens d)\<rparr>) =
    (abs_of d)\<lparr>generations := (generations (abs_of d))(s \<mapsto> g')\<rparr>"
proof -
  have "row_by gr_scope t (update_rows p (\<lambda>r. r\<lparr>gr_generation := SInteger g'\<rparr>) (t_gens d)) =
      (if t = s then Some (r\<lparr>gr_generation := SInteger g'\<rparr>) else row_by gr_scope t (t_gens d))" for t
    using assms row_by_Some [of gr_scope t "t_gens d"] row_by_Some [OF assms(1)]
    by (cases "row_by gr_scope t (t_gens d)") (auto simp: row_by_update)
  then show ?thesis by (auto simp: abs_of_def fun_eq_iff)
qed

lemma abs_update_launch:
  assumes "row_by lr_key k (t_launches d) = Some r" "\<And>q. p q \<Longrightarrow> lr_key q = SText k" "p r"
    "\<And>q. lr_key (f q) = lr_key q" "f r = row_of_launch l"
  shows "abs_of (d\<lparr>t_launches := update_rows p f (t_launches d)\<rparr>) =
    (abs_of d)\<lparr>launches := (launches (abs_of d))(k \<mapsto> l)\<rparr>"
proof -
  have "row_by lr_key t (update_rows p f (t_launches d)) =
      (if t = k then Some (row_of_launch l) else row_by lr_key t (t_launches d))" for t
    using assms row_by_Some [of lr_key t "t_launches d"] row_by_Some [OF assms(1)]
    by (cases "row_by lr_key t (t_launches d)") (auto simp: row_by_update)
  then show ?thesis by (auto simp: abs_of_def fun_eq_iff)
qed

end
