(* ===== verification/Authority_Refine.thy ===== *)
theory Authority_Refine
  imports Authority_Effects
begin

text \<open>
  Every transaction body of the store refines its abstract operation: inside a transaction on
  a valid database, without faults, it gives the abstract result and leaves a valid database
  whose abstract state is the abstract operation's.
\<close>

section \<open>Refinement of a transaction body\<close>

definition in_valid_tx :: "store \<Rightarrow> database \<Rightarrow> bool" where
  "in_valid_tx c d \<longleftrightarrow> is_open c \<and> faults c = [] \<and> work c = Some d \<and> store_valid d"

lemma in_valid_txD:
  "in_valid_tx c d \<Longrightarrow> is_open c" "in_valid_tx c d \<Longrightarrow> faults c = []"
  "in_valid_tx c d \<Longrightarrow> work c = Some d" "in_valid_tx c d \<Longrightarrow> store_valid d"
  by (simp_all add: in_valid_tx_def)

definition refines :: "(store, 'a) prog \<Rightarrow> (auth, 'a) prog \<Rightarrow> bool" where
  "refines m a \<longleftrightarrow> (\<forall>c d. in_valid_tx c d \<longrightarrow>
     (\<exists>r d'. m c = (r, c\<lparr>work := Some d'\<rparr>) \<and> a (abs_of d) = (r, abs_of d') \<and> store_valid d'))"

definition refined_at :: "(store, 'a) prog \<Rightarrow> (auth, 'a) prog \<Rightarrow> store \<Rightarrow> database \<Rightarrow> bool" where
  "refined_at m a c d \<longleftrightarrow>
     (\<exists>r d'. m c = (r, c\<lparr>work := Some d'\<rparr>) \<and> a (abs_of d) = (r, abs_of d') \<and> store_valid d')"

lemma refinesI: "(\<And>c d. in_valid_tx c d \<Longrightarrow> refined_at m a c d) \<Longrightarrow> refines m a"
  by (simp add: refines_def refined_at_def)

lemma refinesE:
  assumes "refines m a" "in_valid_tx c d"
  obtains r d' where "m c = (r, c\<lparr>work := Some d'\<rparr>)" "a (abs_of d) = (r, abs_of d')" "store_valid d'"
  using assms unfolding refines_def by blast

lemma refined_stay:
  "in_valid_tx c d \<Longrightarrow> m c = (r, c) \<Longrightarrow> a (abs_of d) = (r, abs_of d) \<Longrightarrow> refined_at m a c d"
  unfolding refined_at_def in_valid_tx_def by (rule exI [where x = r], rule exI [where x = d]) (simp add: same_work)

lemma refined_read:
  "in_valid_tx c d \<Longrightarrow> m c = (fst (a (abs_of d)), c) \<Longrightarrow> snd (a (abs_of d)) = abs_of d \<Longrightarrow> refined_at m a c d"
  by (rule refined_stay [where r = "fst (a (abs_of d))"]) (simp_all add: prod_eq_iff)

lemma refined_step:
  "m c = (r, c\<lparr>work := Some d'\<rparr>) \<Longrightarrow> a (abs_of d) = (r, abs_of d') \<Longrightarrow> store_valid d' \<Longrightarrow> refined_at m a c d"
  unfolding refined_at_def by blast

section \<open>Lookups\<close>

text \<open>A lookup by primary key in a valid transaction: only an unencodable key makes it fail.\<close>

lemma run_lookups:
  assumes "in_valid_tx c d"
  shows "select [''controller_generations''] [s] (\<lambda>d. row_by gr_scope s (t_gens d)) c =
      (if encodable s then Inr (row_by gr_scope s (t_gens d)) else Inl UnicodeEncodeError, c)"
    and "select [''execution_keys''] [s] (\<lambda>d. row_by kr_key s (t_keys d)) c =
      (if encodable s then Inr (row_by kr_key s (t_keys d)) else Inl UnicodeEncodeError, c)"
    and "select [''execution_command_bindings''] [s] (\<lambda>d. row_by br_key s (t_binds d)) c =
      (if encodable s then Inr (row_by br_key s (t_binds d)) else Inl UnicodeEncodeError, c)"
    and "select [''execution_admissions''] [s] (\<lambda>d. row_by ar_key s (t_adms d)) c =
      (if encodable s then Inr (row_by ar_key s (t_adms d)) else Inl UnicodeEncodeError, c)"
    and "select [''execution_launches''] [s] (\<lambda>d. row_by lr_key s (t_launches d)) c =
      (if encodable s then Inr (row_by lr_key s (t_launches d)) else Inl UnicodeEncodeError, c)"
  using in_valid_txD [OF assms] store_tables [OF in_valid_txD(4) [OF assms]]
  by (simp_all add: quiet_select has_tables_def)

lemma run_param: "a_param ps a = (if list_all encodable ps then Inr () else Inl UnicodeEncodeError, a)"
  by (simp add: a_param_def run_guard)

lemma registered_iff: "k \<in> registered (abs_of d) \<longleftrightarrow> row_by kr_key k (t_keys d) \<noteq> None"
  by (simp add: abs_of_def)

text \<open>The value a persisted column is read as.\<close>

lemma persisted_read:
  "s \<noteq> [] \<Longrightarrow> persisted validate_persisted_execution_key (SText s) = Inr s"
  "s \<noteq> [] \<Longrightarrow> persisted validate_persisted_scope (SText s) = Inr s"
  "s \<noteq> [] \<Longrightarrow> encodable s \<Longrightarrow> persisted validate_persisted_command_spec_hash (SText s) = Inr s"
  "0 < g \<Longrightarrow> g \<le> max_generation \<Longrightarrow> persisted validate_persisted_generation (SInteger g) = Inr g"
  by (simp_all add: persisted_Inr)

lemma run_require_registered:
  assumes "in_valid_tx c d"
  shows "require_registered k c = (fst (a_registered k (abs_of d)), c)"
proof (cases "row_by kr_key k (t_keys d)")
  case None
  then show ?thesis
    by (simp add: require_registered_def a_registered_def run_combinators run_lookups [OF assms]
        run_param registered_iff)
next
  case (Some r)
  with valid_key_row [OF in_valid_txD(4) [OF assms] Some] show ?thesis
    by (simp add: require_registered_def a_registered_def run_combinators run_lookups [OF assms]
        run_param registered_iff persisted_read)
qed

lemma registered_same: "snd (a_registered k a) = a"
  by (simp add: a_registered_def run_combinators run_param)

text \<open>After the registered key is found, the rest runs in the same state.\<close>

lemma refined_registered:
  assumes tx: "in_valid_tx c d"
    and rest: "encodable k \<Longrightarrow> k \<noteq> [] \<Longrightarrow> row_by kr_key k (t_keys d) \<noteq> None \<Longrightarrow> refined_at m a c d"
  shows "refined_at (sq (require_registered k) m) (sq (a_registered k) a) c d"
proof (cases "encodable k \<and> row_by kr_key k (t_keys d) \<noteq> None")
  case True
  then obtain r where "row_by kr_key k (t_keys d) = Some r" by blast
  then have "k \<noteq> []" using valid_key_row in_valid_txD(4) [OF tx] by blast
  moreover have "a_registered k (abs_of d) = (Inr (), abs_of d)"
    using True by (simp add: a_registered_def run_combinators run_param registered_iff)
  ultimately show ?thesis
    using rest True run_require_registered [OF tx, of k]
    by (simp add: refined_at_def run_sq)
next
  case False
  then obtain e where "a_registered k (abs_of d) = (Inl e, abs_of d)"
    by (cases "encodable k") (auto simp: a_registered_def run_combinators run_param registered_iff)
  then show ?thesis
    by (intro refined_stay [OF tx]) (simp_all add: run_sq run_require_registered [OF tx])
qed

section \<open>Generations\<close>

lemma run_change:
  "in_valid_tx c d \<Longrightarrow> change ps f c = (if list_all encodable ps
     then case f d of None \<Rightarrow> (Inl DatabaseError, c) | Some (r, d') \<Rightarrow> (Inr r, c\<lparr>work := Some d'\<rparr>)
     else (Inl UnicodeEncodeError, c))"
  by (simp add: in_valid_tx_def quiet_change)

lemmas refine_runs = run_combinators run_param persisted_read abs_of_None

lemma refines_acquire:
  assumes "scope \<noteq> []"
  shows "refines (acquire_generation_body scope) (a_acquire scope)"
proof (rule refinesI)
  fix c d
  assume tx: "in_valid_tx c d"
  show "refined_at (acquire_generation_body scope) (a_acquire scope) c d"
  proof (cases "encodable scope")
    case False
    then show ?thesis
      by (intro refined_stay [OF tx]) (simp_all add: acquire_generation_body_def a_acquire_def refine_runs run_lookups [OF tx])
  next
    case enc: True
    show ?thesis
    proof (cases "row_by gr_scope scope (t_gens d)")
      case None
      let ?d = "d\<lparr>t_gens := t_gens d @ [\<lparr>gr_scope = SText scope, gr_generation = SInteger 1\<rparr>]\<rparr>"
      have "insert_gen \<lparr>gr_scope = SText scope, gr_generation = SInteger 1\<rparr> d = Some ((), ?d)"
        using None assms store_tables(1) [OF in_valid_txD(4) [OF tx]]
        by (simp add: insert_gen_def insert_row_new gen_check_def integer_positive_def)
      with None enc show ?thesis
        using store_valid_insert_gen [OF in_valid_txD(4) [OF tx] None assms, of 1]
        by (intro refined_step [where d' = ?d])
          (simp_all add: acquire_generation_body_def a_acquire_def refine_runs run_lookups [OF tx]
            run_change [OF tx] abs_insert_gen max_generation_def)
    next
      case (Some r)
      obtain g where g: "gr_scope r = SText scope" "gr_generation r = SInteger g" "0 < g" "g \<le> max_generation"
        "generations (abs_of d) scope = Some g"
        using valid_gen_row [OF in_valid_txD(4) [OF tx] Some] by blast
      show ?thesis
      proof (cases "g = max_generation")
        case True
        with Some enc g show ?thesis
          by (intro refined_stay [OF tx]) (simp_all add: acquire_generation_body_def a_acquire_def
              refine_runs run_lookups [OF tx])
      next
        case False
        let ?p = "\<lambda>r. gr_scope r = SText scope \<and> gr_generation r = SInteger g"
        let ?d = "d\<lparr>t_gens := update_rows ?p (\<lambda>r. r\<lparr>gr_generation := SInteger (g + 1)\<rparr>) (t_gens d)\<rparr>"
        have "filter ?p (t_gens d) = [r]"
          using in_valid_txD(4) [OF tx] Some g(1,2)
          by (intro filter_unique [where key = gr_scope and s = scope])
            (auto simp: store_valid_parts integrity_check_def)
        then have "update_gen scope g (g + 1) d = Some (1, ?d)"
          using g(3) store_tables(1) [OF in_valid_txD(4) [OF tx]] by (simp add: update_gen_def Let_def)
        with Some enc g False show ?thesis
          using store_valid_update_gen [OF in_valid_txD(4) [OF tx] g(3), of ?p scope]
          by (intro refined_step [where d' = ?d]) (simp_all add: acquire_generation_body_def a_acquire_def
              refine_runs run_lookups [OF tx] run_change [OF tx]
              abs_update_gen [OF Some g(2) refl])
      qed
    qed
  qed
qed

lemma refines_read_generation: "refines (read_generation_body scope) (a_read_generation scope)"
proof (rule refinesI)
  fix c d
  assume tx: "in_valid_tx c d"
  show "refined_at (read_generation_body scope) (a_read_generation scope) c d"
  proof (cases "row_by gr_scope scope (t_gens d)")
    case None
    then show ?thesis
      by (intro refined_read [OF tx]) (simp_all add: read_generation_body_def a_read_generation_def
          refine_runs run_lookups [OF tx])
  next
    case (Some r)
    obtain g where "gr_generation r = SInteger g" "0 < g" "g \<le> max_generation" "generations (abs_of d) scope = Some g"
      using valid_gen_row [OF in_valid_txD(4) [OF tx] Some] by blast
    with Some show ?thesis
      by (intro refined_read [OF tx]) (simp_all add: read_generation_body_def a_read_generation_def
          refine_runs run_lookups [OF tx])
  qed
qed

section \<open>Execution keys and bindings\<close>

lemma refines_register:
  assumes "key \<noteq> []"
  shows "refines (register_execution_key_body key) (a_register key)"
proof (rule refinesI)
  fix c d
  assume tx: "in_valid_tx c d"
  note valid = in_valid_txD(4) [OF tx]
  note run = register_execution_key_body_def a_register_def refine_runs run_lookups [OF tx] run_change [OF tx]
  show "refined_at (register_execution_key_body key) (a_register key) c d"
  proof (cases "encodable key \<and> row_by kr_key key (t_keys d) = None")
    case True
    let ?d = "d\<lparr>t_keys := t_keys d @ [\<lparr>kr_key = SText key\<rparr>]\<rparr>"
    have "insert_key \<lparr>kr_key = SText key\<rparr> d = Some ((), ?d)"
      using conjunct2 [OF True] assms store_tables(2) [OF valid] by (simp add: insert_key_def insert_row_new key_check_def)
    with True show ?thesis
      using store_valid_insert_key [OF valid _ assms] by (intro refined_step [where d' = ?d])
        (simp_all add: run registered_iff abs_insert_key)
  next
    case False
    then show ?thesis
      using valid_key_row [OF valid]
      by (cases "row_by kr_key key (t_keys d)"; intro refined_read [OF tx]) (auto simp: run)
  qed
qed

lemma refines_exists: "refines (execution_key_exists_body key) (a_exists key)"
proof (rule refinesI)
  fix c d
  assume tx: "in_valid_tx c d"
  show "refined_at (execution_key_exists_body key) (a_exists key) c d"
    using valid_key_row [OF in_valid_txD(4) [OF tx]]
    by (cases "row_by kr_key key (t_keys d)"; intro refined_read [OF tx])
      (auto simp: execution_key_exists_body_def a_exists_def refine_runs run_lookups [OF tx])
qed

lemma refines_bind:
  assumes "hash \<noteq> []" "encodable hash"
  shows "refines (bind_command_spec_hash_body key hash) (a_bind key hash)"
  unfolding bind_command_spec_hash_body_def a_bind_def
proof (rule refinesI, rule refined_registered)
  fix c d
  assume tx: "in_valid_tx c d" and key: "encodable key" "key \<noteq> []" "row_by kr_key key (t_keys d) \<noteq> None"
  note valid = in_valid_txD(4) [OF tx]
  note run = refine_runs run_lookups [OF tx] run_change [OF tx]
  show "refined_at
     (bnd (select [''execution_command_bindings''] [key] (\<lambda>d. row_by br_key key (t_binds d))) (\<lambda>row.
     case row of
       None \<Rightarrow> sq (change [key, hash] (insert_bind \<lparr>br_key = SText key, br_hash = SText hash\<rparr>)) (ret BOUND)
     | Some r \<Rightarrow> bnd (of_result (persisted validate_persisted_command_spec_hash (br_hash r))) (\<lambda>h.
         sq (guard (h = hash) CommandSpecConflictError) (ret ALREADY_BOUND))))
     (\<lambda>a. case bindings a key of
       None \<Rightarrow> (Inr BOUND, a\<lparr>bindings := (bindings a)(key \<mapsto> hash)\<rparr>)
     | Some h \<Rightarrow> (if h = hash then Inr ALREADY_BOUND else Inl CommandSpecConflictError, a)) c d"
  proof (cases "row_by br_key key (t_binds d)")
    case None
    let ?d = "d\<lparr>t_binds := t_binds d @ [\<lparr>br_key = SText key, br_hash = SText hash\<rparr>]\<rparr>"
    have "insert_bind \<lparr>br_key = SText key, br_hash = SText hash\<rparr> d = Some ((), ?d)"
      using None assms key store_tables(3) [OF valid] by (simp add: insert_bind_def insert_row_new bind_check_def)
    moreover have "store_valid ?d"
      using key assms None store_valid_insert_bind [OF valid] by blast
    ultimately show ?thesis
      using None key assms by (intro refined_step [where d' = ?d]) (simp_all add: run abs_insert_bind)
  next
    case (Some r)
    then obtain h where "br_hash r = SText h" "h \<noteq> []" "encodable h" "bindings (abs_of d) key = Some h"
      using valid_bind_row [OF valid] by blast
    with Some key show ?thesis by (intro refined_read [OF tx]) (auto simp: run)
  qed
qed

lemma refines_read_hash: "refines (read_command_spec_hash_body key) (a_read_hash key)"
  unfolding read_command_spec_hash_body_def a_read_hash_def
proof (rule refinesI, rule refined_registered)
  fix c d
  assume tx: "in_valid_tx c d" and key: "encodable key"
  note run = refine_runs run_lookups [OF tx]
  show "refined_at
     (bnd (select [''execution_command_bindings''] [key] (\<lambda>d. row_by br_key key (t_binds d))) (\<lambda>row.
     case row of
       None \<Rightarrow> ret None
     | Some r \<Rightarrow> bnd (of_result (persisted validate_persisted_command_spec_hash (br_hash r))) (\<lambda>h. ret (Some h))))
     (gets (\<lambda>a. bindings a key)) c d"
  proof (cases "row_by br_key key (t_binds d)")
    case None
    with key show ?thesis by (intro refined_read [OF tx]) (simp_all add: run)
  next
    case (Some r)
    then obtain h where "br_hash r = SText h" "h \<noteq> []" "encodable h" "bindings (abs_of d) key = Some h"
      using valid_bind_row [OF in_valid_txD(4) [OF tx]] by blast
    with Some key show ?thesis by (intro refined_read [OF tx]) (simp_all add: run)
  qed
qed

section \<open>Admissions\<close>

lemma refines_admit:
  assumes "scope \<noteq> []" "0 < g" "g \<le> max_generation"
  shows "refines (admit_execution_body key scope g) (a_admit key scope g)"
  unfolding admit_execution_body_def a_admit_def
proof (rule refinesI, rule refined_registered)
  fix c d
  assume tx: "in_valid_tx c d" and key: "encodable key" "key \<noteq> []" "row_by kr_key key (t_keys d) \<noteq> None"
  note valid = in_valid_txD(4) [OF tx]
  note run = refine_runs run_lookups [OF tx] run_change [OF tx]
  let ?m = "bnd (select [''execution_command_bindings''] [key] (\<lambda>d. row_by br_key key (t_binds d))) (\<lambda>binding.
     case binding of None \<Rightarrow> raise ExecutionKeyNotCommandBoundError | Some b \<Rightarrow>
     sq (of_result (persisted validate_persisted_command_spec_hash (br_hash b)))
     (bnd (select [''controller_generations''] [scope] (\<lambda>d. row_by gr_scope scope (t_gens d))) (\<lambda>generation_row.
     case generation_row of None \<Rightarrow> raise ControllerGenerationNotCurrentError | Some r \<Rightarrow>
     bnd (of_result (persisted validate_persisted_generation (gr_generation r))) (\<lambda>current_generation.
     if current_generation \<noteq> g then raise ControllerGenerationNotCurrentError else
     bnd (select [''execution_admissions''] [key] (\<lambda>d. row_by ar_key key (t_adms d))) (\<lambda>admission_row.
     case admission_row of
       None \<Rightarrow> sq (change [key, scope] (insert_adm
           \<lparr>ar_key = SText key, ar_scope = SText scope, ar_generation = SInteger g\<rparr>)) (ret ADMITTED)
     | Some a \<Rightarrow>
         bnd (of_result (persisted validate_persisted_execution_key (ar_key a))) (\<lambda>admitted_key.
         bnd (of_result (persisted validate_persisted_scope (ar_scope a))) (\<lambda>admitted_scope.
         bnd (of_result (persisted validate_persisted_generation (ar_generation a))) (\<lambda>admitted_generation.
         if admitted_key \<noteq> key \<or> admitted_scope \<noteq> scope \<or> admitted_generation \<noteq> g
         then raise ExecutionAdmissionConflictError else ret ALREADY_ADMITTED))))))))"
  let ?a = "\<lambda>a. if bindings a key = None then (Inl ExecutionKeyNotCommandBoundError, a)
     else sq (a_param [scope]) (\<lambda>a.
       if generations a scope \<noteq> Some g then (Inl ControllerGenerationNotCurrentError, a)
       else case admissions a key of
           None \<Rightarrow> (Inr ADMITTED, a\<lparr>admissions := (admissions a)(key \<mapsto> (scope, g))\<rparr>)
         | Some x \<Rightarrow> (if x = (scope, g) then Inr ALREADY_ADMITTED
             else Inl ExecutionAdmissionConflictError, a)) a"
  show "refined_at ?m ?a c d"
  proof (cases "row_by br_key key (t_binds d)")
    case None
    with key show ?thesis by (intro refined_read [OF tx]) (simp_all add: run)
  next
    case bind: (Some b)
    obtain h where h: "br_hash b = SText h" "h \<noteq> []" "encodable h" "bindings (abs_of d) key = Some h"
      using valid_bind_row [OF valid bind] by blast
    note bound = bind h key(1)
    show ?thesis
    proof (cases "encodable scope")
      case False
      with bound show ?thesis by (intro refined_read [OF tx]) (simp_all add: run)
    next
      case scope: True
      show ?thesis
      proof (cases "row_by gr_scope scope (t_gens d)")
        case None
        with bound scope show ?thesis by (intro refined_read [OF tx]) (simp_all add: run)
      next
        case gen: (Some q)
        obtain g' where g': "gr_generation q = SInteger g'" "0 < g'" "g' \<le> max_generation"
          "generations (abs_of d) scope = Some g'"
          using valid_gen_row [OF valid gen] by blast
        note current = bound scope gen g'
        show ?thesis
        proof (cases "g' = g \<and> row_by ar_key key (t_adms d) = None")
          case True
          let ?d = "d\<lparr>t_adms := t_adms d @ [\<lparr>ar_key = SText key, ar_scope = SText scope, ar_generation = SInteger g\<rparr>]\<rparr>"
          have "insert_adm \<lparr>ar_key = SText key, ar_scope = SText scope, ar_generation = SInteger g\<rparr> d = Some ((), ?d)"
            using conjunct2 [OF True] assms key(2) store_tables(4) [OF valid]
            by (simp add: insert_adm_def insert_row_new adm_check_def integer_positive_def)
          moreover have "store_valid ?d"
            using store_valid_insert_adm [OF valid] key(2,3) True assms bind gen g'(1) by blast
          ultimately show ?thesis
            using True current by (intro refined_step [where d' = ?d]) (simp_all add: run abs_insert_adm)
        next
          case False
          show ?thesis
          proof (cases "row_by ar_key key (t_adms d)")
            case None
            with current False show ?thesis by (intro refined_read [OF tx]) (simp_all add: run)
          next
            case (Some a)
            obtain s n where "ar_key a = SText key" "ar_scope a = SText s" "s \<noteq> []" "ar_generation a = SInteger n"
              "0 < n" "n \<le> max_generation" "admissions (abs_of d) key = Some (s, n)"
              using valid_adm_row [OF valid Some] by blast
            with current Some key(2) show ?thesis by (intro refined_read [OF tx]) (auto simp: run)
          qed
        qed
      qed
    qed
  qed
qed

lemma refines_read_admission: "refines (read_execution_admission_body key) (a_read_admission key)"
  unfolding read_execution_admission_body_def a_read_admission_def
proof (rule refinesI, rule refined_registered)
  fix c d
  assume tx: "in_valid_tx c d" and key: "encodable key" "key \<noteq> []"
  note run = refine_runs run_lookups [OF tx]
  show "refined_at
     (bnd (select [''execution_admissions''] [key] (\<lambda>d. row_by ar_key key (t_adms d))) (\<lambda>row.
     case row of
       None \<Rightarrow> ret None
     | Some a \<Rightarrow>
         bnd (of_result (persisted validate_persisted_execution_key (ar_key a))) (\<lambda>admitted_key.
         bnd (of_result (persisted validate_persisted_scope (ar_scope a))) (\<lambda>admitted_scope.
         bnd (of_result (persisted validate_persisted_generation (ar_generation a))) (\<lambda>admitted_generation.
         ret (Some \<lparr>adm_key = admitted_key, adm_scope = admitted_scope,
           adm_generation = admitted_generation\<rparr>))))))
     (gets (\<lambda>a. map_option (\<lambda>(scope, generation).
        \<lparr>adm_key = key, adm_scope = scope, adm_generation = generation\<rparr>) (admissions a key))) c d"
  proof (cases "row_by ar_key key (t_adms d)")
    case None
    with key show ?thesis by (intro refined_read [OF tx]) (simp_all add: run)
  next
    case (Some a)
    obtain s n where "ar_key a = SText key" "ar_scope a = SText s" "s \<noteq> []" "ar_generation a = SInteger n"
      "0 < n" "n \<le> max_generation" "admissions (abs_of d) key = Some (s, n)"
      using valid_adm_row [OF in_valid_txD(4) [OF tx] Some] by blast
    with Some key show ?thesis by (intro refined_read [OF tx]) (simp_all add: run)
  qed
qed

section \<open>Launches\<close>

lemma refines_claim:
  "refines (claim_execution_launch_body key scope g hash) (a_claim key scope g hash)"
  unfolding claim_execution_launch_body_def a_claim_def
proof (rule refinesI, rule refined_registered)
  fix c d
  assume tx: "in_valid_tx c d" and key: "encodable key" "key \<noteq> []" "row_by kr_key key (t_keys d) \<noteq> None"
  note valid = in_valid_txD(4) [OF tx]
  note run = refine_runs run_lookups [OF tx] run_change [OF tx]
  let ?m = "bnd (select [''execution_command_bindings''] [key] (\<lambda>d. row_by br_key key (t_binds d))) (\<lambda>binding.
     case binding of None \<Rightarrow> raise ExecutionKeyNotCommandBoundError | Some b \<Rightarrow>
     bnd (of_result (persisted validate_persisted_command_spec_hash (br_hash b))) (\<lambda>bound_hash.
     if bound_hash \<noteq> hash then raise CommandSpecHashMismatchError else
     bnd (select [''execution_admissions''] [key] (\<lambda>d. row_by ar_key key (t_adms d))) (\<lambda>admission.
     case admission of None \<Rightarrow> raise ExecutionAdmissionMissingError | Some a \<Rightarrow>
     bnd (of_result (persisted validate_persisted_scope (ar_scope a))) (\<lambda>admitted_scope.
     bnd (of_result (persisted validate_persisted_generation (ar_generation a))) (\<lambda>admitted_generation.
     if admitted_scope \<noteq> scope \<or> admitted_generation \<noteq> g then raise ExecutionAdmissionMismatchError else
     bnd (select [''controller_generations''] [scope] (\<lambda>d. row_by gr_scope scope (t_gens d))) (\<lambda>generation_row.
     case generation_row of None \<Rightarrow> raise ControllerGenerationNotCurrentError | Some q \<Rightarrow>
     bnd (of_result (persisted validate_persisted_generation (gr_generation q))) (\<lambda>current_generation.
     if current_generation \<noteq> g then raise ControllerGenerationNotCurrentError else
     bnd (select [''execution_launches''] [key] (\<lambda>d. row_by lr_key key (t_launches d))) (\<lambda>prior.
     case prior of Some _ \<Rightarrow> raise ExecutionLaunchAlreadyClaimedError | None \<Rightarrow>
     sq (change [key, hash, scope] (insert_launch
          \<lparr>lr_key = SText key, lr_hash = SText hash, lr_scope = SText scope,
           lr_generation = SInteger g, lr_state = SText (py ''intent''), lr_exit = SNull\<rparr>))
     (ret \<lparr>lch_key = key, lch_hash = hash, lch_scope = scope, lch_generation = g,
           lch_state = INTENT, lch_exit = None\<rparr>)))))))))"
  let ?a = "\<lambda>a. if bindings a key = None then (Inl ExecutionKeyNotCommandBoundError, a)
     else if bindings a key \<noteq> Some hash then (Inl CommandSpecHashMismatchError, a)
     else if admissions a key = None then (Inl ExecutionAdmissionMissingError, a)
     else if admissions a key \<noteq> Some (scope, g) then (Inl ExecutionAdmissionMismatchError, a)
     else sq (a_param [scope]) (\<lambda>a.
       if generations a scope \<noteq> Some g then (Inl ControllerGenerationNotCurrentError, a)
       else if launches a key \<noteq> None then (Inl ExecutionLaunchAlreadyClaimedError, a)
       else (Inr (intent_launch key scope g hash),
         a\<lparr>launches := (launches a)(key \<mapsto> intent_launch key scope g hash)\<rparr>)) a"
  show "refined_at ?m ?a c d"
  proof (cases "row_by br_key key (t_binds d)")
    case None
    with key show ?thesis by (intro refined_read [OF tx]) (simp_all add: run)
  next
    case bind: (Some b)
    obtain h where h: "br_hash b = SText h" "h \<noteq> []" "encodable h" "bindings (abs_of d) key = Some h"
      using valid_bind_row [OF valid bind] by blast
    note bound = bind h key(1)
    show ?thesis
    proof (cases "h = hash \<and> row_by ar_key key (t_adms d) \<noteq> None")
      case False
      with bound show ?thesis by (intro refined_read [OF tx]; cases "h = hash") (simp_all add: run)
    next
      case True
      then obtain a where hash: "h = hash" and adm: "row_by ar_key key (t_adms d) = Some a" by blast
      obtain s n where a: "ar_scope a = SText s" "s \<noteq> []" "ar_generation a = SInteger n"
        "0 < n" "n \<le> max_generation" "admissions (abs_of d) key = Some (s, n)"
        using valid_adm_row [OF valid adm] by blast
      note admitted = bound hash adm a
      show ?thesis
      proof (cases "s = scope \<and> n = g \<and> encodable scope")
        case False
        with admitted show ?thesis by (intro refined_read [OF tx]) (auto simp: run)
      next
        case same: True
        show ?thesis
        proof (cases "row_by gr_scope scope (t_gens d)")
          case None
          with admitted same show ?thesis by (intro refined_read [OF tx]) (simp_all add: run)
        next
          case gen: (Some q)
          obtain g' where g': "gr_generation q = SInteger g'" "0 < g'" "g' \<le> max_generation"
            "generations (abs_of d) scope = Some g'"
            using valid_gen_row [OF valid gen] by blast
          note current = admitted same gen g'
          show ?thesis
          proof (cases "g' = g \<and> row_by lr_key key (t_launches d) = None")
            case False
            then show ?thesis
            proof (cases "row_by lr_key key (t_launches d)")
              case None
              with current False show ?thesis by (intro refined_read [OF tx]) (simp_all add: run)
            next
              case (Some r)
              obtain l where "launches (abs_of d) key = Some l" using valid_launch_row [OF valid Some] by blast
              with current Some show ?thesis
                by (intro refined_read [OF tx]; cases "g' = g") (simp_all add: run)
            qed
          next
            case free: True
            let ?d = "d\<lparr>t_launches := t_launches d @ [row_of_launch (intent_launch key scope g hash)]\<rparr>"
            have "\<lparr>lr_key = SText key, lr_hash = SText hash, lr_scope = SText scope,
                lr_generation = SInteger g, lr_state = SText (py ''intent''), lr_exit = SNull\<rparr> =
              row_of_launch (intent_launch key scope g hash)" (is "?row = _")
              by (simp add: row_of_launch_def intent_launch_def)
            moreover have "insert_row lr_key launch_check ?row (t_launches d) = Some (t_launches d @ [?row])"
              using free same h hash a key(2)
              by (intro insert_row_new [where s = key]) (simp_all add: launch_check_def integer_positive_def)
            ultimately have "insert_launch ?row d = Some ((), ?d)"
              using store_tables(5) [OF valid] by (simp add: insert_launch_def)
            moreover have "store_valid ?d"
              using store_valid_insert_launch [OF valid] key(3) bind adm a same h hash free by blast
            moreover have "launches (abs_of d) key = None" using free by (simp add: abs_of_None)
            moreover have "abs_of ?d = (abs_of d)\<lparr>launches :=
                (launches (abs_of d))(key \<mapsto> intent_launch key scope g hash)\<rparr>"
              using abs_insert_launch [of "intent_launch key scope g hash" d] free
              by (simp add: intent_launch_def)
            ultimately show ?thesis
              using free current by (intro refined_step [where d' = ?d])
                (simp_all add: run intent_launch_def del: py_Cons)
          qed
        qed
      qed
    qed
  qed
qed

lemma run_launch_from_row:
  assumes "launch_fields_ok l"
  shows "execution_launch_from_row (row_of_launch l) c = (Inr l, c)"
proof -
  have "validate_persisted_exit_code (py_of_sql (lr_exit (row_of_launch l)))
      (sql_typeof (lr_exit (row_of_launch l))) (lch_state l) = Inr (lch_exit l)"
    unfolding persisted_exit_Inr using assms
    by (cases "lch_exit l") (simp_all add: row_of_launch_def launch_fields_ok_def)
  moreover have "persisted validate_persisted_launch_state (lr_state (row_of_launch l)) = Inr (lch_state l)"
    by (simp add: persisted_Inr row_of_launch_def)
  ultimately show ?thesis
    using assms by (simp add: execution_launch_from_row_def run_combinators persisted_read
        row_of_launch_def launch_fields_ok_def)
qed

text \<open>Both launch transitions: \<open>update\<close> is the code's statement, \<open>state\<close> the state it leaves.\<close>

lemma refined_transition:
  assumes tx: "in_valid_tx c d" and hash: "encodable hash"
    and key: "\<And>l. lch_key (to_launch l) = lch_key l \<and> lch_hash (to_launch l) = lch_hash l
       \<and> lch_scope (to_launch l) = lch_scope l \<and> lch_generation (to_launch l) = lch_generation l"
    and update: "\<And>l. launch_fields_ok l \<Longrightarrow> lch_hash l = hash \<Longrightarrow> lch_key l = key \<Longrightarrow> lch_state l = state \<Longrightarrow>
        update d = Some (length (filter p (t_launches d)), d\<lparr>t_launches := update_rows p f (t_launches d)\<rparr>)
        \<and> f (row_of_launch l) = row_of_launch (to_launch l) \<and> p (row_of_launch l)"
    and p: "\<And>r. p r \<Longrightarrow> lr_key r = SText key \<and> launch_ok (lr_state (f r)) (lr_exit (f r))"
    and f: "\<And>r. lr_key (f r) = lr_key r \<and> lr_hash (f r) = lr_hash r \<and> lr_scope (f r) = lr_scope r
       \<and> lr_generation (f r) = lr_generation r"
  shows "refined_at
     (bnd (read_launch_row key) (\<lambda>row.
     case row of None \<Rightarrow> raise ExecutionLaunchStateError | Some r \<Rightarrow>
     bnd (execution_launch_from_row r) (\<lambda>launch.
     if lch_hash launch \<noteq> hash then raise CommandSpecHashMismatchError
     else if lch_state launch \<noteq> state then raise ExecutionLaunchStateError else
     bnd (change [key, hash] update) (\<lambda>rowcount.
     sq (guard (rowcount = 1) AuthorityStoreMalformedError) (ret (to_launch launch))))))
     (a_transition key hash state to_launch) c d"
proof (cases "encodable key \<and> row_by lr_key key (t_launches d) \<noteq> None")
  case False
  then show ?thesis
    by (cases "encodable key"; intro refined_read [OF tx])
      (simp_all add: refine_runs run_lookups [OF tx] a_transition_def read_launch_row_def)
next
  case True
  note valid = in_valid_txD(4) [OF tx]
  note run = refine_runs run_lookups [OF tx] run_change [OF tx] a_transition_def read_launch_row_def
  obtain r where r: "row_by lr_key key (t_launches d) = Some r" and enc: "encodable key" using True by blast
  obtain l where l: "r = row_of_launch l" "launch_fields_ok l" "lch_key l = key" "launches (abs_of d) key = Some l"
    using valid_launch_row [OF valid r] by blast
  show ?thesis
  proof (cases "lch_hash l = hash \<and> lch_state l = state")
    case False
    with r l enc show ?thesis by (intro refined_read [OF tx]) (auto simp: run run_launch_from_row)
  next
    case now: True
    let ?d = "d\<lparr>t_launches := update_rows p f (t_launches d)\<rparr>"
    have u: "update d = Some (length (filter p (t_launches d)), ?d)"
      "f r = row_of_launch (to_launch l)" "p r" using update l now by blast+
    have "filter p (t_launches d) = [r]"
      using valid r p u(3) by (intro filter_unique [where key = lr_key and s = key])
        (auto simp: store_valid_parts integrity_check_def)
    with u have "update d = Some (1, ?d)" by simp
    moreover have "store_valid ?d" using store_valid_update_launch [OF valid] p f by blast
    moreover have "abs_of ?d = (abs_of d)\<lparr>launches := (launches (abs_of d))(key \<mapsto> to_launch l)\<rparr>"
      using p f u by (intro abs_update_launch [OF r]) auto
    ultimately show ?thesis
      using r l enc now hash by (intro refined_step [where d' = ?d]) (simp_all add: run run_launch_from_row)
  qed
qed

lemma unknown_record:
  "\<lparr>lch_key = lch_key l, lch_hash = lch_hash l, lch_scope = lch_scope l,
     lch_generation = lch_generation l, lch_state = UNKNOWN, lch_exit = None\<rparr> =
   l\<lparr>lch_state := UNKNOWN, lch_exit := None\<rparr>"
  by (rule ExecutionLaunch.equality) simp_all

lemma terminal_record:
  "\<lparr>lch_key = lch_key l, lch_hash = lch_hash l, lch_scope = lch_scope l,
     lch_generation = lch_generation l, lch_state = TERMINAL, lch_exit = Some i\<rparr> =
   l\<lparr>lch_state := TERMINAL, lch_exit := Some i\<rparr>"
  by (rule ExecutionLaunch.equality) simp_all

lemma refines_mark:
  assumes "encodable hash"
  shows "refines (mark_execution_launch_unknown_body key hash) (a_mark key hash)"
  unfolding mark_execution_launch_unknown_body_def a_mark_def unknown_record
  by (rule refinesI, frule in_valid_txD(4), drule store_tables(5), rule refined_transition [OF _ assms, where p = "launch_matches key hash ''intent''"
      and f = "\<lambda>r. r\<lparr>lr_state := SText (py ''unknown'')\<rparr>"])
    (auto simp: Let_def update_launch_unknown_def launch_matches_def row_of_launch_def launch_fields_ok_def
      launch_ok_def simp del: py_Cons)

lemma refines_record:
  assumes "encodable hash" "min_sqlite_integer \<le> i" "i \<le> max_sqlite_integer"
  shows "refines (record_execution_terminal_result_body key hash i) (a_record key hash i)"
  unfolding record_execution_terminal_result_body_def a_record_def terminal_record
  by (rule refinesI, frule in_valid_txD(4), drule store_tables(5), rule refined_transition [OF _ assms(1), where p = "launch_matches key hash ''unknown''"
      and f = "\<lambda>r. r\<lparr>lr_state := SText (py ''terminal''), lr_exit := SInteger i\<rparr>"])
    (auto simp: Let_def update_launch_terminal_def launch_matches_def row_of_launch_def launch_fields_ok_def
      launch_ok_def assms simp del: py_Cons)

lemma refines_read_launch: "refines (read_execution_launch_body key) (a_read_launch key)"
  unfolding read_execution_launch_body_def a_read_launch_def
proof (rule refinesI, rule refined_registered)
  fix c d
  assume tx: "in_valid_tx c d" and key: "encodable key"
  note run = refine_runs run_lookups [OF tx] read_launch_row_def
  show "refined_at
     (bnd (read_launch_row key) (\<lambda>row.
     case row of
       None \<Rightarrow> ret None
     | Some r \<Rightarrow> bnd (execution_launch_from_row r) (\<lambda>launch. ret (Some launch))))
     (gets (\<lambda>a. launches a key)) c d"
  proof (cases "row_by lr_key key (t_launches d)")
    case None
    with key show ?thesis by (intro refined_read [OF tx]) (simp_all add: run)
  next
    case (Some r)
    obtain l where "r = row_of_launch l" "launch_fields_ok l" "launches (abs_of d) key = Some l"
      using valid_launch_row [OF in_valid_txD(4) [OF tx] Some] by blast
    with Some key show ?thesis by (intro refined_read [OF tx]) (simp_all add: run run_launch_from_row)
  qed
qed

end
