(* ===== verification/Authority_Transactions.thy ===== *)
theory Authority_Transactions
  imports Authority_Refine
begin

text \<open>
  The transactions of the store under arbitrary failures. Whatever statement fails and
  however, a transaction leaves the durable database as it was or makes exactly the change its
  body specifies; it returns a value only if it committed; and after a failure the store is
  idle again or permanently poisoned, except after an exception its \<open>except\<close> clauses do not
  name. For the three consequential transactions an error other than the one for an uncertain
  \<open>COMMIT\<close> means that nothing changed.
\<close>

section \<open>The bodies are faithful\<close>

lemma faithful_bodies [impl_intros]:
  "faithful (acquire_generation_body s)" "faithful (read_generation_body s)"
  "faithful (register_execution_key_body k)" "faithful (execution_key_exists_body k)"
  "faithful (require_registered k)"
  unfolding acquire_generation_body_def read_generation_body_def register_execution_key_body_def
    execution_key_exists_body_def require_registered_def
  by (intro impl_intros)+

lemma faithful_binding_bodies [impl_intros]:
  "faithful (bind_command_spec_hash_body k h)" "faithful (read_command_spec_hash_body k)"
  "faithful (admit_execution_body k s g)" "faithful (read_execution_admission_body k)"
  unfolding bind_command_spec_hash_body_def read_command_spec_hash_body_def
    admit_execution_body_def read_execution_admission_body_def
  by (intro impl_intros)+

lemma faithful_launch_bodies [impl_intros]:
  "faithful (claim_execution_launch_body k s g h)" "faithful (read_launch_row k)"
  "faithful (execution_launch_from_row r)"
  unfolding claim_execution_launch_body_def read_launch_row_def execution_launch_from_row_def
  by (intro impl_intros)+

lemma faithful_transition_bodies [impl_intros]:
  "faithful (mark_execution_launch_unknown_body k h)"
  "faithful (record_execution_terminal_result_body k h i)"
  "faithful (read_execution_launch_body k)"
  unfolding mark_execution_launch_unknown_body_def record_execution_terminal_result_body_def
    read_execution_launch_body_def
  by (intro impl_intros)+

section \<open>What a run may have touched\<close>

text \<open>A run up to \<open>COMMIT\<close> touches only the transaction's copy, its lock and the fault schedule.\<close>

definition tx_only :: "store \<Rightarrow> store \<Rightarrow> bool" where
  "tx_only c c' \<longleftrightarrow> durable c' = durable c \<and> is_open c' = is_open c \<and> busy c' = busy c
     \<and> synchronous c' = synchronous c \<and> store_path c' = store_path c \<and> connected c' = connected c
     \<and> poisoned c' = poisoned c \<and> (work c' = None \<longrightarrow> \<not> write_locked c')"

lemma tx_only_fields:
  "tx_only c c' \<Longrightarrow> durable c' = durable c \<and> is_open c' = is_open c \<and> busy c' = busy c
     \<and> connected c' = connected c \<and> poisoned c' = poisoned c \<and> (work c' = None \<longrightarrow> \<not> write_locked c')"
  by (simp add: tx_only_def)

lemma tx_only_trans: "tx_only a b \<Longrightarrow> tx_only b c \<Longrightarrow> tx_only a c"
  by (simp add: tx_only_def)

lemma spoiled_tx_only: "spoiled c c' \<Longrightarrow> work c \<noteq> None \<Longrightarrow> tx_only c c'"
  by (auto simp: spoiled_def tx_only_def split: if_splits)

lemma same_run_tx_only: "tx_only c (c\<lparr>work := Some d, faults := fs\<rparr>)"
  by (simp add: tx_only_def)

definition no_tx :: "store \<Rightarrow> bool" where
  "no_tx s \<longleftrightarrow> work s = None \<and> \<not> write_locked s"

definition idle :: "store \<Rightarrow> bool" where
  "idle s \<longleftrightarrow> is_open s \<and> connected s \<and> \<not> poisoned s \<and> no_tx s"

text \<open>Beginning a transaction.\<close>

definition begins :: "(store, unit) prog \<Rightarrow> bool" where
  "begins m \<longleftrightarrow> (\<forall>c. is_open c \<longrightarrow> no_tx c \<longrightarrow> (\<exists>r c'. m c = (r, c') \<and> tx_only c c' \<and>
     (case r of Inl e \<Rightarrow> e = DatabaseError | Inr _ \<Rightarrow> work c' = Some (durable c))))"

lemma begins_begin: "begins begin_immediate" "begins begin_deferred"
  unfolding begins_def begin_immediate_def begin_deferred_def
  by (simp_all add: execute_cases in_transaction_def no_tx_def tx_only_def end_tx_def
      split: list.split fault.split)

text \<open>A faithful program in the transaction: the run without faults, or a failed statement.\<close>

lemma faithful_outcome:
  assumes "faithful m" "is_open c" "work c = Some d"
    and quiet: "m (quiet c) = (r0, (quiet c)\<lparr>work := Some d0\<rparr>)"
  obtains (same) c' where "m c = (r0, c')" "tx_only c c'" "work c' = Some d0"
    | (failed) e c' where "m c = (Inl e, c')" "statement_error e" "tx_only c c'"
proof -
  obtain r d' where r: "quiet_run m c r d'" "same_run m c r d' \<or> failed_run m c"
    using faithfulD [OF assms(1-3)] by blast
  then have "(r, (quiet c)\<lparr>work := Some d'\<rparr>) = (r0, (quiet c)\<lparr>work := Some d0\<rparr>)"
    using quiet by (simp add: quiet_run_def)
  then have "r = r0" "work ((quiet c)\<lparr>work := Some d'\<rparr>) = work ((quiet c)\<lparr>work := Some d0\<rparr>)"
    by (simp, metis prod.inject)
  then have "r = r0" "d' = d0" by simp_all
  with r(2) show thesis
    using same_run_tx_only spoiled_tx_only assms(3) same failed
    unfolding same_run_def failed_run_def by fastforce
qed

section \<open>Up to the commit\<close>

definition begun :: "(store, unit) prog \<Rightarrow> (store, 'a) prog \<Rightarrow> (store, 'a) prog" where
  "begun b body = sq b (sq validate_store body)"

text \<open>The body's abstract operation succeeds with \<open>x\<close> and leads to the abstract state of \<open>d'\<close>.\<close>

definition effect :: "(auth, 'a) prog \<Rightarrow> database \<Rightarrow> 'a \<Rightarrow> database \<Rightarrow> bool" where
  "effect a d x d' \<longleftrightarrow> store_valid d \<and> store_valid d' \<and> a (abs_of d) = (Inr x, abs_of d')"

text \<open>An error of the body itself, or of a failed statement or validation before it.\<close>

definition early_error :: "(auth, 'a) prog \<Rightarrow> database \<Rightarrow> exn \<Rightarrow> bool" where
  "early_error a d e \<longleftrightarrow> e = DatabaseError \<or> is_malformed_error e
     \<or> store_valid d \<and> fst (a (abs_of d)) = Inl e"

lemma statement_error_early: "statement_error e \<Longrightarrow> early_error a d e"
  by (auto simp: statement_error_def early_error_def)

lemma begun_outcome:
  assumes "idle s" "begins b" "faithful body" "refines body a"
  obtains (returned) x d' c where "begun b body s = (Inr x, c)" "tx_only s c" "work c = Some d'"
      "effect a (durable s) x d'"
    | (raised) e c where "begun b body s = (Inl e, c)" "tx_only s c" "early_error a (durable s) e"
proof -
  obtain r c1 where b: "b s = (r, c1)" "tx_only s c1"
    "case r of Inl e \<Rightarrow> e = DatabaseError | Inr _ \<Rightarrow> work c1 = Some (durable s)"
    using assms(1,2) unfolding begins_def idle_def by blast
  show thesis
  proof (cases r)
    case (Inl e)
    with b show thesis by (intro raised [of e c1]) (simp_all add: begun_def run_sq early_error_def)
  next
    case (Inr u)
    with b have w: "work c1 = Some (durable s)" and o: "is_open c1" and q: "is_open (quiet c1)"
        "faults (quiet c1) = []" "work (quiet c1) = Some (durable s)"
      using assms(1) tx_only_fields [OF b(2)] by (simp_all add: idle_def)
    have run: "begun b body s = sq validate_store body c1" using b(1) Inr by (simp add: begun_def run_sq)
    have stop: thesis if "begun b body s = (Inl e, c)" "tx_only c1 c" "early_error a (durable s) e" for e c
      using raised [OF that(1) tx_only_trans [OF b(2) that(2)] that(3)] .
    show thesis
    proof (cases "store_valid (durable s)")
      case False
      then obtain e where e: "validate_store (quiet c1) = (Inl e, quiet c1)" "is_malformed_error e"
        using validate_store_rejects [OF q] by blast
      show thesis
      proof (rule faithful_outcome [OF faithful_validate_store o w, of "Inl e" "durable s"])
        show "validate_store (quiet c1) = (Inl e, (quiet c1)\<lparr>work := Some (durable s)\<rparr>)"
          using e same_work [OF q(3)] by simp
        show thesis if "validate_store c1 = (Inl e', c2)" "statement_error e'" "tx_only c1 c2" for e' c2
          by (rule stop [OF _ that(3) statement_error_early [OF that(2)]]) (simp add: run run_sq that)
        show thesis if "validate_store c1 = (Inl e, c2)" "tx_only c1 c2" for c2
        proof (rule stop [OF _ that(2)])
          show "begun b body s = (Inl e, c2)" using that by (simp add: run run_sq)
          show "early_error a (durable s) e" using e(2) unfolding early_error_def by blast
        qed
      qed
    next
      case True
      have valid: "validate_store (quiet c1) = (Inr (), quiet c1)"
        by (rule validate_store_accepts [OF q True])
      show thesis
      proof (rule faithful_outcome [OF faithful_validate_store o w, of "Inr ()" "durable s"])
        show "validate_store (quiet c1) = (Inr (), (quiet c1)\<lparr>work := Some (durable s)\<rparr>)"
          using valid same_work [OF q(3)] by simp
        show thesis if "validate_store c1 = (Inl e, c2)" "statement_error e" "tx_only c1 c2" for e c2
          by (rule stop [OF _ that(3) statement_error_early [OF that(2)]]) (simp add: run run_sq that)
        fix c2
        assume c2: "validate_store c1 = (Inr (), c2)" "tx_only c1 c2" "work c2 = Some (durable s)"
        then have run2: "begun b body s = body c2" and o2: "is_open c2"
          using o tx_only_fields [OF c2(2)] by (simp_all add: run run_sq)
        have "in_valid_tx (quiet c2) (durable s)" using c2 True o2 by (simp add: in_valid_tx_def)
        then obtain r2 d2 where r2: "body (quiet c2) = (r2, (quiet c2)\<lparr>work := Some d2\<rparr>)"
          "a (abs_of (durable s)) = (r2, abs_of d2)" "store_valid d2"
          by (rule refinesE [OF assms(4)])
        show thesis
        proof (rule faithful_outcome [OF assms(3) o2 c2(3) r2(1)])
          show thesis if "body c2 = (Inl e, c3)" "statement_error e" "tx_only c2 c3" for e c3
            by (rule stop [OF _ tx_only_trans [OF c2(2) that(3)] statement_error_early [OF that(2)]]) (simp add: run2 that)
          fix c3
          assume c3: "body c2 = (r2, c3)" "tx_only c2 c3" "work c3 = Some d2"
          then have "tx_only s c3" using b(2) c2(2) tx_only_trans by blast
          then show thesis
            using returned [of _ c3 d2] raised [of _ c3] c3 r2 True
            by (cases r2) (simp_all add: run2 effect_def early_error_def)
        qed
      qed
    qed
  qed
qed

section \<open>Commit, rollback and poisoning\<close>

definition dead :: "store \<Rightarrow> bool" where
  "dead s \<longleftrightarrow> poisoned s \<and> \<not> connected s"

definition settled :: "store \<Rightarrow> bool" where
  "settled s \<longleftrightarrow> idle s \<or> dead s"

definition rollback_failed :: exn where
  "rollback_failed = AuthorityStoreError ''authority transaction rollback failed; store permanently poisoned''"

definition usable_tx :: "store \<Rightarrow> bool" where
  "usable_tx s \<longleftrightarrow> is_open s \<and> connected s \<and> \<not> poisoned s \<and> (work s = None \<longrightarrow> \<not> write_locked s)"

lemma tx_only_usable: "idle s \<Longrightarrow> tx_only s c \<Longrightarrow> usable_tx c"
  by (simp add: usable_tx_def idle_def tx_only_def no_tx_def)

lemma commit_outcome:
  assumes "usable_tx c" "work c = Some d"
  obtains (committed) c' where "commit_tx c = (Inr (), c')" "durable c' = d" "idle c'"
    | (failed) c' where "commit_tx c = (Inl DatabaseError, c')" "durable c' = durable c" "usable_tx c'"
    | (uncertain) c' where "commit_tx c = (Inl DatabaseError, c')" "durable c' = d" "usable_tx c'"
proof (cases "faults c")
  case Nil
  with assms show thesis
    by (intro committed [of "end_tx (c\<lparr>durable := d\<rparr>)"])
      (simp_all add: commit_tx_def execute_cases usable_tx_def idle_def no_tx_def end_tx_def)
next
  case (Cons f fs)
  let ?c = "end_tx (c\<lparr>durable := d, faults := fs\<rparr>)"
  have run: "commit_tx c = (case f of FError \<Rightarrow> (Inl DatabaseError, c\<lparr>faults := fs\<rparr>)
      | FApplied \<Rightarrow> (Inl DatabaseError, ?c) | FAborted \<Rightarrow> (Inl DatabaseError, end_tx (c\<lparr>faults := fs\<rparr>))
      | _ \<Rightarrow> (Inr (), ?c))"
    using assms Cons by (simp add: commit_tx_def execute_cases usable_tx_def split: fault.split)
  show thesis
  proof (cases f)
    case FError
    with run assms show thesis by (intro failed [of "c\<lparr>faults := fs\<rparr>"]) (simp_all add: usable_tx_def)
  next
    case FApplied
    with run assms show thesis by (intro uncertain [of ?c]) (simp_all add: usable_tx_def end_tx_def)
  next
    case FAborted
    with run assms show thesis
      by (intro failed [of "end_tx (c\<lparr>faults := fs\<rparr>)"]) (simp_all add: usable_tx_def end_tx_def)
  qed (use run assms committed [of ?c] in \<open>simp_all add: usable_tx_def idle_def no_tx_def end_tx_def\<close>)
qed

lemma poison_outcome: "\<exists>c'. poison c = (Inr (), c') \<and> dead c' \<and> durable c' = durable c"
  by (auto simp: poison_def run_combinators close_connection_def take_fault_def dead_def end_tx_def
      split: list.split fault.split)

lemma rollback_tx_outcome:
  assumes "usable_tx c" "work c \<noteq> None"
  shows "\<exists>r c'. rollback_tx c = (r, c') \<and> durable c' = durable c \<and> is_open c'
     \<and> (case r of Inl e \<Rightarrow> e = DatabaseError | Inr _ \<Rightarrow> idle c')"
  using assms by (auto simp: rollback_tx_def execute_cases usable_tx_def idle_def no_tx_def end_tx_def
      in_transaction_def split: list.split fault.split)

lemma rollback_after_failure_outcome:
  assumes "usable_tx c"
  obtains (settled) c' where "rollback_after_failure c = (Inr (), c')" "idle c'" "durable c' = durable c"
    | (poisoned) c' where "rollback_after_failure c = (Inl rollback_failed, c')" "dead c'" "durable c' = durable c"
proof -
  let ?attempt = "sq (bnd conn_in_transaction (\<lambda>b. if b then rollback_transaction else ret ()))
         (bnd conn_in_transaction (\<lambda>b. if b then raise DatabaseError else ret ()))"
  have "\<exists>r c'. ?attempt c = (r, c') \<and> durable c' = durable c \<and>
      (case r of Inl e \<Rightarrow> e = DatabaseError | Inr _ \<Rightarrow> idle c')"
  proof (cases "work c")
    case None
    with assms show ?thesis
      by (auto simp: run_combinators conn_in_transaction_def usable_tx_def idle_def no_tx_def in_transaction_def)
  next
    case (Some d)
    then obtain r c' where r: "rollback_tx c = (r, c')" "durable c' = durable c" "is_open c'"
      "case r of Inl e \<Rightarrow> e = DatabaseError | Inr _ \<Rightarrow> idle c'"
      using rollback_tx_outcome [OF assms] by blast
    with Some assms show ?thesis
      by (cases r) (simp_all add: run_combinators conn_in_transaction_def rollback_transaction_def
          usable_tx_def idle_def no_tx_def in_transaction_def)
  qed
  then obtain r c' where run: "?attempt c = (r, c')" "durable c' = durable c"
    "case r of Inl e \<Rightarrow> e = DatabaseError | Inr _ \<Rightarrow> idle c'" by blast
  show thesis
  proof (cases r)
    case (Inl e)
    then show thesis using run poison_outcome [of c'] poisoned
      by (auto simp: rollback_after_failure_def run_try_except run_sq run_simps rollback_failed_def)
  next
    case (Inr u)
    then show thesis using run settled by (auto simp: rollback_after_failure_def run_try_except)
  qed
qed

section \<open>Outcomes of the transactions\<close>

lemma dead_settled: "dead s \<Longrightarrow> settled s"
  by (simp add: settled_def)

text \<open>
  An ordinary transaction: a value means that the effect is durable; an error means that
  nothing changed, or that the \<open>COMMIT\<close> (or the rollback after it) failed after the effect
  became durable. Afterwards the store is idle or dead, unless the body raised an exception
  that is neither an authority error nor a database error.
\<close>

lemma after_failure_outcome:
  assumes "usable_tx c" "handled e"
  shows "\<exists>e' c'. after_failure message e c = (Inl e', c') \<and> settled c' \<and> durable c' = durable c
     \<and> (e' = (if is_authority_error e then e else AuthorityStoreError message) \<or> e' = rollback_failed)"
proof (rule rollback_after_failure_outcome [OF assms(1)])
qed (use assms(2) in \<open>auto simp: after_failure_def run_sq run_simps handled_def settled_def\<close>)

lemma transaction_begun:
  "transaction b message body s = (case begun b body s of
      (Inl e, c) \<Rightarrow> after_failure message e c
    | (Inr x, c) \<Rightarrow> (case commit_tx c of
        (Inl e, c') \<Rightarrow> after_failure message e c' | (Inr _, c') \<Rightarrow> (Inr x, c')))"
  by (simp add: transaction_def begun_def run_combinators split: prod.split sum.split)

lemma consequential_begun:
  "consequential operation body s = (case begun begin_immediate body s of
      (Inl e, c) \<Rightarrow> consequential_failure False operation e c
    | (Inr x, c) \<Rightarrow> (case commit_tx c of
        (Inl e, c') \<Rightarrow> consequential_failure True operation e c' | (Inr _, c') \<Rightarrow> (Inr x, c')))"
  by (simp add: consequential_def begun_def run_combinators consequential_failure_def
      handle_consequential_failure_def split: prod.split sum.split)

lemma early_error_authority: "early_error a d e \<Longrightarrow> \<not> handled e \<Longrightarrow> store_valid d \<and> fst (a (abs_of d)) = Inl e"
  by (auto simp: early_error_def handled_def dest: malformed_is_authority)

theorem transaction_outcome:
  assumes "idle s" "begins b" "faithful body" "refines body a"
  obtains (returned) x s' where "transaction b message body s = (Inr x, s')" "idle s'"
      "effect a (durable s) x (durable s')"
    | (raised) e s' where "transaction b message body s = (Inl e, s')" "durable s' = durable s"
      "settled s' \<or> \<not> handled e \<and> store_valid (durable s) \<and> fst (a (abs_of (durable s))) = Inl e"
    | (late) e x s' where "transaction b message body s = (Inl e, s')" "settled s'"
      "e = AuthorityStoreError message \<or> e = rollback_failed" "effect a (durable s) x (durable s')"
proof (rule begun_outcome [OF assms])
  fix e c
  assume run: "begun b body s = (Inl e, c)" and c: "tx_only s c" and e: "early_error a (durable s) e"
  have d: "durable c = durable s" and u: "usable_tx c"
    using tx_only_fields [OF c] tx_only_usable [OF assms(1) c] by simp_all
  show thesis
  proof (cases "handled e")
    case True
    have "transaction b message body s = after_failure message e c"
      using run by (simp add: transaction_begun)
    with raised d show thesis
      using after_failure_outcome [OF u True, of message, where ?'a = 'a] by metis
  next
    case False
    then have "transaction b message body s = (Inl e, c)"
      using run by (simp add: transaction_begun after_failure_def handled_def run_simps)
    from raised [OF this d] False early_error_authority [OF e False] show thesis by blast
  qed
next
  fix x d' c
  assume run: "begun b body s = (Inr x, c)" and c: "tx_only s c" "work c = Some d'"
    and eff: "effect a (durable s) x d'"
  have d: "durable c = durable s" and u: "usable_tx c"
    using tx_only_fields [OF c(1)] tx_only_usable [OF assms(1) c(1)] by simp_all
  show thesis
  proof (rule commit_outcome [OF u c(2)])
    show thesis if "commit_tx c = (Inr (), c')" "durable c' = d'" "idle c'" for c'
      using that run eff returned by (simp add: transaction_begun)
    fix c'
    assume c': "commit_tx c = (Inl DatabaseError, c')" "usable_tx c'"
    then have run': "transaction b message body s = after_failure message DatabaseError c'"
      using run by (simp add: transaction_begun)
    with after_failure_outcome [OF c'(2) handled_DatabaseError, of message, where ?'a = 'a]
    obtain e' c2 where out: "transaction b message body s = (Inl e', c2)" "settled c2" "durable c2 = durable c'"
      "e' = AuthorityStoreError message \<or> e' = rollback_failed"
      by auto
    show thesis if "durable c' = durable c"
      using raised [OF out(1)] out(2,3) that d by simp
    show thesis if "durable c' = d'"
      using late [OF out(1,2,4)] out(3) eff that by simp
  qed
qed

text \<open>
  A consequential transaction: nothing changed unless it returned or its \<open>COMMIT\<close> was
  uncertain; and the error of an uncertain \<open>COMMIT\<close> leaves a dead store.
\<close>

theorem consequential_outcome:
  assumes "idle s" "faithful body" "refines body a"
  obtains (returned) x s' where "consequential operation body s = (Inr x, s')" "idle s'"
      "effect a (durable s) x (durable s')"
    | (raised) e s' where "consequential operation body s = (Inl e, s')" "durable s' = durable s"
      "settled s' \<or> \<not> handled e" "early_error a (durable s) e \<or> e = rollback_failed"
    | (uncertain) x s' where "consequential operation body s = (Inl (uncertain_commit operation), s')" "dead s'"
      "effect a (durable s) x (durable s') \<or> durable s' = durable s"
proof (rule begun_outcome [OF assms(1) begins_begin(1) assms(2,3)])
  fix e c
  assume run: "begun begin_immediate body s = (Inl e, c)" and c: "tx_only s c" and e: "early_error a (durable s) e"
  have d: "durable c = durable s" and u: "usable_tx c"
    using tx_only_fields [OF c] tx_only_usable [OF assms(1) c] by simp_all
  show thesis
  proof (cases "handled e")
    case True
    then have "consequential operation body s = sq rollback_after_failure (raise e) c"
      using run by (simp add: consequential_begun consequential_failure_def handle_consequential_failure_def handled_def)
    then show thesis
      by (rule_tac rollback_after_failure_outcome [OF u])
        (use d e raised in \<open>simp_all add: run_sq run_simps settled_def\<close>)
  next
    case False
    then have "consequential operation body s = (Inl e, c)"
      using run by (simp add: consequential_begun consequential_failure_def handled_def run_simps)
    with d e False raised show thesis by simp
  qed
next
  fix x d' c
  assume run: "begun begin_immediate body s = (Inr x, c)" and c: "tx_only s c" "work c = Some d'"
    and eff: "effect a (durable s) x d'"
  have d: "durable c = durable s" and u: "usable_tx c"
    using tx_only_fields [OF c(1)] tx_only_usable [OF assms(1) c(1)] by simp_all
  have late: thesis if "commit_tx c = (Inl DatabaseError, c')" "durable c' = d' \<or> durable c' = durable c" for c'
  proof -
    obtain c2 where "poison c' = (Inr (), c2)" "dead c2" "durable c2 = durable c'"
      using poison_outcome by blast
    with that run eff d show thesis
      by (intro uncertain [of c2 x])
        (auto simp: consequential_begun consequential_failure_def handle_consequential_failure_def run_sq run_simps)
  qed
  show thesis
    by (rule commit_outcome [OF u c(2)]) (use run eff returned late in \<open>auto simp: consequential_begun\<close>)
qed

section \<open>Without faults\<close>

text \<open>
  Without faults, and while no other connection holds the write lock, the outcome is exactly
  the abstract operation's: \<open>quiet_outcome\<close> says which result is returned and which abstract
  state is durable afterwards.
\<close>

definition quiet_outcome :: "(exn \<Rightarrow> exn) \<Rightarrow> (auth, 'a) prog \<Rightarrow> store \<Rightarrow> exn + 'a \<Rightarrow> store \<Rightarrow> bool" where
  "quiet_outcome translate a s r s' \<longleftrightarrow> store_valid (durable s') \<and> faults s' = [] \<and> busy s' = busy s \<and>
     (case fst (a (abs_of (durable s))) of
        Inr x \<Rightarrow> r = Inr x \<and> idle s' \<and> abs_of (durable s') = snd (a (abs_of (durable s)))
      | Inl e \<Rightarrow> r = Inl (translate e) \<and> durable s' = durable s \<and> (handled e \<longrightarrow> idle s'))"

definition no_faults :: "store \<Rightarrow> bool" where
  "no_faults s \<longleftrightarrow> idle s \<and> faults s = [] \<and> \<not> busy s \<and> store_valid (durable s)"

lemma begun_quiet:
  assumes "no_faults s" "refines body a" "b = begin_immediate \<or> b = begin_deferred"
  obtains r d' l where "begun b body s = (r, s\<lparr>work := Some d', write_locked := l\<rparr>)"
    "a (abs_of (durable s)) = (r, abs_of d')" "store_valid d'"
proof -
  have s: "is_open s" "faults s = []" "\<not> busy s" "work s = None" "\<not> write_locked s" "store_valid (durable s)"
    using assms(1) by (auto simp: no_faults_def idle_def no_tx_def)
  have "s\<lparr>work := w\<rparr> = s\<lparr>work := w, write_locked := False\<rparr>" for w
    using s(5) by (cases s) simp
  moreover have "begin_deferred s = (Inr (), s\<lparr>work := Some (durable s)\<rparr>)"
    "begin_immediate s = (Inr (), s\<lparr>work := Some (durable s), write_locked := True\<rparr>)"
    using s by (simp_all add: begin_deferred_def begin_immediate_def execute_cases in_transaction_def)
  ultimately obtain l where begin_run: "b s = (Inr (), s\<lparr>work := Some (durable s), write_locked := l\<rparr>)"
    (is "_ = (_, ?c)") using assms(3) by metis
  have c: "is_open ?c" "faults ?c = []" "work ?c = Some (durable s)" using s by simp_all
  note begin_run
  moreover have "validate_store ?c = (Inr (), ?c)"
    using validate_store_accepts [OF c s(6)] .
  moreover obtain r d' where "body ?c = (r, ?c\<lparr>work := Some d'\<rparr>)" "a (abs_of (durable s)) = (r, abs_of d')"
    "store_valid d'"
    using refinesE [OF assms(2), of ?c "durable s"] c s(6) by (auto simp: in_valid_tx_def)
  ultimately show thesis
    by (intro that [of r l d']) (simp_all add: begun_def run_sq)
qed

lemma rollback_quiet:
  assumes "no_faults s" "c = s\<lparr>work := Some d, write_locked := l\<rparr>"
  shows "rollback_after_failure c = (Inr (), s)"
proof -
  have "end_tx c = s" using assms by (cases s) (simp add: end_tx_def no_faults_def idle_def no_tx_def)
  with assms show ?thesis
    by (simp add: rollback_after_failure_def run_combinators conn_in_transaction_def rollback_transaction_def
        rollback_tx_def execute_cases no_faults_def idle_def in_transaction_def no_tx_def)
qed

lemma commit_quiet:
  assumes "no_faults s" "c = s\<lparr>work := Some d, write_locked := l\<rparr>"
  shows "commit_tx c = (Inr (), s\<lparr>durable := d\<rparr>)"
proof -
  have "end_tx (c\<lparr>durable := d\<rparr>) = s\<lparr>durable := d\<rparr>"
    using assms by (cases s) (simp add: end_tx_def no_faults_def idle_def no_tx_def)
  with assms show ?thesis
    by (simp add: commit_tx_def execute_cases no_faults_def idle_def)
qed

theorem transaction_quiet:
  assumes "no_faults s" "refines body a" "b = begin_immediate \<or> b = begin_deferred"
    "transaction b message body s = (r, s')"
  shows "quiet_outcome (\<lambda>e. if e = DatabaseError then AuthorityStoreError message else e) a s r s'"
proof -
  obtain r0 d' l where run: "begun b body s = (r0, s\<lparr>work := Some d', write_locked := l\<rparr>)" (is "_ = (_, ?c)")
    "a (abs_of (durable s)) = (r0, abs_of d')" "store_valid d'"
    by (rule begun_quiet [OF assms(1-3)])
  note quiet = rollback_quiet [OF assms(1) refl, of l d'] commit_quiet [OF assms(1) refl, of l d']
  note unfold = quiet_outcome_def no_faults_def idle_def no_tx_def
  show ?thesis
  proof (cases r0)
    case (Inr x)
    with run quiet assms(1,4) show ?thesis by (auto simp: transaction_begun unfold)
  next
    case (Inl e)
    with run assms(4) have "after_failure message e ?c = (r, s')" by (simp add: transaction_begun)
    with Inl run quiet assms(1) show ?thesis
      by (auto simp: after_failure_def run_sq run_simps unfold handled_def split: if_splits)
  qed
qed

theorem consequential_quiet:
  assumes "no_faults s" "refines body a" "consequential operation body s = (r, s')"
  shows "quiet_outcome (\<lambda>e. e) a s r s'"
proof -
  obtain r0 d' l where run: "begun begin_immediate body s = (r0, s\<lparr>work := Some d', write_locked := l\<rparr>)" (is "_ = (_, ?c)")
    "a (abs_of (durable s)) = (r0, abs_of d')" "store_valid d'"
    by (rule begun_quiet [OF assms(1,2), of begin_immediate]) simp
  note quiet = rollback_quiet [OF assms(1) refl, of l d'] commit_quiet [OF assms(1) refl, of l d']
  note unfold = quiet_outcome_def no_faults_def idle_def no_tx_def
  show ?thesis
  proof (cases r0)
    case (Inr x)
    with run quiet assms(1,3) show ?thesis by (auto simp: consequential_begun unfold)
  next
    case (Inl e)
    with run assms(3) have "consequential_failure False operation e ?c = (r, s')" by (simp add: consequential_begun)
    with Inl run quiet assms(1) show ?thesis
      by (auto simp: consequential_failure_def handle_consequential_failure_def run_sq run_simps unfold handled_def
          split: if_splits)
  qed
qed

section \<open>Unusable stores\<close>

lemma unusable:
  "poisoned s \<or> \<not> connected s \<Longrightarrow> \<exists>m. require_usable_connection s = (Inl (AuthorityStoreError m), s)"
  by (auto simp: require_usable_connection_def run_combinators)

lemma usable: "idle s \<Longrightarrow> require_usable_connection s = (Inr (), s)"
  by (simp add: require_usable_connection_def run_combinators idle_def)

lemmas store_operations = acquire_generation_def read_generation_def is_current_generation_def
  register_execution_key_def execution_key_exists_def bind_command_spec_hash_def
  read_command_spec_hash_def admit_execution_def read_execution_admission_def
  claim_execution_launch_def mark_execution_launch_unknown_def
  record_execution_terminal_result_def read_execution_launch_def

end
