(* ===== verification/Authority_Contract.thy ===== *)
theory Authority_Contract
  imports Authority_Transactions
begin

text \<open>
  The contract of the store's methods. \<open>durable_op\<close> is what a caller may rely on for every
  method: its outcome is the specification's or nothing happened. \<open>consequential_op\<close> adds, for
  the launch transitions, that an error tells whether the change may have happened. Every
  method is interpreted, with its argument checks, against its specification.
\<close>

section \<open>Specifications with the argument checks\<close>

definition s_acquire_generation :: "pyval \<Rightarrow> (auth, int) prog" where
  "s_acquire_generation scope_arg = bnd (of_result (validate_scope scope_arg)) a_acquire"

definition s_read_generation :: "pyval \<Rightarrow> (auth, int option) prog" where
  "s_read_generation scope_arg = bnd (of_result (validate_scope scope_arg)) a_read_generation"

definition s_register_execution_key :: "pyval \<Rightarrow> (auth, ExecutionKeyRegistration) prog" where
  "s_register_execution_key key_arg = bnd (of_result (validate_execution_key key_arg)) a_register"

definition s_execution_key_exists :: "pyval \<Rightarrow> (auth, bool) prog" where
  "s_execution_key_exists key_arg = bnd (of_result (validate_execution_key key_arg)) a_exists"

definition s_bind_command_spec_hash :: "pyval \<Rightarrow> pyval \<Rightarrow> (auth, CommandSpecBindingResult) prog" where
  "s_bind_command_spec_hash key_arg hash_arg = bnd (of_result (validate_execution_key key_arg)) (\<lambda>key.
     bnd (of_result (validate_command_spec_hash hash_arg)) (a_bind key))"

definition s_read_command_spec_hash :: "pyval \<Rightarrow> (auth, pystr option) prog" where
  "s_read_command_spec_hash key_arg = bnd (of_result (validate_execution_key key_arg)) a_read_hash"

definition s_admit_execution :: "pyval \<Rightarrow> pyval \<Rightarrow> pyval \<Rightarrow> (auth, ExecutionAdmissionResult) prog" where
  "s_admit_execution key_arg scope_arg generation_arg = bnd (of_result (validate_execution_key key_arg)) (\<lambda>key.
     bnd (of_result (validate_scope scope_arg)) (\<lambda>scope.
     bnd (of_result (validate_controller_generation generation_arg)) (a_admit key scope)))"

definition s_read_execution_admission :: "pyval \<Rightarrow> (auth, ExecutionAdmission option) prog" where
  "s_read_execution_admission key_arg = bnd (of_result (validate_execution_key key_arg)) a_read_admission"

definition s_claim_execution_launch :: "pyval \<Rightarrow> pyval \<Rightarrow> pyval \<Rightarrow> pyval \<Rightarrow> (auth, ExecutionLaunch) prog" where
  "s_claim_execution_launch key_arg scope_arg generation_arg hash_arg =
     bnd (of_result (validate_execution_key key_arg)) (\<lambda>key.
     bnd (of_result (validate_scope scope_arg)) (\<lambda>scope.
     bnd (of_result (validate_controller_generation generation_arg)) (\<lambda>generation.
     bnd (of_result (validate_command_spec_hash hash_arg)) (a_claim key scope generation))))"

definition s_mark_execution_launch_unknown :: "pyval \<Rightarrow> pyval \<Rightarrow> (auth, ExecutionLaunch) prog" where
  "s_mark_execution_launch_unknown key_arg hash_arg = bnd (of_result (validate_execution_key key_arg)) (\<lambda>key.
     bnd (of_result (validate_command_spec_hash hash_arg)) (a_mark key))"

definition s_record_execution_terminal_result :: "pyval \<Rightarrow> pyval \<Rightarrow> pyval \<Rightarrow> (auth, ExecutionLaunch) prog" where
  "s_record_execution_terminal_result key_arg hash_arg exit_code_arg =
     bnd (of_result (validate_execution_key key_arg)) (\<lambda>key.
     bnd (of_result (validate_command_spec_hash hash_arg)) (\<lambda>hash.
     bnd (of_result (validate_process_exit_code exit_code_arg)) (a_record key hash)))"

definition s_read_execution_launch :: "pyval \<Rightarrow> (auth, ExecutionLaunch option) prog" where
  "s_read_execution_launch key_arg = bnd (of_result (validate_execution_key key_arg)) a_read_launch"

lemmas s_op_defs = s_acquire_generation_def s_read_generation_def s_register_execution_key_def
  s_execution_key_exists_def s_bind_command_spec_hash_def s_read_command_spec_hash_def
  s_admit_execution_def s_read_execution_admission_def s_claim_execution_launch_def
  s_mark_execution_launch_unknown_def s_record_execution_terminal_result_def s_read_execution_launch_def

section \<open>Atomic calls\<close>

text \<open>The outcomes of a call on an idle store.\<close>

definition atomic_outcome :: "(auth, 'a) prog \<Rightarrow> store \<Rightarrow> exn + 'a \<Rightarrow> store \<Rightarrow> bool" where
  "atomic_outcome a s r s' \<longleftrightarrow> (case r of
       Inr x \<Rightarrow> idle s' \<and> effect a (durable s) x (durable s')
     | Inl e \<Rightarrow> (durable s' = durable s \<or> (\<exists>x. effect a (durable s) x (durable s'))) \<and> (settled s' \<or> \<not> handled e))"

definition atomic_call :: "(store, 'a) prog \<Rightarrow> (auth, 'a) prog \<Rightarrow> bool" where
  "atomic_call m a \<longleftrightarrow> (\<forall>s. idle s \<longrightarrow> atomic_outcome a s (fst (m s)) (snd (m s)))"

definition certain_outcome :: "string \<Rightarrow> store \<Rightarrow> exn + 'a \<Rightarrow> store \<Rightarrow> bool" where
  "certain_outcome operation s r s' \<longleftrightarrow> (case r of Inr _ \<Rightarrow> True
     | Inl e \<Rightarrow> if e = uncertain_commit operation then dead s' else durable s' = durable s)"

definition certain_call :: "string \<Rightarrow> (store, 'a) prog \<Rightarrow> bool" where
  "certain_call operation m \<longleftrightarrow> (\<forall>s. idle s \<longrightarrow> certain_outcome operation s (fst (m s)) (snd (m s)))"

text \<open>
  A handle that is not idle: an earlier exception left its transaction open, or its connection
  is closed. A call on it raises and changes nothing.
\<close>

definition handle_ok :: "store \<Rightarrow> bool" where
  "handle_ok s \<longleftrightarrow> (work s = None \<longrightarrow> \<not> write_locked s)"

definition stuck :: "store \<Rightarrow> bool" where
  "stuck s \<longleftrightarrow> handle_ok s \<and> (work s \<noteq> None \<or> \<not> is_open s)"

definition inert_call :: "(store, 'a) prog \<Rightarrow> bool" where
  "inert_call m \<longleftrightarrow> (\<forall>s. stuck s \<longrightarrow> isl (fst (m s)) \<and> durable (snd (m s)) = durable s)"

definition fails_stuck :: "(store, unit) prog \<Rightarrow> bool" where
  "fails_stuck b \<longleftrightarrow> (\<forall>s. stuck s \<longrightarrow> (\<exists>c. b s = (Inl DatabaseError, c) \<and> durable c = durable s))"

lemma begin_stuck: "fails_stuck begin_immediate" "fails_stuck begin_deferred"
  unfolding fails_stuck_def begin_immediate_def begin_deferred_def stuck_def
  by (auto simp: execute_def execute_f_def run_combinators take_fault_def end_tx_def in_transaction_def
      split: list.split fault.split)

lemma rollback_tx_durable: "rollback_tx c = (r, c') \<Longrightarrow> durable c' = durable c"
  by (auto simp: rollback_tx_def execute_def execute_f_def run_combinators take_fault_def end_tx_def
      split: list.splits fault.splits if_splits)

lemma rollback_after_failure_durable: "durable (snd (rollback_after_failure c)) = durable c"
proof -
  let ?m = "sq (bnd conn_in_transaction (\<lambda>b. if b then rollback_transaction else ret ()))
         (bnd conn_in_transaction (\<lambda>b. if b then raise DatabaseError else ret ()))"
  obtain r c' where run: "?m c = (r, c')" by (cases "?m c")
  then have "durable c' = durable c"
    by (auto simp: run_combinators conn_in_transaction_def rollback_transaction_def
        split: prod.splits sum.splits if_splits dest!: rollback_tx_durable)
  with run show ?thesis
    using poison_outcome [of c']
    by (cases r) (auto simp: rollback_after_failure_def run_try_except run_sq run_simps)
qed

lemma rollback_then_raise:
  fixes c :: store
  shows "isl (fst ((sq rollback_after_failure (raise e) :: (store, 'a) prog) c))"
    and "durable (snd ((sq rollback_after_failure (raise e) :: (store, 'a) prog) c)) = durable c"
  using rollback_after_failure_durable [of c]
  by (cases "rollback_after_failure c"; cases "fst (rollback_after_failure c)"; force simp: run_combinators)+

lemma after_failure_raises:
  fixes c :: store
  shows "isl (fst ((after_failure message e :: (store, 'a) prog) c))"
    and "durable (snd ((after_failure message e :: (store, 'a) prog) c)) = durable c"
  by (simp_all add: after_failure_def rollback_then_raise run_simps)

lemma inert_transaction [impl_intros]:
  assumes "fails_stuck b"
  shows "inert_call (transaction b message body)"
  unfolding inert_call_def
proof (intro allI impI)
  fix s assume "stuck s"
  then obtain c where "b s = (Inl DatabaseError, c)" "durable c = durable s"
    using assms by (auto simp: fails_stuck_def)
  then show "isl (fst (transaction b message body s)) \<and> durable (snd (transaction b message body s)) = durable s"
    by (simp add: transaction_def run_try_except run_sq after_failure_raises)
qed

lemma inert_consequential [impl_intros]: "inert_call (consequential operation body)"
  unfolding inert_call_def
proof (intro allI impI)
  fix s assume "stuck s"
  then obtain c where c: "begin_immediate s = (Inl DatabaseError, c)" "durable c = durable s"
    using begin_stuck(1) by (auto simp: fails_stuck_def)
  let ?fail = "consequential_failure False operation DatabaseError :: (store, 'a) prog"
  have "?fail c = sq rollback_after_failure (raise DatabaseError) c"
    by (simp add: consequential_failure_def handle_consequential_failure_def)
  moreover obtain e' c' where "(sq rollback_after_failure (raise DatabaseError) :: (store, 'a) prog) c = (Inl e', c')"
    by (cases "rollback_after_failure c"; cases "fst (rollback_after_failure c)") (auto simp: run_combinators)
  ultimately show "isl (fst (consequential operation body s)) \<and> durable (snd (consequential operation body s)) = durable s"
    using c rollback_then_raise [of DatabaseError c, where ?'a = 'a]
    by (simp add: consequential_def run_bnd run_try_except run_sq)
qed

text \<open>Exceptions of a specification never pass for an uncertain commit.\<close>

definition plain_errors :: "(auth, 'a) prog \<Rightarrow> bool" where
  "plain_errors a \<longleftrightarrow> (\<forall>A m. fst (a A) \<noteq> Inl (AuthorityStoreError m))"

lemma atomic_transaction [impl_intros]:
  assumes "begins b" "faithful body" "refines body a"
  shows "atomic_call (transaction b message body) a"
  unfolding atomic_call_def atomic_outcome_def
proof (intro allI impI)
  fix s
  assume "idle s"
  then show "case fst (transaction b message body s) of
       Inl e \<Rightarrow> (durable (snd (transaction b message body s)) = durable s
            \<or> (\<exists>x. effect a (durable s) x (durable (snd (transaction b message body s)))))
          \<and> (settled (snd (transaction b message body s)) \<or> \<not> handled e)
     | Inr x \<Rightarrow> idle (snd (transaction b message body s))
          \<and> effect a (durable s) x (durable (snd (transaction b message body s)))"
    by (rule transaction_outcome [OF _ assms, of s message]) auto
qed

lemma atomic_consequential [impl_intros]:
  assumes "faithful body" "refines body a"
  shows "atomic_call (consequential operation body) a"
  unfolding atomic_call_def atomic_outcome_def
proof (intro allI impI)
  fix s
  assume "idle s"
  then show "case fst (consequential operation body s) of
       Inl e \<Rightarrow> (durable (snd (consequential operation body s)) = durable s
            \<or> (\<exists>x. effect a (durable s) x (durable (snd (consequential operation body s)))))
          \<and> (settled (snd (consequential operation body s)) \<or> \<not> handled e)
     | Inr x \<Rightarrow> idle (snd (consequential operation body s))
          \<and> effect a (durable s) x (durable (snd (consequential operation body s)))"
    by (rule consequential_outcome [OF _ assms, of s operation]) (auto simp: dead_settled)
qed

lemma uncertain_not_early:
  "plain_errors a \<Longrightarrow> \<not> early_error a d (uncertain_commit operation)"
  "rollback_failed \<noteq> uncertain_commit operation" "uncertain_commit operation \<noteq> rollback_failed"
  by (auto simp: early_error_def plain_errors_def uncertain_commit_def rollback_failed_def)

lemma certain_consequential [impl_intros]:
  assumes "faithful body" "refines body a" "plain_errors a"
  shows "certain_call operation (consequential operation body)"
  unfolding certain_call_def certain_outcome_def
proof (intro allI impI)
  fix s
  assume "idle s"
  then show "case fst (consequential operation body s) of Inr _ \<Rightarrow> True
     | Inl e \<Rightarrow> if e = uncertain_commit operation then dead (snd (consequential operation body s))
         else durable (snd (consequential operation body s)) = durable s"
    by (rule consequential_outcome [OF _ assms(1,2), of s operation])
      (use uncertain_not_early(1) [OF assms(3), of "durable s" operation]
        uncertain_not_early(2,3) [of operation] in auto)
qed

text \<open>Argument checks and the check of the connection in front of a call.\<close>

lemma bnd_of_Inr: "bnd (of_result (Inr x)) f = f x"
  by (simp add: fun_eq_iff run_combinators)

lemma atomic_argument [impl_intros]:
  "(\<And>x. v = Inr x \<Longrightarrow> atomic_call (f x) (a x)) \<Longrightarrow>
   atomic_call (bnd (of_result v) f) (bnd (of_result v) a)"
  by (cases v) (simp_all add: bnd_of_Inr, simp add: atomic_call_def run_combinators atomic_outcome_def settled_def)

lemma inert_argument [impl_intros]:
  "(\<And>x. v = Inr x \<Longrightarrow> inert_call (f x)) \<Longrightarrow> inert_call (bnd (of_result v) f)"
  by (cases v) (simp_all add: inert_call_def run_combinators)

lemma inert_usable [impl_intros]: "inert_call m \<Longrightarrow> inert_call (sq require_usable_connection m)"
  by (auto simp: inert_call_def run_combinators require_usable_connection_def)

lemma atomic_usable [impl_intros]: "atomic_call m a \<Longrightarrow> atomic_call (sq require_usable_connection m) a"
  by (simp add: atomic_call_def run_sq usable)

lemma certain_argument [impl_intros]:
  "(\<And>x. v = Inr x \<Longrightarrow> certain_call operation (f x)) \<Longrightarrow> (\<And>e. v = Inl e \<Longrightarrow> e \<noteq> uncertain_commit operation) \<Longrightarrow>
   certain_call operation (bnd (of_result v) f)"
  by (cases v) (simp_all add: certain_call_def run_combinators certain_outcome_def)

lemma certain_usable [impl_intros]:
  "certain_call operation m \<Longrightarrow> certain_call operation (sq require_usable_connection m)"
  by (simp add: certain_call_def run_sq usable)

lemma plain_errors_ops:
  "plain_errors (a_claim k s g h)" "plain_errors (a_mark k h)" "plain_errors (a_record k h i)"
  by (auto simp: plain_errors_def a_op_defs run_combinators split: option.splits sum.splits)

text \<open>What the argument checks guarantee, and what they raise.\<close>

lemma checked_arguments:
  "validate_scope v = Inr s \<Longrightarrow> s \<noteq> []"
  "validate_execution_key v = Inr k \<Longrightarrow> k \<noteq> []"
  "validate_command_spec_hash v = Inr h \<Longrightarrow> h \<noteq> [] \<and> encodable h"
  "validate_controller_generation v = Inr g \<Longrightarrow> 0 < g \<and> g \<le> max_generation"
  "validate_process_exit_code v = Inr i \<Longrightarrow> min_sqlite_integer \<le> i \<and> i \<le> max_sqlite_integer"
  by (auto simp: validate_scope_def validate_execution_key_def validate_command_spec_hash_def
      validate_controller_generation_def validate_process_exit_code_def utf8_encode_None
      split: option.splits if_splits)

lemma argument_errors:
  "validate_scope v = Inl e \<Longrightarrow> e \<noteq> AuthorityStoreError m"
  "validate_execution_key v = Inl e \<Longrightarrow> e \<noteq> AuthorityStoreError m"
  "validate_command_spec_hash v = Inl e \<Longrightarrow> e \<noteq> AuthorityStoreError m"
  "validate_controller_generation v = Inl e \<Longrightarrow> e \<noteq> AuthorityStoreError m"
  "validate_process_exit_code v = Inl e \<Longrightarrow> e \<noteq> AuthorityStoreError m"
  by (auto simp: validate_scope_def validate_execution_key_def validate_command_spec_hash_def
      validate_controller_generation_def validate_process_exit_code_def
      split: option.splits if_splits)

section \<open>The interfaces\<close>

locale durable_op =
  fixes call :: "(store, 'a) prog" and spec :: "(auth, 'a) prog"
  assumes unusable_call: "poisoned s \<or> \<not> connected s \<Longrightarrow> \<exists>m. call s = (Inl (AuthorityStoreError m), s)"
    and atomic: "atomic_call call spec"
    and inert: "inert_call call"
begin

lemma returns:
  assumes "idle s" "call s = (Inr x, s')"
  shows "idle s'" "store_valid (durable s)" "store_valid (durable s')"
    "spec (abs_of (durable s)) = (Inr x, abs_of (durable s'))"
  using atomic assms by (auto simp: atomic_call_def atomic_outcome_def effect_def dest!: spec [of _ s])

lemma raises:
  assumes "idle s" "call s = (Inl e, s')"
  shows "durable s' = durable s \<or> (\<exists>x. effect spec (durable s) x (durable s'))" "settled s' \<or> \<not> handled e"
  using atomic assms by (auto simp: atomic_call_def atomic_outcome_def dest!: spec [of _ s])

lemma durable_cases:
  assumes "idle s" "call s = (r, s')"
  shows "durable s' = durable s \<or> (\<exists>x. effect spec (durable s) x (durable s'))"
  using returns [OF assms(1)] raises [OF assms(1)] assms(2) by (cases r) (auto simp: effect_def)

text \<open>Whatever the state of the handle, the call has its effect or none.\<close>

lemma any_handle:
  assumes "handle_ok s" "call s = (r, s')"
  shows "durable s' = durable s \<or> (\<exists>x. effect spec (durable s) x (durable s'))"
proof (cases "poisoned s \<or> \<not> connected s \<or> stuck s")
  case True
  then show ?thesis
    using unusable_call [of s] inert assms(2) by (auto simp: inert_call_def dest!: spec [of _ s])
next
  case False
  then have "idle s" using assms(1) by (auto simp: idle_def stuck_def no_tx_def handle_ok_def)
  then show ?thesis using durable_cases assms(2) by blast
qed

lemma returns_idle:
  assumes "handle_ok s" "call s = (Inr x, s')"
  shows "idle s"
proof -
  have "\<not> (poisoned s \<or> \<not> connected s)" using unusable_call [of s] assms(2) by auto
  moreover have "\<not> stuck s" using inert assms(2) by (auto simp: inert_call_def dest!: spec [of _ s])
  ultimately show ?thesis using assms(1) by (auto simp: idle_def stuck_def no_tx_def handle_ok_def)
qed

lemma preserves_valid:
  assumes "idle s" "call s = (r, s')" "store_valid (durable s)"
  shows "store_valid (durable s')"
  using durable_cases [OF assms(1,2)] assms(3) by (auto simp: effect_def)

lemma never_touches_invalid:
  assumes "idle s" "call s = (r, s')" "\<not> store_valid (durable s)"
  shows "durable s' = durable s \<and> isl r"
  using durable_cases [OF assms(1,2)] returns(2) [OF assms(1)] assms(2,3)
  by (cases r) (auto simp: effect_def)

end

locale consequential_op = durable_op +
  fixes operation :: string
  assumes certain: "certain_call operation call"
begin

lemma certain_error: "idle s \<Longrightarrow> call s = (Inl e, s') \<Longrightarrow> e \<noteq> uncertain_commit operation \<Longrightarrow> durable s' = durable s"
  using certain by (auto simp: certain_call_def certain_outcome_def dest!: spec [of _ s])

lemma uncertain_dead: "idle s \<Longrightarrow> call s = (Inl (uncertain_commit operation), s') \<Longrightarrow> dead s'"
  using certain by (auto simp: certain_call_def certain_outcome_def dest!: spec [of _ s])

end

lemma durable_opI:
  "call = sq require_usable_connection m \<Longrightarrow> atomic_call m spec \<Longrightarrow> inert_call m \<Longrightarrow> durable_op call spec"
  by (unfold_locales) (auto simp: run_sq atomic_usable inert_usable dest!: unusable)

lemma consequential_opI:
  "call = sq require_usable_connection m \<Longrightarrow> atomic_call m spec \<Longrightarrow> inert_call m \<Longrightarrow>
   certain_call operation m \<Longrightarrow> consequential_op call spec operation"
  by (intro consequential_op.intro durable_opI consequential_op_axioms.intro) (auto intro: certain_usable)

lemmas op_intros = inert_transaction inert_consequential inert_argument begin_stuck atomic_transaction atomic_consequential atomic_argument
  begins_begin faithful_bodies faithful_binding_bodies faithful_launch_bodies faithful_transition_bodies
  refines_read_generation refines_exists refines_read_hash refines_read_admission refines_claim
  refines_read_launch

lemma argument_not_uncertain [impl_intros]:
  "validate_scope v = Inl e \<Longrightarrow> e \<noteq> uncertain_commit m"
  "validate_execution_key v = Inl e \<Longrightarrow> e \<noteq> uncertain_commit m"
  "validate_command_spec_hash v = Inl e \<Longrightarrow> e \<noteq> uncertain_commit m"
  "validate_controller_generation v = Inl e \<Longrightarrow> e \<noteq> uncertain_commit m"
  "validate_process_exit_code v = Inl e \<Longrightarrow> e \<noteq> uncertain_commit m"
  unfolding uncertain_commit_def by (rule argument_errors, assumption)+

lemma certain_transitions [impl_intros]:
  "certain_call operation (consequential operation (claim_execution_launch_body k s g h))"
  "encodable h \<Longrightarrow> certain_call operation (consequential operation (mark_execution_launch_unknown_body k h))"
  "encodable h \<Longrightarrow> min_sqlite_integer \<le> i \<Longrightarrow> i \<le> max_sqlite_integer \<Longrightarrow>
   certain_call operation (consequential operation (record_execution_terminal_result_body k h i))"
  by (intro certain_consequential [OF faithful_launch_bodies(1) refines_claim plain_errors_ops(1)]
      certain_consequential [OF faithful_transition_bodies(1) refines_mark plain_errors_ops(2)]
      certain_consequential [OF faithful_transition_bodies(2) refines_record plain_errors_ops(3)]; assumption)+

interpretation acquire: durable_op "acquire_generation v" "s_acquire_generation v" for v
  unfolding acquire_generation_def s_acquire_generation_def
  by (rule durable_opI [OF refl]; intro op_intros refines_acquire checked_arguments)

interpretation read_gen: durable_op "read_generation v" "s_read_generation v" for v
  unfolding read_generation_def s_read_generation_def
  by (rule durable_opI [OF refl]; intro op_intros)

interpretation register: durable_op "register_execution_key v" "s_register_execution_key v" for v
  unfolding register_execution_key_def s_register_execution_key_def
  by (rule durable_opI [OF refl]; intro op_intros refines_register checked_arguments)

interpretation key_exists: durable_op "execution_key_exists v" "s_execution_key_exists v" for v
  unfolding execution_key_exists_def s_execution_key_exists_def
  by (rule durable_opI [OF refl]; intro op_intros)

interpretation bind_op: durable_op "bind_command_spec_hash v w" "s_bind_command_spec_hash v w" for v w
  unfolding bind_command_spec_hash_def s_bind_command_spec_hash_def
  by (rule durable_opI [OF refl]; intro op_intros refines_bind checked_arguments(3) [THEN conjunct1] checked_arguments(3) [THEN conjunct2])

interpretation read_hash: durable_op "read_command_spec_hash v" "s_read_command_spec_hash v" for v
  unfolding read_command_spec_hash_def s_read_command_spec_hash_def
  by (rule durable_opI [OF refl]; intro op_intros)

interpretation admit: durable_op "admit_execution v w g" "s_admit_execution v w g" for v w g
  unfolding admit_execution_def s_admit_execution_def
  by (rule durable_opI [OF refl]; intro op_intros refines_admit checked_arguments(1) checked_arguments(4) [THEN conjunct1]
      checked_arguments(4) [THEN conjunct2])

interpretation read_adm: durable_op "read_execution_admission v" "s_read_execution_admission v" for v
  unfolding read_execution_admission_def s_read_execution_admission_def
  by (rule durable_opI [OF refl]; intro op_intros)

interpretation read_launch: durable_op "read_execution_launch v" "s_read_execution_launch v" for v
  unfolding read_execution_launch_def s_read_execution_launch_def
  by (rule durable_opI [OF refl]; intro op_intros)

interpretation claim: consequential_op "claim_execution_launch v w g h" "s_claim_execution_launch v w g h"
    "''execution launch claim''" for v w g h
  unfolding claim_execution_launch_def s_claim_execution_launch_def
  by (rule consequential_opI [OF refl], (intro op_intros)[1], (intro op_intros)[1])
    (intro certain_argument certain_transitions; erule argument_not_uncertain)

interpretation mark: consequential_op "mark_execution_launch_unknown v h" "s_mark_execution_launch_unknown v h"
    "''execution launch UNKNOWN transition''" for v h
  unfolding mark_execution_launch_unknown_def s_mark_execution_launch_unknown_def
  by (rule consequential_opI [OF refl], (intro op_intros refines_mark checked_arguments(3) [THEN conjunct2]; assumption)[1], (intro op_intros)[1])
    (intro certain_argument certain_transitions checked_arguments(3) [THEN conjunct2];
      (assumption | erule argument_not_uncertain))

interpretation record_op: consequential_op "record_execution_terminal_result v h i"
    "s_record_execution_terminal_result v h i" "''execution terminal-result transition''" for v h i
  unfolding record_execution_terminal_result_def s_record_execution_terminal_result_def
  by (rule consequential_opI [OF refl], (intro op_intros refines_record checked_arguments(3) [THEN conjunct2]
      checked_arguments(5) [THEN conjunct1] checked_arguments(5) [THEN conjunct2]; assumption)[1], (intro op_intros)[1])
    (intro certain_argument certain_transitions checked_arguments(3) [THEN conjunct2]
      checked_arguments(5) [THEN conjunct1] checked_arguments(5) [THEN conjunct2];
      (assumption | erule argument_not_uncertain))

end
