(* ===== verification/Authority_History.thy ===== *)
theory Authority_History
  imports Authority_Contract
begin

text \<open>
  What the sequence of all calls on a store can do: the facts that hold of every valid store
  (\<open>authority_ok\<close>), the order in which its abstract state can only move forward
  (\<open>auth_le\<close>), and histories of requests by any number of handles, each with its own faults.
\<close>

section \<open>Facts of a valid store\<close>

text \<open>
  Launches presuppose admissions, admissions presuppose bindings and generations, bindings
  presuppose registered keys; a launch agrees with its key's binding and admission.
\<close>

definition launch_agrees :: "auth \<Rightarrow> pystr \<Rightarrow> ExecutionLaunch \<Rightarrow> bool" where
  "launch_agrees a k l \<longleftrightarrow> lch_key l = k \<and> launch_fields_ok l \<and> bindings a k = Some (lch_hash l)
     \<and> admissions a k = Some (lch_scope l, lch_generation l)"

definition admission_agrees :: "auth \<Rightarrow> pystr \<Rightarrow> pystr \<times> int \<Rightarrow> bool" where
  "admission_agrees a k x \<longleftrightarrow> k \<in> registered a \<and> bindings a k \<noteq> None
     \<and> (case generations a (fst x) of None \<Rightarrow> False | Some g \<Rightarrow> snd x \<le> g \<and> 0 < snd x)"

definition authority_ok :: "auth \<Rightarrow> bool" where
  "authority_ok a \<longleftrightarrow>
     (\<forall>s g. generations a s = Some g \<longrightarrow> s \<noteq> [] \<and> 0 < g \<and> g \<le> max_generation)
     \<and> (\<forall>k h. bindings a k = Some h \<longrightarrow> k \<in> registered a \<and> h \<noteq> [] \<and> encodable h)
     \<and> (\<forall>k x. admissions a k = Some x \<longrightarrow> admission_agrees a k x)
     \<and> (\<forall>k l. launches a k = Some l \<longrightarrow> launch_agrees a k l)"

lemma row_of_key:
  assumes "distinct (map key rows)" "\<exists>r\<in>set rows. key r = SText k"
  obtains r where "row_by key k rows = Some r" "\<And>q. q \<in> set rows \<Longrightarrow> key q = SText k \<Longrightarrow> q = r"
proof -
  obtain r where r: "r \<in> set rows" "key r = SText k" using assms(2) by blast
  note found = row_by_unique [OF assms(1) this]
  have "q = r" if "q \<in> set rows" "key q = SText k" for q
    using row_by_unique [OF assms(1) that] found by simp
  with found show thesis by (rule that)
qed

lemma adm_agrees:
  assumes "store_valid d" "adm_valid d r" "ar_key r = SText k" "ar_scope r = SText s" "ar_generation r = SInteger g"
    "0 < g"
  shows "admission_agrees (abs_of d) k (s, g)"
proof -
  have dist: "distinct (map kr_key (t_keys d))" "distinct (map br_key (t_binds d))" "distinct (map gr_scope (t_gens d))"
    using assms(1) by (simp_all add: store_valid_parts integrity_check_def)
  have e: "\<exists>e\<in>set (t_keys d). kr_key e = SText k" and b: "\<exists>b\<in>set (t_binds d). br_key b = SText k"
    and q: "\<exists>q\<in>set (t_gens d). gr_scope q = SText s"
    and le: "\<And>q. q \<in> set (t_gens d) \<Longrightarrow> gr_scope q = SText s \<Longrightarrow> generation_le (SInteger g) (gr_generation q)"
    using assms(2-5) by (auto simp: adm_valid_def)
  obtain e' where "row_by kr_key k (t_keys d) = Some e'" by (rule row_of_key [OF dist(1) e])
  then have "k \<in> registered (abs_of d)" using valid_key_row(3) assms(1) by blast
  moreover obtain b' where "row_by br_key k (t_binds d) = Some b'" by (rule row_of_key [OF dist(2) b])
  then have "bindings (abs_of d) k \<noteq> None" using valid_bind_row [OF assms(1)] by fastforce
  moreover obtain q' where q': "row_by gr_scope s (t_gens d) = Some q'" by (rule row_of_key [OF dist(3) q])
  then obtain n where "gr_generation q' = SInteger n" "generations (abs_of d) s = Some n"
    using valid_gen_row [OF assms(1)] by blast
  moreover from this have "g \<le> n" using le row_by_Some [OF q'] by force
  ultimately show ?thesis using assms(6) by (simp add: admission_agrees_def)
qed

lemma launch_agrees_row:
  assumes "store_valid d" "launch_valid d (row_of_launch l)" "launch_fields_ok l"
  shows "launch_agrees (abs_of d) (lch_key l) l"
proof -
  have dist: "distinct (map ar_key (t_adms d))" "distinct (map br_key (t_binds d))"
    using assms(1) by (simp_all add: store_valid_parts integrity_check_def)
  have cols: "lr_key (row_of_launch l) = SText (lch_key l)" "lr_hash (row_of_launch l) = SText (lch_hash l)"
    "lr_scope (row_of_launch l) = SText (lch_scope l)" "lr_generation (row_of_launch l) = SInteger (lch_generation l)"
    by (simp_all add: row_of_launch_def)
  let ?k = "SText (lch_key l)"
  have valid: "\<exists>b\<in>set (t_binds d). br_key b = ?k" "\<exists>a\<in>set (t_adms d). ar_key a = ?k"
    "\<forall>b\<in>set (t_binds d). br_key b = ?k \<longrightarrow> br_hash b = SText (lch_hash l)"
    "\<forall>a\<in>set (t_adms d). ar_key a = ?k \<longrightarrow>
       ar_scope a = SText (lch_scope l) \<and> ar_generation a = SInteger (lch_generation l)"
    using assms(2) unfolding launch_valid_def cols by simp_all
  obtain b where b: "row_by br_key (lch_key l) (t_binds d) = Some b"
    by (rule row_of_key [OF dist(2) valid(1)])
  with valid(3) row_by_Some [OF b] have "br_hash b = SText (lch_hash l)" by simp
  then have "bindings (abs_of d) (lch_key l) = Some (lch_hash l)" using b by (simp add: abs_of_def)
  moreover obtain a where a: "row_by ar_key (lch_key l) (t_adms d) = Some a"
    by (rule row_of_key [OF dist(1) valid(2)])
  with valid(4) row_by_Some [OF a] have "ar_scope a = SText (lch_scope l)"
    "ar_generation a = SInteger (lch_generation l)" by simp_all
  then have "admissions (abs_of d) (lch_key l) = Some (lch_scope l, lch_generation l)"
    using a by (simp add: abs_of_def)
  ultimately show ?thesis using assms(3) by (simp add: launch_agrees_def)
qed

lemma valid_authority_ok:
  assumes "store_valid d"
  shows "authority_ok (abs_of d)"
  unfolding authority_ok_def
proof (intro conjI allI impI)
  fix s g assume g: "generations (abs_of d) s = Some g"
  then obtain r where r: "row_by gr_scope s (t_gens d) = Some r"
    by (cases "row_by gr_scope s (t_gens d)") (simp_all add: abs_of_None)
  then have "text_nonempty (SText s)"
    using row_by_Some [OF r] assms by (auto simp: store_valid_parts gens_valid_def gen_valid_def)
  then show "s \<noteq> []" by simp
  show "0 < g" "g \<le> max_generation" using valid_gen_row [OF assms r] g by (metis option.inject)+
next
  fix k h assume h: "bindings (abs_of d) k = Some h"
  then obtain r where r: "row_by br_key k (t_binds d) = Some r"
    by (cases "row_by br_key k (t_binds d)") (simp_all add: abs_of_None)
  then show "h \<noteq> []" "encodable h" using valid_bind_row [OF assms r] h by (metis option.inject)+
  have "bind_valid d r" "br_key r = SText k"
    using row_by_Some [OF r] assms by (auto simp: store_valid_parts binds_valid_def)
  then have found: "\<exists>e\<in>set (t_keys d). kr_key e = SText k" by (simp add: bind_valid_def)
  have "distinct (map kr_key (t_keys d))" using assms by (simp add: store_valid_parts integrity_check_def)
  then obtain e where "row_by kr_key k (t_keys d) = Some e"
    using found by (rule row_of_key)
  then show "k \<in> registered (abs_of d)" using valid_key_row(3) assms by blast
next
  fix k x assume x: "admissions (abs_of d) k = Some x"
  then obtain r where r: "row_by ar_key k (t_adms d) = Some r"
    by (cases "row_by ar_key k (t_adms d)") (simp_all add: abs_of_None)
  then have "adm_valid d r" using row_by_Some [OF r] assms by (auto simp: store_valid_parts adms_valid_def)
  moreover obtain s g where "ar_key r = SText k" "ar_scope r = SText s" "ar_generation r = SInteger g"
    "0 < g" "admissions (abs_of d) k = Some (s, g)"
    using valid_adm_row [OF assms r] by blast
  ultimately show "admission_agrees (abs_of d) k x" using adm_agrees [OF assms] x by auto
next
  fix k l assume l: "launches (abs_of d) k = Some l"
  then obtain r where r: "row_by lr_key k (t_launches d) = Some r"
    by (cases "row_by lr_key k (t_launches d)") (simp_all add: abs_of_None)
  then have "launch_valid d r" using row_by_Some [OF r] assms by (auto simp: store_valid_parts launches_valid_def)
  with valid_launch_row [OF assms r] l show "launch_agrees (abs_of d) k l"
    using launch_agrees_row [OF assms] by (metis option.inject)
qed

section \<open>The order of histories\<close>

text \<open>A launch keeps its identity, and a terminal one does not change at all.\<close>

definition launch_le :: "ExecutionLaunch \<Rightarrow> ExecutionLaunch \<Rightarrow> bool" where
  "launch_le l m \<longleftrightarrow> lch_key l = lch_key m \<and> lch_hash l = lch_hash m \<and> lch_scope l = lch_scope m
     \<and> lch_generation l = lch_generation m \<and> lch_state l \<le> lch_state m
     \<and> (lch_state l = lch_state m \<longrightarrow> l = m)"

definition auth_le :: "auth \<Rightarrow> auth \<Rightarrow> bool" where
  "auth_le a b \<longleftrightarrow>
     (\<forall>s g. generations a s = Some g \<longrightarrow> (\<exists>h\<ge>g. generations b s = Some h))
     \<and> registered a \<subseteq> registered b \<and> bindings a \<subseteq>\<^sub>m bindings b \<and> admissions a \<subseteq>\<^sub>m admissions b
     \<and> (\<forall>k l. launches a k = Some l \<longrightarrow> (\<exists>m. launches b k = Some m \<and> launch_le l m))"

lemma launch_le_refl [simp]: "launch_le l l"
  by (simp add: launch_le_def)

lemma launch_le_trans: "launch_le l m \<Longrightarrow> launch_le m n \<Longrightarrow> launch_le l n"
  unfolding launch_le_def by (metis order_antisym order_trans)

lemma auth_le_refl [simp]: "auth_le a a"
  by (auto simp: auth_le_def)

lemma auth_le_trans:
  assumes "auth_le a b" "auth_le b c"
  shows "auth_le a c"
  unfolding auth_le_def
proof (intro conjI allI impI)
  fix s g assume "generations a s = Some g"
  then show "\<exists>h\<ge>g. generations c s = Some h"
    using assms unfolding auth_le_def by (meson order_trans)
next
  fix k l assume "launches a k = Some l"
  then show "\<exists>m. launches c k = Some m \<and> launch_le l m"
    using assms unfolding auth_le_def by (meson launch_le_trans)
qed (use assms in \<open>auto simp: auth_le_def intro: map_le_trans\<close>)

lemma map_le_new: "m k = None \<Longrightarrow> m \<subseteq>\<^sub>m m(k \<mapsto> v)"
  by (auto simp: map_le_def)

definition forward :: "(auth, 'a) prog \<Rightarrow> bool" where
  "forward p \<longleftrightarrow> (\<forall>a. auth_le a (snd (p a)))"

lemma forward_transition:
  assumes "\<And>l. lch_state l = st \<Longrightarrow> launch_le l (f l)"
  shows "forward (a_transition k h st f)"
  using assms by (auto simp: forward_def a_transition_def a_param_def run_combinators auth_le_def split: option.splits)

lemma rank_order: "INTENT \<le> x" "x \<le> TERMINAL"
  by (cases x; simp add: less_eq_ExecutionLaunchState_def)+

lemma forward_case: "forward p \<longleftrightarrow> (\<forall>a r b. p a = (r, b) \<longrightarrow> auth_le a b)"
  unfolding forward_def by (metis prod.collapse snd_conv)

lemma forward_sq:
  assumes "\<And>a. snd (p a) = a" "forward q"
  shows "forward (sq p q)"
  unfolding forward_def
proof
  fix a
  show "auth_le a (snd (sq p q a))"
    using assms(1) [of a] assms(2) by (cases "p a"; cases "fst (p a)") (auto simp: run_sq forward_def)
qed

lemma forward_param: "forward q \<Longrightarrow> forward (sq (a_param ps) q)"
  by (rule forward_sq) (simp_all add: run_param)

lemma forward_registered: "forward q \<Longrightarrow> forward (sq (a_registered k) q)"
  by (rule forward_sq) (simp_all add: registered_same)

lemma forward_writes [intro]:
  "forward (a_acquire s)" "forward (a_register k)" "forward (a_bind k h)"
  unfolding a_acquire_def a_register_def a_bind_def
  by (intro forward_param forward_registered;
      auto simp: forward_def auth_le_def map_le_new split: option.splits)+

lemma forward_admit [intro]: "forward (a_admit k s g)"
  unfolding a_admit_def
  by (intro forward_registered) (auto simp: forward_def auth_le_def run_sq run_param map_le_new split: option.split)

lemma forward_claim [intro]: "forward (a_claim k s g h)"
  unfolding a_claim_def
  by (intro forward_registered) (auto simp: forward_def auth_le_def run_sq run_param)

lemma forward_transitions [intro]: "forward (a_mark k h)" "forward (a_record k h i)"
  unfolding a_mark_def a_record_def by (rule forward_transition, simp add: launch_le_def rank_order)+

lemma forward_reads [intro]:
  "forward (a_read_generation s)" "forward (a_exists k)" "forward (a_read_hash k)"
  "forward (a_read_admission k)" "forward (a_read_launch k)"
  by (auto simp: forward_def a_op_defs run_combinators split: sum.splits)

lemma forward_argument [intro]: "(\<And>x. forward (f x)) \<Longrightarrow> forward (bnd (of_result v) f)"
  by (cases v) (simp_all add: forward_def run_combinators)

lemma forward_specs [intro]:
  "forward (s_acquire_generation v)" "forward (s_read_generation v)" "forward (s_register_execution_key v)"
  "forward (s_execution_key_exists v)" "forward (s_bind_command_spec_hash v h)" "forward (s_read_command_spec_hash v)"
  "forward (s_admit_execution v w g)" "forward (s_read_execution_admission v)" "forward (s_claim_execution_launch v w g h)"
  "forward (s_mark_execution_launch_unknown v h)" "forward (s_record_execution_terminal_result v h i)"
  "forward (s_read_execution_launch v)"
  unfolding s_op_defs by (intro forward_argument forward_writes forward_admit forward_claim forward_transitions forward_reads)+

section \<open>Histories\<close>

datatype request =
    Acquire_generation pyval
  | Read_generation pyval
  | Is_current_generation pyval pyval
  | Register_execution_key pyval
  | Execution_key_exists pyval
  | Bind_command_spec_hash pyval pyval
  | Read_command_spec_hash pyval
  | Admit_execution pyval pyval pyval
  | Read_execution_admission pyval
  | Claim_execution_launch pyval pyval pyval pyval
  | Mark_execution_launch_unknown pyval pyval
  | Record_execution_terminal_result pyval pyval pyval
  | Read_execution_launch pyval

definition discard :: "('s, 'a) prog \<Rightarrow> ('s, unit) prog" where
  "discard m = bnd m (\<lambda>_. ret ())"

fun run_request :: "request \<Rightarrow> (store, unit) prog" where
  "run_request (Acquire_generation v) = discard (acquire_generation v)"
| "run_request (Read_generation v) = discard (read_generation v)"
| "run_request (Is_current_generation v g) = discard (is_current_generation v g)"
| "run_request (Register_execution_key v) = discard (register_execution_key v)"
| "run_request (Execution_key_exists v) = discard (execution_key_exists v)"
| "run_request (Bind_command_spec_hash v h) = discard (bind_command_spec_hash v h)"
| "run_request (Read_command_spec_hash v) = discard (read_command_spec_hash v)"
| "run_request (Admit_execution v w g) = discard (admit_execution v w g)"
| "run_request (Read_execution_admission v) = discard (read_execution_admission v)"
| "run_request (Claim_execution_launch v w g h) = discard (claim_execution_launch v w g h)"
| "run_request (Mark_execution_launch_unknown v h) = discard (mark_execution_launch_unknown v h)"
| "run_request (Record_execution_terminal_result v h i) = discard (record_execution_terminal_result v h i)"
| "run_request (Read_execution_launch v) = discard (read_execution_launch v)"

lemma discard_state: "snd (discard m s) = snd (m s)"
  by (simp add: discard_def run_combinators split: prod.split sum.split)

definition advances :: "database \<Rightarrow> database \<Rightarrow> bool" where
  "advances d d' \<longleftrightarrow> d' = d \<or> store_valid d \<and> store_valid d' \<and> auth_le (abs_of d) (abs_of d')"

context durable_op
begin

lemma call_advances: "forward spec \<Longrightarrow> handle_ok s \<Longrightarrow> advances (durable s) (durable (snd (call s)))"
  using any_handle [of s "fst (call s)" "snd (call s)"]
  by (auto simp: advances_def effect_def forward_case)

end

lemma is_current_state:
  "snd (is_current_generation v g s) = s \<or> snd (is_current_generation v g s) = snd (read_generation v s)"
  by (auto simp: is_current_generation_def run_combinators require_usable_connection_def
      split: sum.split option.split prod.split)

lemmas request_advances = acquire.call_advances read_gen.call_advances register.call_advances
  key_exists.call_advances bind_op.call_advances read_hash.call_advances admit.call_advances
  read_adm.call_advances claim.call_advances mark.call_advances record_op.call_advances
  read_launch.call_advances

lemma run_request_advances:
  assumes "handle_ok s"
  shows "advances (durable s) (durable (snd (run_request q s)))"
proof (cases q)
  case (Is_current_generation v g)
  then show ?thesis
    using is_current_state [of v g s] read_gen.call_advances [OF forward_specs(2) assms, of v]
    by (auto simp: discard_state advances_def)
qed (auto simp: discard_state intro: request_advances assms)

text \<open>
  A history: requests on one durable database by any handles, in any state, with any faults
  and any other writers. Between requests a handle may be opened, closed or lost: each step
  takes a handle from nowhere and forgets it.
\<close>

inductive history :: "database \<Rightarrow> database \<Rightarrow> bool" where
  begin_history: "history d d"
| request: "history d (durable s) \<Longrightarrow> handle_ok s \<Longrightarrow> run_request q s = (r, s') \<Longrightarrow> history d (durable s')"

inductive_cases history_step: "history d e"

lemma history_trans: "history b c \<Longrightarrow> history a b \<Longrightarrow> history a c"
  by (induction rule: history.induct) (auto intro: history.request)

lemma history_advances: "history d e \<Longrightarrow> advances d e"
proof (induction rule: history.induct)
  case (begin_history d)
  show ?case by (simp add: advances_def)
next
  case (request d s q r s')
  then show ?case
    using run_request_advances [of s q] by (auto simp: advances_def intro: auth_le_trans)
qed

end
