(* ===== verification/Authority_Exact.thy ===== *)
theory Authority_Exact
  imports Authority_History
begin

text \<open>
  Without failures the methods do exactly what their specifications say, errors included.
  \<open>exact_op\<close> extends the contract of \<open>Authority_Contract\<close> by this clause; every method is
  interpreted. \<open>translate\<close> is what the method's \<open>except\<close> clauses make of an error.
\<close>

definition exact_call :: "(exn \<Rightarrow> exn) \<Rightarrow> (store, 'a) prog \<Rightarrow> (auth, 'a) prog \<Rightarrow> bool" where
  "exact_call translate m a \<longleftrightarrow>
     (\<forall>s. no_faults s \<longrightarrow> quiet_outcome translate a s (fst (m s)) (snd (m s)))"

definition wrap :: "string \<Rightarrow> exn \<Rightarrow> exn" where
  "wrap message e = (if e = DatabaseError then AuthorityStoreError message else e)"

lemma exact_transaction [impl_intros]:
  "b = begin_immediate \<or> b = begin_deferred \<Longrightarrow> refines body a \<Longrightarrow>
   exact_call (wrap message) (transaction b message body) a"
  unfolding exact_call_def wrap_def [abs_def] using transaction_quiet [of _ body a b message] by simp

lemma exact_consequential [impl_intros]:
  "refines body a \<Longrightarrow> exact_call id (consequential operation body) a"
  unfolding exact_call_def id_def by (auto intro!: consequential_quiet)

lemma exact_argument [impl_intros]:
  assumes "\<And>x. v = Inr x \<Longrightarrow> exact_call t (f x) (a x)" "\<And>e. v = Inl e \<Longrightarrow> t e = e"
  shows "exact_call t (bnd (of_result v) f) (bnd (of_result v) a)"
proof (cases v)
  case (Inl e)
  then show ?thesis using assms(2)
    by (auto simp: exact_call_def run_combinators quiet_outcome_def no_faults_def)
next
  case (Inr x)
  then show ?thesis using assms(1) by (simp add: bnd_of_Inr)
qed

lemma exact_usable: "exact_call t m a \<Longrightarrow> exact_call t (sq require_usable_connection m) a"
  by (simp add: exact_call_def run_sq usable no_faults_def)

lemma argument_plain [impl_intros]:
  "validate_scope v = Inl e \<Longrightarrow> wrap m e = e"
  "validate_execution_key v = Inl e \<Longrightarrow> wrap m e = e"
  "validate_command_spec_hash v = Inl e \<Longrightarrow> wrap m e = e"
  "validate_controller_generation v = Inl e \<Longrightarrow> wrap m e = e"
  by (auto simp: wrap_def validate_scope_def validate_execution_key_def validate_command_spec_hash_def
      validate_controller_generation_def split: option.splits if_splits)

locale exact_op = durable_op +
  fixes translate :: "exn \<Rightarrow> exn"
  assumes exact: "exact_call translate call spec"
begin

lemma succeeds:
  assumes "no_faults s" "spec (abs_of (durable s)) = (Inr x, a')"
  obtains s' where "call s = (Inr x, s')" "no_faults s'" "abs_of (durable s') = a'"
  using exact assms
  by (cases "call s") (auto simp: exact_call_def quiet_outcome_def no_faults_def dest!: spec [of _ s])

lemma fails:
  assumes "no_faults s" "spec (abs_of (durable s)) = (Inl e, a')"
  obtains s' where "call s = (Inl (translate e), s')" "durable s' = durable s" "handled e \<Longrightarrow> no_faults s'"
  using exact assms
  by (cases "call s") (auto simp: exact_call_def quiet_outcome_def no_faults_def dest!: spec [of _ s])

text \<open>The method and its specification agree on every input.\<close>

lemma same_result:
  assumes "no_faults s"
  shows "fst (call s) = (case fst (spec (abs_of (durable s))) of Inl e \<Rightarrow> Inl (translate e) | Inr x \<Rightarrow> Inr x)"
  using exact assms
  by (auto simp: exact_call_def quiet_outcome_def dest!: spec [of _ s] split: sum.splits)

end

lemma exact_opI:
  "durable_op call a \<Longrightarrow> call = sq require_usable_connection m \<Longrightarrow> exact_call t m a \<Longrightarrow> exact_op call a t"
  by (intro exact_op.intro exact_op_axioms.intro) (auto intro: exact_usable)

lemma begin_choice [impl_intros]:
  "begin_immediate = begin_immediate \<or> begin_immediate = begin_deferred"
  "begin_deferred = begin_immediate \<or> begin_deferred = begin_deferred"
  by simp_all

lemmas exact_intros = exact_transaction exact_consequential exact_argument begin_choice
  refines_read_generation refines_exists refines_read_hash refines_read_admission refines_claim
  refines_read_launch

interpretation acquire: exact_op "acquire_generation v" "s_acquire_generation v" "wrap ''generation acquisition failed''" for v
  by (rule exact_opI [OF acquire.durable_op_axioms acquire_generation_def])
    (unfold s_acquire_generation_def, intro exact_intros refines_acquire checked_arguments; (assumption | erule argument_plain))

interpretation read_gen: exact_op "read_generation v" "s_read_generation v" "wrap ''generation read failed''" for v
  by (rule exact_opI [OF read_gen.durable_op_axioms read_generation_def])
    (unfold s_read_generation_def, intro exact_intros; erule argument_plain)

interpretation register: exact_op "register_execution_key v" "s_register_execution_key v"
    "wrap ''ExecutionKey registration failed''" for v
  by (rule exact_opI [OF register.durable_op_axioms register_execution_key_def])
    (unfold s_register_execution_key_def, intro exact_intros refines_register checked_arguments; (assumption | erule argument_plain))

interpretation key_exists: exact_op "execution_key_exists v" "s_execution_key_exists v"
    "wrap ''ExecutionKey existence read failed''" for v
  by (rule exact_opI [OF key_exists.durable_op_axioms execution_key_exists_def])
    (unfold s_execution_key_exists_def, intro exact_intros; erule argument_plain)

interpretation bind_op: exact_op "bind_command_spec_hash v w" "s_bind_command_spec_hash v w"
    "wrap ''CommandSpecHash binding failed''" for v w
  by (rule exact_opI [OF bind_op.durable_op_axioms bind_command_spec_hash_def])
    (unfold s_bind_command_spec_hash_def, intro exact_intros refines_bind checked_arguments(3) [THEN conjunct1]
      checked_arguments(3) [THEN conjunct2]; (assumption | erule argument_plain))

interpretation read_hash: exact_op "read_command_spec_hash v" "s_read_command_spec_hash v"
    "wrap ''CommandSpecHash read failed''" for v
  by (rule exact_opI [OF read_hash.durable_op_axioms read_command_spec_hash_def])
    (unfold s_read_command_spec_hash_def, intro exact_intros; erule argument_plain)

interpretation admit: exact_op "admit_execution v w g" "s_admit_execution v w g" "wrap ''execution admission failed''" for v w g
  by (rule exact_opI [OF admit.durable_op_axioms admit_execution_def])
    (unfold s_admit_execution_def, intro exact_intros refines_admit checked_arguments(1)
      checked_arguments(4) [THEN conjunct1] checked_arguments(4) [THEN conjunct2]; (assumption | erule argument_plain))

interpretation read_adm: exact_op "read_execution_admission v" "s_read_execution_admission v"
    "wrap ''execution admission read failed''" for v
  by (rule exact_opI [OF read_adm.durable_op_axioms read_execution_admission_def])
    (unfold s_read_execution_admission_def, intro exact_intros; erule argument_plain)

interpretation read_launch: exact_op "read_execution_launch v" "s_read_execution_launch v"
    "wrap ''execution launch read failed''" for v
  by (rule exact_opI [OF read_launch.durable_op_axioms read_execution_launch_def])
    (unfold s_read_execution_launch_def, intro exact_intros; erule argument_plain)

interpretation claim: exact_op "claim_execution_launch v w g h" "s_claim_execution_launch v w g h" id for v w g h
  by (rule exact_opI [OF claim.durable_op_axioms claim_execution_launch_def])
    (unfold s_claim_execution_launch_def, intro exact_intros; simp)

interpretation mark: exact_op "mark_execution_launch_unknown v h" "s_mark_execution_launch_unknown v h" id for v h
  by (rule exact_opI [OF mark.durable_op_axioms mark_execution_launch_unknown_def])
    (unfold s_mark_execution_launch_unknown_def, intro exact_intros refines_mark checked_arguments(3) [THEN conjunct2];
      (assumption | simp))

interpretation record_op: exact_op "record_execution_terminal_result v h i" "s_record_execution_terminal_result v h i" id for v h i
  by (rule exact_opI [OF record_op.durable_op_axioms record_execution_terminal_result_def])
    (unfold s_record_execution_terminal_result_def, intro exact_intros refines_record checked_arguments(3) [THEN conjunct2]
      checked_arguments(5) [THEN conjunct1] checked_arguments(5) [THEN conjunct2]; (assumption | simp))

end
