(* ===== verification/Local_Command.thy ===== *)
theory Local_Command
  imports Umb_Errors Py_Bytes "HOL-Library.List_Lexorder" "HOL-Library.Multiset"
begin

text \<open>
  The command half of \<open>master/buildbot/umbilical_local_execution.py\<close>: validation and snapshot
  of a \<open>LocalCommandSpec\<close>, its canonical bytes and its hash. \<open>os.path.isabs\<close> depends on the
  platform and is a parameter. Byte strings are compared by the lexicographic order of lists.
\<close>

section \<open>Commands\<close>

record LocalCommandSpec =
  executable :: pystr
  argv :: "pystr list"
  working_directory :: pystr
  environment :: "(pystr \<times> pystr) list"
  timeout_seconds :: int

definition command_spec_domain :: "byte list" where
  "command_spec_domain = bytes_of ''umbilical-local-command-spec-v1'' @ [0]"

text \<open>\<open>forbid_nul\<close> is true in every call of \<open>_validate_text\<close>; it is kept as a parameter.\<close>

definition validate_text :: "bool \<Rightarrow> bool \<Rightarrow> pyval \<Rightarrow> exn + byte list" where
  "validate_text allow_empty forbid_nul v = (case exact_str v of
       None \<Rightarrow> Inl InvalidLocalCommandSpecError
     | Some s \<Rightarrow>
         if \<not> allow_empty \<and> s = [] then Inl InvalidLocalCommandSpecError
         else if forbid_nul \<and> 0 \<in> set s then Inl InvalidLocalCommandSpecError
         else (case utf8_encode s of
             None \<Rightarrow> Inl InvalidLocalCommandSpecError
           | Some encoded \<Rightarrow>
               if length encoded > max_framed then Inl InvalidLocalCommandSpecError else Inr encoded))"

definition text_value_of :: "pyval \<Rightarrow> pystr" where
  "text_value_of v = (case exact_str v of Some s \<Rightarrow> s | None \<Rightarrow> [])"

text \<open>One pass of the loop over the environment in \<open>__post_init__\<close>; 61 is the code of \<open>=\<close>.\<close>

definition environment_item :: "byte list option \<Rightarrow> pystr list \<Rightarrow> pyval \<Rightarrow> exn + byte list \<times> pystr \<times> pystr" where
  "environment_item previous_key_bytes seen_keys item = (case item of
       PyTuple [name, val] \<Rightarrow>
         and_then (validate_text False True name) (\<lambda>name_bytes.
         and_then (check_that (61 \<notin> set (text_value_of name)) InvalidLocalCommandSpecError) (\<lambda>_.
         and_then (validate_text True True val) (\<lambda>_.
         and_then (check_that (text_value_of name \<notin> set seen_keys) InvalidLocalCommandSpecError) (\<lambda>_.
         and_then (check_that (case previous_key_bytes of None \<Rightarrow> True | Some p \<Rightarrow> \<not> name_bytes \<le> p)
           InvalidLocalCommandSpecError) (\<lambda>_.
         Inr (name_bytes, text_value_of name, text_value_of val))))))
     | _ \<Rightarrow> Inl InvalidLocalCommandSpecError)"

primrec environment_loop ::
  "byte list option \<Rightarrow> pystr list \<Rightarrow> pyval list \<Rightarrow> exn + (pystr \<times> pystr) list" where
  "environment_loop previous_key_bytes seen_keys [] = Inr []"
| "environment_loop previous_key_bytes seen_keys (item # items) =
     and_then (environment_item previous_key_bytes seen_keys item) (\<lambda>(name_bytes, name, val).
     and_then (environment_loop (Some name_bytes) (name # seen_keys) items) (\<lambda>rest.
     Inr ((name, val) # rest)))"

definition exact_tuple :: "pyval \<Rightarrow> exn + pyval list" where
  "exact_tuple v = (case v of PyTuple vs \<Rightarrow> Inr vs | _ \<Rightarrow> Inl InvalidLocalCommandSpecError)"

definition validate_timeout :: "pyval \<Rightarrow> exn + int" where
  "validate_timeout v = (case exact_int v of
       None \<Rightarrow> Inl InvalidLocalCommandSpecError
     | Some t \<Rightarrow> if t \<le> 0 then Inl InvalidLocalCommandSpecError
         else if t > int max_framed then Inl InvalidLocalCommandSpecError else Inr t)"

text \<open>The constructor: the generated \<open>__init__\<close> with \<open>__post_init__\<close>.\<close>

definition make_command_spec ::
  "(pystr \<Rightarrow> bool) \<Rightarrow> pyval \<Rightarrow> pyval \<Rightarrow> pyval \<Rightarrow> pyval \<Rightarrow> pyval \<Rightarrow> exn + LocalCommandSpec" where
  "make_command_spec isabs executable_arg argv_arg working_directory_arg environment_arg timeout_arg =
     and_then (validate_text False True executable_arg) (\<lambda>_.
     and_then (check_that (isabs (text_value_of executable_arg)) InvalidLocalCommandSpecError) (\<lambda>_.
     and_then (exact_tuple argv_arg) (\<lambda>arguments.
     and_then (check_that (arguments \<noteq> []) InvalidLocalCommandSpecError) (\<lambda>_.
     and_then (all_results (validate_text True True) arguments) (\<lambda>_.
     and_then (validate_text False True working_directory_arg) (\<lambda>_.
     and_then (check_that (isabs (text_value_of working_directory_arg)) InvalidLocalCommandSpecError) (\<lambda>_.
     and_then (exact_tuple environment_arg) (\<lambda>items.
     and_then (environment_loop None [] items) (\<lambda>env.
     and_then (validate_timeout timeout_arg) (\<lambda>timeout.
     Inr \<lparr>executable = text_value_of executable_arg, argv = map text_value_of arguments,
          working_directory = text_value_of working_directory_arg, environment = env,
          timeout_seconds = timeout\<rparr>))))))))))"

section \<open>Snapshots of caller-owned containers\<close>

text \<open>
  \<open>tuple(argv)\<close> for the values the model has: tuples, lists and the keys of a dictionary can
  be iterated; text and bytes are refused before; everything else raises \<open>TypeError\<close>.
\<close>

definition freeze_argv :: "pyval \<Rightarrow> exn + pyval" where
  "freeze_argv v = (case v of
       PyTuple vs \<Rightarrow> Inr (PyTuple vs)
     | PyList vs \<Rightarrow> Inr (PyTuple vs)
     | PyDict items \<Rightarrow> Inr (PyTuple (map fst items))
     | _ \<Rightarrow> Inl InvalidLocalCommandSpecError)"

definition environment_items :: "pyval \<Rightarrow> exn + (pyval \<times> pyval) list" where
  "environment_items v = (case v of PyDict items \<Rightarrow> Inr items | _ \<Rightarrow> Inl InvalidLocalCommandSpecError)"

primrec snapshot_loop ::
  "pystr list \<Rightarrow> (pyval \<times> pyval) list \<Rightarrow> exn + (byte list \<times> pystr \<times> pystr) list" where
  "snapshot_loop seen_names [] = Inr []"
| "snapshot_loop seen_names (item # items) =
     and_then (environment_item None seen_names (PyTuple [fst item, snd item])) (\<lambda>(name_bytes, name, val).
     and_then (snapshot_loop (name # seen_names) items) (\<lambda>rest.
     Inr ((name_bytes, name, val) # rest)))"

definition snapshot ::
  "(pystr \<Rightarrow> bool) \<Rightarrow> pyval \<Rightarrow> pyval \<Rightarrow> pyval \<Rightarrow> pyval \<Rightarrow> pyval \<Rightarrow> exn + LocalCommandSpec" where
  "snapshot isabs executable_arg argv_arg working_directory_arg environment_arg timeout_arg =
     and_then (freeze_argv argv_arg) (\<lambda>frozen_argv.
     and_then (environment_items environment_arg) (\<lambda>items.
     and_then (snapshot_loop [] items) (\<lambda>validated_items.
     make_command_spec isabs executable_arg frozen_argv working_directory_arg
       (PyTuple (map (\<lambda>(_, name, val). PyTuple [PyStr name, PyStr val]) (sort_key fst validated_items)))
       timeout_arg)))"

section \<open>Canonical bytes and hash\<close>

definition frame_bytes :: "byte list \<Rightarrow> exn + byte list" where
  "frame_bytes v = (if length v > max_framed then Inl InvalidLocalCommandSpecError
     else Inr (be_bytes 8 (length v) @ v))"

definition frame_text :: "bool \<Rightarrow> pystr \<Rightarrow> exn + byte list" where
  "frame_text allow_empty s = and_then (validate_text allow_empty True (PyStr s)) frame_bytes"

definition frame_field :: "string \<Rightarrow> pystr \<Rightarrow> exn + byte list" where
  "frame_field name val = and_then (frame_bytes (bytes_of name)) (\<lambda>framed_name.
     and_then (frame_text False val) (\<lambda>framed_value. Inr (framed_name @ framed_value)))"

definition unsigned8 :: "nat \<Rightarrow> exn + byte list" where
  "unsigned8 n = (case to_bytes8 n of None \<Rightarrow> Inl OverflowError | Some b \<Rightarrow> Inr b)"

definition frame_environment_item :: "pystr \<times> pystr \<Rightarrow> exn + byte list" where
  "frame_environment_item item = and_then (frame_text False (fst item)) (\<lambda>n.
     and_then (frame_text True (snd item)) (\<lambda>v. Inr (n @ v)))"

definition canonical_command_spec_bytes :: "LocalCommandSpec \<Rightarrow> exn + byte list" where
  "canonical_command_spec_bytes spec =
     and_then (frame_field ''executable'' (executable spec)) (\<lambda>executable_field.
     and_then (frame_bytes (bytes_of ''argv'')) (\<lambda>argv_name.
     and_then (unsigned8 (length (argv spec))) (\<lambda>argv_length.
     and_then (all_results (frame_text True) (argv spec)) (\<lambda>arguments.
     and_then (frame_field ''working_directory'' (working_directory spec)) (\<lambda>directory_field.
     and_then (frame_bytes (bytes_of ''environment'')) (\<lambda>environment_name.
     and_then (unsigned8 (length (environment spec))) (\<lambda>environment_length.
     and_then (all_results frame_environment_item (environment spec)) (\<lambda>items.
     and_then (frame_bytes (bytes_of ''timeout_seconds'')) (\<lambda>timeout_name.
     and_then (if timeout_seconds spec < 0 then Inl OverflowError else unsigned8 (nat (timeout_seconds spec))) (\<lambda>timeout_bytes.
     Inr (command_spec_domain @ executable_field @ argv_name @ argv_length @ concat arguments
       @ directory_field @ environment_name @ environment_length @ concat items
       @ timeout_name @ timeout_bytes)))))))))))"

definition command_spec_hash :: "LocalCommandSpec \<Rightarrow> exn + pystr" where
  "command_spec_hash spec = and_then (canonical_command_spec_bytes spec)
     (\<lambda>payload. Inr (py ''ucsh1:sha256:'' @ sha256_hex payload))"

section \<open>What is accepted\<close>

definition utf8 :: "pystr \<Rightarrow> byte list" where
  "utf8 s = concat (map utf8_char s)"

definition text_ok :: "bool \<Rightarrow> pystr \<Rightarrow> bool" where
  "text_ok allow_empty s \<longleftrightarrow> (allow_empty \<or> s \<noteq> []) \<and> 0 \<notin> set s \<and> encodable s \<and> frameable (utf8 s)"

definition item_ok :: "pystr \<times> pystr \<Rightarrow> bool" where
  "item_ok item \<longleftrightarrow> text_ok False (fst item) \<and> 61 \<notin> set (fst item) \<and> text_ok True (snd item)"

text \<open>A well-formed command: the invariant of \<open>LocalCommandSpec\<close> objects.\<close>

definition spec_ok :: "(pystr \<Rightarrow> bool) \<Rightarrow> LocalCommandSpec \<Rightarrow> bool" where
  "spec_ok isabs spec \<longleftrightarrow> text_ok False (executable spec) \<and> isabs (executable spec)
     \<and> argv spec \<noteq> [] \<and> list_all (text_ok True) (argv spec)
     \<and> text_ok False (working_directory spec) \<and> isabs (working_directory spec)
     \<and> list_all item_ok (environment spec) \<and> sorted_wrt (<) (map (utf8 \<circ> fst) (environment spec))
     \<and> 0 < timeout_seconds spec \<and> timeout_seconds spec \<le> int max_framed"

lemma utf8_encode_utf8: "utf8_encode s = (if encodable s then Some (utf8 s) else None)"
  by (simp add: utf8_encode_def encodable_def utf8_def)

lemma utf8_inject: "encodable s \<Longrightarrow> encodable t \<Longrightarrow> utf8 s = utf8 t \<longleftrightarrow> s = t"
  using utf8_encode_inject [of s "utf8 s" t] by (auto simp: utf8_encode_utf8)

lemma text_ok_utf8_inject: "text_ok a s \<Longrightarrow> text_ok b t \<Longrightarrow> utf8 s = utf8 t \<longleftrightarrow> s = t"
  by (simp add: text_ok_def utf8_inject)

lemma validate_text_Inr:
  "validate_text allow_empty True v = Inr b \<longleftrightarrow> (\<exists>s. v = PyStr s \<and> text_ok allow_empty s \<and> b = utf8 s)"
  by (cases v) (auto simp: validate_text_def text_ok_def utf8_encode_utf8 frameable_def split: if_splits)

lemma validate_text_Inl: "validate_text allow_empty forbid_nul v = Inl e \<Longrightarrow> e = InvalidLocalCommandSpecError"
  by (auto simp: validate_text_def split: option.splits if_splits)

lemma text_value_of_PyStr [simp]: "text_value_of (PyStr s) = s"
  by (simp add: text_value_of_def)

definition item_value :: "pystr \<times> pystr \<Rightarrow> pyval" where
  "item_value item = PyTuple [PyStr (fst item), PyStr (snd item)]"

lemma item_value_inject [simp]: "item_value a = item_value b \<longleftrightarrow> a = b"
  by (auto simp: item_value_def prod_eq_iff)

lemma map_value_inject [simp]:
  "map item_value xs = map item_value ys \<longleftrightarrow> xs = ys" "map PyStr ss = map PyStr ts \<longleftrightarrow> ss = ts"
  by (auto simp: inj_def inj_map_eq_map)

lemma environment_item_Inr:
  "environment_item p seen item = Inr (b, name, val) \<longleftrightarrow>
     item = item_value (name, val) \<and> item_ok (name, val) \<and> name \<notin> set seen \<and> b = utf8 name
     \<and> (case p of None \<Rightarrow> True | Some q \<Rightarrow> q < b)"
proof -
  have cmp: "(\<not> b \<le> q) = (q < b)" for b q :: "byte list" by (rule not_le)
  show ?thesis
    by (auto simp: environment_item_def and_then_Inr validate_text_Inr item_value_def item_ok_def cmp
        split: pyval.splits list.splits option.splits)
qed

lemma environment_loop_Inr:
  "environment_loop p seen items = Inr env \<longleftrightarrow>
     items = map item_value env \<and> list_all item_ok env \<and> set (map fst env) \<inter> set seen = {}
     \<and> sorted_wrt (<) (map (utf8 \<circ> fst) env)
     \<and> (case p of None \<Rightarrow> True | Some q \<Rightarrow> \<forall>i\<in>set env. q < utf8 (fst i))"
proof (induction items arbitrary: p seen env)
  case Nil
  show ?case by (auto split: option.splits)
next
  case (Cons item items)
  show ?case
  proof (cases env)
    case Nil
    then show ?thesis by (auto simp: and_then_Inr)
  next
    case (Cons i rest)
    obtain n v where i: "i = (n, v)" by (cases i)
    have "environment_loop p seen (item # items) = Inr env \<longleftrightarrow>
        environment_item p seen item = Inr (utf8 n, n, v) \<and> environment_loop (Some (utf8 n)) (n # seen) items = Inr rest"
      unfolding Cons i by (auto simp: and_then_Inr environment_item_Inr)
    also have "\<dots> \<longleftrightarrow> item # items = map item_value env \<and> list_all item_ok env \<and> set (map fst env) \<inter> set seen = {}
        \<and> sorted_wrt (<) (map (utf8 \<circ> fst) env)
        \<and> (case p of None \<Rightarrow> True | Some q \<Rightarrow> \<forall>i\<in>set env. q < utf8 (fst i))"
      unfolding environment_item_Inr Cons.IH Cons i
      by (cases p) (auto dest: order_less_trans)
    finally show ?thesis .
  qed
qed

lemma all_texts_Inr:
  "all_results (validate_text a True) vs = Inr bs \<longleftrightarrow>
     (\<exists>ss. vs = map PyStr ss \<and> list_all (text_ok a) ss \<and> bs = map utf8 ss)"
proof (induction vs arbitrary: bs)
  case (Cons v vs)
  show ?case
  proof
    assume "all_results (validate_text a True) (v # vs) = Inr bs"
    then obtain s ss where "v = PyStr s" "text_ok a s" "vs = map PyStr ss" "list_all (text_ok a) ss"
      "bs = utf8 s # map utf8 ss"
      by (auto simp: and_then_Inr validate_text_Inr Cons.IH)
    then show "\<exists>ss. v # vs = map PyStr ss \<and> list_all (text_ok a) ss \<and> bs = map utf8 ss"
      by (intro exI [where x = "s # ss"]) simp
  qed (auto simp: and_then_Inr validate_text_Inr Cons.IH Cons_eq_map_conv)
qed auto

text \<open>The constructor accepts exactly the values of well-formed commands.\<close>

lemma make_command_spec_Inr:
  "make_command_spec isabs e a w env t = Inr spec \<longleftrightarrow>
     spec_ok isabs spec \<and> e = PyStr (executable spec) \<and> a = PyTuple (map PyStr (argv spec))
     \<and> w = PyStr (working_directory spec) \<and> env = PyTuple (map item_value (environment spec))
     \<and> t = PyInt (timeout_seconds spec)"
proof -
  have timeout: "validate_timeout t = Inr i \<longleftrightarrow> t = PyInt i \<and> 0 < i \<and> i \<le> int max_framed" for i
    by (auto simp: validate_timeout_def split: option.splits)
  have tuple: "exact_tuple v = Inr vs \<longleftrightarrow> v = PyTuple vs" for v vs
    by (cases v) (simp_all add: exact_tuple_def)
  show ?thesis
    by (auto simp: make_command_spec_def and_then_Inr validate_text_Inr tuple all_texts_Inr timeout
        environment_loop_Inr spec_ok_def comp_def)
qed

lemma make_command_spec_Inl:
  "make_command_spec isabs e a w env t = Inl err \<Longrightarrow> err = InvalidLocalCommandSpecError"
proof -
  have item: "environment_item p seen item = Inl err \<Longrightarrow> err = InvalidLocalCommandSpecError" for p seen item
    by (auto simp: environment_item_def and_then_Inl dest: validate_text_Inl split: pyval.splits list.splits)
  have "environment_loop p seen items = Inl err \<Longrightarrow> err = InvalidLocalCommandSpecError" for p seen items
    by (induction items arbitrary: p seen) (auto simp: and_then_Inl dest: item)
  moreover have "all_results (validate_text True True) vs = Inl err \<Longrightarrow> err = InvalidLocalCommandSpecError" for vs
    by (auto dest: all_results_Inl validate_text_Inl)
  moreover have "exact_tuple v = Inl err \<Longrightarrow> err = InvalidLocalCommandSpecError" for v
    by (auto simp: exact_tuple_def split: pyval.splits)
  moreover have "validate_timeout v = Inl err \<Longrightarrow> err = InvalidLocalCommandSpecError" for v
    by (auto simp: validate_timeout_def split: option.splits if_splits)
  ultimately show "make_command_spec isabs e a w env t = Inl err \<Longrightarrow> err = InvalidLocalCommandSpecError"
    by (auto simp: make_command_spec_def and_then_Inl dest: validate_text_Inl)
qed

section \<open>Canonical bytes can be read back\<close>

definition framed_text :: "pystr \<Rightarrow> byte list" where
  "framed_text s = framed (utf8 s)"

definition framed_item :: "pystr \<times> pystr \<Rightarrow> byte list" where
  "framed_item i = framed_text (fst i) @ framed_text (snd i)"

lemma framed_text_front_unique:
  assumes "text_ok a s" "text_ok b t" "framed_text s @ xs = framed_text t @ ys"
  shows "s = t \<and> xs = ys"
  using frame.front_unique [of "utf8 s" "utf8 t" xs ys] assms text_ok_utf8_inject [OF assms(1,2)]
  by (simp add: framed_text_def text_ok_def)

interpretation text_code: nonempty_prefix_code framed_text "text_ok True"
proof
  show "framed_text a \<noteq> []" for a using length_framed [of "utf8 a"] by (auto simp: framed_text_def)
qed (use framed_text_front_unique in blast)

definition item_text_ok :: "pystr \<times> pystr \<Rightarrow> bool" where
  "item_text_ok i \<longleftrightarrow> text_ok False (fst i) \<and> text_ok True (snd i)"

interpretation item_code: nonempty_prefix_code framed_item item_text_ok
proof
  show "a = b \<and> xs = ys" if "item_text_ok a" "item_text_ok b" "framed_item a @ xs = framed_item b @ ys" for a b xs ys
  proof -
    have "fst a = fst b \<and> framed_text (snd a) @ xs = framed_text (snd b) @ ys"
      using that by (intro framed_text_front_unique [of False _ False]) (simp_all add: item_text_ok_def framed_item_def)
    moreover from this have "snd a = snd b \<and> xs = ys"
      using that by (intro framed_text_front_unique [of True _ True]) (simp_all add: item_text_ok_def)
    ultimately show ?thesis by (simp add: prod_eq_iff)
  qed
  show "framed_item a \<noteq> []" for a using length_framed [of "utf8 (fst a)"] by (auto simp: framed_item_def framed_text_def)
qed

text \<open>The canonical bytes as one expression, and the commands that have them.\<close>

definition canon_environment :: "LocalCommandSpec \<Rightarrow> byte list" where
  "canon_environment spec = be_bytes 8 (length (environment spec)) @ concat (map framed_item (environment spec))
     @ framed (bytes_of ''timeout_seconds'') @ be_bytes 8 (nat (timeout_seconds spec))"

definition canon_argv :: "LocalCommandSpec \<Rightarrow> byte list" where
  "canon_argv spec = be_bytes 8 (length (argv spec)) @ concat (map framed_text (argv spec))
     @ framed (bytes_of ''working_directory'') @ framed_text (working_directory spec)
     @ framed (bytes_of ''environment'') @ canon_environment spec"

definition canon :: "LocalCommandSpec \<Rightarrow> byte list" where
  "canon spec = command_spec_domain @ framed (bytes_of ''executable'') @ framed_text (executable spec)
     @ framed (bytes_of ''argv'') @ canon_argv spec"

definition canon_ok :: "LocalCommandSpec \<Rightarrow> bool" where
  "canon_ok spec \<longleftrightarrow> text_ok False (executable spec) \<and> length (argv spec) \<le> max_framed
     \<and> list_all (text_ok True) (argv spec) \<and> text_ok False (working_directory spec)
     \<and> length (environment spec) \<le> max_framed
     \<and> list_all item_text_ok (environment spec)
     \<and> 0 \<le> timeout_seconds spec \<and> timeout_seconds spec \<le> int max_framed"

lemma frame_text_Inr: "frame_text a s = Inr f \<longleftrightarrow> text_ok a s \<and> f = framed_text s"
  by (auto simp: frame_text_def and_then_Inr validate_text_Inr frame_bytes_def framed_def framed_text_def
      text_ok_def frameable_def)

lemma frame_bytes_name: "length name \<le> 20 \<Longrightarrow> frame_bytes (bytes_of name) = Inr (framed (bytes_of name))"
  by (simp add: frame_bytes_def framed_def bytes_of_def max_framed_def)

lemma unsigned8_Inr: "unsigned8 n = Inr b \<longleftrightarrow> n \<le> max_framed \<and> b = be_bytes 8 n"
  by (auto simp: unsigned8_def to_bytes8_def)

lemma frame_texts_Inr:
  "all_results (frame_text a) ss = Inr fs \<longleftrightarrow> list_all (text_ok a) ss \<and> fs = map framed_text ss"
  by (induction ss arbitrary: fs) (auto simp: and_then_Inr frame_text_Inr)

lemma frame_items_Inr:
  "all_results frame_environment_item is = Inr fs \<longleftrightarrow>
     list_all item_text_ok is \<and> fs = map framed_item is"
  by (induction "is" arbitrary: fs)
    (auto simp: and_then_Inr frame_text_Inr frame_environment_item_def framed_item_def item_text_ok_def)

lemma canonical_Inr: "canonical_command_spec_bytes spec = Inr p \<longleftrightarrow> canon_ok spec \<and> p = canon spec"
proof -
  have timeout: "(if i < 0 then Inl OverflowError else unsigned8 (nat i)) = Inr b \<longleftrightarrow>
      0 \<le> i \<and> i \<le> int max_framed \<and> b = be_bytes 8 (nat i)" for i b
    by (auto simp: unsigned8_Inr)
  show ?thesis
    by (auto simp: canonical_command_spec_bytes_def and_then_Inr frame_field_def frame_bytes_name frame_text_Inr
        unsigned8_Inr frame_texts_Inr frame_items_Inr timeout canon_ok_def canon_def canon_argv_def canon_environment_def)
qed

lemma spec_ok_canon_ok:
  "spec_ok isabs spec \<Longrightarrow> length (argv spec) \<le> max_framed \<Longrightarrow> length (environment spec) \<le> max_framed \<Longrightarrow>
   canon_ok spec"
  by (auto simp: spec_ok_def canon_ok_def item_ok_def item_text_ok_def list_all_iff)

lemma canon_environment_inject:
  assumes "canon_ok a" "canon_ok b" "canon_environment a = canon_environment b"
  shows "environment a = environment b \<and> timeout_seconds a = timeout_seconds b"
proof -
  note ok = assms(1,2) [unfolded canon_ok_def]
  note split = be8.front_unique [OF _ _ assms(3) [unfolded canon_environment_def]]
  then have len: "length (environment a) = length (environment b)" using ok by blast
  have "environment a = environment b \<and>
      framed (bytes_of ''timeout_seconds'') @ be_bytes 8 (nat (timeout_seconds a)) =
      framed (bytes_of ''timeout_seconds'') @ be_bytes 8 (nat (timeout_seconds b))"
    using split ok by (intro item_code.concat_front_unique len) auto
  moreover from this have "nat (timeout_seconds a) = nat (timeout_seconds b)"
    using ok by (intro be_bytes8_inject) auto
  ultimately show ?thesis using ok by auto
qed

lemma canon_argv_inject:
  assumes "canon_ok a" "canon_ok b" "canon_argv a = canon_argv b"
  shows "argv a = argv b \<and> working_directory a = working_directory b \<and> canon_environment a = canon_environment b"
proof -
  note ok = assms(1,2) [unfolded canon_ok_def]
  note split = be8.front_unique [OF _ _ assms(3) [unfolded canon_argv_def]]
  then have len: "length (argv a) = length (argv b)" using ok by blast
  have "argv a = argv b \<and> framed (bytes_of ''working_directory'') @ framed_text (working_directory a)
        @ framed (bytes_of ''environment'') @ canon_environment a =
      framed (bytes_of ''working_directory'') @ framed_text (working_directory b)
        @ framed (bytes_of ''environment'') @ canon_environment b"
    using split ok by (intro text_code.concat_front_unique len) auto
  then have v: "argv a = argv b" and rest: "framed_text (working_directory a)
        @ (framed (bytes_of ''environment'') @ canon_environment a) =
      framed_text (working_directory b) @ (framed (bytes_of ''environment'') @ canon_environment b)"
    by simp_all
  from framed_text_front_unique [OF _ _ rest] ok v show ?thesis by auto
qed

lemma canon_inject:
  assumes "canon_ok a" "canon_ok b" "canon a = canon b"
  shows "a = b"
proof -
  from assms(3) have "framed_text (executable a) @ (framed (bytes_of ''argv'') @ canon_argv a) =
      framed_text (executable b) @ (framed (bytes_of ''argv'') @ canon_argv b)"
    by (simp add: canon_def)
  from framed_text_front_unique [OF _ _ this] assms(1,2)
  have "executable a = executable b \<and> canon_argv a = canon_argv b"
    unfolding canon_ok_def by auto
  with canon_argv_inject [OF assms(1,2)] canon_environment_inject [OF assms(1,2)] show ?thesis
    by (intro LocalCommandSpec.equality) auto
qed

section \<open>Hashes\<close>

lemma hash_Inr:
  "command_spec_hash spec = Inr h \<longleftrightarrow> canon_ok spec \<and> h = py ''ucsh1:sha256:'' @ sha256_hex (canon spec)"
  by (auto simp: command_spec_hash_def and_then_Inr canonical_Inr)

lemma hash_usable: "command_spec_hash spec = Inr h \<Longrightarrow> h \<noteq> [] \<and> encodable h"
  using ascii_encodable [OF hex_text_ascii] py_inject [of "''ucsh1:sha256:''" "[]"]
  by (auto simp: hash_Inr sha256_hex_def simp del: py_Cons py_inject)

text \<open>Two commands with the same hash have different encodings that collide, or are the same.\<close>

lemma hash_collision:
  assumes "command_spec_hash a = Inr h" "command_spec_hash b = Inr h" "a \<noteq> b"
  obtains p q where "canonical_command_spec_bytes a = Inr p" "canonical_command_spec_bytes b = Inr q"
    "p \<noteq> q" "sha256_hex p = sha256_hex q"
proof (rule that [of "canon a" "canon b"])
  show "canon a \<noteq> canon b" using assms canon_inject by (auto simp: hash_Inr)
qed (use assms in \<open>simp_all add: hash_Inr canonical_Inr\<close>)

section \<open>Snapshots do not depend on the order of the mapping\<close>

definition item_pair :: "pystr \<times> pystr \<Rightarrow> pyval \<times> pyval" where
  "item_pair i = (PyStr (fst i), PyStr (snd i))"

definition keyed :: "pystr \<times> pystr \<Rightarrow> byte list \<times> pystr \<times> pystr" where
  "keyed i = (utf8 (fst i), i)"

lemma pair_item_Inr:
  "environment_item None seen (PyTuple [fst p, snd p]) = Inr (b, n, v) \<longleftrightarrow>
     p = item_pair (n, v) \<and> item_ok (n, v) \<and> n \<notin> set seen \<and> b = utf8 n"
  by (auto simp: environment_item_Inr item_value_def item_pair_def prod_eq_iff)

lemma ex_Cons_map:
  "(\<exists>ys. x # xs = map f ys \<and> Q ys) \<longleftrightarrow> (\<exists>y ys. x = f y \<and> xs = map f ys \<and> Q (y # ys))"
  by (auto simp: Cons_eq_map_conv)

lemma snapshot_loop_Inr:
  "snapshot_loop seen items = Inr out \<longleftrightarrow>
     (\<exists>env. items = map item_pair env \<and> out = map keyed env \<and> list_all item_ok env
        \<and> distinct (map fst env) \<and> set (map fst env) \<inter> set seen = {})"
proof (induction items arbitrary: seen out)
  case Nil
  show ?case by auto
next
  case (Cons p items)
  have "snapshot_loop seen (p # items) = Inr out \<longleftrightarrow>
      (\<exists>n v rest. p = item_pair (n, v) \<and> item_ok (n, v) \<and> n \<notin> set seen \<and> out = keyed (n, v) # rest
         \<and> snapshot_loop (n # seen) items = Inr rest)"
    by (auto simp: and_then_Inr pair_item_Inr keyed_def)
  also have "\<dots> \<longleftrightarrow> (\<exists>i env. p = item_pair i \<and> items = map item_pair env \<and> out = keyed i # map keyed env
      \<and> list_all item_ok (i # env) \<and> distinct (map fst (i # env)) \<and> set (map fst (i # env)) \<inter> set seen = {})"
    (is "?loop \<longleftrightarrow> ?whole")
  proof
    assume ?loop
    then obtain n v env where "p = item_pair (n, v)" "item_ok (n, v)" "n \<notin> set seen"
      "items = map item_pair env" "out = keyed (n, v) # map keyed env" "list_all item_ok env"
      "distinct (map fst env)" "set (map fst env) \<inter> set (n # seen) = {}"
      unfolding Cons.IH by blast
    then show ?whole
      by (intro exI [where x = "(n, v)"] exI [where x = env]) auto
  next
    assume ?whole
    then obtain n v env where "p = item_pair (n, v)" "items = map item_pair env"
      "out = keyed (n, v) # map keyed env" "list_all item_ok ((n, v) # env)"
      "distinct (map fst ((n, v) # env))" "set (map fst ((n, v) # env)) \<inter> set seen = {}"
      by auto
    then show ?loop
      unfolding Cons.IH
      by (intro exI [where x = n] exI [where x = v] exI [where x = "map keyed env"] conjI exI [where x = env]) auto
  qed
  finally show ?case unfolding ex_Cons_map by simp
qed

text \<open>The environment of a snapshot: the items sorted by the bytes of their names.\<close>

definition sorted_environment :: "(pystr \<times> pystr) list \<Rightarrow> (pystr \<times> pystr) list" where
  "sorted_environment env = map snd (sort_key fst (map keyed env))"

lemma snapshot_Inr:
  "snapshot isabs e a w m t = Inr spec \<longleftrightarrow>
     (\<exists>frozen env. freeze_argv a = Inr frozen \<and> m = PyDict (map item_pair env) \<and> list_all item_ok env
        \<and> distinct (map fst env) \<and>
        make_command_spec isabs e frozen w (PyTuple (map item_value (sorted_environment env))) t = Inr spec)"
proof -
  have items: "environment_items v = Inr items \<longleftrightarrow> v = PyDict items" for v items
    by (cases v) (auto simp: environment_items_def)
  have vals: "map (\<lambda>(_, name, val). PyTuple [PyStr name, PyStr val]) xs = map item_value (map snd xs)" for xs :: "(byte list \<times> pystr \<times> pystr) list"
    by (auto simp: item_value_def)
  show ?thesis
    by (auto simp: snapshot_def and_then_Inr items snapshot_loop_Inr sorted_environment_def vals)
qed

lemma sorted_environment_permute:
  assumes "mset env = mset env'" "list_all item_ok env" "distinct (map fst env)"
  shows "sorted_environment env = sorted_environment env'"
proof -
  have "inj_on fst (set (map keyed env))"
  proof (rule inj_onI)
    fix x y assume "x \<in> set (map keyed env)" "y \<in> set (map keyed env)" and eq: "fst x = fst y"
    then obtain i j where i: "i \<in> set env" "x = keyed i" and j: "j \<in> set env" "y = keyed j" by auto
    then have "item_ok i" "item_ok j" using assms(2) by (auto simp: list_all_iff)
    with eq i j have "fst i = fst j"
      using text_ok_utf8_inject [of False "fst i" False "fst j"] by (simp add: keyed_def item_ok_def)
    with assms(3) i j show "x = y" by (metis distinct_map inj_onD)
  qed
  then have "sort_key fst (map keyed env) = sort_key fst (map keyed env')"
    using assms(1) by (intro sort_key_eq_sort_key) simp_all
  then show ?thesis by (simp add: sorted_environment_def)
qed

lemma snapshot_permute:
  assumes "snapshot isabs e a w (PyDict items) t = Inr spec" "mset items = mset items'"
  shows "snapshot isabs e a w (PyDict items') t = Inr spec"
proof -
  obtain frozen env where f: "freeze_argv a = Inr frozen" "items = map item_pair env" "list_all item_ok env"
      "distinct (map fst env)"
      "make_command_spec isabs e frozen w (PyTuple (map item_value (sorted_environment env))) t = Inr spec"
    using assms(1) by (auto simp: snapshot_Inr)
  define unpair where "unpair p = (text_value_of (fst p), text_value_of (snd p))" for p
  have unpair [simp]: "unpair (item_pair i) = i" for i by (simp add: unpair_def item_pair_def)
  let ?env = "map unpair items'"
  have "set items' = set items" using assms(2) by (metis set_mset_mset)
  then have items': "items' = map item_pair ?env" using f(2) by (auto simp: list_eq_iff_nth_eq in_set_conv_nth)
      (metis imageE nth_mem unpair)
  have perm: "mset env = mset ?env"
    using arg_cong [OF assms(2), of "image_mset unpair"] f(2) by (simp add: multiset.map_comp comp_def)
  then have "list_all item_ok ?env" "distinct (map fst ?env)"
    using f(3,4) by (metis list_all_iff set_mset_mset, metis mset_map mset_eq_imp_distinct_iff)
  moreover have "sorted_environment env = sorted_environment ?env"
    by (rule sorted_environment_permute [OF perm f(3,4)])
  ultimately show ?thesis
    unfolding snapshot_Inr using f(1,5) items'
    by (intro exI [where x = frozen] exI [where x = ?env]) simp
qed

end
