(* ===== verification/Local_Execution.thy ===== *)
theory Local_Execution
  imports Authority_Exact Local_Command
begin

text \<open>
  The execution half of \<open>master/buildbot/umbilical_local_execution.py\<close>: the launcher adapter and
  \<open>execute_local_command\<close>, over a state that holds the store handle, the physical launches made
  so far and the outcomes the launches will have.
\<close>

section \<open>The launcher\<close>

text \<open>The keyword arguments of \<open>subprocess.run\<close>.\<close>

record process_call =
  pc_args :: "pystr list"
  pc_executable :: pystr
  pc_cwd :: pystr
  pc_env :: "(pystr \<times> pystr) list"
  pc_timeout :: int
  pc_stdin_devnull :: bool
  pc_check :: bool
  pc_shell :: bool
  pc_close_fds :: bool

definition launcher_call :: "LocalCommandSpec \<Rightarrow> process_call" where
  "launcher_call spec = \<lparr>pc_args = argv spec, pc_executable = executable spec,
     pc_cwd = working_directory spec, pc_env = environment spec, pc_timeout = timeout_seconds spec,
     pc_stdin_devnull = True, pc_check = False, pc_shell = False, pc_close_fds = True\<rparr>"

text \<open>What \<open>subprocess.run\<close> did: gave a return code, or raised.\<close>

datatype launch_outcome = Returned pyval | Raised exn

record launch_event =
  ev_key :: pyval
  ev_hash :: pystr
  ev_call :: process_call
  ev_outcome :: launch_outcome

record runner =
  rn_store :: store
  rn_launched :: "launch_event list"
  rn_outcomes :: "launch_outcome list"

definition in_store :: "(store, 'a) prog \<Rightarrow> (runner, 'a) prog" where
  "in_store m = (\<lambda>c. case m (rn_store c) of (r, s) \<Rightarrow> (r, c\<lparr>rn_store := s\<rparr>))"

definition next_outcome :: "runner \<Rightarrow> launch_outcome" where
  "next_outcome c = (case rn_outcomes c of [] \<Rightarrow> Raised OSError | out # _ \<Rightarrow> out)"

text \<open>\<open>SubprocessLocalProcessLauncher().launch\<close>; the call is recorded before its outcome is known.\<close>

definition launch :: "pyval \<Rightarrow> pystr \<Rightarrow> LocalCommandSpec \<Rightarrow> (runner, pyval) prog" where
  "launch key hash spec = (\<lambda>c.
     let out = next_outcome c;
         event = \<lparr>ev_key = key, ev_hash = hash, ev_call = launcher_call spec, ev_outcome = out\<rparr>;
         c' = c\<lparr>rn_launched := rn_launched c @ [event], rn_outcomes := tl (rn_outcomes c)\<rparr>
     in case out of Returned v \<Rightarrow> (Inr v, c') | Raised e \<Rightarrow> (Inl e, c'))"

section \<open>Execution\<close>

record LocalExecutionResult =
  res_key :: pyval
  res_hash :: pystr
  res_exit :: int

definition execute_local_command ::
  "pyval \<Rightarrow> pyval \<Rightarrow> pyval \<Rightarrow> LocalCommandSpec \<Rightarrow> (runner, LocalExecutionResult) prog" where
  "execute_local_command key scope generation spec =
     bnd (of_result (command_spec_hash spec)) (\<lambda>frozen_hash.
     sq (in_store (claim_execution_launch key scope generation (PyStr frozen_hash)))
     (sq (in_store (mark_execution_launch_unknown key (PyStr frozen_hash)))
     (bnd (launch key frozen_hash spec) (\<lambda>exit_code.
     case exact_int exit_code of
       None \<Rightarrow> raise TypeError
     | Some code \<Rightarrow>
         sq (in_store (record_execution_terminal_result key (PyStr frozen_hash) (PyInt code)))
         (ret \<lparr>res_key = key, res_hash = frozen_hash, res_exit = code\<rparr>)))))"

section \<open>Many controllers\<close>

text \<open>
  Any number of controllers run \<open>execute_local_command\<close> against one durable database, each
  through its own handles. \<open>phase\<close> is how far a controller's call has come. A controller may
  crash in any phase; a crash inside a store call is a call whose result is lost. Every store
  call may meet any faults, and other requests on the store happen at any time.
\<close>

datatype phase =
    Outside
  | Holding pyval pystr LocalCommandSpec
  | Authorized pyval pystr LocalCommandSpec
  | Finished pyval pystr launch_outcome

record world =
  w_db :: database
  w_phase :: "nat \<Rightarrow> phase"
  w_events :: "launch_event list"

text \<open>The requests of the parts of the system other than \<open>execute_local_command\<close>.\<close>

fun ordinary :: "request \<Rightarrow> bool" where
  "ordinary (Claim_execution_launch _ _ _ _) = False"
| "ordinary (Mark_execution_launch_unknown _ _) = False"
| "ordinary (Record_execution_terminal_result _ _ _) = False"
| "ordinary _ = True"

definition set_phase :: "nat \<Rightarrow> phase \<Rightarrow> world \<Rightarrow> world" where
  "set_phase i p w = w\<lparr>w_phase := (w_phase w)(i := p)\<rparr>"

inductive step :: "world \<Rightarrow> world \<Rightarrow> bool" where
  claim: "w_phase w i = Outside \<Longrightarrow> command_spec_hash spec = Inr h \<Longrightarrow> handle_ok s \<Longrightarrow> durable s = w_db w \<Longrightarrow>
    claim_execution_launch key scope generation (PyStr h) s = (r, s') \<Longrightarrow>
    step w (set_phase i (case r of Inr _ \<Rightarrow> Holding key h spec | Inl _ \<Rightarrow> Outside) (w\<lparr>w_db := durable s'\<rparr>))"
| mark: "w_phase w i = Holding key h spec \<Longrightarrow> handle_ok s \<Longrightarrow> durable s = w_db w \<Longrightarrow>
    mark_execution_launch_unknown key (PyStr h) s = (r, s') \<Longrightarrow>
    step w (set_phase i (case r of Inr _ \<Rightarrow> Authorized key h spec | Inl _ \<Rightarrow> Outside) (w\<lparr>w_db := durable s'\<rparr>))"
| launch: "w_phase w i = Authorized key h spec \<Longrightarrow>
    step w (set_phase i (Finished key h out) (w\<lparr>w_events := w_events w @
      [\<lparr>ev_key = key, ev_hash = h, ev_call = launcher_call spec, ev_outcome = out\<rparr>]\<rparr>))"
| record_result: "w_phase w i = Finished key h (Returned (PyInt code)) \<Longrightarrow> handle_ok s \<Longrightarrow> durable s = w_db w \<Longrightarrow>
    record_execution_terminal_result key (PyStr h) (PyInt code) s = (r, s') \<Longrightarrow>
    step w (set_phase i Outside (w\<lparr>w_db := durable s'\<rparr>))"
| crash: "step w (set_phase i Outside w)"
| other: "ordinary q \<Longrightarrow> handle_ok s \<Longrightarrow> durable s = w_db w \<Longrightarrow> run_request q s = (r, s') \<Longrightarrow>
    step w (w\<lparr>w_db := durable s'\<rparr>)"

inductive steps :: "world \<Rightarrow> world \<Rightarrow> bool" where
  none: "steps w w"
| more: "steps w w' \<Longrightarrow> step w' w'' \<Longrightarrow> steps w w''"

definition start :: "database \<Rightarrow> world" where
  "start d = \<lparr>w_db = d, w_phase = (\<lambda>_. Outside), w_events = []\<rparr>"

inductive_cases step_cases: "step w w'"

lemma steps_trans: "steps v w \<Longrightarrow> steps u v \<Longrightarrow> steps u w"
  by (induction rule: steps.induct) (auto intro: steps.more)

lemma one_step: "step w w' \<Longrightarrow> steps w w'"
  by (auto intro: steps.intros)

section \<open>What the launch transitions do\<close>

lemma s_claim_Inr:
  "s_claim_execution_launch key scope generation (PyStr h) a = (Inr l, a') \<longleftrightarrow>
     (\<exists>k sc g. key = PyStr k \<and> k \<noteq> [] \<and> as_str scope = Some sc \<and> sc \<noteq> [] \<and> generation = PyInt g \<and> 0 < g
        \<and> g \<le> max_generation \<and> h \<noteq> [] \<and> encodable h \<and> encodable k \<and> encodable sc \<and> k \<in> registered a
        \<and> bindings a k = Some h \<and> admissions a k = Some (sc, g) \<and> generations a sc = Some g
        \<and> launches a k = None \<and> l = intent_launch k sc g h \<and> a' = a\<lparr>launches := (launches a)(k \<mapsto> l)\<rparr>)"
proof -
  have arg: "validate_execution_key key = Inr k \<longleftrightarrow> key = PyStr k \<and> k \<noteq> []"
    "validate_scope scope = Inr sc \<longleftrightarrow> as_str scope = Some sc \<and> sc \<noteq> []"
    "validate_controller_generation generation = Inr g \<longleftrightarrow> generation = PyInt g \<and> 0 < g \<and> g \<le> max_generation"
    "validate_command_spec_hash (PyStr h) = Inr h' \<longleftrightarrow> h' = h \<and> h \<noteq> [] \<and> encodable h" for k sc g h'
    by (auto simp: validate_execution_key_def validate_scope_def validate_controller_generation_def
        validate_command_spec_hash_def utf8_encode_None split: option.splits)
  have run: "bnd (of_result v) f b = (Inr y, b') \<longleftrightarrow> (\<exists>x. v = Inr x \<and> f x b = (Inr y, b'))" for v f b y b'
    by (cases v) (simp_all add: run_combinators)
  show ?thesis
    unfolding s_claim_execution_launch_def run arg
    by (auto simp: a_claim_def a_registered_def run_sq run_param split: if_splits)
qed

lemma transition_Inr:
  "a_transition k h st f a = (Inr m, a') \<longleftrightarrow>
     (\<exists>l. launches a k = Some l \<and> lch_hash l = h \<and> lch_state l = st \<and> encodable k \<and> m = f l
        \<and> a' = a\<lparr>launches := (launches a)(k \<mapsto> f l)\<rparr>)"
  by (auto simp: a_transition_def run_sq run_param split: option.splits if_splits)

lemma run_argument: "bnd (of_result v) f b = (Inr y, b') \<longleftrightarrow> (\<exists>x. v = Inr x \<and> f x b = (Inr y, b'))"
  by (cases v) (simp_all add: run_combinators)

lemma s_mark_Inr:
  assumes "s_mark_execution_launch_unknown key (PyStr h) a = (Inr m, a')"
  obtains k l where "key = PyStr k" "launches a k = Some l" "lch_hash l = h" "lch_state l = INTENT"
    "m = l\<lparr>lch_state := UNKNOWN, lch_exit := None\<rparr>" "a' = a\<lparr>launches := (launches a)(k \<mapsto> m)\<rparr>"
  using assms unfolding s_mark_execution_launch_unknown_def run_argument a_mark_def transition_Inr
  by (auto simp: validate_execution_key_def validate_command_spec_hash_def split: option.splits if_splits)

lemma s_record_Inr:
  assumes "s_record_execution_terminal_result key (PyStr h) (PyInt code) a = (Inr m, a')"
  obtains k l where "key = PyStr k" "launches a k = Some l" "lch_hash l = h" "lch_state l = UNKNOWN"
    "m = l\<lparr>lch_state := TERMINAL, lch_exit := Some code\<rparr>" "a' = a\<lparr>launches := (launches a)(k \<mapsto> m)\<rparr>"
  using assms unfolding s_record_execution_terminal_result_def run_argument a_record_def transition_Inr
  by (auto simp: validate_execution_key_def validate_command_spec_hash_def validate_process_exit_code_def
      split: option.splits if_splits)

lemma s_record_launch:
  assumes run: "s_record_execution_terminal_result key (PyStr h) (PyInt code) a = (Inr m, a')"
    and key: "key = PyStr k" and l: "launches a k = Some l"
  shows "a' = a\<lparr>launches := (launches a)(k \<mapsto> l\<lparr>lch_state := TERMINAL, lch_exit := Some code\<rparr>)\<rparr>"
proof (rule s_record_Inr [OF run])
  fix k' l'
  assume "key = PyStr k'" "launches a k' = Some l'"
    and m: "m = l'\<lparr>lch_state := TERMINAL, lch_exit := Some code\<rparr>" "a' = a\<lparr>launches := (launches a)(k' \<mapsto> m)\<rparr>"
  with key l have "k' = k" "l' = l" by auto
  with m show ?thesis by (simp only:)
qed

text \<open>Ordinary requests leave every launch alone.\<close>

lemma keeps_launches:
  "launches (snd (a_acquire s a)) = launches a" "launches (snd (a_read_generation s a)) = launches a"
  "launches (snd (a_register k a)) = launches a" "launches (snd (a_exists k a)) = launches a"
  "launches (snd (a_bind k h a)) = launches a" "launches (snd (a_read_hash k a)) = launches a"
  "launches (snd (a_admit k s g a)) = launches a" "launches (snd (a_read_admission k a)) = launches a"
  "launches (snd (a_read_launch k a)) = launches a"
  by (auto simp: a_op_defs run_sq run_simps run_guard split: option.split sum.split prod.split)

definition same_launches :: "(auth, 'a) prog \<Rightarrow> bool" where
  "same_launches p \<longleftrightarrow> (\<forall>a. launches (snd (p a)) = launches a)"

lemma same_launches_argument: "(\<And>x. same_launches (f x)) \<Longrightarrow> same_launches (bnd (of_result v) f)"
  by (cases v) (simp_all add: same_launches_def run_combinators)

lemma same_launches_specs:
  "same_launches (s_acquire_generation v)" "same_launches (s_read_generation v)"
  "same_launches (s_register_execution_key v)" "same_launches (s_execution_key_exists v)"
  "same_launches (s_bind_command_spec_hash v h)" "same_launches (s_read_command_spec_hash v)"
  "same_launches (s_admit_execution v w g)" "same_launches (s_read_execution_admission v)"
  "same_launches (s_read_execution_launch v)"
  unfolding s_op_defs
  by (intro same_launches_argument; simp add: same_launches_def keeps_launches)+

context durable_op
begin

lemma call_same_launches:
  assumes "same_launches spec" "handle_ok s"
  shows "launches (abs_of (durable (snd (call s)))) = launches (abs_of (durable s))"
  using any_handle [OF assms(2), of "fst (call s)" "snd (call s)"] assms(1)
  by (auto simp: effect_def same_launches_def) (metis snd_conv)

text \<open>A call that returns a value: the specification's step on the durable state.\<close>

lemma returned:
  assumes "handle_ok s" "call s = (Inr x, s')"
  shows "spec (abs_of (durable s)) = (Inr x, abs_of (durable s'))" "idle s'" "store_valid (durable s')"
    "store_valid (durable s)"
  using returns [OF returns_idle [OF assms] assms(2)] by simp_all

end

lemmas ordinary_launches = acquire.call_same_launches read_gen.call_same_launches register.call_same_launches
  key_exists.call_same_launches bind_op.call_same_launches read_hash.call_same_launches
  admit.call_same_launches read_adm.call_same_launches read_launch.call_same_launches

lemma ordinary_request_launches:
  assumes "ordinary q" "handle_ok s"
  shows "launches (abs_of (durable (snd (run_request q s)))) = launches (abs_of (durable s))"
proof (cases q)
  case (Is_current_generation v g)
  then show ?thesis
    using is_current_state [of v g s] read_gen.call_same_launches [OF same_launches_specs(2) assms(2), of v]
    by (auto simp: discard_state)
qed (use assms in \<open>simp_all add: discard_state ordinary_launches same_launches_specs\<close>)

section \<open>Invariants of the controllers\<close>

definition launch_at :: "auth \<Rightarrow> pyval \<Rightarrow> ExecutionLaunch option" where
  "launch_at a key = Option.bind (exact_str key) (launches a)"

definition holds :: "world \<Rightarrow> nat \<Rightarrow> pyval \<Rightarrow> bool" where
  "holds w i key \<longleftrightarrow> (case w_phase w i of Holding k _ _ \<Rightarrow> k = key | Authorized k _ _ \<Rightarrow> k = key | _ \<Rightarrow> False)"

definition launched :: "world \<Rightarrow> pyval \<Rightarrow> launch_event list" where
  "launched w key = filter (\<lambda>e. ev_key e = key) (w_events w)"

text \<open>
  The right to launch a key is held at most once, is gone after the launch, and was taken by
  making the launch durable.
\<close>

definition exclusive_at :: "world \<Rightarrow> pyval \<Rightarrow> bool" where
  "exclusive_at w key \<longleftrightarrow>
     (\<forall>i j. holds w i key \<longrightarrow> holds w j key \<longrightarrow> i = j)
     \<and> (\<forall>i. holds w i key \<longrightarrow> launched w key = [])
     \<and> length (launched w key) \<le> 1
     \<and> (\<forall>i. holds w i key \<longrightarrow> launch_at (abs_of (w_db w)) key \<noteq> None)
     \<and> (launched w key \<noteq> [] \<longrightarrow> launch_at (abs_of (w_db w)) key \<noteq> None)"

definition exclusive :: "world \<Rightarrow> bool" where
  "exclusive w \<longleftrightarrow> (\<forall>key. exclusive_at w key)"

lemma set_phase_fields [simp]:
  "w_db (set_phase i p w) = w_db w" "w_events (set_phase i p w) = w_events w"
  "w_phase (set_phase i p w) j = (if j = i then p else w_phase w j)"
  by (simp_all add: set_phase_def)

lemma launch_at_advances:
  assumes "advances d d'" "launch_at (abs_of d) key \<noteq> None"
  shows "launch_at (abs_of d') key \<noteq> None"
proof -
  obtain k l where "exact_str key = Some k" "launches (abs_of d) k = Some l"
    using assms(2) by (auto simp: launch_at_def Option.bind_eq_Some_conv)
  moreover from this have "launches (abs_of d') k \<noteq> None"
    using assms(1) unfolding advances_def auth_le_def by (metis option.distinct(1))
  ultimately show ?thesis by (simp add: launch_at_def)
qed

text \<open>Steps that give no controller a new right keep the rights exclusive.\<close>

lemma exclusive_weaken:
  assumes "exclusive w" "\<And>j key. holds w' j key \<Longrightarrow> holds w j key" "w_events w' = w_events w"
    "advances (w_db w) (w_db w')"
  shows "exclusive w'"
proof -
  have "launched w' = launched w" using assms(3) by (simp add: launched_def fun_eq_iff)
  then show ?thesis
    using assms(1,2) launch_at_advances [OF assms(4)] unfolding exclusive_def exclusive_at_def by metis
qed

text \<open>A right taken when nobody has it and nothing was launched; a right used up by a launch.\<close>

lemma exclusive_take:
  assumes "exclusive w" "\<And>j. \<not> holds w j key" "launched w key = []" "launched w' = launched w"
    "\<And>j k. holds w' j k \<Longrightarrow> j = i \<and> k = key \<or> holds w j k"
    "advances (w_db w) (w_db w')" "launch_at (abs_of (w_db w')) key \<noteq> None"
  shows "exclusive w'"
  unfolding exclusive_def
proof
  fix k
  show "exclusive_at w' k"
  proof (cases "k = key")
    case True
    then show ?thesis using assms(2-5,7) unfolding exclusive_at_def by (metis le0 list.size(3))
  next
    case False
    have "exclusive_at w k" using assms(1) by (simp add: exclusive_def)
    with False show ?thesis
      using assms(4,5) launch_at_advances [OF assms(6)] unfolding exclusive_at_def by metis
  qed
qed

lemma exclusive_use:
  assumes "exclusive w" "holds w i key" "\<And>j k. holds w' j k \<Longrightarrow> j \<noteq> i \<and> holds w j k"
    "\<And>k. launched w' k = launched w k @ (if k = key then [e] else [])" "w_db w' = w_db w"
  shows "exclusive w'"
  unfolding exclusive_def
proof
  fix k
  have at: "exclusive_at w k" using assms(1) by (simp add: exclusive_def)
  show "exclusive_at w' k"
  proof (cases "k = key")
    case True
    have "\<not> holds w' j key" for j using assms(2,3) at True unfolding exclusive_at_def by metis
    moreover have "launched w key = []" "launch_at (abs_of (w_db w)) key \<noteq> None"
      using assms(2) at True unfolding exclusive_at_def by metis+
    then have "launched w' key = [e]" "launch_at (abs_of (w_db w')) key \<noteq> None"
      using assms(4,5) by simp_all
    ultimately show ?thesis using True unfolding exclusive_at_def by simp
  next
    case False
    with at show ?thesis using assms(3-5) unfolding exclusive_at_def by simp metis
  qed
qed

lemma holds_set_phase:
  "holds (set_phase i p w) j key \<longleftrightarrow> (if j = i
     then (case p of Holding k _ _ \<Rightarrow> k = key | Authorized k _ _ \<Rightarrow> k = key | _ \<Rightarrow> False) else holds w j key)"
  by (simp add: holds_def)

lemma holds_db [simp]: "holds (w\<lparr>w_db := d\<rparr>) j key = holds w j key"
  by (simp add: holds_def)

lemma call_steps_advance:
  "handle_ok s \<Longrightarrow> claim_execution_launch key scope generation h s = (r, s') \<Longrightarrow> advances (durable s) (durable s')"
  "handle_ok s \<Longrightarrow> mark_execution_launch_unknown key h s = (r2, s') \<Longrightarrow> advances (durable s) (durable s')"
  "handle_ok s \<Longrightarrow> record_execution_terminal_result key h code s = (r3, s') \<Longrightarrow> advances (durable s) (durable s')"
  "handle_ok s \<Longrightarrow> run_request q s = (r4, s') \<Longrightarrow> advances (durable s) (durable s')"
  using claim.call_advances [OF forward_specs(9), of s key scope generation h]
    mark.call_advances [OF forward_specs(10), of s key h]
    record_op.call_advances [OF forward_specs(11), of s key h code] run_request_advances [of s q]
  by auto

lemma step_advances: "step w w' \<Longrightarrow> advances (w_db w) (w_db w')"
  by (induction rule: step.induct) (auto dest: call_steps_advance simp: advances_def [of "_ :: database" "_ :: database"])

lemma claimed_at:
  assumes "handle_ok s" "claim_execution_launch key scope generation (PyStr h) s = (Inr l, s')"
  shows "launch_at (abs_of (durable s)) key = None"
    "launch_at (abs_of (durable s')) key = Some l" "lch_hash l = h" "lch_state l = INTENT"
  using claim.returned(1) [OF assms] unfolding s_claim_Inr by (auto simp: launch_at_def intent_launch_def)

lemma step_exclusive: "step w w' \<Longrightarrow> exclusive w \<Longrightarrow> exclusive w'"
proof (induction rule: step.induct)
  case (claim w i spec h s key scope generation r s')
  show ?case
  proof (cases r)
    case (Inl e)
    with claim show ?thesis
      by (intro exclusive_weaken [OF claim.prems]) (auto simp: holds_set_phase split: if_splits dest: call_steps_advance)
  next
    case (Inr l)
    note at = claimed_at [OF claim.hyps(3) claim.hyps(5) [unfolded Inr]]
    let ?w = "set_phase i (Holding key h spec) (w\<lparr>w_db := durable s'\<rparr>)"
    have adv: "advances (w_db w) (durable s')" using claim.hyps by (metis call_steps_advance(1))
    have free: "\<not> holds w j key" "launched w key = []" for j
      using claim.prems at(1) claim.hyps(4) unfolding exclusive_def exclusive_at_def by metis+
    have "exclusive ?w"
    proof (rule exclusive_take [OF claim.prems free])
      show "holds ?w j k \<Longrightarrow> j = i \<and> k = key \<or> holds w j k" for j k
        by (simp add: holds_set_phase split: if_splits)
    qed (use at(2) adv in \<open>simp_all add: launched_def fun_eq_iff\<close>)
    then show ?thesis using Inr by simp
  qed
next
  case (mark w i key h spec s r s')
  then have "holds w i key" by (simp add: holds_def)
  with mark show ?case
    by (intro exclusive_weaken [OF mark.prems])
      (auto simp: holds_set_phase split: if_splits sum.splits dest: call_steps_advance)
next
  case (launch w i key h spec out)
  let ?e = "\<lparr>ev_key = key, ev_hash = h, ev_call = launcher_call spec, ev_outcome = out\<rparr>"
  let ?w = "set_phase i (Finished key h out) (w\<lparr>w_events := w_events w @ [?e]\<rparr>)"
  show ?case
  proof (rule exclusive_use [OF launch.prems, where i = i and key = key and e = ?e])
    show "holds w i key" using launch.hyps by (simp add: holds_def)
    show "holds ?w j k \<Longrightarrow> j \<noteq> i \<and> holds w j k" for j k by (simp add: holds_def split: if_splits)
  qed (simp_all add: launched_def)
next
  case (record_result w i key h code s r s')
  then show ?case
    by (intro exclusive_weaken [OF record_result.prems]) (auto simp: holds_set_phase split: if_splits dest: call_steps_advance)
next
  case (crash w i)
  then show ?case
    by (intro exclusive_weaken [OF crash]) (auto simp: holds_set_phase advances_def split: if_splits)
next
  case (other q s w r s')
  then show ?case
    by (intro exclusive_weaken [OF other.prems]) (auto dest: call_steps_advance)
qed

lemma steps_exclusive: "steps v w \<Longrightarrow> exclusive v \<Longrightarrow> exclusive w"
  by (induction rule: steps.induct) (auto intro: step_exclusive)

lemma start_exclusive: "exclusive (start d)"
  by (simp add: exclusive_def exclusive_at_def start_def holds_def launched_def)

section \<open>Every launch is backed by durable evidence\<close>

definition backed :: "database \<Rightarrow> pyval \<Rightarrow> pystr \<Rightarrow> ExecutionLaunchState \<Rightarrow> bool" where
  "backed d key h st \<longleftrightarrow> (case launch_at (abs_of d) key of None \<Rightarrow> False
     | Some l \<Rightarrow> lch_hash l = h \<and> st \<le> lch_state l)"

definition phase_ok :: "database \<Rightarrow> launch_event list \<Rightarrow> phase \<Rightarrow> bool" where
  "phase_ok d es p \<longleftrightarrow> (case p of
       Outside \<Rightarrow> True
     | Holding key h spec \<Rightarrow> command_spec_hash spec = Inr h \<and> backed d key h INTENT
     | Authorized key h spec \<Rightarrow> command_spec_hash spec = Inr h \<and> backed d key h UNKNOWN
     | Finished key h out \<Rightarrow> (\<exists>e\<in>set es. ev_key e = key \<and> ev_hash e = h \<and> ev_outcome e = out))"

definition event_ok :: "database \<Rightarrow> launch_event \<Rightarrow> bool" where
  "event_ok d e \<longleftrightarrow> backed d (ev_key e) (ev_hash e) UNKNOWN
     \<and> (\<exists>spec. command_spec_hash spec = Inr (ev_hash e) \<and> ev_call e = launcher_call spec)"

definition evidence :: "world \<Rightarrow> bool" where
  "evidence w \<longleftrightarrow> (\<forall>i. phase_ok (w_db w) (w_events w) (w_phase w i))
     \<and> (\<forall>e\<in>set (w_events w). event_ok (w_db w) e)"

lemma launch_at_le:
  assumes "advances d d'" "launch_at (abs_of d) key = Some l"
  shows "\<exists>m. launch_at (abs_of d') key = Some m \<and> launch_le l m"
proof -
  obtain k where k: "exact_str key = Some k" "launches (abs_of d) k = Some l"
    using assms(2) by (auto simp: launch_at_def Option.bind_eq_Some_conv)
  then have "\<exists>m. launches (abs_of d') k = Some m \<and> launch_le l m"
    using assms(1) unfolding advances_def auth_le_def by (metis launch_le_refl)
  with k(1) show ?thesis by (simp add: launch_at_def)
qed

lemma backed_advances:
  assumes "advances d d'" "backed d key h st"
  shows "backed d' key h st"
proof -
  obtain l where l: "launch_at (abs_of d) key = Some l" "lch_hash l = h" "st \<le> lch_state l"
    using assms(2) by (auto simp: backed_def split: option.splits)
  obtain m where "launch_at (abs_of d') key = Some m" "launch_le l m"
    using launch_at_le [OF assms(1) l(1)] by blast
  with l show ?thesis by (auto simp: backed_def launch_le_def)
qed

lemma phase_ok_advances: "advances d d' \<Longrightarrow> set es \<subseteq> set es' \<Longrightarrow> phase_ok d es p \<Longrightarrow> phase_ok d' es' p"
  by (auto simp: phase_ok_def backed_advances split: phase.splits)

lemma evidence_call:
  assumes "evidence w" "advances (w_db w) d" "phase_ok d (w_events w) p"
  shows "evidence (set_phase i p (w\<lparr>w_db := d\<rparr>))"
  using assms phase_ok_advances [OF assms(2) order_refl]
  by (auto simp: evidence_def event_ok_def intro: backed_advances)

lemma marked_at:
  assumes "handle_ok s" "mark_execution_launch_unknown key (PyStr h) s = (Inr m, s')"
  shows "backed (durable s') key h UNKNOWN"
  by (rule s_mark_Inr [OF mark.returned(1) [OF assms]]) (simp add: backed_def launch_at_def)

lemma step_evidence: "step w w' \<Longrightarrow> evidence w \<Longrightarrow> evidence w'"
proof (induction rule: step.induct)
  case (claim w i spec h s key scope generation r s')
  show ?case
  proof (rule evidence_call [OF claim.prems])
    show "advances (w_db w) (durable s')" using claim.hyps(3-5) by (metis call_steps_advance(1))
    show "phase_ok (durable s') (w_events w) (case r of Inr _ \<Rightarrow> Holding key h spec | Inl _ \<Rightarrow> Outside)"
      using claimed_at [OF claim.hyps(3), of key scope generation h] claim.hyps(2,5)
      by (cases r) (auto simp: phase_ok_def backed_def rank_order)
  qed
next
  case (mark w i key h spec s r s')
  have "phase_ok (w_db w) (w_events w) (Holding key h spec)"
    using mark.prems mark.hyps(1) unfolding evidence_def by metis
  then have spec: "command_spec_hash spec = Inr h" by (simp add: phase_ok_def)
  show ?case
  proof (rule evidence_call [OF mark.prems])
    show "advances (w_db w) (durable s')" using mark.hyps(2-4) by (metis call_steps_advance(2))
    show "phase_ok (durable s') (w_events w) (case r of Inr _ \<Rightarrow> Authorized key h spec | Inl _ \<Rightarrow> Outside)"
      using marked_at [OF mark.hyps(2), of key h] mark.hyps(4) spec by (cases r) (auto simp: phase_ok_def)
  qed
next
  case (launch w i key h spec out)
  let ?e = "\<lparr>ev_key = key, ev_hash = h, ev_call = launcher_call spec, ev_outcome = out\<rparr>"
  have "phase_ok (w_db w) (w_events w) (Authorized key h spec)"
    using launch.prems launch.hyps(1) unfolding evidence_def by metis
  then have e: "event_ok (w_db w) ?e" by (auto simp: phase_ok_def event_ok_def)
  have "phase_ok (w_db w) (w_events w @ [?e]) p" if "phase_ok (w_db w) (w_events w) p" for p
    by (rule phase_ok_advances [OF _ _ that]) (auto simp: advances_def)
  moreover have "phase_ok (w_db w) (w_events w @ [?e]) (Finished key h out)" by (simp add: phase_ok_def)
  ultimately show ?case using launch.prems e by (auto simp: evidence_def)
next
  case (record_result w i key h code s r s')
  then show ?case
    by (intro evidence_call) (auto simp: phase_ok_def dest: call_steps_advance)
next
  case (crash w i)
  have "phase_ok (w_db w) (w_events w) Outside" by (simp add: phase_ok_def)
  with crash show ?case by (auto simp: evidence_def)
next
  case (other q s w r s')
  then have adv: "advances (w_db w) (durable s')" by (auto dest: call_steps_advance)
  show ?case
    using other.prems phase_ok_advances [OF adv order_refl] backed_advances [OF adv]
    by (auto simp: evidence_def event_ok_def)
qed

lemma steps_evidence: "steps v w \<Longrightarrow> evidence v \<Longrightarrow> evidence w"
  by (induction rule: steps.induct) (auto intro: step_evidence)

lemma start_evidence: "evidence (start d)"
  by (simp add: evidence_def start_def phase_ok_def)

section \<open>Every terminal result is the outcome of a launch\<close>

definition terminal_from :: "database \<Rightarrow> world \<Rightarrow> bool" where
  "terminal_from d w \<longleftrightarrow> (\<forall>key l. launch_at (abs_of (w_db w)) key = Some l \<longrightarrow> lch_state l = TERMINAL \<longrightarrow>
     launch_at (abs_of d) key = Some l
     \<or> (\<exists>e\<in>set (w_events w). \<exists>code. ev_key e = key \<and> ev_hash e = lch_hash l
          \<and> ev_outcome e = Returned (PyInt code) \<and> lch_exit l = Some code))"

text \<open>Which launch a transition changes, returned or not.\<close>

lemma claim_changes:
  assumes "handle_ok s" "claim_execution_launch key scope generation (PyStr h) s = (r, s')"
    "launch_at (abs_of (durable s')) k = Some l" "lch_state l = TERMINAL"
  shows "launch_at (abs_of (durable s)) k = Some l"
  using claim.any_handle [OF assms(1,2)] assms(3,4)
  by (auto simp: effect_def s_claim_Inr launch_at_def intent_launch_def Option.bind_eq_Some_conv split: if_splits)

lemma mark_changes:
  assumes "handle_ok s" "mark_execution_launch_unknown key (PyStr h) s = (r, s')"
    "launch_at (abs_of (durable s')) k = Some l" "lch_state l = TERMINAL"
  shows "launch_at (abs_of (durable s)) k = Some l"
  using mark.any_handle [OF assms(1,2)]
proof
  assume "\<exists>x. effect (s_mark_execution_launch_unknown key (PyStr h)) (durable s) x (durable s')"
  then obtain x where "s_mark_execution_launch_unknown key (PyStr h) (abs_of (durable s)) = (Inr x, abs_of (durable s'))"
    by (auto simp: effect_def)
  then show ?thesis
    by (rule s_mark_Inr) (use assms(3,4) in \<open>auto simp: launch_at_def Option.bind_eq_Some_conv split: if_splits\<close>)
qed (use assms(3) in simp)

lemma record_changes:
  assumes "handle_ok s" "record_execution_terminal_result key (PyStr h) (PyInt code) s = (r, s')"
    "launch_at (abs_of (durable s')) k = Some l"
  shows "launch_at (abs_of (durable s)) k = Some l \<or> k = key \<and> lch_hash l = h \<and> lch_exit l = Some code"
  using record_op.any_handle [OF assms(1,2)]
proof
  assume "\<exists>x. effect (s_record_execution_terminal_result key (PyStr h) (PyInt code)) (durable s) x (durable s')"
  then obtain x where "s_record_execution_terminal_result key (PyStr h) (PyInt code) (abs_of (durable s)) = (Inr x, abs_of (durable s'))"
    by (auto simp: effect_def)
  then show ?thesis
    by (rule s_record_Inr) (use assms(3) in \<open>auto simp: launch_at_def Option.bind_eq_Some_conv split: if_splits\<close>)
qed (use assms(3) in simp)

lemma step_terminal: "step w w' \<Longrightarrow> evidence w \<Longrightarrow> terminal_from d w \<Longrightarrow> terminal_from d w'"
proof (induction rule: step.induct)
  case (claim w i spec h s key scope generation r s')
  then show ?case using claim_changes [OF claim.hyps(3,5)] by (simp add: terminal_from_def)
next
  case (mark w i key h spec s r s')
  then show ?case using mark_changes [OF mark.hyps(2,4)] by (simp add: terminal_from_def)
next
  case (launch w i key h spec out)
  then show ?case by (auto simp: terminal_from_def)
next
  case (record_result w i key h code s r s')
  have "phase_ok (w_db w) (w_events w) (Finished key h (Returned (PyInt code)))"
    using record_result.prems(1) record_result.hyps(1) unfolding evidence_def by metis
  then obtain e where "e \<in> set (w_events w)" "ev_key e = key" "ev_hash e = h" "ev_outcome e = Returned (PyInt code)"
    by (auto simp: phase_ok_def)
  note e = this
  show ?case
    unfolding terminal_from_def
  proof (intro allI impI)
    fix k l
    assume l: "launch_at (abs_of (w_db (set_phase i Outside (w\<lparr>w_db := durable s'\<rparr>)))) k = Some l"
      "lch_state l = TERMINAL"
    then have "launch_at (abs_of (w_db w)) k = Some l \<or> k = key \<and> lch_hash l = h \<and> lch_exit l = Some code"
      using record_changes [OF record_result.hyps(2,4)] record_result.hyps(3) by simp
    then show "launch_at (abs_of d) k = Some l \<or>
        (\<exists>e\<in>set (w_events (set_phase i Outside (w\<lparr>w_db := durable s'\<rparr>))). \<exists>code. ev_key e = k
          \<and> ev_hash e = lch_hash l \<and> ev_outcome e = Returned (PyInt code) \<and> lch_exit l = Some code)"
    proof
      assume "launch_at (abs_of (w_db w)) k = Some l"
      with record_result.prems(2) l(2) show ?thesis by (simp add: terminal_from_def)
    next
      assume "k = key \<and> lch_hash l = h \<and> lch_exit l = Some code"
      with e show ?thesis by auto
    qed
  qed
next
  case (crash w i)
  then show ?case by (simp add: terminal_from_def)
next
  case (other q s w r s')
  then have "launches (abs_of (durable s')) = launches (abs_of (w_db w))"
    using ordinary_request_launches [of q s] by simp
  with other.prems show ?case by (simp add: terminal_from_def launch_at_def)
qed

lemma steps_terminal: "steps v w \<Longrightarrow> evidence v \<Longrightarrow> terminal_from d v \<Longrightarrow> terminal_from d w"
  by (induction rule: steps.induct) (auto intro: step_terminal steps_evidence)

lemma start_terminal: "terminal_from d (start d)"
  by (simp add: terminal_from_def start_def)

section \<open>The program is a sequence of these steps\<close>

lemma idle_handle_ok: "idle s \<Longrightarrow> handle_ok s"
  by (simp add: idle_def handle_ok_def no_tx_def)

definition follows :: "world \<Rightarrow> nat \<Rightarrow> runner \<Rightarrow> world \<Rightarrow> runner \<Rightarrow> bool" where
  "follows w i c w' c' \<longleftrightarrow> steps w w' \<and> w_db w' = durable (rn_store c') \<and> (\<forall>j. j \<noteq> i \<longrightarrow> w_phase w' j = w_phase w j)
     \<and> (\<exists>es. w_events w' = w_events w @ es \<and> rn_launched c' = rn_launched c @ es)"

lemma follows_step:
  assumes "follows w i c w' c'" "step w' (set_phase i p (w'\<lparr>w_db := durable s\<rparr>))"
  shows "follows w i c (set_phase i p (w'\<lparr>w_db := durable s\<rparr>)) (c'\<lparr>rn_store := s\<rparr>)"
  using assms by (auto simp: follows_def intro: steps.more)

lemma follows_launch:
  assumes "follows w i c w' c'" "w_phase w' i = Authorized key h spec"
  shows "follows w i c (set_phase i (Finished key h (next_outcome c')) (w'\<lparr>w_events := w_events w' @
      [\<lparr>ev_key = key, ev_hash = h, ev_call = launcher_call spec, ev_outcome = next_outcome c'\<rparr>]\<rparr>))
    (snd (launch key h spec c'))"
  using assms step.launch [OF assms(2), of "next_outcome c'"]
  by (auto simp: follows_def launch_def Let_def split: launch_outcome.split intro: steps.more)

text \<open>A call through the handle: the step it makes and the state it leaves.\<close>

lemma run_in_store: "in_store m c = (fst (m (rn_store c)), c\<lparr>rn_store := snd (m (rn_store c))\<rparr>)"
  by (simp add: in_store_def split: prod.split)

lemma execute_after_launch:
  assumes "follows w i c w1 c1" "w_phase w1 i = Finished key h (Returned (PyInt code))" "handle_ok (rn_store c1)"
  shows "\<exists>w'. follows w i c w' (snd (in_store (record_execution_terminal_result key (PyStr h) (PyInt code)) c1))"
proof -
  let ?s = "snd (record_execution_terminal_result key (PyStr h) (PyInt code) (rn_store c1))"
  have "step w1 (set_phase i Outside (w1\<lparr>w_db := durable ?s\<rparr>))"
    by (rule step.record_result [OF assms(2,3) _ prod.collapse [symmetric]])
      (use assms(1) in \<open>simp add: follows_def\<close>)
  from follows_step [OF assms(1) this] show ?thesis by (auto simp: run_in_store)
qed

lemma execute_from_authorized:
  assumes "follows w i c w1 c1" "w_phase w1 i = Authorized key h spec" "handle_ok (rn_store c1)"
  shows "\<exists>w'. follows w i c w' (snd (bnd (launch key h spec) (\<lambda>exit_code.
     case exact_int exit_code of
       None \<Rightarrow> raise TypeError
     | Some code \<Rightarrow> sq (in_store (record_execution_terminal_result key (PyStr h) (PyInt code)))
         (ret \<lparr>res_key = key, res_hash = h, res_exit = code\<rparr>)) c1))"
proof -
  obtain r c2 where run: "launch key h spec c1 = (r, c2)" by (cases "launch key h spec c1")
  then have r: "r = (case next_outcome c1 of Returned v \<Rightarrow> Inr v | Raised e \<Rightarrow> Inl e)"
    and store: "rn_store c2 = rn_store c1"
    by (auto simp: launch_def Let_def split: launch_outcome.splits)
  note after = follows_launch [OF assms(1,2), unfolded run snd_conv]
  show ?thesis
  proof (cases "\<exists>code. next_outcome c1 = Returned (PyInt code)")
    case True
    then obtain code where code: "next_outcome c1 = Returned (PyInt code)" by blast
    obtain w' where "follows w i c w' (snd (in_store (record_execution_terminal_result key (PyStr h) (PyInt code)) c2))"
      using execute_after_launch [OF after, of key h code] code store assms(3) by auto
    then show ?thesis
      using run r code by (auto simp: run_bnd run_sq run_simps split: prod.split sum.split)
  next
    case False
    then have "snd (bnd (launch key h spec) (\<lambda>exit_code. case exact_int exit_code of
         None \<Rightarrow> raise TypeError
       | Some code \<Rightarrow> sq (in_store (record_execution_terminal_result key (PyStr h) (PyInt code)))
           (ret \<lparr>res_key = key, res_hash = h, res_exit = code\<rparr>)) c1) = c2"
      using run r by (auto simp: run_bnd run_simps split: launch_outcome.splits option.split)
    with after show ?thesis by auto
  qed
qed

lemma execute_simulated:
  assumes ok: "handle_ok (rn_store c)" and db: "w_db w = durable (rn_store c)" and out: "w_phase w i = Outside"
  shows "\<exists>w'. follows w i c w' (snd (execute_local_command key scope generation spec c))"
proof (cases "command_spec_hash spec")
  case (Inl e)
  have "follows w i c w c" using db by (simp add: follows_def steps.none)
  with Inl show ?thesis by (auto simp: execute_local_command_def run_bnd run_simps)
next
  case (Inr h)
  have start: "follows w i c w c" using db by (simp add: follows_def steps.none)
  obtain r1 s1 where claim: "claim_execution_launch key scope generation (PyStr h) (rn_store c) = (r1, s1)"
    by (cases "claim_execution_launch key scope generation (PyStr h) (rn_store c)")
  note one = follows_step [OF start step.claim [OF out Inr ok db [symmetric] claim]]
  let ?c1 = "c\<lparr>rn_store := s1\<rparr>"
  show ?thesis
  proof (cases r1)
    case (Inl e)
    with one claim Inr show ?thesis
      by (auto simp: execute_local_command_def run_bnd run_sq run_simps run_in_store)
  next
    case (Inr l)
    let ?w1 = "set_phase i (Holding key h spec) (w\<lparr>w_db := durable s1\<rparr>)"
    have h1: "handle_ok s1" using claim.returned(2) [OF ok claim [unfolded Inr]] by (rule idle_handle_ok)
    have one': "follows w i c ?w1 ?c1" using one Inr by simp
    obtain r2 s2 where mark: "mark_execution_launch_unknown key (PyStr h) s1 = (r2, s2)"
      by (cases "mark_execution_launch_unknown key (PyStr h) s1")
    have "step ?w1 (set_phase i (case r2 of Inr _ \<Rightarrow> Authorized key h spec | Inl _ \<Rightarrow> Outside) (?w1\<lparr>w_db := durable s2\<rparr>))"
      by (rule step.mark [OF _ h1 _ mark]) simp_all
    note two = follows_step [OF one' this]
    note run = execute_local_command_def run_bnd run_sq run_simps run_in_store \<open>command_spec_hash spec = Inr h\<close> claim Inr mark
    show ?thesis
    proof (cases r2)
      case (Inl e)
      with two show ?thesis by (auto simp: run)
    next
      case (Inr m)
      let ?w2 = "set_phase i (Authorized key h spec) (?w1\<lparr>w_db := durable s2\<rparr>)"
      have h2: "handle_ok s2" using mark.returned(2) [OF h1 mark [unfolded Inr]] by (rule idle_handle_ok)
      have "follows w i c ?w2 (?c1\<lparr>rn_store := s2\<rparr>)" using two Inr by simp
      from execute_from_authorized [OF this, of key h spec] h2 show ?thesis
        using Inr by (auto simp: execute_local_command_def run_sq run_in_store claim mark \<open>command_spec_hash spec = Inr h\<close>
            \<open>r1 = Inr l\<close> bnd_of_Inr)
    qed
  qed
qed

section \<open>Keys that were launched before\<close>

definition spent :: "database \<Rightarrow> world \<Rightarrow> bool" where
  "spent d w \<longleftrightarrow> (\<forall>key. launch_at (abs_of d) key \<noteq> None \<longrightarrow>
     launch_at (abs_of (w_db w)) key \<noteq> None \<and> launched w key = [] \<and> (\<forall>i. \<not> holds w i key))"

lemma step_spent:
  assumes "step w w'" "spent d w"
  shows "spent d w'"
proof -
  have at: "launch_at (abs_of d) key \<noteq> None \<Longrightarrow> launch_at (abs_of (w_db w')) key \<noteq> None" for key
    using launch_at_advances [OF step_advances [OF assms(1)]] assms(2) by (simp add: spent_def)
  have "launched w' key = [] \<and> (\<forall>i. \<not> holds w' i key)" if key: "launch_at (abs_of d) key \<noteq> None" for key
    using assms(1)
  proof cases
    case (claim i spec h s key' scope generation r s')
    have "r = Inr l \<Longrightarrow> key' \<noteq> key" for l
      using claimed_at(1) [OF claim(4), of key' scope generation h l s'] claim(5,6) key assms(2)
      by (auto simp: spent_def)
    with claim key assms(2) show ?thesis
      by (cases r) (auto simp: spent_def holds_set_phase launched_def)
  next
    case (mark i key' h spec s r s')
    then have "holds w i key'" by (simp add: holds_def)
    with mark key assms(2) show ?thesis
      by (cases r) (auto simp: spent_def holds_set_phase launched_def)
  next
    case (launch i key' h spec out)
    then have "holds w i key'" by (simp add: holds_def)
    then have "key' \<noteq> key" "launched w key = []" "\<forall>j. \<not> holds w j key"
      using key assms(2) by (auto simp: spent_def)
    then show ?thesis unfolding launch(1) by (auto simp: launched_def holds_def)
  next
    case (record_result i key' h code s r s')
    with key assms(2) show ?thesis by (auto simp: spent_def holds_set_phase launched_def)
  next
    case (crash i)
    with key assms(2) show ?thesis by (auto simp: spent_def holds_set_phase launched_def)
  next
    case (other q s r s')
    with key assms(2) show ?thesis by (auto simp: spent_def launched_def)
  qed
  with at show ?thesis by (simp add: spent_def)
qed

lemma steps_spent: "steps v w \<Longrightarrow> spent d v \<Longrightarrow> spent d w"
  by (induction rule: steps.induct) (auto intro: step_spent)

lemma start_spent: "spent d (start d)"
  by (simp add: spent_def start_def holds_def launched_def)

lemma steps_advance: "steps v w \<Longrightarrow> advances (w_db v) (w_db w)"
proof (induction rule: steps.induct)
  case (more w w' w'')
  then show ?case using step_advances [of w' w''] by (auto simp: advances_def intro: auth_le_trans)
qed (simp add: advances_def)

section \<open>A completed execution\<close>

lemma execute_returned:
  assumes ok: "handle_ok (rn_store c)" and run: "execute_local_command key scope generation spec c = (Inr res, c')"
  obtains k sc g h where "key = PyStr k" "as_str scope = Some sc" "generation = PyInt g" "command_spec_hash spec = Inr h"
    "launches (abs_of (durable (rn_store c))) k = None"
    "bindings (abs_of (durable (rn_store c))) k = Some h"
    "admissions (abs_of (durable (rn_store c))) k = Some (sc, g)"
    "generations (abs_of (durable (rn_store c))) sc = Some g"
    "abs_of (durable (rn_store c')) = (abs_of (durable (rn_store c)))\<lparr>launches :=
      (launches (abs_of (durable (rn_store c))))(k \<mapsto> \<lparr>lch_key = k, lch_hash = h, lch_scope = sc,
         lch_generation = g, lch_state = TERMINAL, lch_exit = Some (res_exit res)\<rparr>)\<rparr>"
    "rn_launched c' = rn_launched c @ [\<lparr>ev_key = key, ev_hash = h, ev_call = launcher_call spec,
       ev_outcome = Returned (PyInt (res_exit res))\<rparr>]"
    "res = \<lparr>res_key = key, res_hash = h, res_exit = res_exit res\<rparr>"
proof -
  obtain h where h: "command_spec_hash spec = Inr h"
    using run by (auto simp: execute_local_command_def run_bnd run_simps split: sum.splits)
  obtain r1 s1 where claim: "claim_execution_launch key scope generation (PyStr h) (rn_store c) = (r1, s1)"
    by (cases "claim_execution_launch key scope generation (PyStr h) (rn_store c)")
  with run h obtain l where l: "r1 = Inr l"
    by (cases r1) (auto simp: execute_local_command_def run_bnd run_sq run_simps run_in_store)
  obtain r2 s2 where mark: "mark_execution_launch_unknown key (PyStr h) s1 = (r2, s2)"
    by (cases "mark_execution_launch_unknown key (PyStr h) s1")
  with run h claim l obtain m where m: "r2 = Inr m"
    by (cases r2) (auto simp: execute_local_command_def run_bnd run_sq run_simps run_in_store)
  let ?c2 = "c\<lparr>rn_store := s2\<rparr>"
  let ?e = "\<lambda>out. \<lparr>ev_key = key, ev_hash = h, ev_call = launcher_call spec, ev_outcome = out\<rparr>"
  obtain code where code: "next_outcome ?c2 = Returned (PyInt code)"
    using run h claim l mark m
    by (cases "next_outcome ?c2"; cases "case next_outcome ?c2 of Returned v \<Rightarrow> exact_int v | Raised e \<Rightarrow> None")
      (auto simp: execute_local_command_def run_bnd run_sq run_simps run_in_store launch_def Let_def)
  obtain r3 s3 where rec: "record_execution_terminal_result key (PyStr h) (PyInt code) s2 = (r3, s3)"
    by (cases "record_execution_terminal_result key (PyStr h) (PyInt code) s2")
  with run h claim l mark m code obtain n where n: "r3 = Inr n" and res: "res = \<lparr>res_key = key, res_hash = h, res_exit = code\<rparr>"
    and c': "c' = c\<lparr>rn_store := s3, rn_launched := rn_launched c @ [?e (Returned (PyInt code))],
        rn_outcomes := tl (rn_outcomes c)\<rparr>"
    by (cases r3) (auto simp: execute_local_command_def run_bnd run_sq run_simps run_in_store launch_def Let_def)
  note ok1 = idle_handle_ok [OF claim.returned(2) [OF ok claim [unfolded l]]]
  note ok2 = idle_handle_ok [OF mark.returned(2) [OF ok1 mark [unfolded m]]]
  note one = claim.returned(1) [OF ok claim [unfolded l], unfolded s_claim_Inr]
  then obtain k sc g where k: "key = PyStr k" "as_str scope = Some sc" "generation = PyInt g"
      "bindings (abs_of (durable (rn_store c))) k = Some h" "admissions (abs_of (durable (rn_store c))) k = Some (sc, g)"
      "generations (abs_of (durable (rn_store c))) sc = Some g" "launches (abs_of (durable (rn_store c))) k = None"
      "abs_of (durable s1) = (abs_of (durable (rn_store c)))\<lparr>launches :=
         (launches (abs_of (durable (rn_store c))))(k \<mapsto> intent_launch k sc g h)\<rparr>"
    by blast
  have two: "abs_of (durable s2) = (abs_of (durable (rn_store c)))\<lparr>launches :=
         (launches (abs_of (durable (rn_store c))))(k \<mapsto> (intent_launch k sc g h)\<lparr>lch_state := UNKNOWN, lch_exit := None\<rparr>)\<rparr>"
    by (rule s_mark_Inr [OF mark.returned(1) [OF ok1 mark [unfolded m]]]) (use k in simp)
  have "abs_of (durable s3) = (abs_of (durable (rn_store c)))\<lparr>launches :=
         (launches (abs_of (durable (rn_store c))))(k \<mapsto> (intent_launch k sc g h)\<lparr>lch_state := TERMINAL, lch_exit := Some code\<rparr>)\<rparr>"
  proof -
    have "launches (abs_of (durable s2)) k = Some ((intent_launch k sc g h)\<lparr>lch_state := UNKNOWN, lch_exit := None\<rparr>)"
      by (simp add: two)
    from s_record_launch [OF record_op.returned(1) [OF ok2 rec [unfolded n]] k(1) this]
    show ?thesis by (simp add: two)
  qed
  moreover have "(intent_launch k sc g h)\<lparr>lch_state := TERMINAL, lch_exit := Some code\<rparr> =
      \<lparr>lch_key = k, lch_hash = h, lch_scope = sc, lch_generation = g, lch_state = TERMINAL, lch_exit = Some code\<rparr>"
    by (simp add: intent_launch_def)
  ultimately have db: "abs_of (durable (rn_store c')) = (abs_of (durable (rn_store c)))\<lparr>launches :=
      (launches (abs_of (durable (rn_store c))))(k \<mapsto> \<lparr>lch_key = k, lch_hash = h, lch_scope = sc,
         lch_generation = g, lch_state = TERMINAL, lch_exit = Some code\<rparr>)\<rparr>"
    by (simp add: c')
  have launched: "rn_launched c' = rn_launched c @ [?e (Returned (PyInt code))]" by (simp add: c')
  have exit: "res_exit res = code" by (simp add: res)
  show thesis
    by (rule that [OF k(1-3) h k(7,4-6), unfolded exit, OF db launched res])
qed

text \<open>
  Without failures an admitted, bound and unlaunched key runs to its terminal result, whatever
  exit code in range the process gives.
\<close>

definition admitted_for :: "auth \<Rightarrow> pystr \<Rightarrow> pystr \<Rightarrow> int \<Rightarrow> pystr \<Rightarrow> bool" where
  "admitted_for a k sc g h \<longleftrightarrow> bindings a k = Some h \<and> admissions a k = Some (sc, g)
     \<and> generations a sc = Some g \<and> launches a k = None \<and> encodable k \<and> encodable sc"

lemma admitted_for_usable:
  assumes "store_valid d" "admitted_for (abs_of d) k sc g h"
  shows "k \<in> registered (abs_of d)" "k \<noteq> []" "h \<noteq> []" "encodable h" "sc \<noteq> []" "0 < g" "g \<le> max_generation"
proof -
  note ok = valid_authority_ok [OF assms(1), unfolded authority_ok_def]
  show "k \<in> registered (abs_of d)" "h \<noteq> []" "encodable h" "sc \<noteq> []" "0 < g" "g \<le> max_generation"
    using ok assms(2) unfolding admitted_for_def by blast+
  then obtain r where r: "row_by kr_key k (t_keys d) = Some r" by (auto simp: abs_of_def)
  have "text_nonempty (SText k)"
    using row_by_Some [OF r] assms(1) by (auto simp: store_valid_parts keys_valid_def key_valid_def)
  then show "k \<noteq> []" by (simp add: text_nonempty_def)
qed

lemma s_transitions_succeed:
  assumes "launches a k = Some l" "lch_hash l = h" "k \<noteq> []" "encodable k" "h \<noteq> []" "encodable h"
  shows "lch_state l = INTENT \<Longrightarrow> s_mark_execution_launch_unknown (PyStr k) (PyStr h) a =
      (Inr (l\<lparr>lch_state := UNKNOWN, lch_exit := None\<rparr>),
       a\<lparr>launches := (launches a)(k \<mapsto> l\<lparr>lch_state := UNKNOWN, lch_exit := None\<rparr>)\<rparr>)"
    and "lch_state l = UNKNOWN \<Longrightarrow> min_sqlite_integer \<le> i \<Longrightarrow> i \<le> max_sqlite_integer \<Longrightarrow>
      s_record_execution_terminal_result (PyStr k) (PyStr h) (PyInt i) a =
      (Inr (l\<lparr>lch_state := TERMINAL, lch_exit := Some i\<rparr>),
       a\<lparr>launches := (launches a)(k \<mapsto> l\<lparr>lch_state := TERMINAL, lch_exit := Some i\<rparr>)\<rparr>)"
proof -
  have arg: "validate_execution_key (PyStr k) = Inr k" "validate_command_spec_hash (PyStr h) = Inr h"
    "min_sqlite_integer \<le> i \<Longrightarrow> i \<le> max_sqlite_integer \<Longrightarrow> validate_process_exit_code (PyInt i) = Inr i"
    using assms utf8_encode_None [of h]
    by (auto simp: validate_execution_key_def validate_command_spec_hash_def validate_process_exit_code_def
        split: option.split)
  show "lch_state l = INTENT \<Longrightarrow> s_mark_execution_launch_unknown (PyStr k) (PyStr h) a =
      (Inr (l\<lparr>lch_state := UNKNOWN, lch_exit := None\<rparr>),
       a\<lparr>launches := (launches a)(k \<mapsto> l\<lparr>lch_state := UNKNOWN, lch_exit := None\<rparr>)\<rparr>)"
    using assms by (simp add: s_mark_execution_launch_unknown_def arg bnd_of_Inr a_mark_def transition_Inr)
  show "lch_state l = UNKNOWN \<Longrightarrow> min_sqlite_integer \<le> i \<Longrightarrow> i \<le> max_sqlite_integer \<Longrightarrow>
      s_record_execution_terminal_result (PyStr k) (PyStr h) (PyInt i) a =
      (Inr (l\<lparr>lch_state := TERMINAL, lch_exit := Some i\<rparr>),
       a\<lparr>launches := (launches a)(k \<mapsto> l\<lparr>lch_state := TERMINAL, lch_exit := Some i\<rparr>)\<rparr>)"
    using assms by (simp add: s_record_execution_terminal_result_def arg bnd_of_Inr a_record_def transition_Inr)
qed

lemma execute_succeeds:
  assumes quiet: "no_faults (rn_store c)" and hash: "command_spec_hash spec = Inr h" and scope: "as_str scope = Some sc"
    and adm: "admitted_for (abs_of (durable (rn_store c))) k sc g h"
    and out: "next_outcome c = Returned (PyInt code)" and code: "min_sqlite_integer \<le> code" "code \<le> max_sqlite_integer"
  shows "\<exists>c'. execute_local_command (PyStr k) scope (PyInt g) spec c =
      (Inr \<lparr>res_key = PyStr k, res_hash = h, res_exit = code\<rparr>, c') \<and> no_faults (rn_store c')"
proof -
  let ?a = "abs_of (durable (rn_store c))"
  have "store_valid (durable (rn_store c))" using quiet by (simp add: no_faults_def)
  note use = admitted_for_usable [OF this adm]
  let ?l = "intent_launch k sc g h"
  let ?a1 = "?a\<lparr>launches := (launches ?a)(k \<mapsto> ?l)\<rparr>"
  have "s_claim_execution_launch (PyStr k) scope (PyInt g) (PyStr h) ?a = (Inr ?l, ?a1)"
    unfolding s_claim_Inr using adm use scope by (auto simp: admitted_for_def)
  then obtain s1 where one: "claim_execution_launch (PyStr k) scope (PyInt g) (PyStr h) (rn_store c) = (Inr ?l, s1)"
      "no_faults s1" "abs_of (durable s1) = ?a1"
    by (rule claim.succeeds [OF quiet])
  let ?m = "?l\<lparr>lch_state := UNKNOWN, lch_exit := None\<rparr>"
  have enc: "encodable k" using adm by (simp add: admitted_for_def)
  have "launches (abs_of (durable s1)) k = Some ?l" "lch_hash ?l = h" "lch_state ?l = INTENT"
    by (simp_all add: one intent_launch_def)
  note s_transitions_succeed(1) [OF this(1,2) use(2) enc use(3,4) this(3)]
  then obtain s2 where two: "mark_execution_launch_unknown (PyStr k) (PyStr h) s1 = (Inr ?m, s2)"
      "no_faults s2" "abs_of (durable s2) = (abs_of (durable s1))\<lparr>launches := (launches (abs_of (durable s1)))(k \<mapsto> ?m)\<rparr>"
    by (rule mark.succeeds [OF one(2)])
  have "launches (abs_of (durable s2)) k = Some ?m" "lch_hash ?m = h" "lch_state ?m = UNKNOWN"
    by (simp_all add: two intent_launch_def)
  note s_transitions_succeed(2) [OF this(1,2) use(2) enc use(3,4) this(3) code]
  then obtain s3 x where three: "record_execution_terminal_result (PyStr k) (PyStr h) (PyInt code) s2 = (Inr x, s3)" "no_faults s3"
    by (rule record_op.succeeds [OF two(2)])
  have "next_outcome (c\<lparr>rn_store := s\<rparr>) = Returned (PyInt code)" for s
    using out by (simp add: next_outcome_def)
  then show ?thesis
    using one(1) two(1) three hash
    by (simp add: execute_local_command_def run_bnd run_sq run_simps run_in_store launch_def Let_def)
qed

end
