(* ===== verification/Authority_Fencing.thy ===== *)
theory Authority_Fencing
  imports Local_Execution
begin

text \<open>
  What controllers can conclude from the results of their calls: generations as fencing tokens,
  and a claim as the end of all later claims of its key.
\<close>

section \<open>Generations\<close>

lemma s_acquire_Inr:
  "s_acquire_generation scope a = (Inr g, a') \<longleftrightarrow>
     (\<exists>sc. as_str scope = Some sc \<and> sc \<noteq> [] \<and> encodable sc
        \<and> (case generations a sc of None \<Rightarrow> g = 1 | Some n \<Rightarrow> n \<noteq> max_generation \<and> g = n + 1)
        \<and> a' = a\<lparr>generations := (generations a)(sc \<mapsto> g)\<rparr>)"
proof -
  have arg: "validate_scope scope = Inr sc \<longleftrightarrow> as_str scope = Some sc \<and> sc \<noteq> []" for sc
    by (auto simp: validate_scope_def split: option.splits)
  show ?thesis
    unfolding s_acquire_generation_def run_argument arg
    by (auto simp: a_acquire_def run_sq run_param split: option.splits if_splits)
qed

lemma acquired:
  assumes "handle_ok s" "acquire_generation scope s = (Inr g, s')"
  obtains sc where "as_str scope = Some sc" "generations (abs_of (durable s')) sc = Some g"
    "case generations (abs_of (durable s)) sc of None \<Rightarrow> g = 1 | Some n \<Rightarrow> g = n + 1"
    "store_valid (durable s')"
proof -
  have idle: "idle s" by (rule acquire.returns_idle [OF assms])
  have "s_acquire_generation scope (abs_of (durable s)) = (Inr g, abs_of (durable s'))"
    by (rule acquire.returns(4) [OF idle assms(2)])
  then show thesis
    using acquire.returns(3) [OF idle assms(2)] by (auto simp: s_acquire_Inr split: option.splits intro!: that)
qed

lemma history_le: "history d e \<Longrightarrow> auth_le (abs_of d) (abs_of e)"
  using history_advances [of d e] by (auto simp: advances_def)

lemma generation_grows:
  "history d e \<Longrightarrow> generations (abs_of d) sc = Some g \<Longrightarrow> \<exists>h\<ge>g. generations (abs_of e) sc = Some h"
  using history_le by (auto simp: auth_le_def)

lemma later_generation:
  assumes one: "handle_ok s" "acquire_generation scope s = (Inr g, s')" and between: "history (durable s') (durable t)"
    and two: "handle_ok t" "acquire_generation scope t = (Inr h, t')"
  shows "g < h"
proof -
  obtain sc where sc: "as_str scope = Some sc" "generations (abs_of (durable s')) sc = Some g"
    by (rule acquired [OF one])
  obtain n where "n \<ge> g" "generations (abs_of (durable t)) sc = Some n"
    using generation_grows [OF between sc(2)] by blast
  moreover obtain sc' where "as_str scope = Some sc'"
      "case generations (abs_of (durable t)) sc' of None \<Rightarrow> h = 1 | Some n \<Rightarrow> h = n + 1"
    by (rule acquired [OF two])
  ultimately show ?thesis using sc(1) by simp
qed

section \<open>Claims\<close>

lemma claimed:
  assumes "handle_ok s" "claim_execution_launch key scope generation hash s = (Inr l, s')"
  obtains k sc g h where "key = PyStr k" "as_str scope = Some sc" "generation = PyInt g" "hash = PyStr h"
    "k \<in> registered (abs_of (durable s))" "bindings (abs_of (durable s)) k = Some h"
    "admissions (abs_of (durable s)) k = Some (sc, g)" "generations (abs_of (durable s)) sc = Some g"
    "launches (abs_of (durable s)) k = None" "l = intent_launch k sc g h"
    "abs_of (durable s') = (abs_of (durable s))\<lparr>launches := (launches (abs_of (durable s)))(k \<mapsto> l)\<rparr>"
    "store_valid (durable s')"
proof -
  have idle: "idle s" by (rule claim.returns_idle [OF assms])
  have spec: "s_claim_execution_launch key scope generation hash (abs_of (durable s)) = (Inr l, abs_of (durable s'))"
    by (rule claim.returns(4) [OF idle assms(2)])
  then obtain h where h: "hash = PyStr h"
    unfolding s_claim_execution_launch_def run_argument
    by (auto simp: validate_command_spec_hash_def split: option.splits)
  from spec [unfolded h s_claim_Inr] obtain k sc g where c: "key = PyStr k" "as_str scope = Some sc" "generation = PyInt g"
    "k \<in> registered (abs_of (durable s))" "bindings (abs_of (durable s)) k = Some h"
    "admissions (abs_of (durable s)) k = Some (sc, g)" "generations (abs_of (durable s)) sc = Some g"
    "launches (abs_of (durable s)) k = None" "l = intent_launch k sc g h"
    "abs_of (durable s') = (abs_of (durable s))\<lparr>launches := (launches (abs_of (durable s)))(k \<mapsto> l)\<rparr>"
    by blast
  show thesis by (rule that [OF c(1-3) h c(4-10) claim.returns(3) [OF idle assms(2)]])
qed

lemma launch_persists:
  "history d e \<Longrightarrow> launches (abs_of d) k \<noteq> None \<Longrightarrow> launches (abs_of e) k \<noteq> None"
  using history_le [of d e] by (auto simp: auth_le_def) blast

lemma claim_once:
  assumes "history d (durable t)" "launches (abs_of d) k \<noteq> None" "handle_ok t"
  shows "isl (fst (claim_execution_launch (PyStr k) scope generation hash t))"
proof (cases "fst (claim_execution_launch (PyStr k) scope generation hash t)")
  case (Inr l)
  then obtain t' where run: "claim_execution_launch (PyStr k) scope generation hash t = (Inr l, t')"
    by (metis prod.collapse)
  from launch_persists [OF assms(1,2)] show ?thesis
    by (cases rule: claimed [OF assms(3) run]) auto
qed simp

text \<open>A generation that has been superseded never claims again.\<close>

lemma claim_fenced:
  assumes "handle_ok s" "acquire_generation scope s = (Inr g, s')" "history (durable s') (durable t)" "handle_ok t" "g' < g"
  shows "isl (fst (claim_execution_launch key scope (PyInt g') hash t))"
proof (cases "fst (claim_execution_launch key scope (PyInt g') hash t)")
  case (Inr l)
  then obtain t' where run: "claim_execution_launch key scope (PyInt g') hash t = (Inr l, t')"
    by (metis prod.collapse)
  obtain sc where sc: "as_str scope = Some sc" "generations (abs_of (durable s')) sc = Some g"
    by (rule acquired [OF assms(1,2)])
  obtain n where "n \<ge> g" "generations (abs_of (durable t)) sc = Some n"
    using generation_grows [OF assms(3) sc(2)] by blast
  then show ?thesis
    by (cases rule: claimed [OF assms(4) run]) (use sc(1) assms(5) in auto)
qed simp

section \<open>Unusable handles\<close>

lemma unusable_request:
  assumes "poisoned s \<or> \<not> connected s"
  shows "\<exists>m. run_request q s = (Inl (AuthorityStoreError m), s)"
proof -
  obtain m where "require_usable_connection s = (Inl (AuthorityStoreError m), s)"
    using unusable [OF assms] by blast
  then show ?thesis
    by (cases q) (simp_all add: store_operations discard_def run_bnd run_sq)
qed

end
