(* ===== verification/Authority_Lifecycle.thy ===== *)
theory Authority_Lifecycle
  imports Authority_Ops
begin

text \<open>
  Store files of \<open>umbilical_authority.py\<close>: creation, opening, the four migrations and closing. The
  host is the machine the process runs on: the database files, the answers of the operating system
  and at most one connection, whose fields are those of \<open>conn\<close>.
\<close>

section \<open>The host\<close>

text \<open>
  \<open>files\<close>: the databases on disk, except that the one at \<open>opened\<close> is \<open>durable\<close> once a connection to
  it is made. \<open>reservation\<close>: the handle that \<open>CreateFileW\<close> returned is still owned. \<open>os_errors\<close>: the
  error codes of the coming calls to the operating system, 0 for success.
\<close>

record host = conn +
  os_nt :: bool
  os_expanduser :: "pystr \<Rightarrow> pystr"
  os_abspath :: "pystr \<Rightarrow> pystr"
  os_errors :: "nat list"
  files :: "pystr \<Rightarrow> database option"
  reservation :: bool
  opened :: "pystr option"

text \<open>What is on disk at a path.\<close>

definition on_disk :: "host \<Rightarrow> pystr \<Rightarrow> database option" where
  "on_disk h p = (if opened h = Some p then Some (durable h) else files h p)"

definition take_os_error :: "(host, nat) prog" where
  "take_os_error = (\<lambda>h. case os_errors h of [] \<Rightarrow> (Inr 0, h) | e # es \<Rightarrow> (Inr e, h\<lparr>os_errors := es\<rparr>))"

definition path_exists :: "pystr \<Rightarrow> (host, bool) prog" where
  "path_exists p = gets (\<lambda>h. on_disk h p \<noteq> None)"

definition normalize_path :: "pystr \<Rightarrow> (host, pystr) prog" where
  "normalize_path path = gets (\<lambda>h. os_abspath h (os_expanduser h path))"

text \<open>
  \<open>CreateFileW\<close> with \<open>CREATE_NEW\<close>: \<open>ERROR_FILE_EXISTS\<close> (80) if there is a file, otherwise a new empty
  one or any other error; the code also takes 183 for an existing file.
\<close>

definition create_file_new :: "pystr \<Rightarrow> (host, nat) prog" where
  "create_file_new p = bnd (gets (\<lambda>h. on_disk h p)) (\<lambda>found. case found of
       Some _ \<Rightarrow> ret 80
     | None \<Rightarrow> bnd take_os_error (\<lambda>e. if e \<noteq> 0 then ret e
         else sq (modify (\<lambda>h. h\<lparr>files := (files h)(p \<mapsto> empty_database)\<rparr>)) (ret 0)))"

definition reserve_new_windows_path :: "pystr \<Rightarrow> (host, unit) prog" where
  "reserve_new_windows_path p = bnd (create_file_new p) (\<lambda>e.
     if e = 0 then modify (\<lambda>h. h\<lparr>reservation := True\<rparr>)
     else if e = 80 \<or> e = 183 then raise FileExistsError else raise OSError)"

text \<open>\<open>_AuthorityStorePathReservation.close\<close>: the handle is given up before it is closed.\<close>

definition close_reservation :: "(host, unit) prog" where
  "close_reservation = bnd (gets reservation) (\<lambda>owned.
     if owned then sq (modify (\<lambda>h. h\<lparr>reservation := False\<rparr>))
       (bnd take_os_error (\<lambda>e. if e \<noteq> 0 then raise OSError else ret ()))
     else ret ())"

text \<open>\<open>sqlite3.connect\<close> with \<open>mode=rw\<close>: never creates a file. \<open>OperationalError\<close> is a \<open>DatabaseError\<close>.\<close>

definition sqlite_connect :: "pystr \<Rightarrow> (host, unit) prog" where
  "sqlite_connect p = bnd (gets (\<lambda>h. on_disk h p)) (\<lambda>found. case found of
       None \<Rightarrow> raise DatabaseError
     | Some d \<Rightarrow> bnd take_fault (\<lambda>f. if f = FOk \<or> f = FRefused
         then modify (\<lambda>h. h\<lparr>durable := d, work := None, is_open := True, write_locked := False,
           synchronous := 2, opened := Some p\<rparr>)
         else raise DatabaseError))"

definition connect_rw :: "pystr \<Rightarrow> (host, unit) prog" where
  "connect_rw p = try_except (sqlite_connect p) (\<lambda>e. if e = DatabaseError
     then bnd (path_exists p) (\<lambda>there. if \<not> there then raise AuthorityStoreMissingError
       else raise (AuthorityStoreError ''unable to open authority store''))
     else raise e)"

text \<open>\<open>str.lower\<close> on the ASCII names of journal modes.\<close>

definition ascii_lower :: "string \<Rightarrow> string" where
  "ascii_lower s = map (\<lambda>c. if 65 \<le> (of_char c :: nat) \<and> (of_char c :: nat) \<le> 90 then char_of ((of_char c :: nat) + 32) else c) s"

definition configure_durability :: "(host, unit) prog" where
  "configure_durability = bnd pragma_journal_wal (\<lambda>mode.
     sq (guard (ascii_lower mode = ''wal'') (AuthorityStoreError ''SQLite refused required WAL journal mode''))
     (sq pragma_synchronous_full (bnd pragma_synchronous (\<lambda>level.
        guard (level = 2) (AuthorityStoreError ''SQLite refused required synchronous=FULL'')))))"

definition rollback_if_needed :: "(host, unit) prog" where
  "rollback_if_needed = bnd conn_in_transaction (\<lambda>b.
     if b then try_except rollback_tx (\<lambda>e. if e = DatabaseError then ret () else raise e) else ret ())"

definition rollback_migration_if_needed :: "string \<Rightarrow> (host, unit) prog" where
  "rollback_migration_if_needed migration_name = bnd conn_in_transaction (\<lambda>b.
     if b then sq (try_except rollback_tx (\<lambda>e. if e = DatabaseError
         then raise (AuthorityStoreError (migration_name @ '' migration rollback failed; durable outcome requires inspection''))
         else raise e))
       (bnd conn_in_transaction (\<lambda>still. guard (\<not> still)
         (AuthorityStoreError (migration_name @ '' migration remained active after rollback; durable outcome requires inspection''))))
     else ret ())"

text \<open>\<open>connection = None\<close>, before a method connects, and \<open>if connection is not None: ...\<close>.\<close>

definition no_connection :: "(host, unit) prog" where
  "no_connection = modify (\<lambda>h. h\<lparr>files := on_disk h, opened := None\<rparr>)"

definition if_connected :: "(host, unit) prog \<Rightarrow> (host, unit) prog" where
  "if_connected m = bnd (gets opened) (\<lambda>p. if p = None then ret () else m)"

text \<open>\<open>cls(store_path, connection)\<close>\<close>

definition make_store :: "pystr \<Rightarrow> (host, store) prog" where
  "make_store p = gets (\<lambda>h. \<lparr>durable = durable h, work = work h, is_open = is_open h,
     write_locked = write_locked h, busy = busy h, synchronous = synchronous h, faults = faults h,
     store_path = p, connected = True, poisoned = False\<rparr>)"

section \<open>Creation\<close>

definition create_schema :: "(host, unit) prog" where
  "create_schema = sq (create_table create_generations_sql) (sq (create_table create_execution_keys_sql)
     (sq (create_table create_execution_command_bindings_sql) (sq (create_table create_execution_admissions_sql)
     (sq (create_table create_execution_launches_sql) (set_user_version schema_version)))))"

definition initialize_connection :: "pystr \<Rightarrow> (host, store) prog" where
  "initialize_connection p = sq (try_finally (connect_rw p) close_reservation)
     (sq configure_durability (sq begin_immediate (sq create_schema (sq validate_store (sq commit_tx (make_store p))))))"

definition initialize_failure :: "exn \<Rightarrow> (host, store) prog" where
  "initialize_failure e =
     (if is_authority_error e then sq (if_connected (sq rollback_if_needed close_connection)) (raise e)
      else if e = OSError \<or> e = DatabaseError
      then sq (if_connected (sq rollback_if_needed close_connection))
        (raise (AuthorityStoreError ''failed to initialize authority store''))
      else raise e)"

definition reservation_failure :: "exn \<Rightarrow> (host, unit) prog" where
  "reservation_failure e = (if e = FileExistsError then raise AuthorityStoreExistsError
     else if e = OSError then raise (AuthorityStoreError ''unable to reserve new authority store'') else raise e)"

definition initialize_new :: "pystr \<Rightarrow> (host, store) prog" where
  "initialize_new path = bnd (gets os_nt) (\<lambda>nt.
     if \<not> nt then raise (AuthorityStoreError ''new authority-store initialization is supported only on Windows'')
     else bnd (normalize_path path) (\<lambda>p.
       sq (try_except (reserve_new_windows_path p) reservation_failure)
       (sq no_connection (try_except (initialize_connection p) initialize_failure))))"

section \<open>Opening\<close>

definition open_failure :: "exn \<Rightarrow> (host, store) prog" where
  "open_failure e =
     (if is_authority_error e then sq (if_connected close_connection) (raise e)
      else if e = DatabaseError then sq (if_connected close_connection) (raise AuthorityStoreMalformedError)
      else raise e)"

definition open_existing :: "pystr \<Rightarrow> (host, store) prog" where
  "open_existing path = bnd (normalize_path path) (\<lambda>p.
     bnd (path_exists p) (\<lambda>there. if \<not> there then raise AuthorityStoreMissingError
     else sq no_connection (try_except
       (sq (connect_rw p) (sq validate_store (sq configure_durability (make_store p))))
       open_failure)))"

section \<open>Migrations\<close>

text \<open>\<open>commit_started\<close> splits the \<open>try\<close> block; both of its \<open>except\<close> clauses are \<open>migration_failure\<close>.\<close>

definition migration_failure :: "string \<Rightarrow> bool \<Rightarrow> exn \<Rightarrow> (host, unit) prog" where
  "migration_failure migration_name commit_started e =
     (let cleanup = try_finally (rollback_migration_if_needed migration_name) close_connection in
      if is_authority_error e
      then sq (if_connected (if commit_started then close_connection else cleanup)) (raise e)
      else if e = DatabaseError
      then sq (if_connected (if commit_started
           then sq close_connection (raise (AuthorityStoreError (migration_name @
             '' migration COMMIT outcome is uncertain; inspect the durable store explicitly'')))
           else cleanup))
         (raise (AuthorityStoreError (migration_name @ '' authority migration failed'')))
      else raise e)"

definition migration_transaction ::
  "int \<Rightarrow> int \<Rightarrow> (host, unit) prog \<Rightarrow> (host, unit) prog \<Rightarrow> ddl \<Rightarrow> pystr \<Rightarrow> (host, unit) prog" where
  "migration_transaction source_version target_version source_validator target_validator create_sql p =
     sq (connect_rw p) (bnd read_schema_version (\<lambda>version.
     sq (guard (version = source_version) AuthorityStoreVersionError)
     (sq configure_durability (sq begin_immediate (sq source_validator (sq (create_table create_sql)
     (sq (set_user_version target_version) target_validator)))))))"

definition final_close :: "(host, unit) prog" where
  "final_close = if_connected (try_except close_connection (\<lambda>e. if e = DatabaseError then ret () else raise e))"

definition migrate_one_table ::
  "int \<Rightarrow> int \<Rightarrow> string \<Rightarrow> (host, unit) prog \<Rightarrow> (host, unit) prog \<Rightarrow> ddl \<Rightarrow> pystr \<Rightarrow> (host, unit) prog" where
  "migrate_one_table source_version target_version migration_name source_validator target_validator create_sql path =
     bnd (normalize_path path) (\<lambda>p.
     bnd (path_exists p) (\<lambda>there. if \<not> there then raise AuthorityStoreMissingError
     else sq no_connection (try_finally
       (sq (try_except
              (migration_transaction source_version target_version source_validator target_validator create_sql p)
              (migration_failure migration_name False))
           (try_except commit_tx (migration_failure migration_name True)))
       final_close)))"

definition migrate_v1_to_v2 :: "pystr \<Rightarrow> (host, unit) prog" where
  "migrate_v1_to_v2 = migrate_one_table v1_schema_version v2_schema_version ''v1-to-v2''
     validate_v1_store validate_v2_store create_execution_keys_sql"

definition migrate_v2_to_v3 :: "pystr \<Rightarrow> (host, unit) prog" where
  "migrate_v2_to_v3 = migrate_one_table v2_schema_version v3_schema_version ''v2-to-v3''
     validate_v2_store validate_v3_store create_execution_command_bindings_sql"

definition migrate_v3_to_v4 :: "pystr \<Rightarrow> (host, unit) prog" where
  "migrate_v3_to_v4 = migrate_one_table v3_schema_version v4_schema_version ''v3-to-v4''
     validate_v3_store validate_v4_store create_execution_admissions_sql"

definition migrate_v4_to_v5 :: "pystr \<Rightarrow> (host, unit) prog" where
  "migrate_v4_to_v5 = migrate_one_table v4_schema_version schema_version ''v4-to-v5''
     validate_v4_store validate_current_store create_execution_launches_sql"

section \<open>The context manager\<close>

definition enter_store :: "(store, unit) prog" where
  "enter_store = ret ()"

definition exit_store :: "(store, unit) prog" where
  "exit_store = close_store"

end
