(* ===== verification/Authority_Files.thy ===== *)
theory Authority_Files
  imports Authority_Lifecycle Authority_Transactions
begin

text \<open>
  What creation, opening and migration do to the files of the host, for every schedule of faults.
  Each stage of a method is summarised by what it may change: outside of a transaction at most the
  journal mode of the connected database, inside of one nothing durable until \<open>COMMIT\<close>.
\<close>

section \<open>Stages that change at most the journal mode\<close>

definition with_journal :: "string \<Rightarrow> database \<Rightarrow> database" where
  "with_journal m d = d\<lparr>journal_mode := m\<rparr>"

lemma with_journal_fields [simp]:
  "with_journal m (with_journal n d) = with_journal m d" "with_journal (journal_mode d) d = d"
  "journal_mode (with_journal m d) = m" "user_version (with_journal m d) = user_version d"
  "schema (with_journal m d) = schema d"
  by (simp_all add: with_journal_def)

definition same_host :: "host \<Rightarrow> host \<Rightarrow> bool" where
  "same_host h h' \<longleftrightarrow> os_nt h' = os_nt h \<and> os_expanduser h' = os_expanduser h \<and> os_abspath h' = os_abspath h
     \<and> files h' = files h \<and> reservation h' = reservation h \<and> opened h' = opened h \<and> busy h' = busy h"

text \<open>\<open>holding h h'\<close>: the same host and the same connected database; \<open>journalled\<close>: up to its journal mode.\<close>

definition holding :: "host \<Rightarrow> host \<Rightarrow> bool" where
  "holding h h' \<longleftrightarrow> same_host h h' \<and> durable h' = durable h"

definition journalled :: "host \<Rightarrow> host \<Rightarrow> bool" where
  "journalled h h' \<longleftrightarrow> same_host h h' \<and> (\<exists>m. durable h' = with_journal m (durable h))"

lemma same_host_refl [simp]: "same_host h h"
  by (simp add: same_host_def)

lemma same_host_trans: "same_host a b \<Longrightarrow> same_host b c \<Longrightarrow> same_host a c"
  by (simp add: same_host_def)

lemma holding_refl [simp]: "holding h h"
  by (simp add: holding_def)

lemma holding_trans: "holding a b \<Longrightarrow> holding b c \<Longrightarrow> holding a c"
  by (auto simp: holding_def intro: same_host_trans)

lemma holding_journalled: "holding h h' \<Longrightarrow> journalled h h'"
  unfolding journalled_def holding_def by (metis with_journal_fields(2))

lemma journalled_refl [simp]: "journalled h h"
  by (simp add: holding_journalled)

lemma journalled_trans: "journalled a b \<Longrightarrow> journalled b c \<Longrightarrow> journalled a c"
  by (auto simp: journalled_def intro: same_host_trans)

lemmas journalled_intros = holding_journalled journalled_trans holding_trans

lemma lost_holding: "lost h h' \<Longrightarrow> holding h h'"
  by (auto simp: lost_def holding_def same_host_def end_tx_def)

lemma spoiled_holding: "spoiled h h' \<Longrightarrow> holding h h'"
  by (auto simp: spoiled_def holding_def same_host_def)

lemma work_holding: "holding h (h\<lparr>work := w, faults := fs\<rparr>)"
  by (simp add: holding_def same_host_def)

section \<open>The statements\<close>

lemma begin_host:
  assumes "begin_immediate h = (r, h')" "is_open h" "work h = None"
  shows "holding h h' \<and> (case r of Inr _ \<Rightarrow> work h' = Some (durable h) \<and> is_open h' \<and> synchronous h' = synchronous h
    \<and> faults h' = tl (faults h) | Inl e \<Rightarrow> e = DatabaseError)"
  using assms unfolding begin_immediate_def
  by (auto simp: execute_cases in_transaction_def holding_def same_host_def end_tx_def
      split: list.splits fault.splits if_splits)

lemma commit_host:
  assumes "commit_tx h = (r, h')" "is_open h" "work h = Some d"
  shows "same_host h h' \<and> (case r of
      Inr _ \<Rightarrow> durable h' = d \<and> work h' = None \<and> \<not> write_locked h' \<and> is_open h' \<and> synchronous h' = synchronous h
    | Inl e \<Rightarrow> e = DatabaseError \<and> (durable h' = durable h \<or> durable h' = d))"
  using assms unfolding commit_tx_def
  by (auto simp: execute_cases same_host_def end_tx_def split: list.splits fault.splits if_splits)

lemma rollback_host: "rollback_tx h = (r, h') \<Longrightarrow> holding h h' \<and> (\<forall>e. r = Inl e \<longrightarrow> e = DatabaseError)"
  by (auto simp: rollback_tx_def execute_def execute_f_def run_combinators take_fault_def holding_def same_host_def
      end_tx_def in_transaction_def split: list.splits fault.splits if_splits)

lemma close_host: "close_connection h = (r, h') \<Longrightarrow> holding h h' \<and> (\<forall>e. r = Inl e \<longrightarrow> e = DatabaseError)"
  by (auto simp: close_connection_def run_combinators take_fault_def holding_def same_host_def
      end_tx_def split: list.splits fault.splits if_splits prod.splits sum.splits)

lemma in_transaction_host: "conn_in_transaction h = (r, h') \<Longrightarrow> h' = h \<and> (\<forall>e. r = Inl e \<longrightarrow> e = DatabaseError)"
  by (auto simp: conn_in_transaction_def run_combinators split: if_splits)

lemma journal_host:
  assumes "pragma_journal_wal h = (r, h')" "is_open h" "work h = None"
  shows "journalled h h' \<and> is_open h' \<and> work h' = None
    \<and> (case r of Inr m \<Rightarrow> m = journal_mode (durable h') | Inl e \<Rightarrow> e = DatabaseError)"
proof -
  have "journalled h (h\<lparr>durable := (durable h)\<lparr>journal_mode := ''wal''\<rparr>\<rparr>)" 
    "journalled h (h\<lparr>durable := (durable h)\<lparr>journal_mode := ''wal''\<rparr>, faults := fs\<rparr>)"
    "journalled h (h\<lparr>faults := fs\<rparr>)" "journalled h (end_tx (h\<lparr>faults := fs\<rparr>))" for fs
    by (auto simp: journalled_def same_host_def with_journal_def end_tx_def intro: exI [of _ "journal_mode (durable h)"])
  then show ?thesis
    using assms unfolding pragma_journal_wal_def
    by (auto simp: execute_f_def run_combinators take_fault_def view_def put_view_def end_tx_def
        split: list.splits fault.splits prod.splits sum.splits)
qed

lemma synchronous_host:
  assumes "pragma_synchronous_full h = (r, h')"
  shows "holding h h' \<and> (work h = None \<longrightarrow> work h' = None) \<and> is_open h' = is_open h \<and> (\<forall>e. r = Inl e \<longrightarrow> e = DatabaseError)"
  using assms unfolding pragma_synchronous_full_def
  by (auto simp: execute_f_def run_combinators take_fault_def end_tx_def holding_def same_host_def
      split: list.splits fault.splits prod.splits sum.splits if_splits)

lemma synchronous_level:
  assumes "pragma_synchronous h = (r, h')"
  shows "holding h h' \<and> (work h = None \<longrightarrow> work h' = None) \<and> is_open h' = is_open h \<and> synchronous h' = synchronous h
    \<and> (case r of Inr v \<Rightarrow> v = synchronous h | Inl e \<Rightarrow> e = DatabaseError)"
  using assms unfolding pragma_synchronous_def
  by (auto simp: execute_def execute_f_def run_combinators take_fault_def end_tx_def holding_def same_host_def
      split: list.splits fault.splits prod.splits sum.splits if_splits)

lemma configure_host:
  assumes "configure_durability h = (r, h')" "is_open h" "work h = None"
  shows "journalled h h' \<and> is_open h' \<and> work h' = None
    \<and> (case r of Inr _ \<Rightarrow> ascii_lower (journal_mode (durable h')) = ''wal'' \<and> synchronous h' = 2
         | Inl e \<Rightarrow> e = DatabaseError \<or> (\<exists>m. e = AuthorityStoreError m))"
proof -
  obtain r1 h1 where one: "pragma_journal_wal h = (r1, h1)" by (cases "pragma_journal_wal h")
  note j = journal_host [OF one assms(2,3)]
  obtain r2 h2 where two: "pragma_synchronous_full h1 = (r2, h2)" by (cases "pragma_synchronous_full h1")
  note s = synchronous_host [OF two]
  obtain r3 h3 where three: "pragma_synchronous h2 = (r3, h3)" by (cases "pragma_synchronous h2")
  note l = synchronous_level [OF three]
  have d: "durable h3 = durable h1" using s l by (auto simp: holding_def)
  have "journalled h h1" "journalled h h2" "journalled h h3"
    using j s l holding_journalled journalled_trans by blast+
  then show ?thesis
    using assms(1) j s l one two three d
    by (auto simp: configure_durability_def run_bnd run_sq run_guard split: sum.splits if_splits)
qed

text \<open>The cleanups.\<close>

lemma if_connected_run: "if_connected m h = (if opened h = None then (Inr (), h) else m h)"
  by (simp add: if_connected_def run_combinators)

definition cleans :: "(host, 'a) prog \<Rightarrow> bool" where
  "cleans m \<longleftrightarrow> (\<forall>h r h'. m h = (r, h') \<longrightarrow> holding h h')"

lemma cleansD: "cleans m \<Longrightarrow> m h = (r, h') \<Longrightarrow> holding h h'"
  by (simp add: cleans_def)

named_theorems clean_intros "programs that leave the database alone"

lemma cleans_combinators [clean_intros]:
  "cleans (ret x)" "cleans (raise e)" "cleans (guard b e)" "cleans (gets g)"
  "cleans m \<Longrightarrow> (\<And>x. cleans (f x)) \<Longrightarrow> cleans (bnd m f)"
  "cleans m \<Longrightarrow> cleans n \<Longrightarrow> cleans (sq m n)"
  "cleans m \<Longrightarrow> (\<And>e. cleans (k e)) \<Longrightarrow> cleans (try_except m k)"
  "cleans m \<Longrightarrow> cleans u \<Longrightarrow> cleans (try_finally m u)"
  "cleans u \<Longrightarrow> cleans (if_connected u)"
  "cleans m \<Longrightarrow> cleans m' \<Longrightarrow> cleans (if b then m else m')"
  by (auto simp: cleans_def run_combinators if_connected_run try_finally_def
      split: prod.splits sum.splits if_splits dest: holding_trans) (blast intro: holding_trans)+

lemma cleans_statements [clean_intros]: "cleans rollback_tx" "cleans close_connection" "cleans conn_in_transaction"
  by (auto simp: cleans_def dest: rollback_host close_host in_transaction_host)

lemma cleans_rollbacks [clean_intros]: "cleans rollback_if_needed" "cleans (rollback_migration_if_needed name)"
  unfolding rollback_if_needed_def rollback_migration_if_needed_def by (intro clean_intros)+

lemma cleans_failures [clean_intros]:
  "cleans (initialize_failure e)" "cleans (open_failure e)" "cleans (migration_failure name b e)" "cleans final_close"
  "cleans (make_store p)"
  unfolding initialize_failure_def open_failure_def migration_failure_def final_close_def Let_def make_store_def
  by (intro clean_intros)+

text \<open>The failure handlers always raise.\<close>

lemma failure_raises:
  "isl (fst (initialize_failure e h))" "isl (fst (open_failure e h))" "isl (fst (migration_failure name b e h))"
  by (auto simp: initialize_failure_def open_failure_def migration_failure_def Let_def run_combinators
      split: prod.split sum.split)

section \<open>Connecting\<close>

lemma connect_host:
  assumes "connect_rw p h = (r, h')" "opened h = None"
  shows "case r of
      Inr _ \<Rightarrow> same_host (h\<lparr>opened := Some p\<rparr>) h' \<and> files h p = Some (durable h') \<and> work h' = None \<and> is_open h'
         \<and> \<not> write_locked h'
    | Inl e \<Rightarrow> holding h h' \<and> e = (if files h p = None then AuthorityStoreMissingError
         else AuthorityStoreError ''unable to open authority store'')"
  using assms
  by (auto simp: connect_rw_def sqlite_connect_def path_exists_def on_disk_def run_combinators take_fault_def
      same_host_def holding_def split: option.splits list.splits if_splits)

text \<open>A run that ends in \<open>Inr\<close> ran each of its parts to the end.\<close>

lemma sq_Inr: "sq m n h = (Inr x, h') \<longleftrightarrow> (\<exists>y k. m h = (Inr y, k) \<and> n k = (Inr x, h'))"
  by (auto simp: run_sq split: prod.splits sum.splits)

lemma bnd_Inr: "bnd m f h = (Inr x, h') \<longleftrightarrow> (\<exists>y k. m h = (Inr y, k) \<and> f y k = (Inr x, h'))"
  by (auto simp: run_bnd split: prod.splits sum.splits)

lemma sq_Inl: "sq m n h = (Inl e, h') \<longleftrightarrow> m h = (Inl e, h') \<or> (\<exists>y k. m h = (Inr y, k) \<and> n k = (Inl e, h'))"
  by (auto simp: run_sq split: prod.splits sum.splits)

lemma bnd_Inl: "bnd m f h = (Inl e, h') \<longleftrightarrow> m h = (Inl e, h') \<or> (\<exists>y k. m h = (Inr y, k) \<and> f y k = (Inl e, h'))"
  by (auto simp: run_bnd split: prod.splits sum.splits)

lemma guard_Inr: "guard b e h = (Inr x, h') \<longleftrightarrow> b \<and> h' = h"
  by (auto simp: run_guard)

lemma guard_Inl: "guard b e h = (Inl e', h') \<longleftrightarrow> \<not> b \<and> e' = e \<and> h' = h"
  by (auto simp: run_guard)

text \<open>Validation, in a transaction or not.\<close>

lemma validated:
  assumes "checks m P" "m h = (r, h')" "is_open h"
  shows "holding h h' \<and> (case r of Inr _ \<Rightarrow> P (view h) \<and> work h' = work h \<and> is_open h' \<and> synchronous h' = synchronous h
    \<and> write_locked h' = write_locked h | Inl e \<Rightarrow> check_error e)"
proof (rule checked_run [OF assms(1,3)])
  fix x fs assume "m h = (Inr x, h\<lparr>faults := fs\<rparr>)" "P (view h)"
  then show ?thesis using assms(2,3) by (auto simp: holding_def same_host_def)
next
  fix e c' assume "m h = (Inl e, c')" "check_error e" "lost h c'"
  then show ?thesis using assms(2) lost_holding by auto
qed

lemma update_work_inject: "c\<lparr>work := w\<rparr> = c\<lparr>work := w'\<rparr> \<longleftrightarrow> w = w'"
  by (metis conn.select_convs(2) conn.surjective conn.update_convs(2))

text \<open>Changes in a transaction.\<close>

lemma transacted:
  assumes "faithful m" "m h = (r, h')" "is_open h" "work h = Some d"
  shows "holding h h' \<and> (case r of
      Inr x \<Rightarrow> \<exists>d'. work h' = Some d' \<and> is_open h' \<and> synchronous h' = synchronous h \<and> m (quiet h) = (Inr x, (quiet h)\<lparr>work := Some d'\<rparr>)
    | Inl e \<Rightarrow> statement_error e \<or> (\<exists>k. m (quiet h) = (Inl e, k)))"
proof -
  obtain r0 d0 where q: "quiet_run m h r0 d0" and s: "same_run m h r0 d0 \<or> failed_run m h"
    using faithfulD [OF assms(1,3,4)] by blast
  from s show ?thesis
  proof
    assume "same_run m h r0 d0"
    then obtain fs where "m h = (r0, h\<lparr>work := Some d0, faults := fs\<rparr>)" by (auto simp: same_run_def)
    then have "r = r0" "h' = h\<lparr>work := Some d0, faults := fs\<rparr>" using assms(2) by simp_all
    then show ?thesis using q assms(3) work_holding [of h fs "Some d0"]
      by (auto simp: quiet_run_def split: sum.split)
  next
    assume "failed_run m h"
    then show ?thesis using assms(2) spoiled_holding by (auto simp: failed_run_def)
  qed
qed

section \<open>Creation\<close>

definition new_database :: "string \<Rightarrow> database" where
  "new_database m = empty_database\<lparr>user_version := schema_version, journal_mode := m,
     schema := map create_table_row [create_generations_sql, create_execution_keys_sql,
       create_execution_command_bindings_sql, create_execution_admissions_sql, create_execution_launches_sql]\<rparr>"

lemma create_table_in_tx:
  assumes "is_open c" "faults c = []" "work c = Some d"
  shows "create_table t c = (if has_table (ddl_name t) d then (Inl DatabaseError, c) else (Inr (), c\<lparr>work := Some (with_table t d)\<rparr>))"
    "set_user_version v c = (Inr (), c\<lparr>work := Some (d\<lparr>user_version := v\<rparr>)\<rparr>)"
  using assms by (auto simp: create_table_def set_user_version_def quiet_change)

lemma with_table_fields:
  "schema (with_table t d) = schema d @ [create_table_row t]" "user_version (with_table t d) = user_version d"
  "journal_mode (with_table t d) = journal_mode d" "pages_ok (with_table t d) = pages_ok d"
  by (simp_all add: with_table_def)

lemma create_schema_run:
  assumes "is_open c" "faults c = []" "work c = Some (with_journal m empty_database)"
  shows "create_schema c = (Inr (), c\<lparr>work := Some (new_database m)\<rparr>)"
proof -
  have "\<not> has_table n (with_journal m empty_database)" for n
    by (simp add: has_table_def empty_database_def)
  then show ?thesis
    using assms
    by (simp add: create_schema_def run_sq create_table_in_tx has_table_def with_table_fields create_table_row_def ddl_defs)
      (simp add: with_table_def new_database_def empty_database_def with_journal_def create_table_row_def ddl_defs)
qed

lemma new_database_valid: "store_valid (new_database m)"
proof -
  have "store_valid (new_database ''wal'')" by code_simp
  moreover have "store_valid d = store_valid (d\<lparr>journal_mode := m\<rparr>)" for d m
    by (simp add: store_valid_parts integrity_check_def schema_valid_def user_schema_rows_def table_valid_def
        table_info_def has_table_def gens_valid_def keys_valid_def binds_valid_def adms_valid_def launches_valid_def
        bind_valid_def [abs_def] adm_valid_def [abs_def] launch_valid_def [abs_def])
  moreover have "new_database m = (new_database ''wal'')\<lparr>journal_mode := m\<rparr>" by (simp add: new_database_def)
  ultimately show ?thesis by metis
qed

lemma new_database_abs:
  "abs_of (new_database m) = \<lparr>generations = Map.empty, registered = {}, bindings = Map.empty,
     admissions = Map.empty, launches = Map.empty\<rparr>"
  by (simp add: abs_of_def new_database_def empty_database_def row_by_def)

text \<open>The outcome of the part after the reservation, on a host with an empty file at the path.\<close>

lemma reservation_closed:
  "close_reservation h = (r, h') \<Longrightarrow> files h' = files h \<and> opened h' = opened h \<and> durable h' = durable h \<and> work h' = work h
     \<and> is_open h' = is_open h \<and> write_locked h' = write_locked h \<and> (\<forall>e. r = Inl e \<longrightarrow> e = OSError)"
  by (auto simp: close_reservation_def take_os_error_def run_combinators split: list.splits if_splits)

lemma connected_once:
  assumes "try_finally (connect_rw p) close_reservation h = (r, h')" "opened h = None" "files h p = Some d"
  shows "files h' = files h \<and> (case r of
      Inr _ \<Rightarrow> opened h' = Some p \<and> durable h' = d \<and> work h' = None \<and> is_open h' \<and> \<not> write_locked h'
    | Inl e \<Rightarrow> opened h' = None \<or> opened h' = Some p \<and> durable h' = d)"
proof -
  obtain r1 h1 where one: "connect_rw p h = (r1, h1)" by (cases "connect_rw p h")
  obtain r2 h2 where two: "close_reservation h1 = (r2, h2)" by (cases "close_reservation h1")
  show ?thesis
    using reservation_closed [OF two] connect_host [OF one assms(2)] assms one two
    by (auto simp: try_finally_def same_host_def holding_def split: sum.splits)
qed

definition disk_frame :: "pystr \<Rightarrow> host \<Rightarrow> host \<Rightarrow> bool" where
  "disk_frame p h h' \<longleftrightarrow> (\<forall>q. q \<noteq> p \<longrightarrow> on_disk h' q = on_disk h q)"

lemma same_host_disk:
  "same_host h h' \<Longrightarrow> opened h = Some p \<Longrightarrow> disk_frame p h h' \<and> on_disk h' p = Some (durable h')"
  by (auto simp: same_host_def disk_frame_def on_disk_def)

lemma holding_disk: "holding h h' \<Longrightarrow> on_disk h' = on_disk h"
  by (auto simp: holding_def same_host_def on_disk_def fun_eq_iff)

text \<open>A file that creation has left behind: unusable, or a new valid store.\<close>

definition blank :: "database \<Rightarrow> bool" where
  "blank d \<longleftrightarrow> (\<exists>m. d = with_journal m empty_database)"

definition new_store :: "database \<Rightarrow> bool" where
  "new_store d \<longleftrightarrow> (\<exists>m. d = new_database m)"

lemma blank_empty [simp]: "blank empty_database"
  unfolding blank_def by (rule exI [of _ "journal_mode empty_database"]) simp

lemma initialize_transaction:
  assumes run: "sq begin_immediate (sq create_schema (sq validate_store (sq commit_tx (make_store p)))) h = (r, h')"
    and h: "is_open h" "work h = None" "durable h = with_journal m empty_database"
  shows "same_host h h' \<and> (case r of
      Inr s \<Rightarrow> durable h' = new_database m \<and> durable s = new_database m \<and> idle s \<and> store_path s = p
        \<and> synchronous s = synchronous h
    | Inl e \<Rightarrow> durable h' = durable h \<or> durable h' = new_database m)"
proof -
  obtain r1 h1 where one: "begin_immediate h = (r1, h1)" by (cases "begin_immediate h")
  note b = begin_host [OF one h(1,2)]
  obtain r2 h2 where two: "create_schema h1 = (r2, h2)" by (cases "create_schema h1")
  obtain r3 h3 where three: "validate_store h2 = (r3, h3)" by (cases "validate_store h2")
  obtain r4 h4 where four: "commit_tx h3 = (r4, h4)" by (cases "commit_tx h3")
  have faithful: "faithful create_schema"
    unfolding create_schema_def create_table_def set_user_version_def by (intro impl_intros)
  show ?thesis
  proof (cases r1)
    case (Inl e)
    with one b run show ?thesis by (auto simp: sq_Inl run_sq holding_def)
  next
    case (Inr u)
    then have h1: "holding h h1" "work h1 = Some (durable h)" "is_open h1" "synchronous h1 = synchronous h"
      using b by auto
    have "create_schema (quiet h1) = (Inr (), (quiet h1)\<lparr>work := Some (new_database m)\<rparr>)"
      by (rule create_schema_run) (use h1 h(3) in simp_all)
    with transacted [OF faithful two h1(3,2)] have h2: "holding h1 h2" "\<And>x. r2 = Inr x \<Longrightarrow> work h2 = Some (new_database m)
        \<and> is_open h2 \<and> synchronous h2 = synchronous h1"
      by (auto simp: update_work_inject split: sum.splits)
    have "same_host h h2" "durable h2 = durable h"
      using h1(1) h2(1) by (auto simp: holding_def intro: same_host_trans)
    show ?thesis
    proof (cases r2)
      case (Inl e)
      with one two \<open>r1 = Inr u\<close> run \<open>same_host h h2\<close> \<open>durable h2 = durable h\<close> show ?thesis by (auto simp: run_sq)
    next
      case (Inr v)
      note w = h2(2) [OF Inr]
      then have "is_open h2" by simp
      note c = validated [OF checks_store three this]
      have "same_host h h3" "durable h3 = durable h"
        using c \<open>same_host h h2\<close> \<open>durable h2 = durable h\<close> by (auto simp: holding_def intro: same_host_trans)
      show ?thesis
      proof (cases r3)
        case (Inl e)
        with one two three \<open>r1 = Inr u\<close> Inr run \<open>same_host h h3\<close> \<open>durable h3 = durable h\<close> show ?thesis
          by (auto simp: run_sq)
      next
        case (Inr x)
        with c w have "work h3 = Some (new_database m)" "is_open h3" "synchronous h3 = synchronous h" using h1 by auto
        note k = commit_host [OF four this(2,1)]
        have "same_host h h4" using k \<open>same_host h h3\<close> by (auto intro: same_host_trans)
        then show ?thesis
          using one two three four \<open>r1 = Inr u\<close> \<open>r2 = Inr v\<close> Inr run k \<open>durable h3 = durable h\<close> \<open>synchronous h3 = synchronous h\<close>
          by (cases r4) (auto simp: run_sq make_store_def run_simps idle_def no_tx_def)
      qed
    qed
  qed
qed

lemma initialize_connection_outcome:
  assumes run: "initialize_connection p h = (r, h')" and h: "opened h = None" "files h p = Some empty_database"
  shows "disk_frame p h h' \<and> (case r of
      Inr s \<Rightarrow> opened h' = Some p \<and> new_store (durable h') \<and> durable s = durable h' \<and> idle s \<and> store_path s = p
        \<and> synchronous s = 2 \<and> ascii_lower (journal_mode (durable s)) = ''wal''
    | Inl e \<Rightarrow> \<exists>d. on_disk h' p = Some d \<and> (blank d \<or> new_store d))"
proof -
  obtain r1 h1 where one: "try_finally (connect_rw p) close_reservation h = (r1, h1)"
    by (cases "try_finally (connect_rw p) close_reservation h")
  note c = connected_once [OF one h]
  show ?thesis
  proof (cases r1)
    case (Inl e)
    then have "disk_frame p h h1" "on_disk h1 p = Some empty_database"
      using c h by (auto simp: disk_frame_def on_disk_def)
    with Inl one run show ?thesis by (auto simp: initialize_connection_def run_sq)
  next
    case (Inr u)
    then have h1: "opened h1 = Some p" "durable h1 = empty_database" "work h1 = None" "is_open h1" "files h1 = files h"
      using c by auto
    then have frame: "disk_frame p h h1" using h by (auto simp: disk_frame_def on_disk_def)
    obtain r2 h2 where two: "configure_durability h1 = (r2, h2)" by (cases "configure_durability h1")
    note d = configure_host [OF two h1(4,3)]
    then obtain m where m: "same_host h1 h2" "durable h2 = with_journal m empty_database" "is_open h2" "work h2 = None"
      by (auto simp: journalled_def h1)
    note disk2 = same_host_disk [OF m(1) h1(1)]
    obtain r3 h3 where three: "sq begin_immediate (sq create_schema (sq validate_store (sq commit_tx (make_store p)))) h2 = (r3, h3)"
      by (cases "sq begin_immediate (sq create_schema (sq validate_store (sq commit_tx (make_store p)))) h2")
    note t = initialize_transaction [OF three m(3,4,2)]
    have "same_host h1 h3" using m(1) t by (auto intro: same_host_trans)
    note disk3 = same_host_disk [OF this h1(1)]
    have frames: "disk_frame p h h2" "disk_frame p h h3" "opened h3 = Some p"
      using frame disk2 disk3 \<open>same_host h1 h3\<close> h1(1) by (simp_all add: disk_frame_def same_host_def)
    have journal: "journal_mode (new_database m) = m" by (simp add: new_database_def)
    show ?thesis
    proof (cases r2)
      case (Inl e)
      with one two \<open>r1 = Inr u\<close> run frames disk2 m(2) show ?thesis
        by (auto simp: initialize_connection_def run_sq blank_def)
    next
      case (Inr v)
      then have "r = r3" "h' = h3" using one two three \<open>r1 = Inr u\<close> run by (simp_all add: initialize_connection_def run_sq)
      with t frames disk3 m(2) d Inr journal show ?thesis
        by (cases r3) (auto simp: blank_def new_store_def)
    qed
  qed
qed

text \<open>
  Creation as a whole: other files are untouched; an existing file is never touched; a new file is
  either unusable or a new valid store, and it is the latter if the call returns.
\<close>

lemma initialize_outcome:
  assumes run: "initialize_new path h = (r, h')" and p: "p = os_abspath h (os_expanduser h path)"
  shows "disk_frame p h h' \<and> (case on_disk h p of
      Some d \<Rightarrow> on_disk h' p = Some d \<and> r = Inl (if os_nt h then AuthorityStoreExistsError
        else AuthorityStoreError ''new authority-store initialization is supported only on Windows'')
    | None \<Rightarrow> (case r of
        Inr s \<Rightarrow> on_disk h' p = Some (durable s) \<and> new_store (durable s) \<and> idle s \<and> store_path s = p
          \<and> synchronous s = 2 \<and> ascii_lower (journal_mode (durable s)) = ''wal''
      | Inl e \<Rightarrow> (case on_disk h' p of None \<Rightarrow> True | Some d \<Rightarrow> blank d \<or> new_store d)))"
proof (cases "os_nt h")
  case False
  then show ?thesis using run by (auto simp: initialize_new_def run_combinators disk_frame_def split: option.split)
next
  case nt: True
  show ?thesis
  proof (cases "on_disk h p")
    case (Some d)
    then show ?thesis using run nt p
      by (auto simp: initialize_new_def run_combinators normalize_path_def reserve_new_windows_path_def
          create_file_new_def reservation_failure_def disk_frame_def)
  next
    case None
    obtain e k where e: "take_os_error h = (Inr e, k)" and k: "on_disk k = on_disk h" "files k = files h" "opened k = opened h" "durable k = durable h"
      by (cases "os_errors h") (fastforce simp: take_os_error_def on_disk_def fun_eq_iff)+
    let ?k = "k\<lparr>files := (files k)(p \<mapsto> empty_database), reservation := True\<rparr>"
    show ?thesis
    proof (cases "e = 0")
      case False
      then have "\<exists>x. r = Inl x" "h' = k"
        using run nt p None e
        by (auto simp: initialize_new_def run_combinators normalize_path_def reserve_new_windows_path_def
            create_file_new_def reservation_failure_def split: if_splits)
      with None k show ?thesis by (auto simp: disk_frame_def)
    next
      case True
      let ?l = "?k\<lparr>files := on_disk ?k, opened := None\<rparr>"
      have "try_except (initialize_connection p) initialize_failure ?l = (r, h')"
        using run nt p None e True
        by (simp add: initialize_new_def run_combinators normalize_path_def reserve_new_windows_path_def
            create_file_new_def no_connection_def)
      moreover obtain r1 h1 where one: "initialize_connection p ?l = (r1, h1)" by (cases "initialize_connection p ?l")
      have open_p: "opened k \<noteq> Some p" using None k by (auto simp: on_disk_def)
      have l: "opened ?l = None" "files ?l p = Some empty_database" "disk_frame p h ?l"
        using open_p k by (auto simp: on_disk_def disk_frame_def)
      note out = initialize_connection_outcome [OF one l(1,2)]
      ultimately show ?thesis
      proof (cases r1)
        case (Inr s)
        with one \<open>try_except (initialize_connection p) initialize_failure ?l = (r, h')\<close> have "r = Inr s" "h' = h1"
          by (simp_all add: run_try_except)
        with out l(3) None Inr show ?thesis by (auto simp: disk_frame_def on_disk_def)
      next
        case (Inl x)
        with one \<open>try_except (initialize_connection p) initialize_failure ?l = (r, h')\<close> have fail: "initialize_failure x h1 = (r, h')"
          by (simp add: run_try_except)
        then obtain y where "r = Inl y" using failure_raises(1) [of x h1] by (cases r) auto
        moreover have "on_disk h' = on_disk h1" by (rule holding_disk [OF cleansD [OF cleans_failures(1) fail]])
        ultimately show ?thesis using out l(3) None Inl by (auto simp: disk_frame_def)
      qed
    qed
  qed
qed

section \<open>Opening\<close>

lemma store_valid_journal [simp]: "store_valid (with_journal m d) = store_valid d"
  by (simp add: with_journal_def store_valid_parts integrity_check_def schema_valid_def user_schema_rows_def table_valid_def
      table_info_def has_table_def gens_valid_def keys_valid_def binds_valid_def adms_valid_def launches_valid_def
      bind_valid_def [abs_def] adm_valid_def [abs_def] launch_valid_def [abs_def])

lemma abs_of_journal [simp]: "abs_of (with_journal m d) = abs_of d"
  by (simp add: abs_of_def with_journal_def)

lemma disconnected:
  "no_connection h = (Inr (), h\<lparr>files := on_disk h, opened := None\<rparr>)"
  "on_disk (h\<lparr>files := on_disk h, opened := None\<rparr>) = on_disk h"
  by (simp_all add: no_connection_def run_simps on_disk_def fun_eq_iff)

lemma open_connection:
  assumes run: "sq (connect_rw p) (sq validate_store (sq configure_durability (make_store p))) h = (r, h')"
    and h: "opened h = None" "files h p = Some d"
  shows "disk_frame p h h' \<and> (case r of
      Inr s \<Rightarrow> store_valid d \<and> on_disk h' p = Some (durable s) \<and> (\<exists>m. durable s = with_journal m d) \<and> is_open s \<and> work s = None
        \<and> connected s \<and> \<not> poisoned s \<and> store_path s = p \<and> synchronous s = 2 \<and> ascii_lower (journal_mode (durable s)) = ''wal''
    | Inl e \<Rightarrow> if store_valid d then \<exists>m. on_disk h' p = Some (with_journal m d) else on_disk h' p = Some d)"
proof -
  obtain r1 h1 where one: "connect_rw p h = (r1, h1)" by (cases "connect_rw p h")
  note c = connect_host [OF one h(1)]
  have here: "on_disk h p = Some d" using h by (simp add: on_disk_def)
  have self: "\<exists>m. Some d = Some (with_journal m d)" by (metis with_journal_fields(2))
  show ?thesis
  proof (cases r1)
    case (Inl e)
    with one c run have "r = Inl e" "h' = h1" "on_disk h1 = on_disk h" by (auto simp: run_sq dest: holding_disk)
    with here self show ?thesis by (auto simp: disk_frame_def)
  next
    case (Inr u)
    then have h1: "opened h1 = Some p" "durable h1 = d" "work h1 = None" "is_open h1" "disk_frame p h h1"
      using c h by (auto simp: same_host_def disk_frame_def on_disk_def)
    have view: "view h1 = d" by (simp add: view_def h1)
    obtain r2 h2 where two: "validate_store h1 = (r2, h2)" by (cases "validate_store h1")
    note v = validated [OF checks_store two h1(4)]
    have disk2: "on_disk h2 p = Some d" "disk_frame p h h2"
      using v holding_disk [of h1 h2] h1 by (auto simp: on_disk_def disk_frame_def)
    show ?thesis
    proof (cases r2)
      case (Inl e)
      with one two \<open>r1 = Inr u\<close> run disk2 self show ?thesis by (auto simp: run_sq)
    next
      case (Inr w)
      then have h2: "store_valid d" "work h2 = None" "is_open h2" "same_host h1 h2" "durable h2 = d"
        using v view h1 by (auto simp: holding_def)
      obtain r3 h3 where three: "configure_durability h2 = (r3, h3)" by (cases "configure_durability h2")
      note f = configure_host [OF three h2(3,2)]
      have "same_host h1 h3" using f h2(4) by (auto simp: journalled_def intro: same_host_trans)
      note disk3 = same_host_disk [OF this h1(1)]
      have "disk_frame p h h3" using disk3 h1(5) by (simp add: disk_frame_def)
      with one two three \<open>r1 = Inr u\<close> \<open>r2 = Inr w\<close> run f h2 disk3 show ?thesis
        by (cases r3) (auto simp: run_sq make_store_def run_simps journalled_def)
    qed
  qed
qed

text \<open>
  Opening as a whole: a missing or invalid store raises and no file changes; a valid one changes at
  most its journal mode, and is what the returned handle is connected to.
\<close>

lemma open_outcome:
  assumes run: "open_existing path h = (r, h')" and p: "p = os_abspath h (os_expanduser h path)"
  shows "disk_frame p h h' \<and> (case on_disk h p of
      None \<Rightarrow> on_disk h' p = None \<and> r = Inl AuthorityStoreMissingError
    | Some d \<Rightarrow> (case r of
        Inr s \<Rightarrow> store_valid d \<and> on_disk h' p = Some (durable s) \<and> (\<exists>m. durable s = with_journal m d) \<and> is_open s \<and> work s = None
          \<and> connected s \<and> \<not> poisoned s \<and> store_path s = p \<and> synchronous s = 2 \<and> ascii_lower (journal_mode (durable s)) = ''wal''
      | Inl e \<Rightarrow> if store_valid d then \<exists>m. on_disk h' p = Some (with_journal m d) else on_disk h' p = Some d))"
proof (cases "on_disk h p")
  case None
  then show ?thesis using run p
    by (auto simp: open_existing_def normalize_path_def path_exists_def run_combinators disk_frame_def)
next
  case (Some d)
  let ?k = "h\<lparr>files := on_disk h, opened := None\<rparr>"
  let ?m = "sq (connect_rw p) (sq validate_store (sq configure_durability (make_store p)))"
  obtain r1 h1 where one: "?m ?k = (r1, h1)" by (cases "?m ?k")
  have "try_except ?m open_failure ?k = (r, h')"
    using run p Some by (simp add: open_existing_def normalize_path_def path_exists_def run_combinators disconnected)
  then have r: "(case r1 of Inl e \<Rightarrow> open_failure e h1 | Inr x \<Rightarrow> (Inr x, h1)) = (r, h')"
    by (simp add: run_try_except one)
  note out = open_connection [OF one, of d]
  have frame: "disk_frame p ?k = disk_frame p h" by (simp add: fun_eq_iff disk_frame_def disconnected(2))
  show ?thesis
  proof (cases r1)
    case (Inr s)
    then have "r = Inr s" "h' = h1" using r by simp_all
    with out Some frame Inr show ?thesis by simp
  next
    case (Inl e)
    then have fail: "open_failure e h1 = (r, h')" using r by simp
    then obtain y where "r = Inl y" using failure_raises(2) [of e h1] by (cases r) auto
    moreover have "on_disk h' = on_disk h1" by (rule holding_disk [OF cleansD [OF cleans_failures(2) fail]])
    ultimately show ?thesis using out Inl Some frame by (simp add: disk_frame_def)
  qed
qed

text \<open>An opened handle is idle: nothing that opening runs takes the write lock.\<close>

lemma unlocked_pragmas:
  "pragma_journal_wal h = (r, h') \<Longrightarrow> \<not> write_locked h \<Longrightarrow> \<not> write_locked h'"
  "pragma_synchronous_full h = (r', h') \<Longrightarrow> \<not> write_locked h \<Longrightarrow> \<not> write_locked h'"
  "pragma_synchronous h = (r'', h') \<Longrightarrow> \<not> write_locked h \<Longrightarrow> \<not> write_locked h'"
  by (auto simp: pragma_journal_wal_def pragma_synchronous_full_def pragma_synchronous_def execute_def execute_f_def
      run_combinators take_fault_def end_tx_def put_view_def split: list.splits fault.splits option.splits if_splits)

lemma opened_idle:
  assumes "open_existing path h = (Inr s, h')"
  shows "idle s"
proof -
  let ?k = "h\<lparr>files := on_disk h, opened := None\<rparr>" and ?p = "os_abspath h (os_expanduser h path)"
  from assms obtain d where d: "on_disk h ?p = Some d"
    and run: "try_except (sq (connect_rw ?p) (sq validate_store (sq configure_durability (make_store ?p)))) open_failure ?k = (Inr s, h')"
    by (cases "on_disk h ?p") (auto simp: open_existing_def normalize_path_def path_exists_def run_combinators no_connection_def split: if_splits)
  have "fst (open_failure e c) \<noteq> Inr s" for e c
    using failure_raises(2) [of e c] by (cases "fst (open_failure e c)") auto
  then have run: "sq (connect_rw ?p) (sq validate_store (sq configure_durability (make_store ?p))) ?k = (Inr s, h')"
    using run by (auto simp: run_try_except split: prod.splits sum.splits) (metis fst_conv)
  then obtain u h1 v h2 w h3 where steps: "connect_rw ?p ?k = (Inr u, h1)" "validate_store h1 = (Inr v, h2)"
      "configure_durability h2 = (Inr w, h3)" "make_store ?p h3 = (Inr s, h')"
    unfolding sq_Inr by blast
  have 1: "work h1 = None" "is_open h1" "\<not> write_locked h1"
    using connect_host [OF steps(1)] by simp_all
  have 2: "work h2 = None" "is_open h2" "\<not> write_locked h2"
    using validated [OF checks_store steps(2) 1(2)] 1 by simp_all
  from steps(3) obtain x1 k1 x2 k2 x3 where c: "pragma_journal_wal h2 = (Inr x1, k1)" "pragma_synchronous_full k1 = (Inr x2, k2)"
      "pragma_synchronous k2 = (Inr x3, h3)"
    by (auto simp: configure_durability_def bnd_Inr sq_Inr guard_Inr)
  have "\<not> write_locked h3"
    using unlocked_pragmas(3) [OF c(3)] unlocked_pragmas(2) [OF c(2)] unlocked_pragmas(1) [OF c(1)] 2(3) by blast
  with configure_host [OF steps(3) 2(2,1)] steps(4) show ?thesis
    by (auto simp: make_store_def run_simps idle_def no_tx_def)
qed
section \<open>Runs without failures\<close>

definition quiet_host :: "host \<Rightarrow> bool" where
  "quiet_host h \<longleftrightarrow> faults h = [] \<and> os_errors h = [] \<and> \<not> busy h \<and> os_nt h"

definition connected_to :: "pystr \<Rightarrow> database \<Rightarrow> host \<Rightarrow> host" where
  "connected_to p d h = h\<lparr>durable := d, work := None, is_open := True, write_locked := False, synchronous := 2, opened := Some p\<rparr>"

lemma quiet_connected: "quiet_host h \<Longrightarrow> quiet_host (connected_to p d h)"
  by (simp add: quiet_host_def connected_to_def)

lemma connected_fields [simp]:
  "durable (connected_to p d h) = d" "work (connected_to p d h) = None" "is_open (connected_to p d h)"
  "\<not> write_locked (connected_to p d h)" "synchronous (connected_to p d h) = 2" "opened (connected_to p d h) = Some p"
  "faults (connected_to p d h) = faults h" "busy (connected_to p d h) = busy h" "view (connected_to p d h) = d"
  by (simp_all add: connected_to_def view_def)

lemma connect_quiet:
  "opened h = None \<Longrightarrow> files h p = Some d \<Longrightarrow> faults h = [] \<Longrightarrow> connect_rw p h = (Inr (), connected_to p d h)"
  by (simp add: connect_rw_def sqlite_connect_def on_disk_def run_combinators take_fault_def connected_to_def)

lemma configure_quiet:
  assumes "faults h = []"
  shows "configure_durability (connected_to p d h) = (Inr (), connected_to p (with_journal ''wal'' d) h)"
proof -
  have "ascii_lower ''wal'' = ''wal''" by (simp add: ascii_lower_def)
  then show ?thesis
    using assms
    by (simp add: configure_durability_def pragma_journal_wal_def pragma_synchronous_full_def pragma_synchronous_def
        execute_f_def execute_def run_combinators take_fault_def put_view_def connected_to_def with_journal_def view_def)
qed

lemma begin_quiet:
  "faults h = [] \<Longrightarrow> \<not> busy h \<Longrightarrow> begin_immediate (connected_to p d h) =
     (Inr (), (connected_to p d h)\<lparr>work := Some d, write_locked := True\<rparr>)"
  by (simp add: begin_immediate_def execute_cases in_transaction_def)

lemma commit_quiet_host:
  "faults h = [] \<Longrightarrow> commit_tx ((connected_to p d h)\<lparr>work := Some u, write_locked := True\<rparr>) = (Inr (), connected_to p u h)"
  by (simp add: commit_tx_def execute_cases end_tx_def connected_to_def)

lemma validate_quiet:
  assumes "checks m P" "is_open c" "faults c = []" "P (view c)"
  shows "m c = (Inr (), c)"
  by (rule checksE [OF assms(1-3)]) (use assms(4) in auto)

lemma close_quiet: "faults h = [] \<Longrightarrow> close_connection h = (Inr (), end_tx h\<lparr>is_open := False\<rparr>)"
  by (simp add: close_connection_def take_fault_def run_combinators)

lemma open_quiet:
  assumes h: "quiet_host h" and d: "on_disk h p = Some d" "store_valid d" and p: "p = os_abspath h (os_expanduser h path)"
  obtains s h' where "open_existing path h = (Inr s, h')" "durable s = with_journal ''wal'' d" "idle s" "faults s = []"
    "busy s = busy h" "store_path s = p"
proof -
  let ?k = "h\<lparr>files := on_disk h, opened := None\<rparr>"
  have k: "opened ?k = None" "files ?k p = Some d" "faults ?k = []" using h d by (simp_all add: quiet_host_def)
  have valid: "validate_store (connected_to p d ?k) = (Inr (), connected_to p d ?k)"
    by (rule validate_quiet [OF checks_store]) (use k d in simp_all)
  let ?h = "connected_to p (with_journal ''wal'' d) ?k"
  have "(sq (connect_rw p) (sq validate_store (sq configure_durability (make_store p)))) ?k = make_store p ?h"
    by (simp add: run_combinators connect_quiet [OF k] valid configure_quiet [OF k(3)])
  then have run: "open_existing path h = make_store p ?h"
    using p [symmetric] d
    by (simp add: open_existing_def normalize_path_def path_exists_def run_simps run_bnd run_sq disconnected run_try_except
        make_store_def)
  show thesis
    by (rule that [of _ ?h, OF run [unfolded make_store_def run_simps]])
      (use h k in \<open>simp_all add: idle_def no_tx_def\<close>)
qed

lemma initialize_connection_quiet:
  assumes l: "opened l = None" "files l p = Some empty_database" "quiet_host l" "reservation l"
  shows "initialize_connection p l = make_store p (connected_to p (new_database ''wal'') (l\<lparr>reservation := False\<rparr>))"
proof -
  have l': "faults l = []" "\<not> busy l" "os_errors l = []" using l(3) by (simp_all add: quiet_host_def)
  let ?m = "l\<lparr>reservation := False\<rparr>"
  have m: "faults ?m = []" "\<not> busy ?m" using l' by simp_all
  have connect: "try_finally (connect_rw p) close_reservation l = (Inr (), connected_to p empty_database ?m)"
    using l l' by (simp add: try_finally_def connect_quiet close_reservation_def run_combinators take_os_error_def connected_to_def)
  let ?d = "with_journal ''wal'' empty_database"
  let ?c = "(connected_to p ?d ?m)\<lparr>work := Some ?d, write_locked := True\<rparr>"
  let ?n = "?c\<lparr>work := Some (new_database ''wal'')\<rparr>"
  have schema: "create_schema ?c = (Inr (), ?n)"
    by (rule create_schema_run) (use l' in simp_all)
  have valid: "validate_store ?n = (Inr (), ?n)"
    by (rule validate_store_accepts [OF _ _ _ new_database_valid]) (use l' in simp_all)
  have commit: "commit_tx ?n = (Inr (), connected_to p (new_database ''wal'') ?m)"
    using commit_quiet_host [OF m(1)] by simp
  show ?thesis
    by (simp add: initialize_connection_def run_sq connect configure_quiet [OF m(1)] begin_quiet [OF m] schema
        valid [simplified] commit [simplified])
qed

lemma initialize_quiet:
  assumes h: "quiet_host h" and d: "on_disk h p = None" and p: "p = os_abspath h (os_expanduser h path)"
  obtains s h' where "initialize_new path h = (Inr s, h')" "durable s = new_database ''wal''" "idle s" "faults s = []" "busy s = busy h"
proof -
  let ?k = "h\<lparr>files := (files h)(p \<mapsto> empty_database), reservation := True\<rparr>"
  obtain l where l: "no_connection ?k = (Inr (), l)" "opened l = None" "files l p = Some empty_database" "quiet_host l" "reservation l"
      "busy l = busy h"
    using h d by (auto simp: no_connection_def run_simps on_disk_def quiet_host_def split: if_splits)
  have run: "initialize_new path h = make_store p (connected_to p (new_database ''wal'') (l\<lparr>reservation := False\<rparr>))"
    using h d p [symmetric] l(1)
    by (simp add: initialize_new_def normalize_path_def run_simps run_bnd run_sq run_try_except reserve_new_windows_path_def
        create_file_new_def take_os_error_def quiet_host_def initialize_connection_quiet [OF l(2-5)])
      (simp add: make_store_def run_simps)
  show thesis
    by (rule that [OF run [unfolded make_store_def run_simps]])
      (use l(4,6) in \<open>simp_all add: idle_def no_tx_def quiet_host_def\<close>)
qed

section \<open>Migration\<close>

text \<open>
  What one migration step relies on: validators that decide validity of the two versions, and that
  adding the table and the version number to a valid source gives a valid target.
\<close>

definition upgraded :: "int \<Rightarrow> ddl \<Rightarrow> database \<Rightarrow> database" where
  "upgraded version t d = (with_table t d)\<lparr>user_version := version\<rparr>"

locale migration =
  fixes source_version target_version :: int and migration_name :: string
    and source_validator target_validator :: "(host, unit) prog" and create_sql :: ddl
    and source_valid target_valid :: "database \<Rightarrow> bool"
  assumes source_checks: "checks source_validator source_valid" and source_faithful: "faithful source_validator"
    and target_checks: "checks target_validator target_valid" and target_faithful: "faithful target_validator"
    and source_has_version: "source_valid d \<Longrightarrow> user_version d = source_version"
    and source_journal: "source_valid (with_journal m d) = source_valid d"
    and upgrade: "source_valid d \<Longrightarrow> \<not> has_table (ddl_name create_sql) d \<and> target_valid (upgraded target_version create_sql d)"
begin

definition change_schema :: "(host, unit) prog" where
  "change_schema = sq source_validator (sq (create_table create_sql) (sq (set_user_version target_version) target_validator))"

lemma change_schema_faithful: "faithful change_schema"
  unfolding change_schema_def create_table_def set_user_version_def
  by (intro impl_intros source_faithful target_faithful)

text \<open>Without faults the change succeeds just on the valid sources.\<close>

lemma change_schema_run:
  assumes c: "is_open c" "faults c = []" "work c = Some d"
  shows "if source_valid d then change_schema c = (Inr (), c\<lparr>work := Some (upgraded target_version create_sql d)\<rparr>)
    else \<exists>e. change_schema c = (Inl e, c) \<and> check_error e"
proof (cases "source_valid d")
  case False
  then show ?thesis
    by (rule_tac checksE [OF source_checks c(1,2)]) (use c(3) in \<open>auto simp: change_schema_def run_sq\<close>)
next
  case True
  have source: "source_validator c = (Inr (), c)"
    by (rule checksE [OF source_checks c(1,2)]) (use c(3) True in auto)
  let ?c = "c\<lparr>work := Some (upgraded target_version create_sql d)\<rparr>"
  have "is_open ?c" "faults ?c = []" "view ?c = upgraded target_version create_sql d" using c by (simp_all add: view_def)
  then have "target_validator ?c = (Inr (), ?c)"
    using upgrade [OF True] by (rule_tac checksE [OF target_checks, of ?c]) auto
  with True source c upgrade [OF True] show ?thesis
    by (simp add: change_schema_def run_sq create_table_in_tx upgraded_def)
qed

text \<open>The part before \<open>COMMIT\<close>, on a host connected to nothing yet.\<close>

lemma transaction_Inr:
  assumes "migration_transaction source_version target_version source_validator target_validator create_sql p h = (r, h')"
    "opened h = None" "files h p = Some d"
  shows "disk_frame p h h' \<and> (\<exists>m. on_disk h' p = Some (with_journal m d)
     \<and> (r = Inr () \<longrightarrow> source_valid d \<and> opened h' = Some p \<and> is_open h'
          \<and> work h' = Some (with_journal m (upgraded target_version create_sql d))))"
proof -
  let ?rest = "bnd read_schema_version (\<lambda>version. sq (guard (version = source_version) AuthorityStoreVersionError)
     (sq configure_durability (sq begin_immediate change_schema)))"
  obtain r1 h1 where one: "connect_rw p h = (r1, h1)" by (cases "connect_rw p h")
  note c = connect_host [OF one assms(2)]
  have run: "sq (connect_rw p) ?rest h = (r, h')"
    using assms(1) by (simp add: migration_transaction_def change_schema_def)
  have here: "on_disk h p = Some d" using assms by (simp add: on_disk_def)
  have self: "\<exists>m. Some d = Some (with_journal m d)" by (metis with_journal_fields(2))
  show ?thesis
  proof (cases r1)
    case (Inl e)
    with one c run have "r = Inl e" "on_disk h' = on_disk h" by (auto simp: run_sq dest: holding_disk)
    with here self show ?thesis by (auto simp: disk_frame_def)
  next
    case (Inr u)
    then have h1: "opened h1 = Some p" "durable h1 = d" "work h1 = None" "is_open h1" "disk_frame p h h1"
      using c assms by (auto simp: same_host_def disk_frame_def on_disk_def)
    have rest: "?rest h1 = (r, h')" using run one Inr by (simp add: run_sq)
    have version: "checks read_schema_version (\<lambda>_. True)"
      unfolding read_schema_version_def
      by (rule checks_convert [OF checks_pragma(1)]) (auto simp: check_error_def statement_error_def)
    obtain r2 h2 where two: "read_schema_version h1 = (r2, h2)" by (cases "read_schema_version h1")
    note v = validated [OF version two h1(4)]
    have disk2: "on_disk h2 p = Some d" "disk_frame p h h2"
      using v holding_disk [of h1 h2] h1 by (auto simp: on_disk_def disk_frame_def)
    show ?thesis
    proof (cases "r2 = Inr source_version")
      case False
      then have "isl r" "h' = h2" using rest two by (auto simp: run_bnd run_sq run_guard split: sum.splits if_splits)
      with disk2 self show ?thesis by auto
    next
      case True
      then have h2: "work h2 = None" "is_open h2" "same_host h1 h2" "durable h2 = d" using v h1 by (auto simp: holding_def)
      obtain r3 h3 where three: "configure_durability h2 = (r3, h3)" by (cases "configure_durability h2")
      note f = configure_host [OF three h2(2,1)]
      then obtain m where m: "durable h3 = with_journal m d" "same_host h1 h3"
        using h2 by (auto simp: journalled_def intro: same_host_trans)
      note disk3 = same_host_disk [OF m(2) h1(1)]
      show ?thesis
      proof (cases r3)
        case (Inl e)
        then have "isl r" "h' = h3" using rest two True three by (auto simp: run_bnd run_sq run_guard)
        with disk3 m h1(5) show ?thesis by (auto simp: disk_frame_def)
      next
        case (Inr w)
        then have h3: "is_open h3" "work h3 = None" using f by auto
        obtain r4 h4 where four: "begin_immediate h3 = (r4, h4)" by (cases "begin_immediate h3")
        note b = begin_host [OF four h3]
        obtain r5 h5 where five: "change_schema h4 = (r5, h5)" by (cases "change_schema h4")
        have disk4: "on_disk h4 = on_disk h3" using b holding_disk by blast
        show ?thesis
        proof (cases r4)
          case (Inl e)
          then have "isl r" "h' = h4" using rest two True three \<open>r3 = Inr w\<close> four by (auto simp: run_bnd run_sq run_guard)
          with disk3 disk4 m h1(5) show ?thesis by (auto simp: disk_frame_def)
        next
          case (Inr x)
          then have h4: "is_open h4" "work h4 = Some (with_journal m d)" using b m by auto
          have "r = r5" "h' = h5" using rest two True three \<open>r3 = Inr w\<close> four Inr five by (simp_all add: run_bnd run_sq run_guard)
          note t = transacted [OF change_schema_faithful five h4]
          have "is_open (quiet h4)" "faults (quiet h4) = []" "work (quiet h4) = Some (with_journal m d)" using h4 by simp_all
          note q = change_schema_run [OF this, unfolded source_journal]
          have moved: "upgraded target_version create_sql (with_journal m d) = with_journal m (upgraded target_version create_sql d)"
            by (simp add: upgraded_def with_table_def with_journal_def)
          have held: "holding h3 h5" using t b by (blast intro: holding_trans)
          have open_p: "opened h5 = Some p" using held m(2) h1(1) by (simp add: holding_def same_host_def)
          have disk5: "on_disk h5 = on_disk h3" by (rule holding_disk [OF held])
          have "r5 = Inr () \<longrightarrow> source_valid d \<and> is_open h5 \<and> work h5 = Some (with_journal m (upgraded target_version create_sql d))"
          proof
            assume r5: "r5 = Inr ()"
            then obtain d' where d': "work h5 = Some d'" "is_open h5" "change_schema (quiet h4) = (Inr (), (quiet h4)\<lparr>work := Some d'\<rparr>)"
              using t by auto
            with q have "source_valid d" by (auto split: if_splits)
            with q d'(3) have "d' = upgraded target_version create_sql (with_journal m d)"
              by (simp add: update_work_inject)
            with d' moved \<open>source_valid d\<close>
            show "source_valid d \<and> is_open h5 \<and> work h5 = Some (with_journal m (upgraded target_version create_sql d))" by simp
          qed
          moreover have "disk_frame p h h5" "on_disk h5 p = Some (with_journal m d)"
            using disk5 disk3 m(1) h1(5) by (simp_all add: disk_frame_def)
          ultimately show ?thesis unfolding \<open>r = r5\<close> \<open>h' = h5\<close> using open_p by blast
        qed
      qed
    qed
  qed
qed

definition run_migration :: "pystr \<Rightarrow> (host, unit) prog" where
  "run_migration = migrate_one_table source_version target_version migration_name source_validator target_validator create_sql"

definition uncertain_migration :: exn where
  "uncertain_migration = AuthorityStoreError (migration_name @ '' migration COMMIT outcome is uncertain; inspect the durable store explicitly'')"

lemma final_close_returns: "final_close h = (r, h') \<Longrightarrow> r = Inr ()"
  by (auto simp: final_close_def if_connected_run run_try_except run_simps dest: close_host
      split: if_splits prod.splits sum.splits)

lemma commit_result:
  assumes "try_except commit_tx (migration_failure migration_name True) k = (r, h')" "is_open k" "work k = Some u" "opened k = Some p"
  shows "disk_frame p k h' \<and> (on_disk h' p = Some u \<and> (r = Inr () \<or> r = Inl uncertain_migration \<or> r = Inl DatabaseError)
    \<or> on_disk h' p = on_disk k p \<and> isl r)"
proof -
  obtain r1 k1 where one: "commit_tx k = (r1, k1)" by (cases "commit_tx k")
  note c = commit_host [OF one assms(2,3)]
  then have k1: "opened k1 = Some p" "disk_frame p k k1" "on_disk k1 p = Some (durable k1)" "on_disk k p = Some (durable k)"
    using same_host_disk [of k k1 p] assms(4) by (auto simp: same_host_def on_disk_def)
  show ?thesis
  proof (cases r1)
    case (Inr x)
    with one assms(1) c k1 show ?thesis by (auto simp: run_try_except)
  next
    case (Inl e)
    then have e: "e = DatabaseError" "durable k1 = durable k \<or> durable k1 = u" using c by auto
    then have fail: "migration_failure migration_name True DatabaseError k1 = (r, h')"
      using assms(1) one Inl by (simp add: run_try_except)
    then have "on_disk h' = on_disk k1" by (rule holding_disk [OF cleansD [OF cleans_failures(3)]])
    moreover have "r = Inl uncertain_migration \<or> r = Inl DatabaseError"
      using fail k1(1)
      by (auto simp: migration_failure_def Let_def if_connected_run run_sq run_simps uncertain_migration_def
          split: prod.splits sum.splits if_splits dest: close_host)
    ultimately show ?thesis using e(2) k1 by (auto simp: disk_frame_def)
  qed
qed

lemma migration_outcome:
  assumes run: "run_migration path h = (r, h')" and p: "p = os_abspath h (os_expanduser h path)"
  shows "disk_frame p h h' \<and> (case on_disk h p of
      None \<Rightarrow> on_disk h' p = None \<and> r = Inl AuthorityStoreMissingError
    | Some d \<Rightarrow> \<exists>m. source_valid d \<and> on_disk h' p = Some (with_journal m (upgraded target_version create_sql d))
          \<and> (r = Inr () \<or> r = Inl uncertain_migration \<or> r = Inl DatabaseError)
        \<or> on_disk h' p = Some (with_journal m d) \<and> isl r)"
proof (cases "on_disk h p")
  case None
  then show ?thesis using run p
    by (auto simp: run_migration_def migrate_one_table_def normalize_path_def path_exists_def run_combinators disk_frame_def)
next
  case (Some d)
  let ?k = "h\<lparr>files := on_disk h, opened := None\<rparr>"
  let ?T = "migration_transaction source_version target_version source_validator target_validator create_sql p"
  let ?C = "try_except commit_tx (migration_failure migration_name True)"
  let ?inner = "sq (try_except ?T (migration_failure migration_name False)) ?C"
  have whole: "try_finally ?inner final_close ?k = (r, h')"
    using run p Some
    by (simp add: run_migration_def migrate_one_table_def normalize_path_def path_exists_def run_combinators disconnected)
  obtain ri hi where i: "?inner ?k = (ri, hi)" by (cases "?inner ?k")
  obtain rf hf where f: "final_close hi = (rf, hf)" by (cases "final_close hi")
  have r: "r = ri" "on_disk h' = on_disk hi"
    using whole i f final_close_returns [OF f] holding_disk [OF cleansD [OF cleans_failures(4) f]]
    by (auto simp: try_finally_def)
  obtain rt ht where t: "?T ?k = (rt, ht)" by (cases "?T ?k")
  obtain m where m: "disk_frame p ?k ht" "on_disk ht p = Some (with_journal m d)"
    "rt = Inr () \<Longrightarrow> source_valid d \<and> opened ht = Some p \<and> is_open ht
       \<and> work ht = Some (with_journal m (upgraded target_version create_sql d))"
    using transaction_Inr [OF t, of d] Some by auto
  have frame: "disk_frame p h ht" using m(1) by (simp add: disk_frame_def disconnected(2))
  show ?thesis
  proof (cases rt)
    case (Inl e)
    then have "sq (migration_failure migration_name False e) ?C ht = (ri, hi)"
      using i t by (simp add: run_sq run_try_except)
    moreover obtain y k where y: "migration_failure migration_name False e ht = (Inl y, k)"
      using failure_raises(3) [of migration_name False e ht]
      by (cases "migration_failure migration_name False e ht"; cases "fst (migration_failure migration_name False e ht)") auto
    ultimately have "ri = Inl y" "hi = k" by (simp_all add: run_sq)
    moreover have "on_disk k = on_disk ht" by (rule holding_disk [OF cleansD [OF cleans_failures(3) y]])
    ultimately show ?thesis using r frame m(2) Some by (auto simp: disk_frame_def)
  next
    case (Inr u)
    then have C: "?C ht = (ri, hi)" using i t by (simp add: run_sq run_try_except)
    from m(3) Inr have ht: "source_valid d" "opened ht = Some p" "is_open ht"
      "work ht = Some (with_journal m (upgraded target_version create_sql d))" by auto
    note c = commit_result [OF C ht(3,4,2)]
    then have "disk_frame p h hi" using frame by (simp add: disk_frame_def)
    then show ?thesis using c r ht(1) m(2) Some by (auto simp: disk_frame_def)
  qed
qed

lemma migration_quiet:
  assumes h: "quiet_host h" and d: "on_disk h p = Some d" "source_valid d" and p: "p = os_abspath h (os_expanduser h path)"
  obtains h' where "run_migration path h = (Inr (), h')" "quiet_host h'" "os_abspath h' = os_abspath h" "os_expanduser h' = os_expanduser h"
    "on_disk h' p = Some (with_journal ''wal'' (upgraded target_version create_sql d))"
proof -
  let ?k = "h\<lparr>files := on_disk h, opened := None\<rparr>"
  let ?d = "with_journal ''wal'' d" and ?u = "upgraded target_version create_sql (with_journal ''wal'' d)"
  have k: "opened ?k = None" "files ?k p = Some d" "faults ?k = []" "\<not> busy ?k" using h d by (simp_all add: quiet_host_def)
  have version: "read_schema_version (connected_to p d ?k) = (Inr source_version, connected_to p d ?k)"
    using k source_has_version [OF d(2)]
    by (simp add: read_schema_version_def run_combinators pragma_def quiet_execute)
  let ?c = "(connected_to p ?d ?k)\<lparr>work := Some ?d, write_locked := True\<rparr>"
  have c: "is_open ?c" "faults ?c = []" "work ?c = Some ?d" using k by simp_all
  from change_schema_run [OF this] d(2) have "change_schema ?c = (Inr (), ?c\<lparr>work := Some ?u\<rparr>)"
    by (simp add: source_journal)
  then have T: "migration_transaction source_version target_version source_validator target_validator create_sql p ?k =
      (Inr (), ?c\<lparr>work := Some ?u\<rparr>)"
    using version by (simp add: migration_transaction_def run_combinators connect_quiet [OF k(1-3)] configure_quiet [OF k(3)]
        begin_quiet [OF k(3,4)] change_schema_def)
  have C: "commit_tx (?c\<lparr>work := Some ?u\<rparr>) = (Inr (), connected_to p ?u ?k)"
    using commit_quiet_host [OF k(3)] by simp
  have final: "final_close (connected_to p ?u ?k) = (Inr (), end_tx (connected_to p ?u ?k)\<lparr>is_open := False\<rparr>)"
    using k by (simp add: final_close_def if_connected_run run_try_except close_quiet)
  have moved: "?u = with_journal ''wal'' (upgraded target_version create_sql d)"
    by (simp add: upgraded_def with_table_def with_journal_def)
  show thesis
  proof (rule that)
    show "run_migration path h = (Inr (), end_tx (connected_to p ?u ?k)\<lparr>is_open := False\<rparr>)"
      using p [symmetric] d T C final
      by (simp add: run_migration_def migrate_one_table_def normalize_path_def path_exists_def run_combinators disconnected
          try_finally_def)
  qed (use h moved in \<open>simp_all add: quiet_host_def connected_to_def end_tx_def on_disk_def\<close>)
qed

end

section \<open>The four migrations\<close>

text \<open>Adding a table to a schema.\<close>

definition adds_table :: "(string \<times> ddl) list \<Rightarrow> ddl \<Rightarrow> (string \<times> ddl) list \<Rightarrow> bool" where
  "adds_table objects t objects' \<longleftrightarrow> distinct (map fst objects') \<and> distinct (map fst objects)
     \<and> set objects' = insert (ddl_name t, t) (set objects) \<and> ddl_name t \<notin> fst ` set objects
     \<and> take 7 (ddl_name t) \<noteq> ''sqlite_'' \<and> stored_sql (ddl_text t) = canonical_stored_sql (ddl_text t)"

lemma user_rows_with_table:
  "take 7 (ddl_name t) \<noteq> ''sqlite_'' \<Longrightarrow> user_schema_rows (with_table t d) = user_schema_rows d @ [create_table_row t]"
  by (simp add: user_schema_rows_def with_table_fields create_table_row_def)

lemma schema_absent:
  assumes "schema_valid objects d" "n \<notin> fst ` set objects" "take 7 n \<noteq> ''sqlite_''"
  shows "\<not> has_table n d"
proof
  assume "has_table n d"
  then obtain r where "r \<in> set (schema d)" "obj_name r = n" by (auto simp: has_table_def list_ex_iff)
  then have "n \<in> obj_name ` set (user_schema_rows d)" using assms(3) by (auto simp: user_schema_rows_def)
  then show False using assms(1,2) by (simp add: schema_valid_def)
qed

lemma schema_upgraded:
  assumes "schema_valid objects d" "adds_table objects t objects'"
  shows "schema_valid objects' (with_table t d)"
proof -
  note a = assms(2) [unfolded adds_table_def]
  have map: "map_of objects' n = Some u \<longleftrightarrow> (if n = ddl_name t then u = t else map_of objects n = Some u)" for n u
    using a by (auto simp: map_of_eq_Some_iff intro: rev_image_eqI)
  have "length objects' = card (fst ` set objects')" "length objects = card (fst ` set objects)"
    using a distinct_card [of "map fst objects'"] distinct_card [of "map fst objects"] by simp_all
  then have "length objects' = Suc (length objects)" using a by simp
  moreover have "object_valid objects' r" if row: "object_valid objects r" for r
  proof -
    obtain u where u: "map_of objects (obj_name r) = Some u" using row by (auto simp: object_valid_def split: option.splits)
    then have "obj_name r \<noteq> ddl_name t" using a map_of_SomeD [OF u] by force
    with u have "map_of objects' (obj_name r) = Some u" by (simp add: map)
    with row u show ?thesis by (simp add: object_valid_def)
  qed
  moreover have "object_valid objects' (create_table_row t)"
  proof -
    have m: "map_of objects' (ddl_name t) = Some t" by (simp add: map)
    have "stored_sql (ddl_text t) = canonical_stored_sql (ddl_text t)" using a by simp
    then show ?thesis by (simp add: object_valid_def create_table_row_def m)
  qed
  ultimately show ?thesis
    using assms(1) a
    by (auto simp: schema_valid_def user_rows_with_table create_table_row_def)
qed

lemma table_info_with_table:
  "has_table n d \<Longrightarrow> table_info n (with_table t d) = table_info n d"
  "\<not> has_table (ddl_name t) d \<Longrightarrow> table_info (ddl_name t) (with_table t d) = ddl_columns t"
  "has_table n (with_table t d) \<longleftrightarrow> has_table n d \<or> n = ddl_name t"
proof -
  have find_append: "find P (xs @ ys) = (case find P xs of None \<Rightarrow> find P ys | Some x \<Rightarrow> Some x)" for P :: "schema_row \<Rightarrow> bool" and xs ys
    by (induction xs) auto
  have none: "find P xs = None \<longleftrightarrow> \<not> list_ex P xs" for P :: "schema_row \<Rightarrow> bool" and xs
    by (auto simp: find_None_iff list_ex_iff)
  show "has_table n d \<Longrightarrow> table_info n (with_table t d) = table_info n d"
    using none [of "\<lambda>r. obj_name r = n" "schema d"]
    by (auto simp: has_table_def table_info_def with_table_fields find_append split: option.split)
  show "\<not> has_table (ddl_name t) d \<Longrightarrow> table_info (ddl_name t) (with_table t d) = ddl_columns t"
    using none [of "\<lambda>r. obj_name r = ddl_name t" "schema d"]
    by (auto simp: has_table_def table_info_def with_table_fields find_append create_table_row_def split: option.split)
  show "has_table n (with_table t d) \<longleftrightarrow> has_table n d \<or> n = ddl_name t"
    by (auto simp: has_table_def with_table_fields create_table_row_def)
qed

lemma tables_upgraded:
  assumes "\<forall>x\<in>set objects. table_valid (snd x) d" "adds_table objects t objects'" "\<not> has_table (ddl_name t) d"
  shows "\<forall>x\<in>set objects'. table_valid (snd x) (with_table t d)"
  using assms by (auto simp: adds_table_def table_valid_def table_info_with_table)

lemma schema_update [simp]:
  "schema_valid objects (d\<lparr>user_version := v\<rparr>) = schema_valid objects d"
  "table_valid t (d\<lparr>user_version := v\<rparr>) = table_valid t d"
  "schema_valid objects (d\<lparr>journal_mode := m\<rparr>) = schema_valid objects d"
  "table_valid t (d\<lparr>journal_mode := m\<rparr>) = table_valid t d"
  by (simp_all add: schema_valid_def user_schema_rows_def table_valid_def table_info_def has_table_def)

lemma objects_added:
  "adds_table objects_v1 create_execution_keys_sql objects_v2"
  "adds_table objects_v2 create_execution_command_bindings_sql objects_v3"
  "adds_table objects_v3 create_execution_admissions_sql objects_v4"
  "adds_table objects_v4 create_execution_launches_sql objects_v5"
  by code_simp+

lemma exact_upgraded:
  assumes "exact_valid v objects k b a l d" "adds_table objects t objects'" "ddl_name t \<noteq> ''controller_generations''"
    "\<And>d'. d' = upgraded v' t d \<Longrightarrow> (k' \<longrightarrow> keys_valid d') \<and> (b' \<longrightarrow> binds_valid d') \<and> (a' \<longrightarrow> adms_valid d') \<and> (l' \<longrightarrow> launches_valid d')"
  shows "\<not> has_table (ddl_name t) d \<and> exact_valid v' objects' k' b' a' l' (upgraded v' t d)"
proof -
  have absent: "\<not> has_table (ddl_name t) d"
    by (rule schema_absent [of objects]) (use assms(1,2) in \<open>auto simp: exact_valid_def adds_table_def\<close>)
  have "integrity_check (upgraded v' t d)" "gens_valid (upgraded v' t d)"
    using assms(1,3) by (auto simp: exact_valid_def integrity_check_def upgraded_def with_table_def gens_valid_def)
  then show ?thesis
    using assms absent schema_upgraded [of objects d t objects'] tables_upgraded [of objects d t objects']
    by (simp add: exact_valid_def upgraded_def)
qed

lemmas version_parts = ddl_defs upgraded_def with_table_def exact_valid_def keys_valid_def binds_valid_def adms_valid_def
  launches_valid_def bind_valid_def adm_valid_def

lemma upgrades:
  "v1_valid d \<Longrightarrow> \<not> has_table (ddl_name create_execution_keys_sql) d \<and> v2_valid (upgraded v2_schema_version create_execution_keys_sql d)"
  "v2_valid d \<Longrightarrow> \<not> has_table (ddl_name create_execution_command_bindings_sql) d
     \<and> v3_valid (upgraded v3_schema_version create_execution_command_bindings_sql d)"
  "v3_valid d \<Longrightarrow> \<not> has_table (ddl_name create_execution_admissions_sql) d
     \<and> v4_valid (upgraded v4_schema_version create_execution_admissions_sql d)"
  "v4_valid d \<Longrightarrow> \<not> has_table (ddl_name create_execution_launches_sql) d
     \<and> store_valid (upgraded schema_version create_execution_launches_sql d)"
  unfolding v1_valid_def v2_valid_def v3_valid_def v4_valid_def store_valid_def
  by ((rule exact_upgraded [OF _ objects_added(1)], assumption, simp add: ddl_defs, auto simp: version_parts)[1],
      (rule exact_upgraded [OF _ objects_added(2)], assumption, simp add: ddl_defs, auto simp: version_parts)[1],
      (rule exact_upgraded [OF _ objects_added(3)], assumption, simp add: ddl_defs, auto simp: version_parts)[1],
      rule exact_upgraded [OF _ objects_added(4)], assumption, simp add: ddl_defs, auto simp: version_parts)

lemma version_numbers:
  "v1_valid d \<Longrightarrow> user_version d = v1_schema_version" "v2_valid d \<Longrightarrow> user_version d = v2_schema_version"
  "v3_valid d \<Longrightarrow> user_version d = v3_schema_version" "v4_valid d \<Longrightarrow> user_version d = v4_schema_version"
  by (simp_all add: v1_valid_def v2_valid_def v3_valid_def v4_valid_def exact_valid_def)

lemma exact_valid_journal: "exact_valid v objects k b a l (with_journal m d) = exact_valid v objects k b a l d"
  by (simp add: with_journal_def exact_valid_def integrity_check_def gens_valid_def keys_valid_def binds_valid_def
      adms_valid_def launches_valid_def bind_valid_def [abs_def] adm_valid_def [abs_def] launch_valid_def [abs_def])

lemma version_journal:
  "v1_valid (with_journal m d) = v1_valid d" "v2_valid (with_journal m d) = v2_valid d"
  "v3_valid (with_journal m d) = v3_valid d" "v4_valid (with_journal m d) = v4_valid d"
  by (simp_all add: v1_valid_def v2_valid_def v3_valid_def v4_valid_def exact_valid_journal)

interpretation v1_to_v2: migration v1_schema_version v2_schema_version "''v1-to-v2''" validate_v1_store validate_v2_store
    create_execution_keys_sql v1_valid v2_valid
  by unfold_locales (simp_all add: checks_v1 checks_v2 faithful_versions version_numbers version_journal upgrades)

interpretation v2_to_v3: migration v2_schema_version v3_schema_version "''v2-to-v3''" validate_v2_store validate_v3_store
    create_execution_command_bindings_sql v2_valid v3_valid
  by unfold_locales (simp_all add: checks_v2 checks_v3 faithful_versions version_numbers version_journal upgrades)

interpretation v3_to_v4: migration v3_schema_version v4_schema_version "''v3-to-v4''" validate_v3_store validate_v4_store
    create_execution_admissions_sql v3_valid v4_valid
  by unfold_locales (simp_all add: checks_v3 checks_v4 faithful_versions version_numbers version_journal upgrades)

interpretation v4_to_v5: migration v4_schema_version schema_version "''v4-to-v5''" validate_v4_store validate_current_store
    create_execution_launches_sql v4_valid store_valid
  by unfold_locales (simp_all add: checks_v4 checks_current faithful_versions version_numbers version_journal upgrades)

lemma migrations:
  "migrate_v1_to_v2 = v1_to_v2.run_migration" "migrate_v2_to_v3 = v2_to_v3.run_migration"
  "migrate_v3_to_v4 = v3_to_v4.run_migration" "migrate_v4_to_v5 = v4_to_v5.run_migration"
  by (simp_all add: migrate_v1_to_v2_def v1_to_v2.run_migration_def migrate_v2_to_v3_def v2_to_v3.run_migration_def
      migrate_v3_to_v4_def v3_to_v4.run_migration_def migrate_v4_to_v5_def v4_to_v5.run_migration_def)

text \<open>All four in order, and then opening: what an upgrade of the oldest stores is.\<close>

definition upgrade_store :: "pystr \<Rightarrow> (host, store) prog" where
  "upgrade_store path = sq (migrate_v1_to_v2 path) (sq (migrate_v2_to_v3 path) (sq (migrate_v3_to_v4 path)
     (sq (migrate_v4_to_v5 path) (open_existing path))))"

lemma upgrade_quiet:
  assumes h: "quiet_host h" "on_disk h p = Some d" "v1_valid d" and p: "p = os_abspath h (os_expanduser h path)"
  obtains s h' where "upgrade_store path h = (Inr s, h')" "store_valid (durable s)" "idle s"
    "t_gens (durable s) = t_gens d"
    "registered (abs_of (durable s)) = {}" "bindings (abs_of (durable s)) = Map.empty" "launches (abs_of (durable s)) = Map.empty"
proof -
  let ?d2 = "with_journal ''wal'' (upgraded v2_schema_version create_execution_keys_sql d)"
  let ?d3 = "with_journal ''wal'' (upgraded v3_schema_version create_execution_command_bindings_sql ?d2)"
  let ?d4 = "with_journal ''wal'' (upgraded v4_schema_version create_execution_admissions_sql ?d3)"
  let ?d5 = "with_journal ''wal'' (upgraded schema_version create_execution_launches_sql ?d4)"
  have valid: "v2_valid ?d2" "v3_valid ?d3" "v4_valid ?d4" "store_valid ?d5"
    using upgrades(1) [OF h(3)] upgrades(2) [of ?d2] upgrades(3) [of ?d3] upgrades(4) [of ?d4]
    by (simp_all add: version_journal)
  obtain h1 where one: "migrate_v1_to_v2 path h = (Inr (), h1)" "quiet_host h1" "os_abspath h1 = os_abspath h"
      "os_expanduser h1 = os_expanduser h" "on_disk h1 p = Some ?d2"
    unfolding migrations by (rule v1_to_v2.migration_quiet [OF h p])
  have p1: "p = os_abspath h1 (os_expanduser h1 path)" using p one by simp
  obtain h2 where two: "migrate_v2_to_v3 path h1 = (Inr (), h2)" "quiet_host h2" "os_abspath h2 = os_abspath h1"
      "os_expanduser h2 = os_expanduser h1" "on_disk h2 p = Some ?d3"
    unfolding migrations by (rule v2_to_v3.migration_quiet [OF one(2,5) valid(1) p1])
  have p2: "p = os_abspath h2 (os_expanduser h2 path)" using p1 two by simp
  obtain h3 where three: "migrate_v3_to_v4 path h2 = (Inr (), h3)" "quiet_host h3" "os_abspath h3 = os_abspath h2"
      "os_expanduser h3 = os_expanduser h2" "on_disk h3 p = Some ?d4"
    unfolding migrations by (rule v3_to_v4.migration_quiet [OF two(2,5) valid(2) p2])
  have p3: "p = os_abspath h3 (os_expanduser h3 path)" using p2 three by simp
  obtain h4 where four: "migrate_v4_to_v5 path h3 = (Inr (), h4)" "quiet_host h4" "os_abspath h4 = os_abspath h3"
      "os_expanduser h4 = os_expanduser h3" "on_disk h4 p = Some ?d5"
    unfolding migrations by (rule v4_to_v5.migration_quiet [OF three(2,5) valid(3) p3])
  have p4: "p = os_abspath h4 (os_expanduser h4 path)" using p3 four by simp
  obtain s h5 where five: "open_existing path h4 = (Inr s, h5)" "durable s = with_journal ''wal'' ?d5" "idle s"
    by (rule open_quiet [OF four(2,5) valid(4) p4])
  have run: "upgrade_store path h = (Inr s, h5)"
    by (simp add: upgrade_store_def run_sq one two three four five)
  have valid5: "store_valid (durable s)" using valid(4) by (simp add: five)
  show thesis
    by (rule that [OF run valid5 five(3)])
      (simp_all add: five(2) abs_of_def row_by_def with_journal_def upgraded_def with_table_def ddl_defs)
qed

end
