(* ===== verification/Execution_Examples.thy ===== *)
theory Execution_Examples
  imports Execution_Identity Authority_Fencing Authority_Files
begin

text \<open>
  Concrete data for the examples that show the hypotheses of the properties can hold: a command,
  a fresh store, a store with one scope at generation 2 and one registered, bound and admitted
  key, an open handle without faults, and a run of the command.
\<close>

definition demo_command :: LocalCommandSpec where
  "demo_command = \<lparr>executable = py ''/b'', argv = [py ''b''], working_directory = py ''/'',
     environment = [], timeout_seconds = 1\<rparr>"

definition demo_hash :: pystr where
  "demo_hash = (case command_spec_hash demo_command of Inl _ \<Rightarrow> [] | Inr h \<Rightarrow> h)"

definition fresh_database :: database where
  "fresh_database = empty_database\<lparr>user_version := schema_version, journal_mode := ''wal'',
     schema := map (create_table_row \<circ> snd) objects_v5\<rparr>"

definition ready_database :: database where
  "ready_database = fresh_database\<lparr>
     t_gens := [\<lparr>gr_scope = SText (py ''s''), gr_generation = SInteger 2\<rparr>],
     t_keys := [\<lparr>kr_key = SText (py ''k'')\<rparr>],
     t_binds := [\<lparr>br_key = SText (py ''k''), br_hash = SText demo_hash\<rparr>],
     t_adms := [\<lparr>ar_key = SText (py ''k''), ar_scope = SText (py ''s''), ar_generation = SInteger 2\<rparr>]\<rparr>"

definition open_handle :: "database \<Rightarrow> store" where
  "open_handle d = \<lparr>durable = d, work = None, is_open = True, write_locked = False, busy = False,
     synchronous = 2, faults = [], store_path = py ''/a.sqlite'', connected = True, poisoned = False\<rparr>"

lemma small_text_ok: "text_ok a s" if "s = py ''/b'' \<or> s = py ''b'' \<or> s = py ''/''"
proof -
  have "encodable s" using that by (auto simp: encodable_def is_scalar_def)
  moreover have "length (utf8 s) \<le> 20" using that by (auto simp: utf8_def utf8_char_def)
  ultimately show ?thesis using that by (auto simp: text_ok_def frameable_def max_framed_def)
qed

lemma demo_command_ok: "spec_ok (\<lambda>p. True) demo_command" "canon_ok demo_command"
proof -
  show *: "spec_ok (\<lambda>p. True) demo_command"
    by (simp add: spec_ok_def demo_command_def small_text_ok max_framed_def del: py_Cons)
  show "canon_ok demo_command"
    by (rule spec_ok_canon_ok [OF *]) (simp_all add: demo_command_def max_framed_def)
qed

lemma demo_hash: "command_spec_hash demo_command = Inr demo_hash"
proof -
  obtain h where "command_spec_hash demo_command = Inr h"
    using demo_command_ok(2) by (auto simp: hash_Inr)
  then show ?thesis by (simp add: demo_hash_def)
qed

lemma fresh_valid: "store_valid fresh_database"
  by code_simp

lemma schema_only:
  assumes "schema d = schema d'"
  shows "schema_valid objects d = schema_valid objects d'" "table_valid t d = table_valid t d'"
  by (simp_all add: assms schema_valid_def user_schema_rows_def table_valid_def table_info_def has_table_def)

lemma ready_schema: "schema_valid objects_v5 ready_database" "\<forall>t\<in>set objects_v5. table_valid (snd t) ready_database"
proof -
  have "schema ready_database = schema fresh_database" by (simp add: ready_database_def)
  note same = schema_only [OF this]
  show "schema_valid objects_v5 ready_database" "\<forall>t\<in>set objects_v5. table_valid (snd t) ready_database"
    using fresh_valid unfolding store_valid_parts same by blast+
qed

lemma ready_valid: "store_valid ready_database"
  unfolding store_valid_def exact_valid_def
  by (intro conjI impI ready_schema)
    (use hash_usable [OF demo_hash] in \<open>simp_all add: ready_database_def fresh_database_def empty_database_def
      integrity_check_def gens_valid_def keys_valid_def binds_valid_def adms_valid_def launches_valid_def
      gen_valid_def key_valid_def bind_valid_def adm_valid_def text_nonempty_def generation_ok_def
      generation_le_def hash_ok_def max_generation_def\<close>)

lemma ready_abs:
  "generations (abs_of ready_database) = [py ''s'' \<mapsto> 2]" "registered (abs_of ready_database) = {py ''k''}"
  "bindings (abs_of ready_database) = [py ''k'' \<mapsto> demo_hash]"
  "admissions (abs_of ready_database) = [py ''k'' \<mapsto> (py ''s'', 2)]" "launches (abs_of ready_database) = Map.empty"
  by (auto simp: fun_eq_iff abs_of_def ready_database_def fresh_database_def empty_database_def row_by_def
      simp del: py_Cons)

lemma demo_idle: "idle (open_handle d)" "handle_ok (open_handle d)" "durable (open_handle d) = d"
  by (simp_all add: open_handle_def idle_def handle_ok_def no_tx_def)

lemma ready_no_faults: "no_faults (open_handle ready_database)"
  by (simp add: no_faults_def demo_idle ready_valid) (simp add: open_handle_def)

lemma demo_letters: "encodable (py ''k'')" "encodable (py ''s'')"
  by (simp_all add: encodable_def is_scalar_def)

lemma ready_admitted: "admitted_for (abs_of ready_database) (py ''k'') (py ''s'') 2 demo_hash"
  by (simp add: admitted_for_def ready_abs demo_letters del: py_Cons)

definition demo_runner :: runner where
  "demo_runner = \<lparr>rn_store = open_handle ready_database, rn_launched = [],
     rn_outcomes = [Returned (PyInt 0)]\<rparr>"

lemma demo_run:
  obtains c' where "execute_local_command (PyStr (py ''k'')) (PyStr (py ''s'')) (PyInt 2) demo_command demo_runner =
    (Inr \<lparr>res_key = PyStr (py ''k''), res_hash = demo_hash, res_exit = 0\<rparr>, c')" "no_faults (rn_store c')"
proof -
  have "no_faults (rn_store demo_runner)" "next_outcome demo_runner = Returned (PyInt 0)"
    "admitted_for (abs_of (durable (rn_store demo_runner))) (py ''k'') (py ''s'') 2 demo_hash"
    using ready_admitted by (simp_all add: demo_runner_def ready_no_faults next_outcome_def demo_idle del: py_Cons)
  then show thesis
    using execute_succeeds [of demo_runner demo_command demo_hash "PyStr (py ''s'')" "py ''s''" "py ''k''" 2 0]
      demo_hash that by (auto simp: min_sqlite_integer_def max_sqlite_integer_def simp del: py_Cons)
qed

definition demo_event :: launch_event where
  "demo_event = \<lparr>ev_key = PyStr (py ''k''), ev_hash = demo_hash, ev_call = launcher_call demo_command,
     ev_outcome = Returned (PyInt 0)\<rparr>"

definition demo_launch :: ExecutionLaunch where
  "demo_launch = \<lparr>lch_key = py ''k'', lch_hash = demo_hash, lch_scope = py ''s'', lch_generation = 2,
     lch_state = TERMINAL, lch_exit = Some 0\<rparr>"

text \<open>The run's launch event and terminal result, and the run as steps of the controllers.\<close>

lemma demo_finished:
  obtains c' where "execute_local_command (PyStr (py ''k'')) (PyStr (py ''s'')) (PyInt 2) demo_command demo_runner =
      (Inr \<lparr>res_key = PyStr (py ''k''), res_hash = demo_hash, res_exit = 0\<rparr>, c')"
    "rn_launched c' = [demo_event]" "launches (abs_of (durable (rn_store c'))) = [py ''k'' \<mapsto> demo_launch]"
proof -
  obtain c' where run: "execute_local_command (PyStr (py ''k'')) (PyStr (py ''s'')) (PyInt 2) demo_command demo_runner =
      (Inr \<lparr>res_key = PyStr (py ''k''), res_hash = demo_hash, res_exit = 0\<rparr>, c')"
    by (rule demo_run)
  have start: "handle_ok (rn_store demo_runner)" "rn_launched demo_runner = []"
    "durable (rn_store demo_runner) = ready_database"
    by (simp_all add: demo_runner_def demo_idle)
  show thesis
    by (rule execute_returned [OF start(1) run])
      (use run start demo_hash in \<open>auto simp: demo_event_def demo_launch_def ready_abs simp del: py_Cons intro!: that\<close>)
qed

lemma demo_world:
  obtains w where "steps (start ready_database) w" "w_events w = [demo_event]"
    "launches (abs_of (w_db w)) = [py ''k'' \<mapsto> demo_launch]"
proof -
  obtain c' where run: "execute_local_command (PyStr (py ''k'')) (PyStr (py ''s'')) (PyInt 2) demo_command demo_runner =
      (Inr \<lparr>res_key = PyStr (py ''k''), res_hash = demo_hash, res_exit = 0\<rparr>, c')"
    "rn_launched c' = [demo_event]" "launches (abs_of (durable (rn_store c'))) = [py ''k'' \<mapsto> demo_launch]"
    by (rule demo_finished)
  have "handle_ok (rn_store demo_runner)" "w_db (start ready_database) = durable (rn_store demo_runner)"
    "w_phase (start ready_database) 0 = Outside"
    by (simp_all add: demo_runner_def demo_idle start_def)
  from execute_simulated [OF this, of "PyStr (py ''k'')" "PyStr (py ''s'')" "PyInt 2" demo_command]
  obtain w where "follows (start ready_database) 0 demo_runner w c'"
    using run(1) by auto
  then show thesis
    using run(2,3) by (intro that [of w]) (auto simp: follows_def start_def demo_runner_def)
qed

text \<open>A scope that is a lone surrogate.\<close>

lemma surrogate_scope:
  "acquire_generation (PyStr [0xD800]) (open_handle fresh_database) =
     (Inl UnicodeEncodeError, (open_handle fresh_database)\<lparr>work := Some fresh_database, write_locked := True\<rparr>)"
proof -
  let ?s = "open_handle fresh_database"
  let ?t = "?s\<lparr>work := Some fresh_database, write_locked := True\<rparr>"
  have begun: "begin_immediate ?s = (Inr (), ?t)"
    by (simp add: begin_immediate_def execute_cases open_handle_def in_transaction_def)
  have "validate_store ?t = (Inr (), ?t)"
    by (rule validate_store_accepts [OF _ _ _ fresh_valid]) (simp_all add: open_handle_def)
  moreover have "acquire_generation_body [0xD800] ?t = (Inl UnicodeEncodeError, ?t)"
    by (simp add: acquire_generation_body_def select_def run_bnd execute_unencodable open_handle_def
        encodable_def is_scalar_def)
  ultimately show ?thesis
    by (simp add: acquire_generation_def run_sq run_bnd usable demo_idle validate_scope_def run_simps
        transaction_def run_try_except begun after_failure_def)
qed

text \<open>An acquisition of the scope's next generation, and a handle that stays usable.\<close>

lemma no_faults_ok: "no_faults s \<Longrightarrow> handle_ok s"
  by (simp add: no_faults_def idle_def handle_ok_def no_tx_def)

lemma demo_acquire:
  obtains s where "acquire_generation (PyStr (py ''s'')) (open_handle ready_database) = (Inr 3, s)" "no_faults s"
    "abs_of (durable s) = (abs_of ready_database)\<lparr>generations := [py ''s'' \<mapsto> 3]\<rparr>"
proof -
  have "s_acquire_generation (PyStr (py ''s'')) (abs_of ready_database) =
      (Inr 3, (abs_of ready_database)\<lparr>generations := [py ''s'' \<mapsto> 3]\<rparr>)"
    using py_inject [of "''s''" "[]"]
    by (simp add: s_acquire_Inr ready_abs demo_letters max_generation_def del: py_Cons py_inject)
  then show thesis
    using acquire.succeeds [OF ready_no_faults, of "PyStr (py ''s'')" 3] that by (metis demo_idle(3))
qed

text \<open>A host without files, and one with a store of the oldest version.\<close>

definition empty_host :: host where
  "empty_host = \<lparr>durable = empty_database, work = None, is_open = False, write_locked = False, busy = False,
     synchronous = 2, faults = [], os_nt = True, os_expanduser = (\<lambda>p. p), os_abspath = (\<lambda>p. p), os_errors = [],
     files = Map.empty, reservation = False, opened = None\<rparr>"

definition oldest_store :: database where
  "oldest_store = empty_database\<lparr>user_version := v1_schema_version, schema := [create_table_row create_generations_sql],
     t_gens := [\<lparr>gr_scope = SText (py ''s''), gr_generation = SInteger 7\<rparr>]\<rparr>"

definition oldest_host :: host where
  "oldest_host = empty_host\<lparr>files := [py ''/a'' \<mapsto> oldest_store]\<rparr>"

lemma demo_hosts: "quiet_host empty_host" "on_disk empty_host p = None" "p = os_abspath empty_host (os_expanduser empty_host p)"
  "quiet_host oldest_host" "on_disk oldest_host (py ''/a'') = Some oldest_store"
  "p = os_abspath oldest_host (os_expanduser oldest_host p)"
  by (simp_all add: quiet_host_def empty_host_def oldest_host_def on_disk_def)

lemma oldest_valid: "v1_valid oldest_store"
  by code_simp

end
