(* ===== verification/Workgraph_Machine.thy ===== *)
theory Workgraph_Machine
  imports Local_Execution Authority_Lifecycle "HOL-Library.Sublist"
begin

text \<open>
  The machine on which the WorkGraph client and its validation process run: Windows paths as
  \<open>pathlib\<close> has them, the answers of the operating system, of \<open>git\<close> and of GitHub, and the
  record of every call made to them, in order. What the outside answers may depend on all calls
  so far and is otherwise arbitrary. Nothing here models a function of the client.
\<close>

section \<open>Paths\<close>

text \<open>
  A \<open>WindowsPath\<close>: drive, root and parts. \<open>path / name\<close> is only used with one relative part. Two
  paths are equal if they agree up to case; \<open>lower\<close> is \<open>str.lower\<close>.
\<close>

record path =
  drive :: pystr
  root :: pystr
  parts :: "pystr list"

fun join_parts :: "pystr list \<Rightarrow> pystr" where
  "join_parts [] = []"
| "join_parts [p] = p"
| "join_parts (p # ps) = p @ 92 # join_parts ps"

definition path_str :: "path \<Rightarrow> pystr" where
  "path_str p = (if drive p @ root p = [] \<and> parts p = [] then py ''.'' else drive p @ root p @ join_parts (parts p))"

definition path_parent :: "path \<Rightarrow> path" where
  "path_parent p = p\<lparr>parts := butlast (parts p)\<rparr>"

definition path_join :: "path \<Rightarrow> pystr \<Rightarrow> path" where
  "path_join p name = p\<lparr>parts := parts p @ [name]\<rparr>"

definition is_absolute :: "path \<Rightarrow> bool" where
  "is_absolute p \<longleftrightarrow> drive p \<noteq> [] \<and> root p \<noteq> []"

text \<open>\<open>path.parents[n]\<close> of an absolute path.\<close>

definition path_ancestor :: "nat \<Rightarrow> path \<Rightarrow> exn + path" where
  "path_ancestor n p = (if n < length (parts p)
     then Inr (p\<lparr>parts := take (length (parts p) - Suc n) (parts p)\<rparr>) else Inl IndexError)"

definition path_with_name :: "path \<Rightarrow> pystr \<Rightarrow> exn + path" where
  "path_with_name p name = (if parts p = [] then Inl ValueError else Inr (p\<lparr>parts := butlast (parts p) @ [name]\<rparr>))"

definition folded :: "(pystr \<Rightarrow> pystr) \<Rightarrow> path \<Rightarrow> path" where
  "folded lower p = \<lparr>drive = lower (drive p), root = lower (root p), parts = map lower (parts p)\<rparr>"

definition same_path :: "(pystr \<Rightarrow> pystr) \<Rightarrow> path \<Rightarrow> path \<Rightarrow> bool" where
  "same_path lower p q \<longleftrightarrow> folded lower p = folded lower q"

text \<open>Whether \<open>p.relative_to(q)\<close> returns.\<close>

definition relative_to :: "(pystr \<Rightarrow> pystr) \<Rightarrow> path \<Rightarrow> path \<Rightarrow> bool" where
  "relative_to lower p q \<longleftrightarrow> lower (drive p) = lower (drive q) \<and> lower (root p) = lower (root q)
     \<and> prefix (map lower (parts q)) (map lower (parts p))"

lemma path_parent_join [simp]: "path_parent (path_join p name) = p"
  by (simp add: path_parent_def path_join_def)

section \<open>Text\<close>

text \<open>\<open>str.strip()\<close>, which removes Unicode white space.\<close>

definition is_space :: "nat \<Rightarrow> bool" where
  "is_space c \<longleftrightarrow> 9 \<le> c \<and> c \<le> 13 \<or> 28 \<le> c \<and> c \<le> 32 \<or> c = 0x85 \<or> c = 0xA0 \<or> c = 0x1680
     \<or> 0x2000 \<le> c \<and> c \<le> 0x200A \<or> c = 0x2028 \<or> c = 0x2029 \<or> c = 0x202F \<or> c = 0x205F \<or> c = 0x3000"

definition strip :: "pystr \<Rightarrow> pystr" where
  "strip s = rev (dropWhile is_space (rev (dropWhile is_space s)))"

text \<open>\<open>_REVISION.fullmatch\<close>: forty lower-case hexadecimal digits.\<close>

definition is_revision :: "pystr \<Rightarrow> bool" where
  "is_revision s \<longleftrightarrow> length s = 40 \<and> list_all (\<lambda>c. 48 \<le> c \<and> c \<le> 57 \<or> 97 \<le> c \<and> c \<le> 102) s"

lemma strip_revision: "strip s = s" if "is_revision s"
proof -
  have ends: "dropWhile is_space t = t" if "list_all (\<lambda>c. 48 \<le> c \<and> c \<le> 57 \<or> 97 \<le> c \<and> c \<le> 102) t" for t
    using that by (cases t) (auto simp: is_space_def)
  have "list_all (\<lambda>c. 48 \<le> c \<and> c \<le> 57 \<or> 97 \<le> c \<and> c \<le> 102) s" using that by (simp add: is_revision_def)
  then show ?thesis using ends [of s] ends [of "rev s"] by (simp add: strip_def)
qed

section \<open>Calls and answers\<close>

datatype path_check = Exists | Is_dir | Is_symlink
datatype path_change = Mkdir | Unlink | Rmtree

datatype printed = Generation_line int | Error_line exn
  | Result_line pystr "pystr option" "int option" "pystr option" bool

text \<open>
  One call with its answer. \<open>Found_git\<close>: \<open>shutil.which("git")\<close>. \<open>Ran_git\<close>: \<open>subprocess.run\<close> on a
  \<open>git\<close> command, with its code and standard output. \<open>Ran_stage\<close>: a validation stage with its
  arguments and working directory. \<open>App_data\<close>: \<open>SHGetKnownFolderPath\<close>. \<open>Got\<close>: a GET of a GitHub path
  with a token, parsed as JSON. \<open>Posted\<close>: a POST to a GitHub path with a token and the dictionary sent
  as JSON, with the response's status. \<open>Checked_out\<close>: the launcher ran the preflight.
  \<open>Spawned\<close>: the launcher ran a command for an execution.
\<close>

datatype event =
    Resolved path "exn + path"
  | Checked path_check path "exn + bool"
  | Changed path_change path "exn + unit"
  | Found_git "pystr option"
  | Ran_git "pystr list" "exn + int \<times> pystr"
  | Ran_stage "pystr list" path "exn + int"
  | App_data int "pystr option"
  | Got pystr pystr "exn + pyval"
  | Posted pystr pystr "(pystr \<times> pystr) list" "exn + int"
  | Preflight process_call launch_outcome
  | Spawned launch_event
  | Printed printed

text \<open>
  The outside: fixed facts about the process, and the answers to its calls, each from the calls
  and answers so far and the call itself. \<open>client_file\<close> and \<open>validation_file\<close>: \<open>__file__\<close> of the two modules.
\<close>

record outside =
  lower :: "pystr \<Rightarrow> pystr"
  parse_path :: "pystr \<Rightarrow> path"
  os_isabs :: "pystr \<Rightarrow> bool"
  client_file :: path
  validation_file :: path
  python_executable :: pystr
  environ :: "string \<Rightarrow> pystr option"
  on_resolve :: "event list \<Rightarrow> path \<Rightarrow> exn + path"
  on_check :: "event list \<Rightarrow> path_check \<Rightarrow> path \<Rightarrow> exn + bool"
  on_change :: "event list \<Rightarrow> path_change \<Rightarrow> path \<Rightarrow> exn + unit"
  on_which :: "event list \<Rightarrow> pystr option"
  on_git :: "event list \<Rightarrow> pystr list \<Rightarrow> exn + int \<times> pystr"
  on_stage :: "event list \<Rightarrow> pystr list \<Rightarrow> path \<Rightarrow> exn + int"
  on_app_data :: "event list \<Rightarrow> int \<times> pystr option"
  on_get :: "event list \<Rightarrow> pystr \<Rightarrow> pystr \<Rightarrow> exn + pyval"
  on_post :: "event list \<Rightarrow> pystr \<Rightarrow> pystr \<Rightarrow> (pystr \<times> pystr) list \<Rightarrow> exn + int"
  on_preflight :: "event list \<Rightarrow> process_call \<Rightarrow> launch_outcome"

text \<open>\<open>runner\<close> is the store handle of the current \<open>with\<close> block and the launches made through it.\<close>

record machine =
  host :: host
  runner :: runner
  outside :: outside
  events :: "event list"

definition observe :: "(outside \<Rightarrow> event list \<Rightarrow> 'r) \<Rightarrow> ('r \<Rightarrow> event) \<Rightarrow> (machine, 'r) prog" where
  "observe answer record_as = (\<lambda>c. let r = answer (outside c) (events c)
     in (Inr r, c\<lparr>events := events c @ [record_as r]\<rparr>))"

definition ask :: "(outside \<Rightarrow> event list \<Rightarrow> exn + 'a) \<Rightarrow> (exn + 'a \<Rightarrow> event) \<Rightarrow> (machine, 'a) prog" where
  "ask answer record_as = bnd (observe answer record_as) of_result"

definition known :: "(outside \<Rightarrow> 'a) \<Rightarrow> (machine, 'a) prog" where
  "known f = gets (\<lambda>c. f (outside c))"

definition resolve :: "path \<Rightarrow> (machine, path) prog" where
  "resolve p = ask (\<lambda>out h. on_resolve out h p) (Resolved p)"

definition check :: "path_check \<Rightarrow> path \<Rightarrow> (machine, bool) prog" where
  "check kind p = ask (\<lambda>out h. on_check out h kind p) (Checked kind p)"

definition change_path :: "path_change \<Rightarrow> path \<Rightarrow> (machine, unit) prog" where
  "change_path kind p = ask (\<lambda>out h. on_change out h kind p) (Changed kind p)"

definition print_line :: "printed \<Rightarrow> (machine, unit) prog" where
  "print_line out = observe (\<lambda>_ _. ()) (\<lambda>_. Printed out)"

end
