(* ===== verification/Workgraph_Validation.thy ===== *)
theory Workgraph_Validation
  imports Workgraph_Machine
begin

text \<open>
  \<open>master/buildbot/umbilical_workgraph_validation.py\<close>: the \<open>git\<close> helpers, the two integrity checks,
  \<open>run_validation\<close> and \<open>main\<close> from the arguments that \<open>argparse\<close> parsed. The lemmas say what a
  validation that returns has seen, call by call.
\<close>

section \<open>Git\<close>

definition git_argv :: "path \<Rightarrow> pystr list \<Rightarrow> (machine, pystr list option) prog" where
  "git_argv directory arguments = bnd (observe on_which Found_git) (\<lambda>executable.
     case executable of None \<Rightarrow> ret None | Some git \<Rightarrow>
     bnd (known os_isabs) (\<lambda>isabs. if \<not> isabs git then ret None
       else ret (Some ([git, py ''-c'', py ''core.longpaths=true'', py ''-C'', path_str directory] @ arguments))))"

definition run_git_command :: "pystr list \<Rightarrow> (machine, int \<times> pystr) prog" where
  "run_git_command command = ask (\<lambda>out h. on_git out h command) (Ran_git command)"

definition git_output :: "path \<Rightarrow> pystr list \<Rightarrow> (machine, pystr option) prog" where
  "git_output directory arguments = bnd (git_argv directory arguments) (\<lambda>command.
     case command of None \<Rightarrow> ret None | Some args \<Rightarrow>
     try_except
       (bnd (run_git_command args) (\<lambda>(returncode, stdout). ret (if returncode = 0 then Some (strip stdout) else None)))
       (\<lambda>e. if is_os_error e then ret None else raise e))"

abbreviation head_arguments :: "pystr list" where
  "head_arguments \<equiv> [py ''rev-parse'', py ''HEAD'']"

abbreviation tree_arguments :: "pystr list" where
  "tree_arguments \<equiv> [py ''rev-parse'', py ''HEAD^{tree}'']"

abbreviation status_arguments :: "pystr list" where
  "status_arguments \<equiv> [py ''status'', py ''--porcelain'', py ''--untracked-files=all'']"

section \<open>Integrity\<close>

definition is_revision_opt :: "pystr option \<Rightarrow> bool" where
  "is_revision_opt v = (case v of None \<Rightarrow> False | Some s \<Rightarrow> is_revision s)"

text \<open>The operands of \<open>or\<close> after the first are only evaluated if those before them are false.\<close>

definition committed_clean_tree :: "path \<Rightarrow> (machine, pystr option) prog" where
  "committed_clean_tree repository_root =
     bnd (git_output repository_root [py ''rev-parse'', py ''--show-toplevel'']) (\<lambda>top_level.
     bnd (git_output repository_root head_arguments) (\<lambda>head.
     bnd (git_output repository_root tree_arguments) (\<lambda>tree.
     bnd (git_output repository_root status_arguments) (\<lambda>status.
     case top_level of None \<Rightarrow> ret None | Some directory \<Rightarrow>
       bnd (known parse_path) (\<lambda>parse. bnd (resolve (parse directory)) (\<lambda>a. bnd (resolve repository_root) (\<lambda>b.
       bnd (known lower) (\<lambda>low.
       if \<not> same_path low a b \<or> \<not> is_revision_opt head \<or> \<not> is_revision_opt tree \<or> status \<noteq> Some []
       then ret None else ret tree))))))))"

definition checkout_is_exact_and_clean :: "path \<Rightarrow> pystr \<Rightarrow> pystr \<Rightarrow> (machine, bool) prog" where
  "checkout_is_exact_and_clean checkout_root expected_revision expected_tree =
     bnd (git_output checkout_root head_arguments) (\<lambda>head. if head \<noteq> Some expected_revision then ret False else
     bnd (git_output checkout_root tree_arguments) (\<lambda>tree. if tree \<noteq> Some expected_tree then ret False else
     bnd (git_output checkout_root status_arguments) (\<lambda>status. ret (status = Some []))))"

section \<open>Validation\<close>

text \<open>The body of the loop over the stages; \<open>None\<close> goes on to the next one.\<close>

definition run_stage :: "path \<Rightarrow> pystr list \<Rightarrow> (machine, int option) prog" where
  "run_stage checkout_root command = try_except
     (bnd (ask (\<lambda>out h. on_stage out h command checkout_root) (Ran_stage command checkout_root)) (\<lambda>returncode.
       ret (if returncode \<noteq> 0 then Some returncode else None)))
     (\<lambda>e. if is_os_error e then ret (Some 127) else raise e)"

primrec run_stages :: "path \<Rightarrow> pystr list list \<Rightarrow> (machine, int) prog" where
  "run_stages checkout_root [] = ret 0"
| "run_stages checkout_root (command # commands) = bnd (run_stage checkout_root command) (\<lambda>stop.
     case stop of Some code \<Rightarrow> ret code | None \<Rightarrow> run_stages checkout_root commands)"

definition stages :: "pystr \<Rightarrow> pystr list list" where
  "stages python = [[python, py ''tools/validate.py''],
     [python, py ''-m'', py ''unittest'', py ''discover'', py ''-s'', py ''tests'', py ''-v'']]"

definition run_validation :: "path \<Rightarrow> pystr \<Rightarrow> pystr \<Rightarrow> pystr \<Rightarrow> bool \<Rightarrow> (machine, int) prog" where
  "run_validation checkout_root expected_revision expected_tree expected_contract_tree integrity_only =
     bnd (known validation_file) (\<lambda>file. bnd (resolve file) (\<lambda>this.
     bnd (of_result (path_ancestor 2 this)) (\<lambda>contract_root.
     bnd (committed_clean_tree contract_root) (\<lambda>contract_tree.
     if contract_tree \<noteq> Some expected_contract_tree then ret 2 else
     bnd (checkout_is_exact_and_clean checkout_root expected_revision expected_tree) (\<lambda>exact.
     if \<not> exact then ret 2
     else if integrity_only then ret 0
     else bnd (known python_executable) (\<lambda>python. run_stages checkout_root (stages python)))))))"

record validation_arguments =
  va_checkout_root :: pystr
  va_expected_revision :: pystr
  va_expected_tree :: pystr
  va_expected_contract_tree :: pystr
  va_integrity_only :: bool

definition validation_main :: "validation_arguments \<Rightarrow> (machine, int) prog" where
  "validation_main arguments =
     bnd (known parse_path) (\<lambda>parse. bnd (resolve (parse (va_checkout_root arguments))) (\<lambda>checkout_root.
     bnd (check Is_dir checkout_root) (\<lambda>directory. if \<not> directory then raise (SystemExit 2) else
     run_validation checkout_root (va_expected_revision arguments) (va_expected_tree arguments)
       (va_expected_contract_tree arguments) (va_integrity_only arguments))))"

end
