(* ===== verification/Workgraph_Client.thy ===== *)
theory Workgraph_Client
  imports Workgraph_Validation Execution_Identity
begin

text \<open>
  \<open>master/buildbot/umbilical_workgraph_client.py\<close>: the authentication of the target through GitHub,
  the fixed places of the deployment, the reconstruction of the checkout, the command, the
  publication of a result, and \<open>run_workgraph_client\<close> and \<open>main\<close> over the authority store. Only
  definitions; what they do is in \<open>Workgraph_Facts\<close> and \<open>Workgraph_Runs\<close>.
\<close>

section \<open>Constants, requests and results\<close>

definition repository_name :: pystr where
  "repository_name = py ''4i7/WorkGraph''"

definition repository_id :: int where
  "repository_id = 1338331328"

definition subject :: pystr where
  "subject = py ''workgraph/repository-valid''"

definition contract_id_prefix :: pystr where
  "contract_id_prefix = py ''umbilical-workgraph-validation-tree:''"

definition authority_scope :: pystr where
  "authority_scope = py ''umbilical/workgraph-first-client/v1''"

definition status_context :: pystr where
  "status_context = py ''workgraph/umbilical-repository-valid''"

record VerifiedWorkGraphTarget =
  tg_full_name :: pystr
  tg_id :: int
  tg_revision :: pystr
  tg_tree :: pystr

record WorkGraphRequest =
  rq_revision :: pystr
  rq_source :: path
  rq_timeout :: int

definition make_request :: "pyval \<Rightarrow> path \<Rightarrow> int \<Rightarrow> exn + WorkGraphRequest" where
  "make_request revision source timeout = (case exact_str revision of
       None \<Rightarrow> Inl (WorkGraphClientError ''revision must be an exact lowercase 40-hex SHA'')
     | Some r \<Rightarrow>
         if \<not> is_revision r then Inl (WorkGraphClientError ''revision must be an exact lowercase 40-hex SHA'')
         else if timeout \<le> 0 then Inl (WorkGraphClientError ''timeout_seconds must be positive'')
         else if \<not> is_absolute source then Inl (WorkGraphClientError ''source must be an absolute path'')
         else Inr \<lparr>rq_revision = r, rq_source = source, rq_timeout = timeout\<rparr>)"

record WorkGraphClientResult =
  cr_key :: pystr
  cr_hash :: "pystr option"
  cr_exit :: "int option"
  cr_state :: "pystr option"
  cr_published :: bool

text \<open>Programs of the store's host, and of the store handle of a \<open>with\<close> block, on the machine.\<close>

definition in_host :: "(host, 'a) prog \<Rightarrow> (machine, 'a) prog" where
  "in_host m = (\<lambda>c. case m (host c) of (r, h) \<Rightarrow> (r, c\<lparr>host := h\<rparr>))"

definition in_runner :: "(runner, 'a) prog \<Rightarrow> (machine, 'a) prog" where
  "in_runner m = (\<lambda>c. case m (runner c) of (r, n) \<Rightarrow> (r, c\<lparr>runner := n,
     events := events c @ map Spawned (drop (length (rn_launched (runner c))) (rn_launched n))\<rparr>))"

abbreviation on_store :: "(store, 'a) prog \<Rightarrow> (machine, 'a) prog" where
  "on_store m \<equiv> in_runner (in_store m)"

text \<open>
  \<open>with open_it as store: body\<close>. The handle's connection is the host's: what it did to the file is put
  back when the block is left.
\<close>

definition give_back :: "store \<Rightarrow> host \<Rightarrow> host" where
  "give_back s h = h\<lparr>durable := durable s, work := work s, is_open := is_open s, write_locked := write_locked s,
     busy := busy s, synchronous := synchronous s, faults := faults s\<rparr>"

definition enter_block :: "store \<Rightarrow> (machine, unit) prog" where
  "enter_block s = (\<lambda>c. on_store enter_store (c\<lparr>runner := (runner c)\<lparr>rn_store := s\<rparr>\<rparr>))"

definition leave_block :: "(machine, unit) prog" where
  "leave_block = (\<lambda>c. case on_store exit_store c of (r, c') \<Rightarrow>
     (r, c'\<lparr>host := give_back (rn_store (runner c')) (host c')\<rparr>))"

definition with_store :: "(machine, store) prog \<Rightarrow> (machine, 'a) prog \<Rightarrow> (machine, 'a) prog" where
  "with_store open_it body = bnd open_it (\<lambda>s. sq (enter_block s) (try_finally body leave_block))"

section \<open>The contract\<close>

definition run_git :: "path \<Rightarrow> pystr list \<Rightarrow> (machine, pystr) prog" where
  "run_git directory arguments = bnd (git_output directory arguments) (\<lambda>found.
     case found of None \<Rightarrow> raise (WorkGraphClientError ''fixed git checkout preparation failed'') | Some text \<Rightarrow> ret text)"

definition contract_root :: "(machine, path) prog" where
  "contract_root = bnd (known client_file) (\<lambda>file. bnd (resolve file) (\<lambda>this. of_result (path_ancestor 2 this)))"

definition contract_tree :: "(machine, pystr) prog" where
  "contract_tree = bnd contract_root (\<lambda>repository. bnd (committed_clean_tree repository) (\<lambda>tree.
     case tree of None \<Rightarrow> raise (WorkGraphClientError ''Umbilical validation contract must be committed and clean'')
     | Some t \<Rightarrow> ret t))"

definition validation_contract_id :: "pyval \<Rightarrow> exn + pystr" where
  "validation_contract_id tree = (case exact_str tree of
       None \<Rightarrow> Inl (WorkGraphClientError ''contract tree must be an exact lowercase 40-hex SHA'')
     | Some t \<Rightarrow> if is_revision t then Inr (contract_id_prefix @ t)
         else Inl (WorkGraphClientError ''contract tree must be an exact lowercase 40-hex SHA''))"

section \<open>The target\<close>

definition github_json :: "pystr \<Rightarrow> pystr \<Rightarrow> (machine, pyval) prog" where
  "github_json path token = try_except (ask (\<lambda>out h. on_get out h path token) (Got path token))
     (\<lambda>e. if is_os_error e \<or> is_value_error e
       then raise (WorkGraphClientError ''authenticated GitHub target lookup failed'') else raise e)"

text \<open>\<open>d.get(key)\<close> for a dictionary with text keys.\<close>

definition dict_get :: "(pyval \<times> pyval) list \<Rightarrow> string \<Rightarrow> pyval" where
  "dict_get d key = (case find (\<lambda>(k, _). py_eq_str k (py key)) d of None \<Rightarrow> PyNone | Some (_, v) \<Rightarrow> v)"

definition dict_at :: "pyval \<Rightarrow> string \<Rightarrow> pyval" where
  "dict_at v key = (case exact_dict v of None \<Rightarrow> PyNone | Some d \<Rightarrow> dict_get d key)"

definition commit_tree_sha :: "(pyval \<times> pyval) list \<Rightarrow> pyval" where
  "commit_tree_sha commit = dict_at (dict_at (dict_get commit ''commit'') ''tree'') ''sha''"

definition check_repository :: "pyval \<Rightarrow> exn + unit" where
  "check_repository repository = (case exact_dict repository of
       None \<Rightarrow> Inl (WorkGraphClientError ''GitHub repository response is malformed'')
     | Some d \<Rightarrow> check_that (py_eq_str (dict_get d ''full_name'') repository_name \<and> py_eq_int (dict_get d ''id'') repository_id)
         (WorkGraphClientError ''GitHub repository identity does not match fixed WorkGraph authority''))"

definition commit_target :: "pystr \<Rightarrow> pyval \<Rightarrow> exn + VerifiedWorkGraphTarget" where
  "commit_target revision commit = (case exact_dict commit of
       None \<Rightarrow> Inl (WorkGraphClientError ''GitHub exact commit response does not match requested revision'')
     | Some d \<Rightarrow>
     if \<not> py_eq_str (dict_get d ''sha'') revision
     then Inl (WorkGraphClientError ''GitHub exact commit response does not match requested revision'') else
     case exact_str (commit_tree_sha d) of
       None \<Rightarrow> Inl (WorkGraphClientError ''GitHub exact commit response is missing a valid tree SHA'')
     | Some tree \<Rightarrow>
     if \<not> is_revision tree then Inl (WorkGraphClientError ''GitHub exact commit response is missing a valid tree SHA'')
     else Inr \<lparr>tg_full_name = repository_name, tg_id = repository_id, tg_revision = revision, tg_tree = tree\<rparr>)"

definition verify_workgraph_target :: "pyval \<Rightarrow> pystr \<Rightarrow> (machine, VerifiedWorkGraphTarget) prog" where
  "verify_workgraph_target revision_arg token = (case exact_str revision_arg of
       None \<Rightarrow> raise (WorkGraphClientError ''revision must be an exact lowercase 40-hex SHA'')
     | Some revision \<Rightarrow>
     if \<not> is_revision revision then raise (WorkGraphClientError ''revision must be an exact lowercase 40-hex SHA'') else
     bnd (github_json (py ''/repos/'' @ repository_name) token) (\<lambda>repository.
     sq (of_result (check_repository repository))
     (bnd (github_json (py ''/repos/'' @ repository_name @ py ''/commits/'' @ revision) token) (\<lambda>commit.
     of_result (commit_target revision commit)))))"

section \<open>The deployment\<close>

definition known_local_app_data :: "(machine, path) prog" where
  "known_local_app_data = bnd (observe on_app_data (\<lambda>(result, found). App_data result found)) (\<lambda>(result, found).
     if result \<noteq> 0 \<or> found = None \<or> found = Some []
     then raise (WorkGraphClientError ''Windows Local AppData known-folder lookup failed'')
     else bnd (known parse_path) (\<lambda>parse. resolve (parse (the found))))"

definition deployment_root :: "(machine, path) prog" where
  "deployment_root = bnd known_local_app_data (\<lambda>p.
     resolve (path_join (path_join p (py ''Umbilical'')) (py ''workgraph-first-client-v1'')))"

definition authority_store_path :: "(machine, path) prog" where
  "authority_store_path = bnd deployment_root (\<lambda>p. ret (path_join p (py ''authority.sqlite'')))"

definition checkout_root :: "(machine, path) prog" where
  "checkout_root = bnd deployment_root (\<lambda>p. ret (path_join p (py ''checkouts'')))"

definition checkout_directory :: "pystr \<Rightarrow> (machine, path) prog" where
  "checkout_directory execution_key = (case utf8_encode execution_key of
       None \<Rightarrow> raise UnicodeEncodeError
     | Some encoded \<Rightarrow> bnd checkout_root (\<lambda>p. ret (path_join p (take 32 (sha256_hex encoded)))))"

definition assert_authority_store_outside_checkouts :: "path \<Rightarrow> (machine, unit) prog" where
  "assert_authority_store_outside_checkouts path =
     bnd checkout_root (\<lambda>p. bnd (resolve p) (\<lambda>checkouts.
     bnd (try_except
         (bnd (resolve path) (\<lambda>resolved. bnd (known lower) (\<lambda>low.
            if relative_to low resolved checkouts then ret True else raise ValueError)))
         (\<lambda>e. if is_value_error e then ret False else raise e)) (\<lambda>inside.
     guard (\<not> inside) (WorkGraphClientError ''fixed authority store must remain outside disposable checkouts''))))"

definition windows_only :: "(machine, unit) prog" where
  "windows_only = bnd (gets (\<lambda>c. os_nt (host c))) (\<lambda>nt.
     guard nt (WorkGraphClientError ''the WorkGraph first client is supported only on Windows''))"

definition initialize_workgraph_client :: "(machine, int) prog" where
  "initialize_workgraph_client = sq windows_only
     (bnd authority_store_path (\<lambda>path.
      sq (assert_authority_store_outside_checkouts path)
      (sq (change_path Mkdir (path_parent path))
      (with_store (in_host (initialize_new (path_str path)))
        (on_store (acquire_generation (PyStr authority_scope)))))))"

definition open_store :: "(machine, store) prog" where
  "open_store = bnd authority_store_path (\<lambda>path.
     sq (assert_authority_store_outside_checkouts path) (in_host (open_existing (path_str path))))"

section \<open>The checkout\<close>

definition remove_entry :: "path \<Rightarrow> (machine, unit) prog" where
  "remove_entry checkout = bnd (check Is_symlink checkout) (\<lambda>link. if link then change_path Unlink checkout
     else bnd (check Is_dir checkout) (\<lambda>directory. if directory then change_path Rmtree checkout
     else raise (WorkGraphClientError ''existing checkout path is not a disposable directory'')))"

definition remove_disposable_checkout :: "path \<Rightarrow> (machine, unit) prog" where
  "remove_disposable_checkout checkout =
     bnd (resolve (path_parent checkout)) (\<lambda>parent. bnd (known lower) (\<lambda>low.
     let refused = raise (WorkGraphClientError ''refusing to reconstruct an unexpected checkout path'') in
     if \<not> same_path low (path_parent checkout) parent then refused else
     bnd checkout_root (\<lambda>p. bnd (resolve p) (\<lambda>expected.
     if \<not> same_path low parent expected then refused else
     remove_entry checkout))))"

definition verify_clean_checkout :: "path \<Rightarrow> VerifiedWorkGraphTarget \<Rightarrow> (machine, unit) prog" where
  "verify_clean_checkout checkout target =
     bnd (run_git checkout head_arguments) (\<lambda>head.
     sq (guard (head = tg_revision target)
       (WorkGraphClientError ''checked-out WorkGraph HEAD does not match authenticated revision''))
     (bnd (run_git checkout tree_arguments) (\<lambda>tree.
     sq (guard (tree = tg_tree target)
       (WorkGraphClientError ''checked-out WorkGraph tree does not match authenticated tree''))
     (bnd (run_git checkout status_arguments) (\<lambda>status.
     guard (status = []) (WorkGraphClientError ''checked-out WorkGraph tree is not clean''))))))"

definition clone_checkout :: "path \<Rightarrow> path \<Rightarrow> (machine, unit) prog" where
  "clone_checkout source checkout =
     bnd (git_argv (path_parent source) [py ''clone'', py ''--no-hardlinks'', py ''--no-checkout'', py ''--'',
       path_str source, path_str checkout]) (\<lambda>clone_command. case clone_command of
       None \<Rightarrow> raise (WorkGraphClientError ''an absolute git executable is required'')
     | Some command \<Rightarrow> bnd (run_git_command command) (\<lambda>(returncode, _).
         guard (returncode = 0) (WorkGraphClientError ''fixed git checkout preparation failed'')))"

definition prepare_exact_checkout :: "VerifiedWorkGraphTarget \<Rightarrow> path \<Rightarrow> pystr \<Rightarrow> (machine, path) prog" where
  "prepare_exact_checkout target source execution_key =
     bnd (check Is_dir source) (\<lambda>directory.
     sq (guard directory (WorkGraphClientError ''source must be an existing local WorkGraph clone or mirror''))
     (bnd (run_git source [py ''rev-parse'', py ''--verify'', tg_revision target @ py ''^{commit}'']) (\<lambda>commit.
     sq (guard (commit = tg_revision target)
       (WorkGraphClientError ''authenticated WorkGraph revision is not available from source''))
     (bnd (checkout_directory execution_key) (\<lambda>checkout.
     bnd (check Exists checkout) (\<lambda>exists. bnd (if exists then ret True else check Is_symlink checkout) (\<lambda>present.
     sq (if present then remove_disposable_checkout checkout else ret ())
     (sq (change_path Mkdir (path_parent checkout))
     (sq (clone_checkout source checkout)
     (sq (run_git checkout [py ''remote'', py ''remove'', py ''origin''])
     (sq (run_git checkout [py ''checkout'', py ''--detach'', tg_revision target])
     (sq (verify_clean_checkout checkout target) (ret checkout)))))))))))))"

section \<open>The command\<close>

definition current_python_executable :: "(machine, path) prog" where
  "current_python_executable = bnd (known python_executable) (\<lambda>python. bnd (known parse_path) (\<lambda>parse. resolve (parse python)))"

definition environment_dict :: "(pystr \<Rightarrow> path) \<Rightarrow> path \<Rightarrow> path \<Rightarrow> pystr \<Rightarrow> pystr \<Rightarrow> pyval" where
  "environment_dict parse python temporary git system_root = PyDict
     [(PyStr (py ''PATH''), PyStr (path_str (path_parent python) @ py '';'' @ path_str (path_parent (parse git)) @ py '';'' @
         path_str (path_join (parse system_root) (py ''System32'')))),
      (PyStr (py ''PYTHONUTF8''), PyStr (py ''1'')),
      (PyStr (py ''SYSTEMROOT''), PyStr system_root),
      (PyStr (py ''TEMP''), PyStr (path_str temporary)),
      (PyStr (py ''TMP''), PyStr (path_str temporary))]"

definition command_environment :: "path \<Rightarrow> path \<Rightarrow> (machine, pyval) prog" where
  "command_environment authority_db python =
     bnd (known environ) (\<lambda>env. case env ''SystemRoot'' of
       None \<Rightarrow> raise (WorkGraphClientError ''SystemRoot is required on Windows'')
     | Some system_root \<Rightarrow>
     if system_root = [] then raise (WorkGraphClientError ''SystemRoot is required on Windows'') else
     (let temporary = path_join (path_parent authority_db) (py ''temporary'') in
     sq (change_path Mkdir temporary)
     (bnd (git_argv (path_parent authority_db) [py ''--version'']) (\<lambda>git_command. case git_command of
       None \<Rightarrow> raise (WorkGraphClientError ''an absolute git executable is required'')
     | Some command \<Rightarrow> bnd (known parse_path) (\<lambda>parse.
         ret (environment_dict parse python temporary (hd command) system_root))))))"

definition command_arguments :: "path \<Rightarrow> path \<Rightarrow> path \<Rightarrow> VerifiedWorkGraphTarget \<Rightarrow> pystr \<Rightarrow> bool \<Rightarrow> pystr list" where
  "command_arguments python wrapper checkout target tree integrity_only =
     [path_str python, path_str wrapper, py ''--checkout-root'', path_str checkout,
      py ''--expected-revision'', tg_revision target, py ''--expected-tree'', tg_tree target,
      py ''--expected-contract-tree'', tree] @ (if integrity_only then [py ''--integrity-only''] else [])"

definition build_command_spec ::
  "WorkGraphRequest \<Rightarrow> VerifiedWorkGraphTarget \<Rightarrow> path \<Rightarrow> pystr \<Rightarrow> bool \<Rightarrow> (machine, LocalCommandSpec) prog" where
  "build_command_spec request target checkout tree integrity_only =
     bnd (known client_file) (\<lambda>file. bnd (of_result (path_with_name file (py ''umbilical_workgraph_validation.py''))) (\<lambda>script.
     bnd (resolve script) (\<lambda>wrapper.
     bnd authority_store_path (\<lambda>authority_db.
     bnd current_python_executable (\<lambda>python.
     bnd (command_environment authority_db python) (\<lambda>env.
     bnd (known os_isabs) (\<lambda>isabs.
     of_result (snapshot isabs (PyStr (path_str python))
       (PyList (map PyStr (command_arguments python wrapper checkout target tree integrity_only)))
       (PyStr (path_str checkout)) env (PyInt (rq_timeout request))))))))))"

definition run_integrity_preflight :: "LocalCommandSpec \<Rightarrow> (machine, unit) prog" where
  "run_integrity_preflight spec =
     bnd (observe (\<lambda>out h. on_preflight out h (launcher_call spec)) (Preflight (launcher_call spec))) (\<lambda>outcome.
     case outcome of Raised e \<Rightarrow> raise e
     | Returned code \<Rightarrow> guard (py_eq_int code 0) (WorkGraphClientError ''WorkGraph integrity preflight failed''))"

section \<open>Publication\<close>

definition status_payload :: "int \<Rightarrow> (pystr \<times> pystr) list" where
  "status_payload exit_code =
     [(py ''state'', if exit_code = 0 then py ''success'' else py ''failure''),
      (py ''context'', status_context),
      (py ''description'', if exit_code = 0 then py ''WorkGraph repository validation passed''
         else py ''WorkGraph repository validation did not pass'')]"

definition status_path :: "VerifiedWorkGraphTarget \<Rightarrow> pystr" where
  "status_path target = py ''/repos/'' @ tg_full_name target @ py ''/statuses/'' @ tg_revision target"

definition publish_terminal_status :: "VerifiedWorkGraphTarget \<Rightarrow> int \<Rightarrow> pystr \<Rightarrow> (machine, unit) prog" where
  "publish_terminal_status target exit_code token =
     bnd (verify_workgraph_target (PyStr (tg_revision target)) token) (\<lambda>again.
     if again \<noteq> target then raise (PublicationError ''GitHub target changed before status publication'') else
     try_except
       (bnd (ask (\<lambda>out h. on_post out h (status_path target) token (status_payload exit_code))
           (Posted (status_path target) token (status_payload exit_code))) (\<lambda>status.
        guard (status = 201) (PublicationError ''GitHub status publication returned an unexpected response'')))
       (\<lambda>e. if is_os_error e then raise (PublicationError ''GitHub status publication outcome is unknown'') else raise e))"

section \<open>The client\<close>

definition require_token :: "(machine, pystr) prog" where
  "require_token = bnd (known environ) (\<lambda>env. case env ''GH_TOKEN'' of
       None \<Rightarrow> raise (WorkGraphClientError ''GH_TOKEN is required for authenticated WorkGraph operations'')
     | Some token \<Rightarrow> if token = []
         then raise (WorkGraphClientError ''GH_TOKEN is required for authenticated WorkGraph operations'') else ret token)"

type_synonym publisher = "VerifiedWorkGraphTarget \<Rightarrow> int \<Rightarrow> pystr \<Rightarrow> (machine, unit) prog"

text \<open>\<open>str(n)\<close>\<close>

definition int_text :: "int \<Rightarrow> pystr" where
  "int_text i = (if i < 0 then 45 # decimal (nat (- i)) else decimal (nat i))"

definition client_execution_key :: "VerifiedWorkGraphTarget \<Rightarrow> pystr \<Rightarrow> exn + pystr" where
  "client_execution_key target tree = and_then (validation_contract_id (PyStr tree)) (\<lambda>contract.
     derive_execution_key (PyStr (py ''github-repository-id:'' @ int_text (tg_id target))) (PyStr subject)
       (PyStr (tg_revision target)) (PyStr contract))"

text \<open>The block under \<open>if prior is not None\<close>: every path through it leaves the function.\<close>

definition observe_prior_launch ::
  "publisher \<Rightarrow> VerifiedWorkGraphTarget \<Rightarrow> pystr \<Rightarrow> pystr \<Rightarrow> ExecutionLaunch \<Rightarrow> (machine, WorkGraphClientResult) prog" where
  "observe_prior_launch publish target token key prior =
     (if lch_state prior \<noteq> TERMINAL
      then ret \<lparr>cr_key = key, cr_hash = Some (lch_hash prior), cr_exit = None,
        cr_state = Some (py (launch_state_value (lch_state prior))), cr_published = False\<rparr>
      else case lch_exit prior of
        None \<Rightarrow> raise (WorkGraphClientError ''terminal launch is missing its exit code'')
      | Some code \<Rightarrow> sq (publish target code token)
          (ret \<lparr>cr_key = key, cr_hash = Some (lch_hash prior), cr_exit = Some code,
            cr_state = Some (py (launch_state_value (lch_state prior))), cr_published = True\<rparr>))"

text \<open>Everything from the preparation of the checkout on.\<close>

definition prepare_command ::
  "WorkGraphRequest \<Rightarrow> VerifiedWorkGraphTarget \<Rightarrow> pystr \<Rightarrow> pystr \<Rightarrow> (machine, LocalCommandSpec \<times> pystr) prog" where
  "prepare_command request target tree key =
     bnd (prepare_exact_checkout target (rq_source request) key) (\<lambda>checkout.
     bnd (build_command_spec request target checkout tree False) (\<lambda>spec.
     bnd (build_command_spec request target checkout tree True) (\<lambda>preflight.
     sq (run_integrity_preflight preflight)
     (bnd contract_tree (\<lambda>again.
     sq (guard (again = tree) (WorkGraphClientError ''Umbilical validation contract changed after preflight''))
     (sq (verify_clean_checkout checkout target)
     (bnd (of_result (command_spec_hash spec)) (\<lambda>hash. ret (spec, hash)))))))))"

definition admit_command :: "pystr \<Rightarrow> pystr \<Rightarrow> bool \<Rightarrow> (machine, int) prog" where
  "admit_command key hash exists =
     sq (if \<not> exists then sq (on_store (register_execution_key (PyStr key))) (ret ()) else ret ())
     (sq (on_store (bind_command_spec_hash (PyStr key) (PyStr hash)))
     (bnd (on_store (read_generation (PyStr authority_scope))) (\<lambda>current. case current of
       None \<Rightarrow> raise (WorkGraphClientError ''fixed authority store has no initialized controller generation'')
     | Some generation \<Rightarrow>
     bnd (on_store (read_execution_admission (PyStr key))) (\<lambda>admission.
     sq (case admission of
         None \<Rightarrow> sq (on_store (admit_execution (PyStr key) (PyStr authority_scope) (PyInt generation))) (ret ())
       | Some a \<Rightarrow> guard (adm_generation a = generation)
           (WorkGraphClientError ''existing WorkGraph admission is not in the current generation''))
     (ret generation)))))"

definition launch_and_publish ::
  "publisher \<Rightarrow> WorkGraphRequest \<Rightarrow> VerifiedWorkGraphTarget \<Rightarrow> pystr \<Rightarrow> pystr \<Rightarrow> pystr \<Rightarrow> bool \<Rightarrow> (machine, WorkGraphClientResult) prog" where
  "launch_and_publish publish request target token tree key exists =
     bnd (prepare_command request target tree key) (\<lambda>(spec, hash).
     bnd (admit_command key hash exists) (\<lambda>generation.
     bnd (in_runner (execute_local_command (PyStr key) (PyStr authority_scope) (PyInt generation) spec)) (\<lambda>execution.
     sq (publish target (res_exit execution) token)
     (ret \<lparr>cr_key = key, cr_hash = Some (res_hash execution), cr_exit = Some (res_exit execution),
        cr_state = Some (py (launch_state_value TERMINAL)), cr_published = True\<rparr>))))"

definition client_block ::
  "publisher \<Rightarrow> WorkGraphRequest \<Rightarrow> VerifiedWorkGraphTarget \<Rightarrow> pystr \<Rightarrow> pystr \<Rightarrow> pystr \<Rightarrow> (machine, WorkGraphClientResult) prog" where
  "client_block publish request target token tree key =
     bnd (on_store (execution_key_exists (PyStr key))) (\<lambda>exists.
     bnd (if exists then on_store (read_execution_launch (PyStr key)) else ret None) (\<lambda>prior. case prior of
       Some l \<Rightarrow> observe_prior_launch publish target token key l
     | None \<Rightarrow> launch_and_publish publish request target token tree key exists))"

definition run_workgraph_client :: "publisher \<Rightarrow> WorkGraphRequest \<Rightarrow> (machine, WorkGraphClientResult) prog" where
  "run_workgraph_client publish request = sq windows_only
     (bnd require_token (\<lambda>token.
      bnd (verify_workgraph_target (PyStr (rq_revision request)) token) (\<lambda>target.
      bnd contract_tree (\<lambda>tree.
      bnd (of_result (client_execution_key target tree)) (\<lambda>key.
      with_store open_store (client_block publish request target token tree key))))))"

datatype client_command = Init | Run pystr pystr

definition client_result_line :: "WorkGraphClientResult \<Rightarrow> printed" where
  "client_result_line r = Result_line (cr_key r) (cr_hash r) (cr_exit r) (cr_state r) (cr_published r)"

text \<open>The \<open>try\<close> block of \<open>main\<close>: a code to return at once, or a result. \<open>except\<close> prints and returns 2.\<close>

definition client_attempt :: "client_command \<Rightarrow> (machine, int + WorkGraphClientResult) prog" where
  "client_attempt command = (case command of
       Init \<Rightarrow> bnd initialize_workgraph_client (\<lambda>generation. sq (print_line (Generation_line generation)) (ret (Inl 0)))
     | Run revision source \<Rightarrow>
         bnd (known parse_path) (\<lambda>parse. bnd (resolve (parse source)) (\<lambda>resolved.
         bnd (of_result (make_request (PyStr revision) resolved 1800)) (\<lambda>request.
         bnd (run_workgraph_client publish_terminal_status request) (\<lambda>result. ret (Inr result))))))"

definition client_main :: "client_command \<Rightarrow> (machine, int) prog" where
  "client_main command =
     bnd (try_except (client_attempt command) (\<lambda>e. if is_authority_error e \<or> is_client_error e
       then sq (print_line (Error_line e)) (ret (Inl 2)) else raise e)) (\<lambda>outcome. case outcome of
       Inl code \<Rightarrow> ret code
     | Inr result \<Rightarrow> sq (print_line (client_result_line result))
         (ret (case cr_exit result of None \<Rightarrow> 2 | Some code \<Rightarrow> if code = 0 then 0 else 1)))"

end
