(* ===== verification/Workgraph_Facts.thy ===== *)
theory Workgraph_Facts
  imports Workgraph_Client
begin

text \<open>
  What the client's programs do to the record of calls. \<open>keeps s J m\<close>: every call that \<open>m\<close> makes
  satisfies \<open>J\<close>, given all calls before it. The locale \<open>call_history\<close> is the contract of the restrictions
  that only concern removals, publications and launches: every other part of the client meets it.
  \<open>saw\<close> says which calls a program that returns has made, in which order.
\<close>

declare py_Cons [simp del]

section \<open>Calls and what precedes them\<close>

definition adds :: "(event list \<Rightarrow> event \<Rightarrow> bool) \<Rightarrow> machine \<Rightarrow> machine \<Rightarrow> bool" where
  "adds J c c' \<longleftrightarrow> outside c' = outside c \<and>
     (\<exists>t. events c' = events c @ t \<and> (\<forall>u e v. t = u @ e # v \<longrightarrow> J (events c @ u) e))"

text \<open>A start: how many calls had been made, and the outside.\<close>

type_synonym start = "nat \<times> outside"

definition began :: "start \<Rightarrow> machine \<Rightarrow> bool" where
  "began s c \<longleftrightarrow> fst s \<le> length (events c) \<and> outside c = snd s"

definition keeps :: "start \<Rightarrow> (event list \<Rightarrow> event \<Rightarrow> bool) \<Rightarrow> (machine, 'a) prog \<Rightarrow> bool" where
  "keeps s J m \<longleftrightarrow> (\<forall>c r c'. began s c \<longrightarrow> m c = (r, c') \<longrightarrow> adds J c c')"

named_theorems keeps_intros "programs and the calls they add"

lemma adds_refl: "events c' = events c \<Longrightarrow> outside c' = outside c \<Longrightarrow> adds J c c'"
  by (simp add: adds_def)

lemma adds_one: "events c' = events c @ [e] \<Longrightarrow> outside c' = outside c \<Longrightarrow> J (events c) e \<Longrightarrow> adds J c c'"
  by (auto simp: adds_def Cons_eq_append_conv)

lemma adds_trans:
  assumes "adds J a b" "adds J b c"
  shows "adds J a c"
proof -
  obtain s t where s: "events b = events a @ s" "\<And>u e v. s = u @ e # v \<Longrightarrow> J (events a @ u) e"
    and t: "events c = events b @ t" "\<And>u e v. t = u @ e # v \<Longrightarrow> J (events b @ u) e"
    using assms by (auto simp: adds_def)
  have "J (events a @ u) e" if "s @ t = u @ e # v" for u e v
  proof -
    from that consider w where "s = u @ w" "w @ t = e # v" | w where "u = s @ w" "t = w @ e # v"
      by (auto simp: append_eq_append_conv2)
    then show ?thesis
    proof cases
      case 1
      then show ?thesis using s(2) t(2) [of "[]" e] s(1) by (cases w) auto
    next
      case 2
      then show ?thesis using t(2) [of w e v] s(1) by simp
    qed
  qed
  then show ?thesis using assms s(1) t(1) by (auto simp: adds_def)
qed

lemma began_adds: "began s c \<Longrightarrow> adds J c c' \<Longrightarrow> began s c'"
  by (auto simp: began_def adds_def)

lemma began_here: "began (length (events c), outside c) c"
  by (simp add: began_def)

lemma keepsD: "keeps s J m \<Longrightarrow> began s c \<Longrightarrow> m c = (r, c') \<Longrightarrow> adds J c c'"
  by (auto simp: keeps_def)

lemma keepsI: "(\<And>c r c'. began s c \<Longrightarrow> m c = (r, c') \<Longrightarrow> adds J c c') \<Longrightarrow> keeps s J m"
  by (auto simp: keeps_def)

lemma keeps_silent [keeps_intros]:
  "keeps s J (ret x)" "keeps s J (raise e)" "keeps s J (gets f)" "keeps s J (of_result r)" "keeps s J (guard b e)" "keeps s J (known g)"
  by (auto intro!: keepsI adds_refl simp: run_combinators known_def split: if_splits)

lemma keeps_observe: "(\<And>h r. J h (f r)) \<Longrightarrow> keeps s J (observe answer f)"
  by (auto intro!: keepsI adds_one simp: observe_def Let_def)

lemma keeps_bnd [keeps_intros]:
  assumes "keeps s J m" "\<And>x. keeps s J (f x)"
  shows "keeps s J (bnd m f)"
proof (rule keepsI)
  fix c r c' assume c: "began s c" and run: "bnd m f c = (r, c')"
  obtain r1 c1 where m: "m c = (r1, c1)" by (cases "m c")
  have one: "adds J c c1" by (rule keepsD [OF assms(1) c m])
  show "adds J c c'"
  proof (cases r1)
    case (Inr x)
    with run m have "f x c1 = (r, c')" by (simp add: run_bnd)
    from keepsD [OF assms(2) began_adds [OF c one] this] show ?thesis by (rule adds_trans [OF one])
  qed (use run m one in \<open>simp add: run_bnd\<close>)
qed

text \<open>One statement of a program whose later statements depend on what it returned.\<close>

lemma adds_bnd:
  assumes "bnd m f c = (r, c')" "began s c" "keeps s J m"
    "\<And>x c1. m c = (Inr x, c1) \<Longrightarrow> began s c1 \<Longrightarrow> adds J c c1 \<Longrightarrow> f x c1 = (r, c') \<Longrightarrow> adds J c1 c'"
  shows "adds J c c'"
proof -
  obtain r1 c1 where m: "m c = (r1, c1)" by (cases "m c")
  have one: "adds J c c1" by (rule keepsD [OF assms(3,2) m])
  have "adds J c1 c'"
  proof (cases r1)
    case (Inr x)
    with assms(1) m have "f x c1 = (r, c')" by (simp add: run_bnd)
    from assms(4) [OF m [unfolded Inr] began_adds [OF assms(2) one] one this] show ?thesis .
  qed (use assms(1) m in \<open>simp add: run_bnd adds_refl\<close>)
  with one show ?thesis by (rule adds_trans)
qed

lemma keeps_sq [keeps_intros]: "keeps s J m \<Longrightarrow> keeps s J n \<Longrightarrow> keeps s J (sq m n)"
  by (simp add: sq_def keeps_bnd)

lemma keeps_try_except [keeps_intros]:
  assumes "keeps s J m" "\<And>e. keeps s J (f e)"
  shows "keeps s J (try_except m f)"
proof (rule keepsI)
  fix c r c' assume c: "began s c" and run: "try_except m f c = (r, c')"
  obtain r1 c1 where m: "m c = (r1, c1)" by (cases "m c")
  have one: "adds J c c1" by (rule keepsD [OF assms(1) c m])
  show "adds J c c'"
  proof (cases r1)
    case (Inl e)
    with run m have "f e c1 = (r, c')" by (simp add: run_try_except)
    from keepsD [OF assms(2) began_adds [OF c one] this] show ?thesis by (rule adds_trans [OF one])
  qed (use run m one in \<open>simp add: run_try_except\<close>)
qed

lemma keeps_try_finally [keeps_intros]:
  assumes "keeps s J m" "keeps s J f"
  shows "keeps s J (try_finally m f)"
proof (rule keepsI)
  fix c r c' assume c: "began s c" and run: "try_finally m f c = (r, c')"
  obtain r1 c1 where m: "m c = (r1, c1)" by (cases "m c")
  obtain r2 c2 where f: "f c1 = (r2, c2)" by (cases "f c1")
  have one: "adds J c c1" by (rule keepsD [OF assms(1) c m])
  have "adds J c c2" by (rule adds_trans [OF one keepsD [OF assms(2) began_adds [OF c one] f]])
  with run m f show "adds J c c'" by (simp add: try_finally_def split: sum.splits)
qed

lemma keeps_ask: "(\<And>h r. J h (f r)) \<Longrightarrow> keeps s J (ask answer f)"
  by (simp add: ask_def keeps_intros keeps_observe)

lemma keeps_cases [keeps_intros]:
  "(b \<Longrightarrow> keeps s J m) \<Longrightarrow> (\<not> b \<Longrightarrow> keeps s J n) \<Longrightarrow> keeps s J (if b then m else n)"
  "(z = None \<Longrightarrow> keeps s J m) \<Longrightarrow> (\<And>y. z = Some y \<Longrightarrow> keeps s J (f y)) \<Longrightarrow> keeps s J (case z of None \<Rightarrow> m | Some y \<Rightarrow> f y)"
  "(\<And>a b. p = (a, b) \<Longrightarrow> keeps s J (k a b)) \<Longrightarrow> keeps s J (case p of (a, b) \<Rightarrow> k a b)"
  "(\<And>a. q = Inl a \<Longrightarrow> keeps s J (g a)) \<Longrightarrow> (\<And>b. q = Inr b \<Longrightarrow> keeps s J (h b)) \<Longrightarrow>
     keeps s J (case q of Inl a \<Rightarrow> g a | Inr b \<Rightarrow> h b)"
  by (auto split: option.splits prod.splits sum.splits)

lemma keeps_in_host [keeps_intros]: "keeps s J (in_host m)"
  by (auto intro!: keepsI adds_refl simp: in_host_def split: prod.splits)

text \<open>Store operations other than \<open>execute_local_command\<close> launch nothing.\<close>

lemma run_on_store: "on_store m c = (case m (rn_store (runner c)) of (r, s) \<Rightarrow> (r, c\<lparr>runner := (runner c)\<lparr>rn_store := s\<rparr>\<rparr>))"
  by (simp add: in_runner_def in_store_def split: prod.splits)

lemma keeps_on_store [keeps_intros]: "keeps s J (on_store m)"
  by (auto intro!: keepsI adds_refl simp: run_on_store split: prod.splits)

lemma keeps_in_runner:
  assumes "\<And>h ev. J h (Spawned ev)"
  shows "keeps s J (in_runner m)"
  by (rule keepsI) (auto simp: in_runner_def adds_def split: prod.splits simp: map_eq_append_conv Cons_eq_map_conv
      map_eq_Cons_conv assms)

lemma keeps_with_store [keeps_intros]:
  assumes "keeps s J opening" "keeps s J body"
  shows "keeps s J (with_store opening body)"
proof -
  have "keeps s J (enter_block h)" for h
    by (auto intro!: keepsI adds_refl simp: enter_block_def run_on_store split: prod.splits)
  moreover have "keeps s J leave_block"
    by (auto intro!: keepsI adds_refl simp: leave_block_def run_on_store split: prod.splits)
  ultimately show ?thesis
    unfolding with_store_def using assms by (intro keeps_intros)
qed

section \<open>Restrictions on removals, publications and launches\<close>

fun harmless :: "event \<Rightarrow> bool" where
  "harmless (Changed kind _ _) \<longleftrightarrow> kind = Mkdir"
| "harmless (Posted _ _ _ _) \<longleftrightarrow> False"
| "harmless (Spawned _) \<longleftrightarrow> False"
| "harmless _ \<longleftrightarrow> True"

locale call_history =
  fixes s :: start and J :: "event list \<Rightarrow> event \<Rightarrow> bool"
  assumes harmless_kept: "harmless e \<Longrightarrow> J h e"
begin

lemma primitives [keeps_intros]:
  "keeps s J (resolve p)" "keeps s J (check kind p)" "keeps s J (change_path Mkdir p)" "keeps s J (run_git_command command)"
  "keeps s J (print_line line)" "keeps s J (observe on_which Found_git)"
  "keeps s J (observe on_app_data (\<lambda>(result, found). App_data result found))"
  by (auto simp: resolve_def check_def change_path_def run_git_command_def print_line_def harmless_kept
      intro!: keeps_ask keeps_observe split: prod.splits)

lemma git_keeps [keeps_intros]: "keeps s J (git_argv d a)" "keeps s J (git_output d a)" "keeps s J (run_git d a)"
proof -
  show "keeps s J (git_argv d a)" for d a unfolding git_argv_def by (intro keeps_intros)
  note [keeps_intros] = this
  show "keeps s J (git_output d a)" for d a unfolding git_output_def by (intro keeps_intros)
  note [keeps_intros] = this
  show "keeps s J (run_git d a)" unfolding run_git_def by (intro keeps_intros)
qed

lemma contract_keeps [keeps_intros]:
  "keeps s J (committed_clean_tree p)" "keeps s J contract_root" "keeps s J contract_tree" "keeps s J (verify_clean_checkout p target)"
proof -
  show "keeps s J (committed_clean_tree p)" for p unfolding committed_clean_tree_def by (intro keeps_intros)
  note [keeps_intros] = this
  show "keeps s J contract_root" unfolding contract_root_def by (intro keeps_intros)
  note [keeps_intros] = this
  show "keeps s J contract_tree" unfolding contract_tree_def by (intro keeps_intros)
  show "keeps s J (verify_clean_checkout p target)" unfolding verify_clean_checkout_def by (intro keeps_intros)
qed

lemma target_keeps [keeps_intros]: "keeps s J (verify_workgraph_target revision token)"
proof -
  have [keeps_intros]: "keeps s J (github_json p t)" for p t
    unfolding github_json_def by (intro keeps_intros keeps_ask harmless_kept) simp
  show ?thesis unfolding verify_workgraph_target_def by (intro keeps_intros)
qed

lemma deployment_keeps [keeps_intros]:
  "keeps s J known_local_app_data" "keeps s J deployment_root" "keeps s J authority_store_path" "keeps s J checkout_root" "keeps s J (checkout_directory key)"
  "keeps s J (assert_authority_store_outside_checkouts p)" "keeps s J windows_only" "keeps s J require_token"
  "keeps s J current_python_executable" "keeps s J open_store"
proof -
  show "keeps s J known_local_app_data" unfolding known_local_app_data_def by (intro keeps_intros)
  note [keeps_intros] = this
  show "keeps s J deployment_root" unfolding deployment_root_def by (intro keeps_intros)
  note [keeps_intros] = this
  show "keeps s J authority_store_path" unfolding authority_store_path_def by (intro keeps_intros)
  note [keeps_intros] = this
  show "keeps s J checkout_root" unfolding checkout_root_def by (intro keeps_intros)
  note [keeps_intros] = this
  show "keeps s J (checkout_directory key)" unfolding checkout_directory_def by (intro keeps_intros)
  show "keeps s J (assert_authority_store_outside_checkouts p)" for p
    unfolding assert_authority_store_outside_checkouts_def by (intro keeps_intros)
  note [keeps_intros] = this
  show "keeps s J windows_only" unfolding windows_only_def by (intro keeps_intros)
  show "keeps s J require_token" unfolding require_token_def by (intro keeps_intros)
  show "keeps s J current_python_executable" unfolding current_python_executable_def by (intro keeps_intros)
  show "keeps s J open_store" unfolding open_store_def by (intro keeps_intros)
qed

lemma command_keeps [keeps_intros]:
  "keeps s J (build_command_spec request target checkout tree only)" "keeps s J (run_integrity_preflight spec)"
proof -
  have [keeps_intros]: "keeps s J (command_environment a p)" for a p
    unfolding command_environment_def Let_def by (intro keeps_intros)
  show "keeps s J (build_command_spec request target checkout tree only)"
    unfolding build_command_spec_def by (intro keeps_intros)
  have "keeps s J (case z of Returned code \<Rightarrow> guard (py_eq_int code 0) e | Raised e' \<Rightarrow> raise e')" for z e
    by (cases z) (simp_all add: keeps_intros)
  then show "keeps s J (run_integrity_preflight spec)"
    unfolding run_integrity_preflight_def by (intro keeps_intros keeps_observe harmless_kept) simp_all
qed

lemma initialize_keeps [keeps_intros]: "keeps s J initialize_workgraph_client"
  unfolding initialize_workgraph_client_def by (intro keeps_intros)

lemma prepare_keeps:
  assumes "\<And>p. keeps s J (remove_disposable_checkout p)"
  shows "keeps s J (prepare_exact_checkout target source key)" "keeps s J (prepare_command request target tree key)"
proof -
  have [keeps_intros]: "keeps s J (clone_checkout a b)" for a b unfolding clone_checkout_def by (intro keeps_intros)
  show "keeps s J (prepare_exact_checkout target source key)" for source
    unfolding prepare_exact_checkout_def by (intro keeps_intros assms)
  note [keeps_intros] = this
  show "keeps s J (prepare_command request target tree key)"
    unfolding prepare_command_def by (intro keeps_intros)
qed

lemma admit_keeps [keeps_intros]: "keeps s J (admit_command key hash exists)"
  unfolding admit_command_def by (intro keeps_intros)

lemma publish_keeps:
  assumes "\<And>h p token payload a. J h (Posted p token payload a)"
  shows "keeps s J (publish_terminal_status target code token)"
  unfolding publish_terminal_status_def by (intro keeps_intros keeps_ask assms)

lemma observe_prior_keeps:
  assumes "\<And>code. keeps s J (publish target code token)"
  shows "keeps s J (observe_prior_launch publish target token key prior)"
  unfolding observe_prior_launch_def by (intro keeps_intros assms)

lemma run_keeps:
  assumes "\<And>p. keeps s J (remove_disposable_checkout p)" "\<And>h ev. J h (Spawned ev)"
    "\<And>target code token. keeps s J (publish target code token)"
  shows "keeps s J (run_workgraph_client publish request)"
  unfolding run_workgraph_client_def client_block_def launch_and_publish_def
  by (intro keeps_intros observe_prior_keeps prepare_keeps keeps_in_runner assms)

lemma main_keeps:
  assumes "\<And>p. keeps s J (remove_disposable_checkout p)" "\<And>h ev. J h (Spawned ev)"
    "\<And>h p token payload a. J h (Posted p token payload a)"
  shows "keeps s J (client_main command)"
  unfolding client_main_def client_attempt_def
  by (cases command) (auto intro!: keeps_intros run_keeps publish_keeps assms)

end

end
