(* ===== verification/Workgraph_Safety.thy ===== *)
theory Workgraph_Safety
  imports Workgraph_Facts
begin

text \<open>
  Which calls precede which: a removal is preceded by the resolution of the directory it is in to the
  checkouts of the deployment, a launch and a publication by the confirmation of what they are
  about. \<open>saw\<close> holds if calls that satisfy the given predicates occur in this order.
\<close>

section \<open>Removals\<close>

text \<open>The calls \<open>h\<close> establish that \<open>p\<close> lies directly in the resolved checkouts directory of a deployment.\<close>

definition in_checkouts :: "(pystr \<Rightarrow> pystr) \<Rightarrow> event list \<Rightarrow> path \<Rightarrow> bool" where
  "in_checkouts low h p \<longleftrightarrow> (\<exists>base deployment parent checkouts.
     Resolved (path_join (path_join base (py ''Umbilical'')) (py ''workgraph-first-client-v1'')) (Inr deployment) \<in> set h
     \<and> Resolved (path_join deployment (py ''checkouts'')) (Inr checkouts) \<in> set h
     \<and> Resolved (path_parent p) (Inr parent) \<in> set h
     \<and> same_path low (path_parent p) parent \<and> same_path low parent checkouts)"

text \<open>Calls before the \<open>n\<close>th are not counted.\<close>

definition removal_ok :: "nat \<Rightarrow> (pystr \<Rightarrow> pystr) \<Rightarrow> event list \<Rightarrow> event \<Rightarrow> bool" where
  "removal_ok n low h e \<longleftrightarrow>
     (\<forall>kind p a. e = Changed kind p a \<and> kind \<noteq> Mkdir \<longrightarrow> in_checkouts low (drop n h) p)"

interpretation removals: call_history "(n, out)" "removal_ok n low" for n out low
  by unfold_locales (auto simp: removal_ok_def)

interpretation anything: call_history s "\<lambda>_ _. True" for s
  by unfold_locales simp

lemma run_ask: "ask answer f c = (answer (outside c) (events c), c\<lparr>events := events c @ [f (answer (outside c) (events c))]\<rparr>)"
  by (simp add: ask_def run_bnd observe_def Let_def run_simps split: sum.splits)

lemma run_known: "known f c = (Inr (f (outside c)), c)"
  by (simp add: known_def run_simps)

lemma bnd_known: "bnd (known f) g c = g (f (outside c)) c"
  by (simp add: run_bnd run_known)

lemma deployment_root_Inr:
  assumes "deployment_root c = (Inr d, c')"
  shows "\<exists>base t. events c' = events c @ t
    \<and> Resolved (path_join (path_join base (py ''Umbilical'')) (py ''workgraph-first-client-v1'')) (Inr d) \<in> set t"
proof -
  obtain base c1 where base: "known_local_app_data c = (Inr base, c1)"
    and d: "resolve (path_join (path_join base (py ''Umbilical'')) (py ''workgraph-first-client-v1'')) c1 = (Inr d, c')"
    using assms by (auto simp: deployment_root_def run_bnd split: prod.splits sum.splits)
  have "adds (\<lambda>_ _. True) c c1" by (rule keepsD [OF anything.deployment_keeps(1) began_here base])
  then show ?thesis using d by (auto simp: adds_def resolve_def run_ask)
qed

text \<open>The calls from the \<open>n\<close>th on.\<close>

definition since :: "nat \<Rightarrow> machine \<Rightarrow> event set" where
  "since n c = set (drop n (events c))"

lemma since_adds: "adds J c c' \<Longrightarrow> since n c \<subseteq> since n c'"
  by (auto simp: adds_def since_def)

lemma length_adds: "adds J c c' \<Longrightarrow> length (events c) \<le> length (events c')" "adds J c c' \<Longrightarrow> outside c' = outside c"
  by (auto simp: adds_def)

lemma resolve_Inr: "resolve p c = (Inr q, c') \<Longrightarrow> n \<le> length (events c) \<Longrightarrow> Resolved p (Inr q) \<in> since n c'"
  by (auto simp: resolve_def run_ask since_def)

lemma checkout_root_Inr:
  assumes "checkout_root c = (Inr q, c')" "n \<le> length (events c)"
  shows "\<exists>base d. q = path_join d (py ''checkouts'') \<and>
    Resolved (path_join (path_join base (py ''Umbilical'')) (py ''workgraph-first-client-v1'')) (Inr d) \<in> since n c'"
proof -
  obtain d where d: "deployment_root c = (Inr d, c')" "q = path_join d (py ''checkouts'')"
    using assms(1) by (auto simp: checkout_root_def run_bnd run_simps split: prod.splits sum.splits)
  from deployment_root_Inr [OF d(1)] assms(2) show ?thesis
    unfolding d(2) by (intro ex_comm [THEN iffD1, OF exI [of _ d]]) (auto simp: since_def)
qed

text \<open>The removal itself: first the part after the directory is checked.\<close>

lemma remove_entry_adds:
  assumes start: "began (n, out) c" and inside: "in_checkouts low (drop n (events c)) p" and run: "remove_entry p c = (r, c')"
  shows "adds (removal_ok n low) c c'"
proof -
  note ok = removals.primitives(2) [of n out low]
  have later: "in_checkouts low (drop n (events d)) p" if "adds (removal_ok n low) c d" for d
    using inside since_adds [OF that, of n] unfolding in_checkouts_def since_def by blast
  have change: "adds (removal_ok n low) d d'" if "change_path kind p d = (v, d')" "adds (removal_ok n low) c d" for kind v d d'
    using that(1) later [OF that(2)] by (auto simp: change_path_def run_ask removal_ok_def intro!: adds_one)
  show ?thesis
  proof (rule adds_bnd [OF run [unfolded remove_entry_def] start ok], goal_cases)
    case (1 link c1)
    show ?case
    proof (cases link)
      case True
      then show ?thesis using 1 change by simp
    next
      case False
      with 1(4) have "bnd (check Is_dir p) (\<lambda>directory. if directory then change_path Rmtree p
          else raise (WorkGraphClientError ''existing checkout path is not a disposable directory'')) c1 = (r, c')"
        by simp
      from this 1(2) ok show ?thesis
      proof (rule adds_bnd, goal_cases)
        case (1 directory c2)
        then show ?case
          using change adds_trans [OF \<open>adds (removal_ok n low) c c1\<close>, of c2]
          by (cases directory) (auto simp: run_simps adds_refl)
      qed
    qed
  qed
qed

lemma removal_adds:
  assumes start: "began (n, out) c" and low: "low = lower out" and run: "remove_disposable_checkout p c = (r, c')"
  shows "adds (removal_ok n low) c c'"
proof -
  note ok = removals.primitives(1) [of n out low] removals.deployment_keeps(4) [of n out low]
  have old: "n \<le> length (events d)" "outside d = out" if "began (n, out) d" for d
    using that by (simp_all add: began_def)
  let ?refused = "raise (WorkGraphClientError ''refusing to reconstruct an unexpected checkout path'') :: (machine, unit) prog"
  show ?thesis
  proof (rule adds_bnd [OF run [unfolded remove_disposable_checkout_def] start ok(1)], goal_cases)
    case (1 parent c1)
    note r1 = resolve_Inr [OF 1(1) old(1) [OF start]]
    show ?case
    proof (cases "same_path low (path_parent p) parent")
      case False
      with 1 low old(2) show ?thesis by (auto simp: bnd_known run_simps Let_def adds_refl)
    next
      case True
      note same = True
      have "bnd checkout_root (\<lambda>q. bnd (resolve q) (\<lambda>expected. if \<not> same_path low parent expected
          then ?refused else remove_entry p)) c1 = (r, c')"
        using 1(4) low old(2) [OF 1(2)] True by (simp add: bnd_known Let_def)
      from this 1(2) ok(2) show ?thesis
      proof (rule adds_bnd, goal_cases)
        case (1 q c2)
        note r2 = checkout_root_Inr [OF 1(1) old(1)] and a2 = 1(3)
        from 1(4,2) ok(1) show ?case
        proof (rule adds_bnd, goal_cases)
          case (1 expected c3)
          note r3 = resolve_Inr [OF 1(1) old(1)]
          show ?case
          proof (cases "same_path low parent expected")
            case True
            have "in_checkouts low (drop n (events c3)) p"
              using r1 r2 r3 same True \<open>began (n, out) c1\<close> \<open>began (n, out) c2\<close> since_adds [OF a2, of n] since_adds [OF 1(3), of n]
              unfolding in_checkouts_def since_def by blast
            then show ?thesis using 1(2,4) True by (auto intro: remove_entry_adds)
          qed (use 1(4) in \<open>auto simp: run_simps adds_refl\<close>)
        qed
      qed
    qed
  qed
qed

lemma removal_keeps: "keeps (n, out) (removal_ok n (lower out)) (remove_disposable_checkout p)"
  by (auto intro!: keepsI removal_adds)

text \<open>Every removal of a whole run of \<open>main\<close> is one of a directory in the checkouts.\<close>

lemma main_removals:
  assumes "client_main command c = (r, c')"
  shows "adds (removal_ok (length (events c)) (lower (outside c))) c c'"
  by (rule keepsD [OF removals.main_keeps began_here assms]) (auto simp: removal_keeps removal_ok_def)

end
