(* ===== verification/Workgraph_Evidence.thy ===== *)
theory Workgraph_Evidence
  imports Workgraph_Safety
begin

text \<open>
  What a program of the client that returns has seen. \<open>saw ps t\<close>: among the calls \<open>t\<close> are calls
  that satisfy the predicates \<open>ps\<close>, in this order. \<open>tells m P\<close>: if \<open>m\<close> returns \<open>x\<close> and made the
  calls \<open>t\<close>, then \<open>P x t\<close>.
\<close>

section \<open>Calls in order\<close>

fun saw :: "(event \<Rightarrow> bool) list \<Rightarrow> event list \<Rightarrow> bool" where
  "saw [] t \<longleftrightarrow> True"
| "saw (p # ps) [] \<longleftrightarrow> False"
| "saw (p # ps) (e # t) \<longleftrightarrow> (if p e then saw ps t else saw (p # ps) t)"

lemma saw_tail: "saw (p # ps) t \<Longrightarrow> saw ps t"
proof (induction t arbitrary: p ps)
  case (Cons e t)
  then show ?case by (cases ps) (auto split: if_splits)
qed simp

lemma saw_more: "saw ps t \<Longrightarrow> saw ps (e # t)"
  by (cases ps) (auto intro: saw_tail)

lemma saw_later: "saw ps t \<Longrightarrow> saw ps (u @ t)"
  by (induction u) (auto intro: saw_more)

lemma saw_append: "saw ps t \<Longrightarrow> saw qs u \<Longrightarrow> saw (ps @ qs) (t @ u)"
proof (induction ps t rule: saw.induct)
  case (3 p ps e t)
  then show ?case by (simp split: if_splits)
qed (auto intro: saw_later)

lemma saw_earlier: "saw ps t \<Longrightarrow> saw ps (t @ u)"
  using saw_append [of ps t "[]" u] by simp

lemma saw_last: "p e \<Longrightarrow> saw [p] (t @ [e])"
  by (rule saw_later) simp

section \<open>Programs that return\<close>

definition tells :: "(machine, 'a) prog \<Rightarrow> ('a \<Rightarrow> event list \<Rightarrow> bool) \<Rightarrow> bool" where
  "tells m P \<longleftrightarrow> (\<forall>c x c'. m c = (Inr x, c') \<longrightarrow> (\<exists>t. events c' = events c @ t \<and> P x t))"

lemma tellsD: "tells m P \<Longrightarrow> m c = (Inr x, c') \<Longrightarrow> \<exists>t. events c' = events c @ t \<and> P x t"
  by (auto simp: tells_def)

lemma tells_mono: "tells m P \<Longrightarrow> (\<And>x t. P x t \<Longrightarrow> Q x t) \<Longrightarrow> tells m Q"
  by (fastforce simp: tells_def)

lemma tells_keeps: "(\<And>s. keeps s (\<lambda>_ _. True) m) \<Longrightarrow> tells m (\<lambda>_ _. True)"
  unfolding tells_def using keepsD [OF _ began_here] by (fastforce simp: adds_def)

lemma tells_bnd:
  assumes "tells m P" "\<And>x. tells (f x) (Q x)" "\<And>x y t u. P x t \<Longrightarrow> Q x y u \<Longrightarrow> R y (t @ u)"
  shows "tells (bnd m f) R"
  unfolding tells_def
proof (intro allI impI)
  fix c y c' assume "bnd m f c = (Inr y, c')"
  then obtain x c1 where x: "m c = (Inr x, c1)" "f x c1 = (Inr y, c')"
    by (auto simp: run_bnd split: prod.splits sum.splits)
  obtain t where t: "events c1 = events c @ t" "P x t" using tellsD [OF assms(1) x(1)] by blast
  obtain u where u: "events c' = events c1 @ u" "Q x y u" using tellsD [OF assms(2) x(2)] by blast
  show "\<exists>v. events c' = events c @ v \<and> R y v" using t u assms(3) [OF t(2) u(2)] by simp
qed

lemma tells_sq:
  assumes "tells m P" "tells n Q" "\<And>x y t u. P x t \<Longrightarrow> Q y u \<Longrightarrow> R y (t @ u)"
  shows "tells (sq m n) R"
  unfolding sq_def using assms by (rule tells_bnd)

lemma tells_silent:
  "tells (ret x) (\<lambda>y t. y = x \<and> t = [])" "tells (raise e) (\<lambda>_ _. False)"
  "tells (guard b e) (\<lambda>_ t. b \<and> t = [])" "tells (of_result r) (\<lambda>y t. r = Inr y \<and> t = [])"
  "tells (known f) (\<lambda>_ t. t = [])"
  by (auto simp: tells_def run_combinators run_known)

lemma tells_ask: "tells (ask answer f) (\<lambda>x t. t = [f (Inr x)])"
  by (auto simp: tells_def run_ask)

lemma tells_observe: "tells (observe answer f) (\<lambda>x t. t = [f x])"
  by (auto simp: tells_def observe_def Let_def)

text \<open>Statements whose calls do not matter, and statements that always go on.\<close>

lemma tells_skip:
  assumes "\<And>s. keeps s (\<lambda>_ _. True) m" "\<And>x. tells (f x) Q" "\<And>y t u. Q y u \<Longrightarrow> R y (t @ u)"
  shows "tells (bnd m f) R"
  using tells_keeps [OF assms(1)] assms(2,3) by (rule tells_bnd)

text \<open>Statements before the ones that matter, for a postcondition that only asks for calls.\<close>

lemma tells_later:
  assumes "\<And>y t u. R y u \<Longrightarrow> R y (t @ u)"
  shows "(\<And>s. keeps s (\<lambda>_ _. True) m) \<Longrightarrow> (\<And>x. tells (f x) R) \<Longrightarrow> tells (bnd m f) R"
    and "(\<And>s. keeps s (\<lambda>_ _. True) m) \<Longrightarrow> tells n R \<Longrightarrow> tells (sq m n) R"
  unfolding sq_def by (rule tells_skip, assumption, assumption, rule assms, assumption)+

section \<open>Git\<close>

definition git_said :: "path \<Rightarrow> pystr list \<Rightarrow> pystr \<Rightarrow> event \<Rightarrow> bool" where
  "git_said d arguments out e \<longleftrightarrow> (\<exists>git raw.
     e = Ran_git ([git, py ''-c'', py ''core.longpaths=true'', py ''-C'', path_str d] @ arguments) (Inr (0, raw))
     \<and> strip raw = out)"

text \<open>The tree of the clean commit at \<open>d\<close>; and that the checkout at \<open>d\<close> is at a revision with a tree and clean.\<close>

definition clean_tree :: "path \<Rightarrow> pystr \<Rightarrow> (event \<Rightarrow> bool) list" where
  "clean_tree d tree = [git_said d tree_arguments tree, git_said d status_arguments []]"

definition clean_checkout :: "path \<Rightarrow> pystr \<Rightarrow> pystr \<Rightarrow> (event \<Rightarrow> bool) list" where
  "clean_checkout d revision tree = git_said d head_arguments revision # clean_tree d tree"

lemma git_output_tells: "tells (git_output d a) (\<lambda>y t. \<forall>out. y = Some out \<longrightarrow> saw [git_said d a out] t)"
  unfolding tells_def
proof (intro allI impI)
  fix c y c' assume run: "git_output d a c = (Inr y, c')"
  let ?git = "on_which (outside c) (events c)"
  have line: "git_argv d a c = (Inr (case ?git of None \<Rightarrow> None | Some git \<Rightarrow> if \<not> os_isabs (outside c) git then None
      else Some ([git, py ''-c'', py ''core.longpaths=true'', py ''-C'', path_str d] @ a)), c\<lparr>events := events c @ [Found_git ?git]\<rparr>)"
    by (simp add: git_argv_def run_bnd observe_def Let_def run_known run_simps split: option.splits)
  then show "\<exists>t. events c' = events c @ t \<and> (\<forall>out. y = Some out \<longrightarrow> saw [git_said d a out] t)"
    using run
    by (auto simp: git_output_def run_bnd run_simps run_try_except run_git_command_def run_ask git_said_def
        split: option.splits sum.splits prod.splits if_splits)
qed

lemma run_git_tells: "tells (run_git d a) (\<lambda>out t. saw [git_said d a out] t)"
  unfolding run_git_def
proof (rule tells_bnd [OF git_output_tells])
  show "tells (case found of None \<Rightarrow> raise e | Some out \<Rightarrow> ret out) (\<lambda>y t. found = Some y \<and> t = [])" for found e
    by (cases found) (auto intro: tells_mono [OF tells_silent(2)] tells_mono [OF tells_silent(1)])
qed auto

lemma verify_clean_tells:
  "tells (verify_clean_checkout d target) (\<lambda>_ t. saw (clean_checkout d (tg_revision target) (tg_tree target)) t)"
proof -
  have step: "tells (bnd (run_git d a) (\<lambda>out. sq (guard (out = x) e) m)) (\<lambda>y t. saw (git_said d a x # ps) t)"
    if "tells m (\<lambda>_ t. saw ps t)" for a x e ps and m :: "(machine, unit) prog"
  proof (rule tells_bnd [OF run_git_tells tells_sq [OF tells_silent(3) that]])
    show "saw (git_said d a x # ps) (t @ u)" if "saw [git_said d a out] t" "out = x \<and> saw ps u" for out y t u
      using saw_append [of "[git_said d a x]" t ps u] that by simp
  qed simp
  have "tells (bnd (run_git d status_arguments) (\<lambda>out. guard (out = []) e)) (\<lambda>_ t. saw [git_said d status_arguments []] t)" for e
    by (rule tells_bnd [OF run_git_tells tells_silent(3)]) simp
  then show ?thesis
    unfolding verify_clean_checkout_def clean_checkout_def clean_tree_def by (intro step)
qed

lemma committed_clean_tells:
  "tells (committed_clean_tree d) (\<lambda>y t. \<forall>tree. y = Some tree \<longrightarrow> is_revision tree \<and> saw (clean_tree d tree) t)"
proof -
  let ?rest = "\<lambda>dir head tree status. bnd (known parse_path) (\<lambda>parse. bnd (resolve (parse dir)) (\<lambda>a. bnd (resolve d) (\<lambda>b.
     bnd (known lower) (\<lambda>low. if \<not> same_path low a b \<or> \<not> is_revision_opt head \<or> \<not> is_revision_opt tree \<or> status \<noteq> Some []
       then ret None else ret tree))))"
  let ?decide = "\<lambda>found head tree status. case found of None \<Rightarrow> ret None | Some dir \<Rightarrow> ?rest dir head tree status"
  have rest: "tells (?rest dir head tree status) (\<lambda>y t. y \<noteq> None \<longrightarrow> y = tree \<and> is_revision_opt tree \<and> status = Some [])"
    for dir head tree status
    by (rule tells_skip [OF keeps_silent(6)], rule tells_skip [OF anything.primitives(1)],
        rule tells_skip [OF anything.primitives(1)], rule tells_skip [OF keeps_silent(6)])
      (auto simp: tells_def run_simps)
  have decide: "tells (?decide found head tree status) (\<lambda>y t. y \<noteq> None \<longrightarrow> y = tree \<and> is_revision_opt tree \<and> status = Some [])"
    for found head tree status
  proof (cases found)
    case (Some dir)
    show ?thesis unfolding Some option.case by (rule rest)
  qed (auto simp: tells_def run_simps)
  have status: "tells (bnd (git_output d status_arguments) (?decide found head tree))
      (\<lambda>y t. y \<noteq> None \<longrightarrow> y = tree \<and> is_revision_opt tree \<and> saw [git_said d status_arguments []] t)" for found head tree
    by (rule tells_bnd [OF git_output_tells decide]) (auto intro: saw_earlier)
  have tree: "tells (bnd (git_output d tree_arguments) (\<lambda>tree. bnd (git_output d status_arguments) (?decide found head tree)))
      (\<lambda>y t. \<forall>tree. y = Some tree \<longrightarrow> is_revision tree \<and> saw (clean_tree d tree) t)" for found head
  proof (rule tells_bnd [OF git_output_tells status], intro allI impI)
    fix x y t u tree
    assume "\<forall>out. x = Some out \<longrightarrow> saw [git_said d tree_arguments out] t" "y = Some tree"
      "y \<noteq> None \<longrightarrow> y = x \<and> is_revision_opt x \<and> saw [git_said d status_arguments []] u"
    then show "is_revision tree \<and> saw (clean_tree d tree) (t @ u)"
      using saw_append [of "[git_said d tree_arguments tree]" t "[git_said d status_arguments []]" u]
      by (auto simp: is_revision_opt_def clean_tree_def)
  qed
  have head: "tells (bnd (git_output d head_arguments) (\<lambda>head. bnd (git_output d tree_arguments)
      (\<lambda>tree. bnd (git_output d status_arguments) (?decide found head tree))))
      (\<lambda>y t. \<forall>tree. y = Some tree \<longrightarrow> is_revision tree \<and> saw (clean_tree d tree) t)" for found
    by (rule tells_skip [OF anything.git_keeps(2) tree]) (auto intro: saw_later)
  show ?thesis
    unfolding committed_clean_tree_def
    by (rule tells_skip [OF anything.git_keeps(2) head]) (auto intro: saw_later)
qed

lemma contract_tree_tells:
  "tells contract_tree (\<lambda>tree t. is_revision tree \<and> (\<exists>d. saw (clean_tree d tree) t))"
  unfolding contract_tree_def
proof (rule tells_skip [OF anything.contract_keeps(2)])
  fix d
  let ?found = "\<lambda>found. case found of None \<Rightarrow> raise (WorkGraphClientError ''Umbilical validation contract must be committed and clean'')
     | Some t \<Rightarrow> ret t"
  have "tells (?found found) (\<lambda>y t. found = Some y)" for found :: "pystr option"
    by (cases found) (auto simp: tells_def run_simps)
  then show "tells (bnd (committed_clean_tree d) ?found) (\<lambda>tree t. is_revision tree \<and> (\<exists>d. saw (clean_tree d tree) t))"
    by (rule tells_bnd [OF committed_clean_tells]) (auto intro: saw_earlier)
qed (auto intro: saw_later)

section \<open>GitHub\<close>

text \<open>The answers that confirm the repository, and a commit of it with its tree.\<close>

definition confirms_repository :: "pystr \<Rightarrow> event \<Rightarrow> bool" where
  "confirms_repository token e \<longleftrightarrow> (\<exists>repo. e = Got (py ''/repos/4i7/WorkGraph'') token (Inr (PyDict repo))
     \<and> py_eq_str (dict_get repo ''full_name'') (py ''4i7/WorkGraph'') \<and> py_eq_int (dict_get repo ''id'') 1338331328)"

definition confirms_commit :: "pystr \<Rightarrow> pystr \<Rightarrow> pystr \<Rightarrow> event \<Rightarrow> bool" where
  "confirms_commit token revision tree e \<longleftrightarrow>
     (\<exists>commit. e = Got (py ''/repos/4i7/WorkGraph/commits/'' @ revision) token (Inr (PyDict commit))
        \<and> py_eq_str (dict_get commit ''sha'') revision \<and> commit_tree_sha commit = PyStr tree)"

definition confirmed :: "pystr \<Rightarrow> VerifiedWorkGraphTarget \<Rightarrow> (event \<Rightarrow> bool) list" where
  "confirmed token target = [confirms_repository token, confirms_commit token (tg_revision target) (tg_tree target)]"

text \<open>A target of the fixed repository with a revision and a tree.\<close>

definition fixed_target :: "VerifiedWorkGraphTarget \<Rightarrow> bool" where
  "fixed_target target \<longleftrightarrow> tg_full_name target = repository_name \<and> tg_id target = repository_id
     \<and> is_revision (tg_revision target) \<and> is_revision (tg_tree target)"

lemma github_tells: "tells (github_json p token) (\<lambda>x t. t = [Got p token (Inr x)])"
  by (auto simp: github_json_def tells_def run_try_except run_ask run_simps split: sum.splits if_splits)

lemma tells_cases:
  "(\<And>x. v = Some x \<Longrightarrow> tells (f x) P) \<Longrightarrow> tells (case v of None \<Rightarrow> raise e | Some x \<Rightarrow> f x) P"
  "(\<not> b \<Longrightarrow> tells m P) \<Longrightarrow> tells (if b then raise e else m) P"
  by (auto simp: tells_def run_simps split: option.split)

lemma github_paths: "py ''/repos/'' @ repository_name = py ''/repos/4i7/WorkGraph''"
  "py ''/repos/'' @ repository_name @ py ''/commits/'' @ r = py ''/repos/4i7/WorkGraph/commits/'' @ r"
  by (simp_all add: repository_name_def py_def)

lemma verify_target_tells:
  "tells (verify_workgraph_target revision token)
     (\<lambda>target t. saw (confirmed token target) t \<and> fixed_target target \<and> revision = PyStr (tg_revision target))"
proof -
  have seen: "saw (confirmed token target) [Got (py ''/repos/'' @ repository_name) token (Inr repository),
        Got (py ''/repos/'' @ repository_name @ py ''/commits/'' @ r) token (Inr commit)]
      \<and> fixed_target target \<and> PyStr r = PyStr (tg_revision target)"
    if "check_repository repository = Inr ()" "commit_target r commit = Inr target" "is_revision r" for repository commit r target
    using that by (auto simp: check_repository_def commit_target_def confirmed_def confirms_repository_def confirms_commit_def
        fixed_target_def github_paths simp flip: repository_name_def repository_id_def split: option.splits if_splits)
  have rest: "tells (sq (of_result (check_repository repository))
      (bnd (github_json (py ''/repos/'' @ repository_name @ py ''/commits/'' @ r) token) (\<lambda>commit. of_result (commit_target r commit))))
      (\<lambda>target t. check_repository repository = Inr () \<and> (\<exists>commit. commit_target r commit = Inr target \<and>
        t = [Got (py ''/repos/'' @ repository_name @ py ''/commits/'' @ r) token (Inr commit)]))" for repository r
    by (rule tells_sq [OF tells_silent(4) tells_bnd [OF github_tells tells_silent(4)]]) auto
  have "tells (bnd (github_json (py ''/repos/'' @ repository_name) token) (\<lambda>repository.
     sq (of_result (check_repository repository))
     (bnd (github_json (py ''/repos/'' @ repository_name @ py ''/commits/'' @ r) token) (\<lambda>commit.
     of_result (commit_target r commit)))))
     (\<lambda>target t. saw (confirmed token target) t \<and> fixed_target target \<and> PyStr r = PyStr (tg_revision target))"
    if "is_revision r" for r
    by (rule tells_bnd [OF github_tells rest]) (use seen that in auto)
  then show ?thesis
    unfolding verify_workgraph_target_def by (intro tells_cases) (auto simp del: pyval.inject)
qed

section \<open>The command\<close>

text \<open>The command of a target: its arguments, where it runs, and the names it finds in its environment.\<close>

definition command_for :: "WorkGraphRequest \<Rightarrow> VerifiedWorkGraphTarget \<Rightarrow> path \<Rightarrow> pystr \<Rightarrow> bool \<Rightarrow> LocalCommandSpec \<Rightarrow> bool" where
  "command_for request target d tree only spec \<longleftrightarrow> (\<exists>python wrapper.
     argv spec = command_arguments python wrapper d target tree only \<and> executable spec = path_str python)
     \<and> working_directory spec = path_str d \<and> timeout_seconds spec = rq_timeout request
     \<and> set (map fst (environment spec)) = {py ''PATH'', py ''PYTHONUTF8'', py ''SYSTEMROOT'', py ''TEMP'', py ''TMP''}"

definition environment_names :: "pyval \<Rightarrow> pyval list" where
  "environment_names v = (case exact_dict v of None \<Rightarrow> [] | Some d \<Rightarrow> map fst d)"

lemma command_environment_tells:
  "tells (command_environment a python) (\<lambda>env t. environment_names env =
     map PyStr [py ''PATH'', py ''PYTHONUTF8'', py ''SYSTEMROOT'', py ''TEMP'', py ''TMP''])"
  unfolding command_environment_def Let_def
  by (rule tells_skip [OF keeps_silent(6)], intro tells_cases, unfold sq_def,
      rule tells_skip [OF anything.primitives(3)], rule tells_skip [OF anything.git_keeps(1)], intro tells_cases)
    (auto simp: tells_def bnd_known run_simps environment_names_def environment_dict_def)

lemma set_sorted_environment: "set (sorted_environment env) = set env"
proof -
  have "snd (keyed i) = i" for i by (simp add: keyed_def)
  then show ?thesis by (auto simp: sorted_environment_def image_image)
qed

lemma snapshot_command:
  assumes "snapshot isabs (PyStr e) (PyList (map PyStr a)) (PyStr w) env (PyInt t) = Inr spec"
  shows "executable spec = e \<and> argv spec = a \<and> working_directory spec = w \<and> timeout_seconds spec = t
    \<and> PyStr ` set (map fst (environment spec)) = set (environment_names env)"
proof -
  obtain frozen items where f: "freeze_argv (PyList (map PyStr a)) = Inr frozen" "env = PyDict (map item_pair items)"
    "make_command_spec isabs (PyStr e) frozen (PyStr w) (PyTuple (map item_value (sorted_environment items))) (PyInt t) = Inr spec"
    using assms by (auto simp: snapshot_Inr)
  have "set (environment spec) = set items"
    using f(3) set_sorted_environment [of items] by (auto simp: make_command_spec_Inr)
  moreover have "fst (item_pair i) = PyStr (fst i)" for i by (simp add: item_pair_def)
  ultimately have "PyStr ` set (map fst (environment spec)) = set (environment_names env)"
    by (simp add: f(2) environment_names_def image_image comp_def)
  with f show ?thesis by (auto simp: make_command_spec_Inr freeze_argv_def)
qed

lemma build_command_tells:
  "tells (build_command_spec request target d tree only) (\<lambda>spec t. command_for request target d tree only spec)"
proof -
  let ?names = "map PyStr [py ''PATH'', py ''PYTHONUTF8'', py ''SYSTEMROOT'', py ''TEMP'', py ''TMP'']"
  have last: "tells (bnd (known os_isabs) (\<lambda>isabs. of_result (snapshot isabs (PyStr (path_str python))
       (PyList (map PyStr (command_arguments python wrapper d target tree only)))
       (PyStr (path_str d)) env (PyInt (rq_timeout request)))))
      (\<lambda>spec t. environment_names env = ?names \<longrightarrow> command_for request target d tree only spec)" for python wrapper env
  proof (unfold tells_def, intro allI impI)
    fix c spec c'
    assume "bnd (known os_isabs) (\<lambda>isabs. of_result (snapshot isabs (PyStr (path_str python))
       (PyList (map PyStr (command_arguments python wrapper d target tree only)))
       (PyStr (path_str d)) env (PyInt (rq_timeout request)))) c = (Inr spec, c')"
    then have "c' = c" and spec: "snapshot (os_isabs (outside c)) (PyStr (path_str python))
       (PyList (map PyStr (command_arguments python wrapper d target tree only)))
       (PyStr (path_str d)) env (PyInt (rq_timeout request)) = Inr spec"
      by (auto simp: bnd_known run_simps)
    have "set (map fst (environment spec)) = {py ''PATH'', py ''PYTHONUTF8'', py ''SYSTEMROOT'', py ''TEMP'', py ''TMP''}"
      if "environment_names env = ?names"
    proof -
      have "PyStr ` set (map fst (environment spec)) = PyStr ` {py ''PATH'', py ''PYTHONUTF8'', py ''SYSTEMROOT'', py ''TEMP'', py ''TMP''}"
        using snapshot_command [OF spec] that by simp
      then show ?thesis by (rule inj_image_eq_iff [THEN iffD1, rotated]) (simp add: inj_def)
    qed
    with snapshot_command [OF spec] \<open>c' = c\<close> show "\<exists>t. events c' = events c @ t \<and>
        (environment_names env = ?names \<longrightarrow> command_for request target d tree only spec)"
      by (auto simp: command_for_def)
  qed
  show ?thesis
    unfolding build_command_spec_def
    by (rule tells_skip [OF keeps_silent(6)], rule tells_skip [OF keeps_silent(4)], rule tells_skip [OF anything.primitives(1)],
        rule tells_skip [OF anything.deployment_keeps(3)], rule tells_skip [OF anything.deployment_keeps(9)],
        rule tells_bnd [OF command_environment_tells last]) auto
qed

definition preflight_passed :: "LocalCommandSpec \<Rightarrow> event \<Rightarrow> bool" where
  "preflight_passed spec e \<longleftrightarrow> (\<exists>code. e = Preflight (launcher_call spec) (Returned code) \<and> py_eq_int code 0)"

lemma preflight_tells: "tells (run_integrity_preflight spec) (\<lambda>_ t. saw [preflight_passed spec] t)"
proof -
  have "tells (case outcome of Raised e \<Rightarrow> raise e | Returned code \<Rightarrow> guard (py_eq_int code 0) f)
      (\<lambda>_ t. \<exists>code. outcome = Returned code \<and> py_eq_int code 0 \<and> t = [])" for outcome f
    by (cases outcome) (auto simp: tells_def run_combinators split: if_splits)
  then show ?thesis
    unfolding run_integrity_preflight_def
    by (rule tells_bnd [OF tells_observe]) (auto simp: preflight_passed_def)
qed

section \<open>The prepared command\<close>

text \<open>
  What precedes the admission of a command: a clean checkout at the target, the preflight of a
  command that only differs in its last argument, the clean contract, and again the clean checkout.
\<close>

definition prepared :: "VerifiedWorkGraphTarget \<Rightarrow> path \<Rightarrow> path \<Rightarrow> pystr \<Rightarrow> LocalCommandSpec \<Rightarrow> (event \<Rightarrow> bool) list" where
  "prepared target d contract tree preflight =
     clean_checkout d (tg_revision target) (tg_tree target) @ [preflight_passed preflight]
     @ clean_tree contract tree @ clean_checkout d (tg_revision target) (tg_tree target)"

lemma removal_tells: "keeps s (\<lambda>_ _. True) (remove_disposable_checkout p)"
  unfolding remove_disposable_checkout_def remove_entry_def Let_def
  by (intro keeps_intros anything.primitives(1,2) anything.deployment_keeps(4)) (simp_all add: change_path_def keeps_ask)

lemma clone_keeps: "keeps s (\<lambda>_ _. True) (clone_checkout a b)"
  unfolding clone_checkout_def by (intro keeps_intros anything.primitives anything.git_keeps)

lemma prepare_exact_tells:
  "tells (prepare_exact_checkout target source key) (\<lambda>d t. saw (clean_checkout d (tg_revision target) (tg_tree target)) t)"
proof -
  have last: "tells (sq (verify_clean_checkout d target) (ret d)) (\<lambda>y t. saw (clean_checkout y (tg_revision target) (tg_tree target)) t)" for d
    by (rule tells_sq [OF verify_clean_tells tells_silent(1)]) (auto intro: saw_earlier)
  show ?thesis
    unfolding prepare_exact_checkout_def
    by (intro tells_later last keeps_intros clone_keeps removal_tells) (auto intro: saw_later)
qed

lemma prepare_command_tells:
  "tells (prepare_command request target tree key) (\<lambda>(spec, hash) t. command_spec_hash spec = Inr hash \<and>
     (\<exists>d contract preflight. saw (prepared target d contract tree preflight) t
        \<and> command_for request target d tree False spec \<and> command_for request target d tree True preflight))"
proof -
  let ?C = "\<lambda>d. clean_checkout d (tg_revision target) (tg_tree target)"
  let ?hash = "\<lambda>spec. bnd (of_result (command_spec_hash spec)) (\<lambda>hash. ret (spec, hash))"
  let ?P = "\<lambda>spec p. fst p = spec \<and> command_spec_hash spec = Inr (snd p)"
  have 5: "tells (?hash spec) (\<lambda>p t. ?P spec p)" for spec
    by (rule tells_bnd [OF tells_silent(4) tells_silent(1)]) auto
  have 4: "tells (sq (verify_clean_checkout d target) (?hash spec)) (\<lambda>p t. ?P spec p \<and> saw (?C d) t)" for d spec
    by (rule tells_sq [OF verify_clean_tells 5]) (auto simp: saw_earlier)
  have g: "tells (sq (guard b e) (sq (verify_clean_checkout d target) (?hash spec))) (\<lambda>p t. b \<and> ?P spec p \<and> saw (?C d) t)" for b d spec e
    by (rule tells_sq [OF tells_silent(3) 4]) auto
  have 3: "tells (bnd contract_tree (\<lambda>again. sq (guard (again = tree) e) (sq (verify_clean_checkout d target) (?hash spec))))
      (\<lambda>p t. ?P spec p \<and> (\<exists>contract. saw (clean_tree contract tree @ ?C d) t))" for d spec e
    by (rule tells_bnd [OF contract_tree_tells g]) (auto intro: saw_append)
  have 2: "tells (sq (run_integrity_preflight pre) (bnd contract_tree (\<lambda>again. sq (guard (again = tree) e)
        (sq (verify_clean_checkout d target) (?hash spec)))))
      (\<lambda>p t. ?P spec p \<and> (\<exists>contract. saw ([preflight_passed pre] @ clean_tree contract tree @ ?C d) t))" for d spec pre e
    by (rule tells_sq [OF preflight_tells 3]) (use saw_append in fastforce)
  have 1: "tells (bnd (build_command_spec request target d tree True) (\<lambda>pre. sq (run_integrity_preflight pre)
        (bnd contract_tree (\<lambda>again. sq (guard (again = tree) e) (sq (verify_clean_checkout d target) (?hash spec))))))
      (\<lambda>p t. ?P spec p \<and> (\<exists>contract pre. command_for request target d tree True pre \<and>
        saw ([preflight_passed pre] @ clean_tree contract tree @ ?C d) t))" for d spec e
    by (rule tells_bnd [OF build_command_tells 2]) (auto intro: saw_later)
  have 0: "tells (bnd (build_command_spec request target d tree False) (\<lambda>spec. bnd (build_command_spec request target d tree True)
        (\<lambda>pre. sq (run_integrity_preflight pre)
        (bnd contract_tree (\<lambda>again. sq (guard (again = tree) e) (sq (verify_clean_checkout d target) (?hash spec)))))))
      (\<lambda>p t. command_spec_hash (fst p) = Inr (snd p) \<and> command_for request target d tree False (fst p)
        \<and> (\<exists>contract pre. command_for request target d tree True pre \<and>
        saw ([preflight_passed pre] @ clean_tree contract tree @ ?C d) t))" for d e
    by (rule tells_bnd [OF build_command_tells 1]) (auto intro: saw_later)
  show ?thesis
    unfolding prepare_command_def
  proof (rule tells_bnd [OF prepare_exact_tells 0], clarify)
    fix d p t u contract pre and spec :: LocalCommandSpec and hash :: pystr
    assume "saw (?C d) t" "saw ([preflight_passed pre] @ clean_tree contract tree @ ?C d) u"
      "command_spec_hash (fst (spec, hash)) = Inr (snd (spec, hash))"
      "command_for request target d tree False (fst (spec, hash))" "command_for request target d tree True pre"
    then show "command_spec_hash spec = Inr hash \<and> (\<exists>d contract preflight. saw (prepared target d contract tree preflight) (t @ u)
        \<and> command_for request target d tree False spec \<and> command_for request target d tree True preflight)"
      unfolding prepared_def by (auto dest: saw_append)
  qed
qed

end
