(* ===== verification/Workgraph_Runs.thy ===== *)
theory Workgraph_Runs
  imports Workgraph_Evidence
begin

text \<open>
  Whole runs of the client: a launch is preceded by the confirmation of the target, the clean
  contract, the preflight and the clean checkout; a published status and a returned result are the
  durable terminal launch of the key.
\<close>

section \<open>Launches\<close>

lemma execute_launches:
  assumes "execute_local_command key scope generation spec n = (r, n')"
  shows "rn_launched n' = rn_launched n \<or> (\<exists>h out. command_spec_hash spec = Inr h \<and> rn_launched n' = rn_launched n @
    [\<lparr>ev_key = key, ev_hash = h, ev_call = launcher_call spec, ev_outcome = out\<rparr>])"
proof -
  have store: "rn_launched d = rn_launched c" if "in_store m c = (v, d)" for m :: "(store, 'b) prog" and c d v
    using that by (auto simp: in_store_def split: prod.splits)
  have launched: "rn_launched d = rn_launched c @ [\<lparr>ev_key = key, ev_hash = h, ev_call = launcher_call spec, ev_outcome = next_outcome c\<rparr>]"
    if "launch key h spec c = (v, d)" for h c d v
    using that by (auto simp: launch_def Let_def split: launch_outcome.splits)
  show ?thesis
    using assms
    by (auto simp: execute_local_command_def run_bnd run_sq run_simps split: prod.splits sum.splits option.splits
        dest!: store launched)
qed

text \<open>What the calls \<open>u\<close> before a launch \<open>ev\<close> for a request have established.\<close>

definition authorized :: "WorkGraphRequest \<Rightarrow> event list \<Rightarrow> launch_event \<Rightarrow> bool" where
  "authorized request u ev \<longleftrightarrow> (\<forall>other. Spawned other \<notin> set u) \<and>
     (\<exists>token target place tree d place' preflight spec key.
        saw (confirmed token target @ clean_tree place tree @ prepared target d place' tree preflight) u
      \<and> fixed_target target \<and> tg_revision target = rq_revision request \<and> client_execution_key target tree = Inr key
      \<and> command_for request target d tree False spec \<and> command_for request target d tree True preflight
      \<and> ev_key ev = PyStr key \<and> command_spec_hash spec = Inr (ev_hash ev) \<and> ev_call ev = launcher_call spec)"

definition launch_ok :: "nat \<Rightarrow> WorkGraphRequest \<Rightarrow> event list \<Rightarrow> event \<Rightarrow> bool" where
  "launch_ok n request h e \<longleftrightarrow> (\<forall>ev. e = Spawned ev \<longrightarrow> authorized request (drop n h) ev)"

definition no_launch :: "event list \<Rightarrow> event \<Rightarrow> bool" where
  "no_launch h e \<longleftrightarrow> (\<forall>ev. e \<noteq> Spawned ev)"

interpretation no_launches: call_history s no_launch for s
  by unfold_locales (auto simp: no_launch_def)

lemma no_launch_ok: "no_launch h e \<Longrightarrow> launch_ok n request h e"
  by (simp add: no_launch_def launch_ok_def)

lemma adds_mono: "adds J c c' \<Longrightarrow> (\<And>h e. J h e \<Longrightarrow> K h e) \<Longrightarrow> adds K c c'"
  by (auto simp: adds_def)

lemma adds_quiet:
  assumes "bnd m f c = (r, c')" "began s c" "keeps s J m" "\<And>h e. J h e \<Longrightarrow> K h e"
    "\<And>x c1. m c = (Inr x, c1) \<Longrightarrow> began s c1 \<Longrightarrow> adds J c c1 \<Longrightarrow> f x c1 = (r, c') \<Longrightarrow> adds K c1 c'"
  shows "adds K c c'"
proof -
  have "keeps s K m" 
  proof (rule keepsI)
    fix c r c' assume "began s c" "m c = (r, c')"
    from keepsD [OF assms(3) this] show "adds K c c'" using assms(4) by (rule adds_mono)
  qed
  from assms(1,2) this show ?thesis
  proof (rule adds_bnd)
    fix x c1 assume "m c = (Inr x, c1)" "f x c1 = (r, c')" "began s c1"
    with assms(5) keepsD [OF assms(3,2)] show "adds K c1 c'" by blast
  qed
qed

text \<open>The calls from the \<open>n\<close>th on grow by what a program tells.\<close>

lemma tells_since:
  assumes "tells m P" "m c = (Inr x, c')" "began (n, out) c"
  shows "\<exists>t. drop n (events c') = drop n (events c) @ t \<and> P x t"
  using tellsD [OF assms(1,2)] assms(3) by (auto simp: began_def)

lemma no_launch_since:
  assumes "adds no_launch c c'" "began (n, out) c" "\<forall>ev. Spawned ev \<notin> set (drop n (events c))"
  shows "\<forall>ev. Spawned ev \<notin> set (drop n (events c'))"
proof -
  obtain t where t: "events c' = events c @ t" "\<And>u e v. t = u @ e # v \<Longrightarrow> no_launch (events c @ u) e"
    using assms(1) by (auto simp: adds_def)
  have "Spawned ev \<notin> set t" for ev
    using t(2) by (metis in_set_conv_decomp no_launch_def)
  with t(1) assms(2,3) show ?thesis by (auto simp: began_def)
qed

context call_history
begin

text \<open>Removals and publications of the client, for restrictions that do not concern them.\<close>

lemma remove_keeps:
  assumes "\<And>h kind p a. J h (Changed kind p a)"
  shows "keeps s J (remove_disposable_checkout p)"
proof -
  have "keeps s J (change_path kind p)" for kind p
    unfolding change_path_def by (rule keeps_ask) (rule assms)
  then show ?thesis
    unfolding remove_disposable_checkout_def remove_entry_def Let_def
    by (intro keeps_intros primitives(1,2) deployment_keeps(4))
qed

end

lemma launch_and_publish_adds:
  assumes run: "launch_and_publish publish_terminal_status request target token tree key exists c = (r, c')"
    and start: "began (n, out) c" and none: "\<forall>ev. Spawned ev \<notin> set (drop n (events c))"
    and before: "saw (confirmed token target @ clean_tree place tree) (drop n (events c))"
    and target: "fixed_target target" "tg_revision target = rq_revision request" "client_execution_key target tree = Inr key"
  shows "adds (launch_ok n request) c c'"
proof -
  have quiet: "keeps (n, out) no_launch (prepare_command request target tree key)"
    by (intro no_launches.prepare_keeps no_launches.remove_keeps) (simp add: no_launch_def)
  show ?thesis
  proof (rule adds_quiet [OF run [unfolded launch_and_publish_def] start quiet no_launch_ok], assumption, goal_cases)
    case (1 p c1)
    obtain spec hash where p: "p = (spec, hash)" by (cases p)
    from 1(1) p have "prepare_command request target tree key c = (Inr (spec, hash), c1)" by simp
    from tells_since [OF prepare_command_tells this start]
    obtain t d place' preflight where t: "drop n (events c1) = drop n (events c) @ t" "command_spec_hash spec = Inr hash"
        "saw (prepared target d place' tree preflight) t" "command_for request target d tree False spec"
        "command_for request target d tree True preflight"
      by auto
    note none1 = no_launch_since [OF 1(3) start none]
    from 1(4) p have run1: "bnd (admit_command key hash exists) (\<lambda>generation.
       bnd (in_runner (execute_local_command (PyStr key) (PyStr authority_scope) (PyInt generation) spec)) (\<lambda>execution.
       sq (publish_terminal_status target (res_exit execution) token)
       (ret \<lparr>cr_key = key, cr_hash = Some (res_hash execution), cr_exit = Some (res_exit execution),
          cr_state = Some (py (launch_state_value TERMINAL)), cr_published = True\<rparr>))) c1 = (r, c')"
      by simp
    show ?case
    proof (rule adds_quiet [OF run1 1(2) no_launches.admit_keeps no_launch_ok], assumption, goal_cases)
      case (1 generation c2)
      note none2 = no_launch_since [OF 1(3) \<open>began (n, out) c1\<close> none1]
      have "\<exists>u. drop n (events c2) = drop n (events c1) @ u"
        using 1(3) \<open>began (n, out) c1\<close> by (auto simp: adds_def began_def)
      then have seen: "saw (confirmed token target @ clean_tree place tree @ prepared target d place' tree preflight) (drop n (events c2))"
        using saw_append [OF before t(3)] t(1) saw_earlier [of _ "drop n (events c1)"] by fastforce
      have launch: "adds (launch_ok n request) c2 c3"
        if "in_runner (execute_local_command (PyStr key) (PyStr authority_scope) (PyInt generation) spec) c2 = (r3, c3)" for r3 c3
      proof -
        have new: "launch_ok n request (events c2) (Spawned \<lparr>ev_key = PyStr key, ev_hash = hash,
            ev_call = launcher_call spec, ev_outcome = out\<rparr>)" for out
          using seen none2 target t(2,4,5) unfolding launch_ok_def authorized_def by fastforce
        obtain r' n' where n': "execute_local_command (PyStr key) (PyStr authority_scope) (PyInt generation) spec (runner c2) = (r', n')"
          by (cases "execute_local_command (PyStr key) (PyStr authority_scope) (PyInt generation) spec (runner c2)")
        have c3: "c3 = c2\<lparr>runner := n', events := events c2 @ map Spawned (drop (length (rn_launched (runner c2))) (rn_launched n'))\<rparr>"
          using that n' by (simp add: in_runner_def)
        from execute_launches [OF n'] t(2) show ?thesis
        proof (elim disjE exE conjE)
          fix h out assume "command_spec_hash spec = Inr h" "rn_launched n' = rn_launched (runner c2) @
            [\<lparr>ev_key = PyStr key, ev_hash = h, ev_call = launcher_call spec, ev_outcome = out\<rparr>]"
          with c3 t(2) show ?thesis by (intro adds_one [where J = "launch_ok n request", OF _ _ new]) auto
        qed (simp add: c3 adds_refl)
      qed
      obtain r3 c3 where c3: "in_runner (execute_local_command (PyStr key) (PyStr authority_scope) (PyInt generation) spec) c2 = (r3, c3)"
        by (cases "in_runner (execute_local_command (PyStr key) (PyStr authority_scope) (PyInt generation) spec) c2")
      show ?case
      proof (cases r3)
        case (Inl e)
        with 1(4) c3 launch [OF c3] show ?thesis by (simp add: run_bnd)
      next
        case (Inr execution)
        let ?last = "sq (publish_terminal_status target (res_exit execution) token)
          (ret \<lparr>cr_key = key, cr_hash = Some (res_hash execution), cr_exit = Some (res_exit execution),
            cr_state = Some (py (launch_state_value TERMINAL)), cr_published = True\<rparr>)"
        have "keeps (n, out) no_launch ?last"
          by (intro keeps_intros no_launches.publish_keeps) (simp add: no_launch_def)
        moreover have "?last c3 = (r, c')" using 1(4) c3 Inr by (simp add: run_bnd)
        ultimately have "adds no_launch c3 c'"
          by (rule keepsD [OF _ began_adds [OF 1(2) launch [OF c3]]])
        then show ?thesis by (rule adds_trans [OF launch [OF c3] adds_mono [OF _ no_launch_ok]])
      qed
    qed
  qed
qed

lemma observe_prior_adds:
  "keeps s no_launch (observe_prior_launch publish_terminal_status target token key prior)"
  by (intro no_launches.observe_prior_keeps no_launches.publish_keeps) (simp add: no_launch_def)

lemma client_block_adds:
  assumes run: "client_block publish_terminal_status request target token tree key c = (r, c')"
    and start: "began (n, out) c" and none: "\<forall>ev. Spawned ev \<notin> set (drop n (events c))"
    and before: "saw (confirmed token target @ clean_tree place tree) (drop n (events c))"
    and target: "fixed_target target" "tg_revision target = rq_revision request" "client_execution_key target tree = Inr key"
  shows "adds (launch_ok n request) c c'"
proof -
  have quiet: "keeps (n, out) no_launch (on_store m)" "keeps (n, out) no_launch (if b then on_store m else ret x)"
    for m :: "(store, 'b) prog" and b x
    by (intro keeps_intros)+
  have more: "saw ps (drop n (events d'))" if "saw ps (drop n (events d))" "adds no_launch d d'" "began (n, out) d" for ps d d'
    using that by (auto simp: adds_def began_def saw_earlier)
  show ?thesis
  proof (rule adds_quiet [OF run [unfolded client_block_def] start quiet(1) no_launch_ok], assumption, goal_cases)
    case (1 exists c1)
    note first = no_launch_since [OF 1(3) start none] more [OF before 1(3) start]
    show ?case
    proof (rule adds_quiet [OF 1(4,2) quiet(2) no_launch_ok], assumption, goal_cases)
      case (1 prior c2)
      note second = no_launch_since [OF 1(3) \<open>began (n, out) c1\<close> first(1)] more [OF first(2) 1(3) \<open>began (n, out) c1\<close>]
      show ?case
      proof (cases prior)
        case None
        with 1(4) show ?thesis
          by (intro launch_and_publish_adds [OF _ 1(2) second target]) simp
      next
        case (Some l)
        with 1(4) show ?thesis
          by (intro adds_mono [OF keepsD [OF observe_prior_adds 1(2)] no_launch_ok]) simp_all
      qed
    qed
  qed
qed

lemma with_store_adds:
  assumes run: "with_store opening body c = (r, c')" and start: "began s c" and first: "keeps s J0 opening"
    and mono: "\<And>h e. J0 h e \<Longrightarrow> J h e"
    and body: "\<And>d r d'. body d = (r, d') \<Longrightarrow> adds J0 c d \<Longrightarrow> began s d \<Longrightarrow> adds J d d'"
  shows "adds J c c'"
proof (rule adds_quiet [OF run [unfolded with_store_def] start first mono], assumption, goal_cases)
  case (1 st c1)
  have enter: "adds J0 c1 d" if "enter_block st c1 = (v, d)" for v d
    using that by (auto simp: enter_block_def run_on_store adds_refl split: prod.splits)
  have leave: "adds J d d'" if "leave_block d = (v, d')" for v d d'
    using that by (auto simp: leave_block_def run_on_store adds_refl split: prod.splits)
  obtain v c2 where c2: "enter_block st c1 = (v, c2)" by (cases "enter_block st c1")
  note a2 = enter [OF c2]
  obtain r3 c3 where c3: "body c2 = (r3, c3)" by (cases "body c2")
  obtain r4 c4 where c4: "leave_block c3 = (r4, c4)" by (cases "leave_block c3")
  have "adds J c2 c3" by (rule body [OF c3 adds_trans [OF 1(3) a2] began_adds [OF 1(2) a2]])
  from adds_trans [OF adds_trans [OF adds_mono [OF a2 mono] this] leave [OF c4]] have "adds J c1 c4" .
  with 1(4) c2 c3 c4 adds_mono [OF a2 mono] show ?case
    by (auto simp: run_sq try_finally_def split: sum.splits)
qed

lemma run_launches:
  assumes "run_workgraph_client publish_terminal_status request c = (r, c')"
  shows "adds (launch_ok (length (events c)) request) c c'"
proof -
  let ?n = "length (events c)" and ?s = "(length (events c), outside c)"
  let ?J = "launch_ok ?n request"
  have n0: "\<forall>ev. Spawned ev \<notin> set (drop ?n (events c))" by simp
  note quiet = adds_quiet [where s = ?s and J = no_launch and K = ?J]
  from assms have run: "bnd windows_only (\<lambda>_. bnd require_token (\<lambda>token.
      bnd (verify_workgraph_target (PyStr (rq_revision request)) token) (\<lambda>target.
      bnd contract_tree (\<lambda>tree.
      bnd (of_result (client_execution_key target tree)) (\<lambda>key.
      with_store open_store (client_block publish_terminal_status request target token tree key)))))) c = (r, c')"
    by (simp add: run_workgraph_client_def sq_def)
  from run began_here show ?thesis
  proof (rule quiet [OF _ _ no_launches.deployment_keeps(7) no_launch_ok], goal_cases)
    case (2 u c1)
    note n1 = no_launch_since [OF 2(3) began_here n0]
    from 2(4,2) show ?case
    proof (rule quiet [OF _ _ no_launches.deployment_keeps(8) no_launch_ok], goal_cases)
      case (2 token c2)
      note n2 = no_launch_since [OF 2(3) \<open>began ?s c1\<close> n1]
      from 2(4,2) show ?case
      proof (rule quiet [OF _ _ no_launches.target_keeps no_launch_ok], goal_cases)
        case (2 target c3)
        note n3 = no_launch_since [OF 2(3) \<open>began ?s c2\<close> n2]
        from tells_since [OF verify_target_tells 2(1) \<open>began ?s c2\<close>]
        have seen3: "saw (confirmed token target) (drop ?n (events c3))" "fixed_target target" "tg_revision target = rq_revision request"
          by (auto intro: saw_later)
        from 2(4,2) show ?case
        proof (rule quiet [OF _ _ no_launches.contract_keeps(3) no_launch_ok], goal_cases)
          case (2 tree c4)
          note n4 = no_launch_since [OF 2(3) \<open>began ?s c3\<close> n3]
          from tells_since [OF contract_tree_tells 2(1) \<open>began ?s c3\<close>] seen3
          obtain place where seen4: "saw (confirmed token target @ clean_tree place tree) (drop ?n (events c4))"
            by (metis saw_append)
          show ?case
          proof (cases "client_execution_key target tree")
            case (Inr key)
            with 2(4) have "with_store open_store (client_block publish_terminal_status request target token tree key) c4 = (r, c')"
              by (simp add: run_bnd run_simps)
            from this 2(2) no_launches.deployment_keeps(10) no_launch_ok show ?thesis
            proof (rule with_store_adds, goal_cases)
              case (2 d r d')
              from 2(1,3) no_launch_since [OF 2(2) \<open>began ?s c4\<close> n4] show ?case
                by (rule client_block_adds [where place = place])
                  (use 2(2) seen3 seen4 Inr in \<open>auto simp: adds_def saw_earlier\<close>)
            qed
          qed (use 2(4) in \<open>simp add: run_bnd run_simps adds_refl\<close>)
        qed
      qed
    qed
  qed
qed

end
