(* ===== verification/Workgraph_Results.thy ===== *)
theory Workgraph_Results
  imports Workgraph_Runs Authority_Files
begin

text \<open>
  What a run of the client publishes and returns is what the authority store durably holds: a
  published status is the exit code of the terminal launch of the run's key, and a returned result
  is that launch.
\<close>

section \<open>Programs that leave the store alone\<close>

definition apart :: "(machine, 'a) prog \<Rightarrow> bool" where
  "apart m \<longleftrightarrow> (\<forall>c r c'. m c = (r, c') \<longrightarrow> host c' = host c \<and> runner c' = runner c)"

named_theorems apart_intros "programs that leave the store alone"

lemma apartD: "apart m \<Longrightarrow> m c = (r, c') \<Longrightarrow> host c' = host c \<and> runner c' = runner c"
  by (simp add: apart_def)

lemma apart_silent [apart_intros]:
  "apart (ret x)" "apart (raise e)" "apart (gets f)" "apart (of_result r)" "apart (guard b e)" "apart (known g)"
  "apart (observe answer record_as)" "apart (ask answer' record_as')"
  by (auto simp: apart_def run_combinators run_known run_ask observe_def Let_def)

lemma apart_bnd [apart_intros]:
  assumes "apart m" "\<And>x. apart (f x)"
  shows "apart (bnd m f)"
  unfolding apart_def
proof (intro allI impI)
  fix c r c' assume run: "bnd m f c = (r, c')"
  obtain r1 c1 where one: "m c = (r1, c1)" by (cases "m c")
  show "host c' = host c \<and> runner c' = runner c"
    using apartD [OF assms(1) one] apartD [OF assms(2)] run one by (cases r1) (auto simp: run_bnd)
qed

lemma apart_sq [apart_intros]: "apart m \<Longrightarrow> apart n \<Longrightarrow> apart (sq m n)"
  by (simp add: sq_def apart_bnd)

lemma apart_try_except [apart_intros]:
  assumes "apart m" "\<And>e. apart (f e)"
  shows "apart (try_except m f)"
  unfolding apart_def
proof (intro allI impI)
  fix c r c' assume run: "try_except m f c = (r, c')"
  obtain r1 c1 where one: "m c = (r1, c1)" by (cases "m c")
  show "host c' = host c \<and> runner c' = runner c"
    using apartD [OF assms(1) one] apartD [OF assms(2)] run one by (cases r1) (auto simp: run_try_except)
qed

lemma apart_cases [apart_intros]:
  "(b \<Longrightarrow> apart m) \<Longrightarrow> (\<not> b \<Longrightarrow> apart n) \<Longrightarrow> apart (if b then m else n)"
  "(z = None \<Longrightarrow> apart m) \<Longrightarrow> (\<And>y. z = Some y \<Longrightarrow> apart (f y)) \<Longrightarrow> apart (case z of None \<Rightarrow> m | Some y \<Rightarrow> f y)"
  "(\<And>a b. p = (a, b) \<Longrightarrow> apart (k a b)) \<Longrightarrow> apart (case p of (a, b) \<Rightarrow> k a b)"
  "(\<And>v. o' = Returned v \<Longrightarrow> apart (g v)) \<Longrightarrow> (\<And>e. o' = Raised e \<Longrightarrow> apart (h e)) \<Longrightarrow>
     apart (case o' of Returned v \<Rightarrow> g v | Raised e \<Rightarrow> h e)"
  by (auto split: option.splits prod.splits launch_outcome.splits)

lemmas outside_defs = resolve_def check_def change_path_def git_argv_def run_git_command_def git_output_def run_git_def
  committed_clean_tree_def contract_root_def contract_tree_def verify_clean_checkout_def github_json_def
  verify_workgraph_target_def known_local_app_data_def deployment_root_def authority_store_path_def checkout_root_def
  checkout_directory_def remove_entry_def remove_disposable_checkout_def clone_checkout_def prepare_exact_checkout_def
  current_python_executable_def command_environment_def build_command_spec_def run_integrity_preflight_def
  publish_terminal_status_def prepare_command_def Let_def

lemma apart_outside [apart_intros]:
  "apart (verify_workgraph_target revision token)" "apart (publish_terminal_status target code token)"
  "apart (prepare_command request target tree key)" "apart contract_tree" "apart windows_only" "apart require_token"
  unfolding outside_defs windows_only_def require_token_def by (intro apart_intros)+

section \<open>Publications\<close>

definition no_post :: "event list \<Rightarrow> event \<Rightarrow> bool" where
  "no_post h e \<longleftrightarrow> (\<forall>p token payload a. e \<noteq> Posted p token payload a)"

interpretation no_posts: call_history s no_post for s
  by unfold_locales (auto simp: no_post_def)

text \<open>A publication posts at most once, as its last call, and only after it has confirmed the target again.\<close>

definition posts :: "VerifiedWorkGraphTarget \<Rightarrow> int \<Rightarrow> pystr \<Rightarrow> nat \<Rightarrow> event list \<Rightarrow> event \<Rightarrow> bool" where
  "posts target code token n h e \<longleftrightarrow> (\<forall>p t payload a. e = Posted p t payload a \<longrightarrow>
     p = status_path target \<and> t = token \<and> payload = status_payload code \<and> saw (confirmed token target) (drop n h))"

lemma publish_adds:
  assumes "publish_terminal_status target code token c = (r, c')" "began (n, out) c"
  shows "adds (posts target code token n) c c'"
proof (rule adds_quiet [OF assms(1) [unfolded publish_terminal_status_def] assms(2) no_posts.target_keeps], goal_cases)
  case (1 h e)
  then show ?case by (simp add: no_post_def posts_def)
next
  case (2 again c1)
  from tells_since [OF verify_target_tells 2(1) assms(2)]
  have seen: "saw (confirmed token again) (drop n (events c1))" by (auto intro: saw_later)
  show ?case
  proof (cases "again = target")
    case True
    let ?post = "ask (\<lambda>out h. on_post out h (status_path target) token (status_payload code)) (Posted (status_path target) token (status_payload code))"
    obtain r2 c2 where post: "?post c1 = (r2, c2)" by (cases "?post c1")
    then have "c' = c2"
      using 2(4) True by (auto simp: run_try_except run_bnd run_guard run_simps split: sum.splits if_splits)
    with post seen True show ?thesis
      by (auto simp: run_ask posts_def intro!: adds_one)
  qed (use 2(4) in \<open>simp add: run_simps adds_refl\<close>)
qed

lemma publish_tells:
  "tells (publish_terminal_status target code token)
     (\<lambda>_ t. Posted (status_path target) token (status_payload code) (Inr 201) \<in> set t)"
  unfolding publish_terminal_status_def
  by (intro tells_later(1) [OF _ anything.target_keeps] tells_cases)
    (auto simp: tells_def run_bnd run_try_except run_ask run_guard run_simps split: prod.splits sum.splits if_splits)

section \<open>The durable launch\<close>

definition durable_launch :: "machine \<Rightarrow> pystr \<Rightarrow> ExecutionLaunch option" where
  "durable_launch c key = launches (abs_of (durable (rn_store (runner c)))) key"

definition posts_launch :: "VerifiedWorkGraphTarget \<Rightarrow> ExecutionLaunch option \<Rightarrow> pystr \<Rightarrow> nat \<Rightarrow> event list \<Rightarrow> event \<Rightarrow> bool" where
  "posts_launch target stored token n h e \<longleftrightarrow> (\<forall>p t payload a. e = Posted p t payload a \<longrightarrow>
     (\<exists>l code. stored = Some l \<and> lch_state l = TERMINAL \<and> lch_exit l = Some code \<and> posts target code token n h e))"

lemma no_post_launch: "no_post h e \<Longrightarrow> posts_launch target stored token n h e"
  by (simp add: no_post_def posts_launch_def)

definition result_of :: "pystr \<Rightarrow> ExecutionLaunch \<Rightarrow> WorkGraphClientResult" where
  "result_of key l = \<lparr>cr_key = key, cr_hash = Some (lch_hash l), cr_exit = (if lch_state l = TERMINAL then lch_exit l else None),
     cr_state = Some (py (launch_state_value (lch_state l))), cr_published = (lch_state l = TERMINAL)\<rparr>"

text \<open>What a part of a run has to do with the durable launch of its key at its end.\<close>

definition agrees :: "nat \<Rightarrow> VerifiedWorkGraphTarget \<Rightarrow> pystr \<Rightarrow> pystr \<Rightarrow> machine \<Rightarrow> exn + WorkGraphClientResult \<Rightarrow> machine \<Rightarrow> bool" where
  "agrees n target token key c r c' \<longleftrightarrow> adds (posts_launch target (durable_launch c' key) token n) c c' \<and>
     (\<forall>res. r = Inr res \<longrightarrow> (\<exists>l. durable_launch c' key = Some l \<and> res = result_of key l \<and>
        (\<forall>code. cr_published res \<longrightarrow> lch_exit l = Some code \<longrightarrow>
           Posted (status_path target) token (status_payload code) (Inr 201) \<in> set (drop n (events c')))))"

lemma agrees_quiet:
  assumes "adds no_post c c'" "isl r"
  shows "agrees n target token key c r c'"
  using assms(2) adds_mono [OF assms(1) no_post_launch] by (auto simp: agrees_def)

lemma agrees_later:
  assumes "adds no_post b c" "agrees n target token key c r c'"
  shows "agrees n target token key b r c'"
  using assms adds_trans [OF adds_mono [OF assms(1) no_post_launch]] by (auto simp: agrees_def)

lemma publish_agrees:
  assumes run: "sq (publish_terminal_status target code token) (ret (result_of key l)) c = (r, c')"
    and start: "began (n, out) c"
    and l: "durable_launch c key = Some l" "lch_state l = TERMINAL" "lch_exit l = Some code"
  shows "agrees n target token key c r c'"
proof -
  obtain r1 c1 where one: "publish_terminal_status target code token c = (r1, c1)"
    by (cases "publish_terminal_status target code token c")
  have c1: "c' = c1" using run one by (auto simp: run_sq run_simps split: sum.splits)
  have same: "durable_launch c' key = Some l" using apartD [OF apart_outside(2) one] l(1) c1 by (simp add: durable_launch_def)
  have new: "adds (posts_launch target (Some l) token n) c c'"
    using publish_adds [OF one start] l(2,3) c1 by (auto elim!: adds_mono simp: posts_launch_def)
  have "Posted (status_path target) token (status_payload code) (Inr 201) \<in> set (drop n (events c'))" if "r1 = Inr u" for u
    using tells_since [OF publish_tells one [unfolded that] start] c1 by auto
  then show ?thesis
    unfolding agrees_def same using new run one l c1 by (auto simp: run_sq run_simps split: sum.splits)
qed

section \<open>Store operations of a block\<close>

context durable_op
begin

lemma on_store_returns:
  assumes "on_store call c = (Inr x, c')" "idle (rn_store (runner c))"
  shows "idle (rn_store (runner c'))" "events c' = events c" "outside c' = outside c"
    "spec (abs_of (durable (rn_store (runner c)))) = (Inr x, abs_of (durable (rn_store (runner c'))))"
proof -
  obtain s where s: "call (rn_store (runner c)) = (Inr x, s)" "c' = c\<lparr>runner := (runner c)\<lparr>rn_store := s\<rparr>\<rparr>"
    using assms(1) by (auto simp: run_on_store split: prod.splits)
  show "idle (rn_store (runner c'))" "events c' = events c" "outside c' = outside c"
    "spec (abs_of (durable (rn_store (runner c)))) = (Inr x, abs_of (durable (rn_store (runner c'))))"
    using returns [OF assms(2) s(1)] by (simp_all add: s(2))
qed

end

lemma read_launch_Inr:
  "s_read_execution_launch (PyStr k) a = (Inr l, a') \<Longrightarrow> a' = a \<and> l = launches a k"
  by (auto simp: s_read_execution_launch_def a_read_launch_def a_registered_def a_param_def validate_execution_key_def
      run_combinators split: if_splits)

lemma exists_Inr: "s_execution_key_exists (PyStr k) a = (Inr b, a') \<Longrightarrow> a' = a"
  by (auto simp: s_execution_key_exists_def a_exists_def a_param_def validate_execution_key_def run_combinators split: if_splits)

lemma admit_command_idle:
  assumes "admit_command key hash exists c = (Inr generation, c')" "idle (rn_store (runner c))"
  shows "idle (rn_store (runner c'))"
proof -
  obtain u c1 v c2 g c3 a c4 w where
    1: "(if \<not> exists then sq (on_store (register_execution_key (PyStr key))) (ret ()) else ret ()) c = (Inr u, c1)"
    and 2: "on_store (bind_command_spec_hash (PyStr key) (PyStr hash)) c1 = (Inr v, c2)"
    and 3: "on_store (read_generation (PyStr authority_scope)) c2 = (Inr (Some g), c3)"
    and 4: "on_store (read_execution_admission (PyStr key)) c3 = (Inr a, c4)"
    and 5: "(case a of None \<Rightarrow> sq (on_store (admit_execution (PyStr key) (PyStr authority_scope) (PyInt g))) (ret ())
       | Some b \<Rightarrow> guard (adm_generation b = g) (WorkGraphClientError ''existing WorkGraph admission is not in the current generation'')) c4 = (Inr w, c')"
    using assms(1) unfolding admit_command_def sq_Inr bnd_Inr
    by (fastforce simp: run_simps bnd_Inr sq_Inr split: option.splits)
  have "idle (rn_store (runner c1))"
    using 1 assms(2) register.on_store_returns(1) by (auto simp: sq_Inr run_simps split: if_splits)
  from bind_op.on_store_returns(1) [OF 2 this] have "idle (rn_store (runner c2))" .
  from read_gen.on_store_returns(1) [OF 3 this] have "idle (rn_store (runner c3))" .
  from read_adm.on_store_returns(1) [OF 4 this] have "idle (rn_store (runner c4))" .
  with 5 admit.on_store_returns(1) show ?thesis by (auto simp: sq_Inr run_simps guard_Inr split: option.splits)
qed

section \<open>The block and the run\<close>

lemma bnd_agrees:
  assumes "bnd m f c = (r, c')" "began s c" "keeps s no_post m"
    "\<And>x c1. m c = (Inr x, c1) \<Longrightarrow> began s c1 \<Longrightarrow> f x c1 = (r, c') \<Longrightarrow> agrees n target token key c1 r c'"
  shows "agrees n target token key c r c'"
proof -
  obtain r1 c1 where m: "m c = (r1, c1)" by (cases "m c")
  note one = keepsD [OF assms(3,2) m]
  show ?thesis
  proof (cases r1)
    case (Inl e)
    with assms(1) m one show ?thesis by (auto simp: run_bnd intro: agrees_quiet)
  next
    case (Inr x)
    with assms(1) m have "f x c1 = (r, c')" by (simp add: run_bnd)
    from agrees_later [OF one assms(4) [OF m [unfolded Inr] began_adds [OF assms(2) one] this]] show ?thesis .
  qed
qed

lemma no_post_remove: "keeps s no_post (remove_disposable_checkout p)"
  by (rule no_posts.remove_keeps) (simp add: no_post_def)

lemma launch_and_publish_agrees:
  assumes run: "launch_and_publish publish_terminal_status request target token tree key exists c = (r, c')"
    and start: "began (n, out) c" and idle: "idle (rn_store (runner c))"
  shows "agrees n target token key c r c'"
proof (rule bnd_agrees [OF run [unfolded launch_and_publish_def] start no_posts.prepare_keeps(2) [OF no_post_remove]], goal_cases)
  case (1 p c1)
  obtain spec hash where p: "p = (spec, hash)" by (cases p)
  have idle1: "idle (rn_store (runner c1))" using apartD [OF apart_outside(3) 1(1)] idle by simp
  from 1(3) p have "bnd (admit_command key hash exists) (\<lambda>generation.
     bnd (in_runner (execute_local_command (PyStr key) (PyStr authority_scope) (PyInt generation) spec)) (\<lambda>execution.
     sq (publish_terminal_status target (res_exit execution) token)
     (ret \<lparr>cr_key = key, cr_hash = Some (res_hash execution), cr_exit = Some (res_exit execution),
        cr_state = Some (py (launch_state_value TERMINAL)), cr_published = True\<rparr>))) c1 = (r, c')"
    by simp
  from this 1(2) no_posts.admit_keeps show ?case
  proof (rule bnd_agrees, goal_cases)
    case (1 generation c2)
    note idle2 = admit_command_idle [OF 1(1) idle1]
    have "keeps (n, out) no_post (in_runner m)" for m :: "(runner, LocalExecutionResult) prog"
      by (rule keeps_in_runner) (simp add: no_post_def)
    from 1(3,2) this show ?case
    proof (rule bnd_agrees, goal_cases)
      case (1 execution c3)
      obtain n' where n': "execute_local_command (PyStr key) (PyStr authority_scope) (PyInt generation) spec (runner c2) = (Inr execution, n')"
          "runner c3 = n'"
        using 1(1) by (auto simp: in_runner_def split: prod.splits)
      have "handle_ok (rn_store (runner c2))" using idle2 by (simp add: idle_def no_tx_def handle_ok_def)
      then have "\<exists>sc g. durable_launch c3 key = Some \<lparr>lch_key = key, lch_hash = res_hash execution, lch_scope = sc, lch_generation = g,
          lch_state = TERMINAL, lch_exit = Some (res_exit execution)\<rparr>" (is "\<exists>sc g. ?stored sc g")
      proof (rule execute_returned [OF _ n'(1)])
        fix k sc g h
        assume k: "PyStr key = PyStr k" and new: "abs_of (durable (rn_store n')) = (abs_of (durable (rn_store (runner c2))))\<lparr>launches :=
            (launches (abs_of (durable (rn_store (runner c2)))))(k \<mapsto> \<lparr>lch_key = k, lch_hash = h, lch_scope = sc,
              lch_generation = g, lch_state = TERMINAL, lch_exit = Some (res_exit execution)\<rparr>)\<rparr>"
          and res: "execution = \<lparr>res_key = PyStr key, res_hash = h, res_exit = res_exit execution\<rparr>"
        have "res_hash execution = h" by (subst res) simp
        then have "?stored sc g" using k by (simp add: durable_launch_def n'(2) new)
        then show ?thesis by blast
      qed
      then obtain sc g where l: "durable_launch c3 key = Some \<lparr>lch_key = key, lch_hash = res_hash execution, lch_scope = sc,
          lch_generation = g, lch_state = TERMINAL, lch_exit = Some (res_exit execution)\<rparr>" by blast
      from l have "result_of key (the (durable_launch c3 key)) = \<lparr>cr_key = key, cr_hash = Some (res_hash execution),
          cr_exit = Some (res_exit execution), cr_state = Some (py (launch_state_value TERMINAL)), cr_published = True\<rparr>"
        by (simp add: result_of_def)
      with 1(2,3) l show ?case by (intro publish_agrees [where l = "the (durable_launch c3 key)"]) simp_all
    qed
  qed
qed

lemma observe_prior_agrees:
  assumes run: "observe_prior_launch publish_terminal_status target token key prior c = (r, c')"
    and start: "began (n, out) c" and prior: "durable_launch c key = Some prior"
  shows "agrees n target token key c r c'"
proof (cases "lch_state prior = TERMINAL")
  case True
  show ?thesis
  proof (cases "lch_exit prior")
    case None
    with run True show ?thesis by (auto simp: observe_prior_launch_def run_simps intro!: agrees_quiet adds_refl)
  next
    case (Some code)
    with run True have "sq (publish_terminal_status target code token) (ret (result_of key prior)) c = (r, c')"
      by (simp add: observe_prior_launch_def result_of_def)
    from publish_agrees [OF this start prior True Some] show ?thesis .
  qed
next
  case False
  with run have "r = Inr (result_of key prior)" "c' = c"
    by (simp_all add: observe_prior_launch_def result_of_def run_simps)
  with prior False show ?thesis by (auto simp: agrees_def adds_refl result_of_def)
qed

lemma client_block_agrees:
  assumes run: "client_block publish_terminal_status request target token tree key c = (r, c')"
    and start: "began (n, out) c" and idle: "idle (rn_store (runner c))"
  shows "agrees n target token key c r c'"
proof -
  have quiet: "keeps (n, out) no_post (on_store m)" "keeps (n, out) no_post (if b then on_store m else ret x)"
    for m :: "(store, 'b) prog" and b x
    by (intro keeps_intros)+
  show ?thesis
  proof (rule bnd_agrees [OF run [unfolded client_block_def] start quiet(1)], goal_cases)
    case (1 exists c1)
    note idle1 = key_exists.on_store_returns(1) [OF 1(1) idle]
    show ?case
    proof (rule bnd_agrees [OF 1(3,2) quiet(2)], goal_cases)
      case (1 prior c2)
      show ?case
      proof (cases prior)
        case None
        have "idle (rn_store (runner c2))"
          using 1(1) idle1 read_launch.on_store_returns(1) by (auto simp: run_simps split: if_splits)
        with 1(2,3) None show ?thesis by (intro launch_and_publish_agrees) simp_all
      next
        case (Some l)
        then have "on_store (read_execution_launch (PyStr key)) c1 = (Inr (Some l), c2)"
          using 1(1) by (simp add: run_simps split: if_splits)
        from read_launch_Inr [OF read_launch.on_store_returns(4) [OF this idle1]]
        have "durable_launch c2 key = Some l" by (simp add: durable_launch_def)
        with 1(2,3) Some show ?thesis by (intro observe_prior_agrees) simp_all
      qed
    qed
  qed
qed

lemma block_edges:
  "enter_block st c = (v, d) \<Longrightarrow> v = Inr () \<and> rn_store (runner d) = st \<and> adds J c d"
  "leave_block c = (w, d) \<Longrightarrow> durable_launch d key = durable_launch c key \<and> adds J c d"
proof -
  show "enter_block st c = (v, d) \<Longrightarrow> v = Inr () \<and> rn_store (runner d) = st \<and> adds J c d"
    by (auto simp: enter_block_def run_on_store enter_store_def run_simps adds_refl)
  have close: "durable s' = durable s" if "close_store s = (w', s')" for s s' w'
    using that by (auto simp: close_store_def close_connection_def run_combinators take_fault_def end_tx_def
        split: list.splits fault.splits if_splits)
  show "leave_block c = (w, d) \<Longrightarrow> durable_launch d key = durable_launch c key \<and> adds J c d"
    by (auto simp: leave_block_def run_on_store exit_store_def durable_launch_def adds_refl split: prod.splits dest!: close)
qed

lemma with_store_agrees:
  assumes run: "with_store open_store (client_block publish_terminal_status request target token tree key) c = (r, c')"
    and start: "began (n, out) c"
  shows "agrees n target token key c r c'"
proof (rule bnd_agrees [OF run [unfolded with_store_def] start no_posts.deployment_keeps(10)], goal_cases)
  case (1 st c1)
  obtain path k where "in_host (open_existing (path_str path)) k = (Inr st, c1)"
    using 1(1) unfolding open_store_def bnd_Inr sq_Inr by blast
  then obtain h' where "open_existing (path_str path) (host k) = (Inr st, h')"
    by (auto simp: in_host_def split: prod.splits)
  then have "idle st" by (rule opened_idle)
  obtain v c2 where c2: "enter_block st c1 = (v, c2)" by (cases "enter_block st c1")
  note e = block_edges(1) [OF c2, of no_post]
  let ?block = "client_block publish_terminal_status request target token tree key"
  obtain r3 c3 where c3: "?block c2 = (r3, c3)" by (cases "?block c2")
  obtain w c4 where c4: "leave_block c3 = (w, c4)" by (cases "leave_block c3")
  have agrees: "agrees n target token key c1 r3 c3"
    using client_block_agrees [OF c3 began_adds [OF 1(2)]] e \<open>idle st\<close> by (blast intro: agrees_later)
  have c': "c' = c4" "r = r3 \<or> isl r"
    using 1(3) c2 c3 c4 e by (auto simp: run_sq try_finally_def split: sum.splits)
  note l = block_edges(2) [OF c4, where key = key]
  have "adds (posts_launch target (durable_launch c4 key) token n) c1 c4"
    using agrees l [THEN conjunct1] l [THEN conjunct2] by (auto simp: agrees_def intro: adds_trans)
  moreover have "set (drop n (events c3)) \<subseteq> set (drop n (events c4))"
    using l [THEN conjunct2] by (rule since_adds [unfolded since_def])
  ultimately show ?case
    using agrees l [THEN conjunct1] c' by (auto simp: agrees_def subset_iff)
qed

text \<open>A run: without a key it posts nothing and raises; otherwise it agrees with the durable launch of its key.\<close>

lemma run_agrees:
  assumes "run_workgraph_client publish_terminal_status request c = (r, c')"
  shows "adds no_post c c' \<and> isl r \<or> (\<exists>target token tree key. fixed_target target \<and> tg_revision target = rq_revision request
     \<and> is_revision tree \<and> client_execution_key target tree = Inr key \<and> agrees (length (events c)) target token key c r c')"
proof -
  let ?goal = "\<lambda>n c. adds no_post c c' \<and> isl r \<or> (\<exists>target token tree key. fixed_target target \<and> tg_revision target = rq_revision request
     \<and> is_revision tree \<and> client_execution_key target tree = Inr key \<and> agrees n target token key c r c')"
  let ?n = "length (events c)" and ?s = "(length (events c), outside c)"
  have step: "?goal ?n d"
    if run: "bnd m f d = (r, c')" and d: "began ?s d" and m: "keeps ?s no_post m"
      and later: "\<And>x d1. m d = (Inr x, d1) \<Longrightarrow> began ?s d1 \<Longrightarrow> f x d1 = (r, c') \<Longrightarrow> ?goal ?n d1"
    for m :: "(machine, 'b) prog" and f d
  proof -
    obtain r1 d1 where m1: "m d = (r1, d1)" by (cases "m d")
    note one = keepsD [OF m d m1]
    show ?thesis
    proof (cases r1)
      case (Inl e)
      with run m1 one show ?thesis by (auto simp: run_bnd)
    next
      case (Inr x)
      with run m1 have "f x d1 = (r, c')" by (simp add: run_bnd)
      from later [OF m1 [unfolded Inr] began_adds [OF d one] this] show ?thesis
        using adds_trans [OF one] agrees_later [OF one] by blast
    qed
  qed
  from assms have run: "bnd windows_only (\<lambda>_. bnd require_token (\<lambda>token.
      bnd (verify_workgraph_target (PyStr (rq_revision request)) token) (\<lambda>target.
      bnd contract_tree (\<lambda>tree.
      bnd (of_result (client_execution_key target tree)) (\<lambda>key.
      with_store open_store (client_block publish_terminal_status request target token tree key)))))) c = (r, c')"
    by (simp add: run_workgraph_client_def sq_def)
  show ?thesis
  proof (rule step [OF run began_here no_posts.deployment_keeps(7)], rule step, assumption, assumption,
      rule no_posts.deployment_keeps(8), rule step, assumption, assumption, rule no_posts.target_keeps,
      rule step, assumption, assumption, rule no_posts.contract_keeps(3), rule step, assumption, assumption,
      rule keeps_silent(4), goal_cases)
    case (1 u c1 token c2 target c3 tree c4 key c5)
    from tellsD [OF verify_target_tells 1(7)] have "fixed_target target" "tg_revision target = rq_revision request" by auto
    moreover from tellsD [OF contract_tree_tells 1(10)] have "is_revision tree" by auto
    moreover have "client_execution_key target tree = Inr key" using 1(13) by (simp add: run_simps)
    moreover have "agrees ?n target token key c5 r c'" by (rule with_store_agrees [OF 1(15,14)])
    ultimately show ?case by blast
  qed
qed

end
