(* ===== verification/Workgraph_Completion.thy ===== *)
theory Workgraph_Completion
  imports Workgraph_Results
begin

text \<open>
  That a run of the client completes: if the outside cooperates and the store has no failures, a run
  for a new key registers, binds and admits it, launches its command once and publishes the exit
  code. \<open>gives out m v\<close>: on the outside \<open>out\<close>, \<open>m\<close> returns \<open>v\<close> and only adds calls.
\<close>

section \<open>Programs that succeed\<close>

definition gives :: "outside \<Rightarrow> (machine, 'a) prog \<Rightarrow> 'a \<Rightarrow> bool" where
  "gives out m v \<longleftrightarrow> (\<forall>c. outside c = out \<longrightarrow> (\<exists>t. m c = (Inr v, c\<lparr>events := events c @ t\<rparr>)))"

lemma givesI: "(\<And>c. outside c = out \<Longrightarrow> \<exists>t. m c = (Inr v, c\<lparr>events := events c @ t\<rparr>)) \<Longrightarrow> gives out m v"
  by (simp add: gives_def)

lemma gives_silent:
  "gives out (ret x) x" "b \<Longrightarrow> gives out (guard b e) ()" "r = Inr x \<Longrightarrow> gives out (of_result r) x" "gives out (known f) (f out)"
  by (auto intro!: givesI exI [of _ "[]"] simp: run_combinators run_known)

lemma gives_ask: "(\<And>h. answer out h = Inr v) \<Longrightarrow> gives out (ask answer f) v"
  by (auto intro!: givesI simp: run_ask)

lemma gives_observe: "(\<And>h. answer out h = v) \<Longrightarrow> gives out (observe answer f) v"
  by (auto intro!: givesI simp: observe_def Let_def)

lemma gives_bnd:
  assumes "gives out m x" "gives out (f x) v"
  shows "gives out (bnd m f) v"
proof (rule givesI)
  fix c :: machine assume c: "outside c = out"
  obtain t where t: "m c = (Inr x, c\<lparr>events := events c @ t\<rparr>)" using assms(1) c by (auto simp: gives_def)
  obtain u where "f x (c\<lparr>events := events c @ t\<rparr>) = (Inr v, c\<lparr>events := events c @ t\<rparr>\<lparr>events := events (c\<lparr>events := events c @ t\<rparr>) @ u\<rparr>)"
    using assms(2) c by (auto simp: gives_def dest!: spec [of _ "c\<lparr>events := events c @ t\<rparr>"])
  with t show "\<exists>t. bnd m f c = (Inr v, c\<lparr>events := events c @ t\<rparr>)" by (auto simp: run_bnd)
qed

lemma gives_sq: "gives out m x \<Longrightarrow> gives out n v \<Longrightarrow> gives out (sq m n) v"
  by (simp add: sq_def gives_bnd)

lemma gives_try: "gives out m v \<Longrightarrow> gives out (try_except m h) v"
  unfolding gives_def run_try_except by fastforce

lemma gives_run:
  fixes c :: machine
  assumes "gives out m x" "outside c = out"
  shows "\<exists>t. bnd m f c = f x (c\<lparr>events := events c @ t\<rparr>)" "\<exists>t. sq m n c = n (c\<lparr>events := events c @ t\<rparr>)"
  using assms by (auto simp: gives_def run_bnd run_sq dest!: spec [of _ c])

section \<open>A cooperative outside\<close>

text \<open>\<open>git\<close> answers \<open>text\<close> to the arguments at \<open>d\<close>; the checkout directory of a key; the deployment.\<close>

definition git_answers :: "outside \<Rightarrow> path \<Rightarrow> pystr list \<Rightarrow> pystr \<Rightarrow> bool" where
  "git_answers out d arguments text \<longleftrightarrow> (\<exists>git raw. (\<forall>h. on_which out h = Some git) \<and> os_isabs out git \<and>
     (\<forall>h. on_git out h ([git, py ''-c'', py ''core.longpaths=true'', py ''-C'', path_str d] @ arguments) = Inr (0, raw))
     \<and> strip raw = text)"

definition deployed :: "outside \<Rightarrow> path \<Rightarrow> bool" where
  "deployed out d \<longleftrightarrow> (\<forall>h p. on_resolve out h p = Inr p) \<and> (\<forall>h p. on_change out h Mkdir p = Inr ())
     \<and> lower out (py ''authority.sqlite'') \<noteq> lower out (py ''checkouts'')
     \<and> (\<exists>app. (\<forall>h. on_app_data out h = (0, Some app)) \<and> app \<noteq> []
       \<and> d = path_join (path_join (parse_path out app) (py ''Umbilical'')) (py ''workgraph-first-client-v1''))"

definition checkout_at :: "outside \<Rightarrow> path \<Rightarrow> VerifiedWorkGraphTarget \<Rightarrow> bool" where
  "checkout_at out d target \<longleftrightarrow> git_answers out d head_arguments (tg_revision target)
     \<and> git_answers out d tree_arguments (tg_tree target) \<and> git_answers out d status_arguments []"

definition confirms :: "outside \<Rightarrow> pystr \<Rightarrow> VerifiedWorkGraphTarget \<Rightarrow> bool" where
  "confirms out token target \<longleftrightarrow> is_revision (tg_revision target) \<and> (\<exists>repository commit.
     (\<forall>h. on_get out h (py ''/repos/'' @ repository_name) token = Inr repository) \<and> check_repository repository = Inr ()
     \<and> (\<forall>h. on_get out h (py ''/repos/'' @ repository_name @ py ''/commits/'' @ tg_revision target) token = Inr commit)
     \<and> commit_target (tg_revision target) commit = Inr target)"

lemma git_gives:
  assumes "git_answers out d a text"
  shows "gives out (git_output d a) (Some text)" "gives out (run_git d a) text"
proof -
  obtain git raw where g: "\<And>h. on_which out h = Some git" "os_isabs out git" "strip raw = text"
    "\<And>h. on_git out h ([git, py ''-c'', py ''core.longpaths=true'', py ''-C'', path_str d] @ a) = Inr (0, raw)"
    using assms by (auto simp: git_answers_def)
  let ?line = "[git, py ''-c'', py ''core.longpaths=true'', py ''-C'', path_str d] @ a"
  have argv: "gives out (git_argv d a) (Some ?line)"
    unfolding git_argv_def
    by (rule gives_bnd, rule gives_observe, rule g(1), simp, rule gives_bnd, rule gives_silent(4)) (simp add: g(2) gives_silent(1))
  show *: "gives out (git_output d a) (Some text)"
    unfolding git_output_def run_git_command_def
    by (rule gives_bnd, rule argv, simp only: option.case, rule gives_try, rule gives_bnd, rule gives_ask, rule g(4))
      (use gives_silent(1) [of out "Some text"] g(3) in simp)
  show "gives out (run_git d a) text"
    unfolding run_git_def by (rule gives_bnd, rule *) (simp add: gives_silent(1))
qed

lemma resolve_gives: "deployed out d \<Longrightarrow> gives out (resolve p) p"
  unfolding resolve_def by (rule gives_ask) (simp add: deployed_def)

lemma mkdir_gives: "deployed out d \<Longrightarrow> gives out (change_path Mkdir p) ()"
  unfolding change_path_def by (rule gives_ask) (simp add: deployed_def)

lemma deployment_gives:
  assumes "deployed out d"
  shows "gives out deployment_root d" "gives out authority_store_path (path_join d (py ''authority.sqlite''))"
    "gives out checkout_root (path_join d (py ''checkouts''))"
    "gives out (assert_authority_store_outside_checkouts (path_join d (py ''authority.sqlite''))) ()"
proof -
  note res = resolve_gives [OF assms]
  obtain app where app: "\<And>h. on_app_data out h = (0, Some app)" "app \<noteq> []"
    "d = path_join (path_join (parse_path out app) (py ''Umbilical'')) (py ''workgraph-first-client-v1'')"
    using assms by (auto simp: deployed_def)
  have "gives out known_local_app_data (parse_path out app)"
    unfolding known_local_app_data_def
    by (rule gives_bnd, rule gives_observe, rule app(1), simp add: app(2), rule gives_bnd, rule gives_silent(4), rule res)
  from gives_bnd [OF this, of "\<lambda>p. resolve (path_join (path_join p (py ''Umbilical'')) (py ''workgraph-first-client-v1''))" d]
  show root: "gives out deployment_root d"
    by (simp add: deployment_root_def app(3) res)
  show "gives out authority_store_path (path_join d (py ''authority.sqlite''))"
    unfolding authority_store_path_def by (rule gives_bnd, rule root, rule gives_silent(1))
  show checkouts: "gives out checkout_root (path_join d (py ''checkouts''))"
    unfolding checkout_root_def by (rule gives_bnd, rule root, rule gives_silent(1))
  have "\<not> relative_to (lower out) (path_join d (py ''authority.sqlite'')) (path_join d (py ''checkouts''))"
    using assms by (auto simp: relative_to_def path_join_def deployed_def prefix_def)
  then have raises: "\<exists>t. bnd (resolve (path_join d (py ''authority.sqlite''))) (\<lambda>resolved. bnd (known lower) (\<lambda>low.
      if relative_to low resolved (path_join d (py ''checkouts'')) then ret True else raise ValueError)) c =
      (Inl ValueError, c\<lparr>events := events c @ t\<rparr>)" if "outside c = out" for c
    using gives_run(1) [OF res that, of "path_join d (py ''authority.sqlite'')" "\<lambda>resolved. bnd (known lower) (\<lambda>low.
      if relative_to low resolved (path_join d (py ''checkouts'')) then ret True else raise ValueError)"] that
    by (elim ex_forward) (simp add: bnd_known raise_def)
  have outside: "gives out (try_except (bnd (resolve (path_join d (py ''authority.sqlite''))) (\<lambda>resolved. bnd (known lower) (\<lambda>low.
      if relative_to low resolved (path_join d (py ''checkouts'')) then ret True else raise ValueError)))
      (\<lambda>e. if is_value_error e then ret False else raise e)) False"
    by (rule givesI) (use raises in \<open>fastforce simp: run_try_except run_simps\<close>)
  show "gives out (assert_authority_store_outside_checkouts (path_join d (py ''authority.sqlite''))) ()"
    unfolding assert_authority_store_outside_checkouts_def
    by (rule gives_bnd, rule checkouts, rule gives_bnd, rule res, rule gives_bnd, rule outside) (simp add: gives_silent(2))
qed

definition tree_at :: "outside \<Rightarrow> path \<Rightarrow> pystr \<Rightarrow> bool" where
  "tree_at out d tree \<longleftrightarrow> is_revision tree
     \<and> (\<exists>top head. git_answers out d [py ''rev-parse'', py ''--show-toplevel''] top \<and> same_path (lower out) (parse_path out top) d
          \<and> git_answers out d head_arguments head \<and> is_revision head)
     \<and> git_answers out d tree_arguments tree \<and> git_answers out d status_arguments []"

definition contract_at :: "outside \<Rightarrow> path \<Rightarrow> pystr \<Rightarrow> bool" where
  "contract_at out d tree \<longleftrightarrow> path_ancestor 2 (client_file out) = Inr d \<and> tree_at out d tree"

lemma committed_clean_gives:
  assumes res: "\<And>p. gives out (resolve p) p" and tree: "tree_at out d tree"
  shows "gives out (committed_clean_tree d) (Some tree)"
proof -
  obtain top head where g: "is_revision tree"
    "git_answers out d [py ''rev-parse'', py ''--show-toplevel''] top" "same_path (lower out) (parse_path out top) d"
    "git_answers out d head_arguments head" "is_revision head" "git_answers out d tree_arguments tree"
    "git_answers out d status_arguments []"
    using tree by (auto simp: tree_at_def)
  show ?thesis
    unfolding committed_clean_tree_def
    by (rule gives_bnd, rule git_gives(1) [OF g(2)], rule gives_bnd, rule git_gives(1) [OF g(4)],
        rule gives_bnd, rule git_gives(1) [OF g(6)], rule gives_bnd, rule git_gives(1) [OF g(7)], simp only: option.case,
        rule gives_bnd, rule gives_silent(4), rule gives_bnd, rule res, rule gives_bnd, rule res, rule gives_bnd, rule gives_silent(4))
      (simp add: g is_revision_opt_def gives_silent(1))
qed

lemma contract_gives:
  assumes "deployed out d'" "contract_at out d tree"
  shows "gives out contract_tree tree"
proof -
  note res = resolve_gives [OF assms(1)]
  have g: "path_ancestor 2 (client_file out) = Inr d" "tree_at out d tree" using assms(2) by (simp_all add: contract_at_def)
  have root: "gives out contract_root d"
    unfolding contract_root_def
    by (rule gives_bnd, rule gives_silent(4), rule gives_bnd, rule res, rule gives_silent(3)) (rule g(1))
  show ?thesis
    unfolding contract_tree_def
    by (rule gives_bnd, rule root, rule gives_bnd, rule committed_clean_gives [OF res g(2)]) (simp add: gives_silent(1))
qed

lemma target_gives:
  assumes "confirms out token target"
  shows "gives out (verify_workgraph_target (PyStr (tg_revision target)) token) target"
proof -
  have json: "gives out (github_json p token) v" if "\<And>h. on_get out h p token = Inr v" for p v
    unfolding github_json_def by (rule gives_try, rule gives_ask) (rule that)
  obtain repository commit where g: "is_revision (tg_revision target)" "check_repository repository = Inr ()"
    "\<And>h. on_get out h (py ''/repos/'' @ repository_name) token = Inr repository"
    "\<And>h. on_get out h (py ''/repos/'' @ repository_name @ py ''/commits/'' @ tg_revision target) token = Inr commit"
    "commit_target (tg_revision target) commit = Inr target"
    using assms by (auto simp: confirms_def)
  show ?thesis
    unfolding verify_workgraph_target_def using g(1)
    by (simp only: exact_str.simps option.case not_True_eq_False if_False)
      (rule gives_bnd, rule json, rule g(3), rule gives_sq, rule gives_silent(3), rule g(2), rule gives_bnd, rule json, rule g(4),
        rule gives_silent(3), rule g(5))
qed

end
