(* ===== verification/Workgraph_Liveness.thy ===== *)
theory Workgraph_Liveness
  imports Workgraph_Completion Authority_Fencing
begin

text \<open>
  The rest of a run that completes: the preparation of the checkout and the command on a cooperative outside, the
  admission of a new key in a store without failures, the execution, and the publication.
\<close>

section \<open>The checkout and the command\<close>

lemma git_line_gives:
  assumes "git_answers out d a text"
  shows "\<exists>line raw. gives out (git_argv d a) (Some line) \<and> gives out (run_git_command line) (0, raw)"
proof -
  obtain git raw where g: "\<And>h. on_which out h = Some git" "os_isabs out git"
    "\<And>h. on_git out h ([git, py ''-c'', py ''core.longpaths=true'', py ''-C'', path_str d] @ a) = Inr (0, raw)"
    using assms by (auto simp: git_answers_def)
  have "gives out (git_argv d a) (Some ([git, py ''-c'', py ''core.longpaths=true'', py ''-C'', path_str d] @ a))"
    unfolding git_argv_def
    by (rule gives_bnd, rule gives_observe, rule g(1), simp, rule gives_bnd, rule gives_silent(4)) (simp add: g(2) gives_silent(1))
  moreover have "gives out (run_git_command ([git, py ''-c'', py ''core.longpaths=true'', py ''-C'', path_str d] @ a)) (0, raw)"
    unfolding run_git_command_def by (rule gives_ask) (rule g(3))
  ultimately show ?thesis by blast
qed

text \<open>The checkout of an earlier run exists and is removed; then the source is cloned and checked out.\<close>

definition clone_arguments :: "path \<Rightarrow> path \<Rightarrow> pystr list" where
  "clone_arguments source checkout = [py ''clone'', py ''--no-hardlinks'', py ''--no-checkout'', py ''--'', path_str source, path_str checkout]"

definition checkout_ready :: "outside \<Rightarrow> path \<Rightarrow> path \<Rightarrow> VerifiedWorkGraphTarget \<Rightarrow> bool" where
  "checkout_ready out source checkout target \<longleftrightarrow>
     (\<forall>h. on_check out h Is_dir source = Inr True)
     \<and> git_answers out source [py ''rev-parse'', py ''--verify'', tg_revision target @ py ''^{commit}''] (tg_revision target)
     \<and> (\<forall>h. on_check out h Exists checkout = Inr True) \<and> (\<forall>h. on_check out h Is_symlink checkout = Inr False)
     \<and> (\<forall>h. on_check out h Is_dir checkout = Inr True) \<and> (\<forall>h. on_change out h Rmtree checkout = Inr ())
     \<and> (\<exists>text. git_answers out (path_parent source) (clone_arguments source checkout) text)
     \<and> (\<exists>text. git_answers out checkout [py ''remote'', py ''remove'', py ''origin''] text)
     \<and> (\<exists>text. git_answers out checkout [py ''checkout'', py ''--detach'', tg_revision target] text)
     \<and> checkout_at out checkout target"

definition checkout_of :: "path \<Rightarrow> pystr \<Rightarrow> path" where
  "checkout_of d key = path_join (path_join d (py ''checkouts'')) (take 32 (sha256_hex (utf8 key)))"

lemma verify_clean_gives:
  assumes "checkout_at out d target"
  shows "gives out (verify_clean_checkout d target) ()"
proof -
  note g = assms [unfolded checkout_at_def]
  show ?thesis
    unfolding verify_clean_checkout_def
    by (rule gives_bnd, rule git_gives(2), rule g [THEN conjunct1], rule gives_sq, rule gives_silent(2), simp,
        rule gives_bnd, rule git_gives(2), rule g [THEN conjunct2, THEN conjunct1], rule gives_sq, rule gives_silent(2), simp,
        rule gives_bnd, rule git_gives(2), rule g [THEN conjunct2, THEN conjunct2], rule gives_silent(2), simp)
qed

lemma prepare_exact_gives:
  assumes d: "deployed out d" and ready: "checkout_ready out source (checkout_of d key) target" and key: "encodable key"
  shows "gives out (prepare_exact_checkout target source key) (checkout_of d key)"
proof -
  let ?c = "checkout_of d key"
  note r = ready [unfolded checkout_ready_def]
  have parent: "path_parent ?c = path_join d (py ''checkouts'')" by (simp add: checkout_of_def)
  have root: "gives out checkout_root (path_join d (py ''checkouts''))" by (rule deployment_gives(3) [OF d])
  have check: "gives out (check kind p) v" if "\<And>h. on_check out h kind p = Inr v" for kind p v
    unfolding check_def by (rule gives_ask) (rule that)
  have entry: "gives out (remove_entry ?c) ()"
    unfolding remove_entry_def
    by (rule gives_bnd, rule check, use r in \<open>blast\<close>, simp, rule gives_bnd, rule check, use r in \<open>blast\<close>, simp,
        unfold change_path_def, rule gives_ask, use r in \<open>blast\<close>)
  have "gives out (remove_disposable_checkout ?c) ()"
    unfolding remove_disposable_checkout_def parent Let_def
    by (rule gives_bnd, rule resolve_gives [OF d], rule gives_bnd, rule gives_silent(4), simp add: same_path_def,
        rule gives_bnd, rule root, rule gives_bnd, rule resolve_gives [OF d], simp add: entry)
  then have remove: "gives out (if True then remove_disposable_checkout ?c else ret ()) ()" by simp
  have directory: "gives out (checkout_directory key) ?c"
    using key unfolding checkout_directory_def utf8_encode_utf8
    by simp (rule gives_bnd, rule root, simp add: checkout_of_def gives_silent(1))
  obtain said where "git_answers out (path_parent source) (clone_arguments source ?c) said" using r by blast
  from git_line_gives [OF this] obtain line raw where line: "gives out (git_argv (path_parent source) (clone_arguments source ?c)) (Some line)"
    "gives out (run_git_command line) (0, raw)" by blast
  have clone: "gives out (clone_checkout source ?c) ()"
    unfolding clone_checkout_def clone_arguments_def [symmetric]
    by (rule gives_bnd, rule line(1), simp, rule gives_bnd, rule line(2), simp add: gives_silent(2))
  obtain t1 t2 where t: "git_answers out ?c [py ''remote'', py ''remove'', py ''origin''] t1"
    "git_answers out ?c [py ''checkout'', py ''--detach'', tg_revision target] t2" using r by blast
  have rev: "git_answers out source [py ''rev-parse'', py ''--verify'', tg_revision target @ py ''^{commit}''] (tg_revision target)"
    and at: "checkout_at out ?c target" using r by blast+
  show ?thesis
    unfolding prepare_exact_checkout_def
    by (rule gives_bnd, rule check, use r in \<open>blast\<close>, rule gives_sq, rule gives_silent(2), rule TrueI,
        rule gives_bnd, rule git_gives(2) [OF rev], rule gives_sq, rule gives_silent(2), rule refl,
        rule gives_bnd, rule directory, rule gives_bnd, rule check, use r in \<open>blast\<close>, simp only: if_True, rule gives_bnd, rule gives_silent(1),
        rule gives_sq, rule remove, rule gives_sq, rule mkdir_gives [OF d], rule gives_sq, rule clone,
        rule gives_sq, rule git_gives(2) [OF t(1)], rule gives_sq, rule git_gives(2) [OF t(2)],
        rule gives_sq, rule verify_clean_gives [OF at], rule gives_silent(1))
qed

text \<open>The command, the preflight that answers 0, and their snapshots.\<close>

definition command_of :: "outside \<Rightarrow> path \<Rightarrow> path \<Rightarrow> WorkGraphRequest \<Rightarrow> VerifiedWorkGraphTarget \<Rightarrow> path \<Rightarrow> pystr \<Rightarrow> bool \<Rightarrow> pystr \<Rightarrow> pystr \<Rightarrow> exn + LocalCommandSpec" where
  "command_of out d script request target checkout tree only git system_root =
     (let python = parse_path out (python_executable out) in
      snapshot (os_isabs out) (PyStr (path_str python))
        (PyList (map PyStr (command_arguments python script checkout target tree only)))
        (PyStr (path_str checkout)) (environment_dict (parse_path out) python (path_join d (py ''temporary'')) git system_root)
        (PyInt (rq_timeout request)))"

definition command_ready :: "outside \<Rightarrow> path \<Rightarrow> WorkGraphRequest \<Rightarrow> VerifiedWorkGraphTarget \<Rightarrow> path \<Rightarrow> pystr \<Rightarrow> LocalCommandSpec \<Rightarrow> bool" where
  "command_ready out d request target checkout tree spec \<longleftrightarrow> (\<exists>script git system_root preflight.
     path_with_name (client_file out) (py ''umbilical_workgraph_validation.py'') = Inr script
     \<and> environ out ''SystemRoot'' = Some system_root \<and> system_root \<noteq> []
     \<and> (\<forall>h. on_which out h = Some git) \<and> os_isabs out git
     \<and> command_of out d script request target checkout tree False git system_root = Inr spec
     \<and> command_of out d script request target checkout tree True git system_root = Inr preflight
     \<and> (\<forall>h. on_preflight out h (launcher_call preflight) = Returned (PyInt 0)))"

lemma build_gives:
  assumes d: "deployed out d" and script: "path_with_name (client_file out) (py ''umbilical_workgraph_validation.py'') = Inr script"
    and root: "environ out ''SystemRoot'' = Some system_root" "system_root \<noteq> []"
    and git: "\<And>h. on_which out h = Some git" "os_isabs out git"
    and spec: "command_of out d script request target checkout tree only git system_root = Inr spec"
  shows "gives out (build_command_spec request target checkout tree only) spec"
proof -
  let ?a = "path_join d (py ''authority.sqlite'')" and ?python = "parse_path out (python_executable out)"
  have argv: "gives out (git_argv d [py ''--version'']) (Some ([git, py ''-c'', py ''core.longpaths=true'', py ''-C'', path_str d] @ [py ''--version'']))"
    unfolding git_argv_def
    by (rule gives_bnd, rule gives_observe, rule git(1), simp, rule gives_bnd, rule gives_silent(4)) (simp add: git(2) gives_silent(1))
  have env: "gives out (command_environment ?a ?python)
      (environment_dict (parse_path out) ?python (path_join d (py ''temporary'')) git system_root)"
    unfolding command_environment_def Let_def path_parent_join
    by (rule gives_bnd, rule gives_silent(4), unfold root(1), simp only: option.case root(2) if_False, rule gives_sq, rule mkdir_gives [OF d],
        rule gives_bnd, rule argv, simp only: option.case append_Cons list.sel(1), rule gives_bnd, rule gives_silent(4), rule gives_silent(1))
  have python: "gives out current_python_executable ?python"
    unfolding current_python_executable_def
    by (rule gives_bnd, rule gives_silent(4), rule gives_bnd, rule gives_silent(4), rule resolve_gives [OF d])
  show ?thesis
    unfolding build_command_spec_def
    by (rule gives_bnd, rule gives_silent(4), rule gives_bnd, rule gives_silent(3), rule script, rule gives_bnd, rule resolve_gives [OF d],
        rule gives_bnd, rule deployment_gives(2) [OF d], rule gives_bnd, rule python, rule gives_bnd, rule env,
        rule gives_bnd, rule gives_silent(4), rule gives_silent(3), rule spec [unfolded command_of_def Let_def])
qed

lemma prepare_gives:
  assumes d: "deployed out d" and source: "checkout_ready out (rq_source request) (checkout_of d key) target" and key: "encodable key"
    and contract: "contract_at out place tree" and command: "command_ready out d request target (checkout_of d key) tree spec"
    and hash: "command_spec_hash spec = Inr hash"
  shows "gives out (prepare_command request target tree key) (spec, hash)"
proof -
  let ?c = "checkout_of d key"
  obtain script git system_root preflight where c: "path_with_name (client_file out) (py ''umbilical_workgraph_validation.py'') = Inr script"
      "environ out ''SystemRoot'' = Some system_root" "system_root \<noteq> []" "\<And>h. on_which out h = Some git" "os_isabs out git"
      "command_of out d script request target ?c tree False git system_root = Inr spec"
      "command_of out d script request target ?c tree True git system_root = Inr preflight"
      "\<And>h. on_preflight out h (launcher_call preflight) = Returned (PyInt 0)"
    using command unfolding command_ready_def by blast
  have passes: "gives out (run_integrity_preflight preflight) ()"
    unfolding run_integrity_preflight_def by (rule gives_bnd, rule gives_observe, rule c(8)) (simp add: gives_silent(2))
  have at: "checkout_at out ?c target" using source by (simp add: checkout_ready_def)
  show ?thesis
    unfolding prepare_command_def
    by (rule gives_bnd, rule prepare_exact_gives [OF d source key], rule gives_bnd, rule build_gives [OF d c(1-5,6)],
        rule gives_bnd, rule build_gives [OF d c(1-5,7)], rule gives_sq, rule passes,
        rule gives_bnd, rule contract_gives [OF d contract], rule gives_sq, rule gives_silent(2), rule refl,
        rule gives_sq, rule verify_clean_gives [OF at], rule gives_bnd, rule gives_silent(3), rule hash, rule gives_silent(1))
qed

section \<open>The store of the block\<close>

text \<open>\<open>stored m a a' x\<close>: from a store without failures that holds \<open>a\<close>, \<open>m\<close> returns \<open>x\<close> and leaves one that holds \<open>a'\<close>.\<close>

definition holds :: "machine \<Rightarrow> machine \<Rightarrow> auth \<Rightarrow> bool" where
  "holds c0 c a \<longleftrightarrow> no_faults (rn_store (runner c)) \<and> abs_of (durable (rn_store (runner c))) = a \<and> outside c = outside c0
     \<and> rn_outcomes (runner c) = rn_outcomes (runner c0) \<and> (\<exists>t. events c = events c0 @ t)"

definition stored :: "machine \<Rightarrow> (machine, 'a) prog \<Rightarrow> auth \<Rightarrow> 'a \<Rightarrow> auth \<Rightarrow> bool" where
  "stored c0 m a x a' \<longleftrightarrow> (\<forall>c. holds c0 c a \<longrightarrow> (\<exists>c'. m c = (Inr x, c') \<and> holds c0 c' a'))"

lemma stored_bnd: "stored c0 m a x a' \<Longrightarrow> stored c0 (f x) a' y a'' \<Longrightarrow> stored c0 (bnd m f) a y a''"
  unfolding stored_def by (fastforce simp: run_bnd)

lemma stored_sq: "stored c0 m a x a' \<Longrightarrow> stored c0 n a' y a'' \<Longrightarrow> stored c0 (sq m n) a y a''"
  by (simp add: sq_def stored_bnd)

lemma stored_gives: "gives (outside c0) m x \<Longrightarrow> stored c0 m a x a"
  unfolding stored_def holds_def gives_def by fastforce

context exact_op
begin

lemma stored_call: "spec a = (Inr x, a') \<Longrightarrow> stored c0 (on_store call) a x a'"
  unfolding stored_def
proof (intro allI impI)
  fix c assume spec: "spec a = (Inr x, a')" and c: "holds c0 c a"
  then have "no_faults (rn_store (runner c))" "spec (abs_of (durable (rn_store (runner c)))) = (Inr x, a')" by (simp_all add: holds_def)
  then obtain s' where "call (rn_store (runner c)) = (Inr x, s')" "no_faults s'" "abs_of (durable s') = a'" by (rule succeeds)
  then show "\<exists>c'. on_store call c = (Inr x, c') \<and> holds c0 c' a'"
    using c by (simp add: run_on_store holds_def)
qed

end

lemma scope_encodable: "encodable authority_scope"
  by (simp add: authority_scope_def encodable_def is_scalar_def)

text \<open>What an interrupted run may have left for the key: at most its binding and its admission.\<close>

definition resumable :: "auth \<Rightarrow> pystr \<Rightarrow> pystr \<Rightarrow> int \<Rightarrow> bool" where
  "resumable a key hash g \<longleftrightarrow> generations a authority_scope = Some g \<and> launches a key = None
     \<and> (bindings a key = None \<or> bindings a key = Some hash) \<and> (admissions a key = None \<or> admissions a key = Some (authority_scope, g))"

definition admitted_state :: "auth \<Rightarrow> pystr \<Rightarrow> pystr \<Rightarrow> int \<Rightarrow> auth" where
  "admitted_state a key hash g = a\<lparr>registered := insert key (registered a), bindings := (bindings a)(key \<mapsto> hash),
     admissions := (admissions a)(key \<mapsto> (authority_scope, g))\<rparr>"

lemma admit_stored:
  assumes a: "resumable a key hash g" and key: "encodable key" "validate_execution_key (PyStr key) = Inr key"
    and hash: "validate_command_spec_hash (PyStr hash) = Inr hash" and g: "validate_controller_generation (PyInt g) = Inr g"
  shows "stored c0 (admit_command key hash (key \<in> registered a)) a g (admitted_state a key hash g)"
proof -
  have scope: "validate_scope (PyStr authority_scope) = Inr authority_scope"
    by (simp add: validate_scope_def authority_scope_def)
  let ?a1 = "a\<lparr>registered := insert key (registered a)\<rparr>"
  let ?a2 = "?a1\<lparr>bindings := (bindings a)(key \<mapsto> hash)\<rparr>"
  have bindings: "bindings a key \<noteq> None \<Longrightarrow> (bindings a)(key \<mapsto> hash) = bindings a"
    and admissions: "admissions a key \<noteq> None \<Longrightarrow> (admissions a)(key \<mapsto> (authority_scope, g)) = admissions a"
    using a by (auto simp: resumable_def fun_eq_iff)
  have register: "stored c0 (if \<not> key \<in> registered a then sq (on_store (register_execution_key (PyStr key))) (ret ()) else ret ()) a () ?a1"
  proof (cases "key \<in> registered a")
    case True
    then show ?thesis using stored_gives [OF gives_silent(1)] by (simp add: insert_absorb)
  next
    case False
    have "s_register_execution_key (PyStr key) a = (Inr KEY_NEW, ?a1)"
      using False key by (simp add: s_register_execution_key_def bnd_of_Inr a_register_def a_param_def run_combinators)
    from stored_sq [OF register.stored_call [OF this] stored_gives [OF gives_silent(1)]] False show ?thesis by simp
  qed
  have "\<exists>x. s_bind_command_spec_hash (PyStr key) (PyStr hash) ?a1 = (Inr x, ?a2)"
    using a key hash bindings
    by (auto simp: s_bind_command_spec_hash_def bnd_of_Inr a_bind_def a_registered_def a_param_def run_combinators resumable_def)
  then obtain x where bind: "stored c0 (on_store (bind_command_spec_hash (PyStr key) (PyStr hash))) ?a1 x ?a2"
    using bind_op.stored_call by blast
  have read: "stored c0 (on_store (read_generation (PyStr authority_scope))) ?a2 (Some g) ?a2"
    by (rule read_gen.stored_call)
      (use a scope in \<open>simp add: s_read_generation_def bnd_of_Inr a_read_generation_def a_param_def run_combinators scope_encodable resumable_def\<close>)
  let ?adm = "map_option (\<lambda>(scope, generation). \<lparr>adm_key = key, adm_scope = scope, adm_generation = generation\<rparr>) (admissions a key)"
  have read_adm: "stored c0 (on_store (read_execution_admission (PyStr key))) ?a2 ?adm ?a2"
    by (rule read_adm.stored_call)
      (use key in \<open>simp add: s_read_execution_admission_def bnd_of_Inr a_read_admission_def a_registered_def a_param_def run_combinators\<close>)
  have admit: "stored c0 (case ?adm of
         None \<Rightarrow> sq (on_store (admit_execution (PyStr key) (PyStr authority_scope) (PyInt g))) (ret ())
       | Some x \<Rightarrow> guard (adm_generation x = g) (WorkGraphClientError ''existing WorkGraph admission is not in the current generation'')) ?a2 ()
       (admitted_state a key hash g)"
  proof (cases "admissions a key")
    case None
    have "s_admit_execution (PyStr key) (PyStr authority_scope) (PyInt g) ?a2 = (Inr ADMITTED, admitted_state a key hash g)"
      using a key scope g None scope_encodable
      by (simp add: s_admit_execution_def bnd_of_Inr a_admit_def a_registered_def a_param_def run_combinators resumable_def admitted_state_def)
    from stored_sq [OF admit.stored_call [OF this] stored_gives [OF gives_silent(1)]] None show ?thesis by simp
  next
    case (Some y)
    then have "?a2 = admitted_state a key hash g" using admissions by (simp add: admitted_state_def)
    then show ?thesis using Some a stored_gives [OF gives_silent(2), of True] by (simp add: resumable_def)
  qed
  show ?thesis
    unfolding admit_command_def
    by (rule stored_sq [OF register], rule stored_sq [OF bind], rule stored_bnd [OF read], simp only: option.case,
        rule stored_bnd [OF read_adm], rule stored_sq [OF admit], rule stored_gives [OF gives_silent(1)])
qed

section \<open>The block and the run\<close>

text \<open>The result of a run that launched the command itself.\<close>

definition finished :: "pystr \<Rightarrow> pystr \<Rightarrow> int \<Rightarrow> WorkGraphClientResult" where
  "finished key hash code = \<lparr>cr_key = key, cr_hash = Some hash, cr_exit = Some code,
     cr_state = Some (py (launch_state_value TERMINAL)), cr_published = True\<rparr>"

definition publishes :: "outside \<Rightarrow> pystr \<Rightarrow> VerifiedWorkGraphTarget \<Rightarrow> bool" where
  "publishes out token target \<longleftrightarrow> confirms out token target \<and> (\<forall>h data. on_post out h (status_path target) token data = Inr 201)"

lemma publish_gives:
  assumes "publishes out token target"
  shows "gives out (publish_terminal_status target code token) ()"
  unfolding publish_terminal_status_def
  by (rule gives_bnd, rule target_gives, use assms in \<open>simp add: publishes_def\<close>, simp only: not_True_eq_False simp_thms if_False,
      rule gives_try, rule gives_bnd, rule gives_ask, use assms in \<open>simp add: publishes_def\<close>, rule gives_silent(2), rule refl)

lemma client_key_usable:
  assumes "client_execution_key target tree = Inr key"
  shows "key \<noteq> []" "encodable key" "validate_execution_key (PyStr key) = Inr key"
proof -
  show "key \<noteq> []" "encodable key"
    using assms by (auto simp: client_execution_key_def and_then_Inr dest: derived_key_usable simp del: py_Cons)
  then show "validate_execution_key (PyStr key) = Inr key" by (simp add: validate_execution_key_def)
qed

text \<open>
  How a run that ends with its own launch changes the machine: the command was started, its status posted and
  accepted after that, and the durable launch of the key has the exit code.
\<close>

definition own_launch :: "pystr \<Rightarrow> pystr \<Rightarrow> LocalCommandSpec \<Rightarrow> int \<Rightarrow> launch_event" where
  "own_launch key hash spec code = \<lparr>ev_key = PyStr key, ev_hash = hash, ev_call = launcher_call spec, ev_outcome = Returned (PyInt code)\<rparr>"

definition own_row :: "pystr \<Rightarrow> pystr \<Rightarrow> int \<Rightarrow> int \<Rightarrow> ExecutionLaunch" where
  "own_row key hash g code = \<lparr>lch_key = key, lch_hash = hash, lch_scope = authority_scope, lch_generation = g,
     lch_state = TERMINAL, lch_exit = Some code\<rparr>"

definition done_by :: "pystr \<Rightarrow> pystr \<Rightarrow> LocalCommandSpec \<Rightarrow> int \<Rightarrow> int \<Rightarrow> VerifiedWorkGraphTarget \<Rightarrow> pystr \<Rightarrow> machine \<Rightarrow> machine \<Rightarrow> bool" where
  "done_by key hash spec g code target token c c' \<longleftrightarrow>
     (\<exists>u v. events c' = events c @ u @ Spawned (own_launch key hash spec code) # v
        \<and> Posted (status_path target) token (status_payload code) (Inr 201) \<in> set v)
     \<and> durable_launch c' key = Some (own_row key hash g code)"

lemma done_later:
  assumes "done_by key hash spec g code target token d c'" and d: "events d = events c @ t"
  shows "done_by key hash spec g code target token c c'"
proof -
  from assms(1) obtain u v where "events c' = events d @ u @ Spawned (own_launch key hash spec code) # v"
      "Posted (status_path target) token (status_payload code) (Inr 201) \<in> set v"
      "durable_launch c' key = Some (own_row key hash g code)"
    unfolding done_by_def by blast
  with d show ?thesis unfolding done_by_def by (intro conjI exI [of _ "t @ u"] exI [of _ v]) simp_all
qed

lemma done_still:
  assumes "done_by key hash spec g code target token c d" and "events c' = events d @ w" "runner c' = runner d"
  shows "done_by key hash spec g code target token c c'"
proof -
  from assms(1) obtain u v where "events d = events c @ u @ Spawned (own_launch key hash spec code) # v"
      "Posted (status_path target) token (status_payload code) (Inr 201) \<in> set v"
      "durable_launch d key = Some (own_row key hash g code)"
    unfolding done_by_def by blast
  with assms(2,3) show ?thesis
    unfolding done_by_def by (intro conjI exI [of _ u] exI [of _ "v @ w"]) (simp_all add: durable_launch_def)
qed

lemma block_completes:
  fixes c :: machine
  assumes c: "no_faults (rn_store (runner c))" "resumable (abs_of (durable (rn_store (runner c)))) key hash g"
      "next_outcome (runner c) = Returned (PyInt code)"
    and key: "client_execution_key target tree = Inr key" and hash: "command_spec_hash spec = Inr hash"
    and prepare: "gives (outside c) (prepare_command request target tree key) (spec, hash)"
    and publish: "publishes (outside c) token target" and code: "min_sqlite_integer \<le> code" "code \<le> max_sqlite_integer"
  obtains c' where "client_block publish_terminal_status request target token tree key c = (Inr (finished key hash code), c')"
    "no_faults (rn_store (runner c'))" "done_by key hash spec g code target token c c'"
proof -
  let ?a = "abs_of (durable (rn_store (runner c)))"
  have start: "holds c c ?a" using c by (simp add: holds_def)
  note usable = client_key_usable [OF key]
  have "authority_ok ?a" using c(1) valid_authority_ok by (simp add: no_faults_def)
  then have "0 < g" "g \<le> max_generation"
    using c(2) by (auto simp: resumable_def authority_ok_def)
  then have g: "validate_controller_generation (PyInt g) = Inr g" by (simp add: validate_controller_generation_def)
  have h: "validate_command_spec_hash (PyStr hash) = Inr hash"
    using hash_usable [OF hash] utf8_encode_None [of hash] by (auto simp: validate_command_spec_hash_def split: option.split)
  have exists: "stored c (on_store (execution_key_exists (PyStr key))) ?a (key \<in> registered ?a) ?a"
    by (rule key_exists.stored_call)
      (use usable in \<open>simp add: s_execution_key_exists_def bnd_of_Inr a_exists_def a_param_def run_combinators\<close>)
  have prior: "stored c (if key \<in> registered ?a then on_store (read_execution_launch (PyStr key)) else ret None) ?a None ?a"
  proof (cases "key \<in> registered ?a")
    case True
    then have "s_read_execution_launch (PyStr key) ?a = (Inr None, ?a)"
      using usable c(2) by (simp add: s_read_execution_launch_def bnd_of_Inr a_read_launch_def a_registered_def a_param_def run_combinators resumable_def)
    from read_launch.stored_call [OF this] True show ?thesis by simp
  qed (simp add: stored_gives gives_silent(1))
  let ?b = "admitted_state ?a key hash g"
  note admit = admit_stored [OF c(2) usable(2,3) h g, of c]
  have "stored c (bnd (on_store (execution_key_exists (PyStr key))) (\<lambda>exists.
     bnd (if exists then on_store (read_execution_launch (PyStr key)) else ret None) (\<lambda>prior. bnd (prepare_command request target tree key) (\<lambda>(spec, hash).
     bnd (admit_command key hash exists) (\<lambda>generation. ret (exists, prior, spec, hash, generation)))))) ?a (key \<in> registered ?a, None, spec, hash, g) ?b"
    by (rule stored_bnd [OF exists], rule stored_bnd [OF prior], rule stored_bnd [OF stored_gives [OF prepare]], simp only: prod.case,
        rule stored_bnd [OF admit], rule stored_gives [OF gives_silent(1)])
  then obtain c1 c2 c3 c4 where run: "on_store (execution_key_exists (PyStr key)) c = (Inr (key \<in> registered ?a), c1)"
      "(if key \<in> registered ?a then on_store (read_execution_launch (PyStr key)) else ret None) c1 = (Inr None, c2)"
      "prepare_command request target tree key c2 = (Inr (spec, hash), c3)"
      "admit_command key hash (key \<in> registered ?a) c3 = (Inr g, c4)" and c4: "holds c c4 ?b"
    using start unfolding stored_def by (fastforce simp: bnd_Inr run_simps)
  have runner: "no_faults (rn_store (runner c4))" "abs_of (durable (rn_store (runner c4))) = ?b" "outside c4 = outside c"
      "next_outcome (runner c4) = Returned (PyInt code)"
    using c4 c(3) by (auto simp: holds_def next_outcome_def)
  obtain before where before: "events c4 = events c @ before" using c4 by (auto simp: holds_def)
  have "admitted_for (abs_of (durable (rn_store (runner c4)))) key authority_scope g hash"
    using c(2) usable scope_encodable by (simp add: runner(2) admitted_for_def admitted_state_def resumable_def)
  from execute_succeeds [OF runner(1) hash _ this runner(4) code, of "PyStr authority_scope"] obtain n where
    n: "execute_local_command (PyStr key) (PyStr authority_scope) (PyInt g) spec (runner c4) =
      (Inr \<lparr>res_key = PyStr key, res_hash = hash, res_exit = code\<rparr>, n)" "no_faults (rn_store n)" by auto
  define c5 where "c5 = snd (in_runner (execute_local_command (PyStr key) (PyStr authority_scope) (PyInt g) spec) c4)"
  have five: "in_runner (execute_local_command (PyStr key) (PyStr authority_scope) (PyInt g) spec) c4 =
      (Inr \<lparr>res_key = PyStr key, res_hash = hash, res_exit = code\<rparr>, c5)" "runner c5 = n" "outside c5 = outside c"
    using n(1) runner(3) by (simp_all add: in_runner_def c5_def)
  have "handle_ok (rn_store (runner c4))" using runner(1) by (simp add: no_faults_def idle_def no_tx_def handle_ok_def)
  note effect = execute_returned [OF this n(1)]
  have row: "durable_launch c5 key = Some (own_row key hash g code)"
    by (rule effect) (auto simp: durable_launch_def five(2) own_row_def hash)
  have launched: "rn_launched n = rn_launched (runner c4) @ [own_launch key hash spec code]"
    by (rule effect) (auto simp: own_launch_def hash)
  have spawned: "events c5 = events c4 @ [Spawned (own_launch key hash spec code)]"
    using n(1) launched by (simp add: c5_def in_runner_def)
  obtain t where t: "publish_terminal_status target code token c5 = (Inr (), c5\<lparr>events := events c5 @ t\<rparr>)"
    using publish_gives [OF publish, of code] five(3) by (auto simp: gives_def)
  then have posted: "Posted (status_path target) token (status_payload code) (Inr 201) \<in> set t"
    using publish_tells [of target code token] by (fastforce simp: tells_def)
  show thesis
  proof (rule that [of "c5\<lparr>events := events c5 @ t\<rparr>"])
    show "done_by key hash spec g code target token c (c5\<lparr>events := events c5 @ t\<rparr>)"
      unfolding done_by_def
    proof (intro conjI exI)
      show "events (c5\<lparr>events := events c5 @ t\<rparr>) = events c @ before @ Spawned (own_launch key hash spec code) # t"
        by (simp add: spawned before)
    qed (use posted row in \<open>simp_all add: durable_launch_def\<close>)
  qed (use n(2) five(2) in \<open>simp_all add: client_block_def launch_and_publish_def run_bnd run_sq run five(1) t finished_def run_simps\<close>)
qed

lemma gives_at:
  fixes c :: machine
  shows "gives out m v \<Longrightarrow> outside c = out \<Longrightarrow> \<exists>t. m c = (Inr v, c\<lparr>events := events c @ t\<rparr>)"
  by (simp add: gives_def)

definition cooperates ::
  "outside \<Rightarrow> path \<Rightarrow> WorkGraphRequest \<Rightarrow> pystr \<Rightarrow> VerifiedWorkGraphTarget \<Rightarrow> pystr \<Rightarrow> pystr \<Rightarrow> LocalCommandSpec \<Rightarrow> bool" where
  "cooperates out d request token target tree key spec \<longleftrightarrow> deployed out d
     \<and> environ out ''GH_TOKEN'' = Some token \<and> token \<noteq> [] \<and> publishes out token target \<and> tg_revision target = rq_revision request
     \<and> (\<exists>place. contract_at out place tree) \<and> checkout_ready out (rq_source request) (checkout_of d key) target
     \<and> command_ready out d request target (checkout_of d key) tree spec"

definition store_file :: "host \<Rightarrow> path \<Rightarrow> pystr" where
  "store_file h d = os_abspath h (os_expanduser h (path_str (path_join d (py ''authority.sqlite''))))"

lemma open_store_completes:
  fixes c :: machine
  assumes h: "quiet_host (host c)" "on_disk (host c) (store_file (host c) d) = Some db" "store_valid db" and d: "deployed (outside c) d"
  obtains s c' where "open_store c = (Inr s, c')" "no_faults s" "abs_of (durable s) = abs_of db" "outside c' = outside c" "runner c' = runner c"
    "\<exists>t. events c' = events c @ t"
proof -
  let ?path = "path_join d (py ''authority.sqlite'')"
  obtain s h' where s: "open_existing (path_str ?path) (host c) = (Inr s, h')" "durable s = with_journal ''wal'' db" "idle s"
      "faults s = []" "busy s = busy (host c)"
    by (rule open_quiet [OF h(1,2,3), of "path_str ?path"]) (simp_all add: store_file_def)
  have "no_faults s" using s h by (simp add: no_faults_def quiet_host_def)
  obtain t where t: "authority_store_path c = (Inr ?path, c\<lparr>events := events c @ t\<rparr>)"
    using gives_at [OF deployment_gives(2) [OF d]] by blast
  obtain u where u: "assert_authority_store_outside_checkouts ?path (c\<lparr>events := events c @ t\<rparr>) =
      (Inr (), c\<lparr>events := events c @ t\<rparr>\<lparr>events := events (c\<lparr>events := events c @ t\<rparr>) @ u\<rparr>)"
    using gives_at [OF deployment_gives(4) [OF d], of "c\<lparr>events := events c @ t\<rparr>"] by auto
  have "open_store c = (Inr s, c\<lparr>events := events c @ t @ u, host := h'\<rparr>)"
    using s(1) by (simp add: open_store_def run_bnd run_sq t u in_host_def del: py_Cons)
  then show thesis
    by (rule that [OF _ \<open>no_faults s\<close>]) (simp_all add: s(2))
qed

lemma leave_completes:
  fixes c :: machine
  assumes "no_faults (rn_store (runner c))"
  shows "fst (leave_block c) = Inr ()"
  using assms
  by (auto simp: leave_block_def run_on_store exit_store_def close_store_def run_combinators close_connection_def take_fault_def
      no_faults_def split: prod.splits)

lemma run_completes:
  fixes c :: machine
  assumes h: "quiet_host (host c)" "on_disk (host c) (store_file (host c) d) = Some db" "store_valid db"
    and out: "cooperates (outside c) d request token target tree key spec" and key: "client_execution_key target tree = Inr key"
    and hash: "command_spec_hash spec = Inr hash" and db: "resumable (abs_of db) key hash g"
    and code: "next_outcome (runner c) = Returned (PyInt code)" "min_sqlite_integer \<le> code" "code \<le> max_sqlite_integer"
  obtains c' where "run_workgraph_client publish_terminal_status request c = (Inr (finished key hash code), c')"
    "done_by key hash spec g code target token c c'"
proof -
  note o = out [unfolded cooperates_def]
  obtain place where d: "deployed (outside c) d" and place: "contract_at (outside c) place tree" using o by blast
  note prepare = prepare_gives [OF d _ client_key_usable(2) [OF key] place _ hash, of request target]
  obtain u where u: "verify_workgraph_target (PyStr (rq_revision request)) token c = (Inr target, c\<lparr>events := events c @ u\<rparr>)"
    using target_gives [of "outside c" token target] o by (auto simp: gives_def publishes_def)
  let ?c1 = "c\<lparr>events := events c @ u\<rparr>"
  obtain v where v: "contract_tree ?c1 = (Inr tree, ?c1\<lparr>events := events ?c1 @ v\<rparr>)"
    using gives_at [OF contract_gives [OF d place], of ?c1] by auto
  let ?c2 = "?c1\<lparr>events := events ?c1 @ v\<rparr>"
  have "quiet_host (host ?c2)" "on_disk (host ?c2) (store_file (host ?c2) d) = Some db" "deployed (outside ?c2) d"
    using h d by simp_all
  then obtain s c3 where s: "open_store ?c2 = (Inr s, c3)" "no_faults s" "abs_of (durable s) = abs_of db" "outside c3 = outside c"
      "runner c3 = runner c" "\<exists>w. events c3 = events ?c2 @ w"
    using open_store_completes [OF _ _ h(3), of ?c2 d] by auto
  define c4 where "c4 = c3\<lparr>runner := (runner c3)\<lparr>rn_store := s\<rparr>\<rparr>"
  have enter: "enter_block s c3 = (Inr (), c4)"
    by (simp add: enter_block_def run_on_store enter_store_def run_simps c4_def)
  have block: "no_faults (rn_store (runner c4))" "resumable (abs_of (durable (rn_store (runner c4)))) key hash g"
      "next_outcome (runner c4) = Returned (PyInt code)" "gives (outside c4) (prepare_command request target tree key) (spec, hash)"
      "publishes (outside c4) token target"
    using s db code(1) o prepare by (simp_all add: c4_def next_outcome_def)
  obtain c5 where c5: "client_block publish_terminal_status request target token tree key c4 = (Inr (finished key hash code), c5)"
      "no_faults (rn_store (runner c5))" "done_by key hash spec g code target token c4 c5"
    by (rule block_completes [OF block(1-3) key hash block(4,5) code(2,3)])
  obtain c6 where c6: "leave_block c5 = (Inr (), c6)"
    using leave_completes [OF c5(2)] by (cases "leave_block c5") auto
  have "windows_only c = (Inr (), c)" using h(1) by (simp add: windows_only_def quiet_host_def run_combinators)
  moreover have "require_token c = (Inr token, c)" using o by (simp add: require_token_def run_bnd run_known run_simps)
  ultimately have "run_workgraph_client publish_terminal_status request c = (Inr (finished key hash code), c6)"
    by (simp add: run_workgraph_client_def with_store_def run_bnd run_sq u v key run_simps s(1) [simplified] enter try_finally_def c5(1) c6)
  moreover obtain w where w: "events c4 = events c @ u @ v @ w" using s(6) by (auto simp: c4_def)
  have "events c6 = events c5" "durable_launch c6 key = durable_launch c5 key"
    using c6 block_edges(2) [OF c6] by (auto simp: leave_block_def run_on_store split: prod.splits)
  then have "done_by key hash spec g code target token c c6"
    using done_later [OF c5(3) w] unfolding done_by_def by simp
  ultimately show thesis by (rule that)
qed

lemma main_completes:
  fixes c :: machine
  assumes h: "quiet_host (host c)" "on_disk (host c) (store_file (host c) d) = Some db" "store_valid db"
    and out: "cooperates (outside c) d request token target tree key spec" and key: "client_execution_key target tree = Inr key"
    and hash: "command_spec_hash spec = Inr hash" and db: "resumable (abs_of db) key hash g"
    and code: "next_outcome (runner c) = Returned (PyInt code)" "min_sqlite_integer \<le> code" "code \<le> max_sqlite_integer"
    and request: "make_request (PyStr revision) (parse_path (outside c) source) 1800 = Inr request"
  obtains c' where "client_main (Run revision source) c = (Inr (if code = 0 then 0 else 1), c')"
    "done_by key hash spec g code target token c c'"
proof -
  have "deployed (outside c) d" using out by (simp add: cooperates_def)
  from gives_at [OF resolve_gives [OF this] refl] obtain t where
    t: "resolve (parse_path (outside c) source) c = (Inr (parse_path (outside c) source), c\<lparr>events := events c @ t\<rparr>)" by blast
  let ?c1 = "c\<lparr>events := events c @ t\<rparr>"
  obtain c2 where c2: "run_workgraph_client publish_terminal_status request ?c1 = (Inr (finished key hash code), c2)"
      "done_by key hash spec g code target token ?c1 c2"
    by (rule run_completes [where c = ?c1 and d = d and db = db, OF _ _ h(3) _ key hash db _ code(2,3)])
      (use h out code(1) in simp_all)
  have "client_attempt (Run revision source) c = (Inr (Inr (finished key hash code)), c2)"
    by (simp add: client_attempt_def run_bnd run_known t request run_simps c2)
  moreover have "done_by key hash spec g code target token c (snd (print_line line c2))" for line
  proof -
    have "done_by key hash spec g code target token c c2" by (rule done_later [OF c2(2), of c t]) simp
    then show ?thesis by (rule done_still) (simp_all add: print_line_def observe_def)
  qed
  ultimately show thesis
    by (intro that [of "snd (print_line (client_result_line (finished key hash code)) c2)"])
      (simp_all add: client_main_def run_bnd run_try_except run_sq run_simps print_line_def observe_def finished_def)
qed

end
