(* ===== verification/Workgraph_Verdict.thy ===== *)
theory Workgraph_Verdict
  imports Workgraph_Evidence
begin

text \<open>
  What the exit code of the validation process says: 0 only after the integrity checks and, unless only
  they were asked for, after both stages passed in order; 2 if a check failed; otherwise the code of
  the first stage that failed, or 127 if it could not be started.
\<close>

definition stage_passed :: "path \<Rightarrow> pystr list \<Rightarrow> event \<Rightarrow> bool" where
  "stage_passed d command e \<longleftrightarrow> e = Ran_stage command d (Inr 0)"

definition stage_failed :: "path \<Rightarrow> int \<Rightarrow> event list \<Rightarrow> bool" where
  "stage_failed d code t \<longleftrightarrow> code \<noteq> 0 \<and> (\<exists>u command r. t = u @ [Ran_stage command d r]
     \<and> (case r of Inr i \<Rightarrow> code = i | Inl e \<Rightarrow> is_os_error e \<and> code = 127))"

lemma stage_failed_later: "stage_failed d code t \<Longrightarrow> stage_failed d code (u @ t)"
  unfolding stage_failed_def by (metis append_assoc)

lemma run_stage_tells:
  "tells (run_stage d command) (\<lambda>y t. case y of None \<Rightarrow> saw [stage_passed d command] t | Some code \<Rightarrow> stage_failed d code t)"
  by (auto simp: tells_def run_stage_def run_try_except run_bnd run_ask run_simps stage_passed_def stage_failed_def
      split: sum.splits if_splits)

lemma run_stages_tells:
  "tells (run_stages d commands) (\<lambda>code t. if code = 0 then saw (map (stage_passed d) commands) t else stage_failed d code t)"
proof (induction commands)
  case Nil
  show ?case by (auto simp: tells_def run_simps)
next
  case (Cons command commands)
  have go: "tells (case stop of Some code \<Rightarrow> ret code | None \<Rightarrow> run_stages d commands) (\<lambda>code t. case stop of
      None \<Rightarrow> if code = 0 then saw (map (stage_passed d) commands) t else stage_failed d code t
    | Some i \<Rightarrow> code = i \<and> t = [])" for stop
    using Cons by (cases stop) (auto simp: tells_def run_simps)
  show ?case
    unfolding run_stages.simps
    by (rule tells_bnd [OF run_stage_tells go])
      (use saw_append [of "[stage_passed d command]"] in \<open>auto simp: stage_failed_later stage_failed_def split: option.splits if_splits\<close>)
qed

lemma exact_and_clean_tells:
  "tells (checkout_is_exact_and_clean d revision tree) (\<lambda>b t. b \<longrightarrow> saw (clean_checkout d revision tree) t)"
proof -
  have status: "tells (bnd (git_output d status_arguments) (\<lambda>status. ret (status = Some [])))
      (\<lambda>b t. b \<longrightarrow> saw [git_said d status_arguments []] t)"
    by (rule tells_bnd [OF git_output_tells tells_silent(1)]) auto
  have step: "tells (bnd (git_output d a) (\<lambda>v. if v \<noteq> Some x then ret False else m)) (\<lambda>b t. b \<longrightarrow> saw (git_said d a x # ps) t)"
    if m: "tells m (\<lambda>b t. b \<longrightarrow> saw ps t)" for a x ps m
  proof (rule tells_bnd [OF git_output_tells])
    show "tells (if v \<noteq> Some x then ret False else m) (\<lambda>b t. b \<longrightarrow> v = Some x \<and> saw ps t)" for v
      using m by (cases "v = Some x") (auto simp: tells_def run_simps)
    show "\<forall>out. v = Some out \<longrightarrow> saw [git_said d a out] t \<Longrightarrow> b \<longrightarrow> v = Some x \<and> saw ps u \<Longrightarrow>
        b \<longrightarrow> saw (git_said d a x # ps) (t @ u)" for v b t u
      using saw_append [of "[git_said d a x]" t ps u] by auto
  qed
  show ?thesis
    unfolding checkout_is_exact_and_clean_def clean_checkout_def clean_tree_def by (intro step status)
qed

text \<open>What a verdict says of the calls \<open>t\<close>.\<close>

definition verdict :: "path \<Rightarrow> pystr \<Rightarrow> pystr \<Rightarrow> pystr \<Rightarrow> bool \<Rightarrow> int \<Rightarrow> event list \<Rightarrow> bool" where
  "verdict d revision tree contract only code t \<longleftrightarrow>
     (code = 0 \<and> (\<exists>place python. saw (clean_tree place contract @ clean_checkout d revision tree @
        (if only then [] else map (stage_passed d) (stages python))) t))
     \<or> code = 2 \<or> \<not> only \<and> stage_failed d code t"

lemma run_validation_tells:
  "tells (run_validation d revision tree contract only) (verdict d revision tree contract only)"
proof -
  let ?V = "verdict d revision tree contract only"
  have later: "?V code t \<Longrightarrow> ?V code (u @ t)" for code t u
    unfolding verdict_def using saw_later stage_failed_later by blast
  let ?stages = "bnd (known python_executable) (\<lambda>python. run_stages d (stages python))"
  let ?Q = "\<lambda>code t. if code = 0 then \<exists>python. saw (map (stage_passed d) (stages python)) t else stage_failed d code t"
  have stages: "tells ?stages ?Q"
    by (rule tells_bnd [OF tells_silent(5) run_stages_tells]) (auto split: if_splits)
  let ?last = "\<lambda>exact. if \<not> exact then ret 2 else if only then ret 0 else ?stages"
  have last: "tells (?last exact) (\<lambda>code t. if \<not> exact then code = 2 else if only then code = 0 else ?Q code t)" for exact
    using stages by (auto simp: tells_def run_simps)
  let ?R = "\<lambda>code t. (code = 0 \<and> (\<exists>python. saw (clean_checkout d revision tree @ (if only then [] else map (stage_passed d) (stages python))) t))
     \<or> code = 2 \<or> \<not> only \<and> stage_failed d code t"
  have exact: "tells (bnd (checkout_is_exact_and_clean d revision tree) ?last) ?R"
  proof (rule tells_bnd [OF exact_and_clean_tells last])
    fix b code t u
    assume "b \<longrightarrow> saw (clean_checkout d revision tree) t" "if \<not> b then code = 2 else if only then code = 0 else ?Q code u"
    then show "?R code (t @ u)"
      using saw_append [of "clean_checkout d revision tree" t _ u] saw_earlier [of "clean_checkout d revision tree" t u]
      by (auto split: if_splits intro: stage_failed_later)
  qed
  have contract: "tells (bnd (committed_clean_tree place) (\<lambda>found. if found \<noteq> Some contract then ret 2
      else bnd (checkout_is_exact_and_clean d revision tree) ?last)) ?V" for place
  proof (rule tells_bnd [OF committed_clean_tells])
    show "tells (if found \<noteq> Some contract then ret 2 else bnd (checkout_is_exact_and_clean d revision tree) ?last)
        (\<lambda>code t. if found = Some contract then ?R code t else code = 2)" for found
      using exact by (auto simp: tells_def run_simps)
    fix found code t u
    assume "\<forall>tree. found = Some tree \<longrightarrow> is_revision tree \<and> saw (clean_tree place tree) t"
      "if found = Some contract then ?R code u else code = 2"
    then show "?V code (t @ u)"
      unfolding verdict_def using saw_append [of "clean_tree place contract" t _ u]
      by (auto split: if_splits intro: stage_failed_later)
  qed
  show ?thesis
    unfolding run_validation_def
    by (intro tells_later(1) [where R = ?V] later keeps_silent anything.primitives contract)
qed

end
