(* ===== verification/Workgraph_Steps.thy ===== *)
theory Workgraph_Steps
  imports Workgraph_Results
begin

text \<open>
  The \<open>with\<close> block of a client run is a sequence of the controller steps of \<open>Local_Execution\<close>: what is
  proved of any number of controllers holds of any number of clients on one store.
\<close>

text \<open>
  \<open>tracked i m\<close>: run through an idle handle, \<open>m\<close> makes steps of the controller \<open>i\<close>; if it returns, the
  handle is idle again and the controller outside of an execution.
\<close>

definition in_step :: "nat \<Rightarrow> world \<Rightarrow> machine \<Rightarrow> bool" where
  "in_step i w c \<longleftrightarrow> idle (rn_store (runner c)) \<and> w_db w = durable (rn_store (runner c)) \<and> w_phase w i = Outside"

definition tracked :: "nat \<Rightarrow> (machine, 'a) prog \<Rightarrow> bool" where
  "tracked i m \<longleftrightarrow> (\<forall>c r c' w. m c = (r, c') \<longrightarrow> in_step i w c \<longrightarrow>
     (\<exists>w'. follows w i (runner c) w' (runner c') \<and> (isl r \<or> in_step i w' c')))"

text \<open>The same for the last program of a run, of which nothing is asked afterwards.\<close>

definition tracked_last :: "nat \<Rightarrow> (machine, 'a) prog \<Rightarrow> bool" where
  "tracked_last i m \<longleftrightarrow> (\<forall>c w. in_step i w c \<longrightarrow> (\<exists>w'. follows w i (runner c) w' (runner (snd (m c)))))"

named_theorems tracked_intros "programs that make controller steps"

lemma follows_refl: "w_db w = durable (rn_store n) \<Longrightarrow> follows w i n w n"
  by (simp add: follows_def steps.none)

lemma follows_trans: "follows w i a w1 b \<Longrightarrow> follows w1 i b w2 c \<Longrightarrow> follows w i a w2 c"
  by (auto simp: follows_def intro: steps_trans)

lemma in_step_follows: "in_step i w c \<Longrightarrow> follows w i (runner c) w (runner c)"
  by (simp add: in_step_def follows_refl)

lemma tracked_apart [tracked_intros]:
  assumes "apart m"
  shows "tracked i m"
  unfolding tracked_def
proof (intro allI impI)
  fix c r c' w assume "m c = (r, c')" "in_step i w c"
  with apartD [OF assms] in_step_follows show "\<exists>w'. follows w i (runner c) w' (runner c') \<and> (isl r \<or> in_step i w' c')"
    by (intro exI [of _ w]) (auto simp: in_step_def follows_refl)
qed

lemma tracked_bnd [tracked_intros]:
  assumes "tracked i m" "\<And>x. tracked i (f x)"
  shows "tracked i (bnd m f)"
  unfolding tracked_def
proof (intro allI impI)
  fix c r c' w assume run: "bnd m f c = (r, c')" and w: "in_step i w c"
  obtain r1 c1 where m: "m c = (r1, c1)" by (cases "m c")
  from assms(1) m w obtain w1 where w1: "follows w i (runner c) w1 (runner c1)" "isl r1 \<or> in_step i w1 c1"
    unfolding tracked_def by blast
  show "\<exists>w'. follows w i (runner c) w' (runner c') \<and> (isl r \<or> in_step i w' c')"
  proof (cases r1)
    case (Inl e)
    with run m w1 show ?thesis by (auto simp: run_bnd)
  next
    case (Inr x)
    with run m have "f x c1 = (r, c')" by (simp add: run_bnd)
    moreover have "in_step i w1 c1" using w1 Inr by simp
    ultimately obtain w2 where "follows w1 i (runner c1) w2 (runner c')" "isl r \<or> in_step i w2 c'"
      using assms(2) unfolding tracked_def by blast
    with follows_trans [OF w1(1)] show ?thesis by blast
  qed
qed

lemma tracked_sq [tracked_intros]: "tracked i m \<Longrightarrow> tracked i n \<Longrightarrow> tracked i (sq m n)"
  by (simp add: sq_def tracked_bnd)

lemma tracked_cases [tracked_intros]:
  "(b \<Longrightarrow> tracked i m) \<Longrightarrow> (\<not> b \<Longrightarrow> tracked i n) \<Longrightarrow> tracked i (if b then m else n)"
  "(z = None \<Longrightarrow> tracked i m) \<Longrightarrow> (\<And>y. z = Some y \<Longrightarrow> tracked i (f y)) \<Longrightarrow> tracked i (case z of None \<Rightarrow> m | Some y \<Rightarrow> f y)"
  by (auto split: option.splits)

context durable_op
begin

lemma tracked_call:
  assumes "run_request q = discard call" "ordinary q"
  shows "tracked i (on_store call)"
  unfolding tracked_def
proof (intro allI impI)
  fix c r c' w assume run: "on_store call c = (r, c')" and w: "in_step i w c"
  obtain r1 s where s: "call (rn_store (runner c)) = (r1, s)" by (cases "call (rn_store (runner c))")
  with run have c': "r = r1" "c' = c\<lparr>runner := (runner c)\<lparr>rn_store := s\<rparr>\<rparr>" by (simp_all add: run_on_store)
  have ok: "handle_ok (rn_store (runner c))" using w by (simp add: in_step_def idle_def no_tx_def handle_ok_def)
  have "step w (w\<lparr>w_db := durable s\<rparr>)"
    by (rule step.other [OF assms(2) ok _ prod.collapse [symmetric], THEN back_subst [of "\<lambda>d. step w (w\<lparr>w_db := d\<rparr>)"]])
      (use w s in \<open>simp_all add: in_step_def assms(1) discard_state\<close>)
  then have "follows w i (runner c) (w\<lparr>w_db := durable s\<rparr>) (runner c')"
    by (auto simp: follows_def c' intro: one_step)
  moreover have "isl r \<or> in_step i (w\<lparr>w_db := durable s\<rparr>) c'"
  proof (cases r)
    case (Inr x)
    with on_store_returns(1) [of c x c'] run w show ?thesis by (simp add: in_step_def c')
  qed simp
  ultimately show "\<exists>w'. follows w i (runner c) w' (runner c') \<and> (isl r \<or> in_step i w' c')" by blast
qed

end

lemma tracked_requests [tracked_intros]:
  "tracked i (on_store (execution_key_exists k))" "tracked i (on_store (read_execution_launch k))"
  "tracked i (on_store (register_execution_key k))" "tracked i (on_store (bind_command_spec_hash k h))"
  "tracked i (on_store (read_generation v))" "tracked i (on_store (read_execution_admission k))"
  "tracked i (on_store (admit_execution k v g))"
  by (rule key_exists.tracked_call [of "Execution_key_exists k"] read_launch.tracked_call [of "Read_execution_launch k"]
      register.tracked_call [of "Register_execution_key k"] bind_op.tracked_call [of "Bind_command_spec_hash k h"]
      read_gen.tracked_call [of "Read_generation v"] read_adm.tracked_call [of "Read_execution_admission k"]
      admit.tracked_call [of "Admit_execution k v g"]; simp)+

lemma tracked_lastI: "tracked i m \<Longrightarrow> tracked_last i m"
  unfolding tracked_last_def tracked_def by (metis prod.collapse)

lemma tracked_last_bnd:
  assumes "tracked i m" "\<And>x. tracked_last i (f x)"
  shows "tracked_last i (bnd m f)"
  unfolding tracked_last_def
proof (intro allI impI)
  fix c w assume w: "in_step i w c"
  obtain r1 c1 where m: "m c = (r1, c1)" by (cases "m c")
  from assms(1) m w obtain w1 where w1: "follows w i (runner c) w1 (runner c1)" "isl r1 \<or> in_step i w1 c1"
    unfolding tracked_def by blast
  show "\<exists>w'. follows w i (runner c) w' (runner (snd (bnd m f c)))"
  proof (cases r1)
    case (Inl e)
    with m w1 show ?thesis by (auto simp: run_bnd)
  next
    case (Inr x)
    with w1 assms(2) obtain w2 where "follows w1 i (runner c1) w2 (runner (snd (f x c1)))"
      unfolding tracked_last_def by fastforce
    from follows_trans [OF w1(1) this] Inr m show ?thesis by (auto simp: run_bnd)
  qed
qed

lemma tracked_execution:
  assumes "\<And>x. apart (f x)"
  shows "tracked_last i (bnd (in_runner (execute_local_command key scope generation spec)) f)"
  unfolding tracked_last_def
proof (intro allI impI)
  fix c w assume w: "in_step i w c"
  let ?m = "execute_local_command key scope generation spec"
  obtain r1 n where n: "?m (runner c) = (r1, n)" by (cases "?m (runner c)")
  have "runner (snd (bnd (in_runner ?m) f c)) = n"
    using n apartD [OF assms prod.collapse [symmetric]]
    by (cases r1) (simp_all add: run_bnd in_runner_def)
  with execute_simulated [of "runner c" w i key scope generation spec] n w
  show "\<exists>w'. follows w i (runner c) w' (runner (snd (bnd (in_runner ?m) f c)))"
    by (simp add: in_step_def idle_def no_tx_def handle_ok_def)
qed

lemma tracked_block: "tracked_last i (client_block publish_terminal_status request target token tree key)"
proof -
  have admit: "tracked i (admit_command key hash exists)" for hash exists
    unfolding admit_command_def by (intro tracked_intros apart_intros)
  have launch: "tracked_last i (launch_and_publish publish_terminal_status request target token tree key exists)" for exists
    unfolding launch_and_publish_def split_beta
    by (intro tracked_last_bnd tracked_execution tracked_apart apart_outside admit) (intro apart_intros)
  have prior: "tracked i (observe_prior_launch publish_terminal_status target token key l)" for l
    unfolding observe_prior_launch_def by (intro tracked_intros apart_intros)
  have "tracked_last i (case z of None \<Rightarrow> launch_and_publish publish_terminal_status request target token tree key exists
      | Some l \<Rightarrow> observe_prior_launch publish_terminal_status target token key l)" for z exists
    by (cases z) (simp_all add: launch prior tracked_lastI)
  then show ?thesis
    unfolding client_block_def by (intro tracked_last_bnd tracked_intros apart_intros)
qed

end
