(* ===== verification/Workgraph_Examples.thy ===== *)
theory Workgraph_Examples
  imports Workgraph_Liveness Workgraph_Verdict Workgraph_Steps Execution_Examples
begin

text \<open>
  A machine on which a run of the client completes: a store with a generation of the client's scope,
  and an outside that cooperates. It shows that the hypotheses of the properties of whole runs can hold.
\<close>

section \<open>Plain text\<close>

definition plain :: "pystr \<Rightarrow> bool" where
  "plain s \<longleftrightarrow> list_all (\<lambda>c. 32 \<le> c \<and> c < 127) s \<and> length s \<le> 500"

lemma plain_text_ok:
  assumes "plain s" "a \<or> s \<noteq> []"
  shows "text_ok a s"
proof -
  have "list_all (\<lambda>c. c < 128) s" using assms(1) by (auto simp: plain_def list_all_iff)
  then have "encodable s" by (rule ascii_encodable)
  moreover have "length (utf8 t) = length t" if "list_all (\<lambda>c. c < 128) t" for t
    using that by (induction t) (auto simp: utf8_def utf8_char_def)
  ultimately show ?thesis
    using assms \<open>list_all (\<lambda>c. c < 128) s\<close> by (auto simp: text_ok_def frameable_def max_framed_def plain_def list_all_iff)
qed

section \<open>The outside\<close>

definition demo_sha :: pystr where
  "demo_sha = replicate 40 48"

definition one_part :: "pystr \<Rightarrow> path" where
  "one_part s = \<lparr>drive = py ''C:'', root = py [CHR 0x5C], parts = [s]\<rparr>"

definition demo_git :: "pystr list \<Rightarrow> pystr" where
  "demo_git arguments = (if arguments = status_arguments then []
     else if arguments = [py ''rev-parse'', py ''--show-toplevel''] then py ''u'' else demo_sha)"

definition demo_repository :: pyval where
  "demo_repository = PyDict [(PyStr (py ''full_name''), PyStr repository_name), (PyStr (py ''id''), PyInt repository_id)]"

definition demo_commit :: pyval where
  "demo_commit = PyDict [(PyStr (py ''sha''), PyStr demo_sha), (PyStr (py ''commit''),
     PyDict [(PyStr (py ''tree''), PyDict [(PyStr (py ''sha''), PyStr demo_sha)])])]"

definition demo_outside :: outside where
  "demo_outside = \<lparr>lower = (\<lambda>s. s), parse_path = one_part, os_isabs = (\<lambda>_. True),
     client_file = \<lparr>drive = py ''C:'', root = py [CHR 0x5C], parts = [py ''u'', py ''m'', py ''b'', py ''c.py'']\<rparr>,
     validation_file = \<lparr>drive = py ''C:'', root = py [CHR 0x5C], parts = [py ''u'', py ''m'', py ''b'', py ''v.py'']\<rparr>,
     python_executable = py ''p'', environ = [''GH_TOKEN'' \<mapsto> py ''t'', ''SystemRoot'' \<mapsto> py ''w''],
     on_resolve = (\<lambda>_ p. Inr p), on_check = (\<lambda>_ kind _. Inr (kind \<noteq> Is_symlink)), on_change = (\<lambda>_ _ _. Inr ()),
     on_which = (\<lambda>_. Some (py ''g'')), on_git = (\<lambda>_ line. Inr (0, demo_git (drop 5 line))),
     on_stage = (\<lambda>_ _ _. Inr 0), on_app_data = (\<lambda>_. (0, Some (py ''a''))),
     on_get = (\<lambda>_ p _. Inr (if p = py ''/repos/'' @ repository_name then demo_repository else demo_commit)),
     on_post = (\<lambda>_ _ _ _. Inr 201), on_preflight = (\<lambda>_ _. Returned (PyInt 0))\<rparr>"

definition demo_target :: VerifiedWorkGraphTarget where
  "demo_target = \<lparr>tg_full_name = repository_name, tg_id = repository_id, tg_revision = demo_sha, tg_tree = demo_sha\<rparr>"

definition demo_request :: WorkGraphRequest where
  "demo_request = \<lparr>rq_revision = demo_sha, rq_source = one_part (py ''s''), rq_timeout = 1800\<rparr>"

definition demo_deployment :: path where
  "demo_deployment = path_join (path_join (one_part (py ''a'')) (py ''Umbilical'')) (py ''workgraph-first-client-v1'')"

lemma demo_revision: "is_revision demo_sha"
  by (simp add: is_revision_def demo_sha_def list_all_iff)

lemma demo_answers: "strip (demo_git a) = text \<Longrightarrow> git_answers demo_outside d a text"
  by (auto simp: git_answers_def demo_outside_def)

lemma demo_git_answers:
  "git_answers demo_outside d status_arguments []"
  "a \<noteq> status_arguments \<Longrightarrow> a \<noteq> [py ''rev-parse'', py ''--show-toplevel''] \<Longrightarrow> git_answers demo_outside d a demo_sha"
  "git_answers demo_outside d [py ''rev-parse'', py ''--show-toplevel''] (py ''u'')"
  by (rule demo_answers, simp add: demo_git_def strip_def,
      rule demo_answers, simp add: demo_git_def strip_revision demo_revision,
      rule demo_answers, simp add: demo_git_def strip_def is_space_def)

lemma demo_deployed: "deployed demo_outside demo_deployment"
  by (simp add: deployed_def demo_outside_def demo_deployment_def)

lemma demo_contract: "contract_at demo_outside (one_part (py ''u'')) demo_sha"
  unfolding contract_at_def tree_at_def
  by (intro conjI exI [of _ "py ''u''"] exI [of _ demo_sha] demo_git_answers demo_revision)
    (simp_all add: demo_outside_def path_ancestor_def one_part_def same_path_def)

lemma demo_publishes: "publishes demo_outside (py ''t'') demo_target"
proof -
  have "check_repository demo_repository = Inr ()"
    by (simp add: check_repository_def demo_repository_def dict_get_def check_that_def py_eq_str_def)
  moreover have "commit_target demo_sha demo_commit = Inr demo_target"
    using demo_revision by (simp add: commit_target_def demo_commit_def dict_get_def dict_at_def commit_tree_sha_def demo_target_def py_eq_str_def)
  ultimately show ?thesis
    unfolding publishes_def confirms_def
    by (simp add: demo_outside_def demo_target_def demo_revision)
qed

lemma demo_outside_fields:
  "on_check demo_outside h kind p = Inr (kind \<noteq> Is_symlink)" "on_change demo_outside h kind' p = Inr ()"
  "on_resolve demo_outside h p = Inr p" "on_which demo_outside h = Some (py ''g'')" "os_isabs demo_outside s"
  "environ demo_outside ''GH_TOKEN'' = Some (py ''t'')" "environ demo_outside ''SystemRoot'' = Some (py ''w'')"
  "parse_path demo_outside = one_part" "python_executable demo_outside = py ''p''"
  "on_preflight demo_outside h call = Returned (PyInt 0)"
  by (simp_all add: demo_outside_def)

lemma demo_checkout: "checkout_ready demo_outside (rq_source demo_request) c demo_target"
  unfolding checkout_ready_def checkout_at_def
  by (intro conjI exI [of _ demo_sha] demo_git_answers)
    (simp_all add: demo_outside_fields demo_target_def demo_git_answers clone_arguments_def)

section \<open>The command\<close>

definition demo_environment :: "(pystr \<times> pystr) list" where
  "demo_environment = [(py ''PATH'', path_str (path_parent (one_part (py ''p''))) @ py '';'' @
       path_str (path_parent (one_part (py ''g''))) @ py '';'' @ path_str (path_join (one_part (py ''w'')) (py ''System32''))),
     (py ''PYTHONUTF8'', py ''1''), (py ''SYSTEMROOT'', py ''w''),
     (py ''TEMP'', path_str (path_join demo_deployment (py ''temporary''))),
     (py ''TMP'', path_str (path_join demo_deployment (py ''temporary'')))]"

definition demo_script :: path where
  "demo_script = \<lparr>drive = py ''C:'', root = py [CHR 0x5C], parts = [py ''u'', py ''m'', py ''b'', py ''umbilical_workgraph_validation.py'']\<rparr>"

definition demo_spec :: "path \<Rightarrow> bool \<Rightarrow> LocalCommandSpec" where
  "demo_spec checkout only = \<lparr>executable = path_str (one_part (py ''p'')),
     argv = command_arguments (one_part (py ''p'')) demo_script checkout demo_target demo_sha only,
     working_directory = path_str checkout, environment = demo_environment, timeout_seconds = 1800\<rparr>"

lemma plain_parts: "plain demo_sha" "plain (path_str (one_part (py ''p'')))" "plain (path_str demo_script)"
  "list_all (\<lambda>(n, v). plain n \<and> plain v \<and> n \<noteq> [] \<and> 61 \<notin> set n) demo_environment" "sorted_environment demo_environment = demo_environment"
  "sorted_wrt (<) (map (utf8 \<circ> fst) demo_environment)" "distinct (map fst demo_environment)"
proof -
  show "plain demo_sha" by (simp add: plain_def demo_sha_def list_all_iff)
  show "plain (path_str (one_part (py ''p'')))" "plain (path_str demo_script)" by (simp_all add: plain_def path_str_def one_part_def demo_script_def)
  show "list_all (\<lambda>(n, v). plain n \<and> plain v \<and> n \<noteq> [] \<and> 61 \<notin> set n) demo_environment"
    by (simp add: demo_environment_def plain_def path_str_def one_part_def path_parent_def path_join_def demo_deployment_def)
  show *: "sorted_wrt (<) (map (utf8 \<circ> fst) demo_environment)"
    by (simp add: demo_environment_def utf8_def utf8_char_def)
  then have "sorted (map fst (map keyed demo_environment))"
    by (auto simp: comp_def keyed_def sorted_wrt_map less_imp_le intro: sorted_wrt_mono_rel [rotated])
  then show "sorted_environment demo_environment = demo_environment"
    by (simp only: sorted_environment_def sort_key_id_if_sorted map_map) (simp add: comp_def keyed_def)
  show "distinct (map fst demo_environment)"
    by (simp add: demo_environment_def)
qed

lemma demo_spec:
  assumes "plain (path_str checkout)" "path_str checkout \<noteq> []"
  shows "command_of demo_outside demo_deployment demo_script demo_request demo_target checkout demo_sha only (py ''g'') (py ''w'') =
    Inr (demo_spec checkout only)" "canon_ok (demo_spec checkout only)"
proof -
  have env: "list_all item_ok demo_environment"
    using plain_parts(4) by (auto simp: list_all_iff item_ok_def plain_text_ok)
  have "path_str (one_part (py ''p'')) \<noteq> []" by (simp add: path_str_def one_part_def)
  moreover have "plain (tg_revision demo_target)" "plain (tg_tree demo_target)" using plain_parts(1) by (simp_all add: demo_target_def)
  moreover have "list_all plain [py ''--checkout-root'', py ''--expected-revision'', py ''--expected-tree'', py ''--expected-contract-tree'', py ''--integrity-only'']"
    by (simp add: plain_def)
  ultimately have ok: "spec_ok (\<lambda>_. True) (demo_spec checkout only)"
    using assms env plain_parts by (auto simp: spec_ok_def demo_spec_def command_arguments_def plain_text_ok max_framed_def simp del: py_Cons)
  have pairs: "environment_dict one_part (one_part (py ''p'')) (path_join demo_deployment (py ''temporary'')) (py ''g'') (py ''w'') =
      PyDict (map item_pair demo_environment)"
    by (simp add: environment_dict_def demo_environment_def item_pair_def)
  have isabs: "os_isabs demo_outside = (\<lambda>_. True)" by (simp add: demo_outside_def)
  show "command_of demo_outside demo_deployment demo_script demo_request demo_target checkout demo_sha only (py ''g'') (py ''w'') =
      Inr (demo_spec checkout only)"
    unfolding command_of_def Let_def demo_outside_fields pairs snapshot_Inr make_command_spec_Inr isabs
    by (rule exI [of _ "PyTuple (map PyStr (argv (demo_spec checkout only)))"], rule exI [of _ demo_environment])
      (use ok env plain_parts in \<open>simp add: freeze_argv_def demo_spec_def demo_request_def del: py_Cons\<close>)
  show "canon_ok (demo_spec checkout only)"
    by (rule spec_ok_canon_ok [OF ok]) (simp_all add: demo_spec_def command_arguments_def demo_environment_def max_framed_def)
qed

section \<open>The machine\<close>

lemma plain_component: "plain s \<Longrightarrow> s \<noteq> [] \<Longrightarrow> identity_component (PyStr s)"
  using plain_text_ok [of s False] by (simp add: identity_component_def text_ok_def utf8_encode_utf8)

definition demo_key :: pystr where
  "demo_key = (case client_execution_key demo_target demo_sha of Inl _ \<Rightarrow> [] | Inr key \<Rightarrow> key)"

lemma demo_key: "client_execution_key demo_target demo_sha = Inr demo_key"
proof -
  have id: "int_text repository_id = py ''1338331328''" by (simp add: int_text_def repository_id_def decimal.simps)
  have "plain (py ''github-repository-id:'' @ int_text repository_id)" "py ''github-repository-id:'' @ int_text repository_id \<noteq> []"
      "plain subject" "subject \<noteq> []" "plain (contract_id_prefix @ demo_sha)" "contract_id_prefix @ demo_sha \<noteq> []" "demo_sha \<noteq> []"
    unfolding id by (simp_all add: plain_def subject_def contract_id_prefix_def demo_sha_def list_all_iff)
  note parts = this plain_parts(1)
  obtain k where "derive_execution_key (PyStr (py ''github-repository-id:'' @ int_text repository_id)) (PyStr subject) (PyStr demo_sha)
      (PyStr (contract_id_prefix @ demo_sha)) = Inr k"
    using derive_accepts [THEN iffD2] plain_component parts by (meson conjI)
  then have "client_execution_key demo_target demo_sha = Inr k"
    by (simp add: client_execution_key_def validation_contract_id_def demo_revision demo_target_def and_then_def del: py_Cons)
  then show ?thesis by (simp add: demo_key_def)
qed

lemma plain_hex: "list_all (\<lambda>c. 32 \<le> c \<and> c < 127) (hex_text bs)"
proof (induction bs)
  case (Cons b bs)
  have "unat b div 16 < 16" using unat_byte_less [of b] by linarith
  with Cons show ?case by (auto simp: hex_text_def hex_digit_def)
qed (simp add: hex_text_def)

definition demo_checkout_path :: path where
  "demo_checkout_path = checkout_of demo_deployment demo_key"

lemma demo_checkout_plain: "plain (path_str demo_checkout_path)" "path_str demo_checkout_path \<noteq> []"
proof -
  have "list_all (\<lambda>c. 32 \<le> c \<and> c < 127) (take 32 (sha256_hex b))" for b
    using plain_hex unfolding sha256_hex_def by (auto simp: list_all_iff dest: in_set_takeD)
  then show "plain (path_str demo_checkout_path)" "path_str demo_checkout_path \<noteq> []"
    by (simp_all add: demo_checkout_path_def checkout_of_def path_str_def plain_def path_join_def demo_deployment_def one_part_def)
qed

definition client_hash :: pystr where
  "client_hash = (case command_spec_hash (demo_spec demo_checkout_path False) of Inl _ \<Rightarrow> [] | Inr h \<Rightarrow> h)"

lemma client_hash: "command_spec_hash (demo_spec demo_checkout_path False) = Inr client_hash"
proof -
  obtain h where "command_spec_hash (demo_spec demo_checkout_path False) = Inr h"
    using demo_spec(2) [OF demo_checkout_plain] by (auto simp: hash_Inr)
  then show ?thesis by (simp add: client_hash_def)
qed

lemma demo_cooperates:
  "cooperates demo_outside demo_deployment demo_request (py ''t'') demo_target demo_sha demo_key (demo_spec demo_checkout_path False)"
proof -
  have "path_with_name (client_file demo_outside) (py ''umbilical_workgraph_validation.py'') = Inr demo_script"
    by (simp add: path_with_name_def demo_outside_def demo_script_def)
  then have "command_ready demo_outside demo_deployment demo_request demo_target demo_checkout_path demo_sha (demo_spec demo_checkout_path False)"
    using demo_spec(1) [OF demo_checkout_plain] unfolding command_ready_def demo_outside_fields
    by - (rule exI [of _ demo_script], rule exI [of _ "py ''g''"], rule exI [of _ "py ''w''"], rule exI [of _ "demo_spec demo_checkout_path True"], simp add: demo_outside_fields)
  moreover have "tg_revision demo_target = rq_revision demo_request" by (simp add: demo_target_def demo_request_def)
  ultimately show ?thesis
    unfolding cooperates_def demo_checkout_path_def
    using demo_deployed demo_publishes demo_contract demo_checkout by (auto simp: demo_outside_fields)
qed

definition client_database :: database where
  "client_database = fresh_database\<lparr>t_gens := [\<lparr>gr_scope = SText authority_scope, gr_generation = SInteger 1\<rparr>]\<rparr>"

lemma client_database_valid: "store_valid client_database"
proof -
  have "schema client_database = schema fresh_database" by (simp add: client_database_def)
  note same = schema_only [OF this]
  have "schema_valid objects_v5 client_database" "\<forall>t\<in>set objects_v5. table_valid (snd t) client_database"
    using fresh_valid unfolding store_valid_parts same by blast+
  then show ?thesis
    unfolding store_valid_def exact_valid_def
    by (intro conjI impI)
      (simp_all add: client_database_def fresh_database_def empty_database_def integrity_check_def gens_valid_def keys_valid_def
        binds_valid_def adms_valid_def launches_valid_def gen_valid_def text_nonempty_def generation_ok_def max_generation_def
        authority_scope_def)
qed

lemma client_database_resumable: "resumable (abs_of client_database) demo_key client_hash 1"
  by (simp add: resumable_def abs_of_def client_database_def fresh_database_def empty_database_def row_by_def)

definition demo_machine :: machine where
  "demo_machine = \<lparr>host = empty_host\<lparr>files := [store_file empty_host demo_deployment \<mapsto> client_database]\<rparr>,
     runner = \<lparr>rn_store = open_handle client_database, rn_launched = [], rn_outcomes = [Returned (PyInt 0)]\<rparr>,
     outside = demo_outside, events = []\<rparr>"

lemma demo_machine_fields:
  "quiet_host (host demo_machine)" "on_disk (host demo_machine) (store_file (host demo_machine) demo_deployment) = Some client_database"
  "outside demo_machine = demo_outside" "next_outcome (runner demo_machine) = Returned (PyInt 0)" "events demo_machine = []"
  by (simp_all add: demo_machine_def quiet_host_def empty_host_def on_disk_def store_file_def next_outcome_def)

lemma demo_client_run:
  obtains c' where "run_workgraph_client publish_terminal_status demo_request demo_machine = (Inr (finished demo_key client_hash 0), c')"
proof (rule run_completes [OF demo_machine_fields(1,2) client_database_valid _ demo_key client_hash client_database_resumable demo_machine_fields(4)])
  show "cooperates (outside demo_machine) demo_deployment demo_request (py ''t'') demo_target demo_sha demo_key (demo_spec demo_checkout_path False)"
    using demo_cooperates by (simp add: demo_machine_fields)
qed (simp_all add: min_sqlite_integer_def max_sqlite_integer_def)

lemma demo_made: "make_request (PyStr demo_sha) (parse_path (outside demo_machine) (py ''s'')) 1800 = Inr demo_request"
  by (simp add: make_request_def demo_machine_fields demo_outside_fields demo_revision demo_request_def is_absolute_def one_part_def)

lemma demo_main_run:
  obtains c' where "client_main (Run demo_sha (py ''s'')) demo_machine = (Inr 0, c')"
proof -
  have "cooperates (outside demo_machine) demo_deployment demo_request (py ''t'') demo_target demo_sha demo_key (demo_spec demo_checkout_path False)"
    using demo_cooperates by (simp add: demo_machine_fields)
  note run = main_completes [OF demo_machine_fields(1,2) client_database_valid this demo_key client_hash client_database_resumable
      demo_machine_fields(4) _ _ demo_made]
  show thesis by (rule run) (simp_all add: min_sqlite_integer_def max_sqlite_integer_def that)
qed

text \<open>The validation process on the same outside.\<close>

lemma demo_validation:
  "\<exists>c'. run_validation (one_part (py ''s'')) demo_sha demo_sha demo_sha False demo_machine = (Inr 0, c')"
proof -
  have res: "gives demo_outside (resolve p) p" for p by (rule resolve_gives [OF demo_deployed])
  have tree: "tree_at demo_outside (one_part (py ''u'')) demo_sha" using demo_contract by (simp add: contract_at_def)
  have stage: "gives demo_outside (run_stage d command) None" for d command
    unfolding run_stage_def
    by (rule gives_try, rule gives_bnd, rule gives_ask [where v = 0], simp add: demo_outside_def) (simp add: gives_silent(1))
  have stages: "gives demo_outside (run_stages d commands) 0" for d commands
  proof (induction commands)
    case (Cons command commands)
    show ?case unfolding run_stages.simps by (rule gives_bnd, rule stage) (simp add: Cons)
  qed (simp add: gives_silent(1))
  have exact: "gives demo_outside (checkout_is_exact_and_clean d demo_sha demo_sha) True" for d
    unfolding checkout_is_exact_and_clean_def
    by (rule gives_bnd, rule git_gives(1), rule demo_git_answers(2), simp, simp, simp only: not_True_eq_False simp_thms if_False,
        rule gives_bnd, rule git_gives(1), rule demo_git_answers(2), simp, simp, simp only: not_True_eq_False simp_thms if_False,
        rule gives_bnd, rule git_gives(1), rule demo_git_answers(1), simp add: gives_silent(1))
  have ancestor: "path_ancestor 2 (validation_file demo_outside) = Inr (one_part (py ''u''))"
    by (simp add: path_ancestor_def demo_outside_def one_part_def)
  have "gives demo_outside (run_validation (one_part (py ''s'')) demo_sha demo_sha demo_sha False) 0"
    unfolding run_validation_def
    by (rule gives_bnd, rule gives_silent(4), rule gives_bnd, rule res, rule gives_bnd, rule gives_silent(3), rule ancestor,
        rule gives_bnd, rule committed_clean_gives [OF res tree], simp only: not_True_eq_False simp_thms if_False,
        rule gives_bnd, rule exact, simp only: not_True_eq_False simp_thms if_False, rule gives_bnd, rule gives_silent(4), rule stages)
  from gives_at [OF this demo_machine_fields(3)] show ?thesis by blast
qed

end
