(* ===== verification/Bb_Locks.thy ===== *)
theory Bb_Locks
  imports Umb_Errors
begin

text \<open>
  \<open>master/buildbot/locks.py\<close>, class \<open>BaseLock\<close>: claiming, releasing and waiting for a lock with
  counting and exclusive owners. The real locks behind lock ids are in \<open>Bb_Real_Locks\<close>, the builds,
  steps and workers that use them in \<open>Bb_Lock_Users\<close>.
\<close>

section \<open>Lock ids and accesses\<close>

text \<open>
  \<open>MasterLock(name, maxCount)\<close> and \<open>WorkerLock(name, maxCount, maxCountForWorker)\<close>; the dictionary of
  the latter as its sorted items, which is what ids are compared by.
\<close>

datatype lock_id = MasterLock pystr int | WorkerLock pystr int "(pystr \<times> int) list"

datatype access_mode = Counting | Exclusive

record LockAccess =
  lockid :: lock_id
  acc_mode :: access_mode
  units :: int

text \<open>\<open>LockAccess(lockid, mode, count)\<close>, and \<open>access\<close> and \<open>defaultAccess\<close> of a lock id.\<close>

definition make_access :: "lock_id \<Rightarrow> access_mode \<Rightarrow> int \<Rightarrow> exn + LockAccess" where
  "make_access i mode count = and_then
     (check_that (if mode = Exclusive then count = 1 else 0 \<le> count) AssertionError)
     (\<lambda>_. Inr \<lparr>lockid = i, acc_mode = mode, units = count\<rparr>)"

definition access_of :: "lock_id \<Rightarrow> access_mode \<Rightarrow> int \<Rightarrow> exn + LockAccess" where
  "access_of i mode count = and_then (check_that (0 \<le> count) AssertionError) (\<lambda>_. make_access i mode count)"

definition defaultAccess :: "lock_id \<Rightarrow> exn + LockAccess" where
  "defaultAccess i = access_of i Counting 1"

section \<open>The lock\<close>

text \<open>
  Requesters and Deferreds are known by their identity, a number; \<open>no_one\<close> is \<open>id(None)\<close>. An entry of
  the queue has the Deferred to wake it by, until it has been woken.
\<close>

type_synonym waiter = "nat \<times> LockAccess \<times> nat option"

record BaseLock =
  lockName :: pystr
  waiting :: "waiter list"
  owners :: "(nat \<times> LockAccess) list"
  maxCount :: int
  claimed_excl :: int
  claimed_counting :: int

definition no_one :: nat where
  "no_one = 0"

definition make_lock :: "pystr \<Rightarrow> int \<Rightarrow> BaseLock" where
  "make_lock name count = \<lparr>lockName = name, waiting = [], owners = [], maxCount = count, claimed_excl = 0, claimed_counting = 0\<rparr>"

text \<open>
  A lock with the next Deferred and what the lock did outside: \<open>Eventually d\<close> is
  \<open>eventually(d.callback, self)\<close>, \<open>Stopped d\<close> is \<open>d.callback(None)\<close>, \<open>Released\<close> is \<open>release_subs.deliver()\<close>.
\<close>

datatype lock_effect = Eventually nat | Stopped nat | Released

record scene =
  the_lock :: BaseLock
  next_deferred :: nat
  effects :: "lock_effect list"

definition put_lock :: "(BaseLock \<Rightarrow> BaseLock) \<Rightarrow> (scene, unit) prog" where
  "put_lock f = modify (\<lambda>s. s\<lparr>the_lock := f (the_lock s)\<rparr>)"

definition emit :: "lock_effect list \<Rightarrow> (scene, unit) prog" where
  "emit es = modify (\<lambda>s. s\<lparr>effects := effects s @ es\<rparr>)"

text \<open>The loop of \<open>_find_waiting\<close> from index \<open>i\<close> on.\<close>

fun find_waiting :: "nat \<Rightarrow> nat \<Rightarrow> waiter list \<Rightarrow> nat option" where
  "find_waiting requester i [] = None"
| "find_waiting requester i (w # ws) = (if fst w = requester then Some i else find_waiting requester (Suc i) ws)"

abbreviation mode_of :: "waiter \<Rightarrow> access_mode" where
  "mode_of w \<equiv> acc_mode (fst (snd w))"

definition isAvailable :: "nat \<Rightarrow> LockAccess \<Rightarrow> BaseLock \<Rightarrow> bool" where
  "isAvailable requester access l = (if units access = 0 then True else
     let w_index = (case find_waiting requester 0 (waiting l) of None \<Rightarrow> length (waiting l) | Some i \<Rightarrow> i);
         ahead = take w_index (waiting l)
     in if acc_mode access = Counting
        then claimed_excl l = 0 \<and> claimed_counting l + int (length ahead) + units access \<le> maxCount l
          \<and> list_all (\<lambda>w. mode_of w = Counting) ahead
        else claimed_excl l = 0 \<and> claimed_counting l = 0 \<and> ahead = [])"

definition addOwner :: "nat \<Rightarrow> LockAccess \<Rightarrow> (scene, unit) prog" where
  "addOwner owner access =
     sq (put_lock (\<lambda>l. l\<lparr>owners := owners l @ [(owner, access)]\<rparr>))
     (sq (put_lock (\<lambda>l. if acc_mode access = Counting then l\<lparr>claimed_counting := claimed_counting l + units access\<rparr>
        else l\<lparr>claimed_excl := claimed_excl l + 1\<rparr>))
     (bnd (gets the_lock) (\<lambda>l.
      guard ((claimed_excl l \<noteq> 0 \<and> claimed_counting l = 0) \<or> (claimed_excl l = 0 \<and> claimed_excl l \<le> maxCount l)) AssertionError)))"

definition removeOwner :: "nat \<Rightarrow> LockAccess \<Rightarrow> (scene, bool) prog" where
  "removeOwner owner access = bnd (gets the_lock) (\<lambda>l.
     if (owner, access) \<notin> set (owners l) then ret False else
     sq (put_lock (\<lambda>l. l\<lparr>owners := remove1 (owner, access) (owners l)\<rparr>))
     (sq (put_lock (\<lambda>l. if acc_mode access = Counting then l\<lparr>claimed_counting := claimed_counting l - units access\<rparr>
        else l\<lparr>claimed_excl := claimed_excl l - 1\<rparr>))
     (ret True)))"

definition claim_lock :: "nat \<Rightarrow> LockAccess \<Rightarrow> (scene, unit) prog" where
  "claim_lock owner access =
     sq (guard (owner \<noteq> no_one) AssertionError)
     (bnd (gets the_lock) (\<lambda>l. sq (guard (isAvailable owner access l) AssertionError)
     (sq (guard (if acc_mode access = Exclusive then units access = 1 else 0 \<le> units access) AssertionError)
     (if units access = 0 then ret () else
       sq (put_lock (\<lambda>l. l\<lparr>waiting := [w \<leftarrow> waiting l. fst w \<noteq> owner]\<rparr>))
       (addOwner owner access)))))"

text \<open>
  The loop of \<open>_tryWakeUp\<close> over the rest of the queue: the queue it leaves, and the Deferreds it wakes.
\<close>

fun wake_loop :: "int \<Rightarrow> int \<Rightarrow> int \<Rightarrow> waiter list \<Rightarrow> waiter list \<times> nat list" where
  "wake_loop count num_excl num_counting [] = ([], [])"
| "wake_loop count num_excl num_counting ((w, a, d) # ws) =
     (if acc_mode a = Counting \<and> (0 < num_excl \<or> count \<le> num_counting) then ((w, a, d) # ws, [])
      else if acc_mode a = Exclusive \<and> (0 < num_excl \<or> 0 < num_counting) then ((w, a, d) # ws, [])
      else
        let (rest, woken) = (if acc_mode a = Counting then wake_loop count num_excl (num_counting + units a) ws
              else wake_loop count (num_excl + units a) num_counting ws)
        in ((w, a, None) # rest, (case d of None \<Rightarrow> woken | Some x \<Rightarrow> x # woken)))"

definition tryWakeUp :: "(scene, unit) prog" where
  "tryWakeUp = bnd (gets the_lock) (\<lambda>l. case wake_loop (maxCount l) (claimed_excl l) (claimed_counting l) (waiting l) of
     (queue, woken) \<Rightarrow> sq (put_lock (\<lambda>l. l\<lparr>waiting := queue\<rparr>)) (emit (map Eventually woken)))"

definition setMaxCount :: "int \<Rightarrow> (scene, unit) prog" where
  "setMaxCount count = bnd (gets the_lock) (\<lambda>l. sq (put_lock (\<lambda>l. l\<lparr>maxCount := count\<rparr>))
     (if maxCount l < count then tryWakeUp else ret ()))"

definition release_lock :: "nat \<Rightarrow> LockAccess \<Rightarrow> (scene, unit) prog" where
  "release_lock owner access = (if units access = 0 then ret () else
     bnd (removeOwner owner access) (\<lambda>removed. if \<not> removed then ret () else sq tryWakeUp (emit [Released])))"

text \<open>The result of \<open>waitUntilMaybeAvailable\<close>: \<open>None\<close> for a Deferred that has already fired.\<close>

definition new_deferred :: "(scene, nat) prog" where
  "new_deferred = (\<lambda>s. (Inr (next_deferred s), s\<lparr>next_deferred := Suc (next_deferred s)\<rparr>))"

definition waitUntilMaybeAvailable :: "nat \<Rightarrow> LockAccess \<Rightarrow> (scene, nat option) prog" where
  "waitUntilMaybeAvailable owner access = bnd (gets the_lock) (\<lambda>l. if isAvailable owner access l then ret None else
     bnd new_deferred (\<lambda>d. case find_waiting owner 0 (waiting l) of
       Some i \<Rightarrow> sq (guard (snd (snd (waiting l ! i)) = None) AssertionError)
         (sq (put_lock (\<lambda>l. l\<lparr>waiting := (waiting l)[i := (owner, access, Some d)]\<rparr>)) (ret (Some d)))
     | None \<Rightarrow> sq (put_lock (\<lambda>l. l\<lparr>waiting := waiting l @ [(owner, access, Some d)]\<rparr>)) (ret (Some d))))"

definition delete_at :: "nat \<Rightarrow> 'a list \<Rightarrow> 'a list" where
  "delete_at i xs = take i xs @ drop (Suc i) xs"

definition stopWaitingUntilAvailable :: "nat \<Rightarrow> nat \<Rightarrow> (scene, unit) prog" where
  "stopWaitingUntilAvailable owner d = bnd (gets the_lock) (\<lambda>l. case find_waiting owner 0 (waiting l) of
       None \<Rightarrow> raise AssertionError
     | Some i \<Rightarrow> (case snd (snd (waiting l ! i)) of
         Some old_d \<Rightarrow> sq (guard (d = old_d) AssertionError)
           (sq (put_lock (\<lambda>l. l\<lparr>waiting := delete_at i (waiting l)\<rparr>)) (emit [Stopped d]))
       | None \<Rightarrow> sq (put_lock (\<lambda>l. l\<lparr>waiting := delete_at i (waiting l)\<rparr>)) tryWakeUp))"

definition isOwner :: "nat \<Rightarrow> LockAccess \<Rightarrow> BaseLock \<Rightarrow> bool" where
  "isOwner owner access l \<longleftrightarrow> (owner, access) \<in> set (owners l)"

end
