(* ===== verification/Bb_Lock_Safety.thy ===== *)
theory Bb_Lock_Safety
  imports Bb_Lock_Facts
begin

text \<open>
  Histories of one lock: any sequence of operations by anyone, those that fail included. The
  invariants: \<open>lock_ok\<close> for the counters, the owners and the queue, \<open>deferreds_ok\<close> for the Deferreds.
\<close>

section \<open>Invariants\<close>

definition owned :: "access_mode \<Rightarrow> (nat \<times> LockAccess) list \<Rightarrow> int" where
  "owned m os = (\<Sum>x\<leftarrow>os. if acc_mode (snd x) = m then units (snd x) else 0)"

definition access_ok :: "LockAccess \<Rightarrow> bool" where
  "access_ok a \<longleftrightarrow> (if acc_mode a = Exclusive then units a = 1 else 0 \<le> units a)"

definition lock_ok :: "BaseLock \<Rightarrow> bool" where
  "lock_ok l \<longleftrightarrow> claimed_excl l = owned Exclusive (owners l) \<and> claimed_counting l = owned Counting (owners l)
     \<and> (\<forall>x\<in>set (owners l). access_ok (snd x) \<and> 0 < units (snd x) \<and> fst x \<noteq> no_one)
     \<and> owned Exclusive (owners l) \<le> 1 \<and> (owned Exclusive (owners l) = 0 \<or> owned Counting (owners l) = 0)
     \<and> distinct (map fst (waiting l))"

definition fired :: "lock_effect list \<Rightarrow> nat list" where
  "fired es = concat (map (\<lambda>e. case e of Eventually d \<Rightarrow> [d] | Stopped d \<Rightarrow> [d] | Released \<Rightarrow> []) es)"

definition deferreds_ok :: "scene \<Rightarrow> bool" where
  "deferreds_ok s \<longleftrightarrow> distinct (deferreds (waiting (the_lock s)) @ fired (effects s))
     \<and> (\<forall>d\<in>set (deferreds (waiting (the_lock s)) @ fired (effects s)). d < next_deferred s)"

definition scene_ok :: "scene \<Rightarrow> bool" where
  "scene_ok s \<longleftrightarrow> lock_ok (the_lock s) \<and> deferreds_ok s"

lemma fired_simps [simp]: "fired [] = []" "fired (es @ fs) = fired es @ fired fs" "fired (map Eventually ds) = ds"
  "fired [Stopped d] = [d]" "fired [Released] = []"
  by (simp_all add: fired_def comp_def)

lemma owned_simps [simp]: "owned m [] = 0" "owned m (os @ ps) = owned m os + owned m ps"
  "owned m [x] = (if acc_mode (snd x) = m then units (snd x) else 0)"
  by (simp_all add: owned_def)

lemma owned_remove1: "x \<in> set os \<Longrightarrow> owned m (remove1 x os) = owned m os - (if acc_mode (snd x) = m then units (snd x) else 0)"
  by (induction os) (auto simp: owned_def)

lemma owned_nonneg: "\<forall>x\<in>set os. 0 < units (snd x) \<Longrightarrow> 0 \<le> owned m os"
  by (induction os) (auto simp: owned_def)

lemma owned_member: "x \<in> set os \<Longrightarrow> \<forall>y\<in>set os. 0 < units (snd y) \<Longrightarrow> units (snd x) \<le> owned (acc_mode (snd x)) os"
proof (induction os)
  case (Cons y os)
  then show ?case using owned_nonneg [of os "acc_mode (snd x)"] by (auto simp: owned_def)
qed simp

lemma mode_cases: "acc_mode a \<noteq> Counting \<longleftrightarrow> acc_mode a = Exclusive" "acc_mode a \<noteq> Exclusive \<longleftrightarrow> acc_mode a = Counting"
  by (cases "acc_mode a"; simp)+

section \<open>The operations keep the invariants\<close>

lemmas lock_wp = wp_simps put_lock_def emit_def

text \<open>What \<open>deferreds_ok\<close> asks for is about the Deferreds that have not been fired and those that have, as a multiset.\<close>

lemma deferreds_ok_mset:
  assumes "deferreds_ok s" "next_deferred s = next_deferred t"
    "mset (deferreds (waiting (the_lock t)) @ fired (effects t)) = mset (deferreds (waiting (the_lock s)) @ fired (effects s))"
  shows "deferreds_ok t"
  using assms mset_eq_imp_distinct_iff [OF assms(3)] mset_eq_setD [OF assms(3)] unfolding deferreds_ok_def by simp

lemma lock_ok_waiting: "lock_ok l \<Longrightarrow> distinct (map fst ws) \<Longrightarrow> lock_ok (l\<lparr>waiting := ws\<rparr>)"
  by (simp add: lock_ok_def)

lemma wake_run:
  "tryWakeUp s = (Inr (), s\<lparr>the_lock := (the_lock s)\<lparr>waiting := map awake (take n (waiting (the_lock s))) @ drop n (waiting (the_lock s))\<rparr>,
     effects := effects s @ map Eventually (deferreds (take n (waiting (the_lock s))))\<rparr>)"
  if "n = woken_count (maxCount (the_lock s)) (claimed_excl (the_lock s)) (claimed_counting (the_lock s)) (waiting (the_lock s))"
  by (simp add: tryWakeUp_def run_combinators wake_loop_count that put_lock_def emit_def)

lemma wake_ok:
  assumes s: "scene_ok s"
  shows "scene_ok (snd (tryWakeUp s))"
proof -
  let ?w = "waiting (the_lock s)"
  define n where "n = woken_count (maxCount (the_lock s)) (claimed_excl (the_lock s)) (claimed_counting (the_lock s)) ?w"
  have "mset (deferreds ?w) = mset (deferreds (take n ?w)) + mset (deferreds (drop n ?w))"
    by (metis append_take_drop_id deferreds_simps(3) mset_append)
  then have "deferreds_ok (snd (tryWakeUp s))"
    using s unfolding wake_run [OF n_def] by - (rule deferreds_ok_mset [of s], simp_all add: scene_ok_def)
  moreover have "lock_ok (the_lock (snd (tryWakeUp s)))"
    using s lock_ok_waiting [of "the_lock s" "map awake (take n ?w) @ drop n ?w"] unfolding wake_run [OF n_def] awake_keeps
    by (simp add: scene_ok_def lock_ok_def)
  ultimately show ?thesis by (simp add: scene_ok_def)
qed

lemma wp_wake: "wp tryWakeUp Q E s \<longleftrightarrow> Q () (snd (tryWakeUp s))"
  by (simp add: wp_def wake_run [OF refl])

lemma setMaxCount_ok: "scene_ok s \<Longrightarrow> wp (setMaxCount n) (\<lambda>_. scene_ok) (\<lambda>_ _. False) s"
  by (auto simp: setMaxCount_def lock_wp wp_wake intro!: wake_ok) (simp_all add: scene_ok_def lock_ok_def deferreds_ok_def)

lemma deferreds_filter: "set (deferreds (filter P ws)) \<subseteq> set (deferreds ws)" "distinct (deferreds ws) \<Longrightarrow> distinct (deferreds (filter P ws))"
  by (induction ws) (auto simp: deferreds_def split: option.splits)

text \<open>A claim that returns has made an owner; one that fails has changed nothing.\<close>

lemma claim_run:
  assumes "lock_ok (the_lock s)"
  shows "claim_lock who a s = (if who \<noteq> no_one \<and> isAvailable who a (the_lock s) \<and> access_ok a
    then (Inr (), if units a = 0 then s else s\<lparr>the_lock := (the_lock s)\<lparr>waiting := [w \<leftarrow> waiting (the_lock s). fst w \<noteq> who],
      owners := owners (the_lock s) @ [(who, a)],
      claimed_excl := claimed_excl (the_lock s) + (if acc_mode a = Exclusive then 1 else 0),
      claimed_counting := claimed_counting (the_lock s) + (if acc_mode a = Counting then units a else 0)\<rparr>\<rparr>)
    else (Inl AssertionError, s))"
proof (cases "who \<noteq> no_one \<and> isAvailable who a (the_lock s) \<and> access_ok a \<and> units a \<noteq> 0")
  case True
  then have "acc_mode a = Counting \<Longrightarrow> 0 \<le> maxCount (the_lock s)"
    using assms owned_nonneg [of "owners (the_lock s)" Counting]
    by (auto simp: isAvailable_iff access_ok_def lock_ok_def mode_cases split: if_splits)
  with True assms show ?thesis
    by (cases "acc_mode a") (auto simp: claim_lock_def addOwner_def run_combinators put_lock_def access_ok_def isAvailable_iff lock_ok_def)
next
  case False
  then show ?thesis by (auto simp: claim_lock_def run_combinators access_ok_def)
qed

lemma claim_ok: "scene_ok s \<Longrightarrow> wp (claim_lock who a) (\<lambda>_. scene_ok) (\<lambda>_. scene_ok) s"
proof -
  assume s: "scene_ok s"
  let ?l = "the_lock s"
  let ?t = "s\<lparr>the_lock := ?l\<lparr>waiting := [w \<leftarrow> waiting ?l. fst w \<noteq> who],
      owners := owners ?l @ [(who, a)], claimed_excl := claimed_excl ?l + (if acc_mode a = Exclusive then 1 else 0),
      claimed_counting := claimed_counting ?l + (if acc_mode a = Counting then units a else 0)\<rparr>\<rparr>"
  have "scene_ok ?t" if "who \<noteq> no_one" "isAvailable who a ?l" "access_ok a" "units a \<noteq> 0"
  proof -
    have "0 < units a" using that(3,4) by (auto simp: access_ok_def split: if_splits)
    then have "lock_ok (the_lock ?t)"
      using s that by (cases "acc_mode a") (auto simp: scene_ok_def lock_ok_def isAvailable_iff access_ok_def distinct_map_filter)
    moreover have "deferreds_ok ?t"
      using s deferreds_filter [where P = "\<lambda>w. fst w \<noteq> who" and ws = "waiting ?l"] by (auto simp: scene_ok_def deferreds_ok_def)
    ultimately show ?thesis by (simp add: scene_ok_def)
  qed
  then show ?thesis using s by (simp add: wp_def claim_run scene_ok_def)
qed

definition owner_removed :: "nat \<Rightarrow> LockAccess \<Rightarrow> BaseLock \<Rightarrow> BaseLock" where
  "owner_removed who a l = (if acc_mode a = Counting
     then l\<lparr>owners := remove1 (who, a) (owners l), claimed_counting := claimed_counting l - units a\<rparr>
     else l\<lparr>owners := remove1 (who, a) (owners l), claimed_excl := claimed_excl l - 1\<rparr>)"

lemma owner_removed_fields [simp]: "owners (owner_removed who a l) = remove1 (who, a) (owners l)"
  "waiting (owner_removed who a l) = waiting l" "maxCount (owner_removed who a l) = maxCount l"
  by (simp_all add: owner_removed_def)

lemma release_run:
  "release_lock who a s = (Inr (), if units a = 0 \<or> (who, a) \<notin> set (owners (the_lock s)) then s
     else let t = snd (tryWakeUp (s\<lparr>the_lock := owner_removed who a (the_lock s)\<rparr>)) in t\<lparr>effects := effects t @ [Released]\<rparr>)"
  by (simp add: release_lock_def removeOwner_def run_combinators put_lock_def emit_def owner_removed_def wake_run [OF refl] Let_def)

lemma owner_removed_ok:
  assumes l: "lock_ok l" and own: "(who, a) \<in> set (owners l)"
  shows "lock_ok (owner_removed who a l)"
proof -
  have units: "0 < units a" "acc_mode a = Exclusive \<Longrightarrow> units a = 1" "units a \<le> owned (acc_mode a) (owners l)"
    using l own owned_member [OF own] by (auto simp: lock_ok_def access_ok_def)
  have rest: "\<forall>x\<in>set (remove1 (who, a) (owners l)). access_ok (snd x) \<and> 0 < units (snd x) \<and> fst x \<noteq> no_one"
    using l set_remove1_subset [of "(who, a)" "owners l"] unfolding lock_ok_def by blast
  show ?thesis
    using l own units rest by (cases "acc_mode a") (auto simp: lock_ok_def owned_remove1 owner_removed_def)
qed

lemma release_ok: "scene_ok s \<Longrightarrow> wp (release_lock who a) (\<lambda>_. scene_ok) (\<lambda>_ _. False) s"
proof -
  assume s: "scene_ok s"
  let ?t = "s\<lparr>the_lock := owner_removed who a (the_lock s)\<rparr>"
  have "scene_ok ?t" if "(who, a) \<in> set (owners (the_lock s))"
    using s owner_removed_ok [OF _ that] by (simp add: scene_ok_def deferreds_ok_def)
  from wake_ok [OF this] have "(who, a) \<in> set (owners (the_lock s)) \<Longrightarrow> scene_ok (snd (tryWakeUp ?t))" .
  then show ?thesis
    using s by (auto simp: wp_def release_run Let_def) (auto simp: scene_ok_def deferreds_ok_def)
qed

text \<open>Waiting: the queue keeps its order, and a new waiter comes last.\<close>

lemma list_update_names: "i < length ws \<Longrightarrow> fst (ws ! i) = who \<Longrightarrow> map fst (ws[i := (who, a, d)]) = map fst ws"
  by (simp add: map_update list_update_same_conv)

lemma deferreds_update:
  "i < length ws \<Longrightarrow> snd (snd (ws ! i)) = None \<Longrightarrow> mset (deferreds (ws[i := (who, a, Some d)])) = add_mset d (mset (deferreds ws))"
proof (induction ws arbitrary: i)
  case (Cons w ws)
  then show ?case by (cases i) (auto simp: deferreds_def split: option.splits)
qed simp

lemma deferreds_delete:
  "i < length ws \<Longrightarrow> mset (deferreds ws) = mset (case snd (snd (ws ! i)) of None \<Rightarrow> [] | Some d \<Rightarrow> [d]) + mset (deferreds (delete_at i ws))"
  by (subst id_take_nth_drop [of i ws], assumption) (simp add: delete_at_def deferreds_def)

lemma delete_found:
  assumes "distinct (map fst ws)" "find_waiting who 0 ws = Some i"
  shows "delete_at i ws = [w \<leftarrow> ws. fst w \<noteq> who]"
proof -
  note i = find_waiting_0 [OF assms(2)]
  have ws: "ws = take i ws @ ws ! i # drop (Suc i) ws" using i(1) by (rule id_take_nth_drop)
  then have "distinct (map fst (take i ws @ ws ! i # drop (Suc i) ws))" using assms(1) by simp
  then have "who \<notin> fst ` set (drop (Suc i) ws)" using i(2) by auto
  then have "[w \<leftarrow> take i ws. fst w \<noteq> who] = take i ws" "[w \<leftarrow> drop (Suc i) ws. fst w \<noteq> who] = drop (Suc i) ws"
    using i(3) by (auto intro!: filter_True)
  with i(2) have "[w \<leftarrow> take i ws @ ws ! i # drop (Suc i) ws. fst w \<noteq> who] = take i ws @ drop (Suc i) ws" by simp
  with ws show ?thesis by (simp add: delete_at_def)
qed

definition waiter_added :: "nat \<Rightarrow> LockAccess \<Rightarrow> scene \<Rightarrow> scene" where
  "waiter_added who a s = s\<lparr>next_deferred := Suc (next_deferred s), the_lock := (the_lock s)\<lparr>waiting :=
     (case find_waiting who 0 (waiting (the_lock s)) of None \<Rightarrow> waiting (the_lock s) @ [(who, a, Some (next_deferred s))]
      | Some i \<Rightarrow> (waiting (the_lock s))[i := (who, a, Some (next_deferred s))])\<rparr>\<rparr>"

lemma wait_run:
  "waitUntilMaybeAvailable who a s = (if isAvailable who a (the_lock s) then (Inr None, s)
     else case find_waiting who 0 (waiting (the_lock s)) of
       None \<Rightarrow> (Inr (Some (next_deferred s)), waiter_added who a s)
     | Some i \<Rightarrow> if snd (snd (waiting (the_lock s) ! i)) = None
         then (Inr (Some (next_deferred s)), waiter_added who a s)
         else (Inl AssertionError, s\<lparr>next_deferred := Suc (next_deferred s)\<rparr>))"
  by (simp add: waitUntilMaybeAvailable_def run_combinators new_deferred_def put_lock_def waiter_added_def split: option.split)

lemma waiter_added_ok:
  assumes s: "scene_ok s"
    and fresh: "\<And>i. find_waiting who 0 (waiting (the_lock s)) = Some i \<Longrightarrow> snd (snd (waiting (the_lock s) ! i)) = None"
  shows "scene_ok (waiter_added who a s)"
proof -
  let ?w = "waiting (the_lock s)" and ?t = "waiter_added who a s"
  have names: "distinct (map fst (waiting (the_lock ?t)))"
    and ds: "mset (deferreds (waiting (the_lock ?t))) = add_mset (next_deferred s) (mset (deferreds ?w))"
    using s find_waiting_None [of who 0 ?w] list_update_names [of _ ?w who] find_waiting_0 [of who ?w] deferreds_update [of _ ?w] fresh
    by (auto simp: waiter_added_def scene_ok_def lock_ok_def split: option.splits)
  have "mset (deferreds (waiting (the_lock ?t)) @ fired (effects ?t)) = mset (next_deferred s # deferreds ?w @ fired (effects s))"
    using ds by (simp add: waiter_added_def)
  from mset_eq_imp_distinct_iff [OF this] mset_eq_setD [OF this] have "deferreds_ok ?t"
    using s by (auto simp: scene_ok_def deferreds_ok_def waiter_added_def less_Suc_eq)
  with names s show ?thesis
    by (simp add: scene_ok_def lock_ok_def waiter_added_def)
qed

lemma wait_ok: "scene_ok s \<Longrightarrow> wp (waitUntilMaybeAvailable who a) (\<lambda>_. scene_ok) (\<lambda>_. scene_ok) s"
  using waiter_added_ok [of s who a]
  by (auto simp: wp_def wait_run split: option.splits) (auto simp: scene_ok_def deferreds_ok_def less_Suc_eq)

lemma stop_run:
  assumes "lock_ok (the_lock s)"
  shows "stopWaitingUntilAvailable who d s = (case find_waiting who 0 (waiting (the_lock s)) of
       None \<Rightarrow> (Inl AssertionError, s)
     | Some i \<Rightarrow> let t = s\<lparr>the_lock := (the_lock s)\<lparr>waiting := [w \<leftarrow> waiting (the_lock s). fst w \<noteq> who]\<rparr>\<rparr> in
         case snd (snd (waiting (the_lock s) ! i)) of
           None \<Rightarrow> (Inr (), snd (tryWakeUp t))
         | Some old \<Rightarrow> if d = old then (Inr (), t\<lparr>effects := effects s @ [Stopped d]\<rparr>) else (Inl AssertionError, s))"
  using assms delete_found [of "waiting (the_lock s)" who]
  by (auto simp: stopWaitingUntilAvailable_def run_combinators put_lock_def emit_def lock_ok_def Let_def wake_run [OF refl] split: option.split)

lemma stop_ok: "scene_ok s \<Longrightarrow> wp (stopWaitingUntilAvailable who d) (\<lambda>_. scene_ok) (\<lambda>_. scene_ok) s"
proof -
  assume s: "scene_ok s"
  then have l: "lock_ok (the_lock s)" "distinct (map fst (waiting (the_lock s)))" by (simp_all add: scene_ok_def lock_ok_def)
  let ?t = "s\<lparr>the_lock := (the_lock s)\<lparr>waiting := [w \<leftarrow> waiting (the_lock s). fst w \<noteq> who]\<rparr>\<rparr>"
  have lock: "lock_ok (the_lock ?t)" using l lock_ok_waiting [OF l(1), of "[w \<leftarrow> waiting (the_lock s). fst w \<noteq> who]"] by (simp add: distinct_map_filter)
  have t: "scene_ok ?t"
    using s lock deferreds_filter [where P = "\<lambda>w. fst w \<noteq> who" and ws = "waiting (the_lock s)"] by (auto simp: scene_ok_def deferreds_ok_def)
  have "scene_ok (?t\<lparr>effects := effects s @ [Stopped old]\<rparr>)"
    if i: "find_waiting who 0 (waiting (the_lock s)) = Some i" "snd (snd (waiting (the_lock s) ! i)) = Some old" for i old
  proof -
    have "deferreds_ok (?t\<lparr>effects := effects s @ [Stopped old]\<rparr>)"
      using deferreds_delete [OF find_waiting_0(1) [OF i(1)]] delete_found [OF l(2) i(1)] i(2) s
      by - (rule deferreds_ok_mset [of s], simp_all add: scene_ok_def)
    with lock show ?thesis by (simp add: scene_ok_def)
  qed
  with s wake_ok [OF t] show ?thesis
    by (simp add: wp_def stop_run [OF l(1)] Let_def split: option.split)
qed

section \<open>Histories\<close>

text \<open>
  The operations anyone may call on a lock, by anyone and in any order; one that fails leaves the lock as
  it is then. \<open>reached l s\<close>: the lock came from \<open>l\<close>, newly made, to \<open>s\<close>.
\<close>

datatype lock_op = Claim nat LockAccess | Release nat LockAccess | Set_max int | Wait nat LockAccess | Stop nat nat

fun perform :: "lock_op \<Rightarrow> (scene, unit) prog" where
  "perform (Claim who a) = claim_lock who a"
| "perform (Release who a) = release_lock who a"
| "perform (Set_max n) = setMaxCount n"
| "perform (Wait who a) = bnd (waitUntilMaybeAvailable who a) (\<lambda>_. ret ())"
| "perform (Stop who d) = stopWaitingUntilAvailable who d"

definition first_scene :: "BaseLock \<Rightarrow> scene" where
  "first_scene l = \<lparr>the_lock = l, next_deferred = 0, effects = []\<rparr>"

inductive reached :: "scene \<Rightarrow> bool" where
  fresh: "reached (first_scene (make_lock name n))"
| op: "reached s \<Longrightarrow> perform q s = (r, t) \<Longrightarrow> reached t"

lemma perform_ok: "scene_ok s \<Longrightarrow> wp (perform q) (\<lambda>_. scene_ok) (\<lambda>_. scene_ok) s"
proof (induction q)
  case (Release who a)
  then show ?case using release_ok [of s who a] by (auto intro: wp_mono)
next
  case (Set_max n)
  then show ?case using setMaxCount_ok [of s n] by (auto intro: wp_mono)
next
  case (Wait who a)
  from wp_mono [OF wait_ok [OF this, of who a]] show ?case by (simp add: wp_simps)
qed (simp_all add: claim_ok stop_ok)

lemma reached_ok: "reached s \<Longrightarrow> scene_ok s"
proof (induction rule: reached.induct)
  case (fresh name n)
  show ?case by (simp add: first_scene_def make_lock_def scene_ok_def lock_ok_def deferreds_ok_def)
next
  case (op s q r t)
  then show ?case using perform_ok [of s q] by (cases r) (auto simp: wp_def)
qed

text \<open>An exclusive owner is the only one.\<close>

lemma exclusive_alone:
  assumes "lock_ok l" "(who, a) \<in> set (owners l)" "acc_mode a = Exclusive"
  shows "owners l = [(who, a)]"
proof -
  have pos: "\<forall>x\<in>set (owners l). 0 < units (snd x)" and ex: "owned Exclusive (owners l) \<le> 1"
    using assms(1) by (auto simp: lock_ok_def)
  from assms(2) obtain us vs where os: "owners l = us @ (who, a) # vs" by (auto simp: in_set_conv_decomp)
  have one: "units a = 1" using assms by (force simp: lock_ok_def access_ok_def)
  have nonneg: "0 \<le> owned m us" "0 \<le> owned m vs" for m using pos owned_nonneg os by auto
  have "owned m (owners l) = owned m us + (if acc_mode a = m then 1 else 0) + owned m vs" for m
    using one unfolding os by (simp add: owned_def)
  from this [of Exclusive] this [of Counting] ex assms(3) nonneg [of Exclusive]
  have "owned Exclusive us = 0" "owned Exclusive vs = 0" "owned Counting (owners l) = owned Counting us + owned Counting vs"
    "owned Exclusive (owners l) \<noteq> 0" by simp_all
  moreover from this have "owned Counting us = 0" "owned Counting vs = 0"
    using assms(1) nonneg(1) [of Counting] nonneg(2) [of Counting] by (auto simp: lock_ok_def)
  moreover have "ps = []" if "owned Exclusive ps = 0" "owned Counting ps = 0" "set ps \<subseteq> set (owners l)" for ps
  proof (rule ccontr)
    assume "ps \<noteq> []"
    then obtain x where x: "x \<in> set ps" by (cases ps) auto
    have "\<forall>y\<in>set ps. 0 < units (snd y)" using that(3) pos by blast
    from owned_member [OF x this] x this have "0 < owned (acc_mode (snd x)) ps" by fastforce
    with that(1,2) show False by (cases "acc_mode (snd x)") auto
  qed
  ultimately show ?thesis using os by auto
qed

end
