(* ===== verification/Bb_Lock_Progress.thy ===== *)
theory Bb_Lock_Progress
  imports Bb_Lock_Safety
begin

text \<open>
  That waiting ends: while no one owns a lock, its first waiter has been woken and may claim it. This
  needs that no one asks for more units than the lock has. Without that, and for a lock that is only partly
  claimed, it does not hold: \<open>sleeping_scene\<close> is a history after which the first waiter sleeps although the
  lock is available to it.
\<close>

definition fits :: "int \<Rightarrow> LockAccess \<Rightarrow> bool" where
  "fits b a \<longleftrightarrow> access_ok a \<and> (acc_mode a = Counting \<longrightarrow> units a \<le> b)"

text \<open>Operations that neither lower the lock below \<open>b\<close> units nor wait for more than \<open>b\<close>.\<close>

fun modest :: "int \<Rightarrow> lock_op \<Rightarrow> bool" where
  "modest b (Set_max n) = (b \<le> n)"
| "modest b (Wait who a) = fits b a"
| "modest b _ = True"

inductive reached_within :: "int \<Rightarrow> scene \<Rightarrow> bool" for b where
  fresh: "b \<le> n \<Longrightarrow> reached_within b (first_scene (make_lock name n))"
| op: "reached_within b s \<Longrightarrow> modest b q \<Longrightarrow> perform q s = (r, t) \<Longrightarrow> reached_within b t"

definition all_fit :: "int \<Rightarrow> BaseLock \<Rightarrow> bool" where
  "all_fit b l \<longleftrightarrow> b \<le> maxCount l \<and> (\<forall>w\<in>set (waiting l). fits b (fst (snd w)))"

definition head_awake :: "BaseLock \<Rightarrow> bool" where
  "head_awake l \<longleftrightarrow> owners l \<noteq> [] \<or> waiting l = [] \<or> snd (snd (hd (waiting l))) = None"

lemma wake_head: "0 < b \<Longrightarrow> lock_ok (the_lock s) \<Longrightarrow> all_fit b (the_lock s) \<Longrightarrow>
    all_fit b (the_lock (snd (tryWakeUp s))) \<and> head_awake (the_lock (snd (tryWakeUp s)))"
proof -
  assume b: "0 < b" and s: "lock_ok (the_lock s)" "all_fit b (the_lock s)"
  let ?w = "waiting (the_lock s)"
  define n where "n = woken_count (maxCount (the_lock s)) (claimed_excl (the_lock s)) (claimed_counting (the_lock s)) ?w"
  have "0 < n" if "owners (the_lock s) = []" "?w \<noteq> []"
    using that b s unfolding n_def by (cases ?w) (auto simp: lets_in_def lock_ok_def all_fit_def)
  moreover have "fits b (fst (snd w))" if "w \<in> set (map awake (take n ?w) @ drop n ?w)" for w
  proof -
    from that have "(fst w, fst (snd w)) \<in> set (map (\<lambda>w. (fst w, fst (snd w))) ?w)"
      unfolding awake_keeps(2) [of n ?w, symmetric] by (simp only: set_map) (rule imageI)
    with s(2) show ?thesis by (auto simp: all_fit_def)
  qed
  moreover have "snd (snd (awake w)) = None" for w by (simp add: awake_def)
  ultimately show ?thesis
    using s(2) unfolding wake_run [OF n_def]
    by (cases ?w; cases n) (auto simp: all_fit_def head_awake_def)
qed

text \<open>A free lock is available to whoever has no one ahead.\<close>

lemma free_available:
  assumes "lock_ok l" "owners l = []" "ahead_of who (waiting l) = []" "fits b a" "b \<le> maxCount l"
  shows "isAvailable who a l"
  using assms by (auto simp: isAvailable_iff lock_ok_def fits_def)

lemma ahead_of_hd: "ws \<noteq> [] \<Longrightarrow> fst (hd ws) = who \<Longrightarrow> ahead_of who ws = []"
  by (cases ws) (simp_all add: ahead_of_def)

lemma hd_filter: "ws \<noteq> [] \<Longrightarrow> P (hd ws) \<Longrightarrow> hd (filter P ws) = hd ws"
  by (cases ws) simp_all

lemma waiter_added_head:
  assumes "lock_ok (the_lock s)" "all_fit b (the_lock s)" "head_awake (the_lock s)" "fits b a" "\<not> isAvailable who a (the_lock s)"
  shows "all_fit b (the_lock (waiter_added who a s)) \<and> head_awake (the_lock (waiter_added who a s))"
proof -
  let ?w = "waiting (the_lock s)"
  have "all_fit b (the_lock (waiter_added who a s))"
    using assms(2,4) by (auto simp: all_fit_def waiter_added_def split: option.splits dest!: set_update_subset_insert [THEN subsetD])
  moreover have "owners (the_lock s) \<noteq> [] \<or> (?w \<noteq> [] \<and> fst (hd ?w) \<noteq> who)"
    using free_available [OF assms(1), of who b a] assms(2,4,5) ahead_of_hd [of ?w who] by (cases ?w) (auto simp: all_fit_def ahead_of_def)
  moreover have "i \<noteq> 0" if "find_waiting who 0 ?w = Some i" "fst (hd ?w) \<noteq> who" for i
    using find_waiting_0 [OF that(1)] that(2) by (cases i) (auto simp: hd_conv_nth)
  ultimately show ?thesis
    using assms(3) by (auto simp: head_awake_def waiter_added_def hd_append hd_conv_nth nth_append nth_list_update split: option.splits)
qed

lemma modest_step:
  assumes b: "0 < b" and s: "scene_ok s" "all_fit b (the_lock s)" "head_awake (the_lock s)"
    and q: "modest b q" "perform q s = (r, t)"
  shows "all_fit b (the_lock t) \<and> head_awake (the_lock t)"
proof (cases q)
  case (Claim who a)
  then show ?thesis
    using q(2) s claim_run [of s who a] by (auto simp: scene_ok_def all_fit_def head_awake_def split: if_splits)
next
  case (Release who a)
  let ?t = "s\<lparr>the_lock := owner_removed who a (the_lock s)\<rparr>"
  have "(who, a) \<in> set (owners (the_lock s)) \<Longrightarrow> lock_ok (the_lock ?t)"
    using s(1) owner_removed_ok by (simp add: scene_ok_def)
  with wake_head [OF b, of ?t] s Release q(2) show ?thesis
    by (auto simp: release_run Let_def all_fit_def split: if_splits)
next
  case (Set_max n)
  have "lock_ok ((the_lock s)\<lparr>maxCount := n\<rparr>)" using s(1) by (simp add: scene_ok_def lock_ok_def)
  with wake_head [OF b, of "s\<lparr>the_lock := (the_lock s)\<lparr>maxCount := n\<rparr>\<rparr>"] s q Set_max show ?thesis
    by (auto simp: setMaxCount_def run_combinators put_lock_def all_fit_def head_awake_def wake_run [OF refl] split: if_splits)
next
  case (Wait who a)
  then show ?thesis
    using q s waiter_added_head [of s b a who] by (auto simp: run_combinators wait_run scene_ok_def split: if_splits option.splits)
next
  case (Stop who d)
  let ?w = "waiting (the_lock s)"
  let ?t = "s\<lparr>the_lock := (the_lock s)\<lparr>waiting := [w \<leftarrow> ?w. fst w \<noteq> who]\<rparr>\<rparr>"
  have l: "lock_ok (the_lock s)" using s(1) by (simp add: scene_ok_def)
  have t: "lock_ok (the_lock ?t)" "all_fit b (the_lock ?t)"
    using l s(2) lock_ok_waiting [OF l, of "[w \<leftarrow> ?w. fst w \<noteq> who]"] by (auto simp: lock_ok_def distinct_map_filter all_fit_def)
  have "head_awake (the_lock ?t)" if i: "find_waiting who 0 ?w = Some i" "snd (snd (?w ! i)) \<noteq> None" for i
  proof (cases "fst (hd ?w) = who")
    case True
    then have "i = 0"
      using find_waiting_0 [OF i(1)] by (cases i; cases ?w) auto
    with s(3) i(2) find_waiting_0 [OF i(1)] show ?thesis by (auto simp: head_awake_def hd_conv_nth)
  next
    case False
    with s(3) find_waiting_0(1) [OF i(1)] show ?thesis
      by (cases ?w) (auto simp: head_awake_def)
  qed
  with t wake_head [OF b, of ?t] s(2,3) q(2) Stop show ?thesis
    by (auto simp: stop_run [OF l] Let_def split: option.splits if_splits)
qed

lemma within_ok:
  assumes "0 < b" "reached_within b s"
  shows "scene_ok s \<and> all_fit b (the_lock s) \<and> head_awake (the_lock s)"
  using assms(2)
proof (induction rule: reached_within.induct)
  case (fresh n name)
  then show ?case
    using reached_ok [OF reached.fresh [of name n]] by (simp add: first_scene_def make_lock_def all_fit_def head_awake_def)
next
  case (op s q r t)
  moreover from this have "scene_ok t" using perform_ok [of s q] by (cases r) (auto simp: wp_def)
  ultimately show ?case using modest_step [OF assms(1)] by blast
qed

text \<open>While no one owns the lock, its first waiter has been woken and its claim succeeds.\<close>

lemma free_lock_serves:
  assumes "0 < b" "reached_within b s" "owners (the_lock s) = []" "waiting (the_lock s) = (who, a, d) # ws"
  shows "d = None" "isAvailable who a (the_lock s)"
    and "who \<noteq> no_one \<Longrightarrow> owners (the_lock (snd (claim_lock who a s))) = (if units a = 0 then [] else [(who, a)])"
proof -
  note ok = within_ok [OF assms(1,2)]
  show "d = None" using ok assms(3,4) by (auto simp: head_awake_def)
  show av: "isAvailable who a (the_lock s)"
    by (rule free_available [of _ who b]) (use ok assms(3,4) in \<open>auto simp: scene_ok_def all_fit_def ahead_of_def\<close>)
  have "lock_ok (the_lock s)" "access_ok a" using ok assms(4) by (auto simp: scene_ok_def all_fit_def fits_def)
  then show "owners (the_lock (snd (claim_lock who a s))) = (if units a = 0 then [] else [(who, a)])" if "who \<noteq> no_one"
    using av that assms(3) by (simp add: claim_run)
qed

text \<open>
  A history of a lock of two units: an owner takes one unit; an exclusive requester waits; a counting one waits
  behind it; the exclusive one stops waiting before it was woken. The counting one is now the first waiter and the
  lock is available to it, yet it has not been woken.
\<close>

definition one_unit :: LockAccess where
  "one_unit = \<lparr>lockid = MasterLock [] 2, acc_mode = Counting, units = 1\<rparr>"

definition whole_lock :: LockAccess where
  "whole_lock = \<lparr>lockid = MasterLock [] 2, acc_mode = Exclusive, units = 1\<rparr>"

definition sleeping_history :: "lock_op list" where
  "sleeping_history = [Claim 1 one_unit, Wait 2 whole_lock, Wait 3 one_unit, Stop 2 0]"

definition after_history :: "lock_op list \<Rightarrow> scene \<Rightarrow> scene" where
  "after_history qs s = fold (\<lambda>q s. snd (perform q s)) qs s"

definition sleeping_scene :: scene where
  "sleeping_scene = after_history sleeping_history (first_scene (make_lock [] 2))"

lemma sleeping_scene_simps:
  "waiting (the_lock sleeping_scene) = [(3, one_unit, Some 1)]" "owners (the_lock sleeping_scene) = [(1, one_unit)]"
  "isAvailable 3 one_unit (the_lock sleeping_scene)" "effects sleeping_scene = [Stopped 0]"
  by code_simp+

lemma history_reached: "reached s \<Longrightarrow> reached (after_history qs s)"
proof (induction qs arbitrary: s)
  case (Cons q qs)
  have "reached (snd (perform q s))" by (rule reached.op [OF Cons.prems prod.collapse [symmetric]])
  from Cons.IH [OF this] show ?case by (simp add: after_history_def)
qed (simp add: after_history_def)

lemma history_within: "reached_within b s \<Longrightarrow> list_all (modest b) qs \<Longrightarrow> reached_within b (after_history qs s)"
proof (induction qs arbitrary: s)
  case (Cons q qs)
  have "reached_within b (snd (perform q s))"
    by (rule reached_within.op [OF Cons.prems(1) _ prod.collapse [symmetric]]) (use Cons.prems(2) in simp)
  from Cons.IH [OF this] Cons.prems(2) show ?case by (simp add: after_history_def)
qed (simp add: after_history_def)

section \<open>How much is claimed\<close>

text \<open>If the lock never has more than \<open>m\<close> units, its owners never have more.\<close>

definition capped :: "int \<Rightarrow> BaseLock \<Rightarrow> bool" where
  "capped m l \<longleftrightarrow> claimed_counting l \<le> m \<and> maxCount l \<le> m"

lemma capped_simps: "capped m (l\<lparr>waiting := ws\<rparr>) = capped m l" "capped m (the_lock (snd (tryWakeUp s))) = capped m (the_lock s)"
  "capped m (the_lock (waiter_added who a s)) = capped m (the_lock s)"
  by (simp_all add: capped_def wake_run [OF refl] waiter_added_def)

lemma capped_release: "lock_ok l \<Longrightarrow> (who, a) \<in> set (owners l) \<Longrightarrow> capped m l \<Longrightarrow> capped m (owner_removed who a l)"
  by (auto simp: capped_def owner_removed_def lock_ok_def)

lemma capped_step:
  assumes s: "scene_ok s" "capped m (the_lock s)" and q: "\<And>n. q = Set_max n \<Longrightarrow> n \<le> m" "perform q s = (r, t)"
  shows "capped m (the_lock t)"
proof -
  have l: "lock_ok (the_lock s)" using s(1) by (simp add: scene_ok_def)
  show ?thesis
  proof (cases q)
    case (Claim who a)
    then show ?thesis
      using q(2) s(2) claim_run [OF l, of who a] by (auto simp: capped_def isAvailable_iff split: if_splits)
  next
    case (Release who a)
    then show ?thesis
      using q(2) s(2) capped_release [OF l, of who a m] by (auto simp: release_run Let_def capped_simps split: if_splits)
  next
    case (Set_max n)
    then have "n \<le> m" by (rule q(1))
    then have "capped m ((the_lock s)\<lparr>maxCount := n\<rparr>)" using s(2) by (simp add: capped_def)
    then show ?thesis
      using q(2) s(2) Set_max capped_simps(2) [of m "s\<lparr>the_lock := (the_lock s)\<lparr>maxCount := n\<rparr>\<rparr>"]
      by (auto simp: setMaxCount_def run_combinators put_lock_def wake_run [OF refl] split: if_splits)
  next
    case (Wait who a)
    then show ?thesis
      using q(2) s(2) by (auto simp: run_combinators wait_run capped_simps split: if_splits option.splits)
  next
    case (Stop who d)
    then show ?thesis
      using q(2) s(2) by (auto simp: stop_run [OF l] Let_def capped_simps split: option.splits if_splits)
  qed
qed

lemma history_capped:
  "scene_ok s \<Longrightarrow> capped m (the_lock s) \<Longrightarrow> \<forall>n. Set_max n \<in> set qs \<longrightarrow> n \<le> m \<Longrightarrow> capped m (the_lock (after_history qs s))"
proof (induction qs arbitrary: s)
  case (Cons q qs)
  obtain r t where t: "perform q s = (r, t)" by (cases "perform q s")
  have "scene_ok t" using perform_ok [OF Cons.prems(1), of q] t by (cases r) (auto simp: wp_def)
  moreover have "capped m (the_lock t)" by (rule capped_step [OF Cons.prems(1,2) _ t]) (use Cons.prems(3) in auto)
  ultimately show ?case using Cons.IH [of t] Cons.prems(3) t by (simp add: after_history_def)
qed (simp add: after_history_def)

section \<open>Whose turn it is\<close>

text \<open>The accesses that come before the waiter at \<open>i\<close>: those of the owners and of everyone ahead of it.\<close>

definition before :: "BaseLock \<Rightarrow> nat \<Rightarrow> LockAccess list" where
  "before l i = map snd (owners l) @ map (\<lambda>w. fst (snd w)) (take i (waiting l))"

text \<open>
  An exclusive waiter has its turn when no one comes before it; a counting one when those before it are all
  counting and leave something of the lock.
\<close>

definition has_turn :: "BaseLock \<Rightarrow> nat \<Rightarrow> bool" where
  "has_turn l i \<longleftrightarrow> (if acc_mode (fst (snd (waiting l ! i))) = Exclusive then before l i = []
     else (\<forall>a\<in>set (before l i). acc_mode a = Counting) \<and> (\<Sum>a\<leftarrow>before l i. units a) < maxCount l)"

text \<open>Operations by requesters whose accesses \<open>LockAccess\<close> accepts; then everyone in the queue asks for something.\<close>

fun proper_op :: "lock_op \<Rightarrow> bool" where
  "proper_op (Wait who a) = access_ok a"
| "proper_op _ = True"

definition asks_ok :: "BaseLock \<Rightarrow> bool" where
  "asks_ok l \<longleftrightarrow> (\<forall>w\<in>set (waiting l). access_ok (fst (snd w)) \<and> 0 < units (fst (snd w)))"

lemma asks_wake: "asks_ok (the_lock (snd (tryWakeUp s))) = asks_ok (the_lock s)"
proof -
  have "asks_ok l \<longleftrightarrow> (\<forall>x\<in>set (map (\<lambda>w. (fst w, fst (snd w))) (waiting l)). access_ok (snd x) \<and> 0 < units (snd x))" for l
    by (simp add: asks_ok_def)
  then show ?thesis by (simp only: wake_run [OF refl] snd_conv) (simp add: awake_keeps(2) del: set_map map_append)
qed

lemma asks_added:
  assumes "asks_ok (the_lock s)" "access_ok a" "\<not> isAvailable who a (the_lock s)"
  shows "asks_ok (the_lock (waiter_added who a s))"
proof -
  from assms(2,3) have "0 < units a" by (auto simp: isAvailable_def access_ok_def split: if_splits)
  with assms(1,2) show ?thesis
    by (auto simp: asks_ok_def waiter_added_def split: option.splits dest!: set_update_subset_insert [THEN subsetD])
qed

lemma proper_op_step:
  assumes s: "scene_ok s" "asks_ok (the_lock s)" and q: "proper_op q" "perform q s = (r, t)"
  shows "asks_ok (the_lock t)"
proof -
  have l: "lock_ok (the_lock s)" using s(1) by (simp add: scene_ok_def)
  have same: "asks_ok u = asks_ok v" if "waiting u = waiting v" for u v by (simp add: asks_ok_def that)
  show ?thesis
  proof (cases q)
    case (Claim who a)
    then show ?thesis using q(2) s(2) claim_run [OF l, of who a] by (auto simp: asks_ok_def split: if_splits)
  next
    case (Release who a)
    have "asks_ok (owner_removed who a (the_lock s)) = asks_ok (the_lock s)" by (simp add: asks_ok_def)
    with Release q(2) s(2) asks_wake [of "s\<lparr>the_lock := owner_removed who a (the_lock s)\<rparr>"] show ?thesis
      by (auto simp: release_run Let_def split: if_splits)
  next
    case (Set_max n)
    then show ?thesis
      using q(2) s(2) asks_wake [of "s\<lparr>the_lock := (the_lock s)\<lparr>maxCount := n\<rparr>\<rparr>"]
      by (auto simp: setMaxCount_def run_combinators put_lock_def wake_run [OF refl] asks_ok_def split: if_splits)
  next
    case (Wait who a)
    then show ?thesis
      using q s(2) asks_added [of s a who] by (auto simp: run_combinators wait_run split: if_splits option.splits)
  next
    case (Stop who d)
    let ?t = "s\<lparr>the_lock := (the_lock s)\<lparr>waiting := [w \<leftarrow> waiting (the_lock s). fst w \<noteq> who]\<rparr>\<rparr>"
    have "asks_ok (the_lock ?t)" using s(2) by (simp add: asks_ok_def)
    with Stop q(2) s(2) asks_wake [of ?t] show ?thesis
      by (auto simp: stop_run [OF l] Let_def split: option.splits if_splits)
  qed
qed

lemma history_asks:
  "scene_ok s \<Longrightarrow> asks_ok (the_lock s) \<Longrightarrow> list_all proper_op qs \<Longrightarrow>
   scene_ok (after_history qs s) \<and> asks_ok (the_lock (after_history qs s))"
proof (induction qs arbitrary: s)
  case (Cons q qs)
  obtain r t where t: "perform q s = (r, t)" by (cases "perform q s")
  have "scene_ok t" using perform_ok [OF Cons.prems(1), of q] t by (cases r) (auto simp: wp_def)
  moreover have "asks_ok (the_lock t)" by (rule proper_op_step [OF Cons.prems(1,2) _ t]) (use Cons.prems(3) in simp)
  ultimately show ?case using Cons.IH [of t] Cons.prems(3) t by (simp add: after_history_def)
qed (simp add: after_history_def)

lemma fresh_asks: "scene_ok (first_scene (make_lock name n)) \<and> asks_ok (the_lock (first_scene (make_lock name n)))"
  using reached_ok [OF reached.fresh] by (simp add: asks_ok_def first_scene_def make_lock_def)

text \<open>The units of one mode among positive accesses.\<close>

definition units_given :: "access_mode \<Rightarrow> LockAccess list \<Rightarrow> int" where
  "units_given m as = (\<Sum>a\<leftarrow>as. if acc_mode a = m then units a else 0)"

lemma units_given_nonneg: "\<forall>a\<in>set as. 0 < units a \<Longrightarrow> 0 \<le> units_given m as"
  by (induction as) (auto simp: units_given_def)

lemma units_given_none: "\<forall>a\<in>set as. 0 < units a \<Longrightarrow> units_given m as \<le> 0 \<longleftrightarrow> (\<forall>a\<in>set as. acc_mode a \<noteq> m)"
proof (induction as)
  case (Cons a as)
  then show ?case using units_given_nonneg [of as m] by (auto simp: units_given_def)
qed (simp add: units_given_def)

lemma units_given_all: "\<forall>a\<in>set as. acc_mode a = m \<Longrightarrow> units_given m as = (\<Sum>a\<leftarrow>as. units a)"
  by (induction as) (auto simp: units_given_def)

lemma units_given_before: "lock_ok l \<Longrightarrow> (if m = Exclusive then claimed_excl l else claimed_counting l) + units_in m (take i (waiting l)) = units_given m (before l i)"
  by (cases m) (simp_all add: lock_ok_def units_given_def before_def owned_def units_in_def comp_def)

lemma before_positive: "lock_ok l \<Longrightarrow> asks_ok l \<Longrightarrow> \<forall>a\<in>set (before l i). 0 < units a"
  by (auto simp: before_def lock_ok_def asks_ok_def dest: in_set_takeD)

lemma test_iff:
  assumes l: "lock_ok l" "asks_ok l"
  shows "lets_in (maxCount l) (claimed_excl l + units_in Exclusive (take i (waiting l)))
      (claimed_counting l + units_in Counting (take i (waiting l))) a \<longleftrightarrow>
    (\<forall>b\<in>set (before l i). acc_mode b = Counting) \<and>
    (if acc_mode a = Exclusive then before l i = [] else (\<Sum>b\<leftarrow>before l i. units b) < maxCount l)"
proof -
  note pos = before_positive [OF l, of i]
  have c: "claimed_counting l + units_in Counting (take i (waiting l)) = units_given Counting (before l i)"
    and e: "claimed_excl l + units_in Exclusive (take i (waiting l)) = units_given Exclusive (before l i)"
    using units_given_before [OF l(1), of Counting i] units_given_before [OF l(1), of Exclusive i] by simp_all
  have "before l i = []" if "\<forall>b\<in>set (before l i). acc_mode b = Counting" "\<forall>b\<in>set (before l i). acc_mode b = Exclusive"
    using that by (cases "before l i") auto
  then show ?thesis
    unfolding lets_in_def c e units_given_none [OF pos] mode_cases using units_given_all [of "before l i" Counting]
    by (cases "acc_mode a") auto
qed

lemma before_split:
  assumes "j \<le> i"
  shows "before l i = before l j @ map (\<lambda>w. fst (snd w)) (take (i - j) (drop j (waiting l)))"
proof -
  have "take i (waiting l) = take j (waiting l) @ take (i - j) (drop j (waiting l))"
    using take_add [of j "i - j" "waiting l"] assms by simp
  then show ?thesis by (simp add: before_def)
qed

lemma before_member: "j < i \<Longrightarrow> i < length (waiting l) \<Longrightarrow> fst (snd (waiting l ! j)) \<in> set (before l i)"
  by (auto simp: before_def in_set_conv_nth intro!: image_eqI [of _ _ "waiting l ! j"] exI [of _ j])

lemma turn_ahead:
  assumes l: "lock_ok l" "asks_ok l" and ij: "j < i" "i < length (waiting l)"
    and all: "\<forall>a\<in>set (before l i). acc_mode a = Counting" and sum: "(\<Sum>a\<leftarrow>before l i. units a) < maxCount l"
  shows "\<forall>a\<in>set (before l j). acc_mode a = Counting" and "(\<Sum>a\<leftarrow>before l j. units a) < maxCount l"
    and "acc_mode (fst (snd (waiting l ! j))) = Counting"
proof -
  let ?rest = "map (\<lambda>w. fst (snd w)) (take (i - j) (drop j (waiting l)))"
  have split: "before l i = before l j @ ?rest" using ij(1) by (intro before_split) simp
  have "0 \<le> (\<Sum>a\<leftarrow>?rest. units a)"
    using before_positive [OF l, of i] unfolding split by (intro sum_list_nonneg) (auto intro: less_imp_le)
  with sum show "(\<Sum>a\<leftarrow>before l j. units a) < maxCount l" unfolding split by simp
  show "\<forall>a\<in>set (before l j). acc_mode a = Counting" using all unfolding split by simp
  show "acc_mode (fst (snd (waiting l ! j))) = Counting" using all before_member [OF ij] by blast
qed

lemma turn_iff:
  assumes l: "lock_ok l" "asks_ok l" and i: "i < length (waiting l)"
  shows "(\<forall>j\<le>i. lets_in (maxCount l) (claimed_excl l + units_in Exclusive (take j (waiting l)))
      (claimed_counting l + units_in Counting (take j (waiting l))) (fst (snd (waiting l ! j)))) \<longleftrightarrow> has_turn l i"
    (is "(\<forall>j\<le>i. ?test j) \<longleftrightarrow> _")
proof -
  have here: "has_turn l i \<longleftrightarrow> ?test i"
    unfolding test_iff [OF l] has_turn_def by (cases "before l i") auto
  have "?test j" if "j < i" "has_turn l i" for j
  proof -
    have "before l i \<noteq> []" using before_member [OF that(1) i] by auto
    with that(2) have "\<forall>a\<in>set (before l i). acc_mode a = Counting" "(\<Sum>a\<leftarrow>before l i. units a) < maxCount l"
      by (auto simp: has_turn_def split: if_splits)
    from turn_ahead [OF l that(1) i this] show ?thesis unfolding test_iff [OF l] by simp
  qed
  with here show ?thesis by (metis le_eq_less_or_eq)
qed

text \<open>
  Whoever finds the lock available has its turn, if those ahead of it ask for one unit each: \<open>isAvailable\<close> counts
  those ahead, and not their units.
\<close>

lemma find_at: "distinct (map fst ws) \<Longrightarrow> i < length ws \<Longrightarrow> ahead_of (fst (ws ! i)) ws = take i ws"
proof (induction ws arbitrary: i)
  case (Cons w ws)
  then show ?case by (cases i) (auto simp: ahead_of_def)
qed simp

lemma available_turn:
  assumes l: "lock_ok l" "asks_ok l" and i: "i < length (waiting l)" "waiting l ! i = (who, a, d)"
    and available: "isAvailable who a l" and single: "\<forall>w\<in>set (take i (waiting l)). units (fst (snd w)) = 1"
  shows "has_turn l i"
proof -
  have ahead: "ahead_of who (waiting l) = take i (waiting l)"
    using find_at [of "waiting l" i] l(1) i by (simp add: lock_ok_def)
  from i have "(who, a, d) \<in> set (waiting l)" by (metis nth_mem)
  with l(2) have "0 < units a" by (auto simp: asks_ok_def)
  have sum: "(\<Sum>w\<leftarrow>ws. units (fst (snd w))) = int (length ws)" if "\<forall>w\<in>set ws. units (fst (snd w)) = 1" for ws :: "waiter list"
    using that by (induction ws) auto
  note pos = before_positive [OF l, of 0]
  have owners: "before l 0 = map snd (owners l)" by (simp add: before_def)
  have "claimed_excl l = 0" using available \<open>0 < units a\<close> by (simp add: isAvailable_iff)
  with units_given_before [OF l(1), of Exclusive 0] units_given_none [OF pos, of Exclusive]
  have counting: "\<forall>b\<in>set (before l 0). acc_mode b = Counting" by (simp add: units_in_def mode_cases)
  with units_given_before [OF l(1), of Counting 0] units_given_all [of "before l 0" Counting]
  have claimed: "claimed_counting l = (\<Sum>b\<leftarrow>before l 0. units b)" by (simp add: units_in_def)
  show ?thesis
  proof (cases "acc_mode a")
    case Counting
    with available i ahead sum [OF single] counting claimed \<open>0 < units a\<close> show ?thesis
      by (auto simp: isAvailable_iff has_turn_def before_def comp_def)
  next
    case Exclusive
    with available ahead claimed units_given_none [OF pos, of Counting] counting i \<open>0 < units a\<close>
      units_given_before [OF l(1), of Counting 0]
    show ?thesis by (cases "owners l") (auto simp: isAvailable_iff has_turn_def before_def units_in_def)
  qed
qed

text \<open>What \<open>_tryWakeUp\<close> does, all in all.\<close>

lemma woken_waiter:
  assumes l: "lock_ok (the_lock s)" "asks_ok (the_lock s)" and i: "i < length (waiting (the_lock s))"
  shows "snd (waiting (the_lock (snd (tryWakeUp s))) ! i) =
    (fst (snd (waiting (the_lock s) ! i)), if has_turn (the_lock s) i then None else snd (snd (waiting (the_lock s) ! i)))"
proof -
  define ws where "ws = waiting (the_lock s)"
  define n where "n = woken_count (maxCount (the_lock s)) (claimed_excl (the_lock s)) (claimed_counting (the_lock s)) ws"
  have n: "n \<le> length ws" unfolding n_def by (rule woken_count_le)
  have turn: "i < n \<longleftrightarrow> has_turn (the_lock s) i"
    using woken_count_iff [of i ws] turn_iff [OF l i] i unfolding n_def ws_def by simp
  have "waiting (the_lock (snd (tryWakeUp s))) = map awake (take n ws) @ drop n ws"
    using wake_run [of n s] n_def unfolding ws_def [symmetric] by simp
  then show ?thesis
    using i n unfolding turn [symmetric] ws_def [symmetric] by (cases "i < n") (simp_all add: nth_append awake_def)
qed

lemma wake_order: "map fst (waiting (the_lock (snd (tryWakeUp s)))) = map fst (waiting (the_lock s))"
  by (simp add: wake_run [OF refl] awake_keeps(1) del: map_append)

lemma wake_conserves:
  "mset (deferreds (waiting (the_lock s))) + mset (fired (effects s)) =
   mset (deferreds (waiting (the_lock (snd (tryWakeUp s))))) + mset (fired (effects (snd (tryWakeUp s))))"
proof -
  have "mset (deferreds ws) = mset (deferreds (take n ws)) + mset (deferreds (drop n ws))" for n ws
    by (metis append_take_drop_id deferreds_simps(3) mset_append)
  from this [of "waiting (the_lock s)" "woken_count (maxCount (the_lock s)) (claimed_excl (the_lock s))
    (claimed_counting (the_lock s)) (waiting (the_lock s))"]
  show ?thesis by (simp add: wake_run [OF refl])
qed

lemma wake_twice: "tryWakeUp (snd (tryWakeUp s)) = (Inr (), snd (tryWakeUp s))"
  using wake_loop_idem [of "maxCount (the_lock s)" "claimed_excl (the_lock s)" "claimed_counting (the_lock s)" "waiting (the_lock s)"]
  by (simp add: tryWakeUp_def run_combinators put_lock_def emit_def wake_loop_count)

text \<open>A waiter for whom there is room has its turn.\<close>

lemma room_turn:
  assumes "asks_ok l" "i < length (waiting l)" "\<forall>a\<in>set (before l i). acc_mode a = Counting"
    and "mode_of (waiting l ! i) = Counting"
    and "(\<Sum>a\<leftarrow>before l i. units a) + units (fst (snd (waiting l ! i))) \<le> maxCount l"
  shows "has_turn l i"
proof -
  have "0 < units (fst (snd (waiting l ! i)))" using assms(1) nth_mem [OF assms(2)] unfolding asks_ok_def by blast
  with assms(3-5) show ?thesis by (simp add: has_turn_def)
qed

end
