(* ===== verification/Bb_Real_Locks.thy ===== *)
theory Bb_Real_Locks
  imports Bb_Lock_Progress
begin

text \<open>
  \<open>master/buildbot/locks.py\<close>, classes \<open>RealMasterLock\<close> and \<open>RealWorkerLock\<close>, and the retrieval of real locks from
  lock ids in \<open>process/botmaster.py\<close> and \<open>process/locks.py\<close>. A shared service is known by its lock's name.
\<close>

section \<open>The locks of a master\<close>

record RealMasterLock =
  ml_lock :: BaseLock
  ml_version :: int

text \<open>\<open>maxCount\<close> and \<open>maxCountForWorker\<close> of a worker lock are \<open>None\<close> until the first update.\<close>

record RealWorkerLock =
  wl_name :: pystr
  wl_max :: "int option"
  wl_for_worker :: "(pystr \<times> int) list option"
  wl_version :: int
  wl_locks :: "(pystr \<times> BaseLock) list"

definition make_master_lock :: "pystr \<Rightarrow> RealMasterLock" where
  "make_master_lock name = \<lparr>ml_lock = make_lock name 0, ml_version = - 1\<rparr>"

definition make_worker_lock :: "pystr \<Rightarrow> RealWorkerLock" where
  "make_worker_lock name = \<lparr>wl_name = name, wl_max = None, wl_for_worker = None, wl_version = - 1, wl_locks = []\<rparr>"

text \<open>Which lock a user holds: a master lock by its name, or a worker lock's lock for a worker.\<close>

datatype lock_ref = On_master pystr | On_worker pystr pystr

record lock_world =
  masters :: "pystr \<rightharpoonup> RealMasterLock"
  workers :: "pystr \<rightharpoonup> RealWorkerLock"
  world_deferred :: nat
  world_effects :: "(lock_ref \<times> lock_effect) list"

definition lock_at :: "lock_world \<Rightarrow> lock_ref \<Rightarrow> BaseLock option" where
  "lock_at w ref = (case ref of
       On_master n \<Rightarrow> map_option ml_lock (masters w n)
     | On_worker n worker \<Rightarrow> Option.bind (workers w n) (\<lambda>l. map_of (wl_locks l) worker))"

primrec put_assoc :: "'k \<Rightarrow> 'v \<Rightarrow> ('k \<times> 'v) list \<Rightarrow> ('k \<times> 'v) list" where
  "put_assoc k v [] = [(k, v)]"
| "put_assoc k v (p # ps) = (if fst p = k then (k, v) # ps else p # put_assoc k v ps)"

definition put_lock_at :: "lock_ref \<Rightarrow> BaseLock \<Rightarrow> lock_world \<Rightarrow> lock_world" where
  "put_lock_at ref l w = (case ref of
       On_master n \<Rightarrow> (case masters w n of None \<Rightarrow> w | Some m \<Rightarrow> w\<lparr>masters := (masters w)(n \<mapsto> m\<lparr>ml_lock := l\<rparr>)\<rparr>)
     | On_worker n worker \<Rightarrow> (case workers w n of None \<Rightarrow> w
         | Some r \<Rightarrow> w\<lparr>workers := (workers w)(n \<mapsto> r\<lparr>wl_locks := put_assoc worker l (wl_locks r)\<rparr>)\<rparr>))"

text \<open>An operation on one of the locks.\<close>

definition on_lock :: "lock_ref \<Rightarrow> (scene, 'a) prog \<Rightarrow> (lock_world, 'a) prog" where
  "on_lock ref m = (\<lambda>w. case lock_at w ref of None \<Rightarrow> (Inl KeyError, w)
     | Some l \<Rightarrow> (case m \<lparr>the_lock = l, next_deferred = world_deferred w, effects = []\<rparr> of
         (r, s) \<Rightarrow> (r, (put_lock_at ref (the_lock s) w)\<lparr>world_deferred := next_deferred s,
           world_effects := world_effects w @ map (Pair ref) (effects s)\<rparr>)))"

section \<open>Updates\<close>

fun id_name :: "lock_id \<Rightarrow> pystr" where
  "id_name (MasterLock name _) = name"
| "id_name (WorkerLock name _ _) = name"

text \<open>\<open>RealMasterLock.updateFromLockId\<close> and \<open>RealWorkerLock.updateFromLockId\<close> on the lock with a name.\<close>

definition update_master_lock :: "pystr \<Rightarrow> pystr \<Rightarrow> int \<Rightarrow> int \<Rightarrow> (lock_world, unit) prog" where
  "update_master_lock n name limit version = bnd (gets (\<lambda>w. masters w n)) (\<lambda>found. case found of
       None \<Rightarrow> raise KeyError
     | Some l \<Rightarrow> sq (guard (lockName (ml_lock l) = name) AssertionError)
         (sq (modify (\<lambda>w. w\<lparr>masters := (masters w)(n \<mapsto> l\<lparr>ml_version := version\<rparr>)\<rparr>))
         (on_lock (On_master n) (setMaxCount limit))))"

definition count_for_worker :: "(pystr \<times> int) list \<Rightarrow> int \<Rightarrow> pystr \<Rightarrow> int" where
  "count_for_worker table limit worker = (case map_of table worker of None \<Rightarrow> limit | Some c \<Rightarrow> c)"

definition update_worker_lock :: "pystr \<Rightarrow> pystr \<Rightarrow> int \<Rightarrow> (pystr \<times> int) list \<Rightarrow> int \<Rightarrow> (lock_world, unit) prog" where
  "update_worker_lock n name limit table version = bnd (gets (\<lambda>w. workers w n)) (\<lambda>found. case found of
       None \<Rightarrow> raise KeyError
     | Some l \<Rightarrow> sq (guard (wl_name l = name) AssertionError)
         (sq (modify (\<lambda>w. w\<lparr>workers := (workers w)(n \<mapsto> l\<lparr>wl_version := version, wl_max := Some limit, wl_for_worker := Some table\<rparr>)\<rparr>))
         (for_each (map fst (wl_locks l)) (\<lambda>worker.
            on_lock (On_worker n worker) (setMaxCount (count_for_worker table limit worker))))))"

text \<open>\<open>getLockForWorker\<close>: a master lock is its own lock; a worker lock makes the worker's lock when first asked.\<close>

definition getLockForWorker :: "lock_id \<Rightarrow> pystr \<Rightarrow> (lock_world, lock_ref) prog" where
  "getLockForWorker i worker = (case i of
       MasterLock n _ \<Rightarrow> ret (On_master n)
     | WorkerLock n _ _ \<Rightarrow> bnd (gets (\<lambda>w. workers w n)) (\<lambda>found. case found of
         None \<Rightarrow> raise KeyError
       | Some l \<Rightarrow> if map_of (wl_locks l) worker \<noteq> None then ret (On_worker n worker) else
           (case (wl_for_worker l, wl_max l) of
              (Some table, Some limit) \<Rightarrow>
                sq (modify (\<lambda>w. w\<lparr>workers := (workers w)(n \<mapsto> l\<lparr>wl_locks := wl_locks l @
                     [(worker, make_lock (wl_name l) (count_for_worker table limit worker))]\<rparr>)\<rparr>))
                (ret (On_worker n worker))
            | _ \<Rightarrow> raise AttributeError)))"

section \<open>Retrieval\<close>

text \<open>\<open>lockid.lockClass.getService(self, lockid.name)\<close>, then the update if the configuration is newer.\<close>

definition get_service :: "lock_id \<Rightarrow> (lock_world, int) prog" where
  "get_service i = (case i of
       MasterLock n _ \<Rightarrow> bnd (gets (\<lambda>w. masters w n)) (\<lambda>found. case found of
         Some l \<Rightarrow> ret (ml_version l)
       | None \<Rightarrow> sq (modify (\<lambda>w. w\<lparr>masters := (masters w)(n \<mapsto> make_master_lock n)\<rparr>)) (ret (- 1)))
     | WorkerLock n _ _ \<Rightarrow> bnd (gets (\<lambda>w. workers w n)) (\<lambda>found. case found of
         Some l \<Rightarrow> ret (wl_version l)
       | None \<Rightarrow> sq (modify (\<lambda>w. w\<lparr>workers := (workers w)(n \<mapsto> make_worker_lock n)\<rparr>)) (ret (- 1))))"

definition updateFromLockId :: "lock_id \<Rightarrow> int \<Rightarrow> (lock_world, unit) prog" where
  "updateFromLockId i version = (case i of
       MasterLock n limit \<Rightarrow> update_master_lock n n limit version
     | WorkerLock n limit table \<Rightarrow> update_worker_lock n n limit table version)"

definition getLockByID :: "lock_id \<Rightarrow> int \<Rightarrow> (lock_world, unit) prog" where
  "getLockByID i config_version = bnd (get_service i) (\<lambda>version.
     if version < config_version then updateFromLockId i config_version else ret ())"

text \<open>A configured lock is an access, or, for compatibility, a lock id, which stands for its default access.\<close>

datatype requested = Access LockAccess | Bare_id lock_id

definition getLockFromLockAccess :: "requested \<Rightarrow> int \<Rightarrow> (lock_world, lock_id) prog" where
  "getLockFromLockAccess q config_version =
     bnd (case q of Access a \<Rightarrow> ret a | Bare_id i \<Rightarrow> of_result (defaultAccess i)) (\<lambda>access.
     sq (getLockByID (lockid access) config_version) (ret (lockid access)))"

primrec getLockFromLockAccesses :: "requested list \<Rightarrow> int \<Rightarrow> (lock_world, (lock_id \<times> requested) list) prog" where
  "getLockFromLockAccesses [] config_version = ret []"
| "getLockFromLockAccesses (q # qs) config_version = bnd (getLockFromLockAccess q config_version) (\<lambda>i.
     bnd (getLockFromLockAccesses qs config_version) (\<lambda>rest. ret ((i, q) # rest)))"

text \<open>\<open>get_real_locks_from_accesses_raw\<close> on the rendered list of locks.\<close>

primrec locks_for_worker :: "pystr \<Rightarrow> (lock_id \<times> requested) list \<Rightarrow> (lock_world, (lock_ref \<times> requested) list) prog" where
  "locks_for_worker worker [] = ret []"
| "locks_for_worker worker (p # ps) = bnd (getLockForWorker (fst p) worker) (\<lambda>ref.
     bnd (locks_for_worker worker ps) (\<lambda>rest. ret ((ref, snd p) # rest)))"

definition get_real_locks_from_accesses :: "requested list \<Rightarrow> pystr \<Rightarrow> int \<Rightarrow> (lock_world, (lock_ref \<times> requested) list) prog" where
  "get_real_locks_from_accesses locks worker config_version =
     (if locks = [] then ret [] else bnd (getLockFromLockAccesses locks config_version) (locks_for_worker worker))"

end
