(* ===== verification/Bb_Lock_Users.thy ===== *)
theory Bb_Lock_Users
  imports Bb_Real_Locks
begin

text \<open>
  Who acquires real locks: builds (\<open>process/build.py\<close>), steps (\<open>process/buildstep.py\<close>), workers
  (\<open>worker/base.py\<close>) and the check of a builder (\<open>process/builder.py\<close>). Only what concerns locks is
  modelled of them.
\<close>

section \<open>Access to a lock\<close>

text \<open>A bare lock id has no \<open>count\<close> or \<open>mode\<close>: the lock raises \<open>AttributeError\<close> when it is used as an access.\<close>

definition with_access :: "requested \<Rightarrow> (LockAccess \<Rightarrow> (lock_world, 'a) prog) \<Rightarrow> (lock_world, 'a) prog" where
  "with_access q f = (case q of Access a \<Rightarrow> f a | Bare_id _ \<Rightarrow> raise AttributeError)"

definition lock_available :: "lock_ref \<Rightarrow> nat \<Rightarrow> requested \<Rightarrow> (lock_world, bool) prog" where
  "lock_available ref who q = with_access q (\<lambda>a. on_lock ref (gets (\<lambda>s. isAvailable who a (the_lock s))))"

definition lock_claim :: "nat \<Rightarrow> lock_ref \<times> requested \<Rightarrow> (lock_world, unit) prog" where
  "lock_claim who p = with_access (snd p) (\<lambda>a. on_lock (fst p) (claim_lock who a))"

definition lock_wait :: "lock_ref \<Rightarrow> nat \<Rightarrow> requested \<Rightarrow> (lock_world, nat option) prog" where
  "lock_wait ref who q = with_access q (\<lambda>a. on_lock ref (waitUntilMaybeAvailable who a))"

definition lock_stop :: "lock_ref \<Rightarrow> nat \<Rightarrow> nat \<Rightarrow> (lock_world, unit) prog" where
  "lock_stop ref who d = on_lock ref (stopWaitingUntilAvailable who d)"

definition lock_owned :: "lock_ref \<Rightarrow> nat \<Rightarrow> requested \<Rightarrow> (lock_world, bool) prog" where
  "lock_owned ref who q = on_lock ref (gets (\<lambda>s. case q of Access a \<Rightarrow> isOwner who a (the_lock s) | Bare_id _ \<Rightarrow> False))"

definition lock_release :: "nat \<Rightarrow> lock_ref \<times> requested \<Rightarrow> (lock_world, unit) prog" where
  "lock_release who p = with_access (snd p) (\<lambda>a. on_lock (fst p) (release_lock who a))"

text \<open>The first lock of a list that is not available.\<close>

primrec first_unavailable :: "nat \<Rightarrow> (lock_ref \<times> requested) list \<Rightarrow> (lock_world, (lock_ref \<times> requested) option) prog" where
  "first_unavailable who [] = ret None"
| "first_unavailable who (p # ps) = bnd (lock_available (fst p) who (snd p)) (\<lambda>free.
     if \<not> free then ret (Some p) else first_unavailable who ps)"

section \<open>Workers and builders\<close>

text \<open>\<open>AbstractWorker.locksAvailable\<close>, \<open>acquireLocks\<close> and \<open>releaseLocks\<close>; \<open>Builder._can_acquire_locks\<close>.\<close>

definition worker_locksAvailable :: "nat \<Rightarrow> (lock_ref \<times> requested) list \<Rightarrow> (lock_world, bool) prog" where
  "worker_locksAvailable who locks = (if locks = [] then ret True else
     bnd (first_unavailable who locks) (\<lambda>found. ret (found = None)))"

definition worker_acquireLocks :: "nat \<Rightarrow> (lock_ref \<times> requested) list \<Rightarrow> (lock_world, bool) prog" where
  "worker_acquireLocks who locks = bnd (worker_locksAvailable who locks) (\<lambda>free.
     if \<not> free then ret False else sq (for_each locks (lock_claim who)) (ret True))"

definition worker_releaseLocks :: "nat \<Rightarrow> (lock_ref \<times> requested) list \<Rightarrow> (lock_world, unit) prog" where
  "worker_releaseLocks who locks = for_each locks (lock_release who)"

definition can_acquire_locks :: "(lock_ref \<times> requested) list \<Rightarrow> (lock_world, bool) prog" where
  "can_acquire_locks locks = bnd (first_unavailable no_one locks) (\<lambda>found. ret (found = None))"

section \<open>Builds\<close>

record Build =
  build_id :: nat
  build_locks :: "(lock_ref \<times> requested) list"
  build_stopped :: bool
  acquiringLock :: "(lock_ref \<times> requested \<times> nat) option"

definition in_world :: "(lock_world, 'a) prog \<Rightarrow> (lock_world \<times> 'u, 'a) prog" where
  "in_world m = (\<lambda>(w, u). case m w of (r, w') \<Rightarrow> (r, (w', u)))"

definition change_user :: "('u \<Rightarrow> 'u) \<Rightarrow> (lock_world \<times> 'u, unit) prog" where
  "change_user f = modify (\<lambda>(w, u). (w, f u))"

text \<open>
  The Deferred that \<open>acquireLocks\<close> returns: fired, or that of the lock it waits for, whose callback is
  \<open>acquireLocks\<close> again. A lock that is not available never returns a fired Deferred.
\<close>

datatype acquired = Acquired | Waits nat

definition build_acquireLocks :: "(lock_world \<times> Build, acquired) prog" where
  "build_acquireLocks =
     sq (change_user (\<lambda>b. b\<lparr>acquiringLock := None\<rparr>))
     (bnd (gets snd) (\<lambda>b. if build_locks b = [] \<or> build_stopped b then ret Acquired else
     bnd (in_world (first_unavailable (build_id b) (build_locks b))) (\<lambda>found. case found of
       Some (ref, q) \<Rightarrow> bnd (in_world (lock_wait ref (build_id b) q)) (\<lambda>d. case d of
           None \<Rightarrow> raise AssertionError
         | Some x \<Rightarrow> sq (change_user (\<lambda>b. b\<lparr>acquiringLock := Some (ref, q, x)\<rparr>)) (ret (Waits x)))
     | None \<Rightarrow> sq (in_world (for_each (build_locks b) (lock_claim (build_id b)))) (ret Acquired))))"

text \<open>What \<open>lostRemote\<close> (without a current step) and \<open>stopBuild\<close> do about locks.\<close>

definition build_stop :: "(lock_world \<times> Build, unit) prog" where
  "build_stop =
     sq (change_user (\<lambda>b. b\<lparr>build_stopped := True\<rparr>))
     (bnd (gets snd) (\<lambda>b. case acquiringLock b of None \<Rightarrow> ret ()
       | Some (ref, q, d) \<Rightarrow> in_world (lock_stop ref (build_id b) d)))"

definition build_releaseLocks :: "(lock_world \<times> Build, unit) prog" where
  "build_releaseLocks = bnd (gets snd) (\<lambda>b. in_world (for_each (build_locks b) (\<lambda>p.
     bnd (lock_owned (fst p) (build_id b) (snd p)) (\<lambda>own. if own then lock_release (build_id b) p else ret ()))))"

section \<open>Steps\<close>

record BuildStep =
  step_id :: nat
  step_locks :: "(lock_ref \<times> requested) list"
  step_stopped :: bool
  acquiringLocks :: "(lock_ref \<times> requested \<times> nat) list"
  waitingForLocks :: bool

text \<open>The check of \<open>_setup_locks\<close>: no lock of the step is a lock of its build.\<close>

definition step_setup_locks :: "(lock_ref \<times> requested) list \<Rightarrow> (lock_world \<times> BuildStep, unit) prog" where
  "step_setup_locks locks_of_build = bnd (gets snd) (\<lambda>st.
     guard (\<not> list_ex (\<lambda>p. fst p \<in> set (map fst locks_of_build)) (step_locks st)) RuntimeError)"

text \<open>The inner loop over \<open>_acquiringLocks\<close> only continues itself, so it has no effect.\<close>

definition step_acquireLocks :: "(lock_world \<times> BuildStep, acquired) prog" where
  "step_acquireLocks = bnd (gets snd) (\<lambda>st. if step_locks st = [] \<or> step_stopped st then ret Acquired else
     bnd (in_world (first_unavailable (step_id st) (step_locks st))) (\<lambda>found. case found of
       Some (ref, q) \<Rightarrow>
         sq (change_user (\<lambda>st. st\<lparr>waitingForLocks := True\<rparr>))
         (bnd (in_world (lock_wait ref (step_id st) q)) (\<lambda>d. case d of
           None \<Rightarrow> raise AssertionError
         | Some x \<Rightarrow> sq (change_user (\<lambda>st. st\<lparr>acquiringLocks := acquiringLocks st @ [(ref, q, x)]\<rparr>)) (ret (Waits x))))
     | None \<Rightarrow> sq (in_world (for_each (step_locks st) (lock_claim (step_id st))))
         (sq (change_user (\<lambda>st. st\<lparr>acquiringLocks := [], waitingForLocks := False\<rparr>)) (ret Acquired))))"

text \<open>What \<open>_interrupt_impl\<close> does about locks.\<close>

definition step_interrupt :: "(lock_world \<times> BuildStep, unit) prog" where
  "step_interrupt = bnd (gets snd) (\<lambda>st. if step_stopped st then ret () else
     sq (change_user (\<lambda>st. st\<lparr>step_stopped := True\<rparr>))
     (if acquiringLocks st = [] then ret () else
       sq (in_world (for_each (acquiringLocks st) (\<lambda>(ref, q, d). lock_stop ref (step_id st) d)))
       (change_user (\<lambda>st. st\<lparr>acquiringLocks := []\<rparr>))))"

definition step_releaseLocks :: "(lock_world \<times> BuildStep, unit) prog" where
  "step_releaseLocks = bnd (gets snd) (\<lambda>st. for_each (step_locks st) (\<lambda>p.
     bnd (in_world (lock_owned (fst p) (step_id st) (snd p))) (\<lambda>own. if own then in_world (lock_release (step_id st) p)
       else guard (step_stopped st) AssertionError)))"

end
