(* ===== verification/Bb_Lock_Sharing.thy ===== *)
theory Bb_Lock_Sharing
  imports Bb_Lock_Users
begin

text \<open>
  How users share locks. The contract between them is the locale \<open>lock_service\<close>: a lock that is available can
  be claimed, and claiming it does not touch the other locks; so what checks all its locks and then claims them
  gets all or nothing. Then what goes wrong: an abandoned waiter blocks a lock, and a step that was woken in vain
  cannot be interrupted.
\<close>

section \<open>The contract\<close>

locale lock_service =
  fixes free :: "'w \<Rightarrow> 'r \<Rightarrow> nat \<Rightarrow> 'q \<Rightarrow> bool"
    and grab :: "nat \<Rightarrow> 'r \<times> 'q \<Rightarrow> ('w, unit) prog"
    and owns :: "'w \<Rightarrow> 'r \<Rightarrow> nat \<Rightarrow> 'q \<Rightarrow> bool"
    and sound :: "'w \<Rightarrow> bool"
  assumes grab_free: "sound w \<Longrightarrow> who \<noteq> no_one \<Longrightarrow> free w r who q \<Longrightarrow>
    \<exists>w'. grab who (r, q) w = (Inr (), w') \<and> sound w' \<and> owns w' r who q
      \<and> (\<forall>r' v u. r' \<noteq> r \<longrightarrow> free w' r' v u = free w r' v u \<and> owns w' r' v u = owns w r' v u)"
begin

lemma grab_all:
  assumes "sound w" "who \<noteq> no_one" "distinct (map fst ps)" "\<forall>p\<in>set ps. free w (fst p) who (snd p)"
  shows "\<exists>w'. for_each ps (grab who) w = (Inr (), w') \<and> sound w' \<and> (\<forall>p\<in>set ps. owns w' (fst p) who (snd p))
    \<and> (\<forall>r v u. r \<notin> fst ` set ps \<longrightarrow> owns w' r v u = owns w r v u)"
  using assms
proof (induction ps arbitrary: w)
  case Nil
  then show ?case by (simp add: ret_def)
next
  case (Cons p ps)
  obtain r q where p: "p = (r, q)" by (cases p)
  obtain w1 where w1: "grab who (r, q) w = (Inr (), w1)" "sound w1" "owns w1 r who q"
      "\<forall>r' v u. r' \<noteq> r \<longrightarrow> free w1 r' v u = free w r' v u \<and> owns w1 r' v u = owns w r' v u"
    using grab_free [of w who r q] Cons.prems p by auto
  have "\<forall>x\<in>set ps. free w1 (fst x) who (snd x)"
    using Cons.prems(3,4) w1(4) p by force
  then obtain w2 where w2: "for_each ps (grab who) w1 = (Inr (), w2)" "sound w2" "\<forall>x\<in>set ps. owns w2 (fst x) who (snd x)"
      "\<forall>r v u. r \<notin> fst ` set ps \<longrightarrow> owns w2 r v u = owns w1 r v u"
    using Cons.IH [OF w1(2)] Cons.prems(2,3) by auto
  have "r \<notin> fst ` set ps" using Cons.prems(3) p by simp
  with w1 w2 p show ?case by (auto simp: run_sq)
qed

end

section \<open>Operations on one of the locks\<close>

lemma map_of_put_assoc: "map_of (put_assoc k v ps) = (map_of ps)(k \<mapsto> v)"
  by (induction ps) auto

lemma put_assoc_same: "map_of ps k = Some v \<Longrightarrow> put_assoc k v ps = ps"
  by (induction ps) (auto split: if_splits)

lemma lock_at_put: "lock_at w ref = Some l \<Longrightarrow> lock_at (put_lock_at ref l' w) ref' = (if ref' = ref then Some l' else lock_at w ref')"
  by (auto simp: lock_at_def put_lock_at_def map_of_put_assoc split: lock_ref.splits option.splits bind_splits)

lemma put_same: "lock_at w ref = Some l \<Longrightarrow> put_lock_at ref l w = w"
  by (auto simp: lock_at_def put_lock_at_def put_assoc_same fun_upd_idem split: lock_ref.splits option.splits bind_splits)

lemma lock_at_other [simp]: "lock_at (w\<lparr>world_deferred := n, world_effects := es\<rparr>) ref = lock_at w ref"
  by (cases ref) (simp_all add: lock_at_def)

definition scene_at :: "lock_world \<Rightarrow> BaseLock \<Rightarrow> scene" where
  "scene_at w l = \<lparr>the_lock = l, next_deferred = world_deferred w, effects = []\<rparr>"

lemma scene_at_lock [simp]: "the_lock (scene_at w l) = l"
  by (simp add: scene_at_def)

lemma on_lock_run:
  assumes "lock_at w ref = Some l" "m (scene_at w l) = (r, s)"
  shows "\<exists>w'. on_lock ref m w = (r, w') \<and> lock_at w' ref = Some (the_lock s) \<and> (\<forall>ref'. ref' \<noteq> ref \<longrightarrow> lock_at w' ref' = lock_at w ref')"
  using assms by (auto simp: on_lock_def scene_at_def lock_at_put [OF assms(1)])

lemma on_lock_gets: "lock_at w ref = Some l \<Longrightarrow> on_lock ref (gets f) w = (Inr (f (scene_at w l)), w)"
  by (simp add: on_lock_def run_simps scene_at_def put_same)

section \<open>The service\<close>

text \<open>All locks are sound; whether a request for a lock is available to and held by someone.\<close>

definition world_ok :: "lock_world \<Rightarrow> bool" where
  "world_ok w \<longleftrightarrow> (\<forall>ref l. lock_at w ref = Some l \<longrightarrow> lock_ok l)"

definition free_for :: "lock_world \<Rightarrow> lock_ref \<Rightarrow> nat \<Rightarrow> requested \<Rightarrow> bool" where
  "free_for w ref who q \<longleftrightarrow> (\<exists>a l. q = Access a \<and> access_ok a \<and> lock_at w ref = Some l \<and> isAvailable who a l)"

definition held_by :: "lock_world \<Rightarrow> lock_ref \<Rightarrow> nat \<Rightarrow> requested \<Rightarrow> bool" where
  "held_by w ref who q \<longleftrightarrow> (\<exists>a l. q = Access a \<and> lock_at w ref = Some l \<and> (units a = 0 \<or> isOwner who a l))"

lemma claim_lock_ok: "lock_ok (the_lock s) \<Longrightarrow> lock_ok (the_lock (snd (claim_lock who a s)))"
proof -
  assume s: "lock_ok (the_lock s)"
  show ?thesis
  proof (cases "who \<noteq> no_one \<and> isAvailable who a (the_lock s) \<and> access_ok a \<and> units a \<noteq> 0")
    case True
    then have "0 < units a" by (auto simp: access_ok_def split: if_splits)
    with True s show ?thesis
      by (cases "acc_mode a") (auto simp: claim_run lock_ok_def isAvailable_iff access_ok_def distinct_map_filter)
  qed (use s in \<open>auto simp: claim_run\<close>)
qed

interpretation locks_of: lock_service free_for lock_claim held_by world_ok
proof
  fix w who ref q
  assume w: "world_ok w" "who \<noteq> no_one" and free: "free_for w ref who q"
  then obtain a l where q: "q = Access a" "access_ok a" and l: "lock_at w ref = Some l" "isAvailable who a l"
    by (auto simp: free_for_def)
  have ok: "lock_ok l" using w(1) l(1) by (simp add: world_ok_def)
  let ?s = "snd (claim_lock who a (scene_at w l))"
  have "claim_lock who a (scene_at w l) = (Inr (), ?s)"
    and own: "units a = 0 \<or> isOwner who a (the_lock ?s)"
    using claim_run [of "scene_at w l" who a] ok q(2) l(2) w(2) by (auto simp: isOwner_def)
  from on_lock_run [where m = "claim_lock who a", OF l(1) this(1)] obtain w' where
    w': "on_lock ref (claim_lock who a) w = (Inr (), w')" "lock_at w' ref = Some (the_lock ?s)"
      "\<forall>ref'. ref' \<noteq> ref \<longrightarrow> lock_at w' ref' = lock_at w ref'"
    by blast
  have "world_ok w'"
    unfolding world_ok_def
  proof (intro allI impI)
    fix ref' l' assume "lock_at w' ref' = Some l'"
    then show "lock_ok l'"
      using w' w(1) claim_lock_ok [of "scene_at w l" who a] ok by (cases "ref' = ref") (auto simp: world_ok_def)
  qed
  with w' own q show "\<exists>w'. lock_claim who (ref, q) w = (Inr (), w') \<and> world_ok w' \<and> held_by w' ref who q \<and>
      (\<forall>r' v u. r' \<noteq> ref \<longrightarrow> free_for w' r' v u = free_for w r' v u \<and> held_by w' r' v u = held_by w r' v u)"
    by (auto simp: lock_claim_def with_access_def free_for_def held_by_def)
qed

section \<open>All or nothing\<close>

text \<open>The configured locks: existing, each asked for by an access.\<close>

definition requests_ok :: "lock_world \<Rightarrow> (lock_ref \<times> requested) list \<Rightarrow> bool" where
  "requests_ok w ps \<longleftrightarrow> (\<forall>p\<in>set ps. lock_at w (fst p) \<noteq> None \<and> (\<exists>a. snd p = Access a \<and> access_ok a))"

lemma lock_available_run:
  "requests_ok w [p] \<Longrightarrow> lock_available (fst p) who (snd p) w = (Inr (free_for w (fst p) who (snd p)), w)"
  by (auto simp: requests_ok_def lock_available_def with_access_def on_lock_gets free_for_def)

lemma first_unavailable_run:
  "requests_ok w ps \<Longrightarrow> first_unavailable who ps w = (Inr (find (\<lambda>p. \<not> free_for w (fst p) who (snd p)) ps), w)"
proof (induction ps)
  case (Cons p ps)
  then have "requests_ok w [p]" "requests_ok w ps" by (simp_all add: requests_ok_def)
  with Cons.IH lock_available_run [of w p who] show ?case by (simp add: run_bnd run_simps)
qed (simp add: run_simps)

lemma worker_available_run:
  "requests_ok w ps \<Longrightarrow> worker_locksAvailable who ps w = (Inr (\<forall>p\<in>set ps. free_for w (fst p) who (snd p)), w)"
  by (auto simp: worker_locksAvailable_def run_combinators first_unavailable_run find_None_iff)

lemma worker_acquire_all:
  assumes w: "world_ok w" "requests_ok w ps" "distinct (map fst ps)" "who \<noteq> no_one"
  shows "if \<forall>p\<in>set ps. free_for w (fst p) who (snd p)
    then \<exists>w'. worker_acquireLocks who ps w = (Inr True, w') \<and> world_ok w' \<and> (\<forall>p\<in>set ps. held_by w' (fst p) who (snd p))
    else worker_acquireLocks who ps w = (Inr False, w)"
proof (cases "\<forall>p\<in>set ps. free_for w (fst p) who (snd p)")
  case True
  obtain w' where "for_each ps (lock_claim who) w = (Inr (), w')" "world_ok w'" "\<forall>p\<in>set ps. held_by w' (fst p) who (snd p)"
    using locks_of.grab_all [OF w(1,4,3) True] by blast
  with True show ?thesis by (simp add: worker_acquireLocks_def run_combinators worker_available_run [OF w(2)])
next
  case False
  then show ?thesis by (auto simp: worker_acquireLocks_def run_combinators worker_available_run [OF w(2)])
qed

text \<open>The owners of all locks.\<close>

definition owners_at :: "lock_world \<Rightarrow> lock_ref \<Rightarrow> (nat \<times> LockAccess) list option" where
  "owners_at w ref = map_option owners (lock_at w ref)"

text \<open>No earlier wait of \<open>who\<close> is still pending.\<close>

definition not_waiting :: "lock_world \<Rightarrow> nat \<Rightarrow> bool" where
  "not_waiting w who \<longleftrightarrow> (\<forall>ref l a d. lock_at w ref = Some l \<longrightarrow> (who, a, d) \<in> set (waiting l) \<longrightarrow> d = None)"

lemma waiter_added_in: "(who, a, Some (next_deferred s)) \<in> set (waiting (the_lock (waiter_added who a s)))"
  using find_waiting_0(1) [of who "waiting (the_lock s)"]
  by (auto simp: waiter_added_def set_update_memI split: option.split)

lemma lock_wait_run:
  assumes "lock_at w ref = Some l" "\<not> isAvailable who a l" "not_waiting w who"
  shows "\<exists>w' l'. lock_wait ref who (Access a) w = (Inr (Some (world_deferred w)), w') \<and> lock_at w' ref = Some l'
    \<and> (who, a, Some (world_deferred w)) \<in> set (waiting l') \<and> (\<forall>ref'. owners_at w' ref' = owners_at w ref')"
proof -
  let ?s = "scene_at w l"
  have pending: "snd (snd (waiting l ! i)) = None" if "find_waiting who 0 (waiting l) = Some i" for i
  proof -
    have "waiting l ! i \<in> set (waiting l)" "fst (waiting l ! i) = who"
      using find_waiting_0 [OF that] by auto
    then have "(who, fst (snd (waiting l ! i)), snd (snd (waiting l ! i))) \<in> set (waiting l)" by (metis prod.collapse)
    then show ?thesis using assms(1,3) unfolding not_waiting_def by blast
  qed
  then have run: "waitUntilMaybeAvailable who a ?s = (Inr (Some (world_deferred w)), waiter_added who a ?s)"
    using assms(2) by (auto simp: wait_run scene_at_def split: option.split)
  from on_lock_run [where m = "waitUntilMaybeAvailable who a", OF assms(1) run] obtain w' where
    w': "on_lock ref (waitUntilMaybeAvailable who a) w = (Inr (Some (world_deferred w)), w')"
      "lock_at w' ref = Some (the_lock (waiter_added who a ?s))" "\<forall>ref'. ref' \<noteq> ref \<longrightarrow> lock_at w' ref' = lock_at w ref'"
    by blast
  have "owners_at w' ref' = owners_at w ref'" for ref'
    using w'(2,3) assms(1) by (cases "ref' = ref") (auto simp: owners_at_def waiter_added_def)
  with w' waiter_added_in [of who a ?s] show ?thesis by (auto simp: lock_wait_def with_access_def scene_at_def)
qed

text \<open>
  A build that is not stopped gets all its locks, or waits for the first that is not available and no
  lock changes its owners.
\<close>

lemma build_acquires:
  assumes w: "world_ok w" "requests_ok w (build_locks b)" "distinct (map fst (build_locks b))" "build_id b \<noteq> no_one"
    "not_waiting w (build_id b)" and b: "\<not> build_stopped b" "build_locks b \<noteq> []"
  obtains w' where "build_acquireLocks (w, b) = (Inr Acquired, (w', b\<lparr>acquiringLock := None\<rparr>))" "world_ok w'"
      "\<forall>p\<in>set (build_locks b). free_for w (fst p) (build_id b) (snd p) \<and> held_by w' (fst p) (build_id b) (snd p)"
  | w' d ref a l' where "build_acquireLocks (w, b) = (Inr (Waits d), (w', b\<lparr>acquiringLock := Some (ref, Access a, d)\<rparr>))"
      "(ref, Access a) \<in> set (build_locks b)" "\<not> free_for w ref (build_id b) (Access a)"
      "lock_at w' ref = Some l'" "(build_id b, a, Some d) \<in> set (waiting l')" "\<forall>ref'. owners_at w' ref' = owners_at w ref'"
proof -
  let ?b = "b\<lparr>acquiringLock := None\<rparr>" and ?who = "build_id b"
  note start = build_acquireLocks_def run_combinators change_user_def in_world_def first_unavailable_run [OF w(2)] b
  show thesis
  proof (cases "find (\<lambda>p. \<not> free_for w (fst p) ?who (snd p)) (build_locks b)")
    case None
    then have all: "\<forall>p\<in>set (build_locks b). free_for w (fst p) ?who (snd p)" by (auto simp: find_None_iff)
    obtain w' where "for_each (build_locks b) (lock_claim ?who) w = (Inr (), w')" "world_ok w'"
        "\<forall>p\<in>set (build_locks b). held_by w' (fst p) ?who (snd p)"
      using locks_of.grab_all [OF w(1,4,3) all] by blast
    then show thesis using None all by (intro that(1) [of w']) (simp_all add: start)
  next
    case (Some p)
    then have p: "p \<in> set (build_locks b)" "\<not> free_for w (fst p) ?who (snd p)" by (auto simp: find_Some_iff)
    obtain ref a l where pair: "p = (ref, Access a)" and a: "access_ok a" "lock_at w ref = Some l"
      using w(2) p(1) by (cases p) (auto simp: requests_ok_def)
    then have "\<not> isAvailable ?who a l" using p(2) by (auto simp: free_for_def)
    from lock_wait_run [OF a(2) this w(5)] obtain w' l' where
      "lock_wait ref ?who (Access a) w = (Inr (Some (world_deferred w)), w')" "lock_at w' ref = Some l'"
      "(?who, a, Some (world_deferred w)) \<in> set (waiting l')" "\<forall>ref'. owners_at w' ref' = owners_at w ref'"
      by blast
    then show thesis using Some p unfolding pair
      by (intro that(2) [of "world_deferred w" w' ref a l']) (auto simp: start)
  qed
qed

section \<open>What goes wrong\<close>

text \<open>
  An exclusive waiter at the head that never claims nor stops: whatever the others do, no one else ever
  becomes an owner.
\<close>

fun actor :: "lock_op \<Rightarrow> nat option" where
  "actor (Claim who a) = Some who"
| "actor (Wait who a) = Some who"
| "actor (Stop who d) = Some who"
| "actor _ = None"

definition blocked_by :: "nat \<Rightarrow> BaseLock \<Rightarrow> bool" where
  "blocked_by h l \<longleftrightarrow> waiting l \<noteq> [] \<and> fst (hd (waiting l)) = h \<and> mode_of (hd (waiting l)) = Exclusive"

lemma blocked_available: "blocked_by h l \<Longrightarrow> who \<noteq> h \<Longrightarrow> isAvailable who a l \<longleftrightarrow> units a = 0"
  by (cases "waiting l") (auto simp: blocked_by_def isAvailable_iff ahead_of_def)

lemma blocked_wake: "blocked_by h (the_lock s) \<Longrightarrow> blocked_by h (the_lock (snd (tryWakeUp s)))
    \<and> owners (the_lock (snd (tryWakeUp s))) = owners (the_lock s)"
proof -
  define n where "n = woken_count (maxCount (the_lock s)) (claimed_excl (the_lock s)) (claimed_counting (the_lock s)) (waiting (the_lock s))"
  assume "blocked_by h (the_lock s)"
  then show ?thesis
    unfolding wake_run [OF n_def] by (cases n; cases "waiting (the_lock s)") (auto simp: blocked_by_def awake_def)
qed

lemma blocked_step:
  assumes "scene_ok s" "blocked_by h (the_lock s)" "actor q \<noteq> Some h" "perform q s = (r, t)"
  shows "blocked_by h (the_lock t) \<and> set (owners (the_lock t)) \<subseteq> set (owners (the_lock s))"
proof -
  have l: "lock_ok (the_lock s)" using assms(1) by (simp add: scene_ok_def)
  show ?thesis
  proof (cases q)
    case (Claim who a)
    then show ?thesis
      using assms(2-4) blocked_available [of h "the_lock s" who a] claim_run [OF l, of who a] by (auto split: if_splits)
  next
    case (Release who a)
    let ?t = "s\<lparr>the_lock := owner_removed who a (the_lock s)\<rparr>"
    have "blocked_by h (the_lock ?t)" using assms(2) by (simp add: blocked_by_def)
    from blocked_wake [OF this] assms(2,4) Release set_remove1_subset [of "(who, a)" "owners (the_lock s)"]
    show ?thesis by (auto simp: release_run Let_def split: if_splits)
  next
    case (Set_max n)
    let ?t = "s\<lparr>the_lock := (the_lock s)\<lparr>maxCount := n\<rparr>\<rparr>"
    have "blocked_by h (the_lock ?t)" using assms(2) by (simp add: blocked_by_def)
    from blocked_wake [OF this] assms(2,4) Set_max show ?thesis
      by (auto simp: setMaxCount_def run_combinators put_lock_def wake_run [OF refl] blocked_by_def split: if_splits)
  next
    case (Wait who a)
    have "i \<noteq> 0" if "find_waiting who 0 (waiting (the_lock s)) = Some i" for i
      using find_waiting_0 [OF that] assms(2,3) Wait by (auto simp: blocked_by_def hd_conv_nth)
    then have "blocked_by h (the_lock (waiter_added who a s))" "owners (the_lock (waiter_added who a s)) = owners (the_lock s)"
      using assms(2) by (auto simp: blocked_by_def waiter_added_def hd_conv_nth nth_append nth_list_update split: option.splits)
    with assms(2,4) Wait show ?thesis
      by (auto simp: run_combinators wait_run blocked_by_def split: if_splits option.splits)
  next
    case (Stop who d)
    let ?t = "s\<lparr>the_lock := (the_lock s)\<lparr>waiting := [w \<leftarrow> waiting (the_lock s). fst w \<noteq> who]\<rparr>\<rparr>"
    have t: "blocked_by h (the_lock ?t)"
      using assms(2,3) Stop by (cases "waiting (the_lock s)") (auto simp: blocked_by_def)
    from blocked_wake [OF this] t assms(2,4) Stop show ?thesis
      by (auto simp: stop_run [OF l] Let_def blocked_by_def split: option.splits if_splits)
  qed
qed

lemma blocked_forever:
  assumes "scene_ok s" "blocked_by h (the_lock s)" "list_all (\<lambda>q. actor q \<noteq> Some h) qs"
  shows "blocked_by h (the_lock (after_history qs s)) \<and> set (owners (the_lock (after_history qs s))) \<subseteq> set (owners (the_lock s))"
  using assms
proof (induction qs arbitrary: s)
  case (Cons q qs)
  obtain r t where t: "perform q s = (r, t)" by (cases "perform q s")
  have "scene_ok t" using perform_ok [OF Cons.prems(1), of q] t by (cases r) (auto simp: wp_def)
  moreover note blocked_step [OF Cons.prems(1,2) _ t]
  ultimately show ?case using Cons.IH [of t] Cons.prems(3) t by (auto simp: after_history_def)
qed (simp add: after_history_def)

text \<open>
  A build waits for a lock, is woken for it, waits for another lock, and is stopped: it stops waiting for the
  second lock only and stays the first waiter of the first.
\<close>

definition lock_a :: "lock_ref \<times> lock_id" where
  "lock_a = (On_master [97], MasterLock [97] 1)"

definition lock_b :: "lock_ref \<times> lock_id" where
  "lock_b = (On_master [98], MasterLock [98] 1)"

definition whole :: "lock_id \<Rightarrow> LockAccess" where
  "whole i = \<lparr>lockid = i, acc_mode = Exclusive, units = 1\<rparr>"

definition two_locks :: lock_world where
  "two_locks = snd (sq (getLockByID (snd lock_a) 0) (getLockByID (snd lock_b) 0)
     \<lparr>masters = Map.empty, workers = Map.empty, world_deferred = 0, world_effects = []\<rparr>)"

definition demo_build :: Build where
  "demo_build = \<lparr>build_id = 1, build_locks = [(fst lock_a, Access (whole (snd lock_a))), (fst lock_b, Access (whole (snd lock_b)))],
     build_stopped = False, acquiringLock = None\<rparr>"

text \<open>Owners 8 and 9 have the locks; 9 releases the first while the build waits for it.\<close>

definition stopped_build :: "(exn + unit) \<times> lock_world \<times> Build" where
  "stopped_build =
     sq (in_world (on_lock (fst lock_b) (claim_lock 8 (whole (snd lock_b)))))
     (sq (in_world (on_lock (fst lock_a) (claim_lock 9 (whole (snd lock_a)))))
     (sq build_acquireLocks
     (sq (in_world (on_lock (fst lock_a) (release_lock 9 (whole (snd lock_a)))))
     (sq build_acquireLocks
     (sq build_stop
     build_releaseLocks))))) (two_locks, demo_build)"

text \<open>
  A step asks for two units of a lock of two that owners 8 and 9 have one unit each of. When 8 releases
  its unit the step is woken, waits again, and is interrupted.
\<close>

definition lock_c :: lock_id where
  "lock_c = MasterLock [99] 2"

definition some_units :: "int \<Rightarrow> LockAccess" where
  "some_units n = \<lparr>lockid = lock_c, acc_mode = Counting, units = n\<rparr>"

definition one_lock :: lock_world where
  "one_lock = snd (getLockByID lock_c 0 \<lparr>masters = Map.empty, workers = Map.empty, world_deferred = 0, world_effects = []\<rparr>)"

definition demo_step :: BuildStep where
  "demo_step = \<lparr>step_id = 1, step_locks = [(On_master [99], Access (some_units 2))], step_stopped = False,
     acquiringLocks = [], waitingForLocks = False\<rparr>"

definition woken_step :: "(exn + acquired) \<times> lock_world \<times> BuildStep" where
  "woken_step =
     sq (in_world (on_lock (On_master [99]) (claim_lock 8 (some_units 1))))
     (sq (in_world (on_lock (On_master [99]) (claim_lock 9 (some_units 1))))
     (sq step_acquireLocks
     (sq (in_world (on_lock (On_master [99]) (release_lock 8 (some_units 1))))
     step_acquireLocks))) (one_lock, demo_step)"

end
