(* ===== verification/Bb_Lock_Examples.thy ===== *)
theory Bb_Lock_Examples
  imports Bb_Lock_Sharing
begin

text \<open>
  Concrete histories: a build that gets its locks, the stopped build and the interrupted step of
  \<open>Bb_Lock_Sharing\<close> run to their ends, and a bare lock id that was retrieved and is then used as an access.
\<close>

section \<open>A build that gets its locks\<close>

lemma two_locks_at:
  "lock_at two_locks ref = (if ref = On_master [97] then Some (make_lock [97] 1) else if ref = On_master [98] then Some (make_lock [98] 1) else None)"
  by (auto simp: two_locks_def lock_a_def lock_b_def getLockByID_def get_service_def updateFromLockId_def update_master_lock_def run_combinators
      on_lock_def setMaxCount_def put_lock_def tryWakeUp_def emit_def lock_at_def put_lock_at_def make_master_lock_def make_lock_def
      split: lock_ref.splits)

lemma demo_build_ok:
  "world_ok two_locks" "requests_ok two_locks (build_locks demo_build)" "distinct (map fst (build_locks demo_build))"
  "build_id demo_build \<noteq> no_one" "not_waiting two_locks (build_id demo_build)" "\<not> build_stopped demo_build" "build_locks demo_build \<noteq> []"
  by (simp_all add: world_ok_def requests_ok_def not_waiting_def two_locks_at make_lock_def lock_ok_def demo_build_def lock_a_def lock_b_def
      whole_def access_ok_def no_one_def)

lemma demo_build_runs: "fst (build_acquireLocks (two_locks, demo_build)) = Inr Acquired"
  by code_simp

section \<open>What goes wrong\<close>

lemma stopped_build_ends:
  obtains w b l where "stopped_build = (Inr (), w, b)" "build_stopped b" "build_id b = 1" "lock_at w (fst lock_a) = Some l"
    "owners l = []" "claimed_excl l = 0" "claimed_counting l = 0" "waiting l = [(1, whole (snd lock_a), None)]"
proof -
  have "case stopped_build of (r, w, b) \<Rightarrow> r = Inr () \<and> build_stopped b \<and> build_id b = 1 \<and> (case lock_at w (fst lock_a) of
      None \<Rightarrow> False
    | Some l \<Rightarrow> owners l = [] \<and> claimed_excl l = 0 \<and> claimed_counting l = 0 \<and> waiting l = [(1, whole (snd lock_a), None)])"
    by code_simp
  then show thesis using that by (auto split: option.splits prod.splits)
qed

text \<open>A step that was woken in vain cannot be interrupted, and a bare lock id cannot be used as an access.\<close>

lemma woken_step_cannot_stop:
  "fst woken_step = Inr (Waits 1) \<and> fst (step_interrupt (snd woken_step)) = Inl AssertionError"
  by code_simp

lemma bare_lock_ids_fail:
  "fst (bnd (get_real_locks_from_accesses [Bare_id lock_c] [119] 0) (worker_locksAvailable 1)
     \<lparr>masters = Map.empty, workers = Map.empty, world_deferred = 0, world_effects = []\<rparr>) = Inl AttributeError"
  by code_simp

end
