(* ===== verification/Bb_Lru.thy ===== *)
theory Bb_Lru
  imports Umb_Errors "HOL-Library.Multiset"
begin

text \<open>
  \<open>master/buildbot/util/lru.py\<close>: a cache that drops the least recently used keys. The dictionary of weak
  references may lose entries at any time (\<open>forget\<close>); what \<open>miss_fn\<close> answers is an argument of \<open>get\<close>.
\<close>

section \<open>The cache\<close>

record ('k, 'v) LRUCache =
  max_size :: int
  max_queue :: int
  queue :: "'k list"
  cache :: "('k \<times> 'v) list"
  weakrefs :: "'k \<rightharpoonup> 'v"
  refcount :: "'k \<rightharpoonup> int"
  hits :: int
  refhits :: int
  misses :: int

definition QUEUE_SIZE_FACTOR :: int where
  "QUEUE_SIZE_FACTOR = 10"

definition new_cache :: "int \<Rightarrow> ('k, 'v) LRUCache" where
  "new_cache n = \<lparr>max_size = n, max_queue = n * QUEUE_SIZE_FACTOR, queue = [], cache = [], weakrefs = Map.empty,
     refcount = Map.empty, hits = 0, refhits = 0, misses = 0\<rparr>"

text \<open>\<open>d[k] = v\<close> and \<open>del d[k]\<close> on a dictionary as its items.\<close>

primrec dict_put :: "'k \<Rightarrow> 'v \<Rightarrow> ('k \<times> 'v) list \<Rightarrow> ('k \<times> 'v) list" where
  "dict_put k v [] = [(k, v)]"
| "dict_put k v (p # ps) = (if fst p = k then (k, v) # ps else p # dict_put k v ps)"

definition dict_del :: "'k \<Rightarrow> ('k \<times> 'v) list \<Rightarrow> ('k \<times> 'v) list" where
  "dict_del k ps = [p \<leftarrow> ps. fst p \<noteq> k]"

text \<open>\<open>refcount[k]\<close> of a \<open>defaultdict\<close>.\<close>

definition refs :: "('k \<rightharpoonup> int) \<Rightarrow> 'k \<Rightarrow> int" where
  "refs rc k = (case rc k of None \<Rightarrow> 0 | Some n \<Rightarrow> n)"

text \<open>
  The compaction of \<open>_ref_key\<close>: the keys popped from the right, up to the sentinel; what was put back to the
  left of it; the reference counts.
\<close>

fun compact :: "'k list \<Rightarrow> 'k list \<Rightarrow> ('k \<rightharpoonup> int) \<Rightarrow> 'k list \<times> ('k \<rightharpoonup> int)" where
  "compact [] q rc = (q, rc)"
| "compact (k # ks) q rc = (if rc k \<noteq> None then compact ks q rc else compact ks (k # q) (rc(k \<mapsto> 1)))"

definition ref_key :: "'k \<Rightarrow> ('k, 'v) LRUCache \<Rightarrow> ('k, 'v) LRUCache" where
  "ref_key key s = (let q = queue s @ [key]; rc = (refcount s)(key \<mapsto> refs (refcount s) key + 1) in
     if max_queue s < int (length q)
     then (case compact (rev q) [] Map.empty of (q', rc') \<Rightarrow> s\<lparr>queue := q', refcount := rc'\<rparr>)
     else s\<lparr>queue := q, refcount := rc\<rparr>)"

text \<open>The inner loop of \<open>_purge\<close>: pops keys until one has no reference left.\<close>

fun pop_least :: "'k list \<Rightarrow> ('k \<rightharpoonup> int) \<Rightarrow> (exn + 'k) \<times> 'k list \<times> ('k \<rightharpoonup> int)" where
  "pop_least [] rc = (Inl IndexError, [], rc)"
| "pop_least (k # q) rc = (let refc = refs rc k - 1; rc' = rc(k \<mapsto> refc) in
     if refc = 0 then (Inr k, q, rc') else pop_least q rc')"

function purge_loop :: "('k, 'v) LRUCache \<Rightarrow> (exn + unit) \<times> ('k, 'v) LRUCache" where
  "purge_loop s = (if \<not> max_size s < int (length (cache s)) then (Inr (), s) else
     (case pop_least (queue s) (refcount s) of
        (Inl e, q, rc) \<Rightarrow> (Inl e, s\<lparr>queue := q, refcount := rc\<rparr>)
      | (Inr k, q, rc) \<Rightarrow>
          if map_of (cache s) k = None then (Inl KeyError, s\<lparr>queue := q, refcount := rc\<rparr>)
          else purge_loop (s\<lparr>queue := q, refcount := rc(k := None), cache := dict_del k (cache s)\<rparr>)))"
  by pat_completeness auto

lemma dict_del_shorter: "map_of ps k \<noteq> None \<Longrightarrow> length (dict_del k ps) < length ps"
  by (induction ps) (auto simp: dict_del_def less_Suc_eq_le split: if_splits)

termination purge_loop
  by (relation "measure (\<lambda>s. length (cache s))") (simp_all add: dict_del_shorter)

declare purge_loop.simps [simp del]

definition purge :: "(('k, 'v) LRUCache, unit) prog" where
  "purge = bnd (gets (\<lambda>s. int (length (cache s)) \<le> max_size s)) (\<lambda>small. if small then ret () else purge_loop)"

definition put_cache :: "'k \<Rightarrow> 'v \<Rightarrow> (('k, 'v) LRUCache, unit) prog" where
  "put_cache key value = bnd (gets (\<lambda>s. map_of (cache s) key \<noteq> None \<or> weakrefs s key \<noteq> None)) (\<lambda>cached.
     sq (modify (\<lambda>s. s\<lparr>cache := dict_put key value (cache s), weakrefs := (weakrefs s)(key \<mapsto> value)\<rparr>))
     (sq (modify (ref_key key))
     (if \<not> cached then purge else ret ())))"

text \<open>\<open>_get_hit\<close>; \<open>None\<close> is its \<open>KeyError\<close>.\<close>

definition get_hit :: "'k \<Rightarrow> (('k, 'v) LRUCache, 'v option) prog" where
  "get_hit key = bnd (gets (\<lambda>s. (map_of (cache s) key, weakrefs s key))) (\<lambda>found. case found of
       (Some result, _) \<Rightarrow> sq (modify (\<lambda>s. s\<lparr>hits := hits s + 1\<rparr>)) (sq (modify (ref_key key)) (ret (Some result)))
     | (None, Some result) \<Rightarrow> sq (modify (\<lambda>s. s\<lparr>refhits := refhits s + 1\<rparr>))
         (sq (modify (\<lambda>s. s\<lparr>cache := dict_put key result (cache s)\<rparr>)) (sq (modify (ref_key key)) (ret (Some result))))
     | (None, None) \<Rightarrow> ret None)"

text \<open>What \<open>get\<close> and \<open>handle_result\<close> do with a result that is not \<open>None\<close>.\<close>

definition store_result :: "'k \<Rightarrow> 'v \<Rightarrow> (('k, 'v) LRUCache, unit) prog" where
  "store_result key result =
     sq (modify (\<lambda>s. s\<lparr>cache := dict_put key result (cache s), weakrefs := (weakrefs s)(key \<mapsto> result)\<rparr>))
     (sq (modify (ref_key key)) purge)"

definition get_cache :: "('k \<Rightarrow> 'v option) \<Rightarrow> 'k \<Rightarrow> (('k, 'v) LRUCache, 'v option) prog" where
  "get_cache miss_fn key = bnd (get_hit key) (\<lambda>found. case found of
       Some result \<Rightarrow> ret (Some result)
     | None \<Rightarrow> sq (modify (\<lambda>s. s\<lparr>misses := misses s + 1\<rparr>))
         (case miss_fn key of
            Some result \<Rightarrow> sq (store_result key result) (ret (Some result))
          | None \<Rightarrow> ret None))"

definition keys_cache :: "('k, 'v) LRUCache \<Rightarrow> 'k list" where
  "keys_cache s = map fst (cache s)"

definition set_max_size :: "int \<Rightarrow> (('k, 'v) LRUCache, unit) prog" where
  "set_max_size n = bnd (gets max_size) (\<lambda>old. if old = n then ret () else
     sq (modify (\<lambda>s. s\<lparr>max_size := n, max_queue := n * QUEUE_SIZE_FACTOR\<rparr>)) purge)"

text \<open>The check \<open>inv\<close>: whether it reports nothing.\<close>

definition inv_cache :: "('k, 'v) LRUCache \<Rightarrow> bool" where
  "inv_cache s \<longleftrightarrow> set (queue s) = set (keys_cache s)
     \<and> (\<forall>k. refcount s k = (if k \<in> set (queue s) then Some (int (count_list (queue s) k)) else None))"

text \<open>A value that only weak references point to is dropped.\<close>

definition forget :: "'k \<Rightarrow> ('k, 'v) LRUCache \<Rightarrow> ('k, 'v) LRUCache" where
  "forget key s = (if map_of (cache s) key = None then s\<lparr>weakrefs := (weakrefs s)(key := None)\<rparr> else s)"

section \<open>The asynchronous cache\<close>

text \<open>
  \<open>AsyncLRUCache\<close>: the Deferreds that wait for a key, the fetches that were started, and what each
  Deferred was fired with: a value, \<open>None\<close>, or a failure.
\<close>

datatype 'v answer = Value "'v option" | Failed exn

record ('k, 'v) AsyncLRUCache =
  lru :: "('k, 'v) LRUCache"
  concurrent :: "'k \<rightharpoonup> nat list"
  fresh_deferred :: nat
  fetches :: "'k list"
  answers :: "(nat \<times> 'v answer) list"

definition new_async :: "int \<Rightarrow> ('k, 'v) AsyncLRUCache" where
  "new_async n = \<lparr>lru = new_cache n, concurrent = Map.empty, fresh_deferred = 0, fetches = [], answers = []\<rparr>"

definition in_lru :: "(('k, 'v) LRUCache, 'a) prog \<Rightarrow> (('k, 'v) AsyncLRUCache, 'a) prog" where
  "in_lru m = (\<lambda>s. case m (lru s) of (r, c) \<Rightarrow> (r, s\<lparr>lru := c\<rparr>))"

definition make_deferred :: "(('k, 'v) AsyncLRUCache, nat) prog" where
  "make_deferred = (\<lambda>s. (Inr (fresh_deferred s), s\<lparr>fresh_deferred := Suc (fresh_deferred s)\<rparr>))"

text \<open>\<open>get\<close>: a value at once, or a Deferred; \<open>miss_fn\<close> is called when \<open>fetches\<close> grows.\<close>

definition async_get :: "'k \<Rightarrow> (('k, 'v) AsyncLRUCache, 'v + nat) prog" where
  "async_get key = bnd (in_lru (get_hit key)) (\<lambda>found. case found of
       Some result \<Rightarrow> ret (Inl result)
     | None \<Rightarrow> bnd (gets (\<lambda>s. concurrent s key)) (\<lambda>conc.
         if conc \<noteq> None \<and> conc \<noteq> Some [] then
           sq (in_lru (modify (\<lambda>c. c\<lparr>hits := hits c + 1\<rparr>)))
           (bnd make_deferred (\<lambda>d.
            sq (modify (\<lambda>s. s\<lparr>concurrent := (concurrent s)(key \<mapsto> the conc @ [d])\<rparr>)) (ret (Inr d))))
         else
           sq (in_lru (modify (\<lambda>c. c\<lparr>misses := misses c + 1\<rparr>)))
           (bnd make_deferred (\<lambda>d.
            sq (guard (conc = None) AssertionError)
            (sq (modify (\<lambda>s. s\<lparr>concurrent := (concurrent s)(key \<mapsto> [d]), fetches := fetches s @ [key]\<rparr>)) (ret (Inr d)))))))"

definition fire_all :: "'k \<Rightarrow> 'v answer \<Rightarrow> (('k, 'v) AsyncLRUCache, unit) prog" where
  "fire_all key a = bnd (gets (\<lambda>s. concurrent s key)) (\<lambda>dlist. case dlist of
       None \<Rightarrow> raise KeyError
     | Some ds \<Rightarrow> modify (\<lambda>s. s\<lparr>concurrent := (concurrent s)(key := None), answers := answers s @ map (\<lambda>d. (d, a)) ds\<rparr>))"

text \<open>\<open>handle_result\<close> and \<open>handle_failure\<close>, the callbacks of the Deferred of \<open>miss_fn\<close>.\<close>

definition handle_result :: "'k \<Rightarrow> 'v option \<Rightarrow> (('k, 'v) AsyncLRUCache, unit) prog" where
  "handle_result key result =
     sq (case result of None \<Rightarrow> ret () | Some v \<Rightarrow> in_lru (store_result key v)) (fire_all key (Value result))"

definition handle_failure :: "'k \<Rightarrow> exn \<Rightarrow> (('k, 'v) AsyncLRUCache, unit) prog" where
  "handle_failure key f = fire_all key (Failed f)"

end
