(* ===== verification/Bb_Lru_Facts.thy ===== *)
theory Bb_Lru_Facts
  imports Bb_Lru
begin

text \<open>
  The cache against its specification: \<open>recency\<close> is the keys from the least to the most recently used, a use moves
  a key to the end, and purging keeps the last \<open>max_size\<close> of them. The queue, the reference counts and the
  dictionary always agree, so no operation raises.
\<close>

section \<open>Queues and counts\<close>

definition counts :: "'k list \<Rightarrow> 'k \<rightharpoonup> int" where
  "counts q = (\<lambda>k. if k \<in> set q then Some (int (count_list q k)) else None)"

definition recency :: "('k, 'v) LRUCache \<Rightarrow> 'k list" where
  "recency s = remdups (queue s)"

definition touch :: "'k \<Rightarrow> 'k list \<Rightarrow> 'k list" where
  "touch k ks = [x \<leftarrow> ks. x \<noteq> k] @ [k]"

definition newest :: "int \<Rightarrow> 'k list \<Rightarrow> 'k list" where
  "newest n ks = drop (length ks - nat n) ks"

lemma remdups_snoc: "remdups (xs @ [x]) = touch x (remdups xs)"
  by (induction xs) (auto simp: touch_def)

lemma touch_simps [simp]: "set (touch k ks) = insert k (set ks)" "distinct (touch k ks) \<longleftrightarrow> distinct [x \<leftarrow> ks. x \<noteq> k]"
  by (auto simp: touch_def)

lemma refs_counts: "refs (counts q) k = int (count_list q k)"
  by (simp add: refs_def counts_def count_list_0_iff)

lemma counts_snoc: "(counts q)(k \<mapsto> refs (counts q) k + 1) = counts (q @ [k])"
  by (auto simp: fun_eq_iff refs_counts) (auto simp: counts_def)

lemma count_distinct: "distinct q \<Longrightarrow> k \<in> set q \<Longrightarrow> count_list q k = 1"
  by (induction q) auto

lemma counts_distinct: "distinct q \<Longrightarrow> counts q = (\<lambda>k. if k \<in> set q then Some 1 else None)"
  by (simp add: counts_def count_distinct fun_eq_iff)

lemma compact_run:
  "compact (rev xs) q (\<lambda>k. if k \<in> set q then Some 1 else None) =
     ([k \<leftarrow> remdups xs. k \<notin> set q] @ q, \<lambda>k. if k \<in> set xs \<union> set q then Some 1 else None)"
proof (induction xs arbitrary: q rule: rev_induct)
  case (snoc x xs)
  show ?case
  proof (cases "x \<in> set q")
    case True
    then have "[k \<leftarrow> touch x (remdups xs). k \<notin> set q] = [k \<leftarrow> remdups xs. k \<notin> set q]"
      by (auto simp: touch_def intro: filter_cong)
    with True snoc [of q] show ?thesis by (auto simp: remdups_snoc fun_eq_iff)
  next
    case False
    have "(\<lambda>k. if k \<in> set q then Some 1 else None)(x \<mapsto> 1) = (\<lambda>k. if k \<in> set (x # q) then Some (1::int) else None)"
      by (auto simp: fun_eq_iff)
    moreover have "[k \<leftarrow> touch x (remdups xs). k \<notin> set q] = [k \<leftarrow> remdups xs. k \<notin> set (x # q)] @ [x]"
      using False by (simp add: touch_def)
    moreover have "compact (rev (xs @ [x])) q (\<lambda>k. if k \<in> set q then Some 1 else None) =
        compact (rev xs) (x # q) ((\<lambda>k. if k \<in> set q then Some 1 else None)(x \<mapsto> 1))"
      using False by simp
    ultimately show ?thesis using snoc [of "x # q"] unfolding remdups_snoc by (simp del: fun_upd_apply)
  qed
qed simp

lemma compact_all: "compact (rev xs) [] Map.empty = (remdups xs, counts (remdups xs))"
  using compact_run [of xs "[]"] by (simp add: counts_distinct)

lemma ref_key_run:
  assumes "refcount s = counts (queue s)"
  shows "refcount (ref_key k s) = counts (queue (ref_key k s))" "recency (ref_key k s) = touch k (recency s)"
    "set (queue (ref_key k s)) = insert k (set (queue s))"
    "cache (ref_key k s) = cache s" "weakrefs (ref_key k s) = weakrefs s" "max_size (ref_key k s) = max_size s"
  using assms remdups_snoc [of "queue s" k]
  by (simp_all add: ref_key_def Let_def compact_all [of "queue s @ [k]", simplified] counts_snoc recency_def)

lemma pop_least_run:
  "q \<noteq> [] \<Longrightarrow> \<exists>k q'. pop_least q (counts q) = (Inr k, q', (counts q')(k \<mapsto> 0)) \<and> remdups q = k # remdups q' \<and> k \<notin> set q'"
proof (induction q)
  case (Cons k q)
  have next_count: "refs (counts (k # q)) k - 1 = int (count_list q k)"
    "(counts (k # q))(k \<mapsto> int (count_list q k)) = (counts q)(k \<mapsto> int (count_list q k))"
    by (simp_all add: refs_counts) (auto simp: counts_def fun_eq_iff)
  show ?case
  proof (cases "k \<in> set q")
    case False
    then show ?thesis using next_count by (simp add: count_list_0_iff Let_def fun_upd_def)
  next
    case True
    then have "(counts q)(k \<mapsto> int (count_list q k)) = counts q" by (auto simp: counts_def fun_eq_iff)
    moreover have "q \<noteq> []" "count_list q k \<noteq> 0" using True by (auto simp: count_list_0_iff)
    ultimately show ?thesis using Cons.IH True next_count by (simp add: Let_def)
  qed
qed simp

section \<open>The invariant\<close>

definition lru_ok :: "('k, 'v) LRUCache \<Rightarrow> bool" where
  "lru_ok s \<longleftrightarrow> 0 \<le> max_size s \<and> distinct (keys_cache s) \<and> inv_cache s"

lemma inv_counts: "inv_cache s \<longleftrightarrow> set (queue s) = set (keys_cache s) \<and> refcount s = counts (queue s)"
  by (auto simp: inv_cache_def counts_def fun_eq_iff)

lemma recency_length: "lru_ok s \<Longrightarrow> length (recency s) = length (cache s)"
  unfolding lru_ok_def inv_counts recency_def keys_cache_def
  by (metis distinct_card length_map length_remdups_card_conv)

lemma map_of_dict_put: "map_of (dict_put k v ps) = (map_of ps)(k \<mapsto> v)"
  by (induction ps) auto

lemma keys_dict_put: "map fst (dict_put k v ps) = (if k \<in> fst ` set ps then map fst ps else map fst ps @ [k])"
  by (induction ps) auto

lemma map_of_dict_del: "map_of (dict_del k ps) = (map_of ps)(k := None)"
  by (induction ps) (auto simp: dict_del_def fun_eq_iff)

lemma keys_dict_del: "map fst (dict_del k ps) = [x \<leftarrow> map fst ps. x \<noteq> k]"
  by (induction ps) (auto simp: dict_del_def)

text \<open>Purging keeps the newest keys with their values.\<close>

definition purged :: "('k, 'v) LRUCache \<Rightarrow> ('k, 'v) LRUCache \<Rightarrow> bool" where
  "purged s t \<longleftrightarrow> lru_ok t \<and> recency t = newest (max_size s) (recency s)
     \<and> map_of (cache t) = (map_of (cache s)) |` set (recency t)
     \<and> max_size t = max_size s \<and> max_queue t = max_queue s \<and> weakrefs t = weakrefs s
     \<and> hits t = hits s \<and> refhits t = refhits s \<and> misses t = misses s"

lemma newest_all: "int (length ks) \<le> n \<Longrightarrow> newest n ks = ks"
  by (simp add: newest_def)

lemma newest_Cons: "0 \<le> n \<Longrightarrow> n < int (length (k # ks)) \<Longrightarrow> newest n (k # ks) = newest n ks"
  by (cases "nat n = length (k # ks)") (auto simp: newest_def Suc_diff_le)

lemma lru_keys: "lru_ok s \<Longrightarrow> set (recency s) = dom (map_of (cache s))"
  by (simp add: lru_ok_def inv_counts recency_def keys_cache_def dom_map_of_conv_image_fst)

lemma purge_loop_run: "lru_ok s \<Longrightarrow> \<exists>t. purge_loop s = (Inr (), t) \<and> purged s t"
proof (induction s rule: purge_loop.induct)
  case (1 s)
  note len = recency_length [OF 1(2)] and keys = lru_keys [OF 1(2)]
  show ?case
  proof (cases "max_size s < int (length (cache s))")
    case False
    then have "purged s s"
      using 1(2) keys len by (auto simp: purged_def newest_all restrict_map_def fun_eq_iff domIff)
    with False show ?thesis by (subst purge_loop.simps) simp
  next
    case True
    have s: "refcount s = counts (queue s)" "set (queue s) = set (keys_cache s)" "0 \<le> max_size s"
      using 1(2) by (simp_all add: lru_ok_def inv_counts)
    then have "queue s \<noteq> []" using True by (cases "cache s") (auto simp: keys_cache_def)
    then obtain k q where q: "pop_least (queue s) (refcount s) = (Inr k, q, (counts q)(k \<mapsto> 0))"
        "remdups (queue s) = k # remdups q" "k \<notin> set q"
      using pop_least_run s(1) by metis
    have rest: "set q = set (queue s) - {k}" "k \<in> set (queue s)"
      using q(2,3) by (metis Diff_insert_absorb list.simps(15) set_remdups, metis list.set_intros(1) set_remdups)
    let ?t = "s\<lparr>queue := q, refcount := ((counts q)(k \<mapsto> 0))(k := None), cache := dict_del k (cache s)\<rparr>"
    have here: "map_of (cache s) k \<noteq> None"
      using rest(2) s(2) by (simp add: keys_cache_def map_of_eq_None_iff)
    have rc: "((counts q)(k \<mapsto> 0))(k := None) = counts q"
      using q(3) by (auto simp: counts_def fun_eq_iff)
    have t: "lru_ok ?t"
      using 1(2) rest s(2) unfolding rc lru_ok_def inv_counts by (auto simp: keys_cache_def keys_dict_del)
    from 1(1) [OF _ q(1) [symmetric] refl refl here t] True obtain u where
      u: "purge_loop ?t = (Inr (), u)" "purged ?t u" by auto
    have "max_size s < int (length (k # remdups q))"
      using True len q(2) by (simp add: recency_def)
    from newest_Cons [OF s(3) this] have new: "newest (max_size s) (remdups q) = newest (max_size s) (recency s)"
      using q(2) by (simp add: recency_def)
    have "k \<notin> set (newest (max_size s) (recency s))"
      using q(3) unfolding new [symmetric] by (auto simp: newest_def dest: in_set_dropD)
    moreover have "recency u = newest (max_size s) (recency s)"
      using u(2) new by (simp add: purged_def recency_def)
    moreover from this have "set (queue u) = set (newest (max_size s) (recency s))" by (metis recency_def set_remdups)
    ultimately have "purged s u"
      using u(2) by (auto simp: purged_def map_of_dict_del restrict_map_def fun_eq_iff)
    moreover have "purge_loop s = (Inr (), u)"
      using True q(1) here u(1) by (subst purge_loop.simps) simp
    ultimately show ?thesis by blast
  qed
qed

lemma purge_run: "lru_ok s \<Longrightarrow> \<exists>t. purge s = (Inr (), t) \<and> purged s t"
  using purge_loop_run [of s] by (auto simp: purge_def run_combinators purge_loop.simps [of s] not_less split: if_splits)

end
