(* ===== verification/Bb_Lru_Spec.thy ===== *)
theory Bb_Lru_Spec
  imports Bb_Lru_Facts
begin

text \<open>
  The ideal cache, which never has more keys than it may, and that the code's cache is one as long as no key
  comes back that only the weak references still know: the operations on keys by recency, what they return, and when
  a cached answer is the one \<open>miss_fn\<close> would give. Then the asynchronous cache: one fetch at a time for a key, and one answer for each Deferred.
\<close>

section \<open>The ideal cache\<close>

record ('k, 'v) ideal =
  order :: "'k list"
  content :: "'k \<rightharpoonup> 'v"
  weak :: "'k \<rightharpoonup> 'v"
  bound :: int

definition ideal_of :: "('k, 'v) LRUCache \<Rightarrow> ('k, 'v) ideal" where
  "ideal_of s = \<lparr>order = recency s, content = map_of (cache s), weak = weakrefs s, bound = max_size s\<rparr>"

definition ideal_use :: "'k \<Rightarrow> 'v \<Rightarrow> ('k, 'v) ideal \<Rightarrow> ('k, 'v) ideal" where
  "ideal_use k v i = i\<lparr>order := touch k (order i), content := (content i)(k \<mapsto> v)\<rparr>"

definition ideal_trim :: "('k, 'v) ideal \<Rightarrow> ('k, 'v) ideal" where
  "ideal_trim i = i\<lparr>order := newest (bound i) (order i), content := content i |` set (newest (bound i) (order i))\<rparr>"

definition ideal_store :: "'k \<Rightarrow> 'v \<Rightarrow> ('k, 'v) ideal \<Rightarrow> ('k, 'v) ideal" where
  "ideal_store k v i = ideal_use k v (i\<lparr>weak := (weak i)(k \<mapsto> v)\<rparr>)"

datatype ('k, 'v) lru_op = Put 'k 'v | Get 'k | Resize int | Forget 'k

fun lru_step :: "('k \<Rightarrow> 'v option) \<Rightarrow> ('k, 'v) lru_op \<Rightarrow> (('k, 'v) LRUCache, 'v option) prog" where
  "lru_step miss_fn (Put k v) = sq (put_cache k v) (ret None)"
| "lru_step miss_fn (Get k) = get_cache miss_fn k"
| "lru_step miss_fn (Resize n) = sq (set_max_size n) (ret None)"
| "lru_step miss_fn (Forget k) = sq (modify (forget k)) (ret None)"

text \<open>The ideal cache is trimmed to its bound whenever a key is added or the bound changes.\<close>

fun ideal_step :: "('k \<Rightarrow> 'v option) \<Rightarrow> ('k, 'v) lru_op \<Rightarrow> ('k, 'v) ideal \<Rightarrow> 'v option \<times> ('k, 'v) ideal" where
  "ideal_step miss_fn (Put k v) i = (None, ideal_trim (ideal_store k v i))"
| "ideal_step miss_fn (Get k) i = (case content i k of Some v \<Rightarrow> (Some v, ideal_use k v i)
     | None \<Rightarrow> (case weak i k of Some v \<Rightarrow> (Some v, ideal_trim (ideal_use k v i))
       | None \<Rightarrow> (case miss_fn k of Some v \<Rightarrow> (Some v, ideal_trim (ideal_store k v i)) | None \<Rightarrow> (None, i))))"
| "ideal_step miss_fn (Resize n) i = (None, ideal_trim (i\<lparr>bound := n\<rparr>))"
| "ideal_step miss_fn (Forget k) i = (None, if content i k = None then i\<lparr>weak := (weak i)(k := None)\<rparr> else i)"

text \<open>
  An operation on a key that was evicted while its value is still referenced elsewhere: the code adds such a key
  without purging any other (\<open>cache_outgrows_bound\<close>).
\<close>

fun revives :: "('k, 'v) lru_op \<Rightarrow> ('k, 'v) ideal \<Rightarrow> bool" where
  "revives (Put k v) i \<longleftrightarrow> content i k = None \<and> weak i k \<noteq> None"
| "revives (Get k) i \<longleftrightarrow> content i k = None \<and> weak i k \<noteq> None"
| "revives _ i \<longleftrightarrow> False"

fun no_revival :: "('k \<Rightarrow> 'v option) \<Rightarrow> ('k, 'v) lru_op list \<Rightarrow> ('k, 'v) ideal \<Rightarrow> bool" where
  "no_revival miss_fn [] i \<longleftrightarrow> True"
| "no_revival miss_fn (q # qs) i \<longleftrightarrow> \<not> revives q i \<and> no_revival miss_fn qs (snd (ideal_step miss_fn q i))"

definition bounded :: "('k, 'v) ideal \<Rightarrow> bool" where
  "bounded i \<longleftrightarrow> distinct (order i) \<and> set (order i) = dom (content i) \<and> int (length (order i)) \<le> bound i"

section \<open>The cache refines it\<close>

lemma ideal_of_fields [simp]: "order (ideal_of s) = recency s" "content (ideal_of s) = map_of (cache s)"
  "weak (ideal_of s) = weakrefs s" "bound (ideal_of s) = max_size s"
  by (simp_all add: ideal_of_def)

text \<open>Only these fields matter for the invariant and the ideal cache.\<close>

definition same_cache :: "('k, 'v) LRUCache \<Rightarrow> ('k, 'v) LRUCache \<Rightarrow> bool" where
  "same_cache s t \<longleftrightarrow> queue t = queue s \<and> cache t = cache s \<and> refcount t = refcount s \<and> max_size t = max_size s"

lemma same_cache_ok: "same_cache s t \<Longrightarrow> lru_ok t = lru_ok s" "same_cache s t \<Longrightarrow> recency t = recency s"
  by (simp_all add: same_cache_def lru_ok_def inv_cache_def keys_cache_def recency_def)

lemma put_keys: "fst ` set (dict_put k v ps) = insert k (fst ` set ps)" "distinct (map fst (dict_put k v ps)) = distinct (map fst ps)"
proof -
  have "set (map fst (dict_put k v ps)) = insert k (set (map fst ps))" unfolding keys_dict_put by auto
  then show "fst ` set (dict_put k v ps) = insert k (fst ` set ps)" by simp
  show "distinct (map fst (dict_put k v ps)) = distinct (map fst ps)" unfolding keys_dict_put by auto
qed

lemma used:
  assumes "lru_ok s" "same_cache s s'"
  shows "lru_ok (ref_key k (s'\<lparr>cache := dict_put k v (cache s')\<rparr>))"
    "ideal_of (ref_key k (s'\<lparr>cache := dict_put k v (cache s')\<rparr>)) = ideal_use k v (ideal_of s\<lparr>weak := weakrefs s'\<rparr>)"
proof -
  let ?t = "s'\<lparr>cache := dict_put k v (cache s')\<rparr>"
  have s': "refcount ?t = counts (queue ?t)" "set (queue s') = fst ` set (cache s')" "0 \<le> max_size s'" "distinct (map fst (cache s'))"
    using assms by (simp_all add: same_cache_def lru_ok_def inv_counts keys_cache_def)
  note r = ref_key_run [OF s'(1), of k]
  show "lru_ok (ref_key k ?t)"
    using s' r by (simp add: lru_ok_def inv_counts keys_cache_def put_keys)
  show "ideal_of (ref_key k ?t) = ideal_use k v (ideal_of s\<lparr>weak := weakrefs s'\<rparr>)"
    using r assms(2) by (simp add: ideal_of_def ideal_use_def map_of_dict_put same_cache_def recency_def)
qed

lemma dict_put_same: "map_of ps k = Some v \<Longrightarrow> dict_put k v ps = ps"
  by (induction ps) (auto split: if_splits)

lemma trimmed: "lru_ok s \<Longrightarrow> \<exists>t. purge s = (Inr (), t) \<and> lru_ok t \<and> ideal_of t = ideal_trim (ideal_of s)"
proof -
  assume s: "lru_ok s"
  obtain t where t: "purge s = (Inr (), t)" "purged s t" using purge_run [OF s] by blast
  then have "recency t = newest (max_size s) (recency s)" by (simp add: purged_def)
  with t show ?thesis by (auto simp: purged_def ideal_of_def ideal_trim_def)
qed

definition sensible :: "('k, 'v) lru_op \<Rightarrow> bool" where
  "sensible q \<longleftrightarrow> (\<forall>n. q = Resize n \<longrightarrow> 0 \<le> n)"

lemma store_ok:
  assumes "lru_ok s"
  shows "\<exists>t. sq (modify (\<lambda>s. s\<lparr>cache := dict_put k v (cache s), weakrefs := (weakrefs s)(k \<mapsto> v)\<rparr>)) (modify (ref_key k)) s = (Inr (), t)
    \<and> lru_ok t \<and> ideal_of t = ideal_store k v (ideal_of s)"
proof -
  let ?s = "s\<lparr>weakrefs := (weakrefs s)(k \<mapsto> v)\<rparr>"
  have "same_cache s ?s" by (simp add: same_cache_def)
  note u = used [OF assms this, of k v]
  have eq: "s\<lparr>cache := dict_put k v (cache s), weakrefs := (weakrefs s)(k \<mapsto> v)\<rparr> = ?s\<lparr>cache := dict_put k v (cache ?s)\<rparr>" by simp
  have "ideal_use k v (ideal_of s\<lparr>weak := weakrefs ?s\<rparr>) = ideal_store k v (ideal_of s)"
    by (simp add: ideal_store_def ideal_use_def ideal_of_def)
  with u [folded eq] show ?thesis by (simp only: run_combinators) simp
qed

lemma store_purge:
  assumes "lru_ok s"
  shows "\<exists>t. store_result k v s = (Inr (), t) \<and> lru_ok t \<and> ideal_of t = ideal_trim (ideal_store k v (ideal_of s))"
proof -
  obtain t where t: "sq (modify (\<lambda>s. s\<lparr>cache := dict_put k v (cache s), weakrefs := (weakrefs s)(k \<mapsto> v)\<rparr>)) (modify (ref_key k)) s = (Inr (), t)"
      "lru_ok t" "ideal_of t = ideal_store k v (ideal_of s)"
    using store_ok [OF assms] by blast
  with trimmed [OF t(2)] show ?thesis by (auto simp: store_result_def run_combinators)
qed

text \<open>\<open>_get_hit\<close>: a value that is found is used.\<close>

lemma get_hit_run:
  assumes "lru_ok s"
  shows "\<exists>t. get_hit k s = (Inr (case content (ideal_of s) k of Some v \<Rightarrow> Some v | None \<Rightarrow> weak (ideal_of s) k), t) \<and> lru_ok t
    \<and> ideal_of t = (case content (ideal_of s) k of Some v \<Rightarrow> ideal_use k v (ideal_of s)
        | None \<Rightarrow> (case weak (ideal_of s) k of Some v \<Rightarrow> ideal_use k v (ideal_of s) | None \<Rightarrow> ideal_of s))"
proof -
  have same: "same_cache s (s\<lparr>hits := n\<rparr>)" "same_cache s (s\<lparr>refhits := n\<rparr>)" for n by (simp_all add: same_cache_def)
  have weak: "ideal_of s\<lparr>weak := weakrefs s\<rparr> = ideal_of s" by (simp add: ideal_of_def)
  show ?thesis
  proof (cases "map_of (cache s) k")
    case (Some v)
    then show ?thesis
      using used [OF assms same(1), of k v] weak by (simp add: get_hit_def run_combinators dict_put_same)
  next
    case None
    then show ?thesis
      using used [OF assms same(2), of k] weak assms by (cases "weakrefs s k") (simp_all add: get_hit_def run_combinators)
  qed
qed

text \<open>An ideal cache that is within its bound is not changed by trimming; a trimmed one is within it.\<close>

lemma newest_props: "set (newest n ks) \<subseteq> set ks" "distinct ks \<Longrightarrow> distinct (newest n ks)" "0 \<le> n \<Longrightarrow> int (length (newest n ks)) \<le> n"
  by (auto simp: newest_def dest: in_set_dropD)

lemma length_touch: "distinct ks \<Longrightarrow> k \<in> set ks \<Longrightarrow> length (touch k ks) = length ks"
proof -
  assume "distinct ks" "k \<in> set ks"
  then have "distinct (touch k ks)" "set (touch k ks) = set ks" by auto
  with \<open>distinct ks\<close> show ?thesis by (metis distinct_card)
qed

lemma trim_bounded: "bounded i \<Longrightarrow> ideal_trim i = i"
  by (simp add: bounded_def ideal_trim_def newest_all restrict_map_def fun_eq_iff domIff)

lemma bounded_trim:
  assumes "0 \<le> bound i" "distinct (order i)" "set (order i) = dom (content i)"
  shows "bounded (ideal_trim i)"
  using assms newest_props [where n = "bound i" and ks = "order i"]
  by (auto simp: bounded_def ideal_trim_def restrict_map_def split: if_splits)

lemma bounded_use: "bounded i \<Longrightarrow> content i k \<noteq> None \<Longrightarrow> bounded (ideal_use k v i)"
  by (auto simp: bounded_def ideal_use_def length_touch domIff)

lemma bounded_store: "bounded i \<Longrightarrow> content i k \<noteq> None \<Longrightarrow> bounded (ideal_store k v i)"
  unfolding ideal_store_def by (rule bounded_use) (simp_all add: bounded_def)

lemma bounded_add:
  assumes "0 \<le> bound i" "bounded i"
  shows "bounded (ideal_trim (ideal_store k v i))" "bounded (ideal_trim (ideal_use k v i))"
  by (rule bounded_trim; use assms in \<open>auto simp: bounded_def ideal_store_def ideal_use_def\<close>)+

lemma bounded_step: "bounded i \<Longrightarrow> sensible q \<Longrightarrow> bounded (snd (ideal_step miss_fn q i))"
proof (cases q)
  case (Put k v)
  assume i: "bounded i"
  then have "0 \<le> bound i" by (auto simp: bounded_def)
  from bounded_add(1) [OF this i] Put show ?thesis by simp
next
  case (Get k)
  assume i: "bounded i"
  then have "0 \<le> bound i" by (auto simp: bounded_def)
  from bounded_add [OF this i] bounded_use [OF i] i Get show ?thesis by (auto split: option.split)
next
  case (Resize n)
  assume "bounded i" "sensible q"
  with Resize have "bounded (ideal_trim (i\<lparr>bound := n\<rparr>))"
    by (intro bounded_trim) (auto simp: bounded_def sensible_def)
  with Resize show ?thesis by simp
next
  case (Forget k)
  assume "bounded i"
  with Forget show ?thesis by (simp add: bounded_def)
qed

lemma ideal_bounded: "lru_ok s \<Longrightarrow> int (length (cache s)) \<le> max_size s \<longleftrightarrow> bounded (ideal_of s)"
  using recency_length [of s] lru_keys [of s] by (auto simp: bounded_def recency_def)

lemma lru_refines:
  assumes s: "lru_ok s" and q: "sensible q" and b: "bounded (ideal_of s)" and known: "\<not> revives q (ideal_of s)"
  shows "\<exists>t. lru_step miss_fn q s = (Inr (fst (ideal_step miss_fn q (ideal_of s))), t) \<and> lru_ok t
    \<and> ideal_of t = snd (ideal_step miss_fn q (ideal_of s))"
proof (cases q)
  case (Put k v)
  obtain t where t: "sq (modify (\<lambda>s. s\<lparr>cache := dict_put k v (cache s), weakrefs := (weakrefs s)(k \<mapsto> v)\<rparr>)) (modify (ref_key k)) s = (Inr (), t)"
      "lru_ok t" "ideal_of t = ideal_store k v (ideal_of s)"
    using store_ok [OF s] by blast
  show ?thesis
  proof (cases "map_of (cache s) k = None")
    case True
    with known Put have "weakrefs s k = None" by simp
    with True Put t trimmed [OF t(2)] show ?thesis by (auto simp: put_cache_def run_combinators)
  next
    case False
    then have "ideal_trim (ideal_store k v (ideal_of s)) = ideal_store k v (ideal_of s)"
      using b by (intro trim_bounded bounded_store) simp_all
    with False Put t show ?thesis by (auto simp: put_cache_def run_combinators)
  qed
next
  case (Get k)
  obtain t where t: "get_hit k s = (Inr (case map_of (cache s) k of Some v \<Rightarrow> Some v | None \<Rightarrow> weakrefs s k), t)" "lru_ok t"
      "ideal_of t = (case map_of (cache s) k of Some v \<Rightarrow> ideal_use k v (ideal_of s)
        | None \<Rightarrow> (case weakrefs s k of Some v \<Rightarrow> ideal_use k v (ideal_of s) | None \<Rightarrow> ideal_of s))"
    using get_hit_run [OF s, of k, unfolded ideal_of_fields] by blast
  let ?m = "t\<lparr>misses := misses t + 1\<rparr>"
  have m: "lru_ok ?m" "ideal_of ?m = ideal_of t" using t(2) by (simp_all add: lru_ok_def inv_cache_def keys_cache_def ideal_of_def recency_def)
  show ?thesis
  proof (cases "map_of (cache s) k")
    case (Some v)
    then show ?thesis using Get t by (auto simp: get_cache_def run_combinators)
  next
    case None
    with known Get have w: "weakrefs s k = None" by simp
    show ?thesis
    proof (cases "miss_fn k")
      case (Some v)
      obtain u where "store_result k v ?m = (Inr (), u)" "lru_ok u" "ideal_of u = ideal_trim (ideal_store k v (ideal_of ?m))"
        using store_purge [OF m(1)] by blast
      with Some None w Get t m show ?thesis by (simp add: get_cache_def run_combinators)
    qed (use None w Get t m in \<open>simp add: get_cache_def run_combinators\<close>)
  qed
next
  case (Resize n)
  let ?t = "s\<lparr>max_size := n, max_queue := n * QUEUE_SIZE_FACTOR\<rparr>"
  have "lru_ok ?t" "ideal_of ?t = ideal_of s\<lparr>bound := n\<rparr>"
    using s q Resize by (simp_all add: lru_ok_def inv_cache_def keys_cache_def ideal_of_def recency_def sensible_def)
  moreover have "ideal_trim (ideal_of s\<lparr>bound := n\<rparr>) = ideal_of s" if "max_size s = n"
  proof -
    have "ideal_of s\<lparr>bound := n\<rparr> = ideal_of s" using that by (simp add: ideal_of_def)
    then show ?thesis using trim_bounded [OF b] by simp
  qed
  ultimately show ?thesis
    using trimmed [of ?t] s Resize by (auto simp: set_max_size_def run_combinators)
next
  case (Forget k)
  then show ?thesis
    using s by (cases "map_of (cache s) k")
      (simp_all add: run_combinators forget_def lru_ok_def inv_cache_def keys_cache_def ideal_of_def recency_def)
qed

text \<open>Any sequence of operations in which no key is revived.\<close>

definition after_ops :: "('k \<Rightarrow> 'v option) \<Rightarrow> ('k, 'v) lru_op list \<Rightarrow> ('k, 'v) LRUCache \<Rightarrow> ('k, 'v) LRUCache" where
  "after_ops miss_fn qs s = fold (\<lambda>q s. snd (lru_step miss_fn q s)) qs s"

definition ideal_ops :: "('k \<Rightarrow> 'v option) \<Rightarrow> ('k, 'v) lru_op list \<Rightarrow> ('k, 'v) ideal \<Rightarrow> ('k, 'v) ideal" where
  "ideal_ops miss_fn qs i = fold (\<lambda>q i. snd (ideal_step miss_fn q i)) qs i"

lemma after_ops_ok:
  "lru_ok s \<Longrightarrow> bounded (ideal_of s) \<Longrightarrow> list_all sensible qs \<Longrightarrow> no_revival miss_fn qs (ideal_of s) \<Longrightarrow>
   lru_ok (after_ops miss_fn qs s) \<and> bounded (ideal_of (after_ops miss_fn qs s))
     \<and> ideal_of (after_ops miss_fn qs s) = ideal_ops miss_fn qs (ideal_of s)"
proof (induction qs arbitrary: s)
  case (Cons q qs)
  obtain t where t: "lru_step miss_fn q s = (Inr (fst (ideal_step miss_fn q (ideal_of s))), t)" "lru_ok t"
      "ideal_of t = snd (ideal_step miss_fn q (ideal_of s))"
    using lru_refines [OF Cons.prems(1) _ Cons.prems(2)] Cons.prems(3,4) by fastforce
  moreover have "bounded (ideal_of t)" unfolding t(3) using Cons.prems(2,3) by (simp add: bounded_step)
  moreover have step: "after_ops miss_fn (q # qs) s = after_ops miss_fn qs t"
      "ideal_ops miss_fn (q # qs) (ideal_of s) = ideal_ops miss_fn qs (ideal_of t)"
    using t by (simp_all add: after_ops_def ideal_ops_def)
  ultimately show ?case
    unfolding step using t Cons.prems(3,4) by (intro Cons.IH) simp_all
qed (simp add: after_ops_def ideal_ops_def)

lemma new_cache_ok: "0 \<le> n \<Longrightarrow> lru_ok (new_cache n)"
  by (simp add: new_cache_def lru_ok_def inv_cache_def keys_cache_def)

lemma new_cache_bounded: "0 \<le> n \<Longrightarrow> bounded (ideal_of (new_cache n))"
  by (simp add: bounded_def new_cache_def recency_def)

section \<open>Transparency\<close>

definition coherent :: "('k \<Rightarrow> 'v option) \<Rightarrow> ('k, 'v) ideal \<Rightarrow> bool" where
  "coherent miss_fn i \<longleftrightarrow> (\<forall>k v. content i k = Some v \<or> weak i k = Some v \<longrightarrow> miss_fn k = Some v)"

definition honest :: "('k \<Rightarrow> 'v option) \<Rightarrow> ('k, 'v) lru_op \<Rightarrow> bool" where
  "honest miss_fn q \<longleftrightarrow> (\<forall>k v. q = Put k v \<longrightarrow> miss_fn k = Some v)"

lemma coherent_parts:
  "coherent f i \<Longrightarrow> f k = Some v \<Longrightarrow> coherent f (ideal_use k v i)"
  "coherent f i \<Longrightarrow> f k = Some v \<Longrightarrow> coherent f (ideal_store k v i)"
  "coherent f i \<Longrightarrow> coherent f (ideal_trim i)"
  by (auto simp: coherent_def ideal_use_def ideal_store_def ideal_trim_def restrict_map_def split: if_splits)

lemma coherent_step:
  "coherent f i \<Longrightarrow> honest f q \<Longrightarrow> coherent f (snd (ideal_step f q i)) \<and> (\<forall>k. q = Get k \<longrightarrow> fst (ideal_step f q i) = f k)"
proof (cases q)
  case (Get k)
  assume "coherent f i"
  then have "content i k = Some v \<or> weak i k = Some v \<Longrightarrow> f k = Some v" for v by (auto simp: coherent_def)
  with Get \<open>coherent f i\<close> show ?thesis
    by (cases "content i k"; cases "weak i k"; cases "f k") (auto intro: coherent_parts)
qed (auto simp: honest_def coherent_parts, auto simp: coherent_def ideal_trim_def restrict_map_def split: if_splits)

section \<open>The asynchronous cache\<close>

text \<open>
  The Deferreds that wait, for whichever key, and those that were answered are all different, and no key
  has an empty list of them.
\<close>

definition async_ok :: "('k, 'v) AsyncLRUCache \<Rightarrow> bool" where
  "async_ok s \<longleftrightarrow> lru_ok (lru s) \<and> distinct (map fst (answers s)) \<and> (\<forall>x\<in>set (answers s). fst x < fresh_deferred s)
     \<and> (\<forall>k ds. concurrent s k = Some ds \<longrightarrow> ds \<noteq> [] \<and> distinct ds \<and> (\<forall>d\<in>set ds. d < fresh_deferred s \<and> d \<notin> fst ` set (answers s)))
     \<and> (\<forall>k k' ds ds'. concurrent s k = Some ds \<longrightarrow> concurrent s k' = Some ds' \<longrightarrow> k \<noteq> k' \<longrightarrow> set ds \<inter> set ds' = {})"

text \<open>Whether a key has a value at hand.\<close>

definition at_hand :: "'k \<Rightarrow> ('k, 'v) AsyncLRUCache \<Rightarrow> 'v option" where
  "at_hand k s = (case map_of (cache (lru s)) k of Some v \<Rightarrow> Some v | None \<Rightarrow> weakrefs (lru s) k)"

lemma async_get_run:
  assumes s: "async_ok s"
  shows "\<exists>t. (case at_hand k s of
       Some v \<Rightarrow> async_get k s = (Inr (Inl v), t) \<and> fetches t = fetches s \<and> concurrent t = concurrent s
     | None \<Rightarrow> async_get k s = (Inr (Inr (fresh_deferred s)), t) \<and> (case concurrent s k of
           Some ds \<Rightarrow> fetches t = fetches s \<and> concurrent t = (concurrent s)(k \<mapsto> ds @ [fresh_deferred s])
         | None \<Rightarrow> fetches t = fetches s @ [k] \<and> concurrent t = (concurrent s)(k \<mapsto> [fresh_deferred s])))
     \<and> answers t = answers s \<and> async_ok t"
proof -
  have l: "lru_ok (lru s)" using s by (simp add: async_ok_def)
  obtain c where c: "get_hit k (lru s) = (Inr (at_hand k s), c)" "lru_ok c"
    using get_hit_run [OF l, of k, unfolded ideal_of_fields] unfolding at_hand_def by blast
  have lru: "lru_ok (c\<lparr>hits := n\<rparr>)" "lru_ok (c\<lparr>misses := n\<rparr>)" for n
    using c(2) by (simp_all add: lru_ok_def inv_cache_def keys_cache_def)
  show ?thesis
  proof (cases "at_hand k s")
    case (Some v)
    then show ?thesis using c s by (simp add: async_get_def in_lru_def run_combinators async_ok_def)
  next
    case None
    show ?thesis
    proof (cases "concurrent s k")
      case (Some ds)
      then have "ds \<noteq> []" using s by (simp add: async_ok_def)
      moreover have "async_ok (s\<lparr>lru := c\<lparr>hits := hits c + 1\<rparr>, fresh_deferred := Suc (fresh_deferred s),
          concurrent := (concurrent s)(k \<mapsto> ds @ [fresh_deferred s])\<rparr>)"
        using s Some lru unfolding async_ok_def by (auto simp: less_Suc_eq) (fastforce+)
      ultimately show ?thesis
        using None Some c by (simp add: async_get_def in_lru_def run_combinators make_deferred_def)
    next
      case None2: None
      have "async_ok (s\<lparr>lru := c\<lparr>misses := misses c + 1\<rparr>, fresh_deferred := Suc (fresh_deferred s),
          concurrent := (concurrent s)(k \<mapsto> [fresh_deferred s]), fetches := fetches s @ [k]\<rparr>)"
        using s None2 lru unfolding async_ok_def by (auto simp: less_Suc_eq) (fastforce+)
      then show ?thesis
        using None None2 c by (simp add: async_get_def in_lru_def run_combinators make_deferred_def)
    qed
  qed
qed

text \<open>The answer to a fetch fires every Deferred that waits for its key, once, with the same answer.\<close>

lemma fire_all_run:
  assumes s: "async_ok s" and k: "concurrent s k = Some ds"
  shows "\<exists>t. fire_all k a s = (Inr (), t) \<and> concurrent t = (concurrent s)(k := None)
    \<and> answers t = answers s @ map (\<lambda>d. (d, a)) ds \<and> lru t = lru s \<and> fetches t = fetches s \<and> async_ok t"
proof -
  have "async_ok (s\<lparr>concurrent := (concurrent s)(k := None), answers := answers s @ map (\<lambda>d. (d, a)) ds\<rparr>)"
  proof -
    have "fst ` set (map (\<lambda>d. (d, a)) ds) = set ds" by (simp add: image_image)
    moreover have "ds \<noteq> [] \<and> distinct ds \<and> (\<forall>d\<in>set ds. d < fresh_deferred s \<and> d \<notin> fst ` set (answers s))"
      using s k unfolding async_ok_def by blast
    moreover have "set ds \<inter> set ds' = {}" if "concurrent s k' = Some ds'" "k' \<noteq> k" for k' ds'
      using s k that unfolding async_ok_def by blast
    ultimately show ?thesis
      using s unfolding async_ok_def by (simp add: comp_def) (auto simp: image_Un)
  qed
  with k show ?thesis by (simp add: fire_all_def run_combinators)
qed

lemma handle_result_run:
  assumes s: "async_ok s" and k: "concurrent s k = Some ds"
  shows "\<exists>t. handle_result k result s = (Inr (), t) \<and> concurrent t = (concurrent s)(k := None)
    \<and> answers t = answers s @ map (\<lambda>d. (d, Value result)) ds \<and> fetches t = fetches s \<and> async_ok t"
proof (cases result)
  case None
  with fire_all_run [OF assms, of "Value None"] show ?thesis by (auto simp: handle_result_def run_combinators)
next
  case (Some v)
  have "lru_ok (lru s)" using s by (simp add: async_ok_def)
  from store_purge [OF this, of k v] obtain c where c: "store_result k v (lru s) = (Inr (), c)" "lru_ok c" by blast
  have "async_ok (s\<lparr>lru := c\<rparr>)" using s c(2) by (simp add: async_ok_def)
  from fire_all_run [OF this, of k ds "Value result"] k Some c show ?thesis
    by (auto simp: handle_result_def run_combinators in_lru_def)
qed

text \<open>
  When a key is revived, the cache outgrows its bound: a value that is still referenced elsewhere comes back from the weak
  references, and no key is purged for it.
\<close>

lemma cache_outgrows_bound:
  "length (cache (after_ops (\<lambda>_. None) [Put (1 :: nat) True, Put 2 True, Get 1] (new_cache 1))) = 2"
  by code_simp

end
