(* ===== verification/Bb_Results.thy ===== *)
theory Bb_Results
  imports Umb_Prelude
begin

text \<open>
  \<open>master/buildbot/process/results.py\<close>: the result codes, the worst of two results, and how a step's result
  changes that of the build. \<open>severity\<close> is the order the module describes.
\<close>

definition SUCCESS :: int where "SUCCESS = 0"

definition WARNINGS :: int where "WARNINGS = 1"

definition FAILURE :: int where "FAILURE = 2"

definition SKIPPED :: int where "SKIPPED = 3"

definition EXCEPTION :: int where "EXCEPTION = 4"

definition RETRY :: int where "RETRY = 5"

definition CANCELLED :: int where "CANCELLED = 6"

lemmas result_codes = SUCCESS_def WARNINGS_def FAILURE_def SKIPPED_def EXCEPTION_def RETRY_def CANCELLED_def

definition Results :: "string list" where
  "Results = [''success'', ''warnings'', ''failure'', ''skipped'', ''exception'', ''retry'', ''cancelled'']"

definition MultipleResults :: "string list" where
  "MultipleResults = [''successes'', ''warnings'', ''failures'', ''skipped'', ''exceptions'', ''retries'', ''cancelled'']"

definition statusToString :: "int option \<Rightarrow> int \<Rightarrow> string" where
  "statusToString status count = (case status of None \<Rightarrow> ''not finished''
     | Some i \<Rightarrow> if i < 0 \<or> int (length Results) \<le> i then ''Invalid status''
         else if 1 < count then MultipleResults ! nat i else Results ! nat i)"

text \<open>The loop of \<open>worst_status\<close> over the codes, the worst first.\<close>

definition worst_status :: "int option \<Rightarrow> int option \<Rightarrow> int option" where
  "worst_status a b = find (\<lambda>s. Some s = a \<or> Some s = b) [CANCELLED, RETRY, EXCEPTION, FAILURE, WARNINGS, SUCCESS, SKIPPED]"

record result_config =
  haltOnFailure :: bool
  flunkOnWarnings :: bool
  flunkOnFailure :: bool
  warnOnWarnings :: bool
  warnOnFailure :: bool

definition default_config :: result_config where
  "default_config = \<lparr>haltOnFailure = False, flunkOnWarnings = False, flunkOnFailure = True, warnOnWarnings = False,
     warnOnFailure = False\<rparr>"

text \<open>The overall result a step's own result stands for, and whether the build ends, statement by statement.\<close>

definition possible_overall_result :: "result_config \<Rightarrow> int \<Rightarrow> int" where
  "possible_overall_result obj result =
     (if result = FAILURE then
        (let r = result;
             r = (if \<not> flunkOnFailure obj then SUCCESS else r);
             r = (if warnOnFailure obj then WARNINGS else r);
             r = (if flunkOnFailure obj then FAILURE else r) in r)
      else if result = WARNINGS then
        (let r = (if \<not> warnOnWarnings obj then SUCCESS else WARNINGS);
             r = (if flunkOnWarnings obj then FAILURE else r) in r)
      else result)"

definition terminates_build :: "result_config \<Rightarrow> int \<Rightarrow> bool" where
  "terminates_build obj result =
     (if result = FAILURE then haltOnFailure obj
      else if result = WARNINGS then False
      else result = EXCEPTION \<or> result = RETRY \<or> result = CANCELLED)"

definition computeResultAndTermination :: "result_config \<Rightarrow> int \<Rightarrow> int option \<Rightarrow> int option \<times> bool" where
  "computeResultAndTermination obj result previousResult =
     (worst_status previousResult (Some (possible_overall_result obj result)), terminates_build obj result)"

section \<open>Severity\<close>

definition severity :: "int option \<Rightarrow> nat" where
  "severity r = (case r of None \<Rightarrow> 0 | Some i \<Rightarrow>
     if i = SKIPPED then 1 else if i = SUCCESS then 2 else if i = WARNINGS then 3 else if i = FAILURE then 4
     else if i = EXCEPTION then 5 else if i = RETRY then 6 else if i = CANCELLED then 7 else 0)"

definition valid_result :: "int option \<Rightarrow> bool" where
  "valid_result r \<longleftrightarrow> (case r of None \<Rightarrow> True | Some i \<Rightarrow> 0 \<le> i \<and> i < 7)"

definition result_values :: "int option list" where
  "result_values = [None, Some 0, Some 1, Some 2, Some 3, Some 4, Some 5, Some 6]"

lemma valid_in_values: "valid_result r \<longleftrightarrow> r \<in> set result_values"
  by (cases r) (auto simp: valid_result_def result_values_def)

lemma worst_is_max:
  assumes "valid_result a" "valid_result b"
  shows "worst_status a b = (if severity b \<le> severity a then a else b)"
proof -
  have "list_all (\<lambda>a. list_all (\<lambda>b. worst_status a b = (if severity b \<le> severity a then a else b)) result_values) result_values"
    by code_simp
  then show ?thesis using assms by (simp add: list_all_iff valid_in_values)
qed

lemma severity_inject:
  assumes "valid_result a" "valid_result b" "severity a = severity b"
  shows "a = b"
proof -
  have "list_all (\<lambda>a. list_all (\<lambda>b. severity a = severity b \<longrightarrow> a = b) result_values) result_values"
    by code_simp
  then show ?thesis using assms by (simp add: list_all_iff valid_in_values)
qed

lemma worst_valid: "valid_result a \<Longrightarrow> valid_result b \<Longrightarrow> valid_result (worst_status a b)"
  by (simp add: worst_is_max)

text \<open>The result of a build after its steps: the worst of what they stand for, whatever their order.\<close>

definition after_steps :: "(result_config \<times> int) list \<Rightarrow> int option \<Rightarrow> int option" where
  "after_steps steps r = fold (\<lambda>(obj, result) r. fst (computeResultAndTermination obj result r)) steps r"

lemma possible_valid: "valid_result (Some i) \<Longrightarrow> valid_result (Some (possible_overall_result obj i))"
  by (auto simp: valid_result_def possible_overall_result_def result_codes Let_def)

lemma after_steps_severity:
  assumes "valid_result r" "\<forall>x\<in>set steps. valid_result (Some (snd x))"
  shows "valid_result (after_steps steps r) \<and> severity (after_steps steps r) =
    Max (insert (severity r) ((\<lambda>(obj, i). severity (Some (possible_overall_result obj i))) ` set steps))"
  using assms
proof (induction steps arbitrary: r)
  case (Cons x steps)
  obtain obj i where x: "x = (obj, i)" by (cases x)
  let ?p = "Some (possible_overall_result obj i)"
  have p: "valid_result ?p" using Cons.prems(2) x possible_valid by simp
  have w: "severity (worst_status r ?p) = max (severity r) (severity ?p)"
    using worst_is_max [OF Cons.prems(1) p] by simp
  have "after_steps (x # steps) r = after_steps steps (worst_status r ?p)"
    by (simp add: after_steps_def x computeResultAndTermination_def)
  with Cons.IH [OF worst_valid [OF Cons.prems(1) p]] Cons.prems(2) x w show ?case
    by (cases "steps = []") (simp_all add: max.assoc)
qed (simp add: after_steps_def)

end
