(* ===== verification/Bb_Lines.thy ===== *)
theory Bb_Lines
  imports Umb_Prelude
begin

text \<open>
  \<open>master/buildbot/util/lineboundaries.py\<close>: turning chunks of log output into complete lines. Text is a list
  of code points.
\<close>

definition MAX_LINELENGTH :: nat where
  "MAX_LINELENGTH = 4096"

definition is_digit :: "nat \<Rightarrow> bool" where
  "is_digit c \<longleftrightarrow> 48 \<le> c \<and> c \<le> 57"

text \<open>
  A match of \<open>newline_re\<close> at the start of a text: what follows it. The alternatives are a carriage return with a
  line feed, one before any other character, three control sequences, and a run of backspaces.
\<close>

definition match_position :: "pystr \<Rightarrow> pystr option" where
  "match_position s = (let s1 = dropWhile is_digit s in
     if takeWhile is_digit s = [] \<or> s1 = [] \<or> hd s1 \<noteq> 59 then None else
     let s2 = dropWhile is_digit (tl s1) in
     if takeWhile is_digit (tl s1) = [] \<or> s2 = [] \<or> hd s2 \<noteq> 72 \<and> hd s2 \<noteq> 102 then None else Some (tl s2))"

fun match_newline :: "pystr \<Rightarrow> pystr option" where
  "match_newline [] = None"
| "match_newline (c # s) =
     (if c = 13 then (case s of [] \<Rightarrow> None | d # t \<Rightarrow> if d = 10 then Some t else Some s)
      else if c = 27 then (case s of d # t \<Rightarrow>
          if d \<noteq> 91 then None
          else if t \<noteq> [] \<and> hd t = 117 then Some (tl t)
          else (case match_position t of Some rest \<Rightarrow> Some rest
            | None \<Rightarrow> if take 2 t = [50, 74] then Some (drop 2 t) else None)
        | [] \<Rightarrow> None)
      else if c = 8 then Some (dropWhile (\<lambda>x. x = 8) s)
      else None)"

lemma match_position_shorter: "match_position s = Some t \<Longrightarrow> length t < length s"
proof -
  assume m: "match_position s = Some t"
  let ?s1 = "dropWhile is_digit s" let ?s2 = "dropWhile is_digit (tl ?s1)"
  have "t = tl ?s2" "?s1 \<noteq> []" "?s2 \<noteq> []" using m by (auto simp: match_position_def Let_def split: if_splits)
  then have "length t < length ?s2" "length (tl ?s1) < length ?s1" by simp_all
  moreover have "length ?s2 \<le> length (tl ?s1)" "length ?s1 \<le> length s" by (rule length_dropWhile_le)+
  ultimately show ?thesis by linarith
qed

lemma match_shorter: "match_newline (c # s) = Some t \<Longrightarrow> length t < Suc (length s)"
  using match_position_shorter [of "tl s" t] length_dropWhile_le [of "\<lambda>x. x = 8" s]
  by (auto split: if_splits list.splits option.splits)

text \<open>\<open>newline_re.sub('\n', text)\<close>\<close>

function newline_sub :: "pystr \<Rightarrow> pystr" where
  "newline_sub [] = []"
| "newline_sub (c # s) = (case match_newline (c # s) of Some t \<Rightarrow> 10 # newline_sub t | None \<Rightarrow> c # newline_sub s)"
  by pat_completeness auto

termination newline_sub
  by (relation "measure length") (auto dest: match_shorter simp del: match_newline.simps)

text \<open>The loop that splits a long line; \<open>"\n".join(ret) + "\n"\<close> is \<open>join_lines\<close>.\<close>

function split_long :: "pystr \<Rightarrow> pystr list" where
  "split_long s = (if MAX_LINELENGTH < length s then take MAX_LINELENGTH s # split_long (drop MAX_LINELENGTH s) else [s])"
  by pat_completeness auto

termination split_long
  by (relation "measure length") (auto simp: MAX_LINELENGTH_def)

declare split_long.simps [simp del]

definition join_lines :: "pystr list \<Rightarrow> pystr" where
  "join_lines ls = concat (map (\<lambda>l. l @ [10]) ls)"

record LineBoundaryFinder =
  partialLine :: "pystr option"
  warned :: bool

definition new_finder :: LineBoundaryFinder where
  "new_finder = \<lparr>partialLine = None, warned = False\<rparr>"

text \<open>\<open>text[:rfind('\n') + 1]\<close> and the rest.\<close>

definition upto_newline :: "pystr \<Rightarrow> pystr" where
  "upto_newline s = rev (dropWhile (\<lambda>c. c \<noteq> 10) (rev s))"

definition after_newline :: "pystr \<Rightarrow> pystr" where
  "after_newline s = rev (takeWhile (\<lambda>c. c \<noteq> 10) (rev s))"

definition adjust_line :: "pystr \<Rightarrow> LineBoundaryFinder \<Rightarrow> pystr option \<times> LineBoundaryFinder" where
  "adjust_line text f = (let partial = (case partialLine f of None \<Rightarrow> [] | Some p \<Rightarrow> p) in
     if partial \<noteq> [] \<and> MAX_LINELENGTH < length partial
     then (Some (join_lines (split_long partial)), \<lparr>partialLine = Some text, warned = True\<rparr>)
     else
       let (text, f) = (if partial \<noteq> [] then (partial @ text, f\<lparr>partialLine := None\<rparr>) else (text, f));
           text = newline_sub text
       in if text = [] then (None, f)
          else if last text \<noteq> 10 then
            (if 10 \<in> set text then (Some (upto_newline text), f\<lparr>partialLine := Some (after_newline text)\<rparr>)
             else (None, f\<lparr>partialLine := Some text\<rparr>))
          else (Some text, f))"

definition append_text :: "pystr \<Rightarrow> LineBoundaryFinder \<Rightarrow> pystr option \<times> LineBoundaryFinder" where
  "append_text text f = adjust_line text f"

definition flush_line :: "LineBoundaryFinder \<Rightarrow> pystr option \<times> LineBoundaryFinder" where
  "flush_line f = (if partialLine f \<noteq> None then append_text [10] f else (None, f))"

end
