(* ===== verification/Bb_Line_Facts.thy ===== *)
theory Bb_Line_Facts
  imports Bb_Lines
begin

text \<open>
  What comes out of the finder: text that ends with a newline, and, as long as no line is too long and the
  text has no cursor controls, just the complete lines of all the text so far, however it was cut into chunks.
\<close>

section \<open>Text up to the last newline\<close>

lemma upto_after: "upto_newline s @ after_newline s = s"
  unfolding upto_newline_def after_newline_def
  by (metis rev_append rev_rev_ident takeWhile_dropWhile_id)

lemma upto_last: "upto_newline s = [] \<or> last (upto_newline s) = 10"
  using hd_dropWhile [of "\<lambda>c. c \<noteq> 10" "rev s"] by (auto simp: upto_newline_def last_rev)

lemma after_clean: "10 \<notin> set (after_newline s)"
  by (auto simp: after_newline_def dest: set_takeWhileD)

lemma no_newline: "10 \<notin> set s \<Longrightarrow> upto_newline s = []" "10 \<notin> set s \<Longrightarrow> after_newline s = s"
proof -
  assume "10 \<notin> set s"
  then have "\<forall>c\<in>set (rev s). c \<noteq> 10" by auto
  then have "takeWhile (\<lambda>c. c \<noteq> 10) (rev s) = rev s" "dropWhile (\<lambda>c. c \<noteq> 10) (rev s) = []"
    by (simp_all only: takeWhile_eq_all_conv dropWhile_eq_Nil_conv)
  then show "upto_newline s = []" "after_newline s = s" by (simp_all only: upto_newline_def after_newline_def rev_rev_ident rev.simps)
qed

lemma ends_newline: "s \<noteq> [] \<Longrightarrow> last s = 10 \<Longrightarrow> upto_newline s = s \<and> after_newline s = []"
  by (cases s rule: rev_cases) (simp_all add: upto_newline_def after_newline_def)

lemma newline_split:
  assumes "u = [] \<or> last u = 10"
  shows "upto_newline (u @ s) = u @ upto_newline s" "after_newline (u @ s) = after_newline s"
proof -
  have u: "u \<noteq> [] \<Longrightarrow> upto_newline u = u \<and> after_newline u = []" using assms ends_newline by blast
  have "upto_newline (u @ s) = (if 10 \<in> set s then u @ upto_newline s else upto_newline u)"
      "after_newline (u @ s) = (if 10 \<in> set s then after_newline s else after_newline u @ s)"
    by (auto simp: upto_newline_def after_newline_def dropWhile_append takeWhile_append)
  then show "upto_newline (u @ s) = u @ upto_newline s" "after_newline (u @ s) = after_newline s"
    using u no_newline [of s] by (cases "u = []"; simp; fail)+
qed

lemma newline_join:
  "upto_newline (p @ s) = upto_newline p @ upto_newline (after_newline p @ s)"
  "after_newline (p @ s) = after_newline (after_newline p @ s)"
  using newline_split [OF upto_last [of p], of "after_newline p @ s"] upto_after [of p] by (metis append_assoc)+

section \<open>Chunks\<close>

definition held_text :: "LineBoundaryFinder \<Rightarrow> pystr" where
  "held_text f = (case partialLine f of None \<Rightarrow> [] | Some p \<Rightarrow> p)"

text \<open>Text without carriage returns, escapes and backspaces.\<close>

definition uncontrolled :: "pystr \<Rightarrow> bool" where
  "uncontrolled s \<longleftrightarrow> list_all (\<lambda>c. c \<noteq> 8 \<and> c \<noteq> 13 \<and> c \<noteq> 27) s"

lemma uncontrolled_sub: "uncontrolled s \<Longrightarrow> newline_sub s = s"
  by (induction s) (simp_all add: uncontrolled_def)

text \<open>One chunk, the line held so far not being too long.\<close>

lemma append_run:
  assumes "uncontrolled (held_text f @ chunk)" "length (held_text f) \<le> MAX_LINELENGTH"
  shows "\<exists>out g. append_text chunk f = (out, g) \<and> held_text g = after_newline (held_text f @ chunk)
    \<and> (case out of None \<Rightarrow> [] | Some x \<Rightarrow> x) = upto_newline (held_text f @ chunk)"
proof -
  let ?t = "held_text f @ chunk"
  have sub: "newline_sub ?t = ?t" by (rule uncontrolled_sub [OF assms(1)])
  note parts = append_text_def adjust_line_def Let_def held_text_def [symmetric]
  consider (nothing) "?t = []" | (ends) "?t \<noteq> []" "last ?t = 10" | (cut) "?t \<noteq> []" "last ?t \<noteq> 10" "10 \<in> set ?t"
    | (more) "?t \<noteq> []" "last ?t \<noteq> 10" "10 \<notin> set ?t" by blast
  then show ?thesis
  proof cases
    case nothing
    then show ?thesis by (simp add: parts) (simp add: held_text_def no_newline)
  next
    case ends
    then show ?thesis
      using assms(2) sub ends_newline [OF ends] by (cases "held_text f = []") (simp_all add: parts, simp_all add: held_text_def)
  next
    case cut
    then show ?thesis
      using assms(2) sub by (cases "held_text f = []") (simp_all add: parts, simp_all add: held_text_def)
  next
    case more
    then show ?thesis
      using assms(2) sub no_newline [OF more(3)] by (cases "held_text f = []") (simp_all add: parts, simp_all add: held_text_def)
  qed
qed

text \<open>All that comes out for a sequence of chunks.\<close>

primrec feed :: "pystr list \<Rightarrow> LineBoundaryFinder \<Rightarrow> pystr \<times> LineBoundaryFinder" where
  "feed [] f = ([], f)"
| "feed (chunk # chunks) f = (case append_text chunk f of (out, g) \<Rightarrow> case feed chunks g of (rest, h) \<Rightarrow>
     ((case out of None \<Rightarrow> [] | Some x \<Rightarrow> x) @ rest, h))"

definition short_lines :: "pystr \<Rightarrow> pystr list \<Rightarrow> bool" where
  "short_lines p chunks \<longleftrightarrow> (\<forall>i < length chunks. length (after_newline (p @ concat (take i chunks))) \<le> MAX_LINELENGTH)"

lemma short_linesD:
  assumes "short_lines p (chunk # chunks)" "10 \<notin> set p"
  shows "length p \<le> MAX_LINELENGTH" "short_lines (after_newline (p @ chunk)) chunks"
proof -
  show "length p \<le> MAX_LINELENGTH"
    using assms no_newline by (force simp: short_lines_def)
  show "short_lines (after_newline (p @ chunk)) chunks"
    unfolding short_lines_def
  proof (intro allI impI)
    fix i assume "i < length chunks"
    with assms(1) have "length (after_newline (p @ chunk @ concat (take i chunks))) \<le> MAX_LINELENGTH"
      by (auto simp: short_lines_def dest!: spec [of _ "Suc i"])
    then show "length (after_newline (after_newline (p @ chunk) @ concat (take i chunks))) \<le> MAX_LINELENGTH"
      using newline_join(2) [of "p @ chunk" "concat (take i chunks)"] by simp
  qed
qed

lemma feed_run:
  "uncontrolled (held_text f @ concat chunks) \<Longrightarrow> 10 \<notin> set (held_text f) \<Longrightarrow> short_lines (held_text f) chunks \<Longrightarrow>
     fst (feed chunks f) = upto_newline (held_text f @ concat chunks) \<and> held_text (snd (feed chunks f)) = after_newline (held_text f @ concat chunks)"
proof (induction chunks arbitrary: f)
  case Nil
  then show ?case by (simp add: no_newline)
next
  case (Cons chunk chunks)
  note short = short_linesD [OF Cons.prems(3,2)]
  have clean: "uncontrolled (held_text f @ chunk)" using Cons.prems(1) by (simp add: uncontrolled_def)
  obtain out g where g: "append_text chunk f = (out, g)" "held_text g = after_newline (held_text f @ chunk)"
      "(case out of None \<Rightarrow> [] | Some x \<Rightarrow> x) = upto_newline (held_text f @ chunk)"
    using append_run [OF clean short(1)] by blast
  have "uncontrolled (held_text g @ concat chunks)"
    using Cons.prems(1) upto_after [of "held_text f @ chunk"] g(2) unfolding uncontrolled_def by (metis append_assoc concat.simps(2) list_all_append)
  from Cons.IH [OF this] short(2) after_clean g(2)
  have "fst (feed chunks g) = upto_newline (held_text g @ concat chunks)" "held_text (snd (feed chunks g)) = after_newline (held_text g @ concat chunks)"
    by simp_all
  then show ?case
    using g newline_join [of "held_text f @ chunk" "concat chunks"] by (simp add: split_beta)
qed

text \<open>Whatever comes out, controls and long lines included, ends with a newline.\<close>

lemma append_ends:
  assumes "append_text chunk f = (Some out, g)"
  shows "out \<noteq> [] \<and> last out = 10"
proof -
  have split: "\<exists>ls l. split_long s = ls @ [l]" for s
  proof (induction s rule: split_long.induct)
    case (1 s)
    then show ?case by (cases "MAX_LINELENGTH < length s") (subst split_long.simps, fastforce)+
  qed
  have upto: "upto_newline s \<noteq> [] \<and> last (upto_newline s) = 10" if "10 \<in> set s" for s
    using that upto_last [of s] after_clean [of s] upto_after [of s] by (metis append_Nil)
  have joined: "join_lines (split_long s) \<noteq> [] \<and> last (join_lines (split_long s)) = 10" for s
    using split [of s] by (auto simp: join_lines_def)
  show ?thesis
    using assms joined upto by (auto simp: append_text_def adjust_line_def Let_def split: if_splits prod.splits)
qed

text \<open>
  After a line that is too long the next text is held back as it is, without looking for newlines: its complete line only
  comes out of the flush, followed by an empty line that no one sent.
\<close>

lemma long_lines_add_a_blank:
  "flush_line (snd (append_text [98, 10] (snd (append_text (replicate 5000 97) new_finder)))) =
     (Some [98, 10, 10], \<lparr>partialLine = None, warned = True\<rparr>)"
proof -
  have "uncontrolled (replicate 5000 97)" "10 \<notin> set (replicate 5000 (97 :: nat))" "(replicate 5000 97 :: pystr) \<noteq> []"
    by (simp_all add: uncontrolled_def list_all_iff)
  then have "append_text (replicate 5000 97) new_finder = (None, \<lparr>partialLine = Some (replicate 5000 97), warned = False\<rparr>)"
    using uncontrolled_sub by (simp add: append_text_def adjust_line_def new_finder_def Let_def)
  moreover have "uncontrolled [98, 10, 10]" by (simp add: uncontrolled_def)
  ultimately show ?thesis
    using \<open>replicate 5000 97 \<noteq> []\<close> uncontrolled_sub
    by (simp add: append_text_def adjust_line_def flush_line_def Let_def MAX_LINELENGTH_def)
qed

end
