(* ===== verification/Bb_Debounce.thy ===== *)
theory Bb_Debounce
  imports Umb_Errors
begin

text \<open>
  \<open>master/buildbot/util/debounce.py\<close>: a method whose calls are gathered into delayed runs of a function. The
  reactor's clock and timers are part of the state; what the function does each time it is called, and what
  happens outside, are arguments. Time is counted in ticks of the reactor's clock.
\<close>

section \<open>The state\<close>

datatype deb_phase = PH_IDLE | PH_WAITING | PH_RUNNING | PH_RUNNING_QUEUED

text \<open>A delayed call of the reactor: when it is due, and whether it was neither called nor cancelled yet.\<close>

record delayed_call =
  due :: int
  active :: bool

text \<open>
  What can be seen of a debouncer from outside, newest first in the \<open>log\<close> below: a call it accepted, the function
  beginning and ending, a stop and the number of the Deferred it returns if it has to wait, a start, and a
  Deferred of a stop being fired.
\<close>

datatype notice =
    Asked int
  | Began int
  | Ended int
  | Halted
  | Promised nat
  | Resumed
  | Fired nat

text \<open>
  The slots of a \<open>Debouncer\<close> and, behind them, the outside: the reactor's clock, the calls of the function that
  have not ended, the number of Deferreds made by \<open>stop\<close> and the log.
\<close>

record debouncer =
  phase :: deb_phase
  timer :: "delayed_call option"
  stopped :: bool
  completeDeferreds :: "nat list"
  wait :: int
  until_idle :: bool
  now :: int
  running :: nat
  made :: nat
  log :: "notice list"

definition Debouncer :: "int \<Rightarrow> bool \<Rightarrow> int \<Rightarrow> debouncer" where
  "Debouncer w u t =
     \<lparr>phase = PH_IDLE, timer = None, stopped = False, completeDeferreds = [], wait = w, until_idle = u,
      now = t, running = 0, made = 0, log = []\<rparr>"

definition note_that :: "notice \<Rightarrow> debouncer \<Rightarrow> debouncer" where
  "note_that n s = s\<lparr>log := n # log s\<rparr>"

section \<open>The reactor's timers\<close>

text \<open>
  \<open>reset\<close> and \<open>cancel\<close> of a delayed call that was called or cancelled raise \<open>AlreadyCalled\<close> or
  \<open>AlreadyCancelled\<close>, both subclasses of \<open>ValueError\<close>; \<open>None\<close> has neither method.
\<close>

definition callLater :: "(debouncer, unit) prog" where
  "callLater = modify (\<lambda>s. s\<lparr>timer := Some \<lparr>due = now s + wait s, active = True\<rparr>\<rparr>)"

definition with_timer :: "(debouncer \<Rightarrow> delayed_call \<Rightarrow> delayed_call) \<Rightarrow> (debouncer, unit) prog" where
  "with_timer f = bnd (gets timer) (\<lambda>t. case t of
     None \<Rightarrow> raise AttributeError
   | Some d \<Rightarrow> sq (guard (active d) ValueError) (modify (\<lambda>s. s\<lparr>timer := Some (f s d)\<rparr>)))"

definition reset_timer :: "(debouncer, unit) prog" where
  "reset_timer = with_timer (\<lambda>s d. d\<lparr>due := now s + wait s\<rparr>)"

definition cancel_timer :: "(debouncer, unit) prog" where
  "cancel_timer = with_timer (\<lambda>s d. d\<lparr>active := False\<rparr>)"

section \<open>Calling, starting and stopping\<close>

definition to_phase :: "deb_phase \<Rightarrow> (debouncer, unit) prog" where
  "to_phase p = modify (\<lambda>s. s\<lparr>phase := p\<rparr>)"

definition call_phase :: "(debouncer, unit) prog" where
  "call_phase = bnd (gets phase) (\<lambda>p. case p of
     PH_IDLE \<Rightarrow> sq callLater (to_phase PH_WAITING)
   | PH_WAITING \<Rightarrow> bnd (gets until_idle) (\<lambda>u. if u then reset_timer else ret ())
   | PH_RUNNING \<Rightarrow> to_phase PH_RUNNING_QUEUED
   | PH_RUNNING_QUEUED \<Rightarrow> ret ())"

definition call_debounced :: "(debouncer, unit) prog" where
  "call_debounced = bnd (gets stopped) (\<lambda>b. if b then ret ()
     else sq (modify (\<lambda>s. note_that (Asked (now s)) s)) call_phase)"

definition start_debounced :: "(debouncer, unit) prog" where
  "start_debounced = modify (\<lambda>s. note_that Resumed (s\<lparr>stopped := False\<rparr>))"

text \<open>
  \<open>stop\<close>; \<open>k\<close> is what \<open>self.invoke()\<close> does. It returns the number of the Deferred it appended, or \<open>None\<close> for
  \<open>defer.succeed(None)\<close>.
\<close>

definition await_run :: "(debouncer, nat option) prog" where
  "await_run = bnd (gets phase) (\<lambda>p.
     if p \<in> {PH_RUNNING, PH_RUNNING_QUEUED}
     then bnd (gets made) (\<lambda>d.
       sq (modify (\<lambda>s. note_that (Promised d)
             (s\<lparr>made := made s + 1, completeDeferreds := completeDeferreds s @ [d]\<rparr>)))
          (ret (Some d)))
     else ret None)"

definition stop_debounced :: "(debouncer, unit) prog \<Rightarrow> (debouncer, nat option) prog" where
  "stop_debounced k =
     sq (modify (\<lambda>s. note_that Halted (s\<lparr>stopped := True\<rparr>)))
     (bnd (gets phase) (\<lambda>p.
      sq (if p = PH_WAITING then sq cancel_timer k else ret ()) await_run))"

section \<open>Runs of the function\<close>

text \<open>
  One round of the loop over \<open>completeDeferreds\<close>: the first Deferred is taken out and fired. What waits for it is
  called at once, before the list is read again, and may come back to the debouncer; \<open>ws\<close> has one program for
  each of the next Deferreds to be fired, and what waits for those behind them does nothing.
\<close>

definition fire_next :: "(debouncer, bool) prog" where
  "fire_next = bnd (gets completeDeferreds) (\<lambda>ds. case ds of
     [] \<Rightarrow> ret False
   | d # rest \<Rightarrow> sq (modify (\<lambda>s. note_that (Fired d) (s\<lparr>completeDeferreds := rest\<rparr>))) (ret True))"

definition fire_rest :: "(debouncer, unit) prog" where
  "fire_rest = bnd (gets completeDeferreds) (\<lambda>ds. for_each ds (\<lambda>_. sq fire_next (ret ())))"

primrec fire_deferreds :: "(debouncer, unit) prog list \<Rightarrow> (debouncer, unit) prog" where
  "fire_deferreds [] = fire_rest"
| "fire_deferreds (w # ws) = bnd fire_next (\<lambda>more. if more then sq w (fire_deferreds ws) else ret ())"

text \<open>
  \<open>retry\<close>, the callback of the function's Deferred; errors were logged and swallowed before it. \<open>k\<close> is what
  \<open>self.invoke()\<close> does.
\<close>

definition retry :: "(debouncer, unit) prog \<Rightarrow> (debouncer, unit) prog list \<Rightarrow> (debouncer, unit) prog" where
  "retry k ws =
     sq (modify (\<lambda>s. note_that (Ended (now s)) (s\<lparr>running := running s - 1\<rparr>)))
     (bnd (gets phase) (\<lambda>p. let queued = (p = PH_RUNNING_QUEUED) in
      sq (to_phase PH_IDLE)
      (bnd (gets stopped) (\<lambda>b.
       if queued \<and> b then k
       else sq (fire_deferreds ws) (if queued then call_debounced else ret ())))))"

text \<open>
  What one call of the function does: the requests it makes of its own debouncer before it returns, whether its
  Deferred has fired by then, and, if so, the requests made by what waits for each of the Deferreds fired at its
  end, and the run that follows if one was queued. A request to stop says what the run does that it may begin. A
  run of which nothing is said makes no request and is not over.
\<close>

datatype own_request = ReqCall | ReqStart | ReqStop "run_of_function option"
  and run_of_function = FunctionRun "own_request list" bool "own_request list list" "run_of_function option"

definition begin_run :: "(debouncer, unit) prog" where
  "begin_run = sq (to_phase PH_RUNNING)
     (modify (\<lambda>s. note_that (Began (now s)) (s\<lparr>running := running s + 1\<rparr>)))"

lemma for_each_cong [fundef_cong]:
  "xs = ys \<Longrightarrow> (\<And>x. x \<in> set ys \<Longrightarrow> f x = g x) \<Longrightarrow> for_each xs f = for_each ys g"
  by (induction xs arbitrary: ys) auto

lemma request_size: "(r :: own_request) \<in> set rs \<Longrightarrow> size r \<le> size_list size rs"
  by (rule size_list_estimation' [OF _ order_refl])

lemma waiter_size: "(r :: own_request) \<in> set w \<Longrightarrow> w \<in> set ws \<Longrightarrow> size r \<le> size_list (size_list size) ws"
  by (erule size_list_estimation') (rule request_size)

lemma smaller_request: "(r :: own_request) \<in> set rs \<Longrightarrow> size r < Suc (Suc (size_list size rs + m + n))"
  using request_size [of r rs] by simp

lemma smaller_waiter:
  "(r :: own_request) \<in> set w \<Longrightarrow> w \<in> set ws \<Longrightarrow> size r < Suc (Suc (m + size_list (size_list size) ws + n))"
  using waiter_size [of r w ws] by simp

function perform_own :: "own_request \<Rightarrow> (debouncer, unit) prog"
  and invoke :: "run_of_function option \<Rightarrow> (debouncer, unit) prog" where
  "perform_own ReqCall = call_debounced"
| "perform_own ReqStart = start_debounced"
| "perform_own (ReqStop r) = sq (stop_debounced (invoke r)) (ret ())"
| "invoke None = begin_run"
| "invoke (Some (FunctionRun rs over ws next)) =
     sq begin_run
     (sq (for_each rs (\<lambda>r. perform_own r))
         (if over then retry (invoke next) (map (\<lambda>w. for_each w (\<lambda>r. perform_own r)) ws) else ret ()))"
  by pat_completeness auto
termination
  by (relation "measure (case_sum size (size_option size))") (simp_all add: smaller_request smaller_waiter)

definition waiters :: "own_request list list \<Rightarrow> (debouncer, unit) prog list" where
  "waiters = map (\<lambda>w. for_each w perform_own)"

text \<open>
  \<open>_Descriptor.__get__\<close>: the attribute of the instance that holds the debouncer, made at the first access.
\<close>

definition descriptor_get :: "int \<Rightarrow> bool \<Rightarrow> int \<Rightarrow> debouncer option \<Rightarrow> debouncer \<times> debouncer option" where
  "descriptor_get w u t attribute = (case attribute of
     Some db \<Rightarrow> (db, Some db)
   | None \<Rightarrow> (let db = Debouncer w u t in (db, Some db)))"

section \<open>Histories\<close>

text \<open>
  What can happen from outside: time passes, the method is called, the reactor calls a timer that is due, the
  Deferred of a running function fires, and \<open>start\<close> and \<open>stop\<close> are called. The arguments say what the run does
  that may begin at once, and what is done by those who wait for the Deferreds that are fired.
\<close>

datatype happening =
    Passes nat
  | Called
  | Rings "run_of_function option"
  | Finishes "own_request list list" "run_of_function option"
  | Starts
  | Stops "run_of_function option"

fun possible :: "happening \<Rightarrow> debouncer \<Rightarrow> bool" where
  "possible (Rings _) s \<longleftrightarrow> (case timer s of None \<Rightarrow> False | Some d \<Rightarrow> active d \<and> due d \<le> now s)"
| "possible (Finishes _ _) s \<longleftrightarrow> 0 < running s"
| "possible _ s \<longleftrightarrow> True"

fun happen :: "happening \<Rightarrow> (debouncer, unit) prog" where
  "happen (Passes n) = modify (\<lambda>s. s\<lparr>now := now s + int n\<rparr>)"
| "happen Called = call_debounced"
| "happen (Rings run) =
     sq (modify (\<lambda>s. s\<lparr>timer := map_option (active_update (\<lambda>_. False)) (timer s)\<rparr>)) (invoke run)"
| "happen (Finishes ws run) = retry (invoke run) (waiters ws)"
| "happen Starts = start_debounced"
| "happen (Stops run) = sq (stop_debounced (invoke run)) (ret ())"

inductive debounces :: "int \<Rightarrow> bool \<Rightarrow> int \<Rightarrow> debouncer \<Rightarrow> bool" for w u t0 where
  new: "debounces w u t0 (Debouncer w u t0)"
| more: "debounces w u t0 s \<Longrightarrow> possible h s \<Longrightarrow> happen h s = (r, t) \<Longrightarrow> debounces w u t0 t"

text \<open>Histories in which no one who waits for a Deferred stops the debouncer from within its callback.\<close>

fun no_stop :: "own_request \<Rightarrow> bool" where
  "no_stop (ReqStop _) \<longleftrightarrow> False"
| "no_stop _ \<longleftrightarrow> True"

function patient_request :: "own_request \<Rightarrow> bool" and patient_run :: "run_of_function option \<Rightarrow> bool" where
  "patient_request ReqCall \<longleftrightarrow> True"
| "patient_request ReqStart \<longleftrightarrow> True"
| "patient_request (ReqStop r) \<longleftrightarrow> patient_run r"
| "patient_run None \<longleftrightarrow> True"
| "patient_run (Some (FunctionRun rs over ws next)) \<longleftrightarrow>
     list_all (\<lambda>r. patient_request r) rs \<and> list_all (list_all no_stop) ws \<and> patient_run next"
  by pat_completeness auto
termination
  by (relation "measure (case_sum size (size_option size))") (auto dest!: smaller_request)

fun patient :: "happening \<Rightarrow> bool" where
  "patient (Rings run) \<longleftrightarrow> patient_run run"
| "patient (Finishes ws run) \<longleftrightarrow> list_all (list_all no_stop) ws \<and> patient_run run"
| "patient (Stops run) \<longleftrightarrow> patient_run run"
| "patient _ \<longleftrightarrow> True"

inductive debounces_patiently :: "int \<Rightarrow> bool \<Rightarrow> int \<Rightarrow> debouncer \<Rightarrow> bool" for w u t0 where
  new: "debounces_patiently w u t0 (Debouncer w u t0)"
| more: "debounces_patiently w u t0 s \<Longrightarrow> patient h \<Longrightarrow> possible h s \<Longrightarrow> happen h s = (r, t) \<Longrightarrow>
     debounces_patiently w u t0 t"

lemma patient_history: "debounces_patiently w u t0 s \<Longrightarrow> debounces w u t0 s"
  by (induction rule: debounces_patiently.induct) (auto intro: debounces.intros)

end
