(* ===== verification/Bb_Debounce_Facts.thy ===== *)
theory Bb_Debounce_Facts
  imports Bb_Debounce
begin

text \<open>
  What the histories of a debouncer have in common. The properties are stated of the log alone; the invariant
  \<open>in_order\<close> ties the log to the slots of the debouncer. Its first argument says whether those who wait for a
  Deferred are known not to stop the debouncer from within its callback: some promises are kept only then.
\<close>

section \<open>Reading a log\<close>

text \<open>Is a call waiting for a run, is the function running, was the debouncer stopped last?\<close>

fun owed :: "notice list \<Rightarrow> bool" where
  "owed [] = False"
| "owed (Asked _ # l) = True"
| "owed (Began _ # l) = False"
| "owed (_ # l) = owed l"

fun busy :: "notice list \<Rightarrow> bool" where
  "busy [] = False"
| "busy (Began _ # l) = True"
| "busy (Ended _ # l) = False"
| "busy (_ # l) = busy l"

fun halted :: "notice list \<Rightarrow> bool" where
  "halted [] = False"
| "halted (Halted # l) = True"
| "halted (Resumed # l) = False"
| "halted (_ # l) = halted l"

text \<open>The times of the calls gathered since the debouncer began to wait, newest first.\<close>

fun batch :: "notice list \<Rightarrow> int list" where
  "batch (Asked t # l) = t # batch l"
| "batch (Resumed # l) = batch l"
| "batch (Fired _ # l) = batch l"
| "batch _ = []"

text \<open>
  The promises kept to everyone: no call is accepted after a stop; the function begins only when a call is waiting
  for it and never while it is running; a stop gets a Deferred only while the function is running, and this is
  fired at most once.
\<close>

fun orderly :: "notice list \<Rightarrow> bool" where
  "orderly [] = True"
| "orderly (Asked _ # l) \<longleftrightarrow> \<not> halted l \<and> orderly l"
| "orderly (Began _ # l) \<longleftrightarrow> owed l \<and> \<not> busy l \<and> orderly l"
| "orderly (Ended _ # l) \<longleftrightarrow> busy l \<and> orderly l"
| "orderly (Promised d # l) \<longleftrightarrow> busy l \<and> Promised d \<notin> set l \<and> orderly l"
| "orderly (Fired d # l) \<longleftrightarrow> Promised d \<in> set l \<and> Fired d \<notin> set l \<and> orderly l"
| "orderly (_ # l) \<longleftrightarrow> orderly l"

text \<open>The Deferred of a stop is fired when the function is not running and no call from before the stop is waiting.\<close>

fun stops_wait :: "notice list \<Rightarrow> bool" where
  "stops_wait [] = True"
| "stops_wait (Fired d # l) \<longleftrightarrow> \<not> busy l \<and> (halted l \<longrightarrow> \<not> owed l) \<and> stops_wait l"
| "stops_wait (_ # l) \<longleftrightarrow> stops_wait l"

lemma batch_owed: "batch l \<noteq> [] \<Longrightarrow> owed l"
  by (induction l rule: batch.induct) auto

section \<open>The invariant\<close>

definition ringing :: "debouncer \<Rightarrow> bool" where
  "ringing s \<longleftrightarrow> (\<exists>d. timer s = Some d \<and> active d)"

definition accounted :: "debouncer \<Rightarrow> bool" where
  "accounted s \<longleftrightarrow> distinct (completeDeferreds s) \<and>
     (\<forall>d. Promised d \<in> set (log s) \<longleftrightarrow> d < made s) \<and>
     (\<forall>d. d \<in> set (completeDeferreds s) \<longleftrightarrow> d < made s \<and> Fired d \<notin> set (log s))"

text \<open>What holds at any time, also between the end of a run and what follows it.\<close>

definition steady :: "bool \<Rightarrow> int \<Rightarrow> bool \<Rightarrow> debouncer \<Rightarrow> bool" where
  "steady p w u s \<longleftrightarrow> wait s = w \<and> until_idle s = u \<and> orderly (log s) \<and> (p \<longrightarrow> stops_wait (log s)) \<and>
     stopped s = halted (log s) \<and> running s = of_bool (busy (log s)) \<and> accounted s"

text \<open>Ready to begin a run.\<close>

definition ready :: "bool \<Rightarrow> int \<Rightarrow> bool \<Rightarrow> debouncer \<Rightarrow> bool" where
  "ready p w u s \<longleftrightarrow> steady p w u s \<and> \<not> busy (log s) \<and> owed (log s) \<and> \<not> ringing s"

definition timed :: "debouncer \<Rightarrow> bool" where
  "timed s \<longleftrightarrow> (\<exists>d. timer s = Some d \<and> active d \<and> batch (log s) \<noteq> [] \<and>
     due d = (if until_idle s then hd (batch (log s)) else last (batch (log s))) + wait s)"

text \<open>
  What holds between any two requests, also while the Deferreds are being fired; \<open>q\<close> is \<open>queued\<close> of \<open>retry\<close>,
  whose call is still to be made then.
\<close>

definition loose :: "bool \<Rightarrow> bool \<Rightarrow> int \<Rightarrow> bool \<Rightarrow> debouncer \<Rightarrow> bool" where
  "loose p q w u s \<longleftrightarrow> steady p w u s \<and> (case phase s of
     PH_IDLE \<Rightarrow> \<not> busy (log s) \<and> \<not> ringing s \<and> batch (log s) = [] \<and> (p \<longrightarrow> (owed (log s) \<longrightarrow> q) \<and> (q \<longrightarrow> \<not> stopped s))
   | PH_WAITING \<Rightarrow> \<not> busy (log s) \<and> owed (log s) \<and> timed s \<and> \<not> stopped s
   | PH_RUNNING \<Rightarrow> busy (log s) \<and> (p \<longrightarrow> \<not> owed (log s)) \<and> \<not> ringing s
   | PH_RUNNING_QUEUED \<Rightarrow> busy (log s) \<and> owed (log s) \<and> \<not> ringing s)"

definition in_order :: "bool \<Rightarrow> int \<Rightarrow> bool \<Rightarrow> debouncer \<Rightarrow> bool" where
  "in_order p w u s \<longleftrightarrow> loose p False w u s \<and> (busy (log s) \<or> completeDeferreds s = [])"

text \<open>The invariant while the function runs, and while the Deferreds are being fired.\<close>

definition in_run :: "bool \<Rightarrow> int \<Rightarrow> bool \<Rightarrow> debouncer \<Rightarrow> bool" where
  "in_run p w u s \<longleftrightarrow> in_order p w u s \<and> busy (log s)"

definition in_loop :: "bool \<Rightarrow> bool \<Rightarrow> int \<Rightarrow> bool \<Rightarrow> debouncer \<Rightarrow> bool" where
  "in_loop p q w u s \<longleftrightarrow> loose p q w u s \<and> (p \<longrightarrow> \<not> busy (log s))"

text \<open>A program that runs to its end and takes \<open>P\<close> to \<open>Q\<close>.\<close>

definition carries :: "(debouncer \<Rightarrow> bool) \<Rightarrow> (debouncer, 'a) prog \<Rightarrow> (debouncer \<Rightarrow> bool) \<Rightarrow> bool" where
  "carries P m Q \<longleftrightarrow> (\<forall>s. P s \<longrightarrow> wp m (\<lambda>_. Q) (\<lambda>_ _. False) s)"

lemma carriesI: "(\<And>s. P s \<Longrightarrow> wp m (\<lambda>_. Q) (\<lambda>_ _. False) s) \<Longrightarrow> carries P m Q"
  by (simp add: carries_def)

lemma carriesD: "carries P m Q \<Longrightarrow> P s \<Longrightarrow> wp m (\<lambda>_. Q) (\<lambda>_ _. False) s"
  by (simp add: carries_def)

lemma carries_mono: "carries P m Q \<Longrightarrow> P s \<Longrightarrow> (\<And>t. Q t \<Longrightarrow> R t) \<Longrightarrow> wp m (\<lambda>_. R) (\<lambda>_ _. False) s"
  by (auto simp: carries_def intro: wp_mono)

lemma wp_ret_all: "wp (ret x) Q E = Q x"
  by (rule ext) (rule wp_ret)

lemma carries_ret: "(\<And>s. P s \<Longrightarrow> Q s) \<Longrightarrow> carries P (ret x) Q"
  by (simp add: carries_def wp_ret)

lemma carries_sq: "carries P m Q \<Longrightarrow> carries Q n R \<Longrightarrow> carries P (sq m n) R"
  by (auto simp: carries_def wp_sq intro: wp_mono)

lemma carries_for_each: "(\<And>x. x \<in> set xs \<Longrightarrow> carries P (f x) P) \<Longrightarrow> carries P (for_each xs f) P"
  by (induction xs) (auto intro: carries_sq carries_ret)

text \<open>What \<open>accounted\<close> depends on.\<close>

lemma accounted_cong:
  "completeDeferreds t = completeDeferreds s \<Longrightarrow> made t = made s \<Longrightarrow> log t = n # log s \<Longrightarrow>
   (\<forall>d. n \<noteq> Promised d \<and> n \<noteq> Fired d) \<Longrightarrow> accounted t = accounted s"
  by (auto simp: accounted_def)

lemma accounted_same:
  "completeDeferreds t = completeDeferreds s \<Longrightarrow> made t = made s \<Longrightarrow> log t = log s \<Longrightarrow> accounted t = accounted s"
  by (auto simp: accounted_def)

lemmas debounce_state = note_that_def ringing_def steady_def timed_def loose_def in_order_def ready_def in_run_def

lemma loose_busy: "loose p q w u s \<Longrightarrow> busy (log s) \<longleftrightarrow> phase s \<in> {PH_RUNNING, PH_RUNNING_QUEUED}"
  by (cases "phase s") (simp_all add: loose_def)

lemma loose_any: "loose p q w u s \<Longrightarrow> phase s \<noteq> PH_IDLE \<or> \<not> p \<Longrightarrow> loose p r w u s"
  by (cases "phase s") (simp_all add: loose_def)

lemma begin_run_carries: "carries (ready p w u) begin_run (in_run p w u)"
proof (rule carriesI)
  fix s assume "ready p w u s"
  then show "wp begin_run (\<lambda>_. in_run p w u) (\<lambda>_ _. False) s"
    by (simp add: begin_run_def to_phase_def wp_simps debounce_state accounted_cong [of _ s])
qed

section \<open>Calls and starts\<close>

lemma wp_callLater: "wp callLater Q E s = Q () (s\<lparr>timer := Some \<lparr>due = now s + wait s, active = True\<rparr>\<rparr>)"
  by (simp add: callLater_def wp_simps)

lemma wp_with_timer:
  "wp (with_timer f) Q E s = (case timer s of None \<Rightarrow> E AttributeError s
     | Some d \<Rightarrow> if active d then Q () (s\<lparr>timer := Some (f s d)\<rparr>) else E ValueError s)"
  by (simp add: with_timer_def wp_simps split: option.splits)

text \<open>Neither a call nor a start changes the list of Deferreds or whether the function runs.\<close>

definition unmoved :: "bool \<Rightarrow> bool \<Rightarrow> int \<Rightarrow> bool \<Rightarrow> nat list \<Rightarrow> bool \<Rightarrow> debouncer \<Rightarrow> bool" where
  "unmoved p q w u ds b s \<longleftrightarrow> loose p q w u s \<and> completeDeferreds s = ds \<and> busy (log s) = b"

lemma accepted_call:
  assumes "loose p q w u s" and "\<not> stopped s"
  shows "wp call_phase (\<lambda>_ t. unmoved p q w u (completeDeferreds s) (busy (log s)) t \<and> phase t \<noteq> PH_IDLE) (\<lambda>_ _. False)
    (note_that (Asked (now s)) s)"
proof (cases "phase s")
  case PH_IDLE
  with assms show ?thesis
    by (simp add: call_phase_def to_phase_def wp_callLater wp_simps debounce_state accounted_cong [of _ s] unmoved_def)
next
  case PH_WAITING
  with assms show ?thesis
    by (cases "until_idle s"; cases "timer s")
      (simp_all add: call_phase_def reset_timer_def wp_with_timer wp_simps debounce_state accounted_cong [of _ s]
        unmoved_def)
next
  case PH_RUNNING
  with assms show ?thesis
    by (simp add: call_phase_def to_phase_def wp_simps debounce_state accounted_cong [of _ s] unmoved_def)
next
  case PH_RUNNING_QUEUED
  with assms show ?thesis
    by (simp add: call_phase_def wp_simps debounce_state accounted_cong [of _ s] unmoved_def)
qed

lemma call_unmoved: "carries (unmoved p q w u ds b) call_debounced (unmoved p q w u ds b)"
proof (rule carriesI)
  fix s assume "unmoved p q w u ds b s"
  then show "wp call_debounced (\<lambda>_. unmoved p q w u ds b) (\<lambda>_ _. False) s"
    using wp_mono [OF accepted_call [of p q w u s], where Q' = "\<lambda>_. unmoved p q w u ds b"]
    by (auto simp: call_debounced_def wp_simps unmoved_def)
qed

lemma start_unmoved: "carries (unmoved p q w u ds b) start_debounced (unmoved p q w u ds b)"
proof (rule carriesI)
  fix s assume s: "unmoved p q w u ds b s"
  have "accounted (note_that Resumed (s\<lparr>stopped := False\<rparr>)) = accounted s"
    by (rule accounted_cong [of _ s Resumed]) (simp_all add: note_that_def)
  with s show "wp start_debounced (\<lambda>_. unmoved p q w u ds b) (\<lambda>_ _. False) s"
    by (cases "phase s"; cases "until_idle s") (simp_all add: start_debounced_def wp_simps debounce_state unmoved_def)
qed

text \<open>So they keep each of the invariants.\<close>

lemma unmoved_all:
  assumes m: "\<And>q ds b. carries (unmoved p q w u ds b) m (unmoved p q w u ds b)"
  shows "carries (in_order p w u) m (in_order p w u)" and "carries (in_run p w u) m (in_run p w u)"
    and "carries (in_loop p q w u) m (in_loop p q w u)"
proof -
  have unmoved: "wp m (\<lambda>_. unmoved p q w u (completeDeferreds s) (busy (log s))) (\<lambda>_ _. False) s" if "loose p q w u s" for q s
    using carriesD [OF m] that by (simp add: unmoved_def)
  show "carries (in_order p w u) m (in_order p w u)"
    by (rule carriesI, rule wp_mono [OF unmoved [where q = False]]) (auto simp: in_order_def unmoved_def)
  show "carries (in_run p w u) m (in_run p w u)"
    by (rule carriesI, rule wp_mono [OF unmoved [where q = False]]) (auto simp: in_run_def in_order_def unmoved_def)
  show "carries (in_loop p q w u) m (in_loop p q w u)"
    by (rule carriesI, rule wp_mono [OF unmoved]) (auto simp: in_loop_def unmoved_def)
qed

lemmas call_carries = unmoved_all [OF call_unmoved] and start_carries = unmoved_all [OF start_unmoved]

section \<open>Stopping\<close>

lemma fired_were_made: "orderly l \<Longrightarrow> Fired d \<in> set l \<Longrightarrow> Promised d \<in> set l"
  by (induction l rule: orderly.induct) auto

lemma accounted_wait:
  assumes "accounted s" and "orderly (log s)"
  shows "accounted (note_that (Promised (made s)) (s\<lparr>made := made s + 1, completeDeferreds := completeDeferreds s @ [made s]\<rparr>))"
    and "Promised (made s) \<notin> set (log s)"
proof -
  from assms have old: "distinct (completeDeferreds s)" "\<And>d. Promised d \<in> set (log s) \<longleftrightarrow> d < made s"
    "\<And>d. d \<in> set (completeDeferreds s) \<longleftrightarrow> d < made s \<and> Fired d \<notin> set (log s)"
    by (simp_all add: accounted_def)
  then show "Promised (made s) \<notin> set (log s)" by simp
  with assms(2) have "Fired (made s) \<notin> set (log s)" using fired_were_made by blast
  with old show "accounted (note_that (Promised (made s))
      (s\<lparr>made := made s + 1, completeDeferreds := completeDeferreds s @ [made s]\<rparr>))"
    by (simp add: accounted_def note_that_def) (metis less_Suc_eq)
qed

definition halt :: "debouncer \<Rightarrow> debouncer" where
  "halt s = note_that Halted (s\<lparr>stopped := True\<rparr>)"

lemma halt_accounted: "accounted (halt s) = accounted s"
  by (rule accounted_cong [of _ s Halted]) (simp_all add: halt_def note_that_def)

lemma halt_simps [simp]:
  "phase (halt s) = phase s" "timer (halt s) = timer s" "wait (halt s) = wait s"
  "until_idle (halt s) = until_idle s" "running (halt s) = running s" "stopped (halt s)"
  "completeDeferreds (halt s) = completeDeferreds s" "log (halt s) = Halted # log s"
  by (simp_all add: halt_def note_that_def)

lemma halt_loose:
  assumes "loose p q w u s" and "phase s \<noteq> PH_WAITING" and "\<not> (p \<and> q)"
  shows "loose p q w u (halt s)"
  using assms by (cases "phase s") (simp_all add: loose_def steady_def ringing_def halt_accounted)

lemma cancel_ready:
  assumes "loose p q w u s" and "phase s = PH_WAITING"
  shows "wp cancel_timer (\<lambda>_. ready p w u) (\<lambda>_ _. False) (halt s)"
proof -
  have "accounted (halt s\<lparr>timer := t\<rparr>) = accounted s" for t
    using accounted_same [of "halt s\<lparr>timer := t\<rparr>" "halt s"] by (simp add: halt_accounted)
  with assms show ?thesis
    by (auto simp: cancel_timer_def wp_with_timer loose_def steady_def ready_def timed_def ringing_def)
qed

lemma await_loose:
  assumes s: "loose p q w u s"
  shows "wp await_run (\<lambda>_ t. loose p q w u t \<and> busy (log t) = busy (log s) \<and>
    (\<not> busy (log s) \<longrightarrow> completeDeferreds t = completeDeferreds s)) (\<lambda>_ _. False) s"
proof -
  from s have "accounted s" and "orderly (log s)" by (simp_all add: loose_def steady_def)
  note new = accounted_wait [OF this]
  from s new show ?thesis
    by (cases "phase s"; cases "until_idle s") (simp_all add: await_run_def wp_simps debounce_state)
qed

lemma await_in_order: "carries (in_order p w u) await_run (in_order p w u)"
  by (rule carriesI, rule wp_mono [OF await_loose [where q = False]]) (auto simp: in_order_def)

lemma stop_unless_waiting:
  "phase s \<noteq> PH_WAITING \<Longrightarrow> wp (stop_debounced k) Q E s = wp await_run Q E (halt s)"
  by (simp add: stop_debounced_def wp_sq wp_modify wp_bnd wp_gets wp_ret flip: halt_def)

lemma stop_waiting:
  assumes "carries (ready p w u) k (in_order p w u)" and "loose p q w u s" and "phase s = PH_WAITING"
  shows "wp (stop_debounced k) (\<lambda>_. in_order p w u) (\<lambda>_ _. False) s"
proof -
  from cancel_ready [OF assms(2,3)] carriesD [OF assms(1)] carriesD [OF await_in_order]
  have "wp (sq (sq cancel_timer k) await_run) (\<lambda>_. in_order p w u) (\<lambda>_ _. False) (halt s)"
    by (simp add: wp_sq) (blast intro: wp_mono)
  with assms(3) show ?thesis
    by (simp add: stop_debounced_def wp_sq wp_modify wp_bnd wp_gets flip: halt_def)
qed

lemma stop_in_order:
  assumes "carries (ready p w u) k (in_order p w u)"
  shows "carries (in_order p w u) (stop_debounced k) (in_order p w u)"
proof (rule carriesI)
  fix s assume s: "in_order p w u s"
  show "wp (stop_debounced k) (\<lambda>_. in_order p w u) (\<lambda>_ _. False) s"
  proof (cases "phase s = PH_WAITING")
    case True
    with assms s show ?thesis by (auto simp: in_order_def intro: stop_waiting)
  next
    case False
    with s have "in_order p w u (halt s)" by (simp add: in_order_def halt_loose)
    with False carriesD [OF await_in_order] show ?thesis by (simp add: stop_unless_waiting)
  qed
qed

lemma stop_in_run: "carries (in_run p w u) (stop_debounced k) (in_run p w u)"
proof (rule carriesI)
  fix s assume s: "in_run p w u s"
  then have l: "loose p False w u s" and b: "busy (log s)" by (simp_all add: in_run_def in_order_def)
  then have ph: "phase s \<noteq> PH_WAITING" using loose_busy [of p False w u s] by auto
  from wp_mono [OF await_loose [OF halt_loose [OF l ph]]] b ph
  show "wp (stop_debounced k) (\<lambda>_. in_run p w u) (\<lambda>_ _. False) s"
    by (simp add: stop_unless_waiting in_run_def in_order_def)
qed

text \<open>While the Deferreds are being fired, a stop keeps only what holds without any promise.\<close>

lemma stop_in_loop:
  assumes "carries (ready False w u) k (in_order False w u)"
  shows "carries (in_loop False q w u) (stop_debounced k) (in_loop False q w u)"
proof (rule carriesI)
  fix s assume s: "in_loop False q w u s"
  then have l: "loose False q w u s" by (simp add: in_loop_def)
  show "wp (stop_debounced k) (\<lambda>_. in_loop False q w u) (\<lambda>_ _. False) s"
  proof (cases "phase s = PH_WAITING")
    case True
    show ?thesis
      by (rule wp_mono [OF stop_waiting [OF assms l True]]) (auto simp: in_loop_def in_order_def intro: loose_any)
  next
    case False
    from wp_mono [OF await_loose [OF halt_loose [OF l False]]] False
    show ?thesis by (simp add: stop_unless_waiting in_loop_def)
  qed
qed

section \<open>Firing the Deferreds\<close>

lemma next_fired:
  assumes "accounted s" and "completeDeferreds s = d # ds"
  shows "Promised d \<in> set (log s)" and "Fired d \<notin> set (log s)"
    and "accounted (note_that (Fired d) (s\<lparr>completeDeferreds := ds\<rparr>))"
  using assms by (auto simp: accounted_def note_that_def)

lemma wp_fire_next:
  "wp fire_next Q E s = (case completeDeferreds s of [] \<Rightarrow> Q False s
     | d # ds \<Rightarrow> Q True (note_that (Fired d) (s\<lparr>completeDeferreds := ds\<rparr>)))"
  by (simp add: fire_next_def wp_simps split: list.split)

lemma fired_in_loop:
  assumes "in_loop p q w u s" and d: "completeDeferreds s = d # ds"
  shows "in_loop p q w u (note_that (Fired d) (s\<lparr>completeDeferreds := ds\<rparr>))"
proof -
  from assms have "accounted s" by (simp add: in_loop_def loose_def steady_def)
  note fired = next_fired [OF this d]
  from assms(1) fired show ?thesis
    by (cases "phase s"; cases "until_idle s") (auto simp: in_loop_def debounce_state)
qed

lemma fire_next_in_loop:
  "in_loop p q w u s \<Longrightarrow>
   wp fire_next (\<lambda>more t. in_loop p q w u t \<and> (\<not> more \<longrightarrow> completeDeferreds t = [])) (\<lambda>_ _. False) s"
  by (auto simp: wp_fire_next fired_in_loop split: list.split)

lemma fire_rounds:
  "in_loop p q w u s \<Longrightarrow> wp (for_each xs (\<lambda>_. sq fire_next (ret ())))
     (\<lambda>_ t. in_loop p q w u t \<and> completeDeferreds t = drop (length xs) (completeDeferreds s)
       \<and> phase t = phase s \<and> stopped t = stopped s \<and> until_idle t = until_idle s) (\<lambda>_ _. False) s"
proof (induction xs arbitrary: s)
  case Nil
  then show ?case by (simp add: wp_ret)
next
  case (Cons x xs)
  show ?case
  proof (cases "completeDeferreds s")
    case Nil
    with wp_mono [OF Cons.IH [OF Cons.prems]] show ?thesis by (simp add: wp_simps wp_fire_next)
  next
    case (Cons d ds)
    from Cons.IH [OF fired_in_loop [OF Cons.prems Cons]] Cons show ?thesis
      by (simp add: wp_simps wp_fire_next note_that_def)
  qed
qed

lemma fire_rest_in_loop:
  assumes "in_loop p q w u s"
  shows "wp fire_rest (\<lambda>_ t. in_loop p q w u t \<and> completeDeferreds t = [] \<and> phase t = phase s
    \<and> stopped t = stopped s \<and> until_idle t = until_idle s) (\<lambda>_ _. False) s"
  using wp_mono [OF fire_rounds [OF assms, of "completeDeferreds s"]]
  by (simp add: fire_rest_def wp_bnd wp_gets)

lemma fire_deferreds_in_loop:
  assumes "list_all (\<lambda>m. carries (in_loop p q w u) m (in_loop p q w u)) ws" and "in_loop p q w u s"
  shows "wp (fire_deferreds ws) (\<lambda>_ t. in_loop p q w u t \<and> completeDeferreds t = []) (\<lambda>_ _. False) s"
  using assms
proof (induction ws arbitrary: s)
  case Nil
  then show ?case using wp_mono [OF fire_rest_in_loop [of p q w u s]] by simp
next
  case (Cons m ws)
  then have m: "carries (in_loop p q w u) m (in_loop p q w u)" by simp
  have "wp (sq m (fire_deferreds ws)) (\<lambda>_ t. in_loop p q w u t \<and> completeDeferreds t = []) (\<lambda>_ _. False) t"
    if "in_loop p q w u t" for t
    unfolding wp_sq using carries_mono [OF m that] Cons by simp
  with Cons.prems show ?case
    by (auto simp: wp_bnd wp_ret intro!: wp_mono [OF fire_next_in_loop])
qed

section \<open>The end of a run\<close>

definition over :: "debouncer \<Rightarrow> debouncer" where
  "over s = (note_that (Ended (now s)) (s\<lparr>running := running s - 1\<rparr>))\<lparr>phase := PH_IDLE\<rparr>"

lemma over_simps [simp]:
  "phase (over s) = PH_IDLE" "timer (over s) = timer s" "wait (over s) = wait s"
  "until_idle (over s) = until_idle s" "running (over s) = running s - 1" "stopped (over s) = stopped s"
  "completeDeferreds (over s) = completeDeferreds s" "made (over s) = made s" "now (over s) = now s"
  "log (over s) = Ended (now s) # log s"
  by (simp_all add: over_def note_that_def)

lemma over_steady:
  assumes "in_run p w u s"
  shows "steady p w u (over s)"
proof -
  have "accounted (over s) = accounted s"
    by (rule accounted_cong [of _ s "Ended (now s)"]) simp_all
  with assms show ?thesis by (auto simp: in_run_def in_order_def loose_def steady_def)
qed

lemma in_run_phase:
  assumes "in_run p w u s"
  shows "phase s = PH_RUNNING \<and> (p \<longrightarrow> \<not> owed (log s)) \<or> phase s = PH_RUNNING_QUEUED \<and> owed (log s)"
    and "\<not> ringing s" and "stopped s = halted (log s)"
  using assms by (cases "phase s"; simp add: in_run_def in_order_def loose_def steady_def)+

text \<open>The call that was queued.\<close>

lemma requeue:
  assumes s: "in_loop p True w u s" and none: "completeDeferreds s = []"
  shows "wp call_debounced (\<lambda>_. in_order p w u) (\<lambda>_ _. False) s"
proof (cases "stopped s")
  case True
  from s True have "phase s \<noteq> PH_IDLE \<or> \<not> p" by (auto simp: in_loop_def loose_def)
  with s have "loose p False w u s" by (auto simp: in_loop_def intro: loose_any)
  with True none show ?thesis by (simp add: call_debounced_def wp_simps in_order_def)
next
  case False
  from s have "loose p True w u s" by (simp add: in_loop_def)
  from wp_mono [OF accepted_call [OF this False], of "\<lambda>_. in_order p w u"] False none show ?thesis
    by (auto simp: call_debounced_def wp_simps in_order_def unmoved_def intro: loose_any)
qed

lemma wp_retry:
  "wp (retry k ws) Q E s =
    (if phase s = PH_RUNNING_QUEUED \<and> stopped s then wp k Q E (over s)
     else wp (fire_deferreds ws)
       (\<lambda>_. wp (if phase s = PH_RUNNING_QUEUED then call_debounced else ret ()) Q E) E (over s))"
  by (auto simp: retry_def wp_sq wp_modify wp_bnd wp_gets to_phase_def Let_def note_that_def over_def)

lemma over_in_loop:
  assumes "in_run p w u s" and "\<not> (q \<and> stopped s)" and "q \<longleftrightarrow> phase s = PH_RUNNING_QUEUED"
  shows "in_loop p q w u (over s)"
  using in_run_phase [OF assms(1)] over_steady [OF assms(1)] assms(2,3)
  by (auto simp: in_loop_def loose_def ringing_def)

lemma retry_carries:
  assumes k: "carries (ready p w u) k (in_order p w u)"
    and ws: "\<And>q. list_all (\<lambda>m. carries (in_loop p q w u) m (in_loop p q w u)) ws"
  shows "carries (in_run p w u) (retry k ws) (in_order p w u)"
proof (rule carriesI)
  fix s assume s: "in_run p w u s"
  note phases = in_run_phase [OF s]
  define q where "q \<longleftrightarrow> phase s = PH_RUNNING_QUEUED"
  then have q: "q \<longleftrightarrow> phase s = PH_RUNNING_QUEUED" by simp
  show "wp (retry k ws) (\<lambda>_. in_order p w u) (\<lambda>_ _. False) s"
  proof (cases "q \<and> stopped s")
    case True
    with phases over_steady [OF s] have "ready p w u (over s)" by (auto simp: ready_def q_def ringing_def)
    with True carriesD [OF k] show ?thesis by (simp add: wp_retry q_def)
  next
    case False
    from fire_deferreds_in_loop [OF ws over_in_loop [OF s False q]]
    have "wp (fire_deferreds ws) (\<lambda>_. wp (if q then call_debounced else ret ()) (\<lambda>_. in_order p w u) (\<lambda>_ _. False))
      (\<lambda>_ _. False) (over s)"
      by (rule wp_mono) (auto simp: wp_ret requeue in_loop_def in_order_def)
    with False show ?thesis by (auto simp: wp_retry q_def)
  qed
qed

section \<open>Runs of the function\<close>

lemma no_stop_carries: "no_stop r \<Longrightarrow> carries (in_loop p q w u) (perform_own r) (in_loop p q w u)"
  by (cases r) (simp_all add: call_carries start_carries)

lemma stop_request: "carries P (stop_debounced k) P \<Longrightarrow> carries P (sq (stop_debounced k) (ret ())) P"
  by (rule carries_sq) (auto intro: carries_ret)

lemma own_and_invoke:
  "((p \<longrightarrow> patient_request r) \<longrightarrow> carries (in_run p w u) (perform_own r) (in_run p w u)) \<and>
   (\<not> p \<longrightarrow> (\<forall>q. carries (in_loop p q w u) (perform_own r) (in_loop p q w u)))"
  "(p \<longrightarrow> patient_run run) \<longrightarrow> carries (ready p w u) (invoke run) (in_order p w u)"
proof (induction r and run rule: perform_own_invoke.induct)
  case (3 r)
  then show ?case using stop_in_loop [of w u "invoke r"] by (auto intro!: stop_request stop_in_run)
next
  case 4
  show ?case using carries_mono [OF begin_run_carries] by (auto intro!: carriesI simp: in_run_def)
next
  case (5 rs over ws "next")
  show ?case
  proof
    assume patient: "p \<longrightarrow> patient_run (Some (FunctionRun rs over ws next))"
    have own: "carries (in_run p w u) (for_each rs perform_own) (in_run p w u)"
      using 5(1) patient by (auto intro!: carries_for_each simp: list_all_iff)
    have "carries (in_loop p q w u) (for_each l perform_own) (in_loop p q w u)" if "over" "l \<in> set ws" for q l
    proof (cases p)
      case True
      with patient that(2) show ?thesis by (auto intro!: carries_for_each no_stop_carries simp: list_all_iff)
    next
      case False
      with 5(3) [OF that] show ?thesis by (auto intro!: carries_for_each)
    qed
    then have "over \<Longrightarrow> carries (in_run p w u) (retry (invoke next) (map (\<lambda>l. for_each l perform_own) ws)) (in_order p w u)"
      using 5(2) patient by (intro retry_carries) (auto simp: list_all_iff)
    then have "carries (in_run p w u) (if over then retry (invoke next) (map (\<lambda>l. for_each l perform_own) ws) else ret ())
        (in_order p w u)"
      by (auto intro!: carries_ret simp: in_run_def)
    from carries_sq [OF begin_run_carries carries_sq [OF own this]]
    show "carries (ready p w u) (invoke (Some (FunctionRun rs over ws next))) (in_order p w u)" by simp
  qed
qed (simp_all add: call_carries start_carries)

lemma invoke_carries: "(p \<Longrightarrow> patient_run run) \<Longrightarrow> carries (ready p w u) (invoke run) (in_order p w u)"
  using own_and_invoke(2) by blast

lemma waiters_carry:
  assumes "p \<Longrightarrow> list_all (list_all no_stop) ws"
  shows "list_all (\<lambda>m. carries (in_loop p q w u) m (in_loop p q w u)) (waiters ws)"
proof -
  have "carries (in_loop p q w u) (perform_own r) (in_loop p q w u)" if "l \<in> set ws" "r \<in> set l" for l r
    using assms that own_and_invoke(1) [of p r w u] no_stop_carries [of r] by (cases p) (auto simp: list_all_iff)
  then show ?thesis by (auto simp: waiters_def list_all_iff intro: carries_for_each)
qed

section \<open>Histories\<close>

lemma new_settled: "in_order p w u (Debouncer w u t)"
  by (simp add: Debouncer_def debounce_state accounted_def)

lemma happen_settled:
  assumes "in_order p w u s" and "possible h s" and "p \<Longrightarrow> patient h"
  shows "wp (happen h) (\<lambda>_. in_order p w u) (\<lambda>_ _. False) s"
proof (cases h)
  case (Passes n)
  have "accounted (s\<lparr>now := now s + int n\<rparr>) = accounted s"
    by (rule accounted_same) simp_all
  with assms Passes show ?thesis
    by (cases "phase s"; cases "until_idle s") (simp_all add: wp_simps debounce_state)
next
  case Called
  with assms carriesD [OF call_carries(1)] show ?thesis by simp
next
  case (Rings run)
  let ?t = "s\<lparr>timer := map_option (active_update (\<lambda>_. False)) (timer s)\<rparr>"
  from assms Rings have "ringing s" by (auto simp: ringing_def split: option.splits)
  moreover have "accounted ?t = accounted s" by (rule accounted_same) simp_all
  ultimately have "ready p w u ?t"
    using assms(1) by (cases "phase s") (auto simp: in_order_def loose_def steady_def ready_def ringing_def)
  with Rings assms(3) carriesD [OF invoke_carries] show ?thesis by (simp add: wp_sq wp_modify)
next
  case (Finishes ws run)
  with assms have "in_run p w u s" by (auto simp: in_run_def in_order_def loose_def steady_def)
  with Finishes assms(3) carriesD [OF retry_carries [OF invoke_carries waiters_carry]] show ?thesis by simp
next
  case Starts
  with assms carriesD [OF start_carries(1)] show ?thesis by simp
next
  case (Stops run)
  with assms carriesD [OF stop_in_order [OF invoke_carries]] show ?thesis by (simp add: wp_sq wp_ret_all)
qed

lemma debounces_settled: "debounces w u t0 s \<Longrightarrow> in_order False w u s"
proof (induction rule: debounces.induct)
  case new
  show ?case by (rule new_settled)
next
  case (more s h r t)
  from happen_settled [OF more.IH more.hyps(2)] more.hyps(3) show ?case
    by (cases r) (simp_all add: wp_def)
qed

lemma patient_settled: "debounces_patiently w u t0 s \<Longrightarrow> in_order True w u s"
proof (induction rule: debounces_patiently.induct)
  case new
  show ?case by (rule new_settled)
next
  case (more s h r t)
  from happen_settled [OF more.IH more.hyps(3)] more.hyps(2,4) show ?case
    by (cases r) (simp_all add: wp_def)
qed

text \<open>A sequence of happenings, if each is possible and none raises.\<close>

primrec follow :: "happening list \<Rightarrow> debouncer \<Rightarrow> debouncer option" where
  "follow [] s = Some s"
| "follow (h # hs) s = (if possible h s
     then (case happen h s of (Inl _, _) \<Rightarrow> None | (Inr _, t) \<Rightarrow> follow hs t) else None)"

lemma follow_append: "follow (gs @ hs) s = Option.bind (follow gs s) (follow hs)"
  by (induction gs arbitrary: s) (auto split: prod.splits sum.splits)

lemma follow_settled: "in_order p w u s \<Longrightarrow> follow hs s = Some t \<Longrightarrow> (p \<Longrightarrow> list_all patient hs) \<Longrightarrow> in_order p w u t"
proof (induction hs arbitrary: s)
  case (Cons h hs)
  then show ?case using happen_settled [of p w u s h]
    by (auto simp: wp_def split: if_splits prod.splits sum.splits)
qed simp

lemma follow_then: "follow gs s = Some v \<Longrightarrow> follow hs v = Some t \<Longrightarrow> follow (gs @ hs) s = Some t"
  by (simp add: follow_append)

text \<open>A single step whose outcome is known.\<close>

lemma follow_one:
  assumes "in_order p w u s" and "possible h s" and "patient h" and "wp (happen h) (\<lambda>_. Q) (\<lambda>_ _. True) s"
  shows "\<exists>t. follow [h] s = Some t \<and> Q t \<and> in_order p w u t"
  using happen_settled [OF assms(1,2)] assms(2-4)
  by (auto simp: wp_def split: prod.splits sum.splits)

lemma finish_possible: "in_order p w u s \<Longrightarrow> phase s \<in> {PH_RUNNING, PH_RUNNING_QUEUED} \<Longrightarrow> in_run p w u s"
  by (auto simp: in_run_def in_order_def dest: loose_busy)

lemma finish_running:
  assumes "in_order p w u s" and ph: "phase s = PH_RUNNING"
  shows "\<exists>t. follow [Finishes [] None] s = Some t \<and> phase t = PH_IDLE \<and> in_order p w u t"
proof (rule follow_one [OF assms(1)])
  from finish_possible assms have s: "in_run p w u s" by blast
  then show "possible (Finishes [] None) s" by (simp add: in_run_def in_order_def loose_def steady_def)
  from over_in_loop [OF s, of False] ph have "in_loop p False w u (over s)" by simp
  from wp_mono [OF fire_rest_in_loop [OF this]] ph
  show "wp (happen (Finishes [] None)) (\<lambda>_ t. phase t = PH_IDLE) (\<lambda>_ _. True) s"
    by (simp add: wp_retry wp_ret waiters_def)
qed simp

lemma finish_queued:
  assumes "in_order p w u s" and ph: "phase s = PH_RUNNING_QUEUED"
  shows "\<exists>t. follow [Finishes [] None] s = Some t \<and>
    phase t = (if stopped s then PH_RUNNING else PH_WAITING) \<and> in_order p w u t"
proof (rule follow_one [OF assms(1)])
  from finish_possible assms have s: "in_run p w u s" by blast
  then show "possible (Finishes [] None) s" by (simp add: in_run_def in_order_def loose_def steady_def)
  show "wp (happen (Finishes [] None)) (\<lambda>_ t. phase t = (if stopped s then PH_RUNNING else PH_WAITING)) (\<lambda>_ _. True) s"
  proof (cases "stopped s")
    case True
    with ph show ?thesis by (simp add: wp_retry begin_run_def to_phase_def wp_simps note_that_def)
  next
    case False
    with over_in_loop [OF s, of True] ph have "in_loop p True w u (over s)" by simp
    from wp_mono [OF fire_rest_in_loop [OF this]] ph False
    show ?thesis
      by (simp add: wp_retry waiters_def call_debounced_def call_phase_def to_phase_def wp_callLater wp_simps note_that_def)
  qed
qed simp

lemma ring_waiting:
  assumes "in_order p w u s" and "phase s = PH_WAITING"
  shows "\<exists>n t. follow [Passes n, Rings None] s = Some t \<and> phase t = PH_RUNNING \<and> in_order p w u t"
proof -
  from assms obtain d where d: "timer s = Some d" "active d" by (auto simp: in_order_def loose_def timed_def)
  define n where "n = nat (due d - now s)"
  have "wp (happen (Passes n)) (\<lambda>_ t. timer t = Some d \<and> due d \<le> now t) (\<lambda>_ _. True) s"
    using d by (simp add: wp_modify n_def)
  from follow_one [OF assms(1) _ _ this] obtain t
    where t: "follow [Passes n] s = Some t" "timer t = Some d \<and> due d \<le> now t" "in_order p w u t" by auto
  with d have "possible (Rings None) t" "patient (Rings None)" by simp_all
  moreover have "wp (happen (Rings None)) (\<lambda>_ v. phase v = PH_RUNNING) (\<lambda>_ _. True) t"
    by (simp add: wp_simps begin_run_def to_phase_def note_that_def)
  ultimately obtain v where v: "follow [Rings None] t = Some v" "phase v = PH_RUNNING" "in_order p w u v"
    using follow_one [OF t(3)] by blast
  from follow_then [OF t(1) v(1)] have "follow [Passes n, Rings None] s = Some v"
    by (simp only: append_Cons append_Nil)
  with v show ?thesis by blast
qed

definition quiet_events :: "happening list \<Rightarrow> bool" where
  "quiet_events hs \<longleftrightarrow> list_all (\<lambda>h. (\<exists>n. h = Passes n) \<or> h = Rings None \<or> h = Finishes [] None) hs \<and>
     length (filter (\<lambda>h. h = Finishes [] None) hs) \<le> 2"

lemma rest_from_waiting:
  assumes "in_order p w u s" and "phase s = PH_WAITING"
  shows "\<exists>n t. follow [Passes n, Rings None, Finishes [] None] s = Some t \<and> phase t = PH_IDLE \<and> in_order p w u t"
proof -
  from ring_waiting [OF assms] obtain n v
    where v: "follow [Passes n, Rings None] s = Some v" "phase v = PH_RUNNING" "in_order p w u v" by blast
  from finish_running [OF v(3,2)] obtain t
    where t: "follow [Finishes [] None] v = Some t" "phase t = PH_IDLE" "in_order p w u t" by blast
  from follow_then [OF v(1) t(1)] have "follow [Passes n, Rings None, Finishes [] None] s = Some t"
    by (simp only: append_Cons append_Nil)
  with t show ?thesis by blast
qed

text \<open>Time, timers and the ends of at most two runs bring every debouncer to rest.\<close>

lemma settled_rests:
  assumes "in_order p w u s"
  shows "\<exists>hs t. quiet_events hs \<and> follow hs s = Some t \<and> phase t = PH_IDLE \<and> in_order p w u t"
proof (cases "phase s")
  case PH_IDLE
  then show ?thesis using assms by (intro exI [of _ "[]"]) (simp add: quiet_events_def)
next
  case PH_WAITING
  from rest_from_waiting [OF assms this] obtain n t
    where "follow [Passes n, Rings None, Finishes [] None] s = Some t" "phase t = PH_IDLE" "in_order p w u t" by blast
  moreover have "quiet_events [Passes n, Rings None, Finishes [] None]" by (simp add: quiet_events_def)
  ultimately show ?thesis by blast
next
  case PH_RUNNING
  from finish_running [OF assms this] obtain t
    where "follow [Finishes [] None] s = Some t" "phase t = PH_IDLE" "in_order p w u t" by blast
  moreover have "quiet_events [Finishes [] None]" by (simp add: quiet_events_def)
  ultimately show ?thesis by blast
next
  case PH_RUNNING_QUEUED
  from finish_queued [OF assms this] obtain v where v: "follow [Finishes [] None] s = Some v"
    "phase v = (if stopped s then PH_RUNNING else PH_WAITING)" "in_order p w u v" by blast
  have "\<exists>hs t. (quiet_events hs \<and> length (filter (\<lambda>h. h = Finishes [] None) hs) \<le> 1) \<and>
      follow hs v = Some t \<and> phase t = PH_IDLE \<and> in_order p w u t"
  proof (cases "stopped s")
    case True
    with finish_running [OF v(3)] v(2) obtain t
      where "follow [Finishes [] None] v = Some t" "phase t = PH_IDLE" "in_order p w u t" by auto
    then show ?thesis by (intro exI [of _ "[Finishes [] None]"]) (simp add: quiet_events_def)
  next
    case False
    with rest_from_waiting [OF v(3)] v(2) obtain n t
      where "follow [Passes n, Rings None, Finishes [] None] v = Some t" "phase t = PH_IDLE" "in_order p w u t" by auto
    then show ?thesis by (intro exI [of _ "[Passes n, Rings None, Finishes [] None]"] exI [of _ t]) (simp add: quiet_events_def)
  qed
  then obtain hs t where "quiet_events hs" "length (filter (\<lambda>h. h = Finishes [] None) hs) \<le> 1"
    "follow hs v = Some t" "phase t = PH_IDLE" "in_order p w u t" by blast
  moreover from this follow_then [OF v(1)] have "follow (Finishes [] None # hs) s = Some t" by fastforce
  moreover have "quiet_events (Finishes [] None # hs)" using calculation by (simp add: quiet_events_def)
  ultimately show ?thesis by blast
qed

section \<open>The timer\<close>

lemma ring_exactly:
  assumes "in_order p w u s"
  shows "possible (Rings run) s \<longleftrightarrow> \<not> busy (log s) \<and> batch (log s) \<noteq> []
    \<and> (if u then hd (batch (log s)) else last (batch (log s))) + w \<le> now s"
proof (cases "phase s = PH_WAITING")
  case True
  with assms have "timed s" "\<not> busy (log s)" "wait s = w" "until_idle s = u"
    by (simp_all add: in_order_def loose_def steady_def)
  then show ?thesis by (auto simp: timed_def)
next
  case False
  with assms have "\<not> ringing s" and "busy (log s) \<or> batch (log s) = []"
    by (cases "phase s"; auto simp: in_order_def loose_def)+
  then show ?thesis by (auto simp: ringing_def split: option.splits)
qed

text \<open>Nothing is taken back from the log.\<close>

definition only_adds :: "(debouncer, 'a) prog \<Rightarrow> bool" where
  "only_adds m \<longleftrightarrow> (\<forall>s. \<exists>l. log (snd (m s)) = l @ log s)"

lemma only_adds_bnd:
  assumes "only_adds m" and "\<And>x. only_adds (f x)"
  shows "only_adds (bnd m f)"
  unfolding only_adds_def
proof
  fix s
  obtain r t where m: "m s = (r, t)" by (cases "m s")
  from assms(1) obtain l where l: "log (snd (m s)) = l @ log s" unfolding only_adds_def by blast
  show "\<exists>l. log (snd (bnd m f s)) = l @ log s"
  proof (cases r)
    case (Inl e)
    with m l show ?thesis by (simp add: run_bnd)
  next
    case (Inr x)
    from assms(2) obtain k where "log (snd (f x t)) = k @ log t" unfolding only_adds_def by blast
    with m l Inr show ?thesis by (simp add: run_bnd)
  qed
qed

lemma only_adds_sq: "only_adds m \<Longrightarrow> only_adds n \<Longrightarrow> only_adds (sq m n)"
  unfolding sq_def by (rule only_adds_bnd)

lemma only_adds_basic:
  "only_adds (ret x)" "only_adds (raise e)" "only_adds (gets g)" "only_adds (guard b e)"
  by (simp_all add: only_adds_def run_combinators)

lemma only_adds_modify: "(\<And>s. \<exists>l. log (f s) = l @ log s) \<Longrightarrow> only_adds (modify f)"
  by (simp add: only_adds_def run_simps)

lemmas only_adds_intros = only_adds_bnd only_adds_sq only_adds_basic only_adds_modify

lemma only_adds_with_timer: "only_adds (with_timer f)"
  by (auto simp: with_timer_def intro!: only_adds_intros split: option.split)

lemma only_adds_call: "only_adds call_debounced"
  by (auto simp: call_debounced_def call_phase_def callLater_def to_phase_def reset_timer_def note_that_def
      intro!: only_adds_intros only_adds_with_timer split: deb_phase.split)

lemma only_adds_stop: "only_adds k \<Longrightarrow> only_adds (stop_debounced k)"
  by (auto simp: stop_debounced_def await_run_def cancel_timer_def note_that_def
      intro!: only_adds_intros only_adds_with_timer)

lemma only_adds_for_each: "(\<And>x. x \<in> set xs \<Longrightarrow> only_adds (f x)) \<Longrightarrow> only_adds (for_each xs f)"
  by (induction xs) (auto intro: only_adds_basic only_adds_sq)

lemma only_adds_fire_next: "only_adds fire_next"
  by (auto simp: fire_next_def note_that_def intro!: only_adds_intros split: list.split)

lemma only_adds_fire: "list_all only_adds ws \<Longrightarrow> only_adds (fire_deferreds ws)"
  by (induction ws)
    (auto simp: fire_rest_def intro!: only_adds_intros only_adds_fire_next only_adds_for_each)

lemma only_adds_retry: "only_adds k \<Longrightarrow> list_all only_adds ws \<Longrightarrow> only_adds (retry k ws)"
  by (auto simp: retry_def to_phase_def note_that_def Let_def
      intro!: only_adds_intros only_adds_call only_adds_fire)

lemma only_adds_begin: "only_adds begin_run"
  by (auto simp: begin_run_def to_phase_def note_that_def intro!: only_adds_intros)

lemma only_adds_own: "only_adds (perform_own r)" "only_adds (invoke run)"
proof (induction r and run rule: perform_own_invoke.induct)
  case (5 rs over ws "next")
  then show ?case
    by (auto intro!: only_adds_sq only_adds_begin only_adds_for_each only_adds_retry only_adds_basic simp: list_all_iff)
qed (auto simp: start_debounced_def note_that_def
    intro!: only_adds_call only_adds_sq only_adds_stop only_adds_modify only_adds_basic only_adds_begin)

lemma begin_run_is:
  "begin_run s = (Inr (), s\<lparr>phase := PH_RUNNING, running := running s + 1, log := Began (now s) # log s\<rparr>)"
  by (simp add: begin_run_def to_phase_def run_combinators note_that_def)

lemma invoke_begins: "\<exists>l. log (snd (invoke run s)) = l @ Began (now s) # log s"
proof (cases run)
  case None
  then show ?thesis by (simp add: begin_run_is)
next
  case (Some r)
  obtain rs b ws "next" where r: "r = FunctionRun rs b ws next" by (cases r)
  have "only_adds (sq (for_each rs perform_own)
      (if b then retry (invoke next) (map (\<lambda>w. for_each w perform_own) ws) else ret ()))"
    by (auto intro!: only_adds_sq only_adds_for_each only_adds_retry only_adds_basic only_adds_own simp: list_all_iff)
  from this [unfolded only_adds_def, rule_format,
      of "s\<lparr>phase := PH_RUNNING, running := running s + 1, log := Began (now s) # log s\<rparr>"]
  show ?thesis unfolding Some r invoke.simps run_sq [of begin_run] begin_run_is by simp
qed

lemma ring_begins:
  assumes "in_order False w u s" and "possible (Rings run) s"
  shows "\<exists>t l. happen (Rings run) s = (Inr (), t) \<and> log t = l @ Began (now s) # log s"
proof -
  obtain t where t: "happen (Rings run) s = (Inr (), t)"
    using happen_settled [OF assms] by (auto simp: wp_def split: prod.splits sum.splits)
  then have "t = snd (invoke run (s\<lparr>timer := map_option (active_update (\<lambda>_. False)) (timer s)\<rparr>))"
    by (simp add: run_combinators)
  with t invoke_begins [of run "s\<lparr>timer := map_option (active_update (\<lambda>_. False)) (timer s)\<rparr>"]
  show ?thesis by auto
qed

text \<open>At rest every Deferred of a stop has fired and no call is waiting.\<close>

lemma idle_is_done:
  assumes "in_order p w u s" and "phase s = PH_IDLE"
  shows "\<not> busy (log s) \<and> (\<forall>d < made s. Fired d \<in> set (log s)) \<and> (p \<longrightarrow> \<not> owed (log s))"
proof -
  from assms have "accounted s" "completeDeferreds s = []" "\<not> busy (log s)" "p \<longrightarrow> \<not> owed (log s)"
    by (auto simp: in_order_def loose_def steady_def)
  then show ?thesis unfolding accounted_def by auto
qed

lemma debounces_step: "debounces w u t0 s \<Longrightarrow> possible h s \<Longrightarrow> debounces w u t0 (snd (happen h s))"
  using debounces.more [of w u t0 s h "fst (happen h s)" "snd (happen h s)"] by simp

end
