(* ===== verification/Bb_Debounce_Examples.thy ===== *)
theory Bb_Debounce_Examples
  imports Bb_Debounce_Facts
begin

text \<open>
  What goes wrong when someone who waits for the Deferred of a stop stops the debouncer again from within its
  callback, while \<open>retry\<close> is still in its loop over \<open>completeDeferreds\<close>.
\<close>

lemma follow_debounces: "debounces w u t0 s \<Longrightarrow> follow hs s = Some t \<Longrightarrow> debounces w u t0 t"
  by (induction hs arbitrary: s) (auto split: if_splits prod.splits sum.splits intro: debounces.more)

text \<open>
  The method is called, begins to run and is stopped. At its end the one who stopped it starts it, calls it and
  stops it again: the run begins at once, the second stop gets a Deferred of its own, and the loop goes on to fire
  this one too, although the run is not over.
\<close>

definition restarted :: "happening list" where
  "restarted = [Called, Passes 5, Rings None, Stops None, Finishes [[ReqStart, ReqCall, ReqStop None]] None]"

text \<open>
  The method is called, begins to run, is stopped, started again and called: this call is queued. At the end of
  the run the first stop is answered, and the one who waited for it stops the debouncer again. The queued call is
  then dropped, and the debouncer is idle.
\<close>

definition stopped_twice :: "happening list" where
  "stopped_twice = [Called, Passes 5, Rings None, Stops None, Starts, Called, Finishes [[ReqStop None]] None]"

lemmas run_debouncer = restarted_def stopped_twice_def waiters_def Debouncer_def call_debounced_def call_phase_def callLater_def
  to_phase_def stop_debounced_def await_run_def cancel_timer_def with_timer_def start_debounced_def begin_run_def
  retry_def fire_rest_def fire_next_def note_that_def run_combinators Let_def

theorem stops_answered_while_running:
  "\<exists>s. debounces 5 True 0 s \<and> log s =
    [Fired 1, Promised 1, Began 5, Halted, Asked 5, Resumed, Fired 0, Ended 5, Promised 0, Halted, Began 5, Asked 0]
    \<and> busy (log s) \<and> \<not> stops_wait (log s)"
proof -
  have "\<exists>s. follow restarted (Debouncer 5 True 0) = Some s \<and> log s =
    [Fired 1, Promised 1, Began 5, Halted, Asked 5, Resumed, Fired 0, Ended 5, Promised 0, Halted, Began 5, Asked 0]"
    by (simp add: run_debouncer)
  then show ?thesis using follow_debounces [OF debounces.new] by fastforce
qed

theorem queued_calls_get_lost:
  "\<exists>s. debounces 5 True 0 s \<and> log s =
    [Halted, Fired 0, Ended 5, Asked 5, Resumed, Promised 0, Halted, Began 5, Asked 0]
    \<and> owed (log s) \<and> phase s = PH_IDLE"
proof -
  have "\<exists>s. follow stopped_twice (Debouncer 5 True 0) = Some s \<and> log s =
    [Halted, Fired 0, Ended 5, Asked 5, Resumed, Promised 0, Halted, Began 5, Asked 0] \<and> phase s = PH_IDLE"
    by (simp add: run_debouncer)
  then show ?thesis using follow_debounces [OF debounces.new] by fastforce
qed

end
