(* ===== verification/Bb_Values.thy ===== *)
theory Bb_Values
  imports Umb_Errors "HOL-Library.List_Lexorder"
begin

text \<open>
  The values that fields of data API items hold and that filters compare them with, and Python's comparisons on
  them. \<open>a < b\<close> raises \<open>TypeError\<close> for most pairs of different types, so the comparisons return a result. A linear
  order on normalised values agrees with Python's comparisons wherever these do not raise.
\<close>

section \<open>Values\<close>

text \<open>Date-times are represented by their instants. Floats and dicts are left out.\<close>

datatype val =
    VNone
  | VBool bool
  | VInt int
  | VStr pystr
  | VTime int
  | VBytes "byte list"
  | VList "val list"

text \<open>\<open>True\<close> and \<open>False\<close> are the integers 1 and 0.\<close>

fun norm :: "val \<Rightarrow> val" where
  "norm (VBool b) = VInt (of_bool b)"
| "norm (VList vs) = VList (map norm vs)"
| "norm v = v"

text \<open>\<open>a == b\<close>; lists are compared element by element.\<close>

fun py_eq :: "val \<Rightarrow> val \<Rightarrow> bool" where
  "py_eq VNone VNone = True"
| "py_eq (VBool a) (VBool b) = (a = b)"
| "py_eq (VBool a) (VInt j) = (of_bool a = j)"
| "py_eq (VInt i) (VBool b) = (i = of_bool b)"
| "py_eq (VInt i) (VInt j) = (i = j)"
| "py_eq (VStr s) (VStr t) = (s = t)"
| "py_eq (VTime s) (VTime t) = (s = t)"
| "py_eq (VBytes s) (VBytes t) = (s = t)"
| "py_eq (VList []) (VList []) = True"
| "py_eq (VList (v # vs)) (VList (w # ws)) = (py_eq v w \<and> py_eq (VList vs) (VList ws))"
| "py_eq _ _ = False"

text \<open>
  \<open>a < b\<close>. Lists are compared at the first place where the elements differ, and by length if there is none.
\<close>

fun py_lt :: "val \<Rightarrow> val \<Rightarrow> exn + bool" where
  "py_lt (VBool a) (VBool b) = Inr (a < b)"
| "py_lt (VBool a) (VInt j) = Inr (of_bool a < j)"
| "py_lt (VInt i) (VBool b) = Inr (i < of_bool b)"
| "py_lt (VInt i) (VInt j) = Inr (i < j)"
| "py_lt (VStr s) (VStr t) = Inr (s < t)"
| "py_lt (VTime s) (VTime t) = Inr (s < t)"
| "py_lt (VBytes s) (VBytes t) = Inr (s < t)"
| "py_lt (VList vs) (VList []) = Inr False"
| "py_lt (VList []) (VList (w # ws)) = Inr True"
| "py_lt (VList (v # vs)) (VList (w # ws)) =
     (if py_eq v w then py_lt (VList vs) (VList ws) else py_lt v w)"
| "py_lt _ _ = Inl TypeError"

text \<open>\<open>a <= b\<close>, \<open>a > b\<close> and \<open>a >= b\<close>.\<close>

fun py_le :: "val \<Rightarrow> val \<Rightarrow> exn + bool" where
  "py_le (VList []) (VList ws) = Inr True"
| "py_le (VList (v # vs)) (VList []) = Inr False"
| "py_le (VList (v # vs)) (VList (w # ws)) =
     (if py_eq v w then py_le (VList vs) (VList ws) else py_le v w)"
| "py_le v w = and_then (py_lt w v) (\<lambda>b. Inr (\<not> b))"

definition py_gt :: "val \<Rightarrow> val \<Rightarrow> exn + bool" where
  "py_gt v w = py_lt w v"

definition py_ge :: "val \<Rightarrow> val \<Rightarrow> exn + bool" where
  "py_ge v w = py_le w v"

text \<open>\<open>x in vs\<close> for a list, and \<open>v in d\<close> for any value: \<open>str\<close>, \<open>bytes\<close> and
  \<open>list\<close> are containers, and \<open>bytes\<close> contain integers too.\<close>

definition py_member :: "val \<Rightarrow> val list \<Rightarrow> bool" where
  "py_member v vs = list_ex (py_eq v) vs"

fun substring :: "'a list \<Rightarrow> 'a list \<Rightarrow> bool" where
  "substring s [] = (s = [])"
| "substring s (c # t) = (take (length s) (c # t) = s \<or> substring s t)"

fun py_in :: "val \<Rightarrow> val \<Rightarrow> exn + bool" where
  "py_in v (VList ws) = Inr (py_member v ws)"
| "py_in (VStr s) (VStr t) = Inr (substring s t)"
| "py_in (VBytes s) (VBytes t) = Inr (substring s t)"
| "py_in (VInt i) (VBytes t) = (if 0 \<le> i \<and> i < 256 then Inr (i \<in> uint ` set t) else Inl ValueError)"
| "py_in (VBool b) (VBytes t) = Inr (of_bool b \<in> uint ` set t)"
| "py_in _ _ = Inl TypeError"

text \<open>The elements of an iterable, and \<open>set(vs)\<close>: a list is not hashable.\<close>

fun py_iter :: "val \<Rightarrow> exn + val list" where
  "py_iter (VList vs) = Inr vs"
| "py_iter (VStr s) = Inr (map (\<lambda>c. VStr [c]) s)"
| "py_iter (VBytes s) = Inr (map (\<lambda>b. VInt (uint b)) s)"
| "py_iter _ = Inl TypeError"

fun hashable :: "val \<Rightarrow> bool" where
  "hashable (VList _) = False"
| "hashable _ = True"

definition py_set :: "val list \<Rightarrow> exn + val list" where
  "py_set vs = (if list_all hashable vs then Inr vs else Inl TypeError)"

text \<open>Truth of a value in a condition.\<close>

fun truthy :: "val \<Rightarrow> bool" where
  "truthy VNone = False"
| "truthy (VBool b) = b"
| "truthy (VInt i) = (i \<noteq> 0)"
| "truthy (VStr s) = (s \<noteq> [])"
| "truthy (VTime _) = True"
| "truthy (VBytes s) = (s \<noteq> [])"
| "truthy (VList vs) = (vs \<noteq> [])"

section \<open>Numbers in text\<close>

text \<open>
  \<open>int(s)\<close> for text or bytes as code points: white space around it, a sign, and decimal digits between which single
  underscores may stand. The decimal digits of other scripts, which \<open>int\<close> also reads in text, are left out.
\<close>

definition white_ascii :: "nat set" where
  "white_ascii = {9, 10, 11, 12, 13, 32}"

definition white_text :: "nat set" where
  "white_text = white_ascii \<union> {28, 29, 30, 31, 133, 160, 5760, 8232, 8233, 8239, 8287, 12288} \<union> {8192..8202}"

definition strip_white :: "nat set \<Rightarrow> pystr \<Rightarrow> pystr" where
  "strip_white ws s = rev (dropWhile (\<lambda>c. c \<in> ws) (rev (dropWhile (\<lambda>c. c \<in> ws) s)))"

fun digits_value :: "int \<Rightarrow> pystr \<Rightarrow> int option" where
  "digits_value n [] = Some n"
| "digits_value n (c # s) =
     (if 48 \<le> c \<and> c \<le> 57 then digits_value (10 * n + int (c - 48)) s
      else if c = 95 then (case s of [] \<Rightarrow> None
        | d # t \<Rightarrow> if 48 \<le> d \<and> d \<le> 57 then digits_value (10 * n + int (d - 48)) t else None)
      else None)"

definition py_number :: "pystr \<Rightarrow> int option" where
  "py_number s = (case s of [] \<Rightarrow> None
     | c # t \<Rightarrow> if 48 \<le> c \<and> c \<le> 57 then digits_value 0 s else None)"

definition py_int :: "nat set \<Rightarrow> pystr \<Rightarrow> int option" where
  "py_int ws s = (case strip_white ws s of
     [] \<Rightarrow> None
   | c # t \<Rightarrow> if c = 45 then map_option uminus (py_number t)
       else if c = 43 then py_number t else py_number (c # t))"

section \<open>A linear order that agrees\<close>

fun type_rank :: "val \<Rightarrow> nat" where
  "type_rank VNone = 0"
| "type_rank (VBool _) = 1"
| "type_rank (VInt _) = 2"
| "type_rank (VStr _) = 3"
| "type_rank (VTime _) = 4"
| "type_rank (VBytes _) = 5"
| "type_rank (VList _) = 6"

fun val_le :: "val \<Rightarrow> val \<Rightarrow> bool" where
  "val_le (VBool a) (VBool b) = (a \<le> b)"
| "val_le (VInt i) (VInt j) = (i \<le> j)"
| "val_le (VStr s) (VStr t) = (s \<le> t)"
| "val_le (VTime s) (VTime t) = (s \<le> t)"
| "val_le (VBytes s) (VBytes t) = (s \<le> t)"
| "val_le (VList []) (VList ws) = True"
| "val_le (VList (v # vs)) (VList []) = False"
| "val_le (VList (v # vs)) (VList (w # ws)) =
     (if v = w then val_le (VList vs) (VList ws) else val_le v w)"
| "val_le v w = (type_rank v \<le> type_rank w)"

lemma val_le_refl: "val_le v v"
proof (induction v)
  case (VList vs)
  then show ?case by (induction vs) auto
qed auto

lemma val_le_VNone [simp]: "val_le v VNone \<longleftrightarrow> v = VNone" "val_le VNone v"
  by (cases v; simp)+

lemma val_le_VList_Nil [simp]: "val_le (VList vs) (VList []) \<longleftrightarrow> vs = []"
  by (cases vs) simp_all

lemma rank_VNone [simp]: "type_rank v = 0 \<longleftrightarrow> v = VNone"
  by (cases v) simp_all

lemma val_le_antisym: "val_le v w \<Longrightarrow> val_le w v \<Longrightarrow> v = w"
  by (induction v w rule: val_le.induct) (auto split: if_splits)

lemma val_le_total: "val_le v w \<or> val_le w v"
  by (induction v w rule: val_le.induct) auto

lemma val_le_list_trans:
  "\<forall>u\<in>set us. \<forall>v w. val_le u v \<longrightarrow> val_le v w \<longrightarrow> val_le u w \<Longrightarrow>
   val_le (VList us) (VList vs) \<Longrightarrow> val_le (VList vs) (VList ws) \<Longrightarrow> val_le (VList us) (VList ws)"
proof (induction us arbitrary: vs ws)
  case (Cons u us)
  from Cons.prems(2) obtain v vs' where v: "vs = v # vs'" by (cases vs) auto
  from Cons.prems(3) v obtain w ws' where w: "ws = w # ws'" by (cases ws) auto
  show ?case
  proof (cases "u = v \<and> v = w")
    case True
    with Cons.IH [of vs' ws'] Cons.prems v w show ?thesis by (simp del: all_simps)
  next
    case False
    from Cons.prems(2,3) v w have "val_le u v" "val_le v w" by (auto simp: val_le_refl split: if_splits)
    with False have "u \<noteq> w" using val_le_antisym by blast
    moreover from Cons.prems(1) \<open>val_le u v\<close> \<open>val_le v w\<close> have "val_le u w" by auto
    ultimately show ?thesis by (simp add: w)
  qed
qed simp

lemma val_le_trans: "val_le u v \<Longrightarrow> val_le v w \<Longrightarrow> val_le u w"
proof (induction u arbitrary: v w)
  case (VList us)
  show ?case
  proof (cases w)
    case w: (VList ws)
    show ?thesis
    proof (cases v)
      case (VList vs)
      with VList.prems w VList.IH show ?thesis by (auto intro: val_le_list_trans [of us vs ws])
    qed (use VList.prems w in auto)
  qed (use VList.prems in \<open>cases v; auto\<close>)+
qed (case_tac v; case_tac w; auto)+

instantiation val :: linorder
begin

definition less_eq_val_def: "v \<le> w \<longleftrightarrow> val_le v w"

definition less_val_def: "(v :: val) < w \<longleftrightarrow> val_le v w \<and> \<not> val_le w v"

instance
  by standard
    (auto simp: less_eq_val_def less_val_def val_le_refl val_le_antisym val_le_total intro: val_le_trans)

end

lemma py_eq_norm: "py_eq v w \<longleftrightarrow> norm v = norm w"
  by (induction v w rule: py_eq.induct) auto

lemma py_eq_refl [simp]: "py_eq v v"
  by (simp add: py_eq_norm)

lemma val_less: "(v :: val) < w \<longleftrightarrow> val_le v w \<and> v \<noteq> w"
  by (auto simp: less_val_def val_le_refl dest: val_le_antisym)

lemma py_lt_norm: "py_lt v w = Inr b \<Longrightarrow> b \<longleftrightarrow> norm v < norm w"
  by (induction v w rule: py_lt.induct)
    (auto simp: val_less less_le py_eq_norm split: if_splits)

text \<open>Whether \<open>a < b\<close> raises does not depend on the sides, and the only exception is \<open>TypeError\<close>.\<close>

lemma py_lt_error: "py_lt v w = Inl e \<Longrightarrow> e = TypeError"
  by (induction v w rule: py_lt.induct) (auto split: if_splits)

lemma py_lt_Nil [simp]: "py_lt (VList []) (VList vs) = Inr (vs \<noteq> [])"
  by (cases vs) simp_all

lemma VList_order [simp]: "VList [] \<le> VList vs" "VList vs \<le> VList [] \<longleftrightarrow> vs = []"
  by (simp_all add: less_eq_val_def)

lemma py_lt_raises_sym: "py_lt v w = Inl TypeError \<longleftrightarrow> py_lt w v = Inl TypeError"
proof (induction v w rule: py_lt.induct)
  case (10 v vs w ws)
  then show ?case by (auto simp: py_eq_norm)
qed auto

lemma py_le_norm: "py_le v w = Inr b \<Longrightarrow> b \<longleftrightarrow> norm v \<le> norm w"
proof (induction v w rule: py_le.induct)
  case (3 v vs w ws)
  then show ?case by (auto simp: py_eq_norm less_eq_val_def split: if_splits)
qed (auto simp: less_eq_val_def and_then_Inr dest!: py_lt_norm simp: not_less simp flip: less_eq_val_def)

lemma py_member_norm: "py_member v ws \<longleftrightarrow> norm v \<in> norm ` set ws"
  by (auto simp: py_member_def list_ex_iff py_eq_norm)

lemma substring_append: "substring s t \<longleftrightarrow> (\<exists>u w. t = u @ s @ w)"
proof (induction t)
  case Nil
  show ?case by auto
next
  case (Cons c t)
  have "take (length s) (c # t) = s \<longleftrightarrow> (\<exists>w. c # t = s @ w)"
    by (metis append_eq_conv_conj append_take_drop_id)
  moreover have "(\<exists>u w. c # t = u @ s @ w) \<longleftrightarrow> (\<exists>w. c # t = s @ w) \<or> (\<exists>u w. t = u @ s @ w)"
    by (metis Cons_eq_append_conv append_Cons append_Nil)
  ultimately show ?case using Cons.IH by simp
qed

end
