(* ===== verification/Bb_Resultspec.thy ===== *)
theory Bb_Resultspec
  imports Bb_Values
begin

text \<open>
  \<open>master/buildbot/data/resultspec.py\<close> and the \<open>ListResult\<close> of \<open>data/base.py\<close>: the filters, fields, order and
  page that a client of the data API asks for, and their application to the items of an endpoint, in Python or by
  a database query.
\<close>

section \<open>Items\<close>

text \<open>
  An item of a collection is a dict, an instance of a dataclass with its fields, or something else. Names of
  fields are text; one field name in the program is bytes.
\<close>

datatype field_name = FText pystr | FBytes "byte list"

datatype item =
    Dict "(pystr \<times> val) list"
  | Dataclass "(pystr \<times> val) list"
  | Other

text \<open>
  \<open>_data_getter\<close>. \<open>NotSupportedFieldTypeError\<close> is a \<open>TypeError\<close>, which is also what \<open>getattr\<close> raises for a name
  that is not text.
\<close>

fun data_getter :: "item \<Rightarrow> field_name \<Rightarrow> exn + val" where
  "data_getter (Dict d) (FText f) = (case map_of d f of None \<Rightarrow> Inl KeyError | Some v \<Rightarrow> Inr v)"
| "data_getter (Dict d) (FBytes f) = Inl KeyError"
| "data_getter (Dataclass d) (FText f) = (case map_of d f of None \<Rightarrow> Inl KeyError | Some v \<Rightarrow> Inr v)"
| "data_getter (Dataclass d) (FBytes f) = Inl TypeError"
| "data_getter Other f = Inl TypeError"

section \<open>Filters\<close>

record FieldBase =
  field :: field_name
  op :: pystr
  vals :: "val list"

type_synonym operator = "val \<Rightarrow> val list \<Rightarrow> exn + bool"

definition singular_operators :: "(pystr \<times> operator) list" where
  "singular_operators =
    [(py ''eq'', \<lambda>d v. Inr (py_eq d (v ! 0))),
     (py ''ne'', \<lambda>d v. Inr (\<not> py_eq d (v ! 0))),
     (py ''lt'', \<lambda>d v. py_lt d (v ! 0)),
     (py ''le'', \<lambda>d v. py_le d (v ! 0)),
     (py ''gt'', \<lambda>d v. py_gt d (v ! 0)),
     (py ''ge'', \<lambda>d v. py_ge d (v ! 0)),
     (py ''contains'', \<lambda>d v. py_in (v ! 0) d),
     (py ''in'', \<lambda>d v. Inr (py_member d v)),
     (py ''notin'', \<lambda>d v. Inr (\<not> py_member d v))]"

text \<open>\<open>len(set(v).intersection(set(d))) > 0\<close>.\<close>

definition intersects :: operator where
  "intersects d v = and_then (py_set v) (\<lambda>s. and_then (py_iter d) (\<lambda>ds. and_then (py_set ds) (\<lambda>t.
     Inr (list_ex (\<lambda>x. py_member x t) s))))"

definition plural_operators :: "(pystr \<times> operator) list" where
  "plural_operators =
    [(py ''eq'', \<lambda>d v. Inr (py_member d v)),
     (py ''ne'', \<lambda>d v. Inr (\<not> py_member d v)),
     (py ''contains'', intersects),
     (py ''in'', \<lambda>d v. Inr (py_member d v)),
     (py ''notin'', \<lambda>d v. Inr (\<not> py_member d v))]"

text \<open>\<open>getOperator\<close> for both tables; the set that replaces the values is only looked at for its errors.\<close>

definition look_up :: "pystr \<Rightarrow> (pystr \<times> 'o) list \<Rightarrow> exn + 'o" where
  "look_up name ops = (case map_of ops name of None \<Rightarrow> Inl KeyError | Some f \<Rightarrow> Inr f)"

definition getOperator :: "(pystr \<times> 'o) list \<Rightarrow> (pystr \<times> 'o) list \<Rightarrow> FieldBase \<Rightarrow> exn + 'o" where
  "getOperator singular plural f =
     (if length (vals f) = 1 then look_up (op f) singular
      else and_then (py_set (vals f)) (\<lambda>_. look_up (op f) plural))"

text \<open>
  \<open>FieldBase.apply\<close> looks the operator up at once and tests an item when the generator reaches it: what it
  returns is that test.
\<close>

definition apply_field :: "FieldBase \<Rightarrow> exn + (item \<Rightarrow> exn + bool)" where
  "apply_field f = and_then (getOperator singular_operators plural_operators f)
     (\<lambda>g. Inr (\<lambda>d. and_then (data_getter d (field f)) (\<lambda>x. g x (vals f))))"

section \<open>Sort keys\<close>

datatype comparator = NoneComparator val | ReverseComparator comparator

definition none_lt :: "val \<Rightarrow> val \<Rightarrow> exn + bool" where
  "none_lt value other =
     (if value = VNone \<and> other = VNone then Inr False
      else if value = VNone then Inr True
      else if other = VNone then Inr False
      else py_lt value other)"

text \<open>\<open>__lt__\<close> and \<open>__eq__\<close>. Comparators of different kinds never meet: the order gives each place its kind.\<close>

function (sequential) cmp_lt :: "comparator \<Rightarrow> comparator \<Rightarrow> exn + bool" where
  "cmp_lt (NoneComparator a) (NoneComparator b) = none_lt a b"
| "cmp_lt (ReverseComparator a) (ReverseComparator b) = cmp_lt b a"
| "cmp_lt _ _ = Inl TypeError"
  by pat_completeness auto

termination cmp_lt
  by (relation "measure (\<lambda>(a, b). size a + size b)") auto

function (sequential) cmp_eq :: "comparator \<Rightarrow> comparator \<Rightarrow> bool" where
  "cmp_eq (NoneComparator a) (NoneComparator b) = py_eq a b"
| "cmp_eq (ReverseComparator a) (ReverseComparator b) = cmp_eq b a"
| "cmp_eq _ _ = False"
  by pat_completeness auto

termination cmp_eq
  by (relation "measure (\<lambda>(a, b). size a + size b)") auto

text \<open>The keys are lists; Python compares them at the first place where they differ.\<close>

fun key_lt :: "comparator list \<Rightarrow> comparator list \<Rightarrow> exn + bool" where
  "key_lt xs [] = Inr False"
| "key_lt [] (y # ys) = Inr True"
| "key_lt (x # xs) (y # ys) = (if cmp_eq x y then key_lt xs ys else cmp_lt x y)"

text \<open>\<open>keyFunc\<close>: a leading \<open>-\<close> reverses the order of a field.\<close>

definition key_part :: "item \<Rightarrow> pystr \<Rightarrow> exn + comparator" where
  "key_part elem k = (case k of
     [] \<Rightarrow> Inl IndexError
   | c # rest \<Rightarrow>
       if c = of_char CHR ''-''
       then and_then (data_getter elem (FText rest)) (\<lambda>v. Inr (ReverseComparator (NoneComparator v)))
       else and_then (data_getter elem (FText k)) (\<lambda>v. Inr (NoneComparator v)))"

definition keyFunc :: "pystr list \<Rightarrow> item \<Rightarrow> exn + comparator list" where
  "keyFunc order elem = all_results (key_part elem) order"

text \<open>
  \<open>list.sort(key=...)\<close>: stable, by \<open><\<close> alone. A sort has compared all neighbours of its result, so it comes to a
  pair that cannot be compared just if there is one.
\<close>

primrec all_comparable :: "('k \<Rightarrow> 'k \<Rightarrow> exn + bool) \<Rightarrow> 'k list \<Rightarrow> bool" where
  "all_comparable lt [] = True"
| "all_comparable lt (k # ks) =
     (list_all (\<lambda>l. \<not> isl (lt k l) \<and> \<not> isl (lt l k)) ks \<and> all_comparable lt ks)"

primrec insert_stable :: "('k \<Rightarrow> 'k \<Rightarrow> exn + bool) \<Rightarrow> 'k \<times> 'a \<Rightarrow> ('k \<times> 'a) list \<Rightarrow> ('k \<times> 'a) list" where
  "insert_stable lt x [] = [x]"
| "insert_stable lt x (y # ys) =
     (if lt (fst y) (fst x) = Inr True then y # insert_stable lt x ys else x # y # ys)"

definition sort_with_keys :: "('k \<Rightarrow> 'k \<Rightarrow> exn + bool) \<Rightarrow> 'k list \<Rightarrow> 'a list \<Rightarrow> exn + 'a list" where
  "sort_with_keys lt keys xs =
     (if all_comparable lt keys then Inr (map snd (foldr (insert_stable lt) (zip keys xs) []))
      else Inl TypeError)"

definition sort_items :: "pystr list \<Rightarrow> item list \<Rightarrow> exn + item list" where
  "sort_items order data = and_then (all_results (keyFunc order) data) (\<lambda>keys. sort_with_keys key_lt keys data)"

section \<open>Result specifications\<close>

record ResultSpec =
  filters :: "FieldBase list"
  properties :: "FieldBase list"
  sel_fields :: "pystr list option"
  order :: "pystr list option"
  limit :: "int option"
  offset :: "int option"
  fieldMapping :: "(pystr \<times> pystr) list"

definition new_ResultSpec ::
  "FieldBase list option \<Rightarrow> pystr list option \<Rightarrow> FieldBase list option \<Rightarrow> pystr list option \<Rightarrow>
   int option \<Rightarrow> int option \<Rightarrow> ResultSpec" where
  "new_ResultSpec fs flds props ord lim off =
     \<lparr>filters = (case fs of None \<Rightarrow> [] | Some l \<Rightarrow> l), properties = (case props of None \<Rightarrow> [] | Some l \<Rightarrow> l),
      sel_fields = flds, order = ord, limit = lim, offset = off, fieldMapping = []\<rparr>"

text \<open>
  The removing accessors return what they found and the rest. \<open>list.remove\<close> removes the first equal element, which
  is the one the loop has reached: an earlier one would have been found first.
\<close>

fun take_out :: "('a \<Rightarrow> bool) \<Rightarrow> 'a list \<Rightarrow> ('a \<times> 'a list) option" where
  "take_out P [] = None"
| "take_out P (x # xs) =
     (if P x then Some (x, xs) else map_option (\<lambda>(y, ys). (y, x # ys)) (take_out P xs))"

definition popProperties :: "(ResultSpec, val list) prog" where
  "popProperties = bnd (gets properties) (\<lambda>ps.
     case take_out (\<lambda>p. field p = FBytes (map of_nat (py ''property'')) \<and> op p = py ''eq'') ps of
       None \<Rightarrow> ret []
     | Some (p, rest) \<Rightarrow> sq (modify (\<lambda>s. s\<lparr>properties := rest\<rparr>)) (ret (vals p)))"

definition popFilter :: "field_name \<Rightarrow> pystr \<Rightarrow> (ResultSpec, val list option) prog" where
  "popFilter fld operator = bnd (gets filters) (\<lambda>fs.
     case take_out (\<lambda>f. field f = fld \<and> op f = operator) fs of
       None \<Rightarrow> ret None
     | Some (f, rest) \<Rightarrow> sq (modify (\<lambda>s. s\<lparr>filters := rest\<rparr>)) (ret (Some (vals f))))"

definition popOneFilter :: "field_name \<Rightarrow> pystr \<Rightarrow> (ResultSpec, val) prog" where
  "popOneFilter fld operator = bnd (popFilter fld operator) (\<lambda>v. case v of
     None \<Rightarrow> ret VNone
   | Some [] \<Rightarrow> raise IndexError
   | Some (x # _) \<Rightarrow> ret x)"

definition only_one :: "val list option \<Rightarrow> val option" where
  "only_one v = (case v of Some [x] \<Rightarrow> Some x | _ \<Rightarrow> None)"

definition popBooleanFilter :: "field_name \<Rightarrow> (ResultSpec, val) prog" where
  "popBooleanFilter fld = bnd (popFilter fld (py ''eq'')) (\<lambda>eqVals. case only_one eqVals of
     Some x \<Rightarrow> ret x
   | None \<Rightarrow> bnd (popFilter fld (py ''ne'')) (\<lambda>neVals. case only_one neVals of
       Some x \<Rightarrow> ret (VBool (\<not> truthy x))
     | None \<Rightarrow> ret VNone))"

definition popStringFilter :: "field_name \<Rightarrow> (ResultSpec, val) prog" where
  "popStringFilter fld = bnd (popFilter fld (py ''eq'')) (\<lambda>eqVals. case only_one eqVals of
     Some x \<Rightarrow> ret x
   | None \<Rightarrow> ret VNone)"

text \<open>\<open>int(v)\<close>.\<close>

fun int_of_val :: "val \<Rightarrow> exn + int" where
  "int_of_val (VInt i) = Inr i"
| "int_of_val (VBool b) = Inr (of_bool b)"
| "int_of_val (VStr s) = (case py_int white_text s of None \<Rightarrow> Inl ValueError | Some i \<Rightarrow> Inr i)"
| "int_of_val (VBytes s) = (case py_int white_ascii (map unat s) of None \<Rightarrow> Inl ValueError | Some i \<Rightarrow> Inr i)"
| "int_of_val _ = Inl TypeError"

definition popIntegerFilter :: "field_name \<Rightarrow> (ResultSpec, val) prog" where
  "popIntegerFilter fld = bnd (popFilter fld (py ''eq'')) (\<lambda>eqVals. case only_one eqVals of
     Some x \<Rightarrow> bnd (of_result (int_of_val x)) (\<lambda>i. ret (VInt i))
   | None \<Rightarrow> ret VNone)"

definition removePagination :: "(ResultSpec, unit) prog" where
  "removePagination = modify (\<lambda>s. s\<lparr>limit := None, offset := None\<rparr>)"

definition removeOrder :: "(ResultSpec, unit) prog" where
  "removeOrder = modify (\<lambda>s. s\<lparr>order := None\<rparr>)"

definition popField :: "pystr \<Rightarrow> (ResultSpec, bool) prog" where
  "popField fld = bnd (gets sel_fields) (\<lambda>flds. case flds of
     None \<Rightarrow> raise AttributeError
   | Some l \<Rightarrow> if fld \<in> set l then sq (modify (\<lambda>s. s\<lparr>sel_fields := Some (remove1 fld l)\<rparr>)) (ret True) else ret False)"

section \<open>Applying a specification in Python\<close>

record 'd ListResult =
  rows :: "'d list"
  row_offset :: "int option"
  row_total :: "int option"
  row_limit :: "int option"

text \<open>What an endpoint returns: nothing, an item, a list or a page of items.\<close>

datatype 'd data = No_data | Details 'd | Items "'d list" | Page "'d ListResult"

text \<open>Iterating over what is a collection.\<close>

fun listed :: "'d data \<Rightarrow> 'd list" where
  "listed (Items ds) = ds"
| "listed (Page r) = rows r"
| "listed _ = []"

definition given :: "'a list option \<Rightarrow> bool" where
  "given x \<longleftrightarrow> x \<noteq> None \<and> x \<noteq> Some []"

definition includeFields :: "pystr list \<Rightarrow> item \<Rightarrow> exn + item" where
  "includeFields flds d = (case d of
     Dict l \<Rightarrow> Inr (Dict (filter (\<lambda>(k, v). k \<in> set flds) l))
   | Dataclass _ \<Rightarrow> Inl TypeError
   | Other \<Rightarrow> Inl TypeError)"

definition applyFields :: "pystr list option \<Rightarrow> item \<Rightarrow> exn + item" where
  "applyFields flds d = (if given flds then includeFields (the flds) d else Inr d)"

text \<open>An item that is neither a dict nor a dataclass is taken for a collection, and cannot be iterated over.\<close>

definition apply_details :: "ResultSpec \<Rightarrow> item \<Rightarrow> exn + item data" where
  "apply_details spec d = (if d = Other
     then (if given (sel_fields spec) \<or> filters spec = [] then Inl TypeError
           else and_then (apply_field (hd (filters spec))) (\<lambda>_. Inl TypeError))
     else and_then (applyFields (sel_fields spec) d) (\<lambda>e. Inr (Details e)))"

text \<open>The chain of generators: an item passes all of it before the next one enters.\<close>

primrec passes :: "(item \<Rightarrow> exn + bool) list \<Rightarrow> item \<Rightarrow> exn + bool" where
  "passes [] d = Inr True"
| "passes (t # ts) d = and_then (t d) (\<lambda>b. if b then passes ts d else Inr False)"

primrec flatten_items :: "pystr list option \<Rightarrow> (item \<Rightarrow> exn + bool) list \<Rightarrow> item list \<Rightarrow> exn + item list" where
  "flatten_items flds ts [] = Inr []"
| "flatten_items flds ts (d # ds) = and_then (applyFields flds d) (\<lambda>e. and_then (passes ts e) (\<lambda>b.
     and_then (flatten_items flds ts ds) (\<lambda>es. Inr (if b then e # es else es))))"

text \<open>\<open>data[start:end]\<close>; negative indexes count from the end.\<close>

definition slice_index :: "nat \<Rightarrow> int \<Rightarrow> nat" where
  "slice_index n i = nat (if i < 0 then max 0 (i + int n) else min i (int n))"

definition py_slice :: "'a list \<Rightarrow> int option \<Rightarrow> int option \<Rightarrow> 'a list" where
  "py_slice xs first end =
     (let a = (case first of None \<Rightarrow> 0 | Some i \<Rightarrow> slice_index (length xs) i);
          b = (case end of None \<Rightarrow> length xs | Some i \<Rightarrow> slice_index (length xs) i)
      in take (b - a) (drop a xs))"

definition or_zero :: "int option \<Rightarrow> int" where
  "or_zero i = (case i of None \<Rightarrow> 0 | Some j \<Rightarrow> j)"

definition paginate :: "ResultSpec \<Rightarrow> 'd ListResult \<Rightarrow> exn + 'd ListResult" where
  "paginate spec r =
     (if offset spec \<noteq> None \<or> limit spec \<noteq> None
      then if row_offset r \<noteq> None \<or> row_limit r \<noteq> None then Inl AssertionError
           else Inr (r\<lparr>rows := py_slice (rows r) (offset spec)
                          (map_option (\<lambda>l. or_zero (offset spec) + l) (limit spec)),
                       row_offset := offset spec, row_limit := limit spec\<rparr>)
      else Inr r)"

definition apply_collection :: "ResultSpec \<Rightarrow> item ListResult \<Rightarrow> exn + item data" where
  "apply_collection spec r =
     and_then (all_results apply_field (filters spec)) (\<lambda>ts.
     and_then (flatten_items (sel_fields spec) ts (rows r)) (\<lambda>kept.
     let total = (case row_total r of None \<Rightarrow> int (length kept) | Some n \<Rightarrow> n) in
     and_then (if given (order spec) then sort_items (the (order spec)) kept else Inr kept) (\<lambda>sorted.
     and_then (paginate spec (r\<lparr>rows := sorted, row_total := Some total\<rparr>)) (\<lambda>page. Inr (Page page)))))"

definition apply_spec :: "ResultSpec \<Rightarrow> item data \<Rightarrow> exn + item data" where
  "apply_spec spec data = (case data of
     No_data \<Rightarrow> Inr No_data
   | Details d \<Rightarrow> apply_details spec d
   | Items ds \<Rightarrow> apply_collection spec \<lparr>rows = ds, row_offset = None, row_total = None, row_limit = None\<rparr>
   | Page r \<Rightarrow>
       if given (sel_fields spec) \<or> given (order spec) \<or> filters spec \<noteq> [] then Inl AssertionError
       else apply_collection spec r)"

text \<open>\<open>OptimisedResultSpec\<close> leaves everything to the endpoint.\<close>

definition apply_optimised :: "ResultSpec \<Rightarrow> item data \<Rightarrow> exn + item data" where
  "apply_optimised spec data = Inr data"

section \<open>Applying a specification in the database\<close>

text \<open>
  A query as the code builds it, and the expressions of its \<open>WHERE\<close> clauses. What a database makes of them is
  not part of the program.
\<close>

datatype sql_expr =
    SqlCompare pystr pystr val
  | SqlContains pystr val
  | SqlIn pystr "val list"
  | SqlNotIn pystr "val list"
  | SqlOr "sql_expr list"

record query =
  inner_columns :: "pystr list"
  wheres :: "sql_expr list"
  order_bys :: "(pystr \<times> bool) list"
  query_offset :: "int option"
  query_limit :: "int option"

definition singular_operators_sql :: "(pystr \<times> (pystr \<Rightarrow> val list \<Rightarrow> sql_expr)) list" where
  "singular_operators_sql =
    map (\<lambda>name. (name, \<lambda>d v. SqlCompare name d (v ! 0)))
      [py ''eq'', py ''ne'', py ''lt'', py ''le'', py ''gt'', py ''ge''] @
    [(py ''contains'', \<lambda>d v. SqlContains d (v ! 0)), (py ''in'', SqlIn), (py ''notin'', SqlNotIn)]"

definition plural_operators_sql :: "(pystr \<times> (pystr \<Rightarrow> val list \<Rightarrow> sql_expr)) list" where
  "plural_operators_sql =
    [(py ''eq'', SqlIn), (py ''ne'', SqlNotIn), (py ''contains'', \<lambda>d vs. SqlOr (map (SqlContains d) vs)),
     (py ''in'', SqlIn), (py ''notin'', SqlNotIn)]"

definition findColumn :: "ResultSpec \<Rightarrow> query \<Rightarrow> field_name \<Rightarrow> exn + pystr" where
  "findColumn spec q fld = (case fld of
     FBytes _ \<Rightarrow> Inl KeyError
   | FText f \<Rightarrow> (case map_of (fieldMapping spec) f of
         None \<Rightarrow> Inl KeyError
       | Some mapped \<Rightarrow> if mapped \<in> set (inner_columns q) then Inr mapped else Inl KeyError))"

definition applyFilterToSQLQuery :: "ResultSpec \<Rightarrow> query \<Rightarrow> FieldBase \<Rightarrow> exn + query" where
  "applyFilterToSQLQuery spec q f = and_then (findColumn spec q (field f)) (\<lambda>col.
     and_then (getOperator singular_operators_sql plural_operators_sql f) (\<lambda>g.
       Inr (q\<lparr>wheres := wheres q @ [g col (vals f)]\<rparr>)))"

definition direction :: "pystr \<Rightarrow> bool \<times> pystr" where
  "direction ord = (case ord of [] \<Rightarrow> (False, [])
     | c # rest \<Rightarrow> if c = of_char CHR ''-'' then (True, rest) else (False, ord))"

definition applyOrderToSQLQuery :: "ResultSpec \<Rightarrow> query \<Rightarrow> pystr \<Rightarrow> exn + query" where
  "applyOrderToSQLQuery spec q ord = (case direction ord of (backwards, f) \<Rightarrow>
     and_then (findColumn spec q (FText f)) (\<lambda>col. Inr (q\<lparr>order_bys := order_bys q @ [(col, backwards)]\<rparr>)))"

text \<open>
  The loops over filters and order: a \<open>KeyError\<close> leaves the element for Python, any other exception ends the loop.
\<close>

fun push_down :: "(query \<Rightarrow> 'a \<Rightarrow> exn + query) \<Rightarrow> 'a list \<Rightarrow> query \<Rightarrow> exn + query \<times> 'a list" where
  "push_down f [] q = Inr (q, [])"
| "push_down f (x # xs) q = (case f q x of
     Inr r \<Rightarrow> push_down f xs r
   | Inl e \<Rightarrow> if e = KeyError then and_then (push_down f xs q) (\<lambda>(r, rest). Inr (r, x # rest)) else Inl e)"

text \<open>\<open>applyToSQLQuery\<close> returns the query and, if the page is left to the database, the query it counts.\<close>

definition applyToSQLQuery :: "query \<Rightarrow> (ResultSpec, query \<times> query option) prog" where
  "applyToSQLQuery q = bnd (gets (\<lambda>s. s)) (\<lambda>spec.
     bnd (of_result (push_down (applyFilterToSQLQuery spec) (filters spec) q)) (\<lambda>(q1, unmatched_filters).
     bnd (of_result (if given (order spec) then push_down (applyOrderToSQLQuery spec) (the (order spec)) q1
                     else Inr (q1, []))) (\<lambda>(q2, unmatched_order).
     if unmatched_filters \<noteq> [] \<or> unmatched_order \<noteq> []
     then sq (modify (\<lambda>s. s\<lparr>filters := unmatched_filters, order := Some unmatched_order\<rparr>)) (ret (q2, None))
     else sq (modify (\<lambda>s. s\<lparr>filters := [], order := None, offset := None, limit := None\<rparr>))
            (ret (q2\<lparr>query_offset := (if offset spec \<noteq> None then offset spec else query_offset q2),
                     query_limit := (if limit spec \<noteq> None then limit spec else query_limit q2)\<rparr>, Some q2)))))"

text \<open>
  \<open>thd_execute\<close>. What the database returns for a query, how many rows it counts, and how a row becomes an item,
  are given. A page is returned if there was an offset or a limit other than 0.
\<close>

definition thd_execute ::
  "(query \<Rightarrow> 'r list) \<Rightarrow> (query \<Rightarrow> int) \<Rightarrow> ('r \<Rightarrow> 'd) \<Rightarrow> query \<Rightarrow> (ResultSpec, 'd data) prog" where
  "thd_execute execute count_of dictFromRow q =
     bnd (gets offset) (\<lambda>off. bnd (gets limit) (\<lambda>lim.
     bnd (applyToSQLQuery q) (\<lambda>(q', qc).
     let rv = map dictFromRow (execute q') in
     case qc of
       None \<Rightarrow> ret (Items rv)
     | Some c \<Rightarrow>
         if or_zero off \<noteq> 0 \<or> or_zero lim \<noteq> 0
         then ret (Page \<lparr>rows = rv, row_offset = off, row_total = Some (count_of c), row_limit = lim\<rparr>)
         else ret (Items rv))))"

end
