(* ===== verification/Bb_Resultspec_Facts.thy ===== *)
theory Bb_Resultspec_Facts
  imports Bb_Resultspec
begin

text \<open>
  What result specifications do: the sort keys are linearly ordered, sorting is the stable sort by that order, and
  applying a specification to a collection selects, filters, sorts and slices it.
\<close>

section \<open>Sort keys as ordered values\<close>

text \<open>A place of a sort key: ascending or descending in the value of a field.\<close>

datatype skey = Asc val | Desc val

instantiation skey :: linorder
begin

fun less_eq_skey :: "skey \<Rightarrow> skey \<Rightarrow> bool" where
  "less_eq_skey (Asc v) (Asc w) = (v \<le> w)"
| "less_eq_skey (Desc v) (Desc w) = (w \<le> v)"
| "less_eq_skey (Asc v) (Desc w) = True"
| "less_eq_skey (Desc v) (Asc w) = False"

definition less_skey_def: "(k :: skey) < l \<longleftrightarrow> k \<le> l \<and> \<not> l \<le> k"

instance
proof
  fix k l m :: skey
  show "k < l \<longleftrightarrow> k \<le> l \<and> \<not> l \<le> k" by (rule less_skey_def)
  show "k \<le> k" by (cases k) simp_all
  show "k \<le> l \<Longrightarrow> l \<le> m \<Longrightarrow> k \<le> m" by (cases k; cases l; cases m) auto
  show "k \<le> l \<Longrightarrow> l \<le> k \<Longrightarrow> k = l" by (cases k; cases l) auto
  show "k \<le> l \<or> l \<le> k" by (cases k; cases l) auto
qed

end

lemma skey_less [simp]: "Asc v < Asc w \<longleftrightarrow> v < w" "Desc v < Desc w \<longleftrightarrow> w < v"
  by (auto simp: less_skey_def)

fun okey :: "comparator \<Rightarrow> skey" where
  "okey (NoneComparator v) = Asc (norm v)"
| "okey (ReverseComparator (NoneComparator v)) = Desc (norm v)"
| "okey (ReverseComparator (ReverseComparator c)) = okey c"

text \<open>The comparators that \<open>keyFunc\<close> makes, and whether two of them belong to the same place.\<close>

fun proper :: "comparator \<Rightarrow> bool" where
  "proper (NoneComparator v) = True"
| "proper (ReverseComparator (NoneComparator v)) = True"
| "proper _ = False"

fun backward :: "comparator \<Rightarrow> bool" where
  "backward (NoneComparator v) = False"
| "backward (ReverseComparator c) = True"

definition alike :: "comparator \<Rightarrow> comparator \<Rightarrow> bool" where
  "alike c d \<longleftrightarrow> proper c \<and> proper d \<and> backward c = backward d"

lemma VNone_least [simp]: "VNone \<le> v" "\<not> v < VNone" "VNone < v \<longleftrightarrow> v \<noteq> VNone"
  by (simp_all add: less_eq_val_def val_less) auto

lemma norm_VNone [simp]: "norm v = VNone \<longleftrightarrow> v = VNone"
  by (cases v) simp_all

lemma none_lt_norm: "none_lt v w = Inr b \<Longrightarrow> b \<longleftrightarrow> norm v < norm w"
  by (auto simp: none_lt_def dest: py_lt_norm split: if_splits)

lemma none_lt_raises_sym: "isl (none_lt v w) \<longleftrightarrow> isl (none_lt w v)"
  using py_lt_raises_sym [of v w] py_lt_error [of v w] py_lt_error [of w v]
  by (cases "py_lt v w"; cases "py_lt w v") (auto simp: none_lt_def)

lemma proper_cases:
  assumes "alike c d"
  obtains v w where "c = NoneComparator v" "d = NoneComparator w"
  | v w where "c = ReverseComparator (NoneComparator v)" "d = ReverseComparator (NoneComparator w)"
  using assms by (cases c rule: proper.cases; cases d rule: proper.cases) (auto simp: alike_def)

lemma cmp_eq_okey: "alike c d \<Longrightarrow> cmp_eq c d \<longleftrightarrow> okey c = okey d"
  by (erule proper_cases) (auto simp: py_eq_norm)

lemma cmp_lt_okey: "alike c d \<Longrightarrow> cmp_lt c d = Inr b \<Longrightarrow> b \<longleftrightarrow> okey c < okey d"
  by (erule proper_cases) (auto dest: none_lt_norm)

lemma key_lt_okey:
  "list_all2 alike xs ys \<Longrightarrow> key_lt xs ys = Inr b \<Longrightarrow> b \<longleftrightarrow> map okey xs < map okey ys"
  by (induction xs ys rule: list_all2_induct) (auto simp: cmp_eq_okey dest: cmp_lt_okey split: if_splits)

lemma cmp_raises_sym: "alike c d \<Longrightarrow> isl (cmp_lt c d) \<longleftrightarrow> isl (cmp_lt d c)"
  by (erule proper_cases) (auto intro: none_lt_raises_sym [THEN iffD1])

section \<open>Sorting\<close>

lemma insert_stable_is_insort:
  assumes "\<forall>y\<in>set ys. lt (fst y) (fst x) = Inr (f (snd y) < f (snd x))"
  shows "map snd (insert_stable lt x ys) = insort_key f (snd x) (map snd ys)"
  using assms by (induction ys) (auto simp: not_less)

lemma set_insert_stable: "set (insert_stable lt x ys) = insert x (set ys)"
  by (induction ys) auto

lemma set_foldr_insert: "set (foldr (insert_stable lt) xs []) = set xs"
  by (induction xs) (simp_all add: set_insert_stable)

lemma foldr_insert_is_sort:
  assumes "\<forall>x\<in>set xs. \<forall>y\<in>set xs. lt (fst y) (fst x) = Inr (f (snd y) < f (snd x))"
  shows "map snd (foldr (insert_stable lt) xs []) = sort_key f (map snd xs)"
  using assms
proof (induction xs)
  case (Cons x xs)
  then have "map snd (foldr (insert_stable lt) xs []) = sort_key f (map snd xs)" by simp
  moreover have "\<forall>y\<in>set (foldr (insert_stable lt) xs []). lt (fst y) (fst x) = Inr (f (snd y) < f (snd x))"
    using Cons.prems by (simp add: set_foldr_insert)
  then have "map snd (insert_stable lt x (foldr (insert_stable lt) xs [])) =
      insort_key f (snd x) (map snd (foldr (insert_stable lt) xs []))"
    by (rule insert_stable_is_insort)
  ultimately show ?case by simp
qed simp

lemma all_comparable_pair:
  "all_comparable lt ks \<Longrightarrow> (\<And>k. k \<in> set ks \<Longrightarrow> \<not> isl (lt k k)) \<Longrightarrow> k \<in> set ks \<Longrightarrow> l \<in> set ks \<Longrightarrow> \<not> isl (lt k l)"
  by (induction ks) (auto simp: list_all_iff)

text \<open>The sort key of an item, as the specification describes it.\<close>

definition field_value :: "item \<Rightarrow> pystr \<Rightarrow> val" where
  "field_value d f = projr (data_getter d (FText f))"

definition sort_place :: "item \<Rightarrow> pystr \<Rightarrow> skey" where
  "sort_place d k = (case direction k of (backwards, f) \<Rightarrow>
     (if backwards then Desc else Asc) (norm (field_value d f)))"

definition sort_places :: "pystr list \<Rightarrow> item \<Rightarrow> skey list" where
  "sort_places ord d = map (sort_place d) ord"

lemma key_part_place:
  "key_part d k = Inr c \<Longrightarrow> okey c = sort_place d k \<and> proper c \<and> backward c = fst (direction k)"
  by (auto simp: key_part_def sort_place_def direction_def field_value_def and_then_Inr split: list.splits if_splits)

lemma keyFunc_places:
  assumes "keyFunc ord d = Inr key"
  shows "map okey key = sort_places ord d" and "list_all2 (\<lambda>k c. proper c \<and> backward c = fst (direction k)) ord key"
  using assms unfolding keyFunc_def all_results_Inr sort_places_def
  by (induction rule: list_all2_induct) (auto dest: key_part_place)

lemma keyFunc_alike:
  assumes "keyFunc ord d = Inr key" and "keyFunc ord e = Inr other"
  shows "list_all2 alike key other"
  using keyFunc_places(2) [OF assms(1)] keyFunc_places(2) [OF assms(2)]
  by (auto simp: list_all2_conv_all_nth alike_def)

lemma key_lt_irrefl: "list_all2 alike xs xs \<Longrightarrow> key_lt xs xs = Inr False"
  by (induction xs) (auto simp: cmp_eq_okey)

lemma sort_items_sorts:
  assumes "sort_items ord ds = Inr es"
  shows "es = sort_key (sort_places ord) ds"
proof -
  from assms obtain keys where keys: "list_all2 (\<lambda>d k. keyFunc ord d = Inr k) ds keys"
      and sort: "sort_with_keys key_lt keys ds = Inr es"
    by (auto simp: sort_items_def and_then_Inr all_results_Inr)
  let ?xs = "zip keys ds"
  have pair: "keyFunc ord (snd x) = Inr (fst x)" if "x \<in> set ?xs" for x
    using that keys by (auto simp: list_all2_conv_all_nth set_zip)
  from sort have comparable: "all_comparable key_lt keys" and es: "es = map snd (foldr (insert_stable key_lt) ?xs [])"
    by (auto simp: sort_with_keys_def split: if_splits)
  have "key_lt (fst y) (fst x) = Inr (sort_places ord (snd y) < sort_places ord (snd x))"
    if "x \<in> set ?xs" "y \<in> set ?xs" for x y
  proof -
    note kx = pair [OF that(1)] and ky = pair [OF that(2)]
    from that have "fst x \<in> set keys" "fst y \<in> set keys"
      by (metis prod.collapse set_zip_leftD)+
    moreover have "\<not> isl (key_lt k k)" if "k \<in> set keys" for k
    proof -
      from that keys obtain d where "keyFunc ord d = Inr k"
        by (auto simp: list_all2_conv_all_nth in_set_conv_nth)
      from key_lt_irrefl [OF keyFunc_alike [OF this this]] show ?thesis by simp
    qed
    ultimately have "\<not> isl (key_lt (fst y) (fst x))"
      using all_comparable_pair [OF comparable] by blast
    then obtain b where b: "key_lt (fst y) (fst x) = Inr b" by (cases "key_lt (fst y) (fst x)") auto
    with key_lt_okey [OF keyFunc_alike [OF ky kx] b] keyFunc_places(1) [OF kx] keyFunc_places(1) [OF ky]
    show ?thesis by simp
  qed
  then have "map snd (foldr (insert_stable key_lt) ?xs []) = sort_key (sort_places ord) (map snd ?xs)"
    by (intro foldr_insert_is_sort) blast
  moreover have "map snd ?xs = ds" using keys by (simp add: list_all2_lengthD)
  ultimately show ?thesis using es by simp
qed

section \<open>Filters\<close>

text \<open>
  What a filter asks of the value of its field, as \<open>developer/rest.rst\<close> has it, stated on normalised values: a
  text or a list contains at least one of the values, a text as a part of it.
\<close>

definition holds_part :: "val list \<Rightarrow> val \<Rightarrow> bool" where
  "holds_part vs x = (\<exists>v\<in>set vs. case x of
     VList us \<Rightarrow> norm v \<in> norm ` set us
   | VStr t \<Rightarrow> (\<exists>s u w. v = VStr s \<and> t = u @ s @ w)
   | VBytes t \<Rightarrow> (\<exists>s u w. v = VBytes s \<and> t = u @ s @ w) \<or> (\<exists>b\<in>set t. norm v = VInt (uint b))
   | _ \<Rightarrow> False)"

definition accepts :: "pystr \<Rightarrow> val list \<Rightarrow> val \<Rightarrow> bool" where
  "accepts name vs x =
     (if name \<in> {py ''eq'', py ''in''} then norm x \<in> norm ` set vs
      else if name \<in> {py ''ne'', py ''notin''} then norm x \<notin> norm ` set vs
      else if name = py ''lt'' then norm x < norm (hd vs)
      else if name = py ''le'' then norm x \<le> norm (hd vs)
      else if name = py ''gt'' then norm x > norm (hd vs)
      else if name = py ''ge'' then norm x \<ge> norm (hd vs)
      else holds_part vs x)"

definition satisfies :: "FieldBase \<Rightarrow> item \<Rightarrow> bool" where
  "satisfies f d \<longleftrightarrow> accepts (op f) (vals f) (projr (data_getter d (field f)))"

text \<open>
  A filter for which the code does this. If it asks whether a text contains one of several values, the code looks for
  values that are single characters of the text (\<open>several_parts_are_characters\<close>).
\<close>

definition is_text :: "val \<Rightarrow> bool" where
  "is_text x \<longleftrightarrow> (case x of VStr _ \<Rightarrow> True | VBytes _ \<Rightarrow> True | _ \<Rightarrow> False)"

definition no_text_parts :: "FieldBase \<Rightarrow> item \<Rightarrow> bool" where
  "no_text_parts f d \<longleftrightarrow>
     (op f = py ''contains'' \<and> 1 < length (vals f) \<longrightarrow> \<not> is_text (projr (data_getter d (field f))))"

lemma map_of_cases:
  "map_of ((k, x) # xs) n = Some g \<longleftrightarrow> n = k \<and> g = x \<or> n \<noteq> k \<and> map_of xs n = Some g"
  by auto

lemma py_in_part: "py_in v x = Inr b \<Longrightarrow> b = holds_part [v] x"
  by (cases x; cases v) (auto simp: holds_part_def py_member_norm substring_append split: if_splits)

lemma intersects_part:
  assumes "intersects x vs = Inr b" and "is_text x \<longrightarrow> vs = []"
  shows "b = holds_part vs x"
proof -
  from assms(1) obtain us where us: "py_iter x = Inr us" "b = list_ex (\<lambda>v. py_member v us) vs"
    by (auto simp: intersects_def and_then_Inr py_set_def split: if_splits)
  then show ?thesis
    using assms(2) by (cases x) (auto simp: holds_part_def is_text_def list_ex_iff py_member_norm)
qed

lemma singular_accepts:
  assumes "look_up name singular_operators = Inr g" and "g x [v] = Inr b"
  shows "b = accepts name [v] x"
proof -
  have "map_of singular_operators name = Some g"
    using assms(1) by (auto simp: look_up_def split: option.splits)
  then show ?thesis using assms(2) py_lt_norm [of x v b] py_lt_norm [of v x b] py_le_norm [of x v b]
      py_le_norm [of v x b] py_in_part [of v x b]
    unfolding singular_operators_def map_of_cases
    by (elim disjE conjE) (simp_all add: accepts_def py_eq_norm py_gt_def py_ge_def py_member_norm)
qed

lemma plural_accepts:
  assumes "look_up name plural_operators = Inr g" and "g x vs = Inr b"
    and "name = py ''contains'' \<longrightarrow> is_text x \<longrightarrow> vs = []"
  shows "b = accepts name vs x"
proof -
  have "map_of plural_operators name = Some g"
    using assms(1) by (auto simp: look_up_def split: option.splits)
  then show ?thesis using assms(2,3) intersects_part [of x vs b]
    unfolding plural_operators_def map_of_cases
    by (elim disjE conjE) (simp_all add: accepts_def py_member_norm)
qed

lemma apply_field_satisfies:
  assumes "apply_field f = Inr t" and "t d = Inr b" and "no_text_parts f d"
  shows "b = satisfies f d"
proof -
  from assms obtain g x where g: "getOperator singular_operators plural_operators f = Inr g"
      and x: "data_getter d (field f) = Inr x" and b: "g x (vals f) = Inr b"
    by (auto simp: apply_field_def and_then_Inr)
  have "b = accepts (op f) (vals f) x"
  proof (cases "length (vals f) = 1")
    case True
    then obtain v where v: "vals f = [v]" by (cases "vals f") auto
    with g have "look_up (op f) singular_operators = Inr g" by (simp add: getOperator_def)
    from singular_accepts [OF this] b v show ?thesis by simp
  next
    case False
    with g have "look_up (op f) plural_operators = Inr g" by (auto simp: getOperator_def and_then_Inr)
    moreover have "op f = py ''contains'' \<longrightarrow> is_text x \<longrightarrow> vals f = []"
      using assms(3) x False by (cases "vals f"; cases "tl (vals f)") (auto simp: no_text_parts_def)
    ultimately show ?thesis using plural_accepts b by blast
  qed
  with x show ?thesis by (simp add: satisfies_def)
qed

lemma passes_satisfies:
  assumes "list_all2 (\<lambda>f t. apply_field f = Inr t) fs ts" and "passes ts d = Inr b"
    and "\<forall>f\<in>set fs. no_text_parts f d"
  shows "b \<longleftrightarrow> (\<forall>f\<in>set fs. satisfies f d)"
  using assms
  by (induction arbitrary: b rule: list_all2_induct)
    (auto simp: and_then_Inr dest: apply_field_satisfies split: if_splits)

section \<open>Collections\<close>

definition selected :: "pystr list option \<Rightarrow> item \<Rightarrow> item" where
  "selected flds d = (case d of
     Dict l \<Rightarrow> if given flds then Dict (filter (\<lambda>(k, v). k \<in> set (the flds)) l) else d
   | _ \<Rightarrow> d)"

lemma applyFields_selected: "applyFields flds d = Inr e \<Longrightarrow> e = selected flds d"
  by (cases d) (auto simp: applyFields_def includeFields_def selected_def split: if_splits)

lemma flatten_items_kept:
  assumes "list_all2 (\<lambda>f t. apply_field f = Inr t) fs ts" and "flatten_items flds ts ds = Inr es"
    and "\<forall>d\<in>set ds. \<forall>f\<in>set fs. no_text_parts f (selected flds d)"
  shows "es = filter (\<lambda>d. \<forall>f\<in>set fs. satisfies f d) (map (selected flds) ds)"
  using assms(2,3)
proof (induction ds arbitrary: es)
  case (Cons d ds)
  from Cons.prems(1) obtain e b es' where e: "applyFields flds d = Inr e" "passes ts e = Inr b"
      "flatten_items flds ts ds = Inr es'" "es = (if b then e # es' else es')"
    by (auto simp: and_then_Inr)
  then have "e = selected flds d" using applyFields_selected [of flds d e] by simp
  with passes_satisfies [OF assms(1) e(2)] Cons.prems(2) Cons.IH [OF e(3)] e(4) show ?case by simp
qed simp

lemma flatten_items_subset: "flatten_items flds ts ds = Inr es \<Longrightarrow> set es \<subseteq> selected flds ` set ds"
  by (induction ds arbitrary: es) (auto simp: and_then_Inr dest!: applyFields_selected split: if_splits)

text \<open>What is left of a collection by the filters, and how it is arranged before it is cut into pages.\<close>

definition left_over :: "ResultSpec \<Rightarrow> item list \<Rightarrow> item list" where
  "left_over spec ds = projr (and_then (all_results apply_field (filters spec))
     (\<lambda>ts. flatten_items (sel_fields spec) ts ds))"

definition arranged :: "ResultSpec \<Rightarrow> item list \<Rightarrow> item list" where
  "arranged spec ds = (if given (order spec) then sort_key (sort_places (the (order spec))) (left_over spec ds)
     else left_over spec ds)"

lemma page_independent [simp]:
  "left_over (spec\<lparr>offset := off, limit := lim\<rparr>) ds = left_over spec ds"
  "arranged (spec\<lparr>offset := off, limit := lim\<rparr>) ds = arranged spec ds"
  by (simp_all add: left_over_def arranged_def)

lemma apply_items:
  assumes "apply_spec spec (Items ds) = Inr r"
  shows "r = Page \<lparr>rows = (if offset spec \<noteq> None \<or> limit spec \<noteq> None
       then py_slice (arranged spec ds) (offset spec) (map_option (\<lambda>l. or_zero (offset spec) + l) (limit spec))
       else arranged spec ds),
     row_offset = offset spec, row_total = Some (int (length (left_over spec ds))), row_limit = limit spec\<rparr>"
proof -
  from assms obtain ts es ss p where ts: "all_results apply_field (filters spec) = Inr ts"
      and es: "flatten_items (sel_fields spec) ts ds = Inr es"
      and ss: "(if given (order spec) then sort_items (the (order spec)) es else Inr es) = Inr ss"
      and p: "paginate spec \<lparr>rows = ss, row_offset = None, row_total = Some (int (length es)), row_limit = None\<rparr> = Inr p"
      and r: "r = Page p"
    by (auto simp: apply_spec_def apply_collection_def and_then_Inr Let_def)
  from ts es have "es = left_over spec ds" by (simp add: left_over_def)
  moreover from ss this have "ss = arranged spec ds"
    by (auto simp: arranged_def dest: sort_items_sorts split: if_splits)
  ultimately show ?thesis using p r by (auto simp: paginate_def split: if_splits)
qed

text \<open>The filters leave what they are documented to.\<close>

definition kept :: "ResultSpec \<Rightarrow> item list \<Rightarrow> item list" where
  "kept spec ds = filter (\<lambda>d. \<forall>f\<in>set (filters spec). satisfies f d) (map (selected (sel_fields spec)) ds)"

lemma left_over_kept:
  assumes "apply_spec spec (Items ds) = Inr r"
    and "\<forall>d\<in>set ds. \<forall>f\<in>set (filters spec). no_text_parts f (selected (sel_fields spec) d)"
  shows "left_over spec ds = kept spec ds"
proof -
  from assms(1) obtain ts es where ts: "all_results apply_field (filters spec) = Inr ts"
      "flatten_items (sel_fields spec) ts ds = Inr es"
    by (auto simp: apply_spec_def apply_collection_def and_then_Inr)
  from ts have "left_over spec ds = es" by (simp add: left_over_def)
  moreover have "es = kept spec ds"
    unfolding kept_def by (rule flatten_items_kept [OF _ ts(2) assms(2)]) (use ts(1) in \<open>simp add: all_results_Inr\<close>)
  ultimately show ?thesis by simp
qed

section \<open>Pages\<close>

lemma py_slice_nonneg:
  assumes "0 \<le> off" and "0 \<le> n"
  shows "py_slice xs (Some off) (Some (off + n)) = take (nat n) (drop (nat off) xs)"
proof -
  have "nat (off + n) - nat off = nat n" using assms by simp
  then show ?thesis using assms by (auto simp: py_slice_def slice_index_def Let_def min_def)
qed

lemma take_drop_pages:
  "concat (map (\<lambda>i. take n (drop (i * n) xs)) [0..<m]) = take (m * n) xs"
proof (induction m)
  case (Suc m)
  then show ?case by (simp add: add.commute [of n] take_add)
qed simp

end
