(* ===== verification/Bb_Resultspec_Sql.thy ===== *)
theory Bb_Resultspec_Sql
  imports Bb_Resultspec_Facts "HOL-Library.Multiset"
begin

text \<open>
  Result specifications on a database: what a database promises for the queries the code builds, and that a
  specification whose filters and order all have columns is answered as Python would answer it.
\<close>

section \<open>What a database promises\<close>

text \<open>
  The truth of an expression on a row. A comparison with \<open>NULL\<close> is never true; SQLAlchemy turns \<open>==\<close> and \<open>!=\<close> with
  \<open>None\<close> into \<open>IS NULL\<close> and \<open>IS NOT NULL\<close>.
\<close>

fun expr_true :: "(pystr \<Rightarrow> val) \<Rightarrow> sql_expr \<Rightarrow> bool" where
  "expr_true row (SqlCompare name c v) =
     (if v = VNone then (if name = py ''eq'' then row c = VNone else name = py ''ne'' \<and> row c \<noteq> VNone)
      else row c \<noteq> VNone \<and> accepts name [v] (row c))"
| "expr_true row (SqlContains c v) = (row c \<noteq> VNone \<and> v \<noteq> VNone \<and> holds_part [v] (row c))"
| "expr_true row (SqlIn c vs) = (row c \<noteq> VNone \<and> accepts (py ''in'') vs (row c))"
| "expr_true row (SqlNotIn c vs) = (vs = [] \<or> row c \<noteq> VNone \<and> VNone \<notin> set vs \<and> accepts (py ''notin'') vs (row c))"
| "expr_true row (SqlOr es) = list_ex (expr_true row) es"

definition order_places :: "(pystr \<times> bool) list \<Rightarrow> (pystr \<Rightarrow> val) \<Rightarrow> skey list" where
  "order_places os row = map (\<lambda>(c, backwards). (if backwards then Desc else Asc) (norm (row c))) os"

definition paged :: "'a list \<Rightarrow> int option \<Rightarrow> int option \<Rightarrow> 'a list" where
  "paged xs off lim = (case lim of None \<Rightarrow> drop (nat (or_zero off)) xs
     | Some n \<Rightarrow> take (nat n) (drop (nat (or_zero off)) xs))"

lemma or_zero_simps [simp]: "or_zero None = 0" "or_zero (Some n) = n"
  by (simp_all add: or_zero_def)

lemma py_slice_paged:
  assumes "0 \<le> or_zero off" and "0 \<le> or_zero lim"
  shows "(if off \<noteq> None \<or> lim \<noteq> None then py_slice xs off (map_option (\<lambda>l. or_zero off + l) lim) else xs) = paged xs off lim"
proof (cases lim)
  case None
  show ?thesis
  proof (cases off)
    case (Some i)
    with assms(1) None show ?thesis
      by (auto simp: py_slice_def slice_index_def paged_def or_zero_def Let_def min_def)
  qed (simp add: None paged_def or_zero_def)
next
  case (Some n)
  have "py_slice xs off (Some (or_zero off + n)) = py_slice xs (Some (or_zero off)) (Some (or_zero off + n))"
    by (cases off) (simp_all add: py_slice_def slice_index_def or_zero_def Let_def)
  with Some assms py_slice_nonneg [of "or_zero off" n xs] show ?thesis by (simp add: paged_def)
qed

definition matching :: "('r \<Rightarrow> pystr \<Rightarrow> val) \<Rightarrow> 'r list \<Rightarrow> query \<Rightarrow> 'r list" where
  "matching column table q = filter (\<lambda>r. \<forall>e\<in>set (wheres q). expr_true (column r) e) table"

text \<open>
  A table with its columns is served: a query returns a part of its matching rows in some arrangement that respects
  the order asked for; the count is that of all matching rows. Where \<open>NULL\<close> is sorted and what a negative limit
  or offset means differs between databases, so nothing is promised for queries that would show it.
\<close>

definition portable :: "'r list \<Rightarrow> ('r \<Rightarrow> pystr \<Rightarrow> val) \<Rightarrow> query \<Rightarrow> bool" where
  "portable table column q \<longleftrightarrow> 0 \<le> or_zero (query_offset q) \<and> 0 \<le> or_zero (query_limit q) \<and>
     (\<forall>(c, backwards)\<in>set (order_bys q). \<forall>r\<in>set table. column r c \<noteq> VNone)"

definition serves :: "(query \<Rightarrow> 'r list) \<Rightarrow> (query \<Rightarrow> int) \<Rightarrow> 'r list \<Rightarrow> ('r \<Rightarrow> pystr \<Rightarrow> val) \<Rightarrow> bool" where
  "serves execute count_of table column \<longleftrightarrow> (\<forall>q. portable table column q \<longrightarrow>
     (\<exists>ys. mset ys = mset (matching column table q) \<and> sorted (map (order_places (order_bys q) \<circ> column) ys) \<and>
        execute q = paged ys (query_offset q) (query_limit q)) \<and>
     (query_offset q = None \<longrightarrow> query_limit q = None \<longrightarrow> count_of q = int (length (matching column table q))))"

lemma servesD:
  assumes "serves execute count_of table column" and "portable table column q"
  shows "\<exists>ys. mset ys = mset (matching column table q) \<and> sorted (map (order_places (order_bys q) \<circ> column) ys) \<and>
      execute q = paged ys (query_offset q) (query_limit q)"
    and "query_offset q = None \<Longrightarrow> query_limit q = None \<Longrightarrow> count_of q = int (length (matching column table q))"
  using assms by (simp_all add: serves_def)

text \<open>One that does: it sorts stably.\<close>

definition answer_query :: "('r \<Rightarrow> pystr \<Rightarrow> val) \<Rightarrow> 'r list \<Rightarrow> query \<Rightarrow> 'r list" where
  "answer_query column table q = paged (sort_key (order_places (order_bys q) \<circ> column) (matching column table q))
     (query_offset q) (query_limit q)"

lemma answer_query_serves: "serves (answer_query column table) (\<lambda>q. int (length (matching column table q))) table column"
  unfolding serves_def answer_query_def
  by (intro allI conjI impI exI [of _ "sort_key _ _"]) simp_all

section \<open>Specifications with columns for everything\<close>

definition plain_query :: "query \<Rightarrow> bool" where
  "plain_query q \<longleftrightarrow> wheres q = [] \<and> order_bys q = [] \<and> query_offset q = None \<and> query_limit q = None"

text \<open>The column of a field of an item, if the mapping knows it, holds the field's value.\<close>

definition columns_fit :: "ResultSpec \<Rightarrow> query \<Rightarrow> ('r \<Rightarrow> item) \<Rightarrow> ('r \<Rightarrow> pystr \<Rightarrow> val) \<Rightarrow> 'r list \<Rightarrow> bool" where
  "columns_fit spec q dictFromRow column table \<longleftrightarrow> (\<forall>f c. map_of (fieldMapping spec) f = Some c \<longrightarrow>
     c \<in> set (inner_columns q) \<and> (\<forall>r\<in>set table. data_getter (dictFromRow r) (FText f) = Inr (column r c)))"

definition column_of :: "ResultSpec \<Rightarrow> pystr \<Rightarrow> pystr" where
  "column_of spec f = the (map_of (fieldMapping spec) f)"

text \<open>
  A filter the database treats as Python does: by a comparison or a list, on a mapped field that is never \<open>NULL\<close>.
\<close>

definition comparisons :: "pystr set" where
  "comparisons = {py ''eq'', py ''ne'', py ''lt'', py ''le'', py ''gt'', py ''ge'', py ''in'', py ''notin''}"

definition plural_comparisons :: "pystr set" where
  "plural_comparisons = {py ''eq'', py ''ne'', py ''in'', py ''notin''}"

definition filter_fits :: "ResultSpec \<Rightarrow> ('r \<Rightarrow> pystr \<Rightarrow> val) \<Rightarrow> 'r list \<Rightarrow> FieldBase \<Rightarrow> bool" where
  "filter_fits spec column table f \<longleftrightarrow> (\<exists>n c. field f = FText n \<and> map_of (fieldMapping spec) n = Some c \<and>
     op f \<in> (if length (vals f) = 1 then comparisons else plural_comparisons) \<and>
     list_all hashable (vals f) \<and> VNone \<notin> set (vals f) \<and> (\<forall>r\<in>set table. column r c \<noteq> VNone))"

definition order_fits :: "ResultSpec \<Rightarrow> pystr list \<Rightarrow> bool" where
  "order_fits spec os \<longleftrightarrow> (\<forall>k\<in>set os. map_of (fieldMapping spec) (snd (direction k)) \<noteq> None)"

definition order_filled :: "ResultSpec \<Rightarrow> ('r \<Rightarrow> pystr \<Rightarrow> val) \<Rightarrow> 'r list \<Rightarrow> pystr list \<Rightarrow> bool" where
  "order_filled spec column table os \<longleftrightarrow> (\<forall>k\<in>set os. \<forall>r\<in>set table. column r (column_of spec (snd (direction k))) \<noteq> VNone)"

text \<open>The expression that is built for a filter.\<close>

definition filter_expr :: "ResultSpec \<Rightarrow> FieldBase \<Rightarrow> sql_expr" where
  "filter_expr spec f = (let c = (case field f of FText n \<Rightarrow> column_of spec n | FBytes _ \<Rightarrow> []) in
     projr (getOperator singular_operators_sql plural_operators_sql f) c (vals f))"

lemma findColumn_fits:
  assumes "columns_fit spec q dictFromRow column table" and "inner_columns q' = inner_columns q"
    and "map_of (fieldMapping spec) n = Some c"
  shows "findColumn spec q' (FText n) = Inr c"
  using assms by (simp add: findColumn_def columns_fit_def)

lemma singular_sql_lookup:
  "name \<in> comparisons \<Longrightarrow> \<exists>g. look_up name singular_operators_sql = Inr g"
  by (auto simp: comparisons_def look_up_def singular_operators_sql_def)

lemma plural_sql_lookup:
  "name \<in> plural_comparisons \<Longrightarrow> \<exists>g. look_up name plural_operators_sql = Inr g"
  by (auto simp: plural_comparisons_def look_up_def plural_operators_sql_def)

lemma filter_fits_operator:
  assumes "filter_fits spec column table f"
  obtains g where "getOperator singular_operators_sql plural_operators_sql f = Inr g"
  using assms singular_sql_lookup [of "op f"] plural_sql_lookup [of "op f"]
  by (auto simp: filter_fits_def getOperator_def py_set_def split: if_splits)

lemma push_filter:
  assumes "columns_fit spec q dictFromRow column table" and "inner_columns q' = inner_columns q"
    and "filter_fits spec column table f"
  shows "applyFilterToSQLQuery spec q' f = Inr (q'\<lparr>wheres := wheres q' @ [filter_expr spec f]\<rparr>)"
proof -
  from assms(3) obtain n c where n: "field f = FText n" "map_of (fieldMapping spec) n = Some c"
    by (auto simp: filter_fits_def)
  obtain g where "getOperator singular_operators_sql plural_operators_sql f = Inr g"
    by (rule filter_fits_operator [OF assms(3)])
  with n findColumn_fits [OF assms(1,2) n(2)] show ?thesis
    by (simp add: applyFilterToSQLQuery_def filter_expr_def column_of_def)
qed

lemma push_filters:
  assumes "columns_fit spec q dictFromRow column table" and "\<forall>f\<in>set fs. filter_fits spec column table f"
    and "inner_columns q' = inner_columns q"
  shows "push_down (applyFilterToSQLQuery spec) fs q' = Inr (q'\<lparr>wheres := wheres q' @ map (filter_expr spec) fs\<rparr>, [])"
  using assms(2,3)
proof (induction fs arbitrary: q')
  case (Cons f fs)
  then show ?case by (simp add: push_filter [OF assms(1)])
qed simp

definition order_column :: "ResultSpec \<Rightarrow> pystr \<Rightarrow> pystr \<times> bool" where
  "order_column spec k = (column_of spec (snd (direction k)), fst (direction k))"

lemma push_orders:
  assumes "columns_fit spec q dictFromRow column table" and "order_fits spec ks"
    and "inner_columns q' = inner_columns q"
  shows "push_down (applyOrderToSQLQuery spec) ks q' = Inr (q'\<lparr>order_bys := order_bys q' @ map (order_column spec) ks\<rparr>, [])"
  using assms(2,3)
proof (induction ks arbitrary: q')
  case (Cons k ks)
  then obtain c where c: "map_of (fieldMapping spec) (snd (direction k)) = Some c"
    by (auto simp: order_fits_def)
  have "applyOrderToSQLQuery spec q' k = Inr (q'\<lparr>order_bys := order_bys q' @ [order_column spec k]\<rparr>)"
    using findColumn_fits [OF assms(1) Cons.prems(2) c] c
    by (cases "direction k") (simp add: applyOrderToSQLQuery_def order_column_def column_of_def)
  with Cons show ?case by (simp add: order_fits_def)
qed simp

text \<open>On rows the expression says what the filter says of the items.\<close>

lemma filter_expr_true:
  assumes "columns_fit spec q dictFromRow column table" and fits: "filter_fits spec column table f" and r: "r \<in> set table"
  shows "expr_true (column r) (filter_expr spec f) \<longleftrightarrow> satisfies f (dictFromRow r)"
proof -
  from fits obtain n c where n: "field f = FText n" "map_of (fieldMapping spec) n = Some c"
      and name: "op f \<in> (if length (vals f) = 1 then comparisons else plural_comparisons)"
      and vs: "list_all hashable (vals f)" "VNone \<notin> set (vals f)" and row: "column r c \<noteq> VNone"
    using r by (auto simp: filter_fits_def)
  from assms(1) n r have get: "data_getter (dictFromRow r) (field f) = Inr (column r c)"
    by (simp add: columns_fit_def)
  have sat: "satisfies f (dictFromRow r) \<longleftrightarrow> accepts (op f) (vals f) (column r c)"
    by (simp add: satisfies_def get)
  have expr: "filter_expr spec f = projr (getOperator singular_operators_sql plural_operators_sql f) c (vals f)"
    by (simp add: filter_expr_def n column_of_def)
  show ?thesis
  proof (cases "length (vals f) = 1")
    case True
    then obtain v where v: "vals f = [v]" by (cases "vals f") auto
    from name v vs row show ?thesis
      unfolding sat expr
      by (auto simp: comparisons_def getOperator_def look_up_def singular_operators_sql_def accepts_def)
  next
    case False
    from name False vs row show ?thesis
      unfolding sat expr
      by (auto simp: plural_comparisons_def getOperator_def look_up_def plural_operators_sql_def accepts_def py_set_def)
  qed
qed

lemma order_places_fit:
  assumes "columns_fit spec q dictFromRow column table" and "order_fits spec ks" and "r \<in> set table"
  shows "order_places (map (order_column spec) ks) (column r) = sort_places ks (dictFromRow r)"
proof -
  have "norm (column r (column_of spec f)) = norm (field_value (dictFromRow r) f)"
    if "map_of (fieldMapping spec) f \<noteq> None" for f
    using that assms(1,3) by (auto simp: columns_fit_def field_value_def column_of_def)
  with assms(2) show ?thesis
    by (auto simp: order_places_def sort_places_def order_column_def sort_place_def order_fits_def split: prod.splits)
qed

section \<open>The database answers as Python does\<close>

text \<open>
  A specification that leaves nothing to Python, orders by columns without \<open>NULL\<close> and asks for no negative part, and
  what the query becomes.
\<close>

definition pushable :: "ResultSpec \<Rightarrow> query \<Rightarrow> ('r \<Rightarrow> item) \<Rightarrow> ('r \<Rightarrow> pystr \<Rightarrow> val) \<Rightarrow> 'r list \<Rightarrow> bool" where
  "pushable spec q dictFromRow column table \<longleftrightarrow> plain_query q \<and> columns_fit spec q dictFromRow column table \<and>
     (\<forall>f\<in>set (filters spec). filter_fits spec column table f) \<and>
     (given (order spec) \<longrightarrow> order_fits spec (the (order spec)) \<and> order_filled spec column table (the (order spec))) \<and>
     0 \<le> or_zero (offset spec) \<and> 0 \<le> or_zero (limit spec)"

definition pushed :: "ResultSpec \<Rightarrow> query \<Rightarrow> query" where
  "pushed spec q = q\<lparr>wheres := map (filter_expr spec) (filters spec),
     order_bys := (if given (order spec) then map (order_column spec) (the (order spec)) else [])\<rparr>"

lemma applyToSQLQuery_pushes:
  assumes "pushable spec q dictFromRow column table"
  shows "applyToSQLQuery q spec =
    (Inr ((pushed spec q)\<lparr>query_offset := offset spec, query_limit := limit spec\<rparr>, Some (pushed spec q)),
     spec\<lparr>filters := [], order := None, offset := None, limit := None\<rparr>)"
proof -
  from assms have plain: "plain_query q" and fit: "columns_fit spec q dictFromRow column table"
    and fs: "\<forall>f\<in>set (filters spec). filter_fits spec column table f"
    and ks: "given (order spec) \<Longrightarrow> order_fits spec (the (order spec))" by (simp_all add: pushable_def)
  let ?q1 = "q\<lparr>wheres := map (filter_expr spec) (filters spec)\<rparr>"
  have one: "push_down (applyFilterToSQLQuery spec) (filters spec) q = Inr (?q1, [])"
    using push_filters [OF fit fs, of q] plain by (simp add: plain_query_def)
  have two: "(if given (order spec) then push_down (applyOrderToSQLQuery spec) (the (order spec)) ?q1
      else Inr (?q1, [])) = Inr (pushed spec q, [])"
    using push_orders [OF fit ks, of ?q1] plain by (auto simp: plain_query_def pushed_def)
  have "query_offset (pushed spec q) = None" "query_limit (pushed spec q) = None"
    using plain by (simp_all add: pushed_def plain_query_def)
  then show ?thesis
    by (cases "offset spec"; cases "limit spec") (simp_all add: applyToSQLQuery_def run_combinators one two)
qed

lemma kept_unselected:
  assumes "\<not> given (sel_fields spec)"
  shows "kept spec ds = filter (\<lambda>d. \<forall>f\<in>set (filters spec). satisfies f d) ds"
proof -
  have "selected (sel_fields spec) = (\<lambda>d. d)"
    using assms by (intro ext) (simp add: selected_def split: item.split)
  then show ?thesis by (simp add: kept_def)
qed

lemma matching_kept:
  assumes "pushable spec q dictFromRow column table" and "\<not> given (sel_fields spec)"
  shows "map dictFromRow (matching column table (pushed spec q)) = kept spec (map dictFromRow table)"
proof -
  note kept_unselected [OF assms(2), of "map dictFromRow table"]
  moreover have "(\<forall>e\<in>set (wheres (pushed spec q)). expr_true (column r) e) \<longleftrightarrow>
      (\<forall>f\<in>set (filters spec). satisfies f (dictFromRow r))" if "r \<in> set table" for r
    using assms(1) filter_expr_true [OF _ _ that] by (auto simp: pushable_def pushed_def)
  ultimately show ?thesis
    by (simp add: matching_def filter_map comp_def cong: filter_cong)
qed

text \<open>A page of a collection: part of an arrangement of what the filters keep that respects the order.\<close>

definition page_of :: "ResultSpec \<Rightarrow> item list \<Rightarrow> item list \<Rightarrow> bool" where
  "page_of spec ds page \<longleftrightarrow> (\<exists>xs. mset xs = mset (kept spec ds) \<and>
     (given (order spec) \<longrightarrow> sorted (map (sort_places (the (order spec))) xs)) \<and>
     page = paged xs (offset spec) (limit spec))"

lemma paged_map: "map f (paged xs off lim) = paged (map f xs) off lim"
  by (simp add: paged_def take_map drop_map split: option.split)

lemma served_page:
  assumes "pushable spec q dictFromRow column table" and "\<not> given (sel_fields spec)"
    and "serves execute count_of table column"
  shows "page_of spec (map dictFromRow table)
      (map dictFromRow (execute ((pushed spec q)\<lparr>query_offset := offset spec, query_limit := limit spec\<rparr>)))"
    and "count_of (pushed spec q) = int (length (kept spec (map dictFromRow table)))"
proof -
  let ?p = "pushed spec q" and ?q = "(pushed spec q)\<lparr>query_offset := offset spec, query_limit := limit spec\<rparr>"
  have portable: "portable table column ?q" "portable table column ?p"
    using assms(1) by (auto simp: portable_def pushable_def plain_query_def pushed_def order_filled_def order_column_def)
  have same: "matching column table ?q = matching column table ?p" by (simp add: matching_def)
  from assms(3) obtain ys where ys: "mset ys = mset (matching column table ?p)"
      "sorted (map (order_places (order_bys ?p) \<circ> column) ys)" "execute ?q = paged ys (offset spec) (limit spec)"
    using servesD(1) [OF assms(3) portable(1)] unfolding same by auto
  have "set ys \<subseteq> set table" using mset_eq_setD [OF ys(1)] by (auto simp: matching_def)
  have "mset (map dictFromRow ys) = mset (kept spec (map dictFromRow table))"
    using matching_kept [OF assms(1,2)] ys(1) by (metis mset_map)
  moreover have "sorted (map (sort_places (the (order spec))) (map dictFromRow ys))" if "given (order spec)"
  proof -
    have "map (order_places (order_bys ?p) \<circ> column) ys = map (sort_places (the (order spec)) \<circ> dictFromRow) ys"
    proof (rule map_cong [OF refl])
      fix r assume "r \<in> set ys"
      with \<open>set ys \<subseteq> set table\<close> that assms(1)
      have "columns_fit spec q dictFromRow column table" "order_fits spec (the (order spec))" "r \<in> set table"
        by (auto simp: pushable_def)
      from order_places_fit [OF this] that
      show "(order_places (order_bys ?p) \<circ> column) r = (sort_places (the (order spec)) \<circ> dictFromRow) r"
        by (simp add: pushed_def)
    qed
    with ys(2) show ?thesis by simp
  qed
  ultimately show "page_of spec (map dictFromRow table) (map dictFromRow (execute ?q))"
    unfolding page_of_def ys(3) paged_map by blast
  have "query_offset ?p = None" "query_limit ?p = None"
    using assms(1) by (simp_all add: pushed_def pushable_def plain_query_def)
  from servesD(2) [OF assms(3) portable(2) this] show "count_of ?p = int (length (kept spec (map dictFromRow table)))"
    by (simp flip: matching_kept [OF assms(1,2)])
qed

text \<open>\<open>thd_execute\<close> and then \<open>apply\<close> of what is left of the specification, on a page or on a bare list of its rows.\<close>

definition leftover :: "ResultSpec \<Rightarrow> ResultSpec" where
  "leftover spec = spec\<lparr>filters := [], order := None, offset := None, limit := None\<rparr>"

lemma thd_execute_pushes:
  assumes "pushable spec q dictFromRow column table"
  shows "thd_execute execute count_of conv q spec =
    (Inr (let rv = map conv (execute ((pushed spec q)\<lparr>query_offset := offset spec, query_limit := limit spec\<rparr>)) in
       if or_zero (offset spec) \<noteq> 0 \<or> or_zero (limit spec) \<noteq> 0
       then Page \<lparr>rows = rv, row_offset = offset spec, row_total = Some (count_of (pushed spec q)), row_limit = limit spec\<rparr>
       else Items rv), leftover spec)"
  by (simp add: thd_execute_def run_combinators applyToSQLQuery_pushes [OF assms] Let_def leftover_def)

lemma flatten_nothing: "\<not> given flds \<Longrightarrow> flatten_items flds [] ds = Inr ds"
  by (induction ds) (simp_all add: applyFields_def)

lemma apply_leftover:
  assumes "\<not> given (sel_fields spec)"
  shows "apply_spec (leftover spec) (Items ds) =
      Inr (Page \<lparr>rows = ds, row_offset = None, row_total = Some (int (length ds)), row_limit = None\<rparr>)"
    and "apply_spec (leftover spec) (Page \<lparr>rows = ds, row_offset = off, row_total = Some n, row_limit = lim\<rparr>) =
      Inr (Page \<lparr>rows = ds, row_offset = off, row_total = Some n, row_limit = lim\<rparr>)"
  using assms
  by (simp_all add: apply_spec_def leftover_def apply_collection_def flatten_nothing paginate_def given_def)

lemma thd_execute_lists:
  assumes "pushable spec q dictFromRow column table" and "thd_execute execute count_of conv q spec = (Inr d, spec')"
  shows "listed d = map conv (execute ((pushed spec q)\<lparr>query_offset := offset spec, query_limit := limit spec\<rparr>))"
    and "spec' = leftover spec"
  using assms(2) thd_execute_pushes [OF assms(1), of execute count_of conv] by (auto simp: Let_def split: if_splits)

text \<open>The page that is answered directly keeps its rows and its total.\<close>

lemma direct_pages:
  assumes "pushable spec q dictFromRow column table" and "\<not> given (sel_fields spec)"
    and "serves execute count_of table column"
    and "thd_execute execute count_of dictFromRow q spec = (Inr d, spec')"
  obtains p where "apply_spec spec' d = Inr (Page p)" and "page_of spec (map dictFromRow table) (rows p)"
    and "or_zero (offset spec) \<noteq> 0 \<or> or_zero (limit spec) \<noteq> 0 \<Longrightarrow>
      row_total p = Some (int (length (kept spec (map dictFromRow table)))) \<and>
      row_offset p = offset spec \<and> row_limit p = limit spec"
proof -
  note page = served_page [OF assms(1-3)]
  let ?rv = "map dictFromRow (execute ((pushed spec q)\<lparr>query_offset := offset spec, query_limit := limit spec\<rparr>))"
  from assms(4) thd_execute_pushes [OF assms(1), of execute count_of dictFromRow]
  have spec': "spec' = leftover spec" and d: "d = (if or_zero (offset spec) \<noteq> 0 \<or> or_zero (limit spec) \<noteq> 0
      then Page \<lparr>rows = ?rv, row_offset = offset spec, row_total = Some (count_of (pushed spec q)), row_limit = limit spec\<rparr>
      else Items ?rv)" by (simp_all add: Let_def)
  show thesis
  proof (cases "or_zero (offset spec) \<noteq> 0 \<or> or_zero (limit spec) \<noteq> 0")
    case True
    then have "apply_spec spec' d = Inr (Page \<lparr>rows = ?rv, row_offset = offset spec,
        row_total = Some (count_of (pushed spec q)), row_limit = limit spec\<rparr>)"
      by (simp add: spec' d apply_leftover(2) [OF assms(2)])
    then show thesis by (rule that) (use page in simp_all)
  next
    case False
    then have "apply_spec spec' d = Inr (Page \<lparr>rows = ?rv, row_offset = None, row_total = Some (int (length ?rv)), row_limit = None\<rparr>)"
      by (simp add: spec' d apply_leftover(1) [OF assms(2)])
    then show thesis by (rule that) (use page False in simp_all)
  qed
qed

end
