(* ===== verification/Bb_Endpoints.thy ===== *)
theory Bb_Endpoints
  imports Bb_Resultspec_Sql
begin

text \<open>
  An endpoint that leaves its result specification to the database: the collection of changes, from
  \<open>ChangesEndpoint.get\<close> of \<open>master/buildbot/data/changes.py\<close> down to \<open>getChanges\<close> of \<open>db/changes.py\<close>. The other
  database calls, and what \<open>_fixChange\<close> makes of a change, are arguments.
\<close>

definition changes_names :: "string list" where
  "changes_names = [''author'', ''branch'', ''category'', ''changeid'', ''codebase'', ''comments'', ''committer'',
     ''project'', ''repository'', ''revision'', ''revlink'', ''sourcestampid'', ''when_timestamp'']"

definition changes_fieldMapping :: "(pystr \<times> pystr) list" where
  "changes_fieldMapping = map (\<lambda>n. (py n, py (''changes.'' @ n))) changes_names"

text \<open>\<open>changes_tbl.select()\<close>: all columns of the table of \<open>db/model.py\<close>.\<close>

definition changes_select :: query where
  "changes_select =
     \<lparr>inner_columns = map (\<lambda>n. py (''changes.'' @ n))
        [''changeid'', ''author'', ''committer'', ''comments'', ''branch'', ''revision'', ''revlink'',
         ''when_timestamp'', ''category'', ''repository'', ''codebase'', ''project'', ''sourcestampid'',
         ''parent_changeids''],
      wheres = [], order_bys = [], query_offset = None, query_limit = None\<rparr>"

definition getChanges ::
  "(query \<Rightarrow> 'r list) \<Rightarrow> (query \<Rightarrow> int) \<Rightarrow> ('r \<Rightarrow> int) \<Rightarrow> (int \<Rightarrow> 'm) \<Rightarrow> (ResultSpec, 'm list) prog" where
  "getChanges execute count_of getDataFromRow getChange =
     bnd (thd_execute execute count_of getDataFromRow changes_select) (\<lambda>changeids.
       ret (map getChange (rev (listed changeids))))"

text \<open>The arguments of the path: \<open>kw_build_number\<close> is there with the build it stands for, if there is one.\<close>

record changes_kwargs =
  kw_buildid :: "int option"
  kw_build_number :: "int option option"
  kw_ssid :: "int option"

definition changes_get ::
  "(int \<Rightarrow> 'm list) \<Rightarrow> (int \<Rightarrow> 'm option) \<Rightarrow> (ResultSpec, 'm list) prog \<Rightarrow> ('m \<Rightarrow> item) \<Rightarrow> changes_kwargs \<Rightarrow>
   (ResultSpec, item data) prog" where
  "changes_get getChangesForBuild getChangeFromSSid get_changes fixChange kw =
     bnd (case (case kw_build_number kw of None \<Rightarrow> kw_buildid kw | Some found \<Rightarrow> found) of
            Some buildid \<Rightarrow> ret (getChangesForBuild buildid)
          | None \<Rightarrow> (case kw_ssid kw of
              Some ssid \<Rightarrow> ret (case getChangeFromSSid ssid of None \<Rightarrow> [] | Some c \<Rightarrow> [c])
            | None \<Rightarrow> sq (modify (\<lambda>spec. spec\<lparr>fieldMapping := changes_fieldMapping\<rparr>)) get_changes))
       (\<lambda>changes. ret (Items (map fixChange changes)))"

text \<open>What the client of the whole collection gets.\<close>

definition changes_page ::
  "(ResultSpec, 'm list) prog \<Rightarrow> ('m \<Rightarrow> item) \<Rightarrow> (int \<Rightarrow> 'm list) \<Rightarrow> (int \<Rightarrow> 'm option) \<Rightarrow> ResultSpec \<Rightarrow> exn + item data" where
  "changes_page get_changes fixChange for_build from_ssid spec =
     (case changes_get for_build from_ssid get_changes fixChange
        \<lparr>kw_buildid = None, kw_build_number = None, kw_ssid = None\<rparr> spec of
        (Inl e, _) \<Rightarrow> Inl e | (Inr d, spec') \<Rightarrow> apply_spec spec' d)"

lemma changes_select_plain: "plain_query changes_select"
  by (simp add: plain_query_def changes_select_def)

lemma changes_columns_mapped:
  "map_of changes_fieldMapping f = Some c \<Longrightarrow> c \<in> set (inner_columns changes_select)"
  by (drule map_of_SomeD) (auto simp: changes_fieldMapping_def changes_names_def changes_select_def simp del: py_Cons)

text \<open>
  The rows come back in the reverse of the order asked for, and with their number for the total.
\<close>

lemma changes_come_reversed:
  fixes spec :: ResultSpec
  defines "mapped \<equiv> spec\<lparr>fieldMapping := changes_fieldMapping\<rparr>"
  assumes "pushable mapped changes_select (\<lambda>r. fixChange (getChange (getDataFromRow r))) column table"
    and "\<not> given (sel_fields spec)" and "serves execute count_of table column"
  shows "\<exists>p. changes_page (getChanges execute count_of getDataFromRow getChange) fixChange for_build from_ssid spec = Inr (Page p) \<and>
    page_of mapped (map (\<lambda>r. fixChange (getChange (getDataFromRow r))) table) (rev (rows p)) \<and>
    row_total p = Some (int (length (rows p)))"
proof -
  let ?q = "(pushed mapped changes_select)\<lparr>query_offset := offset mapped, query_limit := limit mapped\<rparr>"
  let ?item = "\<lambda>r. fixChange (getChange (getDataFromRow r))"
  have flds: "\<not> given (sel_fields mapped)" using assms(3) by (simp add: mapped_def)
  obtain r s where run: "thd_execute execute count_of getDataFromRow changes_select mapped = (r, s)"
    by (cases "thd_execute execute count_of getDataFromRow changes_select mapped")
  with thd_execute_pushes [OF assms(2), of execute count_of getDataFromRow] obtain d where r: "r = Inr d"
    by (simp add: Let_def)
  note d = run [unfolded r] and ds = thd_execute_lists [OF assms(2) run [unfolded r]]
  let ?rows = "map ?item (rev (execute ?q))"
  have "changes_get for_build from_ssid (getChanges execute count_of getDataFromRow getChange) fixChange
      \<lparr>kw_buildid = None, kw_build_number = None, kw_ssid = None\<rparr> spec = (Inr (Items ?rows), leftover mapped)"
    using d ds by (simp add: changes_get_def getChanges_def run_combinators mapped_def rev_map comp_def)
  then have "changes_page (getChanges execute count_of getDataFromRow getChange) fixChange for_build from_ssid spec =
      Inr (Page \<lparr>rows = ?rows, row_offset = None, row_total = Some (int (length ?rows)), row_limit = None\<rparr>)"
    unfolding changes_page_def using apply_leftover(1) [OF flds, of ?rows] by simp
  moreover from served_page(1) [OF assms(2) flds assms(4)]
  have "page_of mapped (map ?item table) (rev ?rows)" by (simp add: rev_map)
  ultimately show ?thesis by auto
qed

end
