(* ===== verification/Bb_Jsonapi.thy ===== *)
theory Bb_Jsonapi
  imports Bb_Resultspec Py_Text
begin

text \<open>
  \<open>DataConnector.resultspec_from_jsonapi\<close> of \<open>master/buildbot/data/connector.py\<close>, which turns the arguments of a
  REST request into a result specification, with the conversions of \<open>data/types.py\<close> and \<open>util/__init__.py\<close> it uses.
\<close>

section \<open>Text from bytes\<close>

text \<open>Strict UTF-8: a sequence is as short as possible and no surrogate.\<close>

definition continues :: "nat \<Rightarrow> bool" where
  "continues b \<longleftrightarrow> 128 \<le> b \<and> b < 192"

fun utf8_decode :: "nat list \<Rightarrow> pystr option" where
  "utf8_decode [] = Some []"
| "utf8_decode (b # bs) =
     (if b < 128 then map_option (Cons b) (utf8_decode bs)
      else if 194 \<le> b \<and> b < 224 then (case bs of
          c # cs \<Rightarrow> if continues c then map_option (Cons ((b - 192) * 64 + (c - 128))) (utf8_decode cs) else None
        | _ \<Rightarrow> None)
      else if 224 \<le> b \<and> b < 240 then (case bs of
          c # d # ds \<Rightarrow>
            let p = (b - 224) * 4096 + (c - 128) * 64 + (d - 128) in
            if continues c \<and> continues d \<and> 2048 \<le> p \<and> is_scalar p then map_option (Cons p) (utf8_decode ds) else None
        | _ \<Rightarrow> None)
      else if 240 \<le> b \<and> b < 245 then (case bs of
          c # d # e # es \<Rightarrow>
            let p = (b - 240) * 262144 + (c - 128) * 4096 + (d - 128) * 64 + (e - 128) in
            if continues c \<and> continues d \<and> continues e \<and> 65536 \<le> p \<and> is_scalar p
            then map_option (Cons p) (utf8_decode es) else None
        | _ \<Rightarrow> None)
      else None)"

definition bytes2unicode :: "field_name \<Rightarrow> exn + pystr" where
  "bytes2unicode x = (case x of
     FText s \<Rightarrow> Inr s
   | FBytes b \<Rightarrow> (case utf8_decode (map unat b) of None \<Rightarrow> Inl UnicodeDecodeError | Some s \<Rightarrow> Inr s))"

section \<open>Types of fields\<close>

text \<open>
  The types of \<open>data/types.py\<close> by what they read from a request; \<open>SourcedProperties\<close>, \<open>JsonObject\<close> and entities read
  nothing. An identifier may have a greatest length.
\<close>

datatype field_type =
    Integer
  | DateTime
  | String
  | Binary
  | Boolean
  | Identifier "nat option"
  | NoneOk field_type
  | List field_type
  | Unreadable

definition lower_ascii :: "byte \<Rightarrow> byte" where
  "lower_ascii b = (if 65 \<le> b \<and> b \<le> 90 then b + 32 else b)"

definition string2boolean :: "field_name \<Rightarrow> exn + bool" where
  "string2boolean x = (case x of
     FText _ \<Rightarrow> Inl KeyError
   | FBytes b \<Rightarrow>
       let s = map (of_nat \<circ> unat \<circ> lower_ascii) b in
       if s \<in> set (map py [''on'', ''true'', ''yes'', ''1'']) then Inr True
       else if s \<in> set (map py [''off'', ''false'', ''no'', ''0'']) then Inr False
       else Inl KeyError)"

definition int_of_arg :: "field_name \<Rightarrow> exn + int" where
  "int_of_arg x = (case (case x of FText s \<Rightarrow> py_int white_text s | FBytes b \<Rightarrow> py_int white_ascii (map unat b)) of
     None \<Rightarrow> Inl ValueError | Some i \<Rightarrow> Inr i)"

text \<open>\<open>identRe\<close>: a letter, \<open>_\<close> or \<open>-\<close>, then letters, digits, \<open>.\<close>, \<open>_\<close> or \<open>-\<close>; its \<open>$\<close> also matches before a final newline.\<close>

definition ident_first :: "nat \<Rightarrow> bool" where
  "ident_first c \<longleftrightarrow> 97 \<le> c \<and> c \<le> 122 \<or> 65 \<le> c \<and> c \<le> 90 \<or> c = 95 \<or> c = 45"

definition ident_rest :: "nat \<Rightarrow> bool" where
  "ident_rest c \<longleftrightarrow> ident_first c \<or> 48 \<le> c \<and> c \<le> 57 \<or> c = 46"

definition identRe_match :: "pystr \<Rightarrow> bool" where
  "identRe_match s = (case s of [] \<Rightarrow> False
     | c # t \<Rightarrow> ident_first c \<and>
         list_all ident_rest (if t \<noteq> [] \<and> last t = 10 then butlast t else t))"

fun valueFromString :: "field_type \<Rightarrow> field_name \<Rightarrow> exn + val" where
  "valueFromString Integer arg = and_then (int_of_arg arg) (\<lambda>i. Inr (VInt i))"
| "valueFromString DateTime arg = and_then (int_of_arg arg) (\<lambda>i. Inr (VInt i))"
| "valueFromString String arg = and_then (bytes2unicode arg) (\<lambda>s. Inr (VStr s))"
| "valueFromString Binary arg = Inr (case arg of FText s \<Rightarrow> VStr s | FBytes b \<Rightarrow> VBytes b)"
| "valueFromString Boolean arg = and_then (string2boolean arg) (\<lambda>b. Inr (VBool b))"
| "valueFromString (Identifier n) arg = and_then (bytes2unicode arg) (\<lambda>s.
     if \<not> identRe_match s \<or> (case n of None \<Rightarrow> True | Some m \<Rightarrow> m < length s) \<or> s = [] then Inl TypeError
     else Inr (VStr s))"
| "valueFromString (NoneOk t) arg = valueFromString t arg"
| "valueFromString (List t) arg = valueFromString t arg"
| "valueFromString Unreadable arg = Inl TypeError"

text \<open>An entity type by its fields.\<close>

type_synonym entity_type = "(pystr \<times> field_type) list"

definition fieldNames :: "entity_type \<Rightarrow> pystr set" where
  "fieldNames ent = fst ` set ent"

section \<open>The request\<close>

text \<open>\<open>try: ... except Exception: raise InvalidQueryParameter\<close>.\<close>

definition or_invalid :: "exn + 'a \<Rightarrow> exn + 'a" where
  "or_invalid r = (case r of Inl _ \<Rightarrow> Inl InvalidQueryParameter | Inr x \<Rightarrow> Inr x)"

definition checkField :: "entity_type \<Rightarrow> bool \<Rightarrow> field_name \<Rightarrow> exn + unit" where
  "checkField ent negOk f = and_then (bytes2unicode f) (\<lambda>k. case k of
     [] \<Rightarrow> Inl IndexError
   | c # rest \<Rightarrow>
       check_that ((if c = of_char CHR ''-'' \<and> negOk then rest else k) \<in> fieldNames ent) InvalidQueryParameter)"

definition checkFields :: "entity_type \<Rightarrow> field_name list \<Rightarrow> bool \<Rightarrow> exn + unit" where
  "checkFields ent fs negOk = and_then (all_results (checkField ent negOk) fs) (\<lambda>_. Inr ())"

definition first_int :: "field_name list \<Rightarrow> exn + int" where
  "first_int vs = or_invalid (case vs of [] \<Rightarrow> Inl IndexError | v # _ \<Rightarrow> int_of_arg v)"

text \<open>\<open>s.rsplit('__', 1)\<close>, if the text contains \<open>__\<close> at all.\<close>

fun rsplit_op :: "pystr \<Rightarrow> (pystr \<times> pystr) option" where
  "rsplit_op [] = None"
| "rsplit_op (c # s) = (case rsplit_op s of
     Some (l, r) \<Rightarrow> Some (c # l, r)
   | None \<Rightarrow> (case s of [] \<Rightarrow> None | d # t \<Rightarrow> if c = 95 \<and> d = 95 then Some ([], t) else None))"

record request_state =
  rq_limit :: "int option"
  rq_offset :: "int option"
  rq_order :: "pystr list option"
  rq_fields :: "field_name list option"
  rq_filters :: "FieldBase list"
  rq_properties :: "FieldBase list"

definition no_request :: request_state where
  "no_request = \<lparr>rq_limit = None, rq_offset = None, rq_order = None, rq_fields = None, rq_filters = [], rq_properties = []\<rparr>"

definition read_values :: "entity_type \<Rightarrow> pystr \<Rightarrow> field_name list \<Rightarrow> exn + val list" where
  "read_values ent f args = or_invalid (all_results (valueFromString (the (map_of ent f))) args)"

definition add_filter :: "entity_type \<Rightarrow> pystr \<Rightarrow> pystr \<Rightarrow> field_name list \<Rightarrow> request_state \<Rightarrow> exn + request_state" where
  "add_filter ent f name args st = and_then (read_values ent f args) (\<lambda>vs.
     Inr (st\<lparr>rq_filters := rq_filters st @ [\<lparr>field = FText f, op = name, vals = vs\<rparr>]\<rparr>))"

definition read_argument :: "entity_type \<Rightarrow> field_name \<times> field_name list \<Rightarrow> request_state \<Rightarrow> exn + request_state" where
  "read_argument ent a st = (case a of (arg, args) \<Rightarrow> and_then (bytes2unicode arg) (\<lambda>argStr.
     if argStr = py ''order'' then
       and_then (all_results bytes2unicode args) (\<lambda>os.
       and_then (checkFields ent (map FText os) True) (\<lambda>_. Inr (st\<lparr>rq_order := Some os\<rparr>)))
     else if argStr = py ''field'' then
       and_then (checkFields ent args False) (\<lambda>_. Inr (st\<lparr>rq_fields := Some args\<rparr>))
     else if argStr = py ''limit'' then
       and_then (first_int args) (\<lambda>i. Inr (st\<lparr>rq_limit := Some i\<rparr>))
     else if argStr = py ''offset'' then
       and_then (first_int args) (\<lambda>i. Inr (st\<lparr>rq_offset := Some i\<rparr>))
     else if argStr = py ''property'' then
       and_then (or_invalid (all_results bytes2unicode args)) (\<lambda>ps.
         Inr (st\<lparr>rq_properties := rq_properties st @ [\<lparr>field = arg, op = py ''eq'', vals = map VStr ps\<rparr>]\<rparr>))
     else if argStr \<in> fieldNames ent then add_filter ent argStr (py ''eq'') args st
     else case rsplit_op argStr of
       Some (f, name) \<Rightarrow>
         if name \<in> fst ` set (if length args = 1 then singular_operators else plural_operators) \<and> f \<in> fieldNames ent
         then add_filter ent f name args st else Inr st
     | None \<Rightarrow> Inl InvalidQueryParameter))"

primrec read_arguments ::
  "entity_type \<Rightarrow> (field_name \<times> field_name list) list \<Rightarrow> request_state \<Rightarrow> exn + request_state" where
  "read_arguments ent [] st = Inr st"
| "read_arguments ent (a # as) st = and_then (read_argument ent a st) (read_arguments ent as)"

text \<open>\<open>o.lstrip('-')\<close>.\<close>

definition lstrip_minus :: "pystr \<Rightarrow> pystr" where
  "lstrip_minus = dropWhile (\<lambda>c. c = of_char CHR ''-'')"

definition field_in :: "pystr set \<Rightarrow> FieldBase \<Rightarrow> bool" where
  "field_in names f = (case field f of FText n \<Rightarrow> n \<in> names | FBytes _ \<Rightarrow> False)"

definition resultspec_from_jsonapi ::
  "(field_name \<times> field_name list) list \<Rightarrow> entity_type \<Rightarrow> bool \<Rightarrow> exn + ResultSpec" where
  "resultspec_from_jsonapi req_args ent is_collection =
     and_then (read_arguments ent req_args no_request) (\<lambda>st.
     and_then (if given (rq_fields st) then
         and_then (all_results bytes2unicode (the (rq_fields st))) (\<lambda>fields.
         and_then (check_that (\<not> given (rq_order st) \<or> lstrip_minus ` set (the (rq_order st)) \<subseteq> set fields) InvalidQueryParameter) (\<lambda>_.
         and_then (check_that (list_all (field_in (set fields)) (rq_filters st)) InvalidQueryParameter) (\<lambda>_.
           Inr (Some fields))))
       else Inr (if rq_fields st = None then None else Some [])) (\<lambda>fields.
     and_then (check_that (is_collection \<or> rq_filters st = []) InvalidQueryParameter) (\<lambda>_.
       Inr (new_ResultSpec (Some (rq_filters st)) fields (Some (rq_properties st)) (rq_order st) (rq_limit st) (rq_offset st)))))"

end
