(* ===== verification/Bb_Jsonapi_Facts.thy ===== *)
theory Bb_Jsonapi_Facts
  imports Bb_Jsonapi Bb_Resultspec_Facts
begin

text \<open>
  Requests that \<open>resultspec_from_jsonapi\<close> accepts, and that a collection of complete items is served to them without
  an error of a name: only values of different types can still fail to compare.
\<close>

section \<open>Errors of operators\<close>

abbreviation "type_trouble \<equiv> {TypeError, ValueError}"

lemma py_le_error: "py_le v w = Inl e \<Longrightarrow> e = TypeError"
  by (induction v w rule: py_le.induct) (auto simp: and_then_Inl dest: py_lt_error split: if_splits)

lemma py_in_error: "py_in v w = Inl e \<Longrightarrow> e \<in> type_trouble"
  by (cases w; cases v) (auto split: if_splits)

lemma py_iter_error: "py_iter v = Inl e \<Longrightarrow> e = TypeError"
  by (cases v) auto

lemma intersects_error: "intersects d v = Inl e \<Longrightarrow> e = TypeError"
  by (auto simp: intersects_def and_then_Inl py_set_def dest: py_iter_error split: if_splits)

lemma look_up_Inr: "look_up name ops = Inr g \<Longrightarrow> (name, g) \<in> set ops"
  by (auto simp: look_up_def dest: map_of_SomeD split: option.splits)

lemma operator_error:
  assumes "(name, g) \<in> set singular_operators \<union> set plural_operators" and "g x vs = Inl e"
  shows "e \<in> type_trouble"
  using assms py_lt_error [of x "vs ! 0" e] py_lt_error [of "vs ! 0" x e] py_le_error [of x "vs ! 0" e]
    py_le_error [of "vs ! 0" x e] py_in_error [of "vs ! 0" x e] intersects_error [of x vs e]
  unfolding singular_operators_def plural_operators_def
  by (auto simp: py_gt_def py_ge_def simp del: py_Cons)

section \<open>What an accepted request asks for\<close>

definition filter_known :: "entity_type \<Rightarrow> FieldBase \<Rightarrow> bool" where
  "filter_known ent f \<longleftrightarrow> (\<exists>n. field f = FText n \<and> n \<in> fieldNames ent) \<and>
     op f \<in> fst ` set (if length (vals f) = 1 then singular_operators else plural_operators) \<and>
     list_all hashable (vals f)"

definition order_known :: "entity_type \<Rightarrow> pystr \<Rightarrow> bool" where
  "order_known ent k \<longleftrightarrow> k \<noteq> [] \<and> snd (direction k) \<in> fieldNames ent"

definition request_known :: "entity_type \<Rightarrow> request_state \<Rightarrow> bool" where
  "request_known ent st \<longleftrightarrow> list_all (filter_known ent) (rq_filters st) \<and>
     (\<forall>os. rq_order st = Some os \<longrightarrow> list_all (order_known ent) os)"

lemma valueFromString_hashable: "valueFromString t arg = Inr v \<Longrightarrow> hashable v"
  by (induction t arg rule: valueFromString.induct) (auto simp: and_then_Inr split: if_splits field_name.splits)

lemma or_invalid_Inr [simp]: "or_invalid r = Inr x \<longleftrightarrow> r = Inr x"
  by (simp add: or_invalid_def split: sum.split)

lemma read_values_known:
  assumes "read_values ent f args = Inr vs"
  shows "length vs = length args \<and> list_all hashable vs"
  using assms unfolding read_values_def or_invalid_Inr all_results_Inr
  by (auto simp: list_all2_conv_all_nth list_all_length intro: valueFromString_hashable)

lemma add_filter_known:
  assumes "add_filter ent f name args st = Inr st'" and "request_known ent st" and "f \<in> fieldNames ent"
    and "name \<in> fst ` set (if length args = 1 then singular_operators else plural_operators)"
  shows "request_known ent st'"
proof -
  from assms(1) obtain vs where vs: "read_values ent f args = Inr vs"
      and st': "st' = st\<lparr>rq_filters := rq_filters st @ [\<lparr>field = FText f, op = name, vals = vs\<rparr>]\<rparr>"
    by (auto simp: add_filter_def and_then_Inr)
  from read_values_known [OF vs] assms(2-4) st' show ?thesis
    by (simp add: request_known_def filter_known_def)
qed

lemma checkField_order:
  "checkField ent True (FText k) = Inr u \<Longrightarrow> order_known ent k"
  by (auto simp: checkField_def bytes2unicode_def order_known_def direction_def split: list.splits if_splits)

lemma checkFields_order:
  "checkFields ent (map FText os) True = Inr u \<Longrightarrow> list_all (order_known ent) os"
  unfolding checkFields_def and_then_Inr all_results_Inr list_all2_map1
  by (auto simp: list_all2_conv_all_nth list_all_length intro: checkField_order)

lemma eq_operator:
  "py ''eq'' \<in> fst ` set (if b then singular_operators else plural_operators)"
  by (simp add: singular_operators_def plural_operators_def)

lemma read_argument_known:
  assumes "read_argument ent a st = Inr st'" and "request_known ent st"
  shows "request_known ent st'"
proof -
  obtain arg args where a: "a = (arg, args)" by (cases a)
  from assms(1) obtain s where s: "bytes2unicode arg = Inr s" by (auto simp: a read_argument_def and_then_Inr)
  note read = assms(1) [unfolded a read_argument_def prod.case s and_then_simps]
  show ?thesis
  proof (cases "s = py ''order''")
    case True
    with read obtain os u where "checkFields ent (map FText os) True = Inr u" "st' = st\<lparr>rq_order := Some os\<rparr>"
      by (auto simp: and_then_Inr simp del: py_Cons)
    with checkFields_order [of ent os u] assms(2) show ?thesis by (simp add: request_known_def)
  next
    case no: False
    show ?thesis
    proof (cases "s \<in> {py ''field'', py ''limit'', py ''offset'', py ''property''}")
      case True
      with no read assms(2) show ?thesis
        by (auto simp: and_then_Inr request_known_def simp del: py_Cons split: if_splits)
    next
      case False
      with no read have rest: "(if s \<in> fieldNames ent then add_filter ent s (py ''eq'') args st
          else case rsplit_op s of
            Some (f, name) \<Rightarrow>
              if name \<in> fst ` set (if length args = 1 then singular_operators else plural_operators) \<and> f \<in> fieldNames ent
              then add_filter ent f name args st else Inr st
          | None \<Rightarrow> Inl InvalidQueryParameter) = Inr st'"
        by (simp del: py_Cons)
      show ?thesis
      proof (cases "s \<in> fieldNames ent")
        case True
        with rest have "add_filter ent s (py ''eq'') args st = Inr st'" by simp
        from add_filter_known [OF this assms(2) True eq_operator] show ?thesis .
      next
        case False
        show ?thesis
        proof (cases "rsplit_op s")
          case None
          with rest False show ?thesis by simp
        next
          case (Some fn)
          obtain f name where fn: "fn = (f, name)" by (cases fn)
          show ?thesis
          proof (cases "name \<in> fst ` set (if length args = 1 then singular_operators else plural_operators) \<and>
              f \<in> fieldNames ent")
            case True
            from True rest False Some fn have "add_filter ent f name args st = Inr st'"
              by (simp only: option.case prod.case if_True if_False simp_thms)
            from add_filter_known [OF this assms(2)] True show ?thesis by blast
          next
            case unknown: False
            from unknown rest False Some fn have "st' = st"
              by (simp only: option.case prod.case if_False sum.inject)
            with assms(2) show ?thesis by simp
          qed
        qed
      qed
    qed
  qed
qed

lemma read_arguments_known:
  "read_arguments ent as st = Inr st' \<Longrightarrow> request_known ent st \<Longrightarrow> request_known ent st'"
  by (induction as arbitrary: st) (auto simp: and_then_Inr dest: read_argument_known)

lemma check_that_Inr [simp]: "check_that b e = Inr u \<longleftrightarrow> b"
  by (simp add: check_that_def)

text \<open>The specification of an accepted request.\<close>

definition plain_names :: "pystr set \<Rightarrow> bool" where
  "plain_names names \<longleftrightarrow> (\<forall>n\<in>names. n \<noteq> [] \<and> hd n \<noteq> of_char CHR ''-'')"

lemma lstrip_direction:
  assumes "plain_names names" and "snd (direction k) \<in> names"
  shows "lstrip_minus k = snd (direction k)"
proof -
  from assms obtain c s where "snd (direction k) = c # s" "c \<noteq> of_char CHR ''-''"
    by (cases "snd (direction k)") (auto simp: plain_names_def)
  then show ?thesis by (auto simp: direction_def lstrip_minus_def split: list.splits if_splits)
qed

definition spec_known :: "entity_type \<Rightarrow> ResultSpec \<Rightarrow> bool" where
  "spec_known ent spec \<longleftrightarrow> list_all (filter_known ent) (filters spec) \<and>
     (given (order spec) \<longrightarrow> list_all (order_known ent) (the (order spec))) \<and>
     (given (sel_fields spec) \<longrightarrow> list_all (field_in (set (the (sel_fields spec)))) (filters spec) \<and>
        (given (order spec) \<longrightarrow> lstrip_minus ` set (the (order spec)) \<subseteq> set (the (sel_fields spec))))"

lemma accepted_known:
  assumes "resultspec_from_jsonapi req ent coll = Inr spec"
  shows "spec_known ent spec"
proof -
  from assms obtain st fields where st: "read_arguments ent req no_request = Inr st"
      and fields: "(if given (rq_fields st) then
         and_then (all_results bytes2unicode (the (rq_fields st))) (\<lambda>fields.
         and_then (check_that (\<not> given (rq_order st) \<or> lstrip_minus ` set (the (rq_order st)) \<subseteq> set fields) InvalidQueryParameter) (\<lambda>_.
         and_then (check_that (list_all (field_in (set fields)) (rq_filters st)) InvalidQueryParameter) (\<lambda>_.
           Inr (Some fields))))
       else Inr (if rq_fields st = None then None else Some [])) = Inr fields"
      and spec: "spec = new_ResultSpec (Some (rq_filters st)) fields (Some (rq_properties st)) (rq_order st) (rq_limit st) (rq_offset st)"
    unfolding resultspec_from_jsonapi_def and_then_Inr by blast
  have "request_known ent no_request" by (simp add: request_known_def no_request_def)
  with st have "request_known ent st" by (rule read_arguments_known)
  then have one: "list_all (filter_known ent) (rq_filters st)"
      "given (rq_order st) \<Longrightarrow> list_all (order_known ent) (the (rq_order st))"
    by (auto simp: request_known_def given_def)
  have two: "list_all (field_in (set (the fields))) (rq_filters st) \<and>
      (given (rq_order st) \<longrightarrow> lstrip_minus ` set (the (rq_order st)) \<subseteq> set (the fields))" if "given fields"
  proof (cases "given (rq_fields st)")
    case True
    with fields obtain fs where "fields = Some fs" "list_all (field_in (set fs)) (rq_filters st)"
        "\<not> given (rq_order st) \<or> lstrip_minus ` set (the (rq_order st)) \<subseteq> set fs"
      by (auto simp: and_then_Inr)
    then show ?thesis by auto
  next
    case False
    with fields that show ?thesis by (auto simp: given_def split: if_splits)
  qed
  from one two show ?thesis by (simp add: spec_known_def spec new_ResultSpec_def)
qed

section \<open>Serving a collection\<close>

text \<open>An item with all fields of its entity type.\<close>

definition complete_item :: "entity_type \<Rightarrow> item \<Rightarrow> bool" where
  "complete_item ent d \<longleftrightarrow> (\<exists>l. d = Dict l \<and> fieldNames ent \<subseteq> fst ` set l)"

definition readable :: "entity_type \<Rightarrow> pystr list option \<Rightarrow> pystr \<Rightarrow> bool" where
  "readable ent flds n \<longleftrightarrow> n \<in> fieldNames ent \<and> (given flds \<longrightarrow> n \<in> set (the flds))"

lemma getter_has: "n \<in> fst ` set l \<Longrightarrow> \<exists>v. data_getter (Dict l) (FText n) = Inr v"
  by (cases "map_of l n") (auto simp: map_of_eq_None_iff)

lemma readable_getter:
  assumes "complete_item ent d" and "readable ent flds n"
  obtains v where "data_getter (selected flds d) (FText n) = Inr v"
proof -
  from assms(1) obtain l where d: "d = Dict l" and "fieldNames ent \<subseteq> fst ` set l" unfolding complete_item_def by blast
  with assms(2) have "n \<in> fst ` set l" unfolding readable_def by blast
  then have sel: "n \<in> fst ` set (filter (\<lambda>(k, v). k \<in> set (the flds)) l)" if "given flds"
    using that assms(2) by (force simp: readable_def)
  have "\<exists>v. data_getter (selected flds d) (FText n) = Inr v"
    using getter_has [OF \<open>n \<in> fst ` set l\<close>] getter_has [OF sel] by (simp add: d selected_def)
  with that show thesis by blast
qed

lemma known_operator:
  assumes "filter_known ent f"
  obtains g where "getOperator singular_operators plural_operators f = Inr g"
    and "(op f, g) \<in> set singular_operators \<union> set plural_operators"
proof (cases "length (vals f) = 1")
  case True
  with assms obtain g where "map_of singular_operators (op f) = Some g"
    by (auto simp: filter_known_def dom_map_of_conv_image_fst [symmetric] simp del: py_Cons)
  with True that [of g] show thesis by (auto simp: getOperator_def look_up_def dest: map_of_SomeD)
next
  case False
  with assms obtain g where "map_of plural_operators (op f) = Some g"
    by (auto simp: filter_known_def dom_map_of_conv_image_fst [symmetric] simp del: py_Cons)
  with False assms that [of g] show thesis
    by (auto simp: getOperator_def look_up_def py_set_def filter_known_def dest: map_of_SomeD)
qed

lemma known_test:
  assumes "filter_known ent f" and "\<And>n. field f = FText n \<Longrightarrow> readable ent flds n"
  obtains t where "apply_field f = Inr t"
    and "\<And>d e. complete_item ent d \<Longrightarrow> t (selected flds d) = Inl e \<Longrightarrow> e \<in> type_trouble"
proof -
  from assms(1) obtain n where n: "field f = FText n" by (auto simp: filter_known_def)
  obtain g where g: "getOperator singular_operators plural_operators f = Inr g"
      "(op f, g) \<in> set singular_operators \<union> set plural_operators"
    by (rule known_operator [OF assms(1)])
  let ?t = "\<lambda>d. and_then (data_getter d (field f)) (\<lambda>x. g x (vals f))"
  have "apply_field f = Inr ?t" by (simp add: apply_field_def g)
  moreover have "e \<in> type_trouble" if d: "complete_item ent d" and err: "?t (selected flds d) = Inl e" for d e
  proof -
    obtain v where "data_getter (selected flds d) (FText n) = Inr v"
      by (rule readable_getter [OF d assms(2) [OF n]])
    with err have "g v (vals f) = Inl e" by (simp add: n)
    with operator_error [OF g(2)] show ?thesis .
  qed
  ultimately show thesis using that by blast
qed

lemma passes_error:
  "(\<And>t e. t \<in> set ts \<Longrightarrow> t d = Inl e \<Longrightarrow> e \<in> A) \<Longrightarrow> passes ts d = Inl e \<Longrightarrow> e \<in> A"
  by (induction ts) (auto simp: and_then_Inl split: if_splits)

lemma flatten_items_error:
  assumes "\<And>d. d \<in> set ds \<Longrightarrow> applyFields flds d = Inr (selected flds d)"
    and "\<And>d t e. d \<in> set ds \<Longrightarrow> t \<in> set ts \<Longrightarrow> t (selected flds d) = Inl e \<Longrightarrow> e \<in> A"
    and "flatten_items flds ts ds = Inl e"
  shows "e \<in> A"
  using assms
proof (induction ds)
  case (Cons d ds)
  have "passes ts (selected flds d) = Inl e \<Longrightarrow> e \<in> A"
    by (rule passes_error [of ts "selected flds d" A]) (use Cons.prems(2) in auto)
  moreover have "flatten_items flds ts ds = Inl e \<Longrightarrow> e \<in> A"
    using Cons.prems(1,2) by (intro Cons.IH) auto
  ultimately show ?case
    using Cons.prems(1,3) by (auto simp: and_then_Inl)
qed simp

lemma sort_items_error:
  assumes "\<And>d. d \<in> set ds \<Longrightarrow> \<exists>key. keyFunc ord d = Inr key" and "sort_items ord ds = Inl e"
  shows "e = TypeError"
proof -
  from assms(1) have "all_results (keyFunc ord) ds \<noteq> Inl e'" for e'
    using all_results_Inl [of "keyFunc ord" ds e'] by fastforce
  with assms(2) show ?thesis
    by (auto simp: sort_items_def and_then_Inl sort_with_keys_def split: if_splits)
qed

lemma known_order_key:
  assumes "complete_item ent d" and "\<And>k. k \<in> set ks \<Longrightarrow> k \<noteq> [] \<and> readable ent flds (snd (direction k))"
  shows "\<exists>key. keyFunc ks (selected flds d) = Inr key"
proof (rule ccontr)
  assume "\<nexists>key. keyFunc ks (selected flds d) = Inr key"
  then obtain e where "keyFunc ks (selected flds d) = Inl e" by (cases "keyFunc ks (selected flds d)") auto
  then obtain k where k: "k \<in> set ks" and part: "key_part (selected flds d) k = Inl e"
    unfolding keyFunc_def using all_results_Inl by blast
  obtain v where "data_getter (selected flds d) (FText (snd (direction k))) = Inr v"
    using readable_getter [OF assms(1)] assms(2) [OF k] by blast
  with part assms(2) [OF k] show False
    by (auto simp: key_part_def direction_def split: list.splits if_splits)
qed

lemma list_all2_partner: "list_all2 P xs ys \<Longrightarrow> y \<in> set ys \<Longrightarrow> \<exists>x\<in>set xs. P x y"
  by (induction rule: list_all2_induct) auto

lemma known_specs_serve:
  assumes known: "spec_known ent spec" and names: "plain_names (fieldNames ent)"
    and items: "\<forall>d\<in>set ds. complete_item ent d" and err: "apply_spec spec (Items ds) = Inl e"
  shows "e \<in> type_trouble"
proof -
  let ?flds = "sel_fields spec"
  have ok: "filter_known ent f" if "f \<in> set (filters spec)" for f
    using known that by (auto simp: spec_known_def list_all_iff)
  have filt: "readable ent ?flds n" if f: "f \<in> set (filters spec)" and n: "field f = FText n" for f n
  proof -
    have "given ?flds \<Longrightarrow> field_in (set (the ?flds)) f"
      using known f by (auto simp: spec_known_def list_all_iff)
    with ok [OF f] n show ?thesis by (auto simp: filter_known_def readable_def field_in_def)
  qed
  have ord: "k \<noteq> [] \<and> readable ent ?flds (snd (direction k))" if "given (order spec)" "k \<in> set (the (order spec))" for k
  proof -
    from known that have "order_known ent k" and sub: "given ?flds \<Longrightarrow> lstrip_minus k \<in> set (the ?flds)"
      by (auto simp: spec_known_def list_all_iff)
    with lstrip_direction [OF names, of k] show ?thesis by (auto simp: order_known_def readable_def)
  qed
  have sel: "applyFields ?flds d = Inr (selected ?flds d)" if "d \<in> set ds" for d
    using items that by (auto simp: complete_item_def applyFields_def includeFields_def selected_def)
  have tests: "\<exists>t. apply_field f = Inr t" if "f \<in> set (filters spec)" for f
    by (rule known_test [OF ok [OF that] filt [OF that]]; (assumption | rule exI))
  then have "all_results apply_field (filters spec) \<noteq> Inl e'" for e'
    using all_results_Inl [of apply_field "filters spec" e'] by fastforce
  then obtain ts where ts: "all_results apply_field (filters spec) = Inr ts"
    by (cases "all_results apply_field (filters spec)") auto
  have trouble: "e' \<in> type_trouble" if d: "d \<in> set ds" and t: "t \<in> set ts" and e': "t (selected ?flds d) = Inl e'" for d t e'
  proof -
    from ts have "list_all2 (\<lambda>f t. apply_field f = Inr t) (filters spec) ts" by (simp add: all_results_Inr)
    from list_all2_partner [OF this t] obtain f where f: "f \<in> set (filters spec)" "apply_field f = Inr t" by blast
    obtain t' where t': "apply_field f = Inr t'"
        "\<And>d e. complete_item ent d \<Longrightarrow> t' (selected ?flds d) = Inl e \<Longrightarrow> e \<in> type_trouble"
      by (rule known_test [OF ok [OF f(1)] filt [OF f(1)]]; (assumption | blast))
    from f(2) t'(1) have "t' = t" by simp
    with t'(2) items d e' show ?thesis by blast
  qed
  show ?thesis
  proof (cases "flatten_items ?flds ts ds")
    case (Inl e')
    from flatten_items_error [OF sel trouble Inl] have "e' \<in> type_trouble" .
    moreover from Inl err ts have "e' = e" by (simp add: apply_spec_def apply_collection_def)
    ultimately show ?thesis by simp
  next
    case (Inr es)
    have "\<exists>key. keyFunc (the (order spec)) d = Inr key" if "given (order spec)" "d \<in> set es" for d
      using that known_order_key [OF _ ord [OF that(1)]] items flatten_items_subset [OF Inr] by blast
    with sort_items_error err ts Inr show ?thesis
      by (auto simp: apply_spec_def apply_collection_def and_then_Inl paginate_def Let_def split: if_splits)
  qed
qed

end
