(* ===== verification/Bb_Data_Examples.thy ===== *)
theory Bb_Data_Examples
  imports Bb_Endpoints Bb_Jsonapi_Facts
begin

text \<open>
  A small collection for the properties of result specifications, and what goes wrong in some corners of the data API.
\<close>

section \<open>A collection and a request\<close>

definition demo_item :: "int \<Rightarrow> val \<Rightarrow> item" where
  "demo_item i v = Dict [([97], VInt i), ([98], v)]"

definition demo_items :: "item list" where
  "demo_items = [demo_item 3 (VStr [120]), demo_item 1 VNone, demo_item 2 (VStr [121]), demo_item 3 VNone]"

definition demo_page_spec :: ResultSpec where
  "demo_page_spec = new_ResultSpec (Some [\<lparr>field = FText [97], op = py ''ge'', vals = [VInt 2]\<rparr>]) None None
     (Some [[45, 97], [98]]) (Some 2) (Some 0)"

lemma demo_applied:
  "apply_spec demo_page_spec (Items demo_items) = Inr (Page
     \<lparr>rows = [demo_item 3 VNone, demo_item 3 (VStr [120])], row_offset = Some 0, row_total = Some 3, row_limit = Some 2\<rparr>)"
  by code_simp

definition demo_entity :: entity_type where
  "demo_entity = [([97], Integer), ([98], NoneOk String)]"

text \<open>The request \<open>a__ge=2&order=-a\<close>.\<close>

definition demo_args :: "(field_name \<times> field_name list) list" where
  "demo_args = [(FText [97, 95, 95, 103, 101], [FBytes [50]]), (FText (py ''order''), [FBytes [45, 97]])]"

lemma demo_args_accepted:
  "resultspec_from_jsonapi demo_args demo_entity True =
     Inr (new_ResultSpec (Some [\<lparr>field = FText [97], op = py ''ge'', vals = [VInt 2]\<rparr>]) None (Some []) (Some [[45, 97]]) None None)"
  by code_simp

section \<open>Corners\<close>

text \<open>
  A filter on several values takes \<open>contains\<close> of a text for single characters where the database, and the filter on one
  value, look for a part of the text.
\<close>

lemma several_parts_are_characters:
  "apply_spec (new_ResultSpec (Some [\<lparr>field = FText [98], op = py ''contains'', vals = [VStr [120, 121]]\<rparr>]) None None None None None)
     (Items [demo_item 1 (VStr [120, 121])]) =
     Inr (Page \<lparr>rows = [demo_item 1 (VStr [120, 121])], row_offset = None, row_total = Some 1, row_limit = None\<rparr>)"
  "apply_spec (new_ResultSpec (Some [\<lparr>field = FText [98], op = py ''contains'', vals = [VStr [120, 121], VStr [122, 122]]\<rparr>]) None None None None None)
     (Items [demo_item 1 (VStr [120, 121])]) =
     Inr (Page \<lparr>rows = [], row_offset = None, row_total = Some 0, row_limit = None\<rparr>)"
  by code_simp+

text \<open>Ordering comparisons with a field that is \<open>None\<close> raise \<open>TypeError\<close>, although sorting by it does not.\<close>

lemma none_cannot_be_compared:
  "apply_spec (new_ResultSpec (Some [\<lparr>field = FText [98], op = py ''lt'', vals = [VStr [122]]\<rparr>]) None None None None None)
     (Items demo_items) = Inl TypeError"
  "isl (apply_spec (new_ResultSpec None None None (Some [[98]]) None None) (Items demo_items)) = False"
  by code_simp+

text \<open>A date-time is read from a request as an integer and then compared with a \<open>datetime\<close>.\<close>

lemma requested_times_are_integers:
  "valueFromString DateTime (FBytes [49, 48]) = Inr (VInt 10)"
  "py_eq (VTime 10) (VInt 10) = False"
  "py_lt (VTime 10) (VInt 11) = Inl TypeError"
  by code_simp+

text \<open>A negative limit is accepted and drops rows from the end; an unknown \<open>field__op\<close> is ignored; a newline may end an identifier.\<close>

lemma negative_limits_drop_rows:
  "apply_spec (new_ResultSpec None None None None (Some (- 1)) None) (Items demo_items) =
     Inr (Page \<lparr>rows = butlast demo_items, row_offset = None, row_total = Some 4, row_limit = Some (- 1)\<rparr>)"
  by code_simp

lemma unknown_operators_are_ignored:
  "resultspec_from_jsonapi [(FText [97, 95, 95, 122], [FBytes [50]])] demo_entity True =
     Inr (new_ResultSpec None None None None None None)"
  by code_simp

lemma identifiers_may_end_in_newlines:
  "valueFromString (Identifier (Some 5)) (FBytes [97, 10]) = Inr (VStr [97, 10])"
  by code_simp

text \<open>A filter on several values is taken out of the specification by an accessor that then does not return them.\<close>

lemma several_values_are_dropped:
  "popStringFilter (FText [98])
     (new_ResultSpec (Some [\<lparr>field = FText [98], op = py ''eq'', vals = [VStr [120], VStr [121]]\<rparr>]) None None None None None) =
     (Inr VNone, new_ResultSpec None None None None None None)"
  by code_simp

text \<open>
  An order of a mapped field \<open>a\<close> and then an unmapped field \<open>b\<close>: sorted by \<open>b\<close> alone after the database has sorted by
  \<open>a\<close>, the rows come back with \<open>b\<close> as the more important field.
\<close>

definition mixed_spec :: ResultSpec where
  "mixed_spec = (new_ResultSpec None None None (Some [[97], [98]]) None None)\<lparr>fieldMapping := [([97], [97])]\<rparr>"

definition mixed_query :: query where
  "mixed_query = \<lparr>inner_columns = [[97]], wheres = [], order_bys = [], query_offset = None, query_limit = None\<rparr>"

lemma mixed_orders_swap:
  "case applyToSQLQuery mixed_query mixed_spec of (Inr (q, c), spec') \<Rightarrow>
       order_bys q = [([97], False)] \<and> c = None \<and>
       apply_spec spec' (Items [demo_item 1 (VInt 2), demo_item 2 (VInt 1)]) =
         Inr (Page \<lparr>rows = [demo_item 2 (VInt 1), demo_item 1 (VInt 2)], row_offset = None, row_total = Some 2, row_limit = None\<rparr>) \<and>
       apply_spec mixed_spec (Items [demo_item 1 (VInt 2), demo_item 2 (VInt 1)]) =
         Inr (Page \<lparr>rows = [demo_item 1 (VInt 2), demo_item 2 (VInt 1)], row_offset = None, row_total = Some 2, row_limit = None\<rparr>)
     | _ \<Rightarrow> False"
  by code_simp

section \<open>A table\<close>

definition table_column :: "int \<times> val \<Rightarrow> pystr \<Rightarrow> val" where
  "table_column r c = (if c = [97] then VInt (fst r) else snd r)"

definition table_spec :: ResultSpec where
  "table_spec = demo_page_spec\<lparr>fieldMapping := [([97], [97]), ([98], [98])], limit := Some 1\<rparr>"

definition table_query :: query where
  "table_query = \<lparr>inner_columns = [[97], [98]], wheres = [], order_bys = [], query_offset = None, query_limit = None\<rparr>"

definition table_rows :: "(int \<times> val) list" where
  "table_rows = [(3, VStr [120]), (1, VStr [122]), (2, VStr [121])]"

definition table_item :: "int \<times> val \<Rightarrow> item" where
  "table_item r = demo_item (fst r) (snd r)"

lemma table_pushable: "pushable table_spec table_query table_item table_column table_rows"
  by (auto simp: pushable_def plain_query_def columns_fit_def filter_fits_def order_fits_def order_filled_def column_of_def comparisons_def
      table_spec_def table_query_def table_item_def table_column_def table_rows_def demo_page_spec_def new_ResultSpec_def
      demo_item_def direction_def given_def split: if_splits)

lemma table_not_selected: "\<not> given (sel_fields table_spec)"
  by (simp add: table_spec_def demo_page_spec_def new_ResultSpec_def given_def)

end
