(* ===== verification/Bb_Claims.thy ===== *)
theory Bb_Claims
  imports Umb_Errors Bb_Results
begin

text \<open>
  Build requests and the claims masters have on them: the tables of \<open>master/buildbot/db/buildrequests.py\<close> with the
  operations that claim, unclaim and complete requests, and what \<open>data/buildrequests.py\<close> makes of their errors. All
  masters work on one database; each operation is a transaction of its own.
\<close>

section \<open>The tables\<close>

text \<open>
  A row of \<open>buildrequests\<close>. A row of \<open>buildrequest_claims\<close> is a pair of the master and the time; the index on \<open>brid\<close>
  is unique, so the table is a map from requests.
\<close>

record BuildRequestModel =
  br_id :: int
  br_builder :: int
  br_buildset :: int
  br_priority :: int
  br_waited :: bool
  br_complete :: bool
  br_results :: int

record request_db =
  requests :: "BuildRequestModel list"
  claims :: "int \<rightharpoonup> int \<times> int"

definition claimed_by :: "request_db \<Rightarrow> int \<Rightarrow> int option" where
  "claimed_by d b = map_option fst (claims d b)"

text \<open>
  \<open>getBuildRequests\<close> without branch, repository and result specification. The query joins each request with its
  source stamps, and the duplicates this makes are dropped again.
\<close>

datatype claimed_filter = Any_claim | Claimed_is bool | Claimed_by int

definition matches_claim :: "claimed_filter \<Rightarrow> request_db \<Rightarrow> BuildRequestModel \<Rightarrow> bool" where
  "matches_claim c d r = (case c of Any_claim \<Rightarrow> True
     | Claimed_is b \<Rightarrow> if \<not> b then claims d (br_id r) = None \<and> \<not> br_complete r else claims d (br_id r) \<noteq> None
     | Claimed_by m \<Rightarrow> claimed_by d (br_id r) = Some m)"

definition getBuildRequests ::
  "int option \<Rightarrow> bool option \<Rightarrow> claimed_filter \<Rightarrow> int option \<Rightarrow> request_db \<Rightarrow> BuildRequestModel list" where
  "getBuildRequests builder completed claimed bsid d = filter (\<lambda>r. matches_claim claimed d r
     \<and> (case builder of None \<Rightarrow> True | Some b \<Rightarrow> br_builder r = b)
     \<and> (case completed of None \<Rightarrow> True | Some c \<Rightarrow> br_complete r = c)
     \<and> (case bsid of None \<Rightarrow> True | Some b \<Rightarrow> br_buildset r = b)) (requests d)"

section \<open>Transactions\<close>

text \<open>\<open>conn.begin()\<close> to \<open>commit()\<close>, with a rollback before any exception.\<close>

definition db_transaction :: "('d, 'a) prog \<Rightarrow> ('d, 'a) prog" where
  "db_transaction m = (\<lambda>d. case m d of (Inl e, _) \<Rightarrow> (Inl e, d) | (Inr x, d') \<Rightarrow> (Inr x, d'))"

lemma wp_db_transaction [wp_simps]: "wp (db_transaction m) Q E d = wp m Q (\<lambda>e _. E e d) d"
  by (simp add: wp_def db_transaction_def split: prod.splits sum.splits)

function doBatch :: "nat \<Rightarrow> 'a list \<Rightarrow> 'a list list" where
  "doBatch n xs = (let batch = take n xs in if batch = [] then [] else batch # doBatch n (drop n xs))"
  by pat_completeness auto

termination doBatch
  by (relation "measure (\<lambda>(n, xs). length xs)") auto

declare doBatch.simps [simp del]

text \<open>The insertion of one claim, which the unique index refuses with an \<open>IntegrityError\<close> if there is one.\<close>

definition insert_claim :: "int \<Rightarrow> int \<Rightarrow> int \<Rightarrow> (request_db, unit) prog" where
  "insert_claim at master brid = bnd (gets claims) (\<lambda>c.
     sq (guard (c brid = None) AlreadyClaimedError) (modify (\<lambda>d. d\<lparr>claims := c(brid \<mapsto> (master, at))\<rparr>)))"

definition claim_buildrequests_for_master :: "int list \<Rightarrow> int \<Rightarrow> int \<Rightarrow> (request_db, unit) prog" where
  "claim_buildrequests_for_master brids at master = db_transaction (for_each brids (insert_claim at master))"

definition delete_claims :: "int \<Rightarrow> int list \<Rightarrow> (request_db, unit) prog" where
  "delete_claims master batch = modify (\<lambda>d. d\<lparr>claims := (\<lambda>b.
     if b \<in> set batch \<and> claimed_by d b = Some master then None else claims d b)\<rparr>)"

definition unclaim_buildrequests_for_master :: "int list \<Rightarrow> int \<Rightarrow> (request_db, unit) prog" where
  "unclaim_buildrequests_for_master brids master = db_transaction (for_each (doBatch 100 brids) (delete_claims master))"

text \<open>One batch of \<open>completeBuildRequests\<close>: the update, and the comparison of its \<open>rowcount\<close>.\<close>

definition completable :: "int list \<Rightarrow> BuildRequestModel \<Rightarrow> bool" where
  "completable batch r \<longleftrightarrow> br_id r \<in> set batch \<and> \<not> br_complete r"

definition complete_batch :: "int \<Rightarrow> int list \<Rightarrow> (request_db, unit) prog" where
  "complete_batch res batch = bnd (gets requests) (\<lambda>rs.
     sq (modify (\<lambda>d. d\<lparr>requests := map (\<lambda>r. if completable batch r then r\<lparr>br_complete := True, br_results := res\<rparr> else r) rs\<rparr>))
        (guard (length (filter (completable batch) rs) = length batch) NotClaimedError))"

definition db_completeBuildRequests :: "int list \<Rightarrow> int \<Rightarrow> (request_db, unit) prog" where
  "db_completeBuildRequests brids res =
     sq (guard (res \<noteq> RETRY) AssertionError) (db_transaction (for_each (doBatch 100 brids) (complete_batch res)))"

section \<open>The data layer\<close>

text \<open>
  The updates of \<open>data/buildrequests.py\<close>, over any state in which the database is reached by \<open>db_call\<close>. \<open>announce\<close> is
  what follows: \<open>generateEvent\<close>, and after a completion the check of the buildsets.
\<close>

definition callDbBuildRequests :: "int list \<Rightarrow> ('s, unit) prog \<Rightarrow> ('s, unit) prog \<Rightarrow> ('s, bool) prog" where
  "callDbBuildRequests brids db_call announce = (if brids = [] then ret True else
     bnd (try_except (sq db_call (ret True)) (\<lambda>e. if e = AlreadyClaimedError then ret False else raise e)) (\<lambda>ok.
       if ok then sq announce (ret True) else ret False))"

definition unclaimBuildRequests :: "int list \<Rightarrow> ('s, unit) prog \<Rightarrow> ('s, unit) prog \<Rightarrow> ('s, unit) prog" where
  "unclaimBuildRequests brids db_call announce = (if brids = [] then ret () else sq db_call announce)"

definition completeBuildRequests ::
  "int list \<Rightarrow> int \<Rightarrow> ('s, unit) prog \<Rightarrow> ('s, unit) prog \<Rightarrow> ('s, bool) prog" where
  "completeBuildRequests brids res db_call announce =
     sq (guard (res \<noteq> RETRY) AssertionError) (if brids = [] then ret True else
     bnd (try_except (sq db_call (ret True)) (\<lambda>e. if e = NotClaimedError then ret False else raise e)) (\<lambda>ok.
       if ok then sq announce (ret True) else ret False))"

section \<open>What the transactions do\<close>

lemma concat_doBatch: "0 < n \<Longrightarrow> concat (doBatch n xs) = xs"
  by (induction n xs rule: doBatch.induct) (subst doBatch.simps, auto simp: Let_def)

lemma insert_claims_run:
  "for_each brids (insert_claim at m) d =
     (if distinct brids \<and> (\<forall>b\<in>set brids. claims d b = None)
      then (Inr (), d\<lparr>claims := (\<lambda>b. if b \<in> set brids then Some (m, at) else claims d b)\<rparr>)
      else (Inl AlreadyClaimedError, snd (for_each brids (insert_claim at m) d)))"
proof (induction brids arbitrary: d)
  case Nil
  then show ?case by (simp add: run_simps)
next
  case (Cons x xs)
  let ?d = "d\<lparr>claims := (claims d)(x \<mapsto> (m, at))\<rparr>"
  show ?case
  proof (cases "claims d x = None")
    case True
    then have one: "insert_claim at m x d = (Inr (), ?d)" by (simp add: insert_claim_def run_combinators)
    show ?thesis using Cons.IH [of ?d] True
      by (auto simp: run_sq one split: if_splits intro!: arg_cong [where f = "\<lambda>c. d\<lparr>claims := c\<rparr>"])
  next
    case False
    then have one: "insert_claim at m x d = (Inl AlreadyClaimedError, d)" by (simp add: insert_claim_def run_combinators)
    show ?thesis using False by (simp add: run_sq one)
  qed
qed

lemma claim_transaction_run:
  "claim_buildrequests_for_master brids at m d =
     (if distinct brids \<and> (\<forall>b\<in>set brids. claims d b = None)
      then (Inr (), d\<lparr>claims := (\<lambda>b. if b \<in> set brids then Some (m, at) else claims d b)\<rparr>)
      else (Inl AlreadyClaimedError, d))"
  by (simp add: claim_buildrequests_for_master_def db_transaction_def insert_claims_run [of brids at m d])

lemma unclaim_run:
  "unclaim_buildrequests_for_master brids m d = (Inr (), d\<lparr>claims := (\<lambda>b.
     if b \<in> set brids \<and> claimed_by d b = Some m then None else claims d b)\<rparr>)"
proof -
  have "for_each bs (delete_claims m) d = (Inr (), d\<lparr>claims := (\<lambda>b.
     if b \<in> set (concat bs) \<and> claimed_by d b = Some m then None else claims d b)\<rparr>)" for bs :: "int list list"
    by (induction bs arbitrary: d)
      (auto simp: run_simps run_sq delete_claims_def claimed_by_def fun_eq_iff intro!: arg_cong [where f = "\<lambda>c. d\<lparr>claims := c\<rparr>" for d])
  from this [of "doBatch 100 brids"] show ?thesis
    by (simp add: unclaim_buildrequests_for_master_def db_transaction_def concat_doBatch)
qed

lemma complete_batch_run:
  "complete_batch res b d = (if length (filter (completable b) (requests d)) = length b then Inr () else Inl NotClaimedError,
     d\<lparr>requests := map (\<lambda>r. if completable b r then r\<lparr>br_complete := True, br_results := res\<rparr> else r) (requests d)\<rparr>)"
  by (simp add: complete_batch_def run_combinators)

lemma complete_batches:
  "for_each bs (complete_batch res) d = (Inr u, d') \<Longrightarrow> d' = d\<lparr>requests :=
     map (\<lambda>r. if completable (concat bs) r then r\<lparr>br_complete := True, br_results := res\<rparr> else r) (requests d)\<rparr>"
proof (induction bs arbitrary: d)
  case Nil
  then show ?case by (simp add: run_simps completable_def)
next
  case (Cons b bs)
  let ?after = "\<lambda>b r. if completable b r then r\<lparr>br_complete := True, br_results := res\<rparr> else r"
  from Cons.prems have "for_each bs (complete_batch res) (d\<lparr>requests := map (?after b) (requests d)\<rparr>) = (Inr u, d')"
    by (simp add: run_sq complete_batch_run [of res b d] split: if_splits)
  from Cons.IH [OF this] show ?case by (simp add: completable_def)
qed

lemma complete_run:
  assumes "db_completeBuildRequests brids res d = (r, d')"
  shows "case r of Inl e \<Rightarrow> d' = d | Inr _ \<Rightarrow> res \<noteq> RETRY \<and> d' = d\<lparr>requests :=
     map (\<lambda>r. if br_id r \<in> set brids \<and> \<not> br_complete r then r\<lparr>br_complete := True, br_results := res\<rparr> else r) (requests d)\<rparr>"
  using assms complete_batches [of "doBatch 100 brids" res d]
  by (auto simp: db_completeBuildRequests_def db_transaction_def run_combinators concat_doBatch completable_def
      split: sum.splits prod.splits if_splits)

end
