(* ===== verification/Bb_Distributor.thy ===== *)
theory Bb_Distributor
  imports Bb_Claims "HOL-Library.Multiset"
begin

text \<open>
  \<open>master/buildbot/process/buildrequestdistributor.py\<close>: how a master chooses build requests and workers for one
  builder, claims the requests and starts the builds; with what \<open>process/botmaster.py\<close> remembers of requests that are
  being started. The activity loop over the builders is not modelled. Whenever the code waits, other
  masters and the rest of this one may change the database and these notes: \<open>meanwhile\<close>.
\<close>

section \<open>The state and the outside\<close>

text \<open>Workers are numbered. A \<open>BuildRequest\<close> is its \<open>id\<close> with the rest of it; the keys of \<open>breqCache\<close> are these ids.\<close>

record BuildRequest =
  bsid :: int
  waitedFor :: bool

type_synonym breq = "int \<times> BuildRequest"
type_synonym worker = nat

record chooser =
  breqCache :: "int \<rightharpoonup> BuildRequest"
  unclaimedBrdicts :: "BuildRequestModel list option"
  workerpool :: "worker list"
  preferredWorkers :: "worker list"

text \<open>
  What was done, newest last: a worker judged for a request; an attempt to claim requests; a build started on a worker,
  with the masters that had the claims on its requests then; a build that was not started; requests unclaimed; and
  the name with which the botmaster was asked to start builds.
\<close>

datatype deed =
    Judged worker int bool
  | Claimed "int list" bool
  | Started worker "int list" "int option list"
  | Declined worker "int list"
  | Unclaimed "int list"
  | Reminded "pystr option"

text \<open>
  What all parts of the master share: the database, and \<open>_starting_brid_to_cancel\<close> with \<open>None\<close> for \<open>False\<close>. Then
  the chooser in use, the happenings and the number of times the code has waited.
\<close>

record desk =
  at_db :: request_db
  starting :: "int \<rightharpoonup> pystr option"

record distributor =
  desk :: desk
  bc :: chooser
  happened :: "deed list"
  turns :: nat

text \<open>
  The outside: this master's number, the builder's, the name of the distributor as a service, what happens while the
  code waits, and the answers to its calls. \<open>nextBuild\<close> and the two ways to choose a worker are configured functions,
  if they are there; \<open>roll\<close> is \<open>random.choice\<close>.
\<close>

record surroundings =
  masterid :: int
  builder_id :: int
  service_name :: "pystr option"
  meanwhile :: "distributor \<Rightarrow> desk"
  seconds :: "distributor \<Rightarrow> int"
  on_fetch :: "distributor \<Rightarrow> exn + unit"
  on_builder :: "distributor \<Rightarrow> exn + bool"
  on_request :: "distributor \<Rightarrow> BuildRequestModel \<Rightarrow> exn + unit"
  on_available :: "distributor \<Rightarrow> worker list"
  builder_nextWorker :: "(distributor \<Rightarrow> worker list \<Rightarrow> breq \<Rightarrow> exn + worker option) option"
  select_next_worker :: "(distributor \<Rightarrow> worker list \<Rightarrow> breq \<Rightarrow> exn + worker option) option"
  roll :: "distributor \<Rightarrow> nat"
  builder_nextBuild :: "(distributor \<Rightarrow> breq option list \<Rightarrow> exn + breq option) option"
  on_can_start :: "distributor \<Rightarrow> worker \<Rightarrow> breq \<Rightarrow> exn + bool"
  only_waited_childs :: "distributor \<Rightarrow> bool"
  on_buildsets :: "distributor \<Rightarrow> int list \<Rightarrow> exn + int list"
  on_database :: "distributor \<Rightarrow> bool"
  on_event :: "distributor \<Rightarrow> int list \<Rightarrow> exn + unit"
  on_running :: "distributor \<Rightarrow> bool"
  on_start :: "distributor \<Rightarrow> worker \<Rightarrow> breq list \<Rightarrow> exn + unit"

definition await :: "surroundings \<Rightarrow> (distributor, unit) prog" where
  "await out = modify (\<lambda>s. s\<lparr>desk := meanwhile out s, turns := Suc (turns s)\<rparr>)"

definition consult :: "surroundings \<Rightarrow> (distributor \<Rightarrow> exn + 'a) \<Rightarrow> (distributor, 'a) prog" where
  "consult out answer = sq (await out) (bnd (gets answer) of_result)"

definition record_deed :: "deed \<Rightarrow> (distributor, unit) prog" where
  "record_deed h = modify (\<lambda>s. s\<lparr>happened := happened s @ [h]\<rparr>)"

definition choosing :: "(chooser \<Rightarrow> chooser) \<Rightarrow> (distributor, unit) prog" where
  "choosing f = modify (\<lambda>s. s\<lparr>bc := f (bc s)\<rparr>)"

text \<open>A call of the database, and what is noted of it. It may fail before it begins.\<close>

definition in_db :: "surroundings \<Rightarrow> (request_db, unit) prog \<Rightarrow> (exn + unit \<Rightarrow> deed) \<Rightarrow> (distributor, unit) prog" where
  "in_db out m h = sq (bnd (sq (await out) (gets (on_database out))) (\<lambda>ok. guard ok DatabaseError)) (\<lambda>s. case m (at_db (desk s)) of (r, d) \<Rightarrow>
     (r, s\<lparr>desk := (desk s)\<lparr>at_db := d\<rparr>, happened := happened s @ [h r]\<rparr>))"

text \<open>The outcome of a part whose exceptions are caught.\<close>

definition attempt :: "('s, 'a) prog \<Rightarrow> ('s, exn + 'a) prog" where
  "attempt m = (\<lambda>s. case m s of (r, t) \<Rightarrow> (Inr r, t))"

section \<open>The chooser\<close>

definition new_chooser :: "worker list \<Rightarrow> chooser" where
  "new_chooser pool = \<lparr>breqCache = Map.empty, unclaimedBrdicts = None, workerpool = pool, preferredWorkers = []\<rparr>"

definition createBuildChooser :: "surroundings \<Rightarrow> (distributor, unit) prog" where
  "createBuildChooser out = modify (\<lambda>s. s\<lparr>bc := new_chooser (on_available out s)\<rparr>)"

text \<open>The choice of a worker that \<open>BasicBuildChooser\<close> settles on when it is made.\<close>

definition nextWorker :: "surroundings \<Rightarrow> distributor \<Rightarrow> worker list \<Rightarrow> breq \<Rightarrow> exn + worker option" where
  "nextWorker out = (case builder_nextWorker out of Some f \<Rightarrow> f | None \<Rightarrow>
     (case select_next_worker out of Some f \<Rightarrow> f | None \<Rightarrow>
       (\<lambda>s workers _. Inr (if workers = [] then None else Some (workers ! (roll out s mod length workers))))))"

text \<open>\<open>self.bldr.getBuilderId()\<close> and the request of the unclaimed requests; the oldest come first.\<close>

definition fetchUnclaimedBrdicts :: "surroundings \<Rightarrow> (distributor, unit) prog" where
  "fetchUnclaimedBrdicts out = bnd (gets (\<lambda>s. unclaimedBrdicts (bc s))) (\<lambda>u. case u of Some _ \<Rightarrow> ret () | None \<Rightarrow>
     sq (consult out (on_fetch out))
     (bnd (gets (\<lambda>s. getBuildRequests (Some (builder_id out)) None (Claimed_is False) None (at_db (desk s)))) (\<lambda>brdicts.
       choosing (\<lambda>c. c\<lparr>unclaimedBrdicts := Some (sort_key br_id brdicts)\<rparr>))))"

definition unclaimed :: "distributor \<Rightarrow> BuildRequestModel list" where
  "unclaimed s = (case unclaimedBrdicts (bc s) of None \<Rightarrow> [] | Some u \<Rightarrow> u)"

text \<open>
  \<open>BuildRequest.fromBrdict\<close> makes the request from its row and may fail on the way; a builder the database does not know
  gives no request.
\<close>

definition make_br :: "BuildRequestModel \<Rightarrow> BuildRequest" where
  "make_br b = \<lparr>bsid = br_buildset b, waitedFor = br_waited b\<rparr>"

definition getBuildRequestForBrdict :: "surroundings \<Rightarrow> BuildRequestModel \<Rightarrow> (distributor, breq option) prog" where
  "getBuildRequestForBrdict out b = bnd (gets (\<lambda>s. breqCache (bc s) (br_id b))) (\<lambda>cached. case cached of
     Some r \<Rightarrow> ret (Some (br_id b, r))
   | None \<Rightarrow> bnd (consult out (on_builder out)) (\<lambda>known. if \<not> known then ret None else
       sq (consult out (\<lambda>s. on_request out s b))
       (sq (choosing (\<lambda>c. c\<lparr>breqCache := (breqCache c)(br_id b \<mapsto> make_br b)\<rparr>))
       (ret (Some (br_id b, make_br b))))))"

definition getBrdictForBuildRequest :: "breq \<Rightarrow> chooser \<Rightarrow> BuildRequestModel option" where
  "getBrdictForBuildRequest r c = find (\<lambda>b. fst r = br_id b) (case unclaimedBrdicts c of None \<Rightarrow> [] | Some u \<Rightarrow> u)"

definition removeBuildRequest :: "breq \<Rightarrow> chooser \<Rightarrow> chooser" where
  "removeBuildRequest r c =
     (case getBrdictForBuildRequest r c of None \<Rightarrow> c
      | Some b \<Rightarrow> c\<lparr>unclaimedBrdicts := map_option (remove1 b) (unclaimedBrdicts c)\<rparr>)\<lparr>breqCache := (breqCache c)(fst r := None)\<rparr>"

text \<open>\<open>gatherResults\<close>: all requests are asked for; the first error is the result. The error stands for its \<open>FirstError\<close>.\<close>

primrec gather :: "('a \<Rightarrow> ('s, 'b) prog) \<Rightarrow> 'a list \<Rightarrow> ('s, 'b list) prog" where
  "gather f [] = ret []"
| "gather f (x # xs) = bnd (attempt (f x)) (\<lambda>r. bnd (attempt (gather f xs)) (\<lambda>rs. of_result (case r of Inl e \<Rightarrow> Inl e
     | Inr y \<Rightarrow> (case rs of Inl e \<Rightarrow> Inl e | Inr ys \<Rightarrow> Inr (y # ys)))))"

definition getUnclaimedBuildRequests :: "surroundings \<Rightarrow> (distributor, breq option list) prog" where
  "getUnclaimedBuildRequests out = bnd (gets unclaimed) (gather (getBuildRequestForBrdict out))"

text \<open>The unclaimed request of the highest priority, the oldest of these.\<close>

definition by_priority :: "BuildRequestModel list \<Rightarrow> BuildRequestModel list" where
  "by_priority = sort_key (\<lambda>b. - br_priority b)"

definition getNextUnclaimedBuildRequest :: "surroundings \<Rightarrow> (distributor, breq option) prog" where
  "getNextUnclaimedBuildRequest out = sq (fetchUnclaimedBrdicts out) (bnd (gets unclaimed) (\<lambda>u. if u = [] then ret None else
     case builder_nextBuild out of
       Some nextBuild \<Rightarrow> bnd (getUnclaimedBuildRequests out) (\<lambda>breqs.
         bnd (attempt (consult out (\<lambda>s. nextBuild s breqs))) (\<lambda>r.
           ret (case r of Inl _ \<Rightarrow> None | Inr b \<Rightarrow> if b \<notin> set breqs then None else b)))
     | None \<Rightarrow> getBuildRequestForBrdict out (hd (by_priority u))))"

text \<open>The loop over \<open>workerpool\<close> never comes round: each turn of it ends it.\<close>

definition popNextWorker :: "surroundings \<Rightarrow> breq \<Rightarrow> (distributor, worker option) prog" where
  "popNextWorker out r = bnd (gets bc) (\<lambda>c. case preferredWorkers c of
     w # ws \<Rightarrow> sq (choosing (\<lambda>c. c\<lparr>preferredWorkers := ws\<rparr>)) (ret (Some w))
   | [] \<Rightarrow> if workerpool c = [] then ret None else
       bnd (attempt (consult out (\<lambda>s. nextWorker out s (workerpool c) r))) (\<lambda>answer. case answer of
         Inr (Some w) \<Rightarrow> if w \<notin> set (workerpool c) then ret None
           else sq (choosing (\<lambda>c. c\<lparr>workerpool := remove1 w (workerpool c)\<rparr>)) (ret (Some w))
       | _ \<Rightarrow> ret None))"

definition unpopWorkers :: "worker list \<Rightarrow> chooser \<Rightarrow> chooser" where
  "unpopWorkers ws c = c\<lparr>preferredWorkers := ws @ preferredWorkers c\<rparr>"

definition canStartBuild :: "surroundings \<Rightarrow> worker \<Rightarrow> breq \<Rightarrow> (distributor, bool) prog" where
  "canStartBuild out w r = bnd (consult out (\<lambda>s. on_can_start out s w r)) (\<lambda>ok. sq (record_deed (Judged w (fst r) ok)) (ret ok))"

definition workers_left :: "distributor \<Rightarrow> worker list" where
  "workers_left s = preferredWorkers (bc s) @ workerpool (bc s)"

definition refill_workers :: "surroundings \<Rightarrow> (distributor, unit) prog" where
  "refill_workers out = modify (\<lambda>s. if workers_left s = [] then s\<lparr>bc := (bc s)\<lparr>workerpool := on_available out s\<rparr>\<rparr> else s)"

text \<open>What these steps do to the chooser, as far as its loops depend on it.\<close>

lemmas run_waits = await_def consult_def record_deed_def choosing_def attempt_def

lemma canStartBuild_run:
  "canStartBuild out w r s = (let s1 = s\<lparr>desk := meanwhile out s, turns := Suc (turns s)\<rparr> in
     case on_can_start out s1 w r of Inl e \<Rightarrow> (Inl e, s1)
     | Inr ok \<Rightarrow> (Inr ok, s1\<lparr>happened := happened s1 @ [Judged w (fst r) ok]\<rparr>))"
  by (simp add: canStartBuild_def run_waits run_combinators Let_def split: sum.split)

lemma canStartBuild_chooser: "canStartBuild out w r s = (x, t) \<Longrightarrow> bc t = bc s"
  by (auto simp: canStartBuild_run Let_def split: sum.splits)

lemma popNextWorker_pops:
  "popNextWorker out r s = (Inr (Some w), t) \<Longrightarrow>
     mset (workers_left s) = add_mset w (mset (workers_left t)) \<and> unclaimedBrdicts (bc t) = unclaimedBrdicts (bc s)"
  by (auto simp: popNextWorker_def run_waits run_combinators workers_left_def split: list.splits if_splits sum.splits option.splits)

lemma popNextWorker_stops:
  "popNextWorker out r s = (Inr None, t) \<Longrightarrow> bc t = bc s"
  by (auto simp: popNextWorker_def run_waits run_combinators split: list.splits if_splits sum.splits option.splits)

lemma popNextWorker_returns: "popNextWorker out r s \<noteq> (Inl e, t)"
  by (auto simp: popNextWorker_def run_waits run_combinators split: list.splits if_splits sum.splits option.splits)

text \<open>The inner loop of \<open>popNextBuild\<close>: the worker found, if any, and those to be recycled.\<close>

function find_worker :: "surroundings \<Rightarrow> breq \<Rightarrow> worker \<Rightarrow> worker list \<Rightarrow> (distributor, worker option \<times> worker list) prog" where
  "find_worker out r w recycled s = (case canStartBuild out w r s of
     (Inl e, t) \<Rightarrow> (Inl e, t)
   | (Inr ok, t) \<Rightarrow> if ok then (Inr (Some w, recycled), t) else
       (case popNextWorker out r t of
          (Inl e, u) \<Rightarrow> (Inl e, u)
        | (Inr None, u) \<Rightarrow> (Inr (None, recycled @ [w]), u)
        | (Inr (Some v), u) \<Rightarrow> find_worker out r v (recycled @ [w]) u))"
  by pat_completeness auto

lemma find_worker_progress:
  assumes "(Inr ok, t) = canStartBuild out w r s" "(Inr (Some v), u) = popNextWorker out r t"
  shows "length (workers_left u) < length (workers_left s)"
proof -
  have "mset (workers_left t) = add_mset v (mset (workers_left u))"
    using popNextWorker_pops assms(2) [symmetric] by blast
  then have "length (workers_left u) < length (workers_left t)" by (metis lessI size_add_mset size_mset)
  then show ?thesis using canStartBuild_chooser [OF assms(1) [symmetric]] by (simp add: workers_left_def)
qed

termination find_worker
  by (relation "measure (\<lambda>(out, r, w, recycled, s). length (workers_left s))") (auto intro: find_worker_progress)

declare find_worker.simps [simp del]

text \<open>Each turn of the outer loop takes a request out of the list of unclaimed ones.\<close>

definition unchanged :: "('s \<Rightarrow> 'b) \<Rightarrow> ('s, 'a) prog \<Rightarrow> bool" where
  "unchanged f m \<longleftrightarrow> (\<forall>s x t. m s = (x, t) \<longrightarrow> f t = f s)"

lemma unchanged_run: "unchanged f m \<Longrightarrow> m s = (x, t) \<Longrightarrow> f t = f s"
  by (simp add: unchanged_def)

lemma unchanged_bnd: "unchanged f m \<Longrightarrow> (\<And>x. unchanged f (g x)) \<Longrightarrow> unchanged f (bnd m g)"
  by (fastforce simp: unchanged_def run_bnd split: prod.splits sum.splits)

lemma unchanged_sq: "unchanged f m \<Longrightarrow> unchanged f n \<Longrightarrow> unchanged f (sq m n)"
  by (simp add: sq_def unchanged_bnd)

lemma unchanged_modify: "(\<And>s. f (g s) = f s) \<Longrightarrow> unchanged f (modify g)"
  by (simp add: unchanged_def run_simps)

lemma unchanged_pure: "unchanged f (ret x)" "unchanged f (gets h)" "unchanged f (of_result r)" "unchanged f (raise e)" "unchanged f (guard b e)"
  by (simp_all add: unchanged_def run_simps run_guard)

lemma unchanged_attempt: "unchanged f m \<Longrightarrow> unchanged f (attempt m)"
  by (simp add: unchanged_def attempt_def split: prod.splits)

lemma unchanged_gather: "(\<And>x. unchanged f (g x)) \<Longrightarrow> unchanged f (gather g xs)"
  by (induction xs) (auto intro!: unchanged_bnd unchanged_attempt unchanged_pure)

lemmas unchanged_intros = unchanged_bnd unchanged_sq unchanged_modify unchanged_pure unchanged_attempt unchanged_gather

abbreviation listing :: "distributor \<Rightarrow> BuildRequestModel list option" where
  "listing s \<equiv> unclaimedBrdicts (bc s)"

lemma listing_kept:
  "unchanged listing (getBuildRequestForBrdict out b)" "unchanged listing (consult out answer)" "unchanged listing (canStartBuild out w r)"
  by (auto simp: getBuildRequestForBrdict_def canStartBuild_def run_waits intro!: unchanged_intros split: option.split)

lemma gather_results:
  "gather f xs s = (Inr ys, t) \<Longrightarrow> list_all2 (\<lambda>x y. \<exists>s t. f x s = (Inr y, t)) xs ys"
  by (induction xs arbitrary: ys s t)
    (auto simp: run_combinators attempt_def list_all2_Cons1 split: prod.splits sum.splits, blast+)

lemma getBuildRequestForBrdict_id: "getBuildRequestForBrdict out b s = (Inr (Some r), t) \<Longrightarrow> fst r = br_id b"
  by (auto simp: getBuildRequestForBrdict_def run_combinators choosing_def split: option.splits sum.splits prod.splits if_splits)

lemma set_by_priority [simp]: "set (by_priority u) = set u"
  by (simp add: by_priority_def)

lemma fetch_lists:
  "fetchUnclaimedBrdicts out s = (Inr x, t) \<Longrightarrow>
     \<exists>u. listing t = Some u \<and> (listing s = Some u \<or> listing s = None)"
  by (auto simp: fetchUnclaimedBrdicts_def run_waits run_combinators split: option.splits sum.splits)

lemma next_request_is_listed:
  assumes "getNextUnclaimedBuildRequest out s = (Inr (Some r), t)"
  shows "\<exists>u. listing t = Some u \<and> (listing s = Some u \<or> listing s = None) \<and> fst r \<in> br_id ` set u"
proof -
  obtain s1 u where fetch: "fetchUnclaimedBrdicts out s = (Inr (), s1)" and u: "unclaimed s1 = u" "u \<noteq> []"
    and rest: "(case builder_nextBuild out of
       Some nextBuild \<Rightarrow> bnd (getUnclaimedBuildRequests out) (\<lambda>breqs.
         bnd (attempt (consult out (\<lambda>s. nextBuild s breqs))) (\<lambda>r.
           ret (case r of Inl _ \<Rightarrow> None | Inr b \<Rightarrow> if b \<notin> set breqs then None else b)))
     | None \<Rightarrow> getBuildRequestForBrdict out (hd (by_priority u))) s1 = (Inr (Some r), t)"
    using assms by (auto simp: getNextUnclaimedBuildRequest_def run_sq run_bnd run_simps split: prod.splits sum.splits if_splits)
  from fetch_lists [OF fetch] u obtain s0 where l: "listing s1 = Some u" "listing s = Some u \<or> listing s = None"
    by (auto simp: unclaimed_def)
  show ?thesis
  proof (cases "builder_nextBuild out")
    case None
    then have "getBuildRequestForBrdict out (hd (by_priority u)) s1 = (Inr (Some r), t)" using rest by simp
    with getBuildRequestForBrdict_id unchanged_run [OF listing_kept(1)] u(2) l show ?thesis
      by (metis hd_in_set imageI set_by_priority set_empty)
  next
    case (Some nextBuild)
    then obtain breqs s2 y where g: "gather (getBuildRequestForBrdict out) u s1 = (Inr breqs, s2)" and r: "Some r \<in> set breqs"
      and asked: "attempt (consult out (\<lambda>s. nextBuild s breqs)) s2 = (y, t)"
      using rest u(1)
      by (auto simp: getUnclaimedBuildRequests_def run_bnd run_simps split: prod.splits sum.splits if_splits)
    note t = unchanged_run [OF unchanged_attempt [OF listing_kept(2)] asked]
    from gather_results [OF g] r obtain b s3 t3 where "b \<in> set u" "getBuildRequestForBrdict out b s3 = (Inr (Some r), t3)"
      by (fastforce simp: list_all2_conv_all_nth in_set_conv_nth)
    with getBuildRequestForBrdict_id have "b \<in> set u" "fst r = br_id b" by blast+
    then show ?thesis using l t unchanged_run [OF unchanged_gather [OF listing_kept(1)] g] by auto
  qed
qed

lemma find_worker_induct [consumes 1, case_names fails found none more]:
  assumes run: "find_worker out r w recycled s = (x, t)"
    and "\<And>w recycled s t e. canStartBuild out w r s = (Inl e, t) \<Longrightarrow> P w recycled s (Inl e) t"
    and "\<And>w recycled s t. canStartBuild out w r s = (Inr True, t) \<Longrightarrow> P w recycled s (Inr (Some w, recycled)) t"
    and "\<And>w recycled s t u. canStartBuild out w r s = (Inr False, t) \<Longrightarrow> popNextWorker out r t = (Inr None, u) \<Longrightarrow>
      P w recycled s (Inr (None, recycled @ [w])) u"
    and "\<And>w recycled s t v u x z. canStartBuild out w r s = (Inr False, t) \<Longrightarrow> popNextWorker out r t = (Inr (Some v), u) \<Longrightarrow>
      find_worker out r v (recycled @ [w]) u = (x, z) \<Longrightarrow> P v (recycled @ [w]) u x z \<Longrightarrow> P w recycled s x z"
  shows "P w recycled s x t"
  using run
proof (induction "length (workers_left s)" arbitrary: w recycled s x t rule: less_induct)
  case less
  obtain a u where can: "canStartBuild out w r s = (a, u)" by force
  note step = less.prems [unfolded find_worker.simps [of out r w recycled s] can]
  show ?case
  proof (cases a)
    case (Inl e)
    with step can assms(2) show ?thesis by auto
  next
    case (Inr ok)
    show ?thesis
    proof (cases ok)
      case True
      with Inr step can assms(3) show ?thesis by auto
    next
      case False
      obtain b z where pop: "popNextWorker out r u = (b, z)" by force
      consider "b = Inr None" | v where "b = Inr (Some v)" using popNextWorker_returns [of out r u] pop
        by (metis not_None_eq old.sum.exhaust)
      then show ?thesis
      proof cases
        case 1
        with Inr False step can pop assms(4) show ?thesis by auto
      next
        case (2 v)
        with step Inr False pop have rest: "find_worker out r v (recycled @ [w]) z = (x, t)" by simp
        have c: "canStartBuild out w r s = (Inr False, u)" and p: "popNextWorker out r u = (Inr (Some v), z)"
          using can Inr False pop 2 by simp_all
        show ?thesis
          by (rule assms(5) [OF c p rest less.hyps [OF find_worker_progress [OF c [symmetric] p [symmetric]] rest]])
      qed
    qed
  qed
qed

lemma find_worker_keeps: "find_worker out r w recycled s = (x, t) \<Longrightarrow> listing t = listing s"
  by (induction rule: find_worker_induct)
    (auto dest!: canStartBuild_chooser popNextWorker_stops popNextWorker_pops)

lemma refill_keeps: "unchanged listing (refill_workers out)"
  by (simp add: refill_workers_def unchanged_modify)

lemma worker_kept:
  assumes "sq (refill_workers out) (popNextWorker out r) s = (Inr (Some w), t)"
  shows "listing t = listing s"
proof -
  obtain s1 where "refill_workers out s = (Inr (), s1)" "popNextWorker out r s1 = (Inr (Some w), t)"
    using assms by (auto simp: run_sq refill_workers_def run_simps)
  then show ?thesis using popNextWorker_pops unchanged_run [OF refill_keeps] by metis
qed

lemma removeBuildRequest_shorter:
  assumes "unclaimedBrdicts c = Some u" "fst r \<in> br_id ` set u"
  shows "\<exists>v. unclaimedBrdicts (removeBuildRequest r c) = Some v \<and> length v < length u"
proof -
  obtain b where b: "find (\<lambda>b. fst r = br_id b) u = Some b"
    using assms(2) by (cases "find (\<lambda>b. fst r = br_id b) u") (auto simp: find_None_iff)
  then have "b \<in> set u" by (auto simp: find_Some_iff)
  then have "length (remove1 b u) < length u" 
    using length_pos_if_in_set [of b u] by (simp add: length_remove1)
  then show ?thesis using assms(1) b by (simp add: removeBuildRequest_def getBrdictForBuildRequest_def)
qed

text \<open>\<open>popNextBuild\<close>: \<open>None\<close> is the pair of two \<open>None\<close>.\<close>

function popNextBuild :: "surroundings \<Rightarrow> (distributor, (worker \<times> breq) option) prog" where
  "popNextBuild out s = (case getNextUnclaimedBuildRequest out s of
     (Inl e, t) \<Rightarrow> (Inl e, t)
   | (Inr None, t) \<Rightarrow> (Inr None, t)
   | (Inr (Some r), t) \<Rightarrow> (case sq (refill_workers out) (popNextWorker out r) t of
       (Inl e, u) \<Rightarrow> (Inl e, u)
     | (Inr None, u) \<Rightarrow> (Inr None, u)
     | (Inr (Some w), u) \<Rightarrow> (case sq (choosing (removeBuildRequest r)) (find_worker out r w []) u of
         (Inl e, v) \<Rightarrow> (Inl e, v)
       | (Inr (found, recycled), v) \<Rightarrow> (case choosing (unpopWorkers recycled) v of (_, z) \<Rightarrow>
           (case found of Some w' \<Rightarrow> (Inr (Some (w', r)), z) | None \<Rightarrow> popNextBuild out z)))))"
  by pat_completeness auto

lemma popNextBuild_progress:
  assumes "(Inr (Some r), t) = getNextUnclaimedBuildRequest out s"
    and "(Inr (Some w), u) = sq (refill_workers out) (popNextWorker out r) t"
    and "(Inr (found, recycled), v) = sq (choosing (removeBuildRequest r)) (find_worker out r w []) u"
    and "(x, z) = choosing (unpopWorkers recycled) v"
  shows "(z, s) \<in> measures [\<lambda>s. if listing s = None then 1 else 0, \<lambda>s. length (unclaimed s)]"
proof -
  obtain us where us: "listing t = Some us" "listing s = Some us \<or> listing s = None" "fst r \<in> br_id ` set us"
    using next_request_is_listed [OF assms(1) [symmetric]] by blast
  have "listing u = Some us" using us worker_kept [OF assms(2) [symmetric]] by simp
  then obtain vs where vs: "unclaimedBrdicts (removeBuildRequest r (bc u)) = Some vs" "length vs < length us"
    using removeBuildRequest_shorter us(3) by blast
  have "listing v = Some vs"
    using assms(3) [symmetric] find_worker_keeps vs(1) by (fastforce simp: run_sq choosing_def run_simps)
  then have "listing z = Some vs" using assms(4) by (simp add: choosing_def run_simps unpopWorkers_def)
  then show ?thesis using us(2) vs(2) by (auto simp: unclaimed_def)
qed

termination popNextBuild
  by (relation "inv_image (measures [\<lambda>s. if listing s = None then 1 else 0, \<lambda>s. length (unclaimed s)]) snd")
    (auto intro!: popNextBuild_progress simp del: in_measures)

declare popNextBuild.simps [simp del]

definition chooseNextBuild :: "surroundings \<Rightarrow> (distributor, (worker \<times> breq list) option) prog" where
  "chooseNextBuild out = bnd (popNextBuild out) (\<lambda>p. ret (case p of None \<Rightarrow> None | Some (w, r) \<Rightarrow> Some (w, [r])))"

section \<open>Claiming and starting\<close>

text \<open>What the botmaster remembers of requests that are being started.\<close>

definition add_in_progress_buildrequest :: "int \<Rightarrow> (desk, unit) prog" where
  "add_in_progress_buildrequest brid = modify (\<lambda>k. k\<lparr>starting := (starting k)(brid \<mapsto> None)\<rparr>)"

definition remove_in_progress_buildrequest :: "int \<Rightarrow> (desk, pystr option option) prog" where
  "remove_in_progress_buildrequest brid = bnd (gets (\<lambda>k. starting k brid)) (\<lambda>r.
     sq (modify (\<lambda>k. k\<lparr>starting := (starting k)(brid := None)\<rparr>)) (ret r))"

definition maybe_cancel_in_progress_buildrequest :: "int \<Rightarrow> pystr \<Rightarrow> (desk, unit) prog" where
  "maybe_cancel_in_progress_buildrequest brid reason = modify (\<lambda>k.
     if starting k brid \<noteq> None then k\<lparr>starting := (starting k)(brid \<mapsto> Some reason)\<rparr> else k)"

definition on_desk :: "(desk, 'a) prog \<Rightarrow> (distributor, 'a) prog" where
  "on_desk m = (\<lambda>s. case m (desk s) of (r, k) \<Rightarrow> (r, s\<lparr>desk := k\<rparr>))"

definition add_in_progress_brids :: "int list \<Rightarrow> (distributor, unit) prog" where
  "add_in_progress_brids brids = for_each brids (\<lambda>b. on_desk (add_in_progress_buildrequest b))"

definition remove_in_progress_brids :: "int list \<Rightarrow> (distributor, unit) prog" where
  "remove_in_progress_brids brids = for_each brids (\<lambda>b. sq (on_desk (remove_in_progress_buildrequest b)) (ret ()))"

definition claim_updates :: "surroundings \<Rightarrow> int list \<Rightarrow> int \<Rightarrow> (distributor, bool) prog" where
  "claim_updates out brids at = callDbBuildRequests brids
     (in_db out (claim_buildrequests_for_master brids at (masterid out)) (\<lambda>r. Claimed brids (r = Inr ())))
     (consult out (\<lambda>s. on_event out s brids))"

definition unclaim_updates :: "surroundings \<Rightarrow> int list \<Rightarrow> (distributor, unit) prog" where
  "unclaim_updates out brids = unclaimBuildRequests brids
     (in_db out (unclaim_buildrequests_for_master brids (masterid out)) (\<lambda>_. Unclaimed brids))
     (consult out (\<lambda>s. on_event out s brids))"

text \<open>\<open>Builder.maybeStartBuild\<close>; of \<open>_startBuildFor\<close> only that it may fail before the build has the worker.\<close>

definition maybeStartBuild :: "surroundings \<Rightarrow> worker \<Rightarrow> breq list \<Rightarrow> (distributor, bool) prog" where
  "maybeStartBuild out w breqs = bnd (gets (on_running out)) (\<lambda>run.
     if \<not> run then sq (record_deed (Declined w (map fst breqs))) (ret False) else
     sq (consult out (\<lambda>s. on_start out s w breqs))
     (bnd (gets (\<lambda>s. map (\<lambda>r. claimed_by (at_db (desk s)) (fst r)) breqs)) (\<lambda>holders.
      sq (record_deed (Started w (map fst breqs) holders)) (ret True))))"

text \<open>While the master shuts down cleanly, only requests that a running build waits for are served.\<close>

definition waited_children :: "surroundings \<Rightarrow> breq list \<Rightarrow> (distributor, breq list) prog" where
  "waited_children out breqs = bnd (gets (only_waited_childs out)) (\<lambda>only. if \<not> only then ret breqs else
     let buildset_ids = map (\<lambda>r. bsid (snd r)) (filter (\<lambda>r. waitedFor (snd r)) breqs) in
     if buildset_ids = [] then ret [] else
     bnd (consult out (\<lambda>s. on_buildsets out s buildset_ids)) (\<lambda>parented.
       ret (filter (\<lambda>r. bsid (snd r) \<in> set parented) breqs)))"

text \<open>
  The loop of \<open>_maybeStartBuildsOnBuilder\<close>: whether it ended. It may go on as long as others claim first, so the number
  of its turns is bounded by an argument.
\<close>

primrec start_builds :: "nat \<Rightarrow> surroundings \<Rightarrow> (distributor, bool) prog" where
  "start_builds 0 out = ret False"
| "start_builds (Suc n) out = bnd (chooseNextBuild out) (\<lambda>chosen. case chosen of None \<Rightarrow> ret True | Some (w, chosen_breqs) \<Rightarrow>
     bnd (waited_children out chosen_breqs) (\<lambda>breqs. if breqs = [] then start_builds n out else
     let brids = map fst breqs in
     bnd (gets (seconds out)) (\<lambda>claimed_at.
     sq (add_in_progress_brids brids)
     (bnd (claim_updates out brids claimed_at) (\<lambda>ok. if \<not> ok then sq (createBuildChooser out) (start_builds n out) else
      bnd (maybeStartBuild out w breqs) (\<lambda>buildStarted.
       sq (if \<not> buildStarted
           then sq (unclaim_updates out brids)
               (sq (remove_in_progress_brids brids) (record_deed (Reminded (service_name out))))
           else ret ())
          (start_builds n out)))))))"

definition maybeStartBuildsOnBuilder :: "nat \<Rightarrow> surroundings \<Rightarrow> (distributor, bool) prog" where
  "maybeStartBuildsOnBuilder n out = sq (createBuildChooser out) (start_builds n out)"

section \<open>Cancelling\<close>

text \<open>
  \<open>_buildrequest_canceled\<close> of the botmaster, undisturbed between its calls: the messages it sends. \<open>builds\<close> are the
  builds of the request.
\<close>

datatype message = Stop_build int pystr | Request_cancelled int

definition at_requests :: "(request_db, 'a) prog \<Rightarrow> (desk, 'a) prog" where
  "at_requests m = (\<lambda>k. case m (at_db k) of (r, d) \<Rightarrow> (r, k\<lparr>at_db := d\<rparr>))"

definition buildrequest_canceled :: "int \<Rightarrow> int \<Rightarrow> int list \<Rightarrow> int \<Rightarrow> pystr \<Rightarrow> (desk, message list) prog" where
  "buildrequest_canceled master at builds brid reason =
     bnd (try_except (sq (at_requests (claim_buildrequests_for_master [brid] at master)) (ret True))
           (\<lambda>e. if e = AlreadyClaimedError then ret False else raise e)) (\<lambda>claimed.
     if \<not> claimed
     then sq (maybe_cancel_in_progress_buildrequest brid reason) (ret (map (\<lambda>b. Stop_build b reason) builds))
     else bnd (completeBuildRequests [brid] CANCELLED (at_requests (db_completeBuildRequests [brid] CANCELLED)) (ret ()))
            (\<lambda>_. ret [Request_cancelled brid]))"

end
