(* ===== verification/Bb_Distributor_Facts.thy ===== *)
theory Bb_Distributor_Facts
  imports Bb_Distributor
begin

text \<open>
  What the distribution of the requests of one builder guarantees: the order of judging, claiming, starting and
  unclaiming in every run, whatever happens outside (\<open>well_ordered\<close>); that a build only starts while this master has the
  claims on its requests; which request is chosen; and that the loop ends.
\<close>

section \<open>The happenings of a run\<close>

text \<open>\<open>reports P m\<close>: every run of \<open>m\<close> adds happenings, which \<open>P\<close> relates to its outcome.\<close>

definition reports :: "(exn + 'a \<Rightarrow> deed list \<Rightarrow> bool) \<Rightarrow> (distributor, 'a) prog \<Rightarrow> bool" where
  "reports P m \<longleftrightarrow> (\<forall>s x t. m s = (x, t) \<longrightarrow> (\<exists>es. happened t = happened s @ es \<and> P x es))"

abbreviation silent :: "(distributor, 'a) prog \<Rightarrow> bool" where
  "silent m \<equiv> unchanged happened m"

lemma reports_run: "reports P m \<Longrightarrow> m s = (x, t) \<Longrightarrow> \<exists>es. happened t = happened s @ es \<and> P x es"
  by (simp add: reports_def)

lemma reports_silent: "silent m \<Longrightarrow> (\<And>x. P x []) \<Longrightarrow> reports P m"
  by (simp add: reports_def unchanged_def)

lemma reports_bnd:
  assumes "reports P m" "\<And>x. reports (\<lambda>y es'. \<forall>es. P (Inr x) es \<longrightarrow> Q y (es @ es')) (f x)"
    "\<And>e es. P (Inl e) es \<Longrightarrow> Q (Inl e) es"
  shows "reports Q (bnd m f)"
  unfolding reports_def
proof (intro allI impI)
  fix s x t
  assume run: "bnd m f s = (x, t)"
  obtain a u where m: "m s = (a, u)" by force
  with reports_run [OF assms(1)] obtain es where es: "happened u = happened s @ es" "P a es" by blast
  show "\<exists>es. happened t = happened s @ es \<and> Q x es"
  proof (cases a)
    case (Inl e)
    with run m es assms(3) show ?thesis by (auto simp: run_bnd)
  next
    case (Inr y)
    with run m have "f y u = (x, t)" by (simp add: run_bnd)
    from reports_run [OF assms(2) this] obtain es' where "happened t = happened u @ es'" "Q x (es @ es')"
      using es(2) Inr by blast
    with es(1) show ?thesis by auto
  qed
qed

lemma reports_after_silent:
  assumes "silent m" "\<And>x. reports Q (f x)" "\<And>e. Q (Inl e) []"
  shows "reports Q (bnd m f)"
  by (rule reports_bnd [where P = "\<lambda>_ es. es = []"]) (use assms in \<open>auto intro: reports_silent\<close>)

lemma reports_after_silent_sq:
  assumes "silent m" "reports Q n" "\<And>e. Q (Inl e) []"
  shows "reports Q (sq m n)"
  unfolding sq_def using assms by (intro reports_after_silent)

lemma reports_weaken: "reports P m \<Longrightarrow> (\<And>x es. P x es \<Longrightarrow> Q x es) \<Longrightarrow> reports Q m"
  by (fastforce simp: reports_def)

lemma silent_steps:
  "silent (await out)" "silent (consult out answer)" "silent (choosing f)" "silent (refill_workers out)"
  "silent (createBuildChooser out)" "silent (on_desk m)"
  by (auto simp: run_waits refill_workers_def createBuildChooser_def on_desk_def unchanged_def run_combinators
      split: prod.splits sum.splits)

lemma silent_for_each: "(\<And>x. silent (f x)) \<Longrightarrow> silent (for_each xs f)"
  by (induction xs) (auto intro!: unchanged_intros)

lemma silent_chooser:
  "silent (fetchUnclaimedBrdicts out)" "silent (getBuildRequestForBrdict out b)" "silent (getNextUnclaimedBuildRequest out)"
  "silent (popNextWorker out r)"
proof -
  show one: "silent (fetchUnclaimedBrdicts out)" and two: "silent (getBuildRequestForBrdict out b)" for b
    by (auto simp: fetchUnclaimedBrdicts_def getBuildRequestForBrdict_def intro!: unchanged_intros silent_steps split: option.split)
  show "silent (getNextUnclaimedBuildRequest out)"
    by (auto simp: getNextUnclaimedBuildRequest_def getUnclaimedBuildRequests_def
        intro!: unchanged_intros one two silent_steps split: option.split)
  show "silent (popNextWorker out r)"
    by (auto simp: popNextWorker_def intro!: unchanged_intros silent_steps split: list.split sum.split option.split)
qed

text \<open>Choosing only judges workers, and a worker that was chosen was judged last, and fit.\<close>

definition refusal :: "deed \<Rightarrow> bool" where
  "refusal h \<longleftrightarrow> (\<exists>w b. h = Judged w b False)"

definition chosen_last :: "(worker \<times> int) option \<Rightarrow> deed list \<Rightarrow> bool" where
  "chosen_last c es \<longleftrightarrow> (case c of None \<Rightarrow> list_all refusal es
     | Some (w, b) \<Rightarrow> \<exists>js. es = js @ [Judged w b True] \<and> list_all refusal js)"

lemma chosen_last_None [simp]: "chosen_last None es = list_all refusal es"
  by (simp add: chosen_last_def)

lemma chosen_last_append: "list_all refusal es \<Longrightarrow> chosen_last c es' \<Longrightarrow> chosen_last c (es @ es')"
  by (fastforce simp: chosen_last_def split: option.splits)

lemma find_worker_tells:
  "find_worker out r w recycled s = (x, t) \<Longrightarrow> \<exists>es. happened t = happened s @ es
     \<and> chosen_last (case x of Inl _ \<Rightarrow> None | Inr (found, _) \<Rightarrow> map_option (\<lambda>w. (w, fst r)) found) es"
proof (induction rule: find_worker_induct)
  case (more w recycled s t v u x z)
  then obtain es where es: "happened z = happened u @ es"
    "chosen_last (case x of Inl _ \<Rightarrow> None | Inr (found, _) \<Rightarrow> map_option (\<lambda>w. (w, fst r)) found) es" by blast
  have "happened u = happened s @ [Judged w (fst r) False]"
    using more unchanged_run [OF silent_chooser(4)] by (auto simp: canStartBuild_run Let_def split: sum.splits)
  with es show ?case
    using chosen_last_append [of "[Judged w (fst r) False]" _ es] by (auto simp: refusal_def)
next
  case (none w recycled s t u)
  then have "happened u = happened s @ [Judged w (fst r) False]"
    using unchanged_run [OF silent_chooser(4)] by (auto simp: canStartBuild_run Let_def split: sum.splits)
  then show ?case by (simp add: refusal_def)
qed (auto simp: canStartBuild_run Let_def chosen_last_def split: sum.splits)

text \<open>One turn of \<open>popNextBuild\<close>, as the rest of the development sees it.\<close>

lemma popNextBuild_induct [consumes 1, case_names fails_to_choose no_request no_worker fails_to_judge found more]:
  assumes run: "popNextBuild out s = (x, t)"
    and "\<And>s e t. getNextUnclaimedBuildRequest out s = (Inl e, t) \<Longrightarrow> P s (Inl e) t"
    and "\<And>s t. getNextUnclaimedBuildRequest out s = (Inr None, t) \<Longrightarrow> P s (Inr None) t"
    and "\<And>s r t u v. getNextUnclaimedBuildRequest out s = (Inr (Some r), t) \<Longrightarrow> refill_workers out t = (Inr (), u) \<Longrightarrow>
      popNextWorker out r u = (Inr None, v) \<Longrightarrow> P s (Inr None) v"
    and "\<And>s r t u w v e z. getNextUnclaimedBuildRequest out s = (Inr (Some r), t) \<Longrightarrow> refill_workers out t = (Inr (), u) \<Longrightarrow>
      popNextWorker out r u = (Inr (Some w), v) \<Longrightarrow>
      find_worker out r w [] (v\<lparr>bc := removeBuildRequest r (bc v)\<rparr>) = (Inl e, z) \<Longrightarrow> P s (Inl e) z"
    and "\<And>s r t u w v w' recycled z. getNextUnclaimedBuildRequest out s = (Inr (Some r), t) \<Longrightarrow> refill_workers out t = (Inr (), u) \<Longrightarrow>
      popNextWorker out r u = (Inr (Some w), v) \<Longrightarrow>
      find_worker out r w [] (v\<lparr>bc := removeBuildRequest r (bc v)\<rparr>) = (Inr (Some w', recycled), z) \<Longrightarrow>
      P s (Inr (Some (w', r))) (z\<lparr>bc := unpopWorkers recycled (bc z)\<rparr>)"
    and "\<And>s r t u w v recycled z x a. getNextUnclaimedBuildRequest out s = (Inr (Some r), t) \<Longrightarrow> refill_workers out t = (Inr (), u) \<Longrightarrow>
      popNextWorker out r u = (Inr (Some w), v) \<Longrightarrow>
      find_worker out r w [] (v\<lparr>bc := removeBuildRequest r (bc v)\<rparr>) = (Inr (None, recycled), z) \<Longrightarrow>
      popNextBuild out (z\<lparr>bc := unpopWorkers recycled (bc z)\<rparr>) = (x, a) \<Longrightarrow>
      P (z\<lparr>bc := unpopWorkers recycled (bc z)\<rparr>) x a \<Longrightarrow> P s x a"
  shows "P s x t"
  using run
proof (induction s arbitrary: x t rule: wf_induct_rule
    [OF wf_measures [of "[\<lambda>s. if listing s = None then 1 else 0, \<lambda>s. length (unclaimed s)]"]])
  case (1 s)
  obtain a s1 where asked: "getNextUnclaimedBuildRequest out s = (a, s1)" by force
  note step = "1.prems" [unfolded popNextBuild.simps [of out s] asked]
  consider e where "a = Inl e" | "a = Inr None" | r where "a = Inr (Some r)"
    by (metis not_None_eq old.sum.exhaust)
  then show ?case
  proof cases
    case 1
    then show ?thesis using step asked assms(2) by auto
  next
    case 2
    then show ?thesis using step asked assms(3) by auto
  next
    case (3 r)
    note asked = asked [unfolded 3]
    obtain s2 where refill: "refill_workers out s1 = (Inr (), s2)" by (auto simp: refill_workers_def run_simps)
    obtain b s3 where pop: "popNextWorker out r s2 = (b, s3)" by force
    consider "b = Inr None" | w where "b = Inr (Some w)"
      using popNextWorker_returns [of out r s2] pop by (metis not_None_eq old.sum.exhaust)
    then show ?thesis
    proof cases
      case 1
      then show ?thesis using step asked 3 refill pop assms(4) by (auto simp: run_sq)
    next
      case (2 w)
      note pop = pop [unfolded 2]
      obtain c s4 where search: "find_worker out r w [] (s3\<lparr>bc := removeBuildRequest r (bc s3)\<rparr>) = (c, s4)" by force
      note step = step [unfolded 3 run_sq choosing_def run_simps, simplified refill pop search]
      consider e where "c = Inl e" | recycled w' where "c = Inr (Some w', recycled)" | recycled where "c = Inr (None, recycled)"
        by (metis not_None_eq old.sum.exhaust surj_pair)
      then show ?thesis
      proof cases
        case (1 e)
        then show ?thesis using step assms(5) [OF asked refill pop] search refill pop by simp
      next
        case (2 recycled w')
        then show ?thesis using step assms(6) [OF asked refill pop] search refill pop by simp
      next
        case recycling: (3 recycled)
        let ?z = "s4\<lparr>bc := unpopWorkers recycled (bc s4)\<rparr>"
        have rest: "popNextBuild out ?z = (x, t)" using step recycling search refill pop by simp
        have "(?z, s) \<in> measures [\<lambda>s. if listing s = None then 1 else 0, \<lambda>s. length (unclaimed s)]"
          by (rule popNextBuild_progress [OF asked [symmetric], of w s3 None recycled s4 "Inr ()"])
            (use search recycling in \<open>simp_all add: run_sq choosing_def run_simps refill pop\<close>)
        from "1.IH" [OF this rest] show ?thesis
          using assms(7) [OF asked refill pop] search rest recycling by simp
      qed
    qed
  qed
qed

lemma refill_silent: "refill_workers out s = (x, t) \<Longrightarrow> happened t = happened s"
  using unchanged_run [OF silent_steps(4)] by blast

lemma turn_silent:
  assumes "getNextUnclaimedBuildRequest out s = (x, t)" "refill_workers out t = (Inr (), u)" "popNextWorker out r u = (y, v)"
  shows "happened v = happened s"
  using unchanged_run [OF silent_chooser(3) assms(1)] refill_silent [OF assms(2)] unchanged_run [OF silent_chooser(4) assms(3)] by simp

lemma popNextBuild_tells:
  "popNextBuild out s = (x, t) \<Longrightarrow> \<exists>es. happened t = happened s @ es
     \<and> chosen_last (case x of Inl _ \<Rightarrow> None | Inr c \<Rightarrow> map_option (\<lambda>(w, r). (w, fst r)) c) es"
proof (induction rule: popNextBuild_induct)
  case (fails_to_choose s e t)
  then show ?case using unchanged_run [OF silent_chooser(3)] by simp
next
  case (no_request s t)
  then show ?case using unchanged_run [OF silent_chooser(3)] by simp
next
  case (no_worker s r t u v)
  then show ?case using turn_silent [OF no_worker] by simp
next
  case (fails_to_judge s r t u w v e z)
  then show ?case using find_worker_tells [OF fails_to_judge(4)] turn_silent [OF fails_to_judge(1-3)] by simp
next
  case (found s r t u w v w' recycled z)
  then show ?case using find_worker_tells [OF found(4)] turn_silent [OF found(1-3)] by simp
next
  case (more s r t u w v recycled z x a)
  obtain es where es: "happened z = happened s @ es" "list_all refusal es"
    using find_worker_tells [OF more(4)] turn_silent [OF more(1-3)] by auto
  obtain es' where "happened a = happened z @ es'"
    "chosen_last (case x of Inl _ \<Rightarrow> None | Inr c \<Rightarrow> map_option (\<lambda>(w, r). (w, fst r)) c) es'"
    using more(6) by auto
  with es chosen_last_append [OF es(2)] show ?case by auto
qed

section \<open>The order of a run\<close>

text \<open>
  A run in order: workers are judged; a worker that fits is passed on, or the request is claimed next. If the claim
  failed, the choice begins anew; if it succeeded, the build is started next on just this worker with just this
  request, or the request is unclaimed at once and the botmaster reminded. Only an error outside breaks a run off.
\<close>

inductive well_ordered :: "deed list \<Rightarrow> bool" where
  nothing: "well_ordered []"
| refused: "well_ordered es \<Longrightarrow> well_ordered (Judged w b False # es)"
| passed_on: "well_ordered es \<Longrightarrow> well_ordered (Judged w b True # es)"
| too_late: "well_ordered es \<Longrightarrow> well_ordered (Judged w b True # Claimed [b] False # es)"
| started: "well_ordered es \<Longrightarrow> well_ordered (Judged w b True # Claimed [b] True # Started w [b] [h] # es)"
| declined: "well_ordered es \<Longrightarrow>
    well_ordered (Judged w b True # Claimed [b] True # Declined w [b] # Unclaimed [b] # Reminded n # es)"
| start_failed: "well_ordered [Judged w b True, Claimed [b] True]"
| unclaim_failed: "well_ordered [Judged w b True, Claimed [b] True, Declined w [b]]"
| announce_failed: "well_ordered [Judged w b True, Claimed [b] True, Declined w [b], Unclaimed [b]]"

code_pred well_ordered .

lemma well_ordered_refusals: "list_all refusal js \<Longrightarrow> well_ordered es \<Longrightarrow> well_ordered (js @ es)"
  by (induction js) (auto simp: refusal_def intro: well_ordered.intros)

lemma well_ordered_chosen:
  assumes "chosen_last (Some (w, b)) js" "well_ordered (Judged w b True # es)"
  shows "well_ordered (js @ es)"
  using assms well_ordered_refusals by (fastforce simp: chosen_last_def)

text \<open>Claiming, starting and unclaiming.\<close>

abbreviation waited :: "surroundings \<Rightarrow> distributor \<Rightarrow> distributor" where
  "waited out s \<equiv> s\<lparr>desk := meanwhile out s, turns := Suc (turns s)\<rparr>"

lemma consult_run: "consult out answer s = (answer (waited out s), waited out s)"
  by (simp add: run_waits run_combinators)

lemma in_db_run:
  "in_db out m h s = (let s1 = waited out s in if \<not> on_database out s1 then (Inl DatabaseError, s1)
     else case m (at_db (desk s1)) of (r, d) \<Rightarrow> (r, s1\<lparr>desk := (desk s1)\<lparr>at_db := d\<rparr>, happened := happened s1 @ [h r]\<rparr>))"
  by (simp add: in_db_def run_waits run_combinators Let_def)

definition with_claim :: "int \<Rightarrow> (int \<times> int) option \<Rightarrow> distributor \<Rightarrow> distributor" where
  "with_claim b c s = s\<lparr>desk := (desk s)\<lparr>at_db := (at_db (desk s))\<lparr>claims := (claims (at_db (desk s)))(b := c)\<rparr>\<rparr>\<rparr>"

definition with_deed :: "deed \<Rightarrow> distributor \<Rightarrow> distributor" where
  "with_deed h s = s\<lparr>happened := happened s @ [h]\<rparr>"

lemma claim_updates_run:
  "claim_updates out [b] at s = (let s1 = waited out s in if \<not> on_database out s1 then (Inl DatabaseError, s1)
     else if claims (at_db (desk s1)) b \<noteq> None then (Inr False, with_deed (Claimed [b] False) s1)
     else let s2 = waited out (with_deed (Claimed [b] True) (with_claim b (Some (masterid out, at)) s1)) in
       (case on_event out s2 [b] of Inl e \<Rightarrow> (Inl e, s2) | Inr _ \<Rightarrow> (Inr True, s2)))"
proof -
  have one: "(\<lambda>x. if x = b then Some p else c x) = c(b \<mapsto> p)" for p and c :: "int \<rightharpoonup> int \<times> int"
    by (simp add: fun_eq_iff)
  show ?thesis
    by (cases "claims (at_db (meanwhile out s)) b")
      (auto simp: claim_updates_def callDbBuildRequests_def run_combinators in_db_run consult_run claim_transaction_run Let_def
        with_claim_def with_deed_def one split: sum.split)
qed

definition after_unclaim :: "surroundings \<Rightarrow> int \<Rightarrow> distributor \<Rightarrow> distributor" where
  "after_unclaim out b s = s\<lparr>desk := (desk s)\<lparr>at_db := snd (unclaim_buildrequests_for_master [b] (masterid out) (at_db (desk s)))\<rparr>,
     happened := happened s @ [Unclaimed [b]]\<rparr>"

lemma unclaim_updates_run:
  "unclaim_updates out [b] s = (let s1 = waited out s in if \<not> on_database out s1 then (Inl DatabaseError, s1)
     else let s2 = waited out (after_unclaim out b s1) in
       (case on_event out s2 [b] of Inl e \<Rightarrow> (Inl e, s2) | Inr u \<Rightarrow> (Inr u, s2)))"
  by (simp add: unclaim_updates_def unclaimBuildRequests_def run_combinators in_db_run consult_run after_unclaim_def
      unclaim_run Let_def split: sum.split)

lemma maybeStartBuild_run:
  "maybeStartBuild out w [r] s = (if \<not> on_running out s then (Inr False, with_deed (Declined w [fst r]) s)
     else let s1 = waited out s in case on_start out s1 w [r] of Inl e \<Rightarrow> (Inl e, s1)
       | Inr _ \<Rightarrow> (Inr True, with_deed (Started w [fst r] [claimed_by (at_db (desk s1)) (fst r)]) s1))"
  by (simp add: maybeStartBuild_def record_deed_def run_combinators consult_run Let_def with_deed_def split: sum.split)

text \<open>
  The loop as a relation, one rule for each way through a turn; \<open>distributes out n s x t\<close> if from \<open>s\<close> at most \<open>n\<close> turns
  end in \<open>t\<close> with the outcome \<open>x\<close>. The request, worker and states of a turn are its variables.
\<close>

inductive distributes :: "surroundings \<Rightarrow> nat \<Rightarrow> distributor \<Rightarrow> exn + bool \<Rightarrow> distributor \<Rightarrow> bool" for out where
  out_of_turns: "distributes out 0 s (Inr False) s"
| choice_fails: "popNextBuild out s = (Inl e, t) \<Longrightarrow> distributes out (Suc n) s (Inl e) t"
| nothing_chosen: "popNextBuild out s = (Inr None, t) \<Longrightarrow> distributes out (Suc n) s (Inr True) t"
| children_fail: "popNextBuild out s = (Inr (Some (w, r)), s1) \<Longrightarrow> waited_children out [r] s1 = (Inl e, t) \<Longrightarrow>
    distributes out (Suc n) s (Inl e) t"
| passes: "popNextBuild out s = (Inr (Some (w, r)), s1) \<Longrightarrow> waited_children out [r] s1 = (Inr [], s2) \<Longrightarrow>
    distributes out n s2 x t \<Longrightarrow> distributes out (Suc n) s x t"
| claim_fails: "popNextBuild out s = (Inr (Some (w, r)), s1) \<Longrightarrow> waited_children out [r] s1 = (Inr [r], s2) \<Longrightarrow>
    add_in_progress_brids [fst r] s2 = (Inr (), s3) \<Longrightarrow> claim_updates out [fst r] (seconds out s2) s3 = (Inl e, t) \<Longrightarrow>
    distributes out (Suc n) s (Inl e) t"
| comes_late: "popNextBuild out s = (Inr (Some (w, r)), s1) \<Longrightarrow> waited_children out [r] s1 = (Inr [r], s2) \<Longrightarrow>
    add_in_progress_brids [fst r] s2 = (Inr (), s3) \<Longrightarrow> claim_updates out [fst r] (seconds out s2) s3 = (Inr False, s4) \<Longrightarrow>
    createBuildChooser out s4 = (Inr (), s5) \<Longrightarrow> distributes out n s5 x t \<Longrightarrow> distributes out (Suc n) s x t"
| start_fails: "popNextBuild out s = (Inr (Some (w, r)), s1) \<Longrightarrow> waited_children out [r] s1 = (Inr [r], s2) \<Longrightarrow>
    add_in_progress_brids [fst r] s2 = (Inr (), s3) \<Longrightarrow> claim_updates out [fst r] (seconds out s2) s3 = (Inr True, s4) \<Longrightarrow>
    maybeStartBuild out w [r] s4 = (Inl e, t) \<Longrightarrow> distributes out (Suc n) s (Inl e) t"
| starts: "popNextBuild out s = (Inr (Some (w, r)), s1) \<Longrightarrow> waited_children out [r] s1 = (Inr [r], s2) \<Longrightarrow>
    add_in_progress_brids [fst r] s2 = (Inr (), s3) \<Longrightarrow> claim_updates out [fst r] (seconds out s2) s3 = (Inr True, s4) \<Longrightarrow>
    maybeStartBuild out w [r] s4 = (Inr True, s5) \<Longrightarrow> distributes out n s5 x t \<Longrightarrow> distributes out (Suc n) s x t"
| unclaim_fails: "popNextBuild out s = (Inr (Some (w, r)), s1) \<Longrightarrow> waited_children out [r] s1 = (Inr [r], s2) \<Longrightarrow>
    add_in_progress_brids [fst r] s2 = (Inr (), s3) \<Longrightarrow> claim_updates out [fst r] (seconds out s2) s3 = (Inr True, s4) \<Longrightarrow>
    maybeStartBuild out w [r] s4 = (Inr False, s5) \<Longrightarrow> unclaim_updates out [fst r] s5 = (Inl e, t) \<Longrightarrow>
    distributes out (Suc n) s (Inl e) t"
| unclaims: "popNextBuild out s = (Inr (Some (w, r)), s1) \<Longrightarrow> waited_children out [r] s1 = (Inr [r], s2) \<Longrightarrow>
    add_in_progress_brids [fst r] s2 = (Inr (), s3) \<Longrightarrow> claim_updates out [fst r] (seconds out s2) s3 = (Inr True, s4) \<Longrightarrow>
    maybeStartBuild out w [r] s4 = (Inr False, s5) \<Longrightarrow> unclaim_updates out [fst r] s5 = (Inr (), s6) \<Longrightarrow>
    remove_in_progress_brids [fst r] s6 = (Inr (), s7) \<Longrightarrow>
    distributes out n (with_deed (Reminded (service_name out)) s7) x t \<Longrightarrow> distributes out (Suc n) s x t"

lemma waited_children_one:
  "waited_children out [r] s = (Inr rs, t) \<Longrightarrow> rs = [] \<or> rs = [r]"
  by (auto simp: waited_children_def run_combinators consult_run Let_def split: if_splits sum.splits)

lemma in_progress_run:
  "add_in_progress_brids [b] s = (Inr (), s\<lparr>desk := (desk s)\<lparr>starting := (starting (desk s))(b \<mapsto> None)\<rparr>\<rparr>)"
  "remove_in_progress_brids [b] s = (Inr (), s\<lparr>desk := (desk s)\<lparr>starting := (starting (desk s))(b := None)\<rparr>\<rparr>)"
  by (simp_all add: add_in_progress_brids_def remove_in_progress_brids_def on_desk_def add_in_progress_buildrequest_def
      remove_in_progress_buildrequest_def run_combinators)

lemma start_builds_turn:
  assumes "popNextBuild out s = (Inr (Some (w, r)), s1)"
  shows "start_builds (Suc n) out s = bnd (waited_children out [r]) (\<lambda>breqs. if breqs = [] then start_builds n out else
     let brids = map fst breqs in
     bnd (gets (seconds out)) (\<lambda>claimed_at.
     sq (add_in_progress_brids brids)
     (bnd (claim_updates out brids claimed_at) (\<lambda>ok. if \<not> ok then sq (createBuildChooser out) (start_builds n out) else
      bnd (maybeStartBuild out w breqs) (\<lambda>buildStarted.
       sq (if \<not> buildStarted
           then sq (unclaim_updates out brids)
               (sq (remove_in_progress_brids brids) (record_deed (Reminded (service_name out))))
           else ret ())
          (start_builds n out)))))) s1"
  unfolding start_builds.simps chooseNextBuild_def by (simp add: run_bnd run_simps assms)

lemma start_builds_distributes:
  "start_builds n out s = (x, t) \<Longrightarrow> distributes out n s x t"
proof (induction n arbitrary: s x t)
  case 0
  then show ?case by (auto simp: run_simps intro: out_of_turns)
next
  case (Suc n)
  obtain c s1 where pop: "popNextBuild out s = (c, s1)" by force
  consider e where "c = Inl e" | "c = Inr None" | w r where "c = Inr (Some (w, r))"
    by (metis not_None_eq old.sum.exhaust surj_pair)
  then show ?case
  proof cases
    case (1 e)
    then show ?thesis using Suc.prems pop by (auto simp: chooseNextBuild_def run_bnd intro: choice_fails)
  next
    case 2
    then show ?thesis using Suc.prems pop by (auto simp: chooseNextBuild_def run_bnd run_simps intro: nothing_chosen)
  next
    case (3 w r)
    note pop = pop [unfolded 3]
    obtain d s2 where kids: "waited_children out [r] s1 = (d, s2)" by force
    note turn = Suc.prems [unfolded start_builds_turn [OF pop] run_bnd kids]
    consider e where "d = Inl e" | "d = Inr []" | "d = Inr [r]"
      using waited_children_one kids by (metis old.sum.exhaust)
    then show ?thesis
    proof cases
      case (1 e)
      then show ?thesis using turn kids children_fail [OF pop, of e s2] by auto
    next
      case 2
      then show ?thesis using turn kids passes [OF pop, of s2] Suc.IH by simp
    next
      case 3
      note kids = kids [unfolded 3]
      obtain s3 where add: "add_in_progress_brids [fst r] s2 = (Inr (), s3)" using in_progress_run(1) by blast
      obtain ok s4 where claim: "claim_updates out [fst r] (seconds out s2) s3 = (ok, s4)" by force
      obtain st s5 where start: "maybeStartBuild out w [r] s4 = (st, s5)" by force
      obtain un s6 where undo: "unclaim_updates out [fst r] s5 = (un, s6)" by force
      obtain s7 where remove: "remove_in_progress_brids [fst r] s6 = (Inr (), s7)" using in_progress_run(2) by blast
      obtain s8 where new: "createBuildChooser out s4 = (Inr (), s8)" by (simp add: createBuildChooser_def run_simps)
      note turn = turn [unfolded 3, simplified run_bnd run_sq run_simps Let_def record_deed_def, simplified,
          unfolded run_simps add, simplified, unfolded claim, simplified]
      consider e where "ok = Inl e" | "ok = Inr False" | "ok = Inr True" by (metis old.sum.exhaust)
      then show ?thesis
      proof cases
        case (1 e)
        then show ?thesis using turn claim_fails [OF pop kids add] claim by auto
      next
        case 2
        then show ?thesis using turn comes_late [OF pop kids add _ new Suc.IH] claim new by (simp add: run_sq)
      next
        case claimed: 3
        note started = claim [unfolded claimed]
        consider e where "st = Inl e" | "st = Inr False" | "st = Inr True" by (metis old.sum.exhaust)
        then show ?thesis
        proof cases
          case (1 e)
          then show ?thesis using turn start_fails [OF pop kids add started] start claimed by (auto simp: run_bnd)
        next
          case 2
          show ?thesis
          proof (cases un)
            case (Inl e)
            then show ?thesis using turn unclaim_fails [OF pop kids add started start [unfolded 2]] undo claimed start 2
              by (auto simp: run_bnd run_sq)
          next
            case (Inr u)
            then show ?thesis using turn unclaims [OF pop kids add started start [unfolded 2] _ remove Suc.IH] undo claimed start 2 remove
              by (simp add: run_bnd run_sq record_deed_def run_simps with_deed_def)
          qed
        next
          case 3
          then show ?thesis using turn starts [OF pop kids add started _ Suc.IH] start claimed
            by (simp add: run_bnd run_sq run_simps)
        qed
      qed
    qed
  qed
qed

text \<open>What each part of a turn tells.\<close>

lemma children_silent: "waited_children out rs s = (x, t) \<Longrightarrow> happened t = happened s"
  by (auto simp: waited_children_def run_combinators consult_run Let_def split: if_splits sum.splits)

lemma waited_tells: "happened (waited out s) = happened s" "happened (with_claim b c s) = happened s"
  "happened (with_deed h s) = happened s @ [h]" "happened (after_unclaim out b s) = happened s @ [Unclaimed [b]]"
  by (simp_all add: with_claim_def with_deed_def after_unclaim_def)

lemma claim_tells:
  "claim_updates out [b] at s = (Inr ok, t) \<Longrightarrow> happened t = happened s @ [Claimed [b] ok]"
  "claim_updates out [b] at s = (Inl e, t) \<Longrightarrow> happened t = happened s \<or> happened t = happened s @ [Claimed [b] True]"
  by (auto simp: claim_updates_run Let_def waited_tells split: if_splits sum.splits)

lemma start_tells:
  "maybeStartBuild out w [r] s = (Inl e, t) \<Longrightarrow> happened t = happened s"
  "maybeStartBuild out w [r] s = (Inr False, t) \<Longrightarrow> happened t = happened s @ [Declined w [fst r]]"
  "maybeStartBuild out w [r] s = (Inr True, t) \<Longrightarrow> \<exists>h. happened t = happened s @ [Started w [fst r] [h]]"
  by (auto simp: maybeStartBuild_run Let_def waited_tells split: if_splits sum.splits)

lemma unclaim_tells:
  "unclaim_updates out [b] s = (Inr u, t) \<Longrightarrow> happened t = happened s @ [Unclaimed [b]]"
  "unclaim_updates out [b] s = (Inl e, t) \<Longrightarrow> happened t = happened s \<or> happened t = happened s @ [Unclaimed [b]]"
  by (auto simp: unclaim_updates_run Let_def waited_tells split: if_splits sum.splits)

lemma in_progress_silent:
  "add_in_progress_brids [b] s = (x, t) \<Longrightarrow> happened t = happened s"
  "remove_in_progress_brids [b] s = (x, t) \<Longrightarrow> happened t = happened s"
  "createBuildChooser out s = (y, t) \<Longrightarrow> happened t = happened s"
  by (auto simp: in_progress_run createBuildChooser_def run_simps)

lemmas turn_tells = children_silent claim_tells start_tells(1,2) unclaim_tells in_progress_silent waited_tells

lemma chosen_tells:
  "popNextBuild out s = (Inr (Some (w, r)), t) \<Longrightarrow>
     \<exists>js. happened t = happened s @ js \<and> chosen_last (Some (w, fst r)) js"
  using popNextBuild_tells by fastforce

lemma unchosen_tells:
  "popNextBuild out s = (Inl e, t) \<Longrightarrow> \<exists>js. happened t = happened s @ js \<and> list_all refusal js"
  "popNextBuild out s = (Inr None, t) \<Longrightarrow> \<exists>js. happened t = happened s @ js \<and> list_all refusal js"
  using popNextBuild_tells by fastforce+

lemma reports_chosen:
  assumes "popNextBuild out s = (Inr (Some (w, r)), s1)" "happened t = happened s1 @ es" "well_ordered (Judged w (fst r) True # es)"
  shows "\<exists>es. happened t = happened s @ es \<and> well_ordered es"
proof -
  obtain js where "happened s1 = happened s @ js" "chosen_last (Some (w, fst r)) js" using chosen_tells [OF assms(1)] by blast
  with well_ordered_chosen [OF this(2) assms(3)] assms(2) show ?thesis by simp
qed

lemma runs_are_orderly:
  "distributes out n s x t \<Longrightarrow> \<exists>es. happened t = happened s @ es \<and> well_ordered es"
proof (induction rule: distributes.induct)
  case (out_of_turns s)
  show ?case by (auto intro: well_ordered.nothing)
next
  case (choice_fails s e t n)
  then show ?case using unchosen_tells(1) well_ordered_refusals [OF _ well_ordered.nothing] by fastforce
next
  case (nothing_chosen s t n)
  then show ?case using unchosen_tells(2) well_ordered_refusals [OF _ well_ordered.nothing] by fastforce
next
  case (children_fail s w r s1 e t n)
  then show ?case using reports_chosen [of out s w r s1 t "[]"] by (simp add: turn_tells well_ordered.intros)
next
  case (passes s w r s1 s2 n x t)
  then obtain es where "happened t = happened s2 @ es" "well_ordered es" by blast
  then show ?case using reports_chosen [OF passes(1), of t es] children_silent [OF passes(2)] by (simp add: well_ordered.intros)
next
  case (claim_fails s w r s1 s2 s3 e t n)
  then have "happened t = happened s1 \<or> happened t = happened s1 @ [Claimed [fst r] True]"
    using claim_tells(2) [OF claim_fails(4)] turn_tells by metis
  then show ?case using reports_chosen [OF claim_fails(1), of t "[]"] reports_chosen [OF claim_fails(1), of t "[Claimed [fst r] True]"]
    by (auto simp: well_ordered.intros)
next
  case (comes_late s w r s1 s2 s3 s4 s5 n x t)
  then obtain es where "happened t = happened s5 @ es" "well_ordered es" by blast
  moreover have "happened s5 = happened s1 @ [Claimed [fst r] False]"
    using comes_late(2-5) turn_tells by metis
  ultimately show ?case using reports_chosen [OF comes_late(1), of t "Claimed [fst r] False # es"] by (simp add: well_ordered.intros)
next
  case (start_fails s w r s1 s2 s3 s4 e t n)
  then have "happened t = happened s1 @ [Claimed [fst r] True]" using turn_tells by metis
  then show ?case using reports_chosen [OF start_fails(1), of t "[Claimed [fst r] True]"] by (simp add: well_ordered.intros)
next
  case (starts s w r s1 s2 s3 s4 s5 n x t)
  then obtain es where "happened t = happened s5 @ es" "well_ordered es" by blast
  moreover have "happened s4 = happened s1 @ [Claimed [fst r] True]" using starts(2-4) turn_tells by metis
  moreover obtain h where "happened s5 = happened s4 @ [Started w [fst r] [h]]" using start_tells(3) [OF starts(5)] by blast
  ultimately show ?case
    using reports_chosen [OF starts(1), of t "Claimed [fst r] True # Started w [fst r] [h] # es"] by (simp add: well_ordered.intros)
next
  case (unclaim_fails s w r s1 s2 s3 s4 s5 e t n)
  have "happened s5 = happened s1 @ [Claimed [fst r] True, Declined w [fst r]]"
    using children_silent [OF unclaim_fails(2)] in_progress_silent(1) [OF unclaim_fails(3)] claim_tells(1) [OF unclaim_fails(4)]
      start_tells(2) [OF unclaim_fails(5)] by simp
  with unclaim_tells(2) [OF unclaim_fails(6)] show ?case
    using reports_chosen [OF unclaim_fails(1), of t "[Claimed [fst r] True, Declined w [fst r]]"]
      reports_chosen [OF unclaim_fails(1), of t "[Claimed [fst r] True, Declined w [fst r], Unclaimed [fst r]]"]
    by (auto simp: well_ordered.intros)
next
  case (unclaims s w r s1 s2 s3 s4 s5 s6 s7 n x t)
  then obtain es where "happened t = happened (with_deed (Reminded (service_name out)) s7) @ es" "well_ordered es" by blast
  moreover have "happened s7 = happened s1 @ [Claimed [fst r] True, Declined w [fst r], Unclaimed [fst r]]"
    using children_silent [OF unclaims(2)] in_progress_silent(1) [OF unclaims(3)] claim_tells(1) [OF unclaims(4)]
      start_tells(2) [OF unclaims(5)] unclaim_tells(1) [OF unclaims(6)] in_progress_silent(2) [OF unclaims(7)] by simp
  ultimately show ?case
    using reports_chosen [OF unclaims(1), of t
      "Claimed [fst r] True # Declined w [fst r] # Unclaimed [fst r] # Reminded (service_name out) # es"]
    by (simp add: well_ordered.intros waited_tells)
qed

end
