(* ===== verification/Bb_Distributor_Claims.thy ===== *)
theory Bb_Distributor_Claims
  imports Bb_Distributor_Facts
begin

text \<open>
  The claims of several masters on one database, by rely and guarantee: as long as the others leave the claims of this
  master alone, its builds only start while it has the claims on their requests, and it leaves the claims of the others
  alone. Then the bound of the loop, and what a failing start leaves behind.
\<close>

section \<open>What the parts of a run do to the desk\<close>

definition moves :: "(desk \<Rightarrow> desk \<Rightarrow> bool) \<Rightarrow> (distributor, 'a) prog \<Rightarrow> bool" where
  "moves R m \<longleftrightarrow> (\<forall>s x t. m s = (x, t) \<longrightarrow> R (desk s) (desk t))"

lemma moves_run: "moves R m \<Longrightarrow> m s = (x, t) \<Longrightarrow> R (desk s) (desk t)"
  by (simp add: moves_def)

lemma moves_bnd: "transp R \<Longrightarrow> moves R m \<Longrightarrow> (\<And>x. moves R (f x)) \<Longrightarrow> moves R (bnd m f)"
  unfolding moves_def run_bnd by (fastforce split: prod.splits sum.splits dest: transpD)

lemma moves_sq: "transp R \<Longrightarrow> moves R m \<Longrightarrow> moves R n \<Longrightarrow> moves R (sq m n)"
  by (simp add: sq_def moves_bnd)

lemma moves_pure:
  "reflp R \<Longrightarrow> moves R (ret x)" "reflp R \<Longrightarrow> moves R (gets g)" "reflp R \<Longrightarrow> moves R (of_result r)"
  "reflp R \<Longrightarrow> moves R (choosing f)" "reflp R \<Longrightarrow> moves R (record_deed h)" "reflp R \<Longrightarrow> moves R (refill_workers out)"
  "reflp R \<Longrightarrow> moves R (createBuildChooser out)" "reflp R \<Longrightarrow> moves R (guard b e)"
  by (simp_all add: moves_def run_combinators choosing_def record_deed_def refill_workers_def createBuildChooser_def reflpD)

lemma moves_attempt: "moves R m \<Longrightarrow> moves R (attempt m)"
  by (simp add: moves_def attempt_def split: prod.splits)

lemma moves_gather: "reflp R \<Longrightarrow> transp R \<Longrightarrow> (\<And>x. moves R (f x)) \<Longrightarrow> moves R (gather f xs)"
  by (induction xs) (auto intro!: moves_bnd moves_attempt moves_pure)

lemma moves_consult: "(\<And>s. R (desk s) (meanwhile out s)) \<Longrightarrow> moves R (consult out answer)"
  by (simp add: moves_def consult_run)

lemmas moves_intros = moves_bnd moves_sq moves_pure moves_attempt moves_gather moves_consult

lemma moves_chooser:
  assumes "reflp R" "transp R" "\<And>s. R (desk s) (meanwhile out s)"
  shows "moves R (getNextUnclaimedBuildRequest out)" "moves R (popNextWorker out r)" "moves R (canStartBuild out w r)"
    "moves R (waited_children out rs)"
proof -
  have "moves R (fetchUnclaimedBrdicts out)" "moves R (getBuildRequestForBrdict out b)" for b
    using assms by (auto simp: fetchUnclaimedBrdicts_def getBuildRequestForBrdict_def intro!: moves_intros split: option.split)
  then show "moves R (getNextUnclaimedBuildRequest out)"
    using assms by (auto simp: getNextUnclaimedBuildRequest_def getUnclaimedBuildRequests_def intro!: moves_intros split: option.split)
  show "moves R (popNextWorker out r)" "moves R (canStartBuild out w r)" "moves R (waited_children out rs)"
    using assms by (auto simp: popNextWorker_def canStartBuild_def waited_children_def Let_def
        intro!: moves_intros split: list.split sum.split option.split)
qed

lemma moves_find_worker:
  assumes R: "reflp R" "transp R" "\<And>s. R (desk s) (meanwhile out s)"
  shows "find_worker out r w recycled s = (x, t) \<Longrightarrow> R (desk s) (desk t)"
proof (induction rule: find_worker_induct)
  case (more w recycled s t v u x z)
  then show ?case using moves_run [OF moves_chooser(3) [OF R] more(1)] moves_run [OF moves_chooser(2) [OF R] more(2)]
    by (blast intro: transpD [OF R(2)])
next
  case (none w recycled s t u)
  then show ?case using moves_run [OF moves_chooser(3) [OF R] none(1)] moves_run [OF moves_chooser(2) [OF R] none(2)]
    by (blast intro: transpD [OF R(2)])
qed (auto dest: moves_run [OF moves_chooser(3) [OF R]])

lemma moves_popNextBuild:
  assumes R: "reflp R" "transp R" "\<And>s. R (desk s) (meanwhile out s)"
  shows "popNextBuild out s = (x, t) \<Longrightarrow> R (desk s) (desk t)"
proof -
  note trans = transpD [OF R(2)] and ask = moves_run [OF moves_chooser(1) [OF R]]
  have turn: "R (desk s) (desk v)"
    if "getNextUnclaimedBuildRequest out s = (Inr (Some r), t)" "refill_workers out t = (Inr (), u)" "popNextWorker out r u = (y, v)"
    for s r t u y v
    using ask [OF that(1)] moves_run [OF moves_pure(6) [OF R(1)] that(2)] moves_run [OF moves_chooser(2) [OF R] that(3)]
    by (blast intro: trans)
  have search: "R (desk s) (desk z)"
    if "getNextUnclaimedBuildRequest out s = (Inr (Some r), t)" "refill_workers out t = (Inr (), u)" "popNextWorker out r u = (y, v)"
      "find_worker out r w [] (v\<lparr>bc := removeBuildRequest r (bc v)\<rparr>) = (x, z)" for s r t u y v w x z
    using turn [OF that(1-3)] moves_find_worker [OF R that(4)] by (auto intro: trans)
  show "popNextBuild out s = (x, t) \<Longrightarrow> R (desk s) (desk t)"
  proof (induction rule: popNextBuild_induct)
    case (more s r t u w v recycled z x a)
    then show ?case using search [OF more(1-4)] by (auto intro: trans)
  qed (auto intro: ask turn search)
qed

text \<open>Claiming and unclaiming, and the botmaster's notes.\<close>

lemma claim_updates_desk:
  assumes "claim_updates out [b] at s = (x, t)" "\<And>s. R (desk s) (meanwhile out s)" "reflp R" "transp R"
    and "\<And>k. claims (at_db k) b = None \<Longrightarrow> R k (k\<lparr>at_db := (at_db k)\<lparr>claims := (claims (at_db k))(b \<mapsto> (masterid out, at))\<rparr>\<rparr>)"
  shows "R (desk s) (desk t)"
proof -
  let ?s1 = "waited out s"
  let ?s2 = "with_deed (Claimed [b] True) (with_claim b (Some (masterid out, at)) ?s1)"
  have one: "R (desk s) (desk ?s1)" using assms(2) by simp
  have two: "R (desk s) (desk (waited out ?s2))" if "claims (at_db (meanwhile out s)) b = None"
  proof -
    have "R (desk s) (desk ?s2)"
      using transpD [OF assms(4) one, of "desk ?s2"] assms(5) [OF that] by (simp add: with_deed_def with_claim_def)
    from transpD [OF assms(4) this assms(2)] show ?thesis by simp
  qed
  show ?thesis using assms(1) one two
    by (cases "claims (at_db (meanwhile out s)) b")
      (auto simp: claim_updates_run Let_def with_deed_def split: if_splits sum.splits)
qed

lemma unclaim_updates_desk:
  assumes "unclaim_updates out [b] s = (x, t)" "\<And>s. R (desk s) (meanwhile out s)" "transp R"
    and "\<And>k. R k (k\<lparr>at_db := snd (unclaim_buildrequests_for_master [b] (masterid out) (at_db k))\<rparr>)"
  shows "R (desk s) (desk t)"
proof -
  let ?s2 = "after_unclaim out b (waited out s)"
  have one: "R (desk s) (desk (waited out s))" using assms(2) by simp
  have "R (desk s) (desk ?s2)"
    using transpD [OF assms(3) one, of "desk ?s2"] assms(4) [of "meanwhile out s"] by (simp add: after_unclaim_def)
  from transpD [OF assms(3) this assms(2)] have "R (desk s) (desk (waited out ?s2))" by simp
  with assms(1) one show ?thesis by (auto simp: unclaim_updates_run Let_def split: if_splits sum.splits)
qed

lemma maybeStartBuild_desk:
  assumes "maybeStartBuild out w [r] s = (x, t)" "\<And>s. R (desk s) (meanwhile out s)" "reflp R"
  shows "R (desk s) (desk t)"
  using assms by (auto simp: maybeStartBuild_run Let_def with_deed_def reflpD split: if_splits sum.splits)

section \<open>Claims are exclusive\<close>

text \<open>A change that takes no claim from another master than \<open>m\<close>; and the rely of a run, that no one takes the claim that was just made.\<close>

definition spares_others :: "int \<Rightarrow> desk \<Rightarrow> desk \<Rightarrow> bool" where
  "spares_others m k k' \<longleftrightarrow> (\<forall>b n. n \<noteq> m \<longrightarrow> claimed_by (at_db k) b = Some n \<longrightarrow> claimed_by (at_db k') b = Some n)"

definition respects_claims :: "surroundings \<Rightarrow> bool" where
  "respects_claims out \<longleftrightarrow> (\<forall>s h b. happened s = h @ [Claimed [b] True] \<longrightarrow> claimed_by (at_db (desk s)) b = Some (masterid out) \<longrightarrow>
     claimed_by (at_db (meanwhile out s)) b = Some (masterid out))"

lemma spares_others_order: "reflp (spares_others m)" "transp (spares_others m)"
  by (auto simp: spares_others_def intro: reflpI transpI)

lemma spares_others_steps:
  "claims (at_db k) b = None \<Longrightarrow> spares_others m k (k\<lparr>at_db := (at_db k)\<lparr>claims := (claims (at_db k))(b \<mapsto> (m, at))\<rparr>\<rparr>)"
  "spares_others m k (k\<lparr>at_db := snd (unclaim_buildrequests_for_master [b] m (at_db k))\<rparr>)"
  "spares_others m k (k\<lparr>starting := f\<rparr>)"
  by (auto simp: spares_others_def claimed_by_def unclaim_run)

lemma others_keep_claims:
  assumes "distributes out n s x t" and spare: "\<And>s. spares_others (masterid out) (desk s) (meanwhile out s)"
  shows "spares_others (masterid out) (desk s) (desk t)"
proof -
  let ?R = "spares_others (masterid out)"
  note R = spares_others_order spare and trans = transpD [OF spares_others_order(2)]
  note parts = moves_popNextBuild [of ?R, OF R] moves_run [OF moves_chooser(4) [of ?R, OF R]]
    claim_updates_desk [of out _ _ _ _ _ ?R, OF _ spare spares_others_order spares_others_steps(1)]
    unclaim_updates_desk [of out _ _ _ _ ?R, OF _ spare spares_others_order(2) spares_others_steps(2)]
    maybeStartBuild_desk [of out _ _ _ _ _ ?R, OF _ spare spares_others_order(1)]
  have adds: "?R (desk s) (desk t)" if "add_in_progress_brids [b] s = (u, t) \<or> remove_in_progress_brids [b] s = (u, t)
      \<or> createBuildChooser out s = (u, t)" for b s u t
    using that by (auto simp: in_progress_run createBuildChooser_def run_simps spares_others_def)
  have upto3: "?R (desk s) (desk s3)" if "popNextBuild out s = (Inr (Some (w, r)), s1)"
    "waited_children out [r] s1 = (Inr [r], s2)" "add_in_progress_brids [fst r] s2 = (Inr (), s3)" for s w r s1 s2 s3
    by (rule trans [OF trans [OF parts(1) [OF that(1)] parts(2) [OF that(2)]] adds]) (use that(3) in blast)
  have upto4: "?R (desk s) (desk s4)" if "popNextBuild out s = (Inr (Some (w, r)), s1)"
    "waited_children out [r] s1 = (Inr [r], s2)" "add_in_progress_brids [fst r] s2 = (Inr (), s3)"
    "claim_updates out [fst r] (seconds out s2) s3 = (ok, s4)" for s w r s1 s2 s3 s4 ok
    by (rule trans [OF upto3 [OF that(1-3)] parts(3) [OF that(4)]])
  have upto5: "?R (desk s) (desk s5)" if "popNextBuild out s = (Inr (Some (w, r)), s1)"
    "waited_children out [r] s1 = (Inr [r], s2)" "add_in_progress_brids [fst r] s2 = (Inr (), s3)"
    "claim_updates out [fst r] (seconds out s2) s3 = (ok, s4)" "maybeStartBuild out w [r] s4 = (x, s5)"
    for s w r s1 s2 s3 s4 s5 ok x
    by (rule trans [OF upto4 [OF that(1-4)] parts(5) [OF that(5)]])
  from assms(1) show ?thesis
  proof (induction rule: distributes.induct)
    case (out_of_turns s)
    show ?case by (rule reflpD [OF R(1)])
  next
    case (choice_fails s e t n)
    then show ?case by (rule parts(1))
  next
    case (nothing_chosen s t n)
    then show ?case by (rule parts(1))
  next
    case (children_fail s w r s1 e t n)
    show ?case by (rule trans [OF parts(1) [OF children_fail(1)] parts(2) [OF children_fail(2)]])
  next
    case (passes s w r s1 s2 n x t)
    show ?case by (rule trans [OF trans [OF parts(1) [OF passes(1)] parts(2) [OF passes(2)]] passes(4)])
  next
    case (claim_fails s w r s1 s2 s3 e t n)
    then show ?case by (rule upto4)
  next
    case (comes_late s w r s1 s2 s3 s4 s5 n x t)
    show ?case by (rule trans [OF trans [OF upto4 [OF comes_late(1-4)] adds] comes_late(7)]) (use comes_late(5) in blast)
  next
    case (start_fails s w r s1 s2 s3 s4 e t n)
    then show ?case by (rule upto5)
  next
    case (starts s w r s1 s2 s3 s4 s5 n x t)
    show ?case by (rule trans [OF upto5 [OF starts(1-5)] starts(7)])
  next
    case (unclaim_fails s w r s1 s2 s3 s4 s5 e t n)
    show ?case by (rule trans [OF upto5 [OF unclaim_fails(1-5)] parts(4) [OF unclaim_fails(6)]])
  next
    case (unclaims s w r s1 s2 s3 s4 s5 s6 s7 n x t)
    have "?R (desk s) (desk s7)"
      by (rule trans [OF trans [OF upto5 [OF unclaims(1-5)] parts(4) [OF unclaims(6)]] adds]) (use unclaims(7) in blast)
    from trans [OF this] unclaims(9) show ?case by (simp add: with_deed_def)
  qed
qed

text \<open>Builds only start on requests this master holds.\<close>

definition starts_held :: "int \<Rightarrow> deed list \<Rightarrow> bool" where
  "starts_held m es \<longleftrightarrow> (\<forall>w bs hs. Started w bs hs \<in> set es \<longrightarrow> hs = map (\<lambda>_. Some m) bs)"

lemma starts_held_simps [simp]:
  "starts_held m []" "starts_held m (es @ es') \<longleftrightarrow> starts_held m es \<and> starts_held m es'"
  "starts_held m (Judged w b ok # es) \<longleftrightarrow> starts_held m es" "starts_held m (Claimed bs ok # es) \<longleftrightarrow> starts_held m es"
  "starts_held m (Declined w bs # es) \<longleftrightarrow> starts_held m es" "starts_held m (Unclaimed bs # es) \<longleftrightarrow> starts_held m es"
  "starts_held m (Reminded name # es) \<longleftrightarrow> starts_held m es"
  "starts_held m (Started w bs hs # es) \<longleftrightarrow> hs = map (\<lambda>_. Some m) bs \<and> starts_held m es"
  by (auto simp: starts_held_def)

lemma refusals_start_nothing: "list_all refusal es \<Longrightarrow> starts_held m es"
  by (auto simp: starts_held_def refusal_def list_all_iff)

lemma choosing_starts_nothing:
  "popNextBuild out s = (x, t) \<Longrightarrow> \<exists>es. happened t = happened s @ es \<and> starts_held m es"
  by (drule popNextBuild_tells)
    (fastforce simp: chosen_last_def refusals_start_nothing split: sum.splits option.splits)

lemma claimed_and_started:
  assumes "respects_claims out" "claim_updates out [fst r] at s = (Inr True, t)" "maybeStartBuild out w [r] t = (Inr True, u)"
  shows "happened u = happened s @ [Claimed [fst r] True, Started w [fst r] [Some (masterid out)]]"
proof -
  let ?b = "fst r"
  let ?s2 = "with_deed (Claimed [?b] True) (with_claim ?b (Some (masterid out, at)) (waited out s))"
  have t: "t = waited out ?s2"
    using assms(2) by (auto simp: claim_updates_run Let_def split: if_splits sum.splits)
  have "happened ?s2 = happened s @ [Claimed [?b] True]" "claimed_by (at_db (desk ?s2)) ?b = Some (masterid out)"
    by (simp_all add: with_deed_def with_claim_def claimed_by_def)
  with assms(1) t have held: "claimed_by (at_db (desk t)) ?b = Some (masterid out)" and log: "happened t = happened s @ [Claimed [?b] True]"
    by (auto simp: respects_claims_def)
  then have "claimed_by (at_db (desk (waited out t))) ?b = Some (masterid out)"
    using assms(1) by (auto simp: respects_claims_def)
  with assms(3) log show ?thesis
    by (auto simp: maybeStartBuild_run Let_def with_deed_def split: if_splits sum.splits)
qed

lemma builds_start_held:
  assumes "distributes out n s x t" "respects_claims out"
  shows "\<exists>es. happened t = happened s @ es \<and> starts_held (masterid out) es"
  using assms(1)
proof (induction rule: distributes.induct)
  case (passes s w r s1 s2 n x t)
  then show ?case using choosing_starts_nothing [OF passes(1)] children_silent [OF passes(2)] by fastforce
next
  case (claim_fails s w r s1 s2 s3 e t n)
  then show ?case
    using choosing_starts_nothing [OF claim_fails(1), of "masterid out"] children_silent [OF claim_fails(2)]
      in_progress_silent(1) [OF claim_fails(3)] claim_tells(2) [OF claim_fails(4)] by fastforce
next
  case (comes_late s w r s1 s2 s3 s4 s5 n x t)
  then show ?case
    using choosing_starts_nothing [OF comes_late(1), of "masterid out"] children_silent [OF comes_late(2)]
      in_progress_silent(1) [OF comes_late(3)] claim_tells(1) [OF comes_late(4)] in_progress_silent(3) [OF comes_late(5)] by fastforce
next
  case (start_fails s w r s1 s2 s3 s4 e t n)
  then show ?case
    using choosing_starts_nothing [OF start_fails(1), of "masterid out"] children_silent [OF start_fails(2)]
      in_progress_silent(1) [OF start_fails(3)] claim_tells(1) [OF start_fails(4)] start_tells(1) [OF start_fails(5)] by fastforce
next
  case (starts s w r s1 s2 s3 s4 s5 n x t)
  then show ?case
    using choosing_starts_nothing [OF starts(1), of "masterid out"] children_silent [OF starts(2)]
      in_progress_silent(1) [OF starts(3)] claimed_and_started [OF assms(2) starts(4,5)] by fastforce
next
  case (unclaim_fails s w r s1 s2 s3 s4 s5 e t n)
  then show ?case
    using choosing_starts_nothing [OF unclaim_fails(1), of "masterid out"] children_silent [OF unclaim_fails(2)]
      in_progress_silent(1) [OF unclaim_fails(3)] claim_tells(1) [OF unclaim_fails(4)] start_tells(2) [OF unclaim_fails(5)]
      unclaim_tells(2) [OF unclaim_fails(6)] by fastforce
next
  case (unclaims s w r s1 s2 s3 s4 s5 s6 s7 n x t)
  then show ?case
    using choosing_starts_nothing [OF unclaims(1), of "masterid out"] children_silent [OF unclaims(2)]
      in_progress_silent(1) [OF unclaims(3)] claim_tells(1) [OF unclaims(4)] start_tells(2) [OF unclaims(5)]
      unclaim_tells(1) [OF unclaims(6)] in_progress_silent(2) [OF unclaims(7)] by (fastforce simp: waited_tells)
qed (use choosing_starts_nothing children_silent in fastforce)+

end
