(* ===== verification/Bb_Distributor_Progress.thy ===== *)
theory Bb_Distributor_Progress
  imports Bb_Distributor_Claims
begin

text \<open>
  Which request and worker are chosen, that the loop over the requests of a builder ends, and that in good conditions
  it starts every request.
\<close>

section \<open>The loop ends\<close>

text \<open>The requests a chooser has before it: the unclaimed ones it knows of, or those it will find.\<close>

definition waiting_requests :: "surroundings \<Rightarrow> request_db \<Rightarrow> BuildRequestModel list" where
  "waiting_requests out d = sort_key br_id (getBuildRequests (Some (builder_id out)) None (Claimed_is False) None d)"

definition backlog :: "surroundings \<Rightarrow> distributor \<Rightarrow> BuildRequestModel list" where
  "backlog out s = (case listing s of Some u \<Rightarrow> u | None \<Rightarrow> waiting_requests out (at_db (meanwhile out s)))"

lemma fetch_backlog: "fetchUnclaimedBrdicts out s = (Inr x, t) \<Longrightarrow> listing t = Some (backlog out s)"
  by (auto simp: fetchUnclaimedBrdicts_def run_waits run_combinators backlog_def waiting_requests_def split: option.splits sum.splits)

lemma next_request_backlog:
  assumes "getNextUnclaimedBuildRequest out s = (Inr y, t)"
  shows "listing t = Some (backlog out s)" "y = Some r \<Longrightarrow> fst r \<in> br_id ` set (backlog out s)"
proof -
  let ?rest = "bnd (gets unclaimed) (\<lambda>u. if u = [] then ret None else
     case builder_nextBuild out of
       Some nextBuild \<Rightarrow> bnd (getUnclaimedBuildRequests out) (\<lambda>breqs.
         bnd (attempt (consult out (\<lambda>s. nextBuild s breqs))) (\<lambda>r.
           ret (case r of Inl _ \<Rightarrow> None | Inr b \<Rightarrow> if b \<notin> set breqs then None else b)))
     | None \<Rightarrow> getBuildRequestForBrdict out (hd (by_priority u)))"
  obtain z s1 where fetch: "fetchUnclaimedBrdicts out s = (Inr z, s1)" and rest: "?rest s1 = (Inr y, t)"
    using assms by (auto simp: getNextUnclaimedBuildRequest_def run_sq split: prod.splits sum.splits)
  have "unchanged listing ?rest"
    by (auto simp: getUnclaimedBuildRequests_def intro!: unchanged_intros listing_kept split: option.split)
  from unchanged_run [OF this rest] fetch_backlog [OF fetch] show l: "listing t = Some (backlog out s)" by simp
  show "fst r \<in> br_id ` set (backlog out s)" if "y = Some r"
    using next_request_is_listed [of out s r t] assms that l by auto
qed

lemma turn_listing:
  assumes "getNextUnclaimedBuildRequest out s = (Inr (Some r), t)" "refill_workers out t = (Inr (), u)"
    "popNextWorker out r u = (Inr (Some w), v)"
  shows "listing v = Some (backlog out s)"
  using next_request_backlog(1) [OF assms(1)] unchanged_run [OF refill_keeps assms(2)] popNextWorker_pops [OF assms(3)] by simp

lemma search_shortens:
  assumes "getNextUnclaimedBuildRequest out s = (Inr (Some r), t)" "refill_workers out t = (Inr (), u)"
    "popNextWorker out r u = (Inr (Some w), v)" "find_worker out r w [] (v\<lparr>bc := removeBuildRequest r (bc v)\<rparr>) = (x, z)"
  shows "\<exists>l. listing z = Some l \<and> length l < length (backlog out s)"
  using removeBuildRequest_shorter [OF turn_listing [OF assms(1-3)] next_request_backlog(2) [OF assms(1) refl]]
    find_worker_keeps [OF assms(4)] by auto

lemma choosing_shortens:
  "popNextBuild out s = (x, t) \<Longrightarrow> case x of Inr (Some c) \<Rightarrow> \<exists>l. listing t = Some l \<and> length l < length (backlog out s) | _ \<Rightarrow> True"
proof (induction rule: popNextBuild_induct)
  case (found s r t u w v w' recycled z)
  then show ?case using search_shortens [OF found(1-4)] by (auto simp: unpopWorkers_def)
next
  case (more s r t u w v recycled z x a)
  obtain l where "listing z = Some l" "length l < length (backlog out s)" using search_shortens [OF more(1-4)] by blast
  with more(6) show ?case by (auto simp: backlog_def unpopWorkers_def split: sum.splits option.splits)
qed simp_all

lemma turn_keeps_listing:
  "waited_children out rs s = (a, t) \<Longrightarrow> listing t = listing s"
  "add_in_progress_brids [b] s = (u, t) \<Longrightarrow> listing t = listing s"
  "remove_in_progress_brids [b] s = (u, t) \<Longrightarrow> listing t = listing s"
  "claim_updates out [b] at s = (ok, t) \<Longrightarrow> listing t = listing s"
  "maybeStartBuild out w [r] s = (ok, t) \<Longrightarrow> listing t = listing s"
  "unclaim_updates out [b] s = (u, t) \<Longrightarrow> listing t = listing s"
  "listing (with_deed h s) = listing s"
  by (auto simp: waited_children_def run_combinators consult_run in_progress_run claim_updates_run maybeStartBuild_run
      unclaim_updates_run with_deed_def with_claim_def after_unclaim_def Let_def split: if_splits sum.splits)

lemma backlog_listed: "listing s = Some l \<Longrightarrow> backlog out s = l"
  by (simp add: backlog_def)

lemma turns_are_bounded:
  "distributes out n s x t \<Longrightarrow> \<exists>es. happened t = happened s @ es
     \<and> (x = Inr False \<longrightarrow> (\<forall>bs. Claimed bs False \<notin> set es) \<longrightarrow> n \<le> length (backlog out s))"
proof (induction rule: distributes.induct)
  case (passes s w r s1 s2 n x t)
  obtain l where "listing s2 = Some l" "length l < length (backlog out s)"
    using choosing_shortens [OF passes(1)] turn_keeps_listing(1) [OF passes(2)] by auto
  with passes(4) show ?case
    using chosen_tells [OF passes(1)] children_silent [OF passes(2)] by (fastforce simp: backlog_listed)
next
  case (comes_late s w r s1 s2 s3 s4 s5 n x t)
  then show ?case
    using chosen_tells [OF comes_late(1)] children_silent [OF comes_late(2)] in_progress_silent(1) [OF comes_late(3)]
      claim_tells(1) [OF comes_late(4)] in_progress_silent(3) [OF comes_late(5)] by fastforce
next
  case (starts s w r s1 s2 s3 s4 s5 n x t)
  obtain l where "listing s5 = Some l" "length l < length (backlog out s)"
    using choosing_shortens [OF starts(1)] turn_keeps_listing(1) [OF starts(2)] turn_keeps_listing(2) [OF starts(3)]
      turn_keeps_listing(4) [OF starts(4)] turn_keeps_listing(5) [OF starts(5)] by auto
  with starts(7) show ?case
    using chosen_tells [OF starts(1)] children_silent [OF starts(2)] in_progress_silent(1) [OF starts(3)]
      claim_tells(1) [OF starts(4)] start_tells(3) [OF starts(5)] by (fastforce simp: backlog_listed)
next
  case (unclaims s w r s1 s2 s3 s4 s5 s6 s7 n x t)
  obtain l where "listing (with_deed (Reminded (service_name out)) s7) = Some l" "length l < length (backlog out s)"
    using choosing_shortens [OF unclaims(1)] turn_keeps_listing(1) [OF unclaims(2)] turn_keeps_listing(2) [OF unclaims(3)]
      turn_keeps_listing(4) [OF unclaims(4)] turn_keeps_listing(5) [OF unclaims(5)] turn_keeps_listing(6) [OF unclaims(6)]
      turn_keeps_listing(3) [OF unclaims(7)] by (auto simp: turn_keeps_listing(7))
  with unclaims(9) show ?case
    using chosen_tells [OF unclaims(1)] children_silent [OF unclaims(2)]
      in_progress_silent(1) [OF unclaims(3)] claim_tells(1) [OF unclaims(4)] start_tells(2) [OF unclaims(5)]
      unclaim_tells(1) [OF unclaims(6)] in_progress_silent(2) [OF unclaims(7)] by (fastforce simp: waited_tells backlog_listed)
qed (use runs_are_orderly [OF distributes.out_of_turns] runs_are_orderly [OF distributes.choice_fails]
    runs_are_orderly [OF distributes.nothing_chosen] runs_are_orderly [OF distributes.children_fail]
    runs_are_orderly [OF distributes.claim_fails] runs_are_orderly [OF distributes.start_fails]
    runs_are_orderly [OF distributes.unclaim_fails] in fastforce)+

section \<open>Which request is chosen\<close>

text \<open>
  Good conditions: nothing fails outside, no function chooses requests, one that chooses workers chooses among those
  offered, the workers \<open>ws\<close> are available, and whether a worker can start a request, \<open>fits\<close>, does not change.
\<close>

definition agreeable :: "surroundings \<Rightarrow> worker list \<Rightarrow> (worker \<Rightarrow> int \<Rightarrow> bool) \<Rightarrow> bool" where
  "agreeable out ws fits \<longleftrightarrow> builder_nextBuild out = None
     \<and> (\<forall>s. on_fetch out s = Inr () \<and> on_builder out s = Inr True \<and> on_available out s = ws)
     \<and> (\<forall>s b. on_request out s b = Inr ()) \<and> (\<forall>s w r. on_can_start out s w r = Inr (fits w (fst r)))
     \<and> (\<forall>s vs r. vs \<noteq> [] \<longrightarrow> (\<exists>w\<in>set vs. nextWorker out s vs r = Inr (Some w)))"

lemma agreeable_judges:
  assumes "agreeable out ws fits" "canStartBuild out w r s = (x, t)"
  shows "x = Inr (fits w (fst r)) \<and> workers_left t = workers_left s"
proof -
  have "on_can_start out (waited out s) w r = Inr (fits w (fst r))" using assms(1) unfolding agreeable_def by blast
  with assms(2) show ?thesis by (auto simp: canStartBuild_run workers_left_def)
qed

lemma agreeable_pops:
  "agreeable out ws fits \<Longrightarrow> popNextWorker out r s = (Inr None, t) \<Longrightarrow> workers_left s = [] \<and> workers_left t = []"
proof -
  assume good: "agreeable out ws fits" and pop: "popNextWorker out r s = (Inr None, t)"
  from pop have pref: "preferredWorkers (bc s) = []"
    by (auto simp: popNextWorker_def run_combinators choosing_def split: list.splits)
  have "workerpool (bc s) = []"
  proof (rule ccontr)
    assume some: "workerpool (bc s) \<noteq> []"
    with good obtain w where "w \<in> set (workerpool (bc s))" "nextWorker out (waited out s) (workerpool (bc s)) r = Inr (Some w)"
      unfolding agreeable_def by blast
    with pop pref some show False
      by (simp add: popNextWorker_def run_combinators attempt_def consult_run choosing_def)
  qed
  with pref popNextWorker_stops [OF pop] show ?thesis by (simp add: workers_left_def)
qed

lemma search_result:
  assumes good: "agreeable out ws fits"
  shows "find_worker out r w recycled s = (x, t) \<Longrightarrow> \<exists>found rec. x = Inr (found, rec) \<and> (case found of
     None \<Rightarrow> (\<forall>v\<in>set (w # workers_left s). \<not> fits v (fst r)) \<and> mset rec = mset recycled + mset (w # workers_left s)
       \<and> workers_left t = []
   | Some v \<Rightarrow> fits v (fst r) \<and> add_mset v (mset rec + mset (workers_left t)) = mset recycled + mset (w # workers_left s))"
proof (induction rule: find_worker_induct)
  case (fails w recycled s t e)
  then show ?case using agreeable_judges [OF good fails] by simp
next
  case (found w recycled s t)
  then show ?case using agreeable_judges [OF good found] by simp
next
  case (none w recycled s t u)
  then show ?case using agreeable_judges [OF good none(1)] agreeable_pops [OF good none(2)] by simp
next
  case (more w recycled s t v u x z)
  have here: "workers_left t = workers_left s" "\<not> fits w (fst r)" using agreeable_judges [OF good more(1)] by auto
  have pop: "mset (workers_left s) = add_mset v (mset (workers_left u))" using popNextWorker_pops [OF more(2)] here(1) by simp
  then have "set (workers_left s) = set (v # workers_left u)" by (metis mset.simps(2) set_mset_mset)
  moreover obtain found rec where x: "x = Inr (found, rec)" using more(4) by blast
  ultimately show ?case using more(4) pop here(2) by (intro exI [of _ found] exI [of _ rec]) (auto split: option.splits)
qed

lemma by_priority_removed:
  assumes "distinct u" "by_priority u = b # bs"
  shows "by_priority (remove1 b u) = bs"
proof -
  have "distinct (b # bs)" using assms(1) by (simp add: assms(2) [symmetric] by_priority_def)
  then have "filter (\<lambda>x. x \<noteq> b) (b # bs) = bs" by (auto simp: filter_id_conv)
  moreover have "remove1 b u = filter (\<lambda>x. x \<noteq> b) u"
    using assms(1) by (simp add: distinct_remove1_removeAll removeAll_filter_not_eq neq_commute)
  ultimately show ?thesis using assms(2) by (simp add: by_priority_def filter_sort [symmetric])
qed

lemma fetching_keeps_workers:
  "unchanged workers_left (fetchUnclaimedBrdicts out)" "unchanged workers_left (getBuildRequestForBrdict out b)"
  by (auto simp: fetchUnclaimedBrdicts_def getBuildRequestForBrdict_def run_waits workers_left_def
      intro!: unchanged_intros split: option.split)

lemma agreeable_request:
  assumes "agreeable out ws fits"
  shows "\<exists>r t. getBuildRequestForBrdict out b s = (Inr (Some r), t) \<and> fst r = br_id b"
  using assms by (auto simp: agreeable_def getBuildRequestForBrdict_def run_combinators consult_run choosing_def split: option.split)

lemma first_of_backlog:
  assumes good: "agreeable out ws fits" and run: "getNextUnclaimedBuildRequest out s = (x, t)"
  shows "(case by_priority (backlog out s) of [] \<Rightarrow> x = Inr None | b # _ \<Rightarrow> \<exists>r. x = Inr (Some r) \<and> fst r = br_id b)
    \<and> workers_left t = workers_left s"
proof -
  obtain y s1 where fetch: "fetchUnclaimedBrdicts out s = (y, s1)" by force
  with good have y: "y = Inr ()"
    by (auto simp: agreeable_def fetchUnclaimedBrdicts_def run_combinators consult_run choosing_def split: option.splits)
  note fetch = fetch [unfolded y]
  have u: "unclaimed s1 = backlog out s" using fetch_backlog [OF fetch] by (simp add: unclaimed_def)
  have w: "workers_left s1 = workers_left s" by (rule unchanged_run [OF fetching_keeps_workers(1) fetch])
  have none: "builder_nextBuild out = None" using good by (simp add: agreeable_def)
  show ?thesis
  proof (cases "by_priority (backlog out s)")
    case Nil
    then have "backlog out s = []" by (metis set_by_priority set_empty)
    with run fetch u w Nil show ?thesis by (simp add: getNextUnclaimedBuildRequest_def run_sq run_bnd run_simps)
  next
    case (Cons b bs)
    then have "backlog out s \<noteq> []" by (auto simp: by_priority_def)
    with run fetch u none Cons have "getBuildRequestForBrdict out b s1 = (x, t)"
      by (simp add: getNextUnclaimedBuildRequest_def run_sq run_bnd run_simps)
    with agreeable_request [OF good, of b s1] unchanged_run [OF fetching_keeps_workers(2)] w Cons show ?thesis by fastforce
  qed
qed

text \<open>
  The first request by priority, the older one first, for which some worker fits; the requests before it are passed over
  for good. All workers at hand are tried, and none is lost.
\<close>

definition startable :: "worker list \<Rightarrow> (worker \<Rightarrow> int \<Rightarrow> bool) \<Rightarrow> BuildRequestModel \<Rightarrow> bool" where
  "startable ws fits b \<longleftrightarrow> (\<exists>w\<in>set ws. fits w (br_id b))"

definition hands :: "worker list \<Rightarrow> distributor \<Rightarrow> worker list" where
  "hands ws s = (if workers_left s = [] then ws else workers_left s)"

lemma agreeable_turn:
  assumes good: "agreeable out ws fits" and asked: "getNextUnclaimedBuildRequest out s = (Inr (Some r), t)"
    and refill: "refill_workers out t = (Inr (), u)"
  shows "\<exists>b bs. by_priority (backlog out s) = b # bs \<and> fst r = br_id b" "workers_left u = hands ws s"
proof -
  show "\<exists>b bs. by_priority (backlog out s) = b # bs \<and> fst r = br_id b"
    using first_of_backlog [OF good asked] by (auto split: list.splits)
  have "workers_left t = workers_left s" using first_of_backlog [OF good asked] by blast
  moreover have "on_available out t = ws" using good by (simp add: agreeable_def)
  ultimately show "workers_left u = hands ws s"
    using refill by (auto simp: refill_workers_def run_simps hands_def workers_left_def split: if_splits)
qed

lemma removed_first:
  assumes "unclaimedBrdicts c = Some u" "distinct (map br_id u)" "by_priority u = b # bs" "fst r = br_id b"
  shows "unclaimedBrdicts (removeBuildRequest r c) = Some (remove1 b u)"
    and "by_priority (remove1 b u) = bs" "distinct (map br_id (remove1 b u))" "set (remove1 b u) \<subseteq> set u"
proof -
  have b: "b \<in> set u" using assms(3) by (metis list.set_intros(1) set_by_priority)
  obtain d where d: "find (\<lambda>x. fst r = br_id x) u = Some d"
    using b assms(4) by (cases "find (\<lambda>x. fst r = br_id x) u") (auto simp: find_None_iff)
  then have "d \<in> set u" "br_id d = br_id b" using assms(4) by (auto simp: find_Some_iff)
  with b assms(2) have "d = b" by (auto simp: distinct_map inj_on_def)
  with d assms(1) show "unclaimedBrdicts (removeBuildRequest r c) = Some (remove1 b u)"
    by (simp add: removeBuildRequest_def getBrdictForBuildRequest_def)
  show "by_priority (remove1 b u) = bs" using assms(2,3) by (simp add: by_priority_removed distinct_map)
  show "distinct (map br_id (remove1 b u))" using assms(2) by (auto simp: distinct_map intro: inj_on_subset set_remove1_subset)
  show "set (remove1 b u) \<subseteq> set u" by (rule set_remove1_subset)
qed

lemma removeBuildRequest_workers:
  "preferredWorkers (removeBuildRequest r c) = preferredWorkers c" "workerpool (removeBuildRequest r c) = workerpool c"
  by (simp_all add: removeBuildRequest_def split: option.split)

lemma agreeable_search:
  assumes good: "agreeable out ws fits" and asked: "getNextUnclaimedBuildRequest out s = (Inr (Some r), t)"
    and refill: "refill_workers out t = (Inr (), u)" and pop: "popNextWorker out r u = (Inr (Some w), v)"
    and search: "find_worker out r w [] (v\<lparr>bc := removeBuildRequest r (bc v)\<rparr>) = (Inr (found, rec), z)"
    and ids: "distinct (map br_id (backlog out s))"
  defines "z' \<equiv> z\<lparr>bc := unpopWorkers rec (bc z)\<rparr>"
  shows "\<exists>b bs l. by_priority (backlog out s) = b # bs \<and> fst r = br_id b \<and> listing z' = Some l \<and> by_priority l = bs
    \<and> distinct (map br_id l) \<and> set l \<subseteq> set (backlog out s)
    \<and> (case found of None \<Rightarrow> \<not> startable (hands ws s) fits b \<and> workers_left z' \<noteq> [] \<and> mset (workers_left z') = mset (hands ws s)
       | Some v \<Rightarrow> fits v (br_id b) \<and> mset (hands ws s) = add_mset v (mset (workers_left z')))"
proof -
  obtain b bs where b: "by_priority (backlog out s) = b # bs" "fst r = br_id b" using agreeable_turn(1) [OF good asked refill] by blast
  have "unclaimedBrdicts (bc v) = Some (backlog out s)" using turn_listing [OF asked refill pop] .
  note removed = removed_first [OF this ids b]
  have l: "listing z' = Some (remove1 b (backlog out s))"
    using find_worker_keeps [OF search] removed(1) by (simp add: z'_def unpopWorkers_def)
  have hand: "mset (hands ws s) = add_mset w (mset (workers_left v))"
    using popNextWorker_pops [OF pop] agreeable_turn(2) [OF good asked refill] by simp
  then have hands: "set (hands ws s) = set (w # workers_left v)" by (metis mset.simps(2) set_mset_mset)
  have left: "workers_left (v\<lparr>bc := removeBuildRequest r (bc v)\<rparr>) = workers_left v"
    by (simp add: workers_left_def removeBuildRequest_workers)
  have "workers_left z' = rec @ workers_left z" by (simp add: z'_def workers_left_def unpopWorkers_def)
  with search_result [OF good search] left hand hands b(2)
  have "case found of None \<Rightarrow> \<not> startable (hands ws s) fits b \<and> workers_left z' \<noteq> [] \<and> mset (workers_left z') = mset (hands ws s)
       | Some v \<Rightarrow> fits v (br_id b) \<and> mset (hands ws s) = add_mset v (mset (workers_left z'))"
    by (auto simp: startable_def split: option.splits)
  with b l removed(2-4) show ?thesis by blast
qed

lemma choice:
  assumes good: "agreeable out ws fits"
  shows "popNextBuild out s = (x, t) \<Longrightarrow> distinct (map br_id (backlog out s)) \<Longrightarrow>
    case dropWhile (\<lambda>b. \<not> startable (hands ws s) fits b) (by_priority (backlog out s)) of
      [] \<Rightarrow> x = Inr None
    | b # bs \<Rightarrow> \<exists>w r l. x = Inr (Some (w, r)) \<and> fst r = br_id b \<and> fits w (br_id b)
        \<and> mset (hands ws s) = add_mset w (mset (workers_left t)) \<and> listing t = Some l \<and> by_priority l = bs
        \<and> distinct (map br_id l) \<and> set l \<subseteq> set (backlog out s)"
proof (induction rule: popNextBuild_induct)
  case (fails_to_choose s e t)
  then show ?case using first_of_backlog [OF good fails_to_choose(1)] by (auto split: list.splits)
next
  case (no_request s t)
  then show ?case using first_of_backlog [OF good no_request(1)] by (auto split: list.splits)
next
  case (no_worker s r t u v)
  have "hands ws s = []"
    using agreeable_pops [OF good no_worker(3)] agreeable_turn(2) [OF good no_worker(1,2)] by simp
  then have "dropWhile (\<lambda>b. \<not> startable (hands ws s) fits b) (by_priority (backlog out s)) = []" by (simp add: startable_def)
  then show ?case by (simp only: list.case)
next
  case (fails_to_judge s r t u w v e z)
  then show ?case using search_result [OF good fails_to_judge(4)] by simp
next
  case (found s r t u w v w' recycled z)
  from agreeable_search [OF good found(1-5)] have "startable (hands ws s) fits (hd (by_priority (backlog out s)))"
    by (auto simp: startable_def) (metis mset_eq_setD list.set_intros(1) mset.simps(2))
  with agreeable_search [OF good found(1-5)] show ?case by fastforce
next
  case (more s r t u w v recycled z x a)
  define y where "y = z\<lparr>bc := unpopWorkers recycled (bc z)\<rparr>"
  obtain b bs l where b: "by_priority (backlog out s) = b # bs" "listing y = Some l" "by_priority l = bs" "distinct (map br_id l)"
    "set l \<subseteq> set (backlog out s)" "\<not> startable (hands ws s) fits b" "workers_left y \<noteq> []"
    "mset (workers_left y) = mset (hands ws s)"
    using agreeable_search [OF good more(1-4,7)] unfolding y_def by auto
  have same: "mset (hands ws y) = mset (hands ws s)" using b(7,8) by (simp add: hands_def)
  then have "set (hands ws y) = set (hands ws s)" by (metis set_mset_mset)
  then have "startable (hands ws y) fits = startable (hands ws s) fits" by (simp add: startable_def fun_eq_iff)
  note later = more(6) [folded y_def, unfolded backlog_listed [OF b(2)] b(3) this same, OF b(4)]
  show ?case using later b(1,5,6) by (cases "dropWhile (\<lambda>b. \<not> startable (hands ws s) fits b) bs") (auto simp del: dropWhile_eq_Nil_conv)
qed

section \<open>Everything that can start is started\<close>

text \<open>
  Good conditions for starting as well: no one else touches the desk, nothing fails, the builder runs, some worker is
  always available, and every worker fits.
\<close>

definition cooperative :: "surroundings \<Rightarrow> worker list \<Rightarrow> bool" where
  "cooperative out ws \<longleftrightarrow> agreeable out ws (\<lambda>_ _. True) \<and> ws \<noteq> []
     \<and> (\<forall>s. meanwhile out s = desk s \<and> on_database out s \<and> on_running out s \<and> \<not> only_waited_childs out s)
     \<and> (\<forall>s bs. on_event out s bs = Inr ()) \<and> (\<forall>s w rs. on_start out s w rs = Inr ())"

definition built :: "deed list \<Rightarrow> int list" where
  "built es = concat (map (\<lambda>h. case h of Started _ bs _ \<Rightarrow> bs | _ \<Rightarrow> []) es)"

lemma built_simps [simp]: "built [] = []" "built (es @ es') = built es @ built es'"
  "built (Started w bs hs # es) = bs @ built es" "built (Claimed bs ok # es) = built es" "built (Judged w b ok # es) = built es"
  by (simp_all add: built_def)

lemma refusals_build_nothing: "list_all refusal es \<Longrightarrow> built es = []"
  by (induction es) (auto simp: refusal_def)

lemma choice_builds_nothing: "chosen_last c es \<Longrightarrow> built es = []"
  by (auto simp: chosen_last_def refusals_build_nothing split: option.splits)

lemma cooperative_start:
  assumes coop: "cooperative out ws" and free: "claims (at_db (desk s)) (fst r) = None"
    and pop: "popNextBuild out s0 = (Inr (Some (w, r)), s)"
  shows "\<exists>u at. start_builds (Suc n) out s0 = start_builds n out u
    \<and> happened u = happened s @ [Claimed [fst r] True, Started w [fst r] [Some (masterid out)]]
    \<and> claims (at_db (desk u)) = (claims (at_db (desk s)))(fst r \<mapsto> (masterid out, at)) \<and> bc u = bc s"
proof -
  let ?b = "fst r" and ?at = "seconds out s"
  define s3 where "s3 = s\<lparr>desk := (desk s)\<lparr>starting := (starting (desk s))(?b \<mapsto> None)\<rparr>\<rparr>"
  define s4 where "s4 = waited out (with_deed (Claimed [?b] True) (with_claim ?b (Some (masterid out, ?at)) (waited out s3)))"
  have quiet: "meanwhile out x = desk x" for x using coop by (simp add: cooperative_def)
  have kids: "waited_children out [r] s = (Inr [r], s)"
    using coop by (simp add: waited_children_def run_combinators cooperative_def)
  have add: "add_in_progress_brids [?b] s = (Inr (), s3)" by (simp add: in_progress_run s3_def)
  have claim: "claim_updates out [?b] ?at s3 = (Inr True, s4)"
    using coop free by (simp add: claim_updates_run Let_def quiet cooperative_def s3_def s4_def)
  obtain u where start: "maybeStartBuild out w [r] s4 = (Inr True, u)"
    and u: "u = with_deed (Started w [?b] [claimed_by (at_db (desk (waited out s4))) ?b]) (waited out s4)"
    using coop by (simp add: maybeStartBuild_run Let_def cooperative_def)
  have "start_builds (Suc n) out s0 = start_builds n out u"
    unfolding start_builds_turn [OF pop] by (simp add: run_bnd run_sq run_simps kids Let_def add claim start)
  moreover have "happened u = happened s @ [Claimed [?b] True, Started w [?b] [Some (masterid out)]]"
    "claims (at_db (desk u)) = (claims (at_db (desk s)))(?b \<mapsto> (masterid out, ?at))" "bc u = bc s"
    by (simp_all add: u s3_def s4_def with_deed_def with_claim_def quiet claimed_by_def)
  ultimately show ?thesis by blast
qed

lemma choosing_keeps_desk:
  assumes "cooperative out ws" "popNextBuild out s = (x, t)"
  shows "desk t = desk s"
proof -
  have "desk s = desk t"
    by (rule moves_popNextBuild [of "(=)", OF _ _ _ assms(2)]) (use assms(1) in \<open>auto simp: cooperative_def reflp_def transp_def\<close>)
  then show ?thesis ..
qed

lemma all_are_started:
  assumes coop: "cooperative out ws"
  shows "length (backlog out s) < n \<Longrightarrow> distinct (map br_id (backlog out s)) \<Longrightarrow>
    \<forall>b\<in>set (backlog out s). claims (at_db (desk s)) (br_id b) = None \<Longrightarrow>
    \<exists>t es. start_builds n out s = (Inr True, t) \<and> happened t = happened s @ es
      \<and> built es = map br_id (by_priority (backlog out s))
      \<and> (\<forall>b\<in>set (backlog out s). claimed_by (at_db (desk t)) (br_id b) = Some (masterid out))
      \<and> (\<forall>i. i \<notin> br_id ` set (backlog out s) \<longrightarrow> claims (at_db (desk t)) i = claims (at_db (desk s)) i)"
proof (induction n arbitrary: s)
  case 0
  then show ?case by simp
next
  case (Suc n)
  have good: "agreeable out ws (\<lambda>_ _. True)" and "ws \<noteq> []" using coop by (simp_all add: cooperative_def)
  then have all: "startable (hands ws s) (\<lambda>_ _. True) b" for b by (simp add: startable_def hands_def ex_in_conv)
  obtain x s1 where pop: "popNextBuild out s = (x, s1)" by force
  note choice = choice [OF good pop Suc.prems(2), simplified all, simplified]
  show ?case
  proof (cases "by_priority (backlog out s)")
    case Nil
    then have "backlog out s = []" "x = Inr None" using choice by (metis set_by_priority set_empty, simp)
    moreover obtain es where "happened s1 = happened s @ es" "built es = []"
      using popNextBuild_tells [OF pop] choice_builds_nothing by blast
    ultimately show ?thesis using pop Nil choosing_keeps_desk [OF coop pop] by (simp add: chooseNextBuild_def run_bnd run_simps)
  next
    case (Cons b bs)
    with choice obtain w r l where x: "x = Inr (Some (w, r))" "fst r = br_id b" and l: "listing s1 = Some l" "by_priority l = bs"
      "distinct (map br_id l)" "set l \<subseteq> set (backlog out s)" by auto
    have d: "desk s1 = desk s" by (rule choosing_keeps_desk [OF coop pop])
    have "set (backlog out s) = insert b (set bs)" by (metis Cons list.simps(15) set_by_priority)
    then have split: "set (backlog out s) = insert b (set l)" using l(2) by (metis set_by_priority)
    with Suc.prems(3) d x(2) have free: "claims (at_db (desk s1)) (fst r) = None" by simp
    obtain u at where u: "start_builds (Suc n) out s = start_builds n out u" "bc u = bc s1"
      "happened u = happened s1 @ [Claimed [fst r] True, Started w [fst r] [Some (masterid out)]]"
      "claims (at_db (desk u)) = (claims (at_db (desk s1)))(fst r \<mapsto> (masterid out, at))"
      using cooperative_start [OF coop free pop [unfolded x(1)], of n] by blast
    have bl: "backlog out u = l" using l(1) u(2) by (simp add: backlog_listed)
    have ids: "mset (map br_id (backlog out s)) = mset (br_id b # map br_id l)"
      by (simp, metis Cons by_priority_def image_mset_add_mset l(2) mset.simps(2) mset_sort)
    have fresh: "br_id b \<notin> br_id ` set l" using Suc.prems(2) mset_eq_imp_distinct_iff [OF ids] by simp
    have shorter: "length (backlog out s) = Suc (length l)" using mset_eq_length [OF ids] by simp
    have "\<forall>c\<in>set l. claims (at_db (desk u)) (br_id c) = None" using Suc.prems(3) d split u(4) x(2) fresh by (auto simp: image_iff)
    then obtain t es where t: "start_builds n out u = (Inr True, t)" "happened t = happened u @ es" "built es = map br_id bs"
      "\<forall>c\<in>set l. claimed_by (at_db (desk t)) (br_id c) = Some (masterid out)"
      "\<forall>i. i \<notin> br_id ` set l \<longrightarrow> claims (at_db (desk t)) i = claims (at_db (desk u)) i"
      using Suc.IH [of u, unfolded bl l(2)] Suc.prems(1) shorter l(3) by auto
    obtain js where "happened s1 = happened s @ js" "built js = []"
      using popNextBuild_tells [OF pop] choice_builds_nothing by blast
    then have "happened t = happened s @ (js @ Claimed [fst r] True # Started w [fst r] [Some (masterid out)] # es)"
      "built (js @ Claimed [fst r] True # Started w [fst r] [Some (masterid out)] # es) = map br_id (b # bs)"
      using u(3) t(2,3) x(2) by simp_all
    moreover have "\<forall>c\<in>set (backlog out s). claimed_by (at_db (desk t)) (br_id c) = Some (masterid out)"
      using t(4) t(5) [rule_format, OF fresh] u(4) x(2) split by (auto simp: claimed_by_def)
    moreover have "\<forall>i. i \<notin> br_id ` set (backlog out s) \<longrightarrow> claims (at_db (desk t)) i = claims (at_db (desk s)) i"
      using t(5) u(4) x(2) d split by auto
    ultimately show ?thesis using u(1) t(1) Cons by metis
  qed
qed

text \<open>The same for a new chooser.\<close>

lemma waiting_distinct: "distinct (map br_id (requests d)) \<Longrightarrow> distinct (map br_id (waiting_requests out d))"
  by (simp add: waiting_requests_def getBuildRequests_def distinct_map inj_on_def)

lemma waiting_unclaimed: "b \<in> set (waiting_requests out d) \<Longrightarrow> claims d (br_id b) = None"
  by (simp add: waiting_requests_def getBuildRequests_def matches_claim_def)

lemma dropWhile_filter: "dropWhile (\<lambda>x. \<not> P x) xs = [] \<and> filter P xs = [] \<or>
    (\<exists>x ys zs. dropWhile (\<lambda>x. \<not> P x) xs = x # ys \<and> filter P xs = x # zs)"
  by (induction xs) auto

lemma fresh_choice:
  assumes good: "agreeable out ws fits" and new: "bc s = new_chooser ws" "distinct (map br_id (requests (at_db (meanwhile out s))))"
    and run: "popNextBuild out s = (x, t)"
  shows "case filter (\<lambda>b. \<exists>w\<in>set ws. fits w (br_id b)) (by_priority (waiting_requests out (at_db (meanwhile out s)))) of
      [] \<Rightarrow> x = Inr None
    | b # _ \<Rightarrow> \<exists>w r. x = Inr (Some (w, r)) \<and> fst r = br_id b \<and> w \<in> set ws \<and> fits w (br_id b)"
proof -
  have s: "backlog out s = waiting_requests out (at_db (meanwhile out s))" "hands ws s = ws"
    using new(1) by (simp_all add: backlog_def hands_def workers_left_def new_chooser_def)
  have "startable ws fits = (\<lambda>b. \<exists>w\<in>set ws. fits w (br_id b))" by (simp add: startable_def fun_eq_iff)
  with choice [OF good run] waiting_distinct [OF new(2)]
    dropWhile_filter [of "startable ws fits" "by_priority (waiting_requests out (at_db (meanwhile out s)))"]
  moreover have "w \<in> set ws" if "mset ws = add_mset w m" for w m
    using that by (metis set_mset_mset union_single_eq_member)
  ultimately show ?thesis unfolding s by (auto simp del: dropWhile_eq_Nil_conv)
qed

lemma fresh_distribution:
  assumes coop: "cooperative out ws" and "distinct (map br_id (requests (at_db (desk s))))"
    and "length (waiting_requests out (at_db (desk s))) < n"
  shows "\<exists>t es. maybeStartBuildsOnBuilder n out s = (Inr True, t) \<and> happened t = happened s @ es
    \<and> built es = map br_id (by_priority (waiting_requests out (at_db (desk s))))
    \<and> (\<forall>b\<in>set (waiting_requests out (at_db (desk s))). claimed_by (at_db (desk t)) (br_id b) = Some (masterid out))"
proof -
  let ?s = "s\<lparr>bc := new_chooser (on_available out s)\<rparr>"
  have b: "backlog out ?s = waiting_requests out (at_db (desk s))"
    using coop by (simp add: backlog_def new_chooser_def cooperative_def)
  have "\<forall>b\<in>set (backlog out ?s). claims (at_db (desk ?s)) (br_id b) = None" by (simp add: b waiting_unclaimed)
  from all_are_started [OF coop _ _ this, of n] b waiting_distinct [OF assms(2), of out] assms(3) show ?thesis
    by (auto simp: maybeStartBuildsOnBuilder_def run_sq createBuildChooser_def run_simps)
qed

end
