(* ===== verification/Bb_Distributor_Examples.thy ===== *)
theory Bb_Distributor_Examples
  imports Bb_Distributor_Progress
begin

text \<open>
  Small distributions: a master with two workers and three requests in good conditions; and runs that show what happens
  to a request whose build fails to start, or is cancelled while it is being started.
\<close>

definition demo_br :: "int \<Rightarrow> int \<Rightarrow> BuildRequestModel" where
  "demo_br i p = \<lparr>br_id = i, br_builder = 7, br_buildset = 20 + i, br_priority = p, br_waited = False,
     br_complete = False, br_results = -1\<rparr>"

definition demo_desk :: desk where
  "demo_desk = \<lparr>at_db = \<lparr>requests = [demo_br 1 0, demo_br 2 5, demo_br 3 5, demo_br 4 9],
       claims = [4 \<mapsto> (2, 50)]\<rparr>, starting = Map.empty\<rparr>"

definition demo_distributor :: "desk \<Rightarrow> distributor" where
  "demo_distributor k = \<lparr>desk = k, bc = new_chooser [], happened = [], turns = 0\<rparr>"

definition demo_out :: "(worker \<Rightarrow> int \<Rightarrow> bool) \<Rightarrow> surroundings" where
  "demo_out fits = \<lparr>masterid = 1, builder_id = 7, service_name = None, meanwhile = desk, seconds = (\<lambda>_. 100),
     on_fetch = (\<lambda>_. Inr ()), on_builder = (\<lambda>_. Inr True), on_request = (\<lambda>_ _. Inr ()), on_available = (\<lambda>_. [11, 12]),
     builder_nextWorker = None, select_next_worker = None, roll = turns, builder_nextBuild = None,
     on_can_start = (\<lambda>_ w r. Inr (fits w (fst r))), only_waited_childs = (\<lambda>_. False), on_buildsets = (\<lambda>_ _. Inr []),
     on_database = (\<lambda>_. True), on_event = (\<lambda>_ _. Inr ()), on_running = (\<lambda>_. True), on_start = (\<lambda>_ _ _. Inr ())\<rparr>"

lemma demo_agreeable: "agreeable (demo_out fits) [11, 12] fits"
  by (simp add: agreeable_def demo_out_def nextWorker_def)

lemma demo_cooperative: "cooperative (demo_out (\<lambda>_ _. True)) [11, 12]"
  by (simp add: cooperative_def demo_agreeable) (simp add: demo_out_def)

lemma demo_respects: "respects_claims (demo_out fits)" "spares_others m (desk s) (meanwhile (demo_out fits) s)"
  by (simp_all add: respects_claims_def spares_others_def demo_out_def)

lemma demo_waiting: "waiting_requests (demo_out fits) (at_db demo_desk) = [demo_br 1 0, demo_br 2 5, demo_br 3 5]"
  by (simp add: waiting_requests_def getBuildRequests_def matches_claim_def demo_out_def demo_desk_def demo_br_def)

lemma demo_runs: "fst (maybeStartBuildsOnBuilder 4 (demo_out (\<lambda>_ _. True)) (demo_distributor demo_desk)) = Inr True"
proof -
  have "distinct (map br_id (requests (at_db (desk (demo_distributor demo_desk)))))"
    by (simp add: demo_distributor_def demo_desk_def demo_br_def)
  from fresh_distribution [OF demo_cooperative this, of 4] show ?thesis by (auto simp: demo_distributor_def demo_waiting)
qed

section \<open>Requests that get stuck, and cancellations that get lost\<close>

text \<open>
  If starting a build fails with an error, nothing unclaims its request: it stays claimed by this master and in
  progress, and no one will build it.
\<close>

lemma failed_starts_keep_claims:
  assumes pop: "popNextBuild out s0 = (Inr (Some (w, r)), s)" and free: "claims (at_db (desk s)) (fst r) = None"
    and out: "\<And>x. meanwhile out x = desk x \<and> on_database out x \<and> on_running out x \<and> \<not> only_waited_childs out x"
      "\<And>x bs. on_event out x bs = Inr ()" "\<And>x w rs. on_start out x w rs = Inl e"
  shows "\<exists>t. start_builds (Suc n) out s0 = (Inl e, t) \<and> claimed_by (at_db (desk t)) (fst r) = Some (masterid out)
    \<and> starting (desk t) (fst r) = Some None \<and> happened t = happened s @ [Claimed [fst r] True]"
proof -
  define s3 where "s3 = s\<lparr>desk := (desk s)\<lparr>starting := (starting (desk s))(fst r \<mapsto> None)\<rparr>\<rparr>"
  define s4 where "s4 = waited out (with_deed (Claimed [fst r] True)
    (with_claim (fst r) (Some (masterid out, seconds out s)) (waited out s3)))"
  have kids: "waited_children out [r] s = (Inr [r], s)" using out by (simp add: waited_children_def run_combinators)
  have add: "add_in_progress_brids [fst r] s = (Inr (), s3)" by (simp add: in_progress_run s3_def)
  have claim: "claim_updates out [fst r] (seconds out s) s3 = (Inr True, s4)"
    using out free by (simp add: claim_updates_run Let_def s3_def s4_def)
  have "maybeStartBuild out w [r] s4 = (Inl e, waited out s4)" using out by (simp add: maybeStartBuild_run Let_def)
  then have "start_builds (Suc n) out s0 = (Inl e, waited out s4)"
    unfolding start_builds_turn [OF pop] by (simp add: run_bnd run_sq run_simps kids Let_def add claim)
  moreover have "claimed_by (at_db (desk (waited out s4))) (fst r) = Some (masterid out)" "starting (desk (waited out s4)) (fst r) = Some None"
    "happened (waited out s4) = happened s @ [Claimed [fst r] True]"
    using out by (simp_all add: s3_def s4_def with_deed_def with_claim_def claimed_by_def)
  ultimately show ?thesis by blast
qed

text \<open>If another master claims first, the request stays among those this master is starting.\<close>

lemma late_claims_stay_in_progress:
  assumes "starting (desk s) b = Some c" "\<And>x. meanwhile out x = desk x" "claims (at_db (desk s)) b \<noteq> None"
    "claim_updates out [b] at s = (Inr False, t)"
  shows "starting (desk t) b = Some c"
  using assms by (auto simp: claim_updates_run Let_def with_deed_def split: if_splits)

text \<open>
  A request is cancelled just after it was claimed for a builder that is shutting down: the reason is noted, and thrown
  away with the note when the request is unclaimed. The request waits as if no one had cancelled it.
\<close>

lemma canceled_too_late:
  "claims (at_db k) b = Some p \<Longrightarrow> starting k b = Some x \<Longrightarrow>
     snd (buildrequest_canceled m at [] b reason k) = k\<lparr>starting := (starting k)(b \<mapsto> Some reason)\<rparr>"
  by (simp add: buildrequest_canceled_def at_requests_def run_combinators claim_transaction_run maybe_cancel_in_progress_buildrequest_def)

lemma cancellations_can_get_lost:
  assumes pop: "popNextBuild out s0 = (Inr (Some (w, r)), s)" and free: "claims (at_db (desk s)) (fst r) = None"
    and out: "\<And>x. on_database out x \<and> \<not> on_running out x \<and> \<not> only_waited_childs out x" "\<And>x bs. on_event out x bs = Inr ()"
    and cancelled: "\<And>x. meanwhile out x = (if happened x \<noteq> [] \<and> last (happened x) = Claimed [fst r] True
      then snd (buildrequest_canceled (masterid out) at [] (fst r) reason (desk x)) else desk x)"
    and before: "happened s = [] \<or> last (happened s) \<noteq> Claimed [fst r] True"
  shows "\<exists>u. start_builds (Suc n) out s0 = start_builds n out u \<and> at_db (desk u) = at_db (desk s)
    \<and> starting (desk u) = (starting (desk s))(fst r := None)"
proof -
  define s3 where "s3 = s\<lparr>desk := (desk s)\<lparr>starting := (starting (desk s))(fst r \<mapsto> None)\<rparr>\<rparr>"
  define c where "c = with_deed (Claimed [fst r] True) (with_claim (fst r) (Some (masterid out, seconds out s)) (waited out s3))"
  define s5 where "s5 = with_deed (Declined w [fst r]) (waited out c)"
  define s6 where "s6 = waited out (after_unclaim out (fst r) (waited out s5))"
  define s7 where "s7 = s6\<lparr>desk := (desk s6)\<lparr>starting := (starting (desk s6))(fst r := None)\<rparr>\<rparr>"
  have kids: "waited_children out [r] s = (Inr [r], s)" using out by (simp add: waited_children_def run_combinators)
  have add: "add_in_progress_brids [fst r] s = (Inr (), s3)" by (simp add: in_progress_run s3_def)
  have quiet: "meanwhile out s3 = desk s3" using before by (auto simp: cancelled s3_def)
  have claim: "claim_updates out [fst r] (seconds out s) s3 = (Inr True, waited out c)"
    using out free quiet by (simp add: claim_updates_run Let_def c_def) (simp add: s3_def)
  have start: "maybeStartBuild out w [r] (waited out c) = (Inr False, s5)" using out by (simp add: maybeStartBuild_run s5_def)
  have undo: "unclaim_updates out [fst r] s5 = (Inr (), s6)" using out by (simp add: unclaim_updates_run Let_def s6_def)
  have remove: "remove_in_progress_brids [fst r] s6 = (Inr (), s7)" by (simp add: in_progress_run s7_def)
  let ?u = "with_deed (Reminded (service_name out)) s7"
  have "start_builds (Suc n) out s0 = start_builds n out ?u"
    unfolding start_builds_turn [OF pop]
    by (simp add: run_bnd run_sq run_simps kids Let_def add claim start undo remove record_deed_def with_deed_def)
  moreover
  have c: "desk c = (desk s3)\<lparr>at_db := (at_db (desk s3))\<lparr>claims := (claims (at_db (desk s3)))(fst r \<mapsto> (masterid out, seconds out s))\<rparr>\<rparr>"
    "happened c = happened s @ [Claimed [fst r] True]" "starting (desk s3) (fst r) = Some None"
    using quiet by (simp_all add: c_def with_deed_def with_claim_def) (simp_all add: s3_def)
  then have noted: "desk (waited out c) = (desk c)\<lparr>starting := (starting (desk c))(fst r \<mapsto> Some reason)\<rparr>"
    by (simp add: cancelled canceled_too_late)
  have "desk s6 = (desk (waited out c))\<lparr>at_db := snd (unclaim_buildrequests_for_master [fst r] (masterid out) (at_db (desk c)))\<rparr>"
    using noted by (simp add: s6_def s5_def after_unclaim_def with_deed_def cancelled)
  moreover have "snd (unclaim_buildrequests_for_master [fst r] (masterid out) (at_db (desk c))) = at_db (desk s)"
    using c(1) free by (simp add: unclaim_run claimed_by_def s3_def fun_eq_iff cong: if_cong)
  ultimately have "at_db (desk ?u) = at_db (desk s)" "starting (desk ?u) = (starting (desk s))(fst r := None)"
    using noted c(1) by (simp_all add: with_deed_def s7_def s3_def)
  with \<open>start_builds (Suc n) out s0 = start_builds n out ?u\<close> show ?thesis by blast
qed

end
