(* ===== verification/Bb_Mq.thy ===== *)
theory Bb_Mq
  imports Umb_Errors
begin

text \<open>
  The message queue inside a master: \<open>master/buildbot/mq/simple.py\<close> with \<open>mq/base.py\<close>, and the matching of routing keys
  of \<open>util/tuplematch.py\<close>. A callback may stop consumers while it is called, as \<open>waitUntilEvent\<close> does with its own;
  whatever else it does comes back as a later operation. The Deferreds that callbacks return are not followed.
\<close>

section \<open>Routing keys\<close>

type_synonym mq_message = "pystr list \<times> pyval"
type_synonym key_filter = "pystr option list"

definition matchTuple :: "pystr list \<Rightarrow> key_filter \<Rightarrow> bool" where
  "matchTuple routingKey flt = (if length flt \<noteq> length routingKey then False
     else list_all (\<lambda>(k, f). \<not> (f \<noteq> None \<and> f \<noteq> Some k)) (zip routingKey flt))"

lemma matchTuple_iff: "matchTuple key flt \<longleftrightarrow> list_all2 (\<lambda>k f. f = None \<or> f = Some k) key flt"
  by (auto simp: matchTuple_def list_all2_iff list_all_iff)

text \<open>The check of \<open>startConsuming\<close>: each element is a text or \<open>None\<close>.\<close>

fun filter_element :: "pyval \<Rightarrow> pystr option option" where
  "filter_element PyNone = Some None"
| "filter_element (PyStr s) = Some (Some s)"
| "filter_element (PyStrSub s) = Some (Some s)"
| "filter_element _ = None"

fun filter_elements :: "pyval list \<Rightarrow> key_filter option" where
  "filter_elements [] = Some []"
| "filter_elements (v # vs) = (case (filter_element v, filter_elements vs) of (Some f, Some fs) \<Rightarrow> Some (f # fs) | _ \<Rightarrow> None)"

section \<open>Consumers\<close>

text \<open>
  A \<open>QueueRef\<close>, or a \<open>PersistentQueueRef\<close> if \<open>persistent\<close>. Its callback is \<open>None\<close>, a numbered function of the
  consumer, or \<open>addToQueue\<close>; \<open>missed\<close> is its \<open>queue\<close>. \<open>born\<close> is the number of messages sent before it was made, for the properties only.
\<close>

datatype callback = Nobody | Callback nat | AddToQueue

record QueueRef =
  callback :: callback
  key_filter :: key_filter
  persistent :: bool
  missed :: "mq_message list"
  born :: nat

text \<open>
  All consumers ever made, by number, with those in \<open>qrefs\<close> and the persistent ones by name. What was sent, and each
  call of a callback with its consumer, oldest first.
\<close>

record SimpleMQ =
  consumers :: "QueueRef list"
  qrefs :: "nat list"
  persistent_qrefs :: "pystr \<rightharpoonup> nat"
  sent :: "mq_message list"
  calls :: "(nat \<times> nat \<times> mq_message) list"

definition new_SimpleMQ :: SimpleMQ where
  "new_SimpleMQ = \<lparr>consumers = [], qrefs = [], persistent_qrefs = Map.empty, sent = [], calls = []\<rparr>"

definition at_consumer :: "nat \<Rightarrow> (QueueRef \<Rightarrow> QueueRef) \<Rightarrow> SimpleMQ \<Rightarrow> SimpleMQ" where
  "at_consumer q f m = m\<lparr>consumers := (consumers m)[q := f (consumers m ! q)]\<rparr>"

text \<open>The two \<open>stopConsuming\<close>; a number without a consumer stands for none.\<close>

definition stopConsuming :: "nat \<Rightarrow> SimpleMQ \<Rightarrow> SimpleMQ" where
  "stopConsuming q m = (if length (consumers m) \<le> q then m
     else if persistent (consumers m ! q) then at_consumer q (\<lambda>c. c\<lparr>callback := AddToQueue\<rparr>) m
     else (at_consumer q (\<lambda>c. c\<lparr>callback := Nobody\<rparr>) m)\<lparr>qrefs := remove1 q (qrefs m)\<rparr>)"

text \<open>
  \<open>invoke\<close>. The callback \<open>c\<close>, called with a message, stops the consumers \<open>react m c msg\<close>; an exception of it is logged.
\<close>

type_synonym reactions = "SimpleMQ \<Rightarrow> nat \<Rightarrow> mq_message \<Rightarrow> nat list"

definition invoke_qref :: "reactions \<Rightarrow> nat \<Rightarrow> mq_message \<Rightarrow> SimpleMQ \<Rightarrow> SimpleMQ" where
  "invoke_qref react q msg m = (case callback (consumers m ! q) of
     Nobody \<Rightarrow> m
   | AddToQueue \<Rightarrow> at_consumer q (\<lambda>c. c\<lparr>missed := missed c @ [msg]\<rparr>) m
   | Callback c \<Rightarrow> (let called = m\<lparr>calls := calls m @ [(q, c, msg)]\<rparr> in fold stopConsuming (react called c msg) called))"

lemma stopConsuming_qrefs: "length (qrefs (stopConsuming q m)) \<le> length (qrefs m)"
  by (simp add: stopConsuming_def at_consumer_def length_remove1)

lemma fold_stopConsuming_qrefs: "length (qrefs (fold stopConsuming qs m)) \<le> length (qrefs m)"
  by (induction qs arbitrary: m) (auto intro: order_trans [OF _ stopConsuming_qrefs])

lemma invoke_qref_qrefs: "length (qrefs (invoke_qref react q msg m)) \<le> length (qrefs m)"
proof -
  have "length (qrefs (fold stopConsuming qs (m\<lparr>calls := cs\<rparr>))) \<le> length (qrefs m)" for qs cs
    using fold_stopConsuming_qrefs [of qs "m\<lparr>calls := cs\<rparr>"] by simp
  then show ?thesis by (simp add: invoke_qref_def at_consumer_def Let_def split: callback.split)
qed

section \<open>Operations\<close>

text \<open>
  The loop of \<open>produce\<close> over \<open>self.qrefs\<close>: Python keeps an index into the list, whatever is removed from it meanwhile.
\<close>

function produce_from :: "reactions \<Rightarrow> mq_message \<Rightarrow> nat \<Rightarrow> SimpleMQ \<Rightarrow> SimpleMQ" where
  "produce_from react msg i m = (if i < length (qrefs m) then
     (let q = qrefs m ! i in produce_from react msg (Suc i)
       (if matchTuple (fst msg) (key_filter (consumers m ! q)) then invoke_qref react q msg m else m))
     else m)"
  by pat_completeness auto

termination produce_from
proof (relation "measure (\<lambda>(react, msg, i, m). length (qrefs m) - i)", simp)
  fix react msg i q and m :: SimpleMQ
  assume "i < length (qrefs m)"
  with invoke_qref_qrefs [of react q msg m] show "((react, msg, Suc i,
      if matchTuple (fst msg) (key_filter (consumers m ! q)) then invoke_qref react q msg m else m), react, msg, i, m)
      \<in> measure (\<lambda>(react, msg, i, m). length (qrefs m) - i)"
    by auto
qed

declare produce_from.simps [simp del]

definition produce :: "reactions \<Rightarrow> mq_message \<Rightarrow> SimpleMQ \<Rightarrow> SimpleMQ" where
  "produce react msg m = produce_from react msg 0 (m\<lparr>sent := sent m @ [msg]\<rparr>)"

definition new_qref :: "callback \<Rightarrow> key_filter \<Rightarrow> bool \<Rightarrow> SimpleMQ \<Rightarrow> SimpleMQ" where
  "new_qref cb flt durable m = m\<lparr>consumers := consumers m @
     [\<lparr>callback = cb, key_filter = flt, persistent = durable, missed = [], born = length (sent m)\<rparr>],
     qrefs := qrefs m @ [length (consumers m)]\<rparr>"

text \<open>\<open>PersistentQueueRef.startConsuming\<close>: the messages that were missed come first.\<close>

definition resume_consuming :: "reactions \<Rightarrow> nat \<Rightarrow> nat \<Rightarrow> SimpleMQ \<Rightarrow> SimpleMQ" where
  "resume_consuming react c q m = fold (invoke_qref react q) (missed (consumers m ! q))
     (at_consumer q (\<lambda>r. r\<lparr>callback := Callback c, missed := []\<rparr>) m)"

text \<open>\<open>SimpleMQ.startConsuming\<close>; an empty name is no name. A name that is known keeps its consumer and its filter.\<close>

definition startConsuming :: "reactions \<Rightarrow> nat \<Rightarrow> pyval list \<Rightarrow> pystr option \<Rightarrow> (SimpleMQ, nat) prog" where
  "startConsuming react c elements name = (case filter_elements elements of None \<Rightarrow> raise AssertionError | Some flt \<Rightarrow>
     (case name of
        Some (x # xs) \<Rightarrow> bnd (gets (\<lambda>m. persistent_qrefs m (x # xs))) (\<lambda>known. case known of
          Some q \<Rightarrow> sq (modify (resume_consuming react c q)) (ret q)
        | None \<Rightarrow> bnd (gets (\<lambda>m. length (consumers m))) (\<lambda>q.
            sq (modify (new_qref (Callback c) flt True))
            (sq (modify (\<lambda>m. m\<lparr>persistent_qrefs := (persistent_qrefs m)(x # xs \<mapsto> q)\<rparr>)) (ret q))))
      | _ \<Rightarrow> bnd (gets (\<lambda>m. length (consumers m))) (\<lambda>q. sq (modify (new_qref (Callback c) flt False)) (ret q))))"

text \<open>Histories of a queue.\<close>

datatype mq_op = Produce mq_message | Start_consuming nat "pyval list" "pystr option" | Stop_consuming nat

definition mq_perform :: "reactions \<Rightarrow> mq_op \<Rightarrow> SimpleMQ \<Rightarrow> SimpleMQ" where
  "mq_perform react a m = (case a of Produce msg \<Rightarrow> produce react msg m
     | Start_consuming c elements name \<Rightarrow> snd (startConsuming react c elements name m) | Stop_consuming q \<Rightarrow> stopConsuming q m)"

definition mq_history :: "reactions \<Rightarrow> mq_op list \<Rightarrow> SimpleMQ" where
  "mq_history react ops = fold (mq_perform react) ops new_SimpleMQ"

end
