(* ===== verification/Bb_Mq_Facts.thy ===== *)
theory Bb_Mq_Facts
  imports Bb_Mq
begin

text \<open>
  What consumers of the message queue receive. As long as callbacks only stop persistent consumers while they are
  called, every consumer receives just the messages its filter matches, in order, from when it was made; a persistent one
  also those sent while it was stopped. A callback that stops another consumer can make the next one miss a message.
\<close>

section \<open>What a consumer receives\<close>

definition called_with :: "nat \<Rightarrow> SimpleMQ \<Rightarrow> mq_message list" where
  "called_with q m = map (\<lambda>(_, _, msg). msg) (filter (\<lambda>(p, _, _). p = q) (calls m))"

definition received :: "nat \<Rightarrow> SimpleMQ \<Rightarrow> mq_message list" where
  "received q m = called_with q m @ missed (consumers m ! q)"

definition matched :: "QueueRef \<Rightarrow> mq_message list \<Rightarrow> mq_message list" where
  "matched r msgs = filter (\<lambda>msg. matchTuple (fst msg) (key_filter r)) msgs"

definition steady_ref :: "QueueRef \<Rightarrow> bool" where
  "steady_ref r \<longleftrightarrow> (callback r \<noteq> AddToQueue \<longrightarrow> missed r = []) \<and> (persistent r \<longrightarrow> callback r \<noteq> Nobody)
     \<and> (\<not> persistent r \<longrightarrow> callback r \<noteq> AddToQueue)"

definition sound_mq :: "SimpleMQ \<Rightarrow> bool" where
  "sound_mq m \<longleftrightarrow> distinct (qrefs m) \<and> set (qrefs m) \<subseteq> {..<length (consumers m)}
     \<and> (\<forall>q<length (consumers m). steady_ref (consumers m ! q) \<and> (q \<in> set (qrefs m) \<longleftrightarrow> callback (consumers m ! q) \<noteq> Nobody)
         \<and> born (consumers m ! q) \<le> length (sent m))
     \<and> (\<forall>name q. persistent_qrefs m name = Some q \<longrightarrow> q < length (consumers m) \<and> persistent (consumers m ! q))
     \<and> (\<forall>(q, _, _)\<in>set (calls m). q < length (consumers m))"

definition careful :: "reactions \<Rightarrow> bool" where
  "careful react \<longleftrightarrow> (\<forall>m c msg. \<forall>q\<in>set (react m c msg). q < length (consumers m) \<longrightarrow> persistent (consumers m ! q))"

text \<open>Stopping persistent consumers only makes them queue their messages.\<close>

definition calmer :: "QueueRef \<Rightarrow> QueueRef \<Rightarrow> bool" where
  "calmer r r' \<longleftrightarrow> r' = r \<or> persistent r \<and> r' = r\<lparr>callback := AddToQueue\<rparr>"

lemma calmer_trans: "calmer r r' \<Longrightarrow> calmer r' r'' \<Longrightarrow> calmer r r''"
  by (auto simp: calmer_def)

definition quieter :: "SimpleMQ \<Rightarrow> SimpleMQ \<Rightarrow> bool" where
  "quieter m m' \<longleftrightarrow> qrefs m' = qrefs m \<and> persistent_qrefs m' = persistent_qrefs m \<and> sent m' = sent m \<and> calls m' = calls m
     \<and> length (consumers m') = length (consumers m)
     \<and> (\<forall>q<length (consumers m). calmer (consumers m ! q) (consumers m' ! q))"

lemma quieter_refl: "quieter m m"
  by (simp add: quieter_def calmer_def)

lemma quieter_trans: "quieter m m' \<Longrightarrow> quieter m' m'' \<Longrightarrow> quieter m m''"
  unfolding quieter_def by (auto intro: calmer_trans)

lemma stop_persistent:
  assumes "q < length (consumers m) \<longrightarrow> persistent (consumers m ! q)"
  shows "quieter m (stopConsuming q m)"
  using assms by (auto simp: quieter_def calmer_def stopConsuming_def at_consumer_def nth_list_update)

lemma stops_persistent:
  "\<forall>q\<in>set qs. q < length (consumers m) \<longrightarrow> persistent (consumers m ! q) \<Longrightarrow> quieter m (fold stopConsuming qs m)"
proof (induction qs arbitrary: m)
  case (Cons q qs)
  have one: "quieter m (stopConsuming q m)" using Cons.prems by (intro stop_persistent) simp
  have "\<forall>p\<in>set qs. p < length (consumers (stopConsuming q m)) \<longrightarrow> persistent (consumers (stopConsuming q m) ! p)"
    using Cons.prems one by (fastforce simp: quieter_def calmer_def)
  from quieter_trans [OF one Cons.IH [OF this]] show ?case by simp
qed (simp add: quieter_refl)

lemma calmer_steady_ref:
  "calmer r r' \<Longrightarrow> steady_ref r \<Longrightarrow> steady_ref r' \<and> (callback r' \<noteq> Nobody \<longleftrightarrow> callback r \<noteq> Nobody) \<and> born r' = born r \<and> persistent r' = persistent r"
  by (auto simp: calmer_def steady_ref_def)

lemma quieter_sound:
  assumes "quieter m m'" "sound_mq m"
  shows "sound_mq m'"
proof -
  have "steady_ref (consumers m' ! q) \<and> (callback (consumers m' ! q) \<noteq> Nobody \<longleftrightarrow> callback (consumers m ! q) \<noteq> Nobody)
      \<and> born (consumers m' ! q) = born (consumers m ! q) \<and> persistent (consumers m' ! q) = persistent (consumers m ! q)"
    if "q < length (consumers m)" for q
    using assms that calmer_steady_ref unfolding quieter_def sound_mq_def by blast
  with assms show ?thesis unfolding quieter_def sound_mq_def by simp
qed

lemma quieter_received:
  "quieter m m' \<Longrightarrow> q < length (consumers m) \<Longrightarrow> received q m' = received q m \<and> key_filter (consumers m' ! q) = key_filter (consumers m ! q)
     \<and> born (consumers m' ! q) = born (consumers m ! q) \<and> persistent (consumers m' ! q) = persistent (consumers m ! q)"
  unfolding quieter_def received_def called_with_def calmer_def by fastforce

section \<open>Invoking a consumer\<close>

text \<open>The parts of a consumer that never change.\<close>

definition identity :: "QueueRef \<Rightarrow> key_filter \<times> bool \<times> nat" where
  "identity r = (key_filter r, persistent r, born r)"

definition hands_over :: "nat \<Rightarrow> mq_message list \<Rightarrow> SimpleMQ \<Rightarrow> SimpleMQ \<Rightarrow> bool" where
  "hands_over q msgs m m' \<longleftrightarrow> sound_mq m' \<and> qrefs m' = qrefs m \<and> sent m' = sent m \<and> persistent_qrefs m' = persistent_qrefs m
     \<and> map identity (consumers m') = map identity (consumers m)
     \<and> (\<forall>p<length (consumers m). received p m' = received p m @ (if p = q then msgs else []))"

lemma hands_over_trans:
  "hands_over q xs m m' \<Longrightarrow> hands_over q ys m' m'' \<Longrightarrow> hands_over q (xs @ ys) m m''"
  unfolding hands_over_def by (auto dest: map_eq_imp_length_eq)

lemma quieter_identity: "quieter m m' \<Longrightarrow> map identity (consumers m') = map identity (consumers m)"
  unfolding quieter_def identity_def calmer_def by (rule nth_equalityI) fastforce+

lemma identity_at:
  "(\<And>r. identity (f r) = identity r) \<Longrightarrow> map identity (consumers (at_consumer q f m)) = map identity (consumers m)"
  by (simp add: at_consumer_def map_update) (metis list_update_beyond list_update_id map_update not_less)

lemma invoke_hands_over:
  assumes "careful react" "sound_mq m" "q \<in> set (qrefs m)"
  shows "hands_over q [msg] m (invoke_qref react q msg m)"
proof (cases "callback (consumers m ! q)")
  case Nobody
  with assms(2,3) show ?thesis by (auto simp: sound_mq_def)
next
  case AddToQueue
  let ?m = "at_consumer q (\<lambda>c. c\<lparr>missed := missed c @ [msg]\<rparr>) m"
  have q: "q < length (consumers m)" using assms(2,3) by (auto simp: sound_mq_def)
  have "steady_ref (consumers ?m ! p) \<and> callback (consumers ?m ! p) = callback (consumers m ! p) \<and> born (consumers ?m ! p) = born (consumers m ! p)
      \<and> persistent (consumers ?m ! p) = persistent (consumers m ! p)" if "p < length (consumers m)" for p
    using that AddToQueue assms(2) q by (auto simp: at_consumer_def nth_list_update sound_mq_def steady_ref_def)
  with assms(2) have "sound_mq ?m" unfolding sound_mq_def by (simp add: at_consumer_def)
  moreover have "map identity (consumers ?m) = map identity (consumers m)" by (rule identity_at) (simp add: identity_def)
  moreover have "received p ?m = received p m @ (if p = q then [msg] else [])" for p
    using q by (simp add: received_def called_with_def at_consumer_def)
  ultimately show ?thesis using AddToQueue by (simp add: hands_over_def invoke_qref_def) (simp add: at_consumer_def)
next
  case (Callback c)
  let ?m = "m\<lparr>calls := calls m @ [(q, c, msg)]\<rparr>"
  have q: "q < length (consumers m)" using assms(2,3) by (auto simp: sound_mq_def)
  have "\<forall>p\<in>set (react ?m c msg). p < length (consumers ?m) \<longrightarrow> persistent (consumers ?m ! p)"
    using assms(1) unfolding careful_def by blast
  note quiet = stops_persistent [OF this]
  have sound: "sound_mq ?m" using assms(2) q by (auto simp: sound_mq_def)
  have "missed (consumers m ! q) = []" using assms(2) q Callback by (auto simp: sound_mq_def steady_ref_def)
  then have "received p ?m = received p m @ (if p = q then [msg] else [])" for p
    by (simp add: received_def called_with_def)
  with quieter_received [OF quiet] quieter_sound [OF quiet sound] quieter_identity [OF quiet] quiet Callback
  show ?thesis by (simp add: hands_over_def invoke_qref_def Let_def quieter_def)
qed

lemma invokes_hand_over:
  assumes "careful react"
  shows "sound_mq m \<Longrightarrow> q \<in> set (qrefs m) \<Longrightarrow> hands_over q msgs m (fold (invoke_qref react q) msgs m)"
proof (induction msgs arbitrary: m)
  case Nil
  then show ?case by (simp add: hands_over_def)
next
  case (Cons msg msgs)
  note one = invoke_hands_over [OF assms Cons.prems, of msg]
  then have "sound_mq (invoke_qref react q msg m)" "q \<in> set (qrefs (invoke_qref react q msg m))"
    using Cons.prems(2) by (auto simp: hands_over_def)
  from hands_over_trans [OF one Cons.IH [OF this]] show ?case by simp
qed

section \<open>The operations\<close>

text \<open>Every consumer that still consumes has received what its filter matches since it was made.\<close>

definition complete_mq :: "SimpleMQ \<Rightarrow> bool" where
  "complete_mq m \<longleftrightarrow> sound_mq m \<and> (\<forall>q\<in>set (qrefs m).
     received q m = matched (consumers m ! q) (drop (born (consumers m ! q)) (sent m)))"

lemma identity_nth:
  "map identity (consumers m') = map identity (consumers m) \<Longrightarrow> q < length (consumers m) \<Longrightarrow>
     key_filter (consumers m' ! q) = key_filter (consumers m ! q) \<and> born (consumers m' ! q) = born (consumers m ! q)
     \<and> persistent (consumers m' ! q) = persistent (consumers m ! q) \<and> length (consumers m') = length (consumers m)"
  by (frule map_eq_imp_length_eq) (auto simp: list_eq_iff_nth_eq identity_def)

lemma produce_from_hands_over:
  "careful react \<Longrightarrow> sound_mq m \<Longrightarrow> sound_mq (produce_from react msg i m) \<and> qrefs (produce_from react msg i m) = qrefs m
     \<and> sent (produce_from react msg i m) = sent m \<and> map identity (consumers (produce_from react msg i m)) = map identity (consumers m)
     \<and> (\<forall>p<length (consumers m). received p (produce_from react msg i m) = received p m @
          (if p \<in> set (drop i (qrefs m)) \<and> matchTuple (fst msg) (key_filter (consumers m ! p)) then [msg] else []))"
proof (induction react msg i m rule: produce_from.induct)
  case (1 react msg i m)
  show ?case
  proof (cases "i < length (qrefs m)")
    case False
    then show ?thesis using "1.prems" by (simp add: produce_from.simps [of react msg i m])
  next
    case True
    let ?q = "qrefs m ! i"
    let ?m = "if matchTuple (fst msg) (key_filter (consumers m ! ?q)) then invoke_qref react ?q msg m else m"
    have step: "hands_over ?q (if matchTuple (fst msg) (key_filter (consumers m ! ?q)) then [msg] else []) m ?m"
      using invoke_hands_over [of react m ?q msg] "1.prems" True by (simp add: hands_over_def)
    have rest: "produce_from react msg i m = produce_from react msg (Suc i) ?m"
      using True by (subst produce_from.simps) (simp add: Let_def)
    have "sound_mq ?m" using step by (simp add: hands_over_def)
    note IH = "1.IH" [OF True refl "1.prems"(1) this]
    have "distinct (qrefs m)" using "1.prems"(2) by (simp add: sound_mq_def)
    then have "?q \<notin> set (drop (Suc i) (qrefs m))" "drop i (qrefs m) = ?q # drop (Suc i) (qrefs m)"
      using True by (auto simp: Cons_nth_drop_Suc in_set_conv_nth nth_eq_iff_index_eq)
    with IH step "1.prems" identity_nth [of ?m m] show ?thesis unfolding rest hands_over_def
      by (auto dest: map_eq_imp_length_eq)
  qed
qed

lemma matched_cong: "key_filter r = key_filter r' \<Longrightarrow> matched r msgs = matched r' msgs"
  by (simp add: matched_def)

lemma produce_complete:
  assumes "careful react" "complete_mq m"
  shows "complete_mq (produce react msg m)"
proof -
  let ?m = "m\<lparr>sent := sent m @ [msg]\<rparr>"
  have s: "sound_mq ?m" using assms(2) by (auto simp: complete_mq_def sound_mq_def)
  note made = produce_from_hands_over [OF assms(1) s, of msg 0]
  have "received q (produce react msg m) =
      matched (consumers (produce react msg m) ! q) (drop (born (consumers (produce react msg m) ! q)) (sent m @ [msg]))"
    if q: "q \<in> set (qrefs m)" for q
  proof -
    have len: "q < length (consumers m)" and old: "born (consumers m ! q) \<le> length (sent m)"
      using assms(2) q by (auto simp: complete_mq_def sound_mq_def)
    have "received q ?m = received q m" by (simp add: received_def called_with_def)
    then have "received q (produce react msg m) = received q m @
        (if matchTuple (fst msg) (key_filter (consumers m ! q)) then [msg] else [])"
      using made q len by (simp add: produce_def)
    moreover have "received q m = matched (consumers m ! q) (drop (born (consumers m ! q)) (sent m))"
      using assms(2) q by (simp add: complete_mq_def)
    moreover have "key_filter (consumers (produce react msg m) ! q) = key_filter (consumers m ! q)
        \<and> born (consumers (produce react msg m) ! q) = born (consumers m ! q)"
      using identity_nth [of "produce react msg m" ?m q] made len by (simp add: produce_def)
    ultimately show ?thesis using old by (simp add: matched_def)
  qed
  with made show ?thesis by (simp add: complete_mq_def produce_def)
qed

lemma stop_complete:
  assumes "complete_mq m"
  shows "complete_mq (stopConsuming q m)"
proof (cases "q < length (consumers m) \<and> \<not> persistent (consumers m ! q)")
  case True
  then have m': "stopConsuming q m = (at_consumer q (\<lambda>c. c\<lparr>callback := Nobody\<rparr>) m)\<lparr>qrefs := remove1 q (qrefs m)\<rparr>"
    by (simp add: stopConsuming_def)
  let ?c = "\<lambda>p. consumers (stopConsuming q m) ! p"
  have sound: "sound_mq m" using assms by (simp add: complete_mq_def)
  then have "set (remove1 q (qrefs m)) = set (qrefs m) - {q}" by (simp add: sound_mq_def)
  moreover have c: "?c p = (if p = q then (consumers m ! q)\<lparr>callback := Nobody\<rparr> else consumers m ! p)" if "p < length (consumers m)" for p
    using that True by (simp add: m' at_consumer_def nth_list_update)
  have "missed (consumers m ! q) = []" using True sound by (auto simp: sound_mq_def steady_ref_def)
  with sound True c have "steady_ref (?c p) \<and> (p \<in> set (qrefs m) - {q} \<longleftrightarrow> callback (?c p) \<noteq> Nobody) \<and> born (?c p) \<le> length (sent m)
      \<and> persistent (?c p) = persistent (consumers m ! p)" if "p < length (consumers m)" for p
    using that unfolding sound_mq_def by (auto simp: steady_ref_def)
  ultimately have "sound_mq (stopConsuming q m)"
    using sound unfolding sound_mq_def by (simp add: m' at_consumer_def) blast
  moreover have "received p (stopConsuming q m) = received p m" if "p < length (consumers m)" for p
    using c [OF that] by (simp add: received_def called_with_def) (simp add: m' at_consumer_def)
  ultimately show ?thesis using assms \<open>set (remove1 q (qrefs m)) = set (qrefs m) - {q}\<close> c unfolding complete_mq_def
    by (auto simp: m' at_consumer_def sound_mq_def matched_def)
next
  case False
  then have quiet: "quieter m (stopConsuming q m)" by (intro stop_persistent) auto
  then show ?thesis using assms quieter_sound [OF quiet] quieter_received [OF quiet]
    unfolding complete_mq_def by (auto simp: quieter_def sound_mq_def matched_def)
qed

lemma resume_complete:
  assumes "careful react" "complete_mq m" "persistent_qrefs m name = Some q"
  shows "complete_mq (resume_consuming react c q m)"
proof -
  let ?f = "\<lambda>r. r\<lparr>callback := Callback c, missed := []\<rparr>" and ?Q = "missed (consumers m ! q)"
  let ?m = "at_consumer q ?f m"
  have q: "q < length (consumers m)" "persistent (consumers m ! q)" and sound: "sound_mq m"
    using assms(2,3) by (auto simp: complete_mq_def sound_mq_def)
  then have listed: "q \<in> set (qrefs m)" by (auto simp: sound_mq_def steady_ref_def)
  have c: "consumers ?m ! p = (if p = q then ?f (consumers m ! q) else consumers m ! p)" if "p < length (consumers m)" for p
    using that by (simp add: at_consumer_def nth_list_update)
  have "steady_ref (consumers ?m ! p) \<and> (callback (consumers ?m ! p) \<noteq> Nobody \<longleftrightarrow> callback (consumers m ! p) \<noteq> Nobody)
      \<and> born (consumers ?m ! p) = born (consumers m ! p) \<and> persistent (consumers ?m ! p) = persistent (consumers m ! p)"
    if "p < length (consumers m)" for p
    using c [OF that] that q sound by (auto simp: sound_mq_def steady_ref_def)
  with sound have "sound_mq ?m" unfolding sound_mq_def by (simp add: at_consumer_def)
  from invokes_hand_over [OF assms(1) this, of q ?Q] listed
  have over: "hands_over q ?Q ?m (resume_consuming react c q m)" by (simp add: resume_consuming_def at_consumer_def)
  have same: "map identity (consumers ?m) = map identity (consumers m)" by (rule identity_at) (simp add: identity_def)
  have "received p (resume_consuming react c q m) = received p m" if "p < length (consumers m)" for p
  proof -
    have "received p (resume_consuming react c q m) = received p ?m @ (if p = q then ?Q else [])"
      using over that unfolding hands_over_def by (simp add: at_consumer_def)
    then show ?thesis using c [OF that] by (simp add: received_def called_with_def) (simp add: at_consumer_def)
  qed
  moreover have "key_filter (consumers (resume_consuming react c q m) ! p) = key_filter (consumers m ! p)
      \<and> born (consumers (resume_consuming react c q m) ! p) = born (consumers m ! p)" if "p < length (consumers m)" for p
    using identity_nth [of "resume_consuming react c q m" m p] over same that unfolding hands_over_def by simp
  ultimately show ?thesis using assms(2) over unfolding complete_mq_def hands_over_def
    by (auto simp: at_consumer_def sound_mq_def matched_def)
qed

lemma new_qref_complete:
  assumes "complete_mq m"
  shows "complete_mq (new_qref (Callback c) flt durable m)"
proof -
  have fresh: "called_with (length (consumers m)) m = []"
    using assms by (auto simp: complete_mq_def sound_mq_def called_with_def filter_empty_conv)
  have "sound_mq (new_qref (Callback c) flt durable m)"
    using assms by (fastforce simp: complete_mq_def sound_mq_def new_qref_def nth_append steady_ref_def less_Suc_eq)
  moreover have "received q (new_qref (Callback c) flt durable m) = received q m" if "q < length (consumers m)" for q
    using that by (simp add: received_def called_with_def new_qref_def nth_append)
  ultimately show ?thesis using assms fresh unfolding complete_mq_def
    by (auto simp: new_qref_def nth_append sound_mq_def received_def called_with_def matched_def)
qed

lemma start_complete:
  assumes "careful react" "complete_mq m"
  shows "complete_mq (snd (startConsuming react c elements name m))"
proof -
  have named: "complete_mq (n\<lparr>persistent_qrefs := (persistent_qrefs m)(x \<mapsto> length (consumers m))\<rparr>)"
    if "n = new_qref (Callback c) flt True m" for flt x n
    using new_qref_complete [OF assms(2), of c flt True] assms(2) that
    by (auto simp: complete_mq_def sound_mq_def new_qref_def nth_append received_def called_with_def less_Suc_eq)
  show ?thesis
    using assms resume_complete [OF assms] new_qref_complete [OF assms(2), of c] named
    by (auto simp: startConsuming_def run_combinators new_qref_def split: option.split list.split)
qed

lemma histories_are_complete:
  assumes "careful react"
  shows "complete_mq (mq_history react ops)"
proof -
  have "complete_mq (fold (mq_perform react) ops m)" if "complete_mq m" for m
    using that
  proof (induction ops arbitrary: m)
    case (Cons a ops)
    have "complete_mq (mq_perform react a m)"
      using Cons.prems assms by (cases a) (simp_all add: mq_perform_def produce_complete start_complete stop_complete)
    from Cons.IH [OF this] show ?case by simp
  qed simp
  moreover have "complete_mq new_SimpleMQ" by (simp add: complete_mq_def sound_mq_def new_SimpleMQ_def)
  ultimately show ?thesis by (simp add: mq_history_def)
qed

text \<open>What was sent is what was produced.\<close>

definition produced :: "mq_op list \<Rightarrow> mq_message list" where
  "produced ops = concat (map (\<lambda>a. case a of Produce msg \<Rightarrow> [msg] | _ \<Rightarrow> []) ops)"

lemma stopConsuming_sent: "sent (stopConsuming q m) = sent m"
  by (simp add: stopConsuming_def at_consumer_def)

lemma fold_stopConsuming_sent: "sent (fold stopConsuming qs m) = sent m"
  by (induction qs arbitrary: m) (simp_all add: stopConsuming_sent)

lemma invoke_qref_sent: "sent (invoke_qref react q msg m) = sent m"
  by (simp add: invoke_qref_def Let_def fold_stopConsuming_sent at_consumer_def split: callback.split)

lemma produce_from_sent: "sent (produce_from react msg i m) = sent m"
  by (induction react msg i m rule: produce_from.induct) (subst produce_from.simps, simp add: Let_def invoke_qref_sent)

lemma invokes_sent: "sent (fold (invoke_qref react q) msgs m) = sent m"
  by (induction msgs arbitrary: m) (simp_all add: invoke_qref_sent)

lemma histories_sent: "sent (mq_history react ops) = produced ops"
proof -
  have "sent (mq_perform react a m) = sent m @ produced [a]" for a m
    by (auto simp: mq_perform_def produced_def produce_def produce_from_sent stopConsuming_sent startConsuming_def run_combinators
        resume_consuming_def invokes_sent at_consumer_def new_qref_def split: mq_op.split option.split list.split)
  then have "sent (fold (mq_perform react) ops m) = sent m @ produced ops" for m
    by (induction ops arbitrary: m) (simp_all add: produced_def)
  from this [of new_SimpleMQ] show ?thesis by (simp add: mq_history_def new_SimpleMQ_def)
qed

section \<open>A message that is missed\<close>

text \<open>
  Two consumers of all messages; the callback of the first stops its own consumer when it is called, as \<open>waitUntilEvent\<close>
  does. The loop over \<open>qrefs\<close> then passes over the second, which never hears of the message.
\<close>

definition once :: reactions where
  "once m c msg = (if c = 1 then [0] else [])"

lemma next_consumer_misses_message:
  "calls (mq_history once [Start_consuming 1 [PyNone] None, Start_consuming 2 [PyNone] None, Produce ([[97]], PyNone), Produce ([[98]], PyNone)]) =
     [(0, 1, ([[97]], PyNone)), (1, 2, ([[98]], PyNone))]"
  by code_simp

text \<open>A persistent consumer that stops itself at the first message, and resumes after the second.\<close>

definition pausing :: reactions where
  "pausing m c msg = (if c = 1 then filter (\<lambda>q. q < length (consumers m) \<and> persistent (consumers m ! q)) [0] else [])"

definition demo_mq_ops :: "mq_op list" where
  "demo_mq_ops = [Start_consuming 1 [PyNone] (Some [112]), Produce ([[97]], PyNone), Produce ([[98]], PyNone),
     Start_consuming 2 [PyNone] (Some [112]), Produce ([[99]], PyNone)]"

lemma pausing_careful: "\<forall>m c msg. \<forall>q\<in>set (pausing m c msg). q < length (consumers m) \<longrightarrow> persistent (consumers m ! q)"
  by (auto simp: pausing_def)

lemma demo_mq:
  "qrefs (mq_history pausing demo_mq_ops) = [0]" "missed (consumers (mq_history pausing demo_mq_ops) ! 0) = []"
  "key_filter (consumers (mq_history pausing demo_mq_ops) ! 0) = [None]" "born (consumers (mq_history pausing demo_mq_ops) ! 0) = 0"
  by code_simp+

end
