(* ===== verification/Spec2Isabelle.thy ===== *)
theory Spec2Isabelle
  imports Execution_Examples Authority_Fencing Workgraph_Examples Bb_Lock_Examples Bb_Lru_Spec Bb_Results Bb_Line_Facts Bb_Debounce_Examples Bb_Data_Examples
    Bb_Distributor_Examples Bb_Mq_Facts
begin

text \<open>
  A model of the program's own core and of the Buildbot parts it runs among, with the theorems that make
  them correct. All sources are under \<open>src/master/buildbot/\<close>.

  \<^bold>\<open>The program.\<close> Umbilical is a Buildbot fork in which a controller may launch a local command only under an
  authority that is stored durably. \<open>umbilical_authority.py\<close> is that store, an SQLite file: controller generations
  of a scope, registered execution keys, the command hash bound to a key, the admission of a key under a generation,
  and the launch of a key, which goes from intent to unknown to terminal. \<open>umbilical_execution_identity.py\<close> derives a
  key, \<open>umbilical_local_execution.py\<close> describes, hashes and launches a command. \<open>umbilical_workgraph_client.py\<close> is the
  first client: it authenticates a commit of WorkGraph through GitHub, reconstructs a checkout, admits and launches a
  validation and publishes the result; \<open>umbilical_workgraph_validation.py\<close> is what it launches. Of Buildbot itself,
  the locks of builds and steps, the result codes, the LRU caches, the line finder of the logs, debounced methods, and
  the way of a REST request through the data API are modelled: its arguments become a result specification, a database
  query takes what it can of that, and Python applies the rest.

  \<^bold>\<open>How it is modelled.\<close> An operation is a program on a state, \<open>'s \<Rightarrow> (exn + 'a) \<times> 's\<close> (\<open>Umb_Prelude\<close>): \<open>bnd\<close> and \<open>sq\<close> stop at
  the first exception and keep the state, as a \<open>raise\<close> does; \<open>try_except\<close> and \<open>try_finally\<close> are the statements. Python
  values whose types the code checks are \<open>pyval\<close>; text is a list of code points, so that surrogates exist; exceptions
  are the constructors of \<open>exn\<close> (\<open>Umb_Errors\<close>), with the message only where code distinguishes it. What is outside
  answers from a script or by a function that is otherwise arbitrary: every SQLite statement may fail before or after it took
  effect (\<open>faults\<close> of a connection), a process gives the next of \<open>rn_outcomes\<close>, and the operating system, \<open>git\<close> and
  GitHub answer by functions of all calls so far (\<open>outside\<close> in \<open>Workgraph_Machine\<close>), each call being recorded in \<open>events\<close>.
  Loops are structural or have a termination proof; nothing needs fuel.

  \<^bold>\<open>Theories.\<close>
  \<^item> Basis: \<open>Umb_Prelude\<close> (programs, \<open>wp\<close>, Python values), \<open>Umb_Errors\<close>, \<open>Py_Text\<close> and \<open>Py_Bytes\<close> (UTF-8, framing, base64, hex,
    SHA-256, and why they are injective), \<open>Sqlite\<close> and \<open>Sqlite_Tx\<close> (connections, statements, transactions with faults).
  \<^item> The store: \<open>Authority_Types\<close> and \<open>Authority_Validate\<close> (tables, argument checks, \<open>validate_store\<close>), \<open>Authority_Ops\<close> (every
    operation, with its failure handling), \<open>Authority_Lifecycle\<close> (creating, opening, migrating, closing files).
    \<open>Authority_Valid\<close> proves validation equivalent to the predicate \<open>store_valid\<close>; \<open>Authority_Abstract\<close> is the specification on
    finite maps (\<open>auth\<close>), \<open>Authority_Refine\<close> and \<open>Authority_Effects\<close> relate each body to it, \<open>Authority_Transactions\<close> adds begin,
    commit and rollback. The contract of all operations is the locales of \<open>Authority_Contract\<close> and \<open>Authority_Exact\<close>, interpreted
    for each; \<open>Authority_History\<close>, \<open>Authority_Fencing\<close> and \<open>Authority_Files\<close> draw the consequences.
  \<^item> Commands: \<open>Execution_Identity\<close>, \<open>Local_Command\<close>, and \<open>Local_Execution\<close>, which also has the step relation \<open>step\<close> of any number
    of controllers that share a database and may crash anywhere, with its invariants.
  \<^item> The client: \<open>Workgraph_Machine\<close> (the outside), \<open>Workgraph_Validation\<close>, \<open>Workgraph_Client\<close> (the two modules, function by function).
    \<open>Workgraph_Facts\<close> has the locale \<open>call_history\<close> of what programs may add to the calls; \<open>Workgraph_Safety\<close>, \<open>Workgraph_Evidence\<close> and
    \<open>Workgraph_Runs\<close> order the calls, \<open>Workgraph_Verdict\<close> explains the exit codes of the validation, \<open>Workgraph_Results\<close> relates
    results to the store, \<open>Workgraph_Steps\<close> relates runs to controller steps, \<open>Workgraph_Completion\<close> and \<open>Workgraph_Liveness\<close> prove
    that cooperative runs complete.
  \<^item> Buildbot: \<open>Bb_Locks\<close> (\<open>locks.py\<close>, one lock), \<open>Bb_Real_Locks\<close> (master and worker locks and their retrieval), \<open>Bb_Lock_Users\<close>
    (builds, steps, workers, builders); \<open>Bb_Lock_Facts\<close>, \<open>Bb_Lock_Safety\<close>, \<open>Bb_Lock_Progress\<close> and \<open>Bb_Lock_Sharing\<close> (the locale
    \<open>lock_service\<close>) prove what they promise and where they fail. \<open>Bb_Lru\<close>, \<open>Bb_Lru_Facts\<close>, \<open>Bb_Lru_Spec\<close>: \<open>util/lru.py\<close> and its ideal.
    \<open>Bb_Results\<close>: \<open>process/results.py\<close>. \<open>Bb_Lines\<close>, \<open>Bb_Line_Facts\<close>: \<open>util/lineboundaries.py\<close>. \<open>Bb_Debounce\<close>: \<open>util/debounce.py\<close> with
    the reactor's clock and a log of what can be seen; \<open>Bb_Debounce_Facts\<close> has the invariant of all histories.
  \<^item> The data API: \<open>Bb_Values\<close> (Python's comparisons of field values, and a linear order that agrees with them),
    \<open>Bb_Resultspec\<close> (\<open>data/resultspec.py\<close>: filters, comparators, \<open>apply\<close>, SQL queries), \<open>Bb_Resultspec_Facts\<close> (sorting is
    \<open>sort_key\<close>, what a filter accepts, pages), \<open>Bb_Resultspec_Sql\<close> (what a database promises, \<open>serves\<close>, and that it agrees),
    \<open>Bb_Jsonapi\<close>, \<open>Bb_Jsonapi_Facts\<close> (\<open>resultspec_from_jsonapi\<close> of \<open>data/connector.py\<close> with the types of \<open>data/types.py\<close>),
    \<open>Bb_Endpoints\<close> (the collection of changes, \<open>data/changes.py\<close> and \<open>db/changes.py\<close>).
  \<^item> \<open>Execution_Examples\<close>, \<open>Workgraph_Examples\<close>, \<open>Bb_Lock_Examples\<close> and \<open>Bb_Data_Examples\<close> hold the concrete data on which the properties below are applied.

  \<^bold>\<open>What the properties show.\<close> An execution key is launched at most once by any number of controllers, clients included; what is
  recorded was launched and observed; generations fence off superseded controllers; every error of a launch transition is
  certain or says that it is not; files are created, opened and migrated atomically. The client launches only what it has
  confirmed, publishes only what is durable, removes only its checkouts, and completes if its surroundings do their part.
  Locks are safe and serve their first waiter, builds get all their locks or none; the caches refine an ideal one.
  A debouncer loses no call and comes to rest; collections are filtered, sorted and paged as asked, in Python as in a database.
  Some properties show defects: a scope that SQLite cannot encode leaves a transaction open, and a stopped build can block a
  lock for ever; further ones are lemmas of \<open>Bb_Lock_Examples\<close>, \<open>Bb_Lock_Progress\<close>, \<open>Bb_Lru_Spec\<close>, \<open>Bb_Line_Facts\<close>,
  \<open>Bb_Endpoints\<close> and \<open>Bb_Data_Examples\<close>.

  \<^bold>\<open>Not modelled.\<close> Argument parsing and the JSON text (the client's lines are values of \<open>printed\<close>); the texts of messages that no
  code reads; file system races below the level of single calls; Windows path rules beyond parts, parents and equality up to
  case (\<open>lower\<close> and \<open>parse_path\<close> are given); SQLite below statements and transactions. Of Buildbot: Twisted's scheduling
  (a Deferred is a number that is fired at most once, a callback runs as a later operation), the hashing of service names,
  subscriptions to releases (an effect), floats and dicts as field values, what a database makes of a query and what
  an endpoint makes of a row (arguments), the rendering of lock lists, the logging; the rest of its process layer, the database layer but for one query, the web
  server, reporters, change sources, schedulers and configuration, which are I/O on external services or declarations.
\<close>

section \<open>Executions by any number of controllers\<close>

text \<open>
  C1: Whatever any number of controllers do with one authority database, crashing at any point
  and through handles that may fail at any statement, an execution key is launched at most once;
  a key that already has a launch in the database they start from is never launched.
\<close>

theorem launched_at_most_once:
  assumes "steps (start d) w"
  shows "length (launched w key) \<le> 1 \<and> (launch_at (abs_of d) key \<noteq> None \<longrightarrow> launched w key = [])"
proof -
  have "exclusive w" "spent d w"
    using steps_exclusive [OF assms start_exclusive] steps_spent [OF assms start_spent] .
  then show ?thesis by (auto simp: exclusive_def exclusive_at_def spent_def)
qed

theorem launched_at_most_once_witness:
  "\<exists>w. steps (start ready_database) w \<and> w_events w \<noteq> [] \<and> length (launched w (PyStr (py ''k''))) \<le> 1"
proof -
  obtain w where w: "steps (start ready_database) w" "w_events w = [demo_event]"
    by (rule demo_world)
  with launched_at_most_once [OF w(1), of "PyStr (py ''k'')"] show ?thesis by auto
qed

text \<open>
  C2: Every physical launch is backed by durable evidence: the key's launch is recorded with the
  command hash that was launched, it has left the state \<open>intent\<close>, and the process call is the one
  a command with that hash describes.
\<close>

theorem launches_are_backed:
  assumes "steps (start d) w" "e \<in> set (w_events w)"
  shows "\<exists>k l spec. ev_key e = PyStr k \<and> launches (abs_of (w_db w)) k = Some l \<and> lch_hash l = ev_hash e
     \<and> UNKNOWN \<le> lch_state l \<and> command_spec_hash spec = Inr (ev_hash e) \<and> ev_call e = launcher_call spec"
proof -
  have "event_ok (w_db w) e"
    using steps_evidence [OF assms(1) start_evidence] assms(2) by (simp add: evidence_def)
  then obtain l spec where "launch_at (abs_of (w_db w)) (ev_key e) = Some l" "lch_hash l = ev_hash e"
      "UNKNOWN \<le> lch_state l" "command_spec_hash spec = Inr (ev_hash e)" "ev_call e = launcher_call spec"
    by (auto simp: event_ok_def backed_def split: option.splits)
  then show ?thesis by (auto simp: launch_at_def bind_eq_Some_conv)
qed

theorem launches_are_backed_witness:
  "\<exists>w l. steps (start ready_database) w \<and> demo_event \<in> set (w_events w) \<and> UNKNOWN \<le> lch_state (l :: ExecutionLaunch)
     \<and> lch_hash l = demo_hash"
proof -
  obtain w where w: "steps (start ready_database) w" "w_events w = [demo_event]"
    by (rule demo_world)
  then have "demo_event \<in> set (w_events w)" by simp
  with launches_are_backed [OF w(1) this] w(1) show ?thesis by (auto simp: demo_event_def)
qed

text \<open>
  C3: A terminal result is never invented: if a launch is terminal, it was so from the start, or a
  process was launched for its key and command and gave just the recorded exit code.
\<close>

theorem terminal_results_were_observed:
  assumes "steps (start d) w" "launches (abs_of (w_db w)) k = Some l" "lch_state l = TERMINAL"
  shows "launches (abs_of d) k = Some l \<or> (\<exists>e\<in>set (w_events w). \<exists>code. ev_key e = PyStr k
     \<and> ev_hash e = lch_hash l \<and> ev_outcome e = Returned (PyInt code) \<and> lch_exit l = Some code)"
proof -
  have "terminal_from d w" by (rule steps_terminal [OF assms(1) start_evidence start_terminal])
  then show ?thesis
    unfolding terminal_from_def launch_at_def using assms(2,3)
    by (elim allE [where x = "PyStr k"] allE [where x = l]) simp
qed

theorem terminal_results_were_observed_witness:
  "\<exists>w. steps (start ready_database) w \<and> launches (abs_of (w_db w)) (py ''k'') = Some demo_launch
     \<and> (\<exists>e\<in>set (w_events w). ev_outcome e = Returned (PyInt 0))"
proof -
  obtain w where w: "steps (start ready_database) w" "w_events w = [demo_event]"
      "launches (abs_of (w_db w)) = [py ''k'' \<mapsto> demo_launch]"
    by (rule demo_world)
  have l: "launches (abs_of (w_db w)) (py ''k'') = Some demo_launch" "lch_state demo_launch = TERMINAL"
    by (simp_all add: w(3) demo_launch_def del: py_Cons)
  from terminal_results_were_observed [OF w(1) l] show ?thesis
    using w l by (auto simp: ready_abs demo_launch_def simp del: py_Cons)
qed

text \<open>
  C4: A call of \<open>execute_local_command\<close>, failing or not, is a sequence of the controller steps the
  three theorems above are about: the same changes of the database and the same launches.
\<close>

theorem execution_is_controller_steps:
  assumes "handle_ok (rn_store c)" "w_db w = durable (rn_store c)" "w_phase w i = Outside"
  shows "\<exists>w' es. steps w w' \<and> w_db w' = durable (rn_store (snd (execute_local_command key scope generation spec c)))
     \<and> w_events w' = w_events w @ es
     \<and> rn_launched (snd (execute_local_command key scope generation spec c)) = rn_launched c @ es
     \<and> (\<forall>j. j \<noteq> i \<longrightarrow> w_phase w' j = w_phase w j)"
  using execute_simulated [OF assms, of key scope generation spec] by (auto simp: follows_def)

theorem execution_is_controller_steps_witness:
  "\<exists>w' es. steps (start ready_database) w' \<and> w_events w' = es
     \<and> rn_launched (snd (execute_local_command (PyStr (py ''k'')) (PyStr (py ''s'')) (PyInt 2) demo_command demo_runner)) = es
     \<and> es \<noteq> []"
proof -
  obtain c' where run: "snd (execute_local_command (PyStr (py ''k'')) (PyStr (py ''s'')) (PyInt 2) demo_command demo_runner) = c'"
    "rn_launched c' = [demo_event]"
    by (metis demo_finished snd_conv)
  have "handle_ok (rn_store demo_runner)" "w_db (start ready_database) = durable (rn_store demo_runner)"
    "w_phase (start ready_database) 0 = Outside" "w_events (start ready_database) = []" "rn_launched demo_runner = []"
    by (simp_all add: demo_runner_def demo_idle start_def)
  with execution_is_controller_steps [OF this(1-3), of "PyStr (py ''k'')" "PyStr (py ''s'')" "PyInt 2" demo_command]
  show ?thesis using run by auto
qed

text \<open>
  C5: An execution that returns found the key bound to the command's hash, admitted under the given
  scope and generation, that generation current and no launch; it launched once, recorded the
  terminal result with the exit code it returns, and changed nothing else of the authority state.
\<close>

theorem execution_effect:
  assumes "handle_ok (rn_store c)" "execute_local_command (PyStr k) (PyStr sc) (PyInt g) spec c = (Inr res, c')"
    "a = abs_of (durable (rn_store c))"
  shows "\<exists>h. command_spec_hash spec = Inr h \<and> bindings a k = Some h \<and> admissions a k = Some (sc, g)
     \<and> generations a sc = Some g \<and> launches a k = None
     \<and> abs_of (durable (rn_store c')) = a\<lparr>launches := (launches a)(k \<mapsto> \<lparr>lch_key = k, lch_hash = h,
          lch_scope = sc, lch_generation = g, lch_state = TERMINAL, lch_exit = Some (res_exit res)\<rparr>)\<rparr>
     \<and> rn_launched c' = rn_launched c @ [\<lparr>ev_key = PyStr k, ev_hash = h, ev_call = launcher_call spec,
          ev_outcome = Returned (PyInt (res_exit res))\<rparr>]"
  by (cases rule: execute_returned [OF assms(1,2)]) (auto simp: assms(3))

theorem execution_effect_witness:
  "\<exists>c' :: runner. launches (abs_of (durable (rn_store c'))) (py ''k'') = Some demo_launch"
proof -
  obtain c' where run: "execute_local_command (PyStr (py ''k'')) (PyStr (py ''s'')) (PyInt 2) demo_command demo_runner =
      (Inr \<lparr>res_key = PyStr (py ''k''), res_hash = demo_hash, res_exit = 0\<rparr>, c')"
    by (rule demo_finished)
  have "handle_ok (rn_store demo_runner)" by (simp add: demo_runner_def demo_idle)
  from execution_effect [OF this run refl] show ?thesis
    by - (rule exI [of _ c'], auto simp: demo_hash demo_launch_def simp del: py_Cons)
qed

text \<open>
  C6: Without failures, an execution of a bound and admitted key without a launch, by the controller
  that holds the current generation, returns the exit code of the process, whatever it is.
\<close>

theorem execution_completes:
  assumes "no_faults (rn_store c)" "command_spec_hash spec = Inr h"
    "admitted_for (abs_of (durable (rn_store c))) k sc g h"
    "next_outcome c = Returned (PyInt code)" "min_sqlite_integer \<le> code" "code \<le> max_sqlite_integer"
  shows "\<exists>c'. execute_local_command (PyStr k) (PyStr sc) (PyInt g) spec c =
     (Inr \<lparr>res_key = PyStr k, res_hash = h, res_exit = code\<rparr>, c')"
  using execute_succeeds [OF assms(1,2) _ assms(3-6), of "PyStr sc"] by auto

theorem execution_completes_witness:
  "\<exists>c'. execute_local_command (PyStr (py ''k'')) (PyStr (py ''s'')) (PyInt 2) demo_command
     (demo_runner\<lparr>rn_outcomes := [Returned (PyInt (-9))]\<rparr>) =
     (Inr \<lparr>res_key = PyStr (py ''k''), res_hash = demo_hash, res_exit = -9\<rparr>, c')"
  by (rule execution_completes [OF _ demo_hash])
    (simp_all add: demo_runner_def ready_no_faults demo_idle ready_admitted next_outcome_def
      min_sqlite_integer_def max_sqlite_integer_def del: py_Cons)

section \<open>The authority store\<close>

text \<open>
  C7: Over any history of requests, by any handles with any faults, the authority only moves
  forward: generations do not decrease, registrations, bindings and admissions stay as they are,
  and a launch keeps its identity and moves from intent to unknown to terminal. A database that is
  not a valid store is not changed at all, and a valid one stays valid.
\<close>

theorem authority_moves_forward:
  assumes "history d e"
  shows "e = d \<or> store_valid d \<and> store_valid e \<and> auth_le (abs_of d) (abs_of e)"
  using history_advances [OF assms] by (simp add: advances_def)

theorem authority_moves_forward_witness:
  "\<exists>e. history ready_database e \<and> e \<noteq> ready_database \<and> auth_le (abs_of ready_database) (abs_of e)"
proof -
  obtain s where s: "acquire_generation (PyStr (py ''s'')) (open_handle ready_database) = (Inr 3, s)"
      "abs_of (durable s) = (abs_of ready_database)\<lparr>generations := [py ''s'' \<mapsto> 3]\<rparr>"
    by (rule demo_acquire)
  have "run_request (Acquire_generation (PyStr (py ''s''))) (open_handle ready_database) = (Inr (), s)"
    by (simp add: discard_def run_bnd s run_simps del: py_Cons)
  then have h: "history ready_database (durable s)"
    by (rule history.request [rotated 2]) (simp_all add: demo_idle history.begin_history)
  moreover have "generations (abs_of (durable s)) (py ''s'') \<noteq> generations (abs_of ready_database) (py ''s'')"
    by (simp add: s(2) ready_abs del: py_Cons)
  then have "durable s \<noteq> ready_database" by auto
  ultimately show ?thesis using authority_moves_forward [OF h] by blast
qed

text \<open>
  C8: A generation is a fencing token: a later acquisition of the same scope, by any handle and
  after any requests in between, returns a greater one.
\<close>

theorem generations_increase:
  assumes "handle_ok s" "acquire_generation scope s = (Inr g, s')" "history (durable s') (durable t)"
    "handle_ok t" "acquire_generation scope t = (Inr h, t')"
  shows "g < h"
  by (rule later_generation [OF assms])

theorem generations_increase_witness:
  "\<exists>s t g h. acquire_generation (PyStr (py ''s'')) (open_handle ready_database) = (Inr g, s)
     \<and> acquire_generation (PyStr (py ''s'')) s = (Inr h, t) \<and> g < h"
proof -
  obtain s where s: "acquire_generation (PyStr (py ''s'')) (open_handle ready_database) = (Inr 3, s)" "no_faults s"
      "abs_of (durable s) = (abs_of ready_database)\<lparr>generations := [py ''s'' \<mapsto> 3]\<rparr>"
    by (rule demo_acquire)
  obtain t where t: "acquire_generation (PyStr (py ''s'')) s = (Inr 4, t)"
    by (rule acquire.succeeds [OF s(2), of "PyStr (py ''s'')" 4])
      (use py_inject [of "''s''" "[]"] in \<open>auto simp: s_acquire_Inr s(3) demo_letters max_generation_def simp del: py_Cons py_inject\<close>)
  with generations_increase [OF demo_idle(2) s(1) history.begin_history no_faults_ok [OF s(2)] t] s(1) t show ?thesis by blast
qed

text \<open>
  C9: A controller that has been superseded can no longer claim: after a later acquisition of the
  scope, no claim with an older generation returns, whatever happened in between.
\<close>

theorem superseded_controllers_cannot_claim:
  assumes "handle_ok s" "acquire_generation scope s = (Inr g, s')" "history (durable s') (durable t)"
    "handle_ok t" "g' < g"
  shows "isl (fst (claim_execution_launch key scope (PyInt g') hash t))"
  by (rule claim_fenced [OF assms])

theorem superseded_controllers_cannot_claim_witness:
  "\<exists>s. acquire_generation (PyStr (py ''s'')) (open_handle ready_database) = (Inr 3, s)
     \<and> isl (fst (claim_execution_launch (PyStr (py ''k'')) (PyStr (py ''s'')) (PyInt 2) (PyStr demo_hash) s))"
proof -
  obtain s where s: "acquire_generation (PyStr (py ''s'')) (open_handle ready_database) = (Inr 3, s)" "no_faults s"
    by (rule demo_acquire)
  with superseded_controllers_cannot_claim [OF demo_idle(2) s(1) history.begin_history no_faults_ok [OF s(2)]]
  show ?thesis by auto
qed

text \<open>
  C10: A claim that returns found the key registered, bound to just this hash, admitted under just
  this scope and generation, the generation current and no launch; it records the launch in the
  state intent and changes nothing else.
\<close>

theorem claim_effect:
  assumes "handle_ok s" "claim_execution_launch (PyStr k) (PyStr sc) (PyInt g) (PyStr h) s = (Inr l, s')"
    "a = abs_of (durable s)"
  shows "k \<in> registered a \<and> bindings a k = Some h \<and> admissions a k = Some (sc, g) \<and> generations a sc = Some g
     \<and> launches a k = None \<and> abs_of (durable s') = a\<lparr>launches := (launches a)(k \<mapsto> l)\<rparr>
     \<and> l = \<lparr>lch_key = k, lch_hash = h, lch_scope = sc, lch_generation = g, lch_state = INTENT, lch_exit = None\<rparr>
     \<and> store_valid (durable s')"
  by (cases rule: claimed [OF assms(1,2)]) (simp add: assms(3) intent_launch_def)

theorem claim_effect_witness:
  "\<exists>s l. claim_execution_launch (PyStr (py ''k'')) (PyStr (py ''s'')) (PyInt 2) (PyStr demo_hash) (open_handle ready_database) =
     (Inr l, s) \<and> lch_state l = INTENT \<and> store_valid (durable s)"
proof -
  have "s_claim_execution_launch (PyStr (py ''k'')) (PyStr (py ''s'')) (PyInt 2) (PyStr demo_hash) (abs_of ready_database) =
      (Inr (intent_launch (py ''k'') (py ''s'') 2 demo_hash), (abs_of ready_database)\<lparr>launches :=
         (launches (abs_of ready_database))(py ''k'' \<mapsto> intent_launch (py ''k'') (py ''s'') 2 demo_hash)\<rparr>)"
    using hash_usable [OF demo_hash] py_inject [of "''k''" "[]"] py_inject [of "''s''" "[]"]
    by (simp add: s_claim_Inr ready_abs demo_letters max_generation_def del: py_Cons py_inject)
  then obtain s where s: "claim_execution_launch (PyStr (py ''k'')) (PyStr (py ''s'')) (PyInt 2) (PyStr demo_hash)
      (open_handle ready_database) = (Inr (intent_launch (py ''k'') (py ''s'') 2 demo_hash), s)"
    using claim.succeeds [OF ready_no_faults] by (metis demo_idle(3))
  from claim_effect [OF demo_idle(2) this refl] s show ?thesis by auto
qed

text \<open>
  A key that has a launch is never claimed again, by any handle and after any requests.
\<close>

theorem claims_are_final:
  assumes "launches (abs_of d) k \<noteq> None" "history d (durable t)" "handle_ok t"
  shows "isl (fst (claim_execution_launch (PyStr k) scope generation hash t))"
  by (rule claim_once [OF assms(2,1,3)])

theorem claims_are_final_witness:
  "\<exists>d. launches (abs_of d) (py ''k'') = Some demo_launch
     \<and> isl (fst (claim_execution_launch (PyStr (py ''k'')) (PyStr (py ''s'')) (PyInt 2) (PyStr demo_hash) (open_handle d)))"
proof -
  obtain w where "steps (start ready_database) w" "w_events w = [demo_event]"
      and w: "launches (abs_of (w_db w)) = [py ''k'' \<mapsto> demo_launch]"
    by (rule demo_world)
  have "launches (abs_of (w_db w)) (py ''k'') \<noteq> None" "history (w_db w) (durable (open_handle (w_db w)))"
    by (simp_all add: w demo_idle history.begin_history del: py_Cons)
  from claims_are_final [OF this demo_idle(2)] show ?thesis
    by - (rule exI [of _ "w_db w"], simp add: w del: py_Cons)
qed

text \<open>
  C11: The three launch transitions tell the truth about uncertainty: if one raises anything but its
  \<open>COMMIT outcome is uncertain\<close> error, the database is unchanged; if it raises that error, the handle
  is poisoned and closed, so that the outcome cannot be acted on.
\<close>

theorem launch_errors_are_certain:
  assumes "idle s" "(m, operation) \<in> {(claim_execution_launch key scope generation hash, ''execution launch claim''),
      (mark_execution_launch_unknown key hash, ''execution launch UNKNOWN transition''),
      (record_execution_terminal_result key hash code, ''execution terminal-result transition'')}"
    "m s = (Inl e, s')"
  shows "if e = uncertain_commit operation then poisoned s' \<and> \<not> connected s' else durable s' = durable s"
  using assms(1,2,3) claim.certain_error [OF assms(1)] claim.uncertain_dead [OF assms(1)]
    mark.certain_error [OF assms(1)] mark.uncertain_dead [OF assms(1)]
    record_op.certain_error [OF assms(1)] record_op.uncertain_dead [OF assms(1)]
  by (auto simp: dead_def)

theorem launch_errors_are_certain_witness:
  "\<exists>e s'. mark_execution_launch_unknown (PyStr (py ''k'')) (PyStr demo_hash) (open_handle ready_database) = (Inl e, s')
     \<and> e \<noteq> uncertain_commit ''execution launch UNKNOWN transition'' \<and> durable s' = ready_database"
proof -
  have arg: "validate_execution_key (PyStr (py ''k'')) = Inr (py ''k'')" "validate_command_spec_hash (PyStr demo_hash) = Inr demo_hash"
    using hash_usable [OF demo_hash] utf8_encode_None [of demo_hash]
    by (auto simp: validate_execution_key_def validate_command_spec_hash_def split: option.split)
  have "s_mark_execution_launch_unknown (PyStr (py ''k'')) (PyStr demo_hash) (abs_of ready_database) =
      (Inl ExecutionLaunchStateError, abs_of ready_database)"
    by (simp add: s_mark_execution_launch_unknown_def arg bnd_of_Inr a_mark_def a_transition_def run_sq run_param
        demo_letters ready_abs del: py_Cons)
  then obtain s' where s: "mark_execution_launch_unknown (PyStr (py ''k'')) (PyStr demo_hash) (open_handle ready_database) =
      (Inl ExecutionLaunchStateError, s')"
    using mark.fails [OF ready_no_faults] by (metis demo_idle(3) id_apply)
  moreover have "ExecutionLaunchStateError \<noteq> uncertain_commit ''execution launch UNKNOWN transition''"
    by (simp add: uncertain_commit_def)
  ultimately show ?thesis
    using launch_errors_are_certain [where m = "mark_execution_launch_unknown (PyStr (py ''k'')) (PyStr demo_hash)"
        and operation = "''execution launch UNKNOWN transition''", OF demo_idle(1) _ s]
    by (auto simp: demo_idle)
qed

text \<open>
  C12: In a transaction, the validation every operation starts with decides validity of the store:
  it returns just for the valid databases, changes nothing, and otherwise raises one of the
  errors for malformed stores.
\<close>

theorem validation_decides:
  assumes "is_open c" "faults c = []" "work c = Some d"
  shows "snd (validate_store c) = c \<and> (fst (validate_store c) = Inr () \<longleftrightarrow> store_valid d)
     \<and> (\<forall>e. fst (validate_store c) = Inl e \<longrightarrow> is_malformed_error e)"
proof (cases "store_valid d")
  case True
  with validate_store_accepts [OF assms] show ?thesis by simp
next
  case False
  obtain e where "validate_store c = (Inl e, c)" "is_malformed_error e"
    by (rule validate_store_rejects [OF assms False])
  with False show ?thesis by simp
qed

theorem validation_decides_witness:
  "fst (validate_store ((open_handle fresh_database)\<lparr>work := Some fresh_database\<rparr>)) = Inr ()
   \<and> fst (validate_store ((open_handle empty_database)\<lparr>work := Some empty_database\<rparr>)) \<noteq> Inr ()"
proof -
  have *: "is_open ((open_handle d)\<lparr>work := Some d\<rparr>)" "faults ((open_handle d)\<lparr>work := Some d\<rparr>) = []"
    "work ((open_handle d)\<lparr>work := Some d\<rparr>) = Some d" for d
    by (simp_all add: open_handle_def)
  have "\<not> store_valid empty_database"
    by (simp add: store_valid_parts empty_database_def schema_versions)
  then show ?thesis
    using validation_decides [OF *] fresh_valid by blast
qed

text \<open>
  The rows of a valid store fit together: generations are positive and in range; bindings are
  of registered keys; admissions are of bound keys, for a generation the scope has reached; a launch
  carries its key's bound hash and its admission's scope and generation, and has an exit code just
  when it is terminal.
\<close>

theorem valid_stores_are_consistent:
  assumes "store_valid d" "a = abs_of d"
  shows "(\<forall>s g. generations a s = Some g \<longrightarrow> 0 < g \<and> g \<le> max_generation)
     \<and> (\<forall>k h. bindings a k = Some h \<longrightarrow> k \<in> registered a)
     \<and> (\<forall>k s g. admissions a k = Some (s, g) \<longrightarrow> bindings a k \<noteq> None \<and> (\<exists>n\<ge>g. generations a s = Some n))
     \<and> (\<forall>k l. launches a k = Some l \<longrightarrow> bindings a k = Some (lch_hash l)
          \<and> admissions a k = Some (lch_scope l, lch_generation l) \<and> (lch_exit l = None \<longleftrightarrow> lch_state l \<noteq> TERMINAL))"
proof -
  have ok: "authority_ok a" using valid_authority_ok [OF assms(1)] assms(2) by simp
  show ?thesis
  proof (intro conjI allI impI)
    fix k s g assume "admissions a k = Some (s, g)"
    then have "admission_agrees a k (s, g)" using ok by (simp add: authority_ok_def)
    then show "bindings a k \<noteq> None" "\<exists>n\<ge>g. generations a s = Some n"
      by (auto simp: admission_agrees_def split: option.splits)
  next
    fix k l assume "launches a k = Some l"
    then have "launch_agrees a k l" using ok by (simp add: authority_ok_def)
    then show "bindings a k = Some (lch_hash l)" "admissions a k = Some (lch_scope l, lch_generation l)"
      "lch_exit l = None \<longleftrightarrow> lch_state l \<noteq> TERMINAL"
      by (auto simp: launch_agrees_def launch_fields_ok_def)
  qed (use ok in \<open>simp_all add: authority_ok_def\<close>)
qed

theorem valid_stores_are_consistent_witness:
  "\<exists>n\<ge>2. generations (abs_of ready_database) (py ''s'') = Some n"
  using valid_stores_are_consistent [OF ready_valid refl] by (auto simp: ready_abs simp del: py_Cons)

text \<open>
  Without failures, the result of a claim on given values, with the errors in the order the code
  checks for them.
\<close>

theorem claim_result:
  assumes "no_faults s" "a = abs_of (durable s)"
  shows "fst (claim_execution_launch (PyStr k) (PyStr sc) (PyInt g) (PyStr h) s) =
    (if k = [] then Inl InvalidExecutionKeyError
     else if sc = [] then Inl InvalidAuthorityScopeError
     else if g \<le> 0 \<or> g > max_generation then Inl InvalidControllerGenerationError
     else if h = [] \<or> \<not> encodable h then Inl InvalidCommandSpecHashError
     else if \<not> encodable k then Inl UnicodeEncodeError
     else if k \<notin> registered a then Inl ExecutionKeyNotRegisteredError
     else if bindings a k = None then Inl ExecutionKeyNotCommandBoundError
     else if bindings a k \<noteq> Some h then Inl CommandSpecHashMismatchError
     else if admissions a k = None then Inl ExecutionAdmissionMissingError
     else if admissions a k \<noteq> Some (sc, g) then Inl ExecutionAdmissionMismatchError
     else if \<not> encodable sc then Inl UnicodeEncodeError
     else if generations a sc \<noteq> Some g then Inl ControllerGenerationNotCurrentError
     else if launches a k \<noteq> None then Inl ExecutionLaunchAlreadyClaimedError
     else Inr \<lparr>lch_key = k, lch_hash = h, lch_scope = sc, lch_generation = g, lch_state = INTENT, lch_exit = None\<rparr>)"
  unfolding claim.same_result [OF assms(1)] assms(2) s_claim_execution_launch_def
  by (simp add: run_bnd run_sq run_simps run_param validate_execution_key_def validate_scope_def
      validate_controller_generation_def validate_command_spec_hash_def utf8_encode_utf8 a_claim_def a_registered_def
      intent_launch_def)

theorem claim_result_witness:
  "fst (claim_execution_launch (PyStr (py ''k'')) (PyStr (py ''s'')) (PyInt 1) (PyStr demo_hash) (open_handle ready_database)) =
     Inl ExecutionAdmissionMismatchError"
  using claim_result [OF ready_no_faults refl, of "py ''k''" "py ''s''" 1 demo_hash] hash_usable [OF demo_hash]
    py_inject [of "''k''" "[]"] py_inject [of "''s''" "[]"]
  by (simp add: demo_idle ready_abs demo_letters max_generation_def del: py_Cons py_inject)

text \<open>
  Without failures, the result of an admission on given values; repeating an admission is
  harmless, and a key is never admitted under a second scope or generation.
\<close>

theorem admission_result:
  assumes "no_faults s" "a = abs_of (durable s)"
  shows "fst (admit_execution (PyStr k) (PyStr sc) (PyInt g) s) =
    (if k = [] then Inl InvalidExecutionKeyError
     else if sc = [] then Inl InvalidAuthorityScopeError
     else if g \<le> 0 \<or> g > max_generation then Inl InvalidControllerGenerationError
     else if \<not> encodable k then Inl UnicodeEncodeError
     else if k \<notin> registered a then Inl ExecutionKeyNotRegisteredError
     else if bindings a k = None then Inl ExecutionKeyNotCommandBoundError
     else if \<not> encodable sc then Inl UnicodeEncodeError
     else if generations a sc \<noteq> Some g then Inl ControllerGenerationNotCurrentError
     else if admissions a k = None then Inr ADMITTED
     else if admissions a k = Some (sc, g) then Inr ALREADY_ADMITTED
     else Inl ExecutionAdmissionConflictError)"
  unfolding admit.same_result [OF assms(1)] assms(2) s_admit_execution_def
  by (simp add: run_bnd run_sq run_simps run_param validate_execution_key_def validate_scope_def
      validate_controller_generation_def a_admit_def a_registered_def wrap_def split: option.split)

theorem admission_result_witness:
  "fst (admit_execution (PyStr (py ''k'')) (PyStr (py ''s'')) (PyInt 2) (open_handle ready_database)) = Inr ALREADY_ADMITTED"
  using admission_result [OF ready_no_faults refl, of "py ''k''" "py ''s''" 2]
    py_inject [of "''k''" "[]"] py_inject [of "''s''" "[]"]
  by (simp add: demo_idle ready_abs demo_letters max_generation_def del: py_Cons py_inject)

text \<open>
  Without failures, the result of binding a command hash: the first hash of a registered key is
  bound, the same one is accepted again, any other one is refused.
\<close>

theorem binding_result:
  assumes "no_faults s" "a = abs_of (durable s)"
  shows "fst (bind_command_spec_hash (PyStr k) (PyStr h) s) =
    (if k = [] then Inl InvalidExecutionKeyError
     else if h = [] \<or> \<not> encodable h then Inl InvalidCommandSpecHashError
     else if \<not> encodable k then Inl UnicodeEncodeError
     else if k \<notin> registered a then Inl ExecutionKeyNotRegisteredError
     else if bindings a k = None then Inr BOUND
     else if bindings a k = Some h then Inr ALREADY_BOUND
     else Inl CommandSpecConflictError)"
  unfolding bind_op.same_result [OF assms(1)] assms(2) s_bind_command_spec_hash_def
  by (simp add: run_bnd run_sq run_simps run_param validate_execution_key_def
      validate_command_spec_hash_def utf8_encode_utf8 a_bind_def a_registered_def wrap_def split: option.split)

theorem binding_result_witness:
  "fst (bind_command_spec_hash (PyStr (py ''k'')) (PyStr (py ''s'')) (open_handle ready_database)) =
     (if py ''s'' = demo_hash then Inr ALREADY_BOUND else Inl CommandSpecConflictError)"
  using binding_result [OF ready_no_faults refl, of "py ''k''" "py ''s''"]
    py_inject [of "''k''" "[]"] py_inject [of "''s''" "[]"]
  by (simp add: demo_idle ready_abs demo_letters del: py_Cons py_inject)

text \<open>
  A handle that was poisoned or closed refuses every request with an \<open>AuthorityStoreError\<close> and
  does nothing.
\<close>

theorem unusable_handles_refuse:
  assumes "poisoned s \<or> \<not> connected s"
  shows "\<exists>m. run_request q s = (Inl (AuthorityStoreError m), s)"
  by (rule unusable_request [OF assms])

theorem unusable_handles_refuse_witness:
  "\<exists>m s. connected s \<and> run_request (Acquire_generation PyNone) s = (Inl (AuthorityStoreError m), s)"
proof -
  let ?s = "(open_handle ready_database)\<lparr>poisoned := True\<rparr>"
  have "poisoned ?s \<or> \<not> connected ?s" "connected ?s" by (simp_all add: open_handle_def)
  with unusable_handles_refuse [OF this(1), of "Acquire_generation PyNone"] show ?thesis by blast
qed

text \<open>
  The scope U+D800, a lone surrogate, passes the argument check, and the parameter binding then
  raises an exception that no \<open>except\<close> clause catches: the transaction stays open and the write
  lock stays taken.
\<close>

theorem surrogate_scope_leaks_transaction:
  "fst (acquire_generation (PyStr [0xD800]) (open_handle fresh_database)) = Inl UnicodeEncodeError
   \<and> in_transaction (snd (acquire_generation (PyStr [0xD800]) (open_handle fresh_database)))
   \<and> write_locked (snd (acquire_generation (PyStr [0xD800]) (open_handle fresh_database)))"
  by (simp add: surrogate_scope in_transaction_def)

section \<open>The WorkGraph client\<close>

text \<open>
  C13: A run of the client, whatever GitHub, git, the file system and the store answer and wherever it
  fails, launches at most one process, and only after, in this order: GitHub confirmed the fixed
  repository and the requested commit with its tree, the contract was committed and clean, the checkout
  was at that commit and clean, the preflight answered 0, the contract still had the same tree, and the
  checkout was still clean. The launch is of the command for just this target and this key.
\<close>

theorem client_launches_are_authorized:
  assumes "run_workgraph_client publish_terminal_status request c = (r, c')"
  shows "\<exists>t. events c' = events c @ t \<and> (\<forall>u ev v. t = u @ Spawned ev # v \<longrightarrow>
     (\<forall>other. Spawned other \<notin> set u) \<and> (\<exists>token target place tree d place' preflight spec key.
        saw (confirmed token target @ clean_tree place tree @ clean_checkout d (tg_revision target) (tg_tree target)
          @ [preflight_passed preflight] @ clean_tree place' tree @ clean_checkout d (tg_revision target) (tg_tree target)) u
      \<and> fixed_target target \<and> tg_revision target = rq_revision request \<and> client_execution_key target tree = Inr key
      \<and> command_for request target d tree False spec \<and> command_for request target d tree True preflight
      \<and> ev_key ev = PyStr key \<and> command_spec_hash spec = Inr (ev_hash ev) \<and> ev_call ev = launcher_call spec))"
proof -
  obtain t where t: "events c' = events c @ t" "\<forall>u e v. t = u @ e # v \<longrightarrow> launch_ok (length (events c)) request (events c @ u) e"
    using run_launches [OF assms] by (auto simp: adds_def)
  then have "authorized request u ev" if "t = u @ Spawned ev # v" for u ev v
    using that by (fastforce simp: launch_ok_def)
  with t(1) show ?thesis unfolding authorized_def prepared_def by blast
qed

theorem client_launches_are_authorized_witness:
  "\<exists>c' t. run_workgraph_client publish_terminal_status demo_request demo_machine = (Inr (finished demo_key client_hash 0), c')
     \<and> events c' = t \<and> (\<forall>u ev v. t = u @ Spawned ev # v \<longrightarrow> (\<forall>other. Spawned other \<notin> set u))"
proof -
  obtain c' where run: "run_workgraph_client publish_terminal_status demo_request demo_machine = (Inr (finished demo_key client_hash 0), c')"
    by (rule demo_client_run)
  from client_launches_are_authorized [OF run] run show ?thesis by (auto simp: demo_machine_fields)
qed

text \<open>
  C14: What a run publishes and returns is what the store durably holds: every status it posts is the exit
  code of the terminal launch of its key, for the requested revision of the fixed repository and after GitHub
  confirmed it; and a result it returns is that launch, said to be published just if it was posted and accepted.
\<close>

theorem client_results_are_durable:
  assumes "run_workgraph_client publish_terminal_status request c = (r, c')"
  shows "\<exists>t. events c' = events c @ t
     \<and> (\<forall>u p token payload a v. t = u @ Posted p token payload a # v \<longrightarrow> (\<exists>target tree key l code.
          fixed_target target \<and> tg_revision target = rq_revision request \<and> client_execution_key target tree = Inr key
        \<and> durable_launch c' key = Some l \<and> lch_state l = TERMINAL \<and> lch_exit l = Some code
        \<and> p = status_path target \<and> payload = status_payload code \<and> saw (confirmed token target) u))
     \<and> (\<forall>res. r = Inr res \<longrightarrow> (\<exists>target tree key l. fixed_target target \<and> tg_revision target = rq_revision request
        \<and> client_execution_key target tree = Inr key \<and> durable_launch c' key = Some l \<and> res = result_of key l
        \<and> (\<forall>code. cr_published res \<longrightarrow> lch_exit l = Some code \<longrightarrow>
             (\<exists>token. Posted (status_path target) token (status_payload code) (Inr 201) \<in> set t))))"
  using run_agrees [OF assms]
proof (elim disjE exE conjE)
  assume "adds no_post c c'" "isl r"
  then show ?thesis by (fastforce simp: adds_def no_post_def)
next
  fix target token tree key
  assume target: "fixed_target target" "tg_revision target = rq_revision request" "client_execution_key target tree = Inr key"
    and "agrees (length (events c)) target token key c r c'"
  then obtain t where t: "events c' = events c @ t"
    "\<forall>u e v. t = u @ e # v \<longrightarrow> posts_launch target (durable_launch c' key) token (length (events c)) (events c @ u) e"
    and res: "\<forall>res. r = Inr res \<longrightarrow> (\<exists>l. durable_launch c' key = Some l \<and> res = result_of key l \<and>
        (\<forall>code. cr_published res \<longrightarrow> lch_exit l = Some code \<longrightarrow>
           Posted (status_path target) token (status_payload code) (Inr 201) \<in> set (drop (length (events c)) (events c'))))"
    by (auto simp: agrees_def adds_def)
  have posts: "\<exists>l code. durable_launch c' key = Some l \<and> lch_state l = TERMINAL \<and> lch_exit l = Some code
      \<and> p = status_path target \<and> payload = status_payload code \<and> saw (confirmed tok target) u"
    if "t = u @ Posted p tok payload a # v" for u p tok payload a v
    using t(2) [rule_format, OF that] by (auto simp: posts_launch_def posts_def)
  show ?thesis
  proof (rule exI [of _ t], intro conjI t(1) allI impI)
    fix u p tok payload a v assume "t = u @ Posted p tok payload a # v"
    from posts [OF this] target show "\<exists>target tree key l code. fixed_target target \<and> tg_revision target = rq_revision request
        \<and> client_execution_key target tree = Inr key \<and> durable_launch c' key = Some l \<and> lch_state l = TERMINAL \<and> lch_exit l = Some code
        \<and> p = status_path target \<and> payload = status_payload code \<and> saw (confirmed tok target) u" by metis
  next
    fix result assume "r = Inr result"
    then obtain l where l: "durable_launch c' key = Some l" "result = result_of key l" "\<forall>code. cr_published result \<longrightarrow> lch_exit l = Some code \<longrightarrow>
        Posted (status_path target) token (status_payload code) (Inr 201) \<in> set t"
      using res t(1) by auto
    then show "\<exists>target tree key l. fixed_target target \<and> tg_revision target = rq_revision request
        \<and> client_execution_key target tree = Inr key \<and> durable_launch c' key = Some l \<and> result = result_of key l
        \<and> (\<forall>code. cr_published result \<longrightarrow> lch_exit l = Some code \<longrightarrow>
             (\<exists>token. Posted (status_path target) token (status_payload code) (Inr 201) \<in> set t))"
      using target by metis
  qed
qed

theorem client_results_are_durable_witness:
  "\<exists>c' key l. run_workgraph_client publish_terminal_status demo_request demo_machine = (Inr (finished demo_key client_hash 0), c')
     \<and> durable_launch c' key = Some l \<and> lch_state l = TERMINAL \<and> lch_exit l = Some 0"
proof -
  obtain c' where run: "run_workgraph_client publish_terminal_status demo_request demo_machine = (Inr (finished demo_key client_hash 0), c')"
    by (rule demo_client_run)
  have "\<exists>key l. durable_launch c' key = Some l \<and> finished demo_key client_hash 0 = result_of key l"
    using client_results_are_durable [OF run] 
    by (elim exE conjE) (drule spec [of _ "finished demo_key client_hash 0"], drule mp, rule refl, elim exE conjE, intro exI conjI)
  then obtain key l where l: "durable_launch c' key = Some l" "finished demo_key client_hash 0 = result_of key l" by blast
  from l(2) have "lch_state l = TERMINAL" "lch_exit l = Some 0" by (auto simp: finished_def result_of_def split: if_splits)
  with run l(1) show ?thesis by (intro exI conjI)
qed

text \<open>
  C15: The client removes nothing but disposable checkouts: every path it unlinks or removes as a tree lies
  directly in a directory that was resolved to the checkouts directory of the deployment in the same run.
\<close>

theorem client_removes_only_checkouts:
  assumes "client_main command c = (r, c')"
  shows "\<exists>t. events c' = events c @ t \<and> (\<forall>u kind p a v. t = u @ Changed kind p a # v \<and> kind \<noteq> Mkdir \<longrightarrow>
     (\<exists>base deployment parent checkouts.
        Resolved (path_join (path_join base (py ''Umbilical'')) (py ''workgraph-first-client-v1'')) (Inr deployment) \<in> set u
      \<and> Resolved (path_join deployment (py ''checkouts'')) (Inr checkouts) \<in> set u
      \<and> Resolved (path_parent p) (Inr parent) \<in> set u
      \<and> same_path (lower (outside c)) (path_parent p) parent \<and> same_path (lower (outside c)) parent checkouts))"
proof -
  obtain t where t: "events c' = events c @ t"
    "\<forall>u e v. t = u @ e # v \<longrightarrow> removal_ok (length (events c)) (lower (outside c)) (events c @ u) e"
    using main_removals [OF assms] by (auto simp: adds_def)
  have "in_checkouts (lower (outside c)) u p" if "t = u @ Changed kind p a # v" "kind \<noteq> Mkdir" for u kind p a v
    using t(2) [rule_format, OF that(1)] that(2) by (simp add: removal_ok_def)
  with t(1) show ?thesis unfolding in_checkouts_def by blast
qed

theorem client_removes_only_checkouts_witness:
  "\<exists>c' t. client_main (Run demo_sha (py ''s'')) demo_machine = (Inr 0, c') \<and> events c' = t
     \<and> (\<forall>u kind p a v. t = u @ Changed kind p a # v \<and> kind \<noteq> Mkdir \<longrightarrow> (\<exists>parent. Resolved (path_parent p) (Inr parent) \<in> set u))"
proof -
  obtain c' where run: "client_main (Run demo_sha (py ''s'')) demo_machine = (Inr 0, c')"
    by (rule demo_main_run)
  from client_removes_only_checkouts [OF run] run show ?thesis by (auto simp: demo_machine_fields) blast
qed

text \<open>
  C16: With a cooperative outside and a store without failures, a run of the client for a key without a launch,
  also one that an interrupted run has registered, bound or admitted already, launches the command of the key,
  leaves the terminal launch with its exit code in the store, then has GitHub accept the status with this code,
  and returns it; the program exits with 0 if it is 0 and with 1 otherwise.
\<close>

theorem client_completes:
  fixes c :: machine
  assumes "quiet_host (host c)" "on_disk (host c) (store_file (host c) d) = Some db" "store_valid db"
    "cooperates (outside c) d request token target tree key spec" "client_execution_key target tree = Inr key"
    "command_spec_hash spec = Inr hash" "resumable (abs_of db) key hash g"
    "next_outcome (runner c) = Returned (PyInt code)" "min_sqlite_integer \<le> code" "code \<le> max_sqlite_integer"
    "make_request (PyStr revision) (parse_path (outside c) source) 1800 = Inr request"
    "ev = \<lparr>ev_key = PyStr key, ev_hash = hash, ev_call = launcher_call spec, ev_outcome = Returned (PyInt code)\<rparr>"
    "row = \<lparr>lch_key = key, lch_hash = hash, lch_scope = authority_scope, lch_generation = g, lch_state = TERMINAL, lch_exit = Some code\<rparr>"
  shows "(\<exists>c' u v. run_workgraph_client publish_terminal_status request c = (Inr (finished key hash code), c')
        \<and> events c' = events c @ u @ Spawned ev # v \<and> (\<forall>other. Spawned other \<notin> set u)
        \<and> Posted (status_path target) token (status_payload code) (Inr 201) \<in> set v \<and> durable_launch c' key = Some row)
     \<and> (\<exists>c' u v. client_main (Run revision source) c = (Inr (if code = 0 then 0 else 1), c')
        \<and> events c' = events c @ u @ Spawned ev # v
        \<and> Posted (status_path target) token (status_payload code) (Inr 201) \<in> set v \<and> durable_launch c' key = Some row)"
proof
  obtain c' where run: "run_workgraph_client publish_terminal_status request c = (Inr (finished key hash code), c')"
    and "done_by key hash spec g code target token c c'" by (rule run_completes [OF assms(1-10)])
  then obtain u v where c': "events c' = events c @ u @ Spawned ev # v" "durable_launch c' key = Some row"
      "Posted (status_path target) token (status_payload code) (Inr 201) \<in> set v"
    unfolding done_by_def own_launch_def own_row_def assms(12,13) by blast
  from run_launches [OF run] c'(1) have "launch_ok (length (events c)) request (events c @ u) (Spawned ev)"
    by (auto simp: adds_def)
  then have "\<forall>other. Spawned other \<notin> set u" by (simp add: launch_ok_def authorized_def)
  with run c' show "\<exists>c' u v. run_workgraph_client publish_terminal_status request c = (Inr (finished key hash code), c')
        \<and> events c' = events c @ u @ Spawned ev # v \<and> (\<forall>other. Spawned other \<notin> set u)
        \<and> Posted (status_path target) token (status_payload code) (Inr 201) \<in> set v \<and> durable_launch c' key = Some row" by blast
next
  obtain c' where run: "client_main (Run revision source) c = (Inr (if code = 0 then 0 else 1), c')"
    and "done_by key hash spec g code target token c c'" by (rule main_completes [OF assms(1-11)])
  then show "\<exists>c' u v. client_main (Run revision source) c = (Inr (if code = 0 then 0 else 1), c')
        \<and> events c' = events c @ u @ Spawned ev # v
        \<and> Posted (status_path target) token (status_payload code) (Inr 201) \<in> set v \<and> durable_launch c' key = Some row"
    unfolding done_by_def own_launch_def own_row_def assms(12,13) by blast
qed

theorem client_completes_witness:
  "\<exists>c' u ev v. client_main (Run demo_sha (py ''s'')) demo_machine = (Inr (if (0 :: int) = 0 then 0 else 1), c')
     \<and> events c' = u @ Spawned ev # v \<and> Posted (status_path demo_target) (py ''t'') (status_payload 0) (Inr 201) \<in> set v"
proof -
  have "cooperates (outside demo_machine) demo_deployment demo_request (py ''t'') demo_target demo_sha demo_key (demo_spec demo_checkout_path False)"
    using demo_cooperates by (simp add: demo_machine_fields)
  note run = client_completes [OF demo_machine_fields(1,2) client_database_valid this demo_key client_hash client_database_resumable
      demo_machine_fields(4) _ _ demo_made refl refl, THEN conjunct2]
  from run show ?thesis
    by (simp add: demo_machine_fields(5) min_sqlite_integer_def max_sqlite_integer_def del: py_Cons) blast
qed

text \<open>
  C17: What a client does with the store is a sequence of the controller steps of the first section, failing or
  not: any number of clients launches an execution key at most once.
\<close>

theorem clients_are_controllers:
  assumes "idle (rn_store (runner c))" "w_db w = durable (rn_store (runner c))" "w_phase w i = Outside"
    "client_block publish_terminal_status request target token tree key c = (r, c')"
  shows "\<exists>w' es. steps w w' \<and> w_db w' = durable (rn_store (runner c')) \<and> w_events w' = w_events w @ es
     \<and> rn_launched (runner c') = rn_launched (runner c) @ es \<and> (\<forall>j. j \<noteq> i \<longrightarrow> w_phase w' j = w_phase w j)"
proof -
  have "in_step i w c" using assms(1-3) by (simp add: in_step_def)
  then obtain w' where "follows w i (runner c) w' (runner c')"
    using tracked_block assms(4) unfolding tracked_last_def by (metis snd_conv)
  then show ?thesis by (auto simp: follows_def)
qed

theorem clients_are_controllers_witness:
  "\<exists>r c' w'. client_block publish_terminal_status demo_request demo_target (py ''t'') demo_sha demo_key demo_machine = (r, c')
     \<and> steps (start client_database) w' \<and> w_events w' = rn_launched (runner c')"
proof -
  obtain r c' where run: "client_block publish_terminal_status demo_request demo_target (py ''t'') demo_sha demo_key demo_machine = (r, c')"
    by (cases "client_block publish_terminal_status demo_request demo_target (py ''t'') demo_sha demo_key demo_machine")
  have "idle (rn_store (runner demo_machine))" "w_db (start client_database) = durable (rn_store (runner demo_machine))"
    "w_phase (start client_database) 0 = Outside" "w_events (start client_database) = []" "rn_launched (runner demo_machine) = []"
    by (simp_all add: demo_machine_def demo_idle start_def)
  with clients_are_controllers [OF this(1-3) run] run show ?thesis by auto
qed

text \<open>
  C18: The validation process exits with 0 only if the contract was committed and clean with the expected tree,
  the checkout was at the expected commit and tree and clean, and, unless only this was asked for, both stages
  passed in order; it exits with 2, or with the code of the stage that failed, or with 127 if that could not be started.
\<close>

theorem validation_verdicts:
  assumes "run_validation d revision tree contract only c = (Inr code, c')"
  shows "\<exists>t. events c' = events c @ t \<and>
     ((code = 0 \<and> (\<exists>place python. saw (clean_tree place contract @ clean_checkout d revision tree @
        (if only then [] else map (stage_passed d) [[python, py ''tools/validate.py''],
          [python, py ''-m'', py ''unittest'', py ''discover'', py ''-s'', py ''tests'', py ''-v'']])) t))
      \<or> code = 2
      \<or> \<not> only \<and> code \<noteq> 0 \<and> (\<exists>u command result. t = u @ [Ran_stage command d result]
          \<and> (case result of Inr i \<Rightarrow> code = i | Inl e \<Rightarrow> is_os_error e \<and> code = 127)))"
  using tellsD [OF run_validation_tells assms] unfolding verdict_def stages_def stage_failed_def by simp

theorem validation_verdicts_witness:
  "\<exists>c' place. run_validation (one_part (py ''s'')) demo_sha demo_sha demo_sha False demo_machine = (Inr 0, c')
     \<and> saw (clean_tree place demo_sha) (events c')"
proof -
  obtain c' where run: "run_validation (one_part (py ''s'')) demo_sha demo_sha demo_sha False demo_machine = (Inr 0, c')"
    using demo_validation by blast
  have "saw ps t" if "saw (ps @ qs) t" for ps qs t
    using that by (induction ps t rule: saw.induct) (auto split: if_splits)
  with validation_verdicts [OF run] run show ?thesis by (auto simp: demo_machine_fields)
qed

section \<open>Store files\<close>

text \<open>
  C19: Creation is all or nothing and never overwrites: whatever fails, no other file changes, an
  existing file stays as it is and the call raises, and a new file is either an empty database
  or a complete valid store; it is the latter if the call returns, and then empty.
\<close>

theorem creation_is_atomic:
  assumes "initialize_new path h = (r, h')" "p = os_abspath h (os_expanduser h path)"
  shows "(\<forall>q. q \<noteq> p \<longrightarrow> on_disk h' q = on_disk h q) \<and> (case on_disk h p of
      Some d \<Rightarrow> on_disk h' p = Some d \<and> isl r
    | None \<Rightarrow> (case r of
        Inr s \<Rightarrow> on_disk h' p = Some (durable s) \<and> store_valid (durable s) \<and> idle s \<and> synchronous s = 2
          \<and> generations (abs_of (durable s)) = Map.empty \<and> registered (abs_of (durable s)) = {}
      | Inl e \<Rightarrow> (case on_disk h' p of None \<Rightarrow> True | Some d \<Rightarrow> blank d \<or> store_valid d \<and> registered (abs_of d) = {})))"
proof -
  have "store_valid d" "generations (abs_of d) = Map.empty" "registered (abs_of d) = {}" if "new_store d" for d
    using that by (auto simp: new_store_def new_database_valid new_database_abs)
  then show ?thesis
    using initialize_outcome [OF assms] by (auto simp: disk_frame_def split: option.splits sum.splits)
qed

theorem creation_is_atomic_witness:
  "\<exists>s h'. initialize_new (py ''/a'') empty_host = (Inr s, h') \<and> store_valid (durable s)"
proof -
  obtain s h' where run: "initialize_new (py ''/a'') empty_host = (Inr s, h')"
    by (rule initialize_quiet [OF demo_hosts(1,2,3)])
  from creation_is_atomic [OF run demo_hosts(3)] run show ?thesis by (auto simp: demo_hosts)
qed

text \<open>
  C20: Opening never changes a store it does not accept, and at most switches the journal mode of one
  it does; it returns a handle only for a valid store, connected to just what is on disk.
\<close>

theorem opening_is_safe:
  assumes "open_existing path h = (r, h')" "p = os_abspath h (os_expanduser h path)"
  shows "(\<forall>q. q \<noteq> p \<longrightarrow> on_disk h' q = on_disk h q) \<and> (case on_disk h p of
      None \<Rightarrow> on_disk h' p = None \<and> r = Inl AuthorityStoreMissingError
    | Some d \<Rightarrow> (if store_valid d then \<exists>m. on_disk h' p = Some (d\<lparr>journal_mode := m\<rparr>) else on_disk h' p = Some d \<and> isl r)
        \<and> (\<forall>s. r = Inr s \<longrightarrow> on_disk h' p = Some (durable s) \<and> abs_of (durable s) = abs_of d \<and> idle s \<and> synchronous s = 2))"
  using open_outcome [OF assms] opened_idle [of path h] assms(1)
  by (cases "on_disk h p"; cases r) (auto simp: disk_frame_def with_journal_def [symmetric])

theorem opening_is_safe_witness:
  "\<exists>e h'. open_existing (py ''/a'') oldest_host = (Inl e, h') \<and> on_disk h' (py ''/a'') = Some oldest_store"
proof -
  obtain r h' where run: "open_existing (py ''/a'') oldest_host = (r, h')" by (cases "open_existing (py ''/a'') oldest_host")
  have "\<not> store_valid oldest_store" by (simp add: store_valid_parts oldest_store_def schema_versions)
  with opening_is_safe [OF run demo_hosts(6)] run show ?thesis by (cases r) (auto simp: demo_hosts simp del: py_Cons)
qed

text \<open>
  C21: Each migration is atomic: it either leaves the store as it was, up to the journal mode, and
  raises, or it adds just its table and the new version number to a store that is valid for the
  old version. It returns only in the second case; only the error about an uncertain outcome of
  \<open>COMMIT\<close> and a raw database error leave open which case it was.
\<close>

theorem migrations_are_atomic:
  assumes "(migrate, source_valid, version, table, name) \<in> {
      (migrate_v1_to_v2, v1_valid, 2, create_execution_keys_sql, ''v1-to-v2''),
      (migrate_v2_to_v3, v2_valid, 3, create_execution_command_bindings_sql, ''v2-to-v3''),
      (migrate_v3_to_v4, v3_valid, 4, create_execution_admissions_sql, ''v3-to-v4''),
      (migrate_v4_to_v5, v4_valid, 5, create_execution_launches_sql, ''v4-to-v5'')}"
    "migrate path h = (r, h')" "p = os_abspath h (os_expanduser h path)"
  shows "(\<forall>q. q \<noteq> p \<longrightarrow> on_disk h' q = on_disk h q) \<and> (case on_disk h p of
      None \<Rightarrow> on_disk h' p = None \<and> r = Inl AuthorityStoreMissingError
    | Some d \<Rightarrow> \<exists>m. source_valid d \<and> on_disk h' p = Some ((with_table table d)\<lparr>user_version := version, journal_mode := m\<rparr>)
          \<and> (r = Inr () \<or> r = Inl DatabaseError \<or> r = Inl (AuthorityStoreError (name @
               '' migration COMMIT outcome is uncertain; inspect the durable store explicitly'')))
        \<or> on_disk h' p = Some (d\<lparr>journal_mode := m\<rparr>) \<and> isl r)"
proof -
  note parts = migrations upgraded_def disk_frame_def with_journal_def v1_to_v2.uncertain_migration_def v2_to_v3.uncertain_migration_def
    v3_to_v4.uncertain_migration_def v4_to_v5.uncertain_migration_def schema_versions
  from assms(1) consider
    (1) "migrate = v1_to_v2.run_migration" "source_valid = v1_valid" "version = 2" "table = create_execution_keys_sql" "name = ''v1-to-v2''"
    | (2) "migrate = v2_to_v3.run_migration" "source_valid = v2_valid" "version = 3" "table = create_execution_command_bindings_sql" "name = ''v2-to-v3''"
    | (3) "migrate = v3_to_v4.run_migration" "source_valid = v3_valid" "version = 4" "table = create_execution_admissions_sql" "name = ''v3-to-v4''"
    | (4) "migrate = v4_to_v5.run_migration" "source_valid = v4_valid" "version = 5" "table = create_execution_launches_sql" "name = ''v4-to-v5''"
    by (elim insertE emptyE) (simp_all add: migrations)
  then show ?thesis
  proof cases
    case 1 show ?thesis using v1_to_v2.migration_outcome [OF assms(2,3) [unfolded 1]] by (auto simp: parts 1 split: option.splits)
  next
    case 2 show ?thesis using v2_to_v3.migration_outcome [OF assms(2,3) [unfolded 2]] by (auto simp: parts 2 split: option.splits)
  next
    case 3 show ?thesis using v3_to_v4.migration_outcome [OF assms(2,3) [unfolded 3]] by (auto simp: parts 3 split: option.splits)
  next
    case 4 show ?thesis using v4_to_v5.migration_outcome [OF assms(2,3) [unfolded 4]] by (auto simp: parts 4 split: option.splits)
  qed
qed

theorem migrations_are_atomic_witness:
  "\<exists>h' d. migrate_v1_to_v2 (py ''/a'') oldest_host = (Inr (), h') \<and> on_disk h' (py ''/a'') = Some d \<and> user_version d = 2
     \<and> t_gens d = t_gens oldest_store"
proof -
  obtain h' where run: "migrate_v1_to_v2 (py ''/a'') oldest_host = (Inr (), h')"
    unfolding migrations using v1_to_v2.migration_quiet [OF demo_hosts(4,5) oldest_valid demo_hosts(6)] by blast
  have "(migrate_v1_to_v2, v1_valid, 2, create_execution_keys_sql, ''v1-to-v2'') \<in> {
      (migrate_v1_to_v2, v1_valid, 2, create_execution_keys_sql, ''v1-to-v2''),
      (migrate_v2_to_v3, v2_valid, 3, create_execution_command_bindings_sql, ''v2-to-v3''),
      (migrate_v3_to_v4, v3_valid, 4, create_execution_admissions_sql, ''v3-to-v4''),
      (migrate_v4_to_v5, v4_valid, 5, create_execution_launches_sql, ''v4-to-v5'')}" by simp
  from migrations_are_atomic [OF this run demo_hosts(6)] run show ?thesis
    by (auto simp: demo_hosts with_table_def ddl_defs simp del: py_Cons)
qed

text \<open>
  Without failures, the four migrations in order followed by opening turn any valid store of the
  first version into a valid current store with the same generations and nothing else.
\<close>

theorem oldest_stores_can_be_upgraded:
  assumes "quiet_host h" "on_disk h p = Some d" "v1_valid d" "p = os_abspath h (os_expanduser h path)"
  shows "\<exists>s h'. sq (migrate_v1_to_v2 path) (sq (migrate_v2_to_v3 path) (sq (migrate_v3_to_v4 path)
       (sq (migrate_v4_to_v5 path) (open_existing path)))) h = (Inr s, h')
     \<and> store_valid (durable s) \<and> idle s \<and> t_gens (durable s) = t_gens d
     \<and> registered (abs_of (durable s)) = {} \<and> launches (abs_of (durable s)) = Map.empty"
  by (rule upgrade_quiet [OF assms]) (unfold upgrade_store_def, blast)

theorem oldest_stores_can_be_upgraded_witness:
  "\<exists>s h'. sq (migrate_v1_to_v2 (py ''/a'')) (sq (migrate_v2_to_v3 (py ''/a'')) (sq (migrate_v3_to_v4 (py ''/a''))
       (sq (migrate_v4_to_v5 (py ''/a'')) (open_existing (py ''/a''))))) oldest_host = (Inr s, h')
     \<and> t_gens (durable s) = [\<lparr>gr_scope = SText (py ''s''), gr_generation = SInteger 7\<rparr>]"
proof -
  have "t_gens oldest_store = [\<lparr>gr_scope = SText (py ''s''), gr_generation = SInteger 7\<rparr>]"
    by (simp add: oldest_store_def)
  with oldest_stores_can_be_upgraded [OF demo_hosts(4,5) oldest_valid demo_hosts(6)] show ?thesis by metis
qed

section \<open>Execution identity\<close>

text \<open>
  C22: The execution key determines the repository, subject, revision and causal root it was derived
  from: different identities never share a key.
\<close>

theorem execution_keys_are_unique:
  assumes "derive_execution_key a b c d = Inr k" "derive_execution_key a' b' c' d' = Inr k"
  shows "a = a' \<and> b = b' \<and> c = c' \<and> d = d'"
  by (rule derive_inject [OF assms])

theorem execution_keys_are_unique_witness:
  "\<exists>k. derive_execution_key (PyStr [97]) (PyStr [98]) (PyStr [99]) (PyStr [100]) = Inr k
     \<and> derive_execution_key (PyStr [98]) (PyStr [97]) (PyStr [99]) (PyStr [100]) \<noteq> Inr k"
proof -
  have "identity_component (PyStr [c])" if "c < 128" for c
    using that by (auto simp: identity_component_def encodable_def is_scalar_def utf8_encode_utf8 utf8_def
        utf8_char_def frameable_def max_framed_def)
  then obtain k where k: "derive_execution_key (PyStr [97]) (PyStr [98]) (PyStr [99]) (PyStr [100]) = Inr k"
    using derive_accepts [of "PyStr [97]" "PyStr [98]" "PyStr [99]" "PyStr [100]"] by fastforce
  with execution_keys_are_unique [OF k, of "PyStr [98]" "PyStr [97]" "PyStr [99]" "PyStr [100]"]
  show ?thesis by auto
qed

text \<open>
  A key is derived just if all four components are non-empty exact strings that UTF-8 can
  encode; it is then ASCII, so the store can use it, and otherwise the only error is
  \<open>InvalidExecutionIdentityError\<close>.
\<close>

theorem derivation_is_total:
  "case derive_execution_key a b c d of
     Inr k \<Rightarrow> list_all identity_component [a, b, c, d] \<and> list_all (\<lambda>x. x < 128) k \<and> k \<noteq> []
   | Inl e \<Rightarrow> \<not> list_all identity_component [a, b, c, d] \<and> e = InvalidExecutionIdentityError"
  using derive_accepts [of a b c d] derive_error [of a b c d] derived_key_ascii [of a b c d]
    derived_key_usable [of a b c d]
  by (cases "derive_execution_key a b c d") auto

section \<open>Local commands\<close>

text \<open>
  The constructor accepts just the well-formed commands, keeps the values it was given, and has
  one error.
\<close>

theorem constructor_accepts:
  "(\<forall>spec. make_command_spec isabs e a w env t = Inr spec \<longleftrightarrow>
      spec_ok isabs spec \<and> e = PyStr (executable spec) \<and> a = PyTuple (map PyStr (argv spec))
      \<and> w = PyStr (working_directory spec) \<and> t = PyInt (timeout_seconds spec)
      \<and> env = PyTuple (map (\<lambda>(n, v). PyTuple [PyStr n, PyStr v]) (environment spec)))
   \<and> (\<forall>err. make_command_spec isabs e a w env t = Inl err \<longrightarrow> err = InvalidLocalCommandSpecError)"
proof -
  have "item_value = (\<lambda>(n, v). PyTuple [PyStr n, PyStr v])"
    by (simp add: fun_eq_iff item_value_def split_beta)
  then show ?thesis
    using make_command_spec_Inl [of isabs e a w env t] by (auto simp: make_command_spec_Inr)
qed

theorem constructor_accepts_witness:
  "make_command_spec (\<lambda>p. True) (PyStr (py ''/b'')) (PyTuple [PyStr (py ''b'')]) (PyStr (py ''/'')) (PyTuple []) (PyInt 1) =
     Inr demo_command"
  using constructor_accepts [of "\<lambda>p. True" "PyStr (py ''/b'')" "PyTuple [PyStr (py ''b'')]" "PyStr (py ''/'')" "PyTuple []" "PyInt 1"]
    demo_command_ok(1) by (simp add: demo_command_def del: py_Cons)

text \<open>
  C23: The canonical encoding of a command determines the command, so commands with the same hash
  are the same or have encodings on which SHA-256 collides.
\<close>

theorem command_encoding_is_injective:
  assumes "canonical_command_spec_bytes a = Inr p" "canonical_command_spec_bytes b = Inr p"
  shows "a = b"
  using assms canon_inject by (auto simp: canonical_Inr)

theorem command_encoding_is_injective_witness:
  "\<exists>p. canonical_command_spec_bytes demo_command = Inr p
     \<and> canonical_command_spec_bytes (demo_command\<lparr>timeout_seconds := 2\<rparr>) \<noteq> Inr p"
proof -
  obtain p where p: "canonical_command_spec_bytes demo_command = Inr p"
    using demo_command_ok(2) by (auto simp: canonical_Inr)
  with command_encoding_is_injective [OF p, of "demo_command\<lparr>timeout_seconds := 2\<rparr>"] show ?thesis
    by (auto simp: demo_command_def)
qed

text \<open>
  A snapshot of a command does not depend on the order of the environment mapping it is given.
\<close>

theorem snapshot_ignores_mapping_order:
  assumes "snapshot isabs e a w (PyDict items) t = Inr spec" "mset items = mset items'"
  shows "snapshot isabs e a w (PyDict items') t = Inr spec"
  by (rule snapshot_permute [OF assms])

theorem snapshot_ignores_mapping_order_witness:
  "snapshot (\<lambda>p. True) (PyStr [65]) (PyList [PyStr [65]]) (PyStr [65])
     (PyDict [(PyStr [66], PyStr [50]), (PyStr [65], PyStr [49])]) (PyInt 1) =
   Inr \<lparr>executable = [65], argv = [[65]], working_directory = [65],
     environment = [([65], [49]), ([66], [50])], timeout_seconds = 1\<rparr>"
proof (rule snapshot_ignores_mapping_order)
  have enc: "encodable [c]" "utf8 [c] = [of_nat c]" if "c < 128" for c
    using that by (auto simp: encodable_def is_scalar_def utf8_def utf8_char_def)
  show "snapshot (\<lambda>p. True) (PyStr [65]) (PyList [PyStr [65]]) (PyStr [65])
     (PyDict [(PyStr [65], PyStr [49]), (PyStr [66], PyStr [50])]) (PyInt 1) =
   Inr \<lparr>executable = [65], argv = [[65]], working_directory = [65],
     environment = [([65], [49]), ([66], [50])], timeout_seconds = 1\<rparr>"
    unfolding snapshot_Inr make_command_spec_Inr
    by (rule exI [of _ "PyTuple [PyStr [65]]"], rule exI [of _ "[([65], [49]), ([66], [50])]"])
      (simp add: is_scalar_def freeze_argv_def item_pair_def item_value_def spec_ok_def item_ok_def text_ok_def enc
        frameable_def max_framed_def sorted_environment_def keyed_def)
qed simp

section \<open>Buildbot's locks\<close>

text \<open>
  C24: Whatever anyone does with a lock, failing operations included, an exclusive owner is alone, the owners
  together have no more counting units than the lock ever had, no requester waits twice, and no Deferred is
  fired twice or fired while its requester still waits for it.
\<close>

theorem lock_histories_are_sound:
  assumes "s = after_history qs (first_scene (make_lock name n))" "l = the_lock s" "0 \<le> m" "n \<le> m" "\<forall>k. Set_max k \<in> set qs \<longrightarrow> k \<le> m"
  shows "(\<forall>who a. (who, a) \<in> set (owners l) \<and> acc_mode a = Exclusive \<longrightarrow> owners l = [(who, a)])
     \<and> (\<Sum>x\<leftarrow>owners l. if acc_mode (snd x) = Counting then units (snd x) else 0) \<le> m
     \<and> distinct (map fst (waiting l)) \<and> distinct (deferreds (waiting l) @ fired (effects s))"
proof -
  have "scene_ok s" unfolding assms(1) by (rule reached_ok [OF history_reached [OF reached.fresh]])
  moreover have "capped m l"
    unfolding assms(1,2) by (rule history_capped [OF reached_ok [OF reached.fresh] _ assms(5)])
      (use assms(3,4) in \<open>simp add: capped_def first_scene_def make_lock_def\<close>)
  ultimately show ?thesis
    using exclusive_alone [of l] assms(2) by (auto simp: scene_ok_def lock_ok_def deferreds_ok_def owned_def capped_def)
qed

theorem lock_histories_are_sound_witness:
  "distinct (map fst (waiting (the_lock sleeping_scene))) \<and> waiting (the_lock sleeping_scene) \<noteq> []
     \<and> (\<Sum>x\<leftarrow>owners (the_lock sleeping_scene). if acc_mode (snd x) = Counting then units (snd x) else 0) \<le> 2"
proof -
  have "\<forall>k. Set_max k \<in> set sleeping_history \<longrightarrow> k \<le> 2" by (simp add: sleeping_history_def)
  from lock_histories_are_sound [OF sleeping_scene_def refl _ _ this] show ?thesis by (simp add: sleeping_scene_simps(1))
qed

text \<open>
  C25: Waking is exact: \<open>_tryWakeUp\<close> fires the Deferreds of just those waiters that have their turn, where an
  exclusive waiter has it if no one owns the lock and no one is ahead, and a counting one if all the owners and
  waiters ahead are counting and leave at least one unit of the lock. So every waiter is awake for whom, beside the
  owners and everyone ahead, there is room, and every one that finds the lock available, if those ahead ask for one
  unit each; one that asks for more units than are left may be woken in vain. The queue keeps its order, and a
  second call does nothing.
\<close>

theorem waking_is_exact:
  assumes "s = after_history qs (first_scene (make_lock name n))" "list_all proper_op qs"
    and "tryWakeUp s = (r, t)" "ws = waiting (the_lock s)"
  shows "r = Inr () \<and> map fst (waiting (the_lock t)) = map fst ws
     \<and> (\<forall>i < length ws. snd (waiting (the_lock t) ! i) =
         (fst (snd (ws ! i)), if has_turn (the_lock s) i then None else snd (snd (ws ! i))))
     \<and> (\<forall>i < length ws. acc_mode (fst (snd (ws ! i))) = Counting \<and> (\<forall>a\<in>set (before (the_lock s) i). acc_mode a = Counting)
         \<and> (\<Sum>a\<leftarrow>before (the_lock s) i. units a) + units (fst (snd (ws ! i))) \<le> maxCount (the_lock s)
         \<longrightarrow> snd (snd (waiting (the_lock t) ! i)) = None)
     \<and> (\<forall>i < length ws. isAvailable (fst (ws ! i)) (fst (snd (ws ! i))) (the_lock s)
         \<and> (\<forall>w\<in>set (take i ws). units (fst (snd w)) = 1) \<longrightarrow> snd (snd (waiting (the_lock t) ! i)) = None)
     \<and> mset (deferreds ws) + mset (fired (effects s)) = mset (deferreds (waiting (the_lock t))) + mset (fired (effects t))
     \<and> tryWakeUp t = (Inr (), t)"
proof -
  have l: "lock_ok (the_lock s)" "asks_ok (the_lock s)"
    using history_asks [OF _ _ assms(2), of "first_scene (make_lock name n)"] fresh_asks assms(1) by (simp_all add: scene_ok_def)
  from assms(3) have t: "r = Inr ()" "t = snd (tryWakeUp s)" by (simp_all add: wake_run [OF refl])
  have turns: "\<forall>i < length ws. snd (waiting (the_lock t) ! i) =
      (fst (snd (ws ! i)), if has_turn (the_lock s) i then None else snd (snd (ws ! i)))"
    unfolding t(2) assms(4) using woken_waiter [OF l] by simp
  have room: "has_turn (the_lock s) i" if "i < length ws" "acc_mode (fst (snd (ws ! i))) = Counting"
    "\<forall>a\<in>set (before (the_lock s) i). acc_mode a = Counting"
    "(\<Sum>a\<leftarrow>before (the_lock s) i. units a) + units (fst (snd (ws ! i))) \<le> maxCount (the_lock s)" for i
    using that room_turn [OF l(2)] unfolding assms(4) by blast
  have available: "has_turn (the_lock s) i" if "i < length ws" "isAvailable (fst (ws ! i)) (fst (snd (ws ! i))) (the_lock s)"
    "\<forall>w\<in>set (take i ws). units (fst (snd w)) = 1" for i
    using that available_turn [OF l, of i "fst (ws ! i)" "fst (snd (ws ! i))" "snd (snd (ws ! i))"] unfolding assms(4) by simp
  show ?thesis
    using turns room available wake_conserves [of s] wake_twice [of s] wake_order [of s] t unfolding assms(4) by simp
qed

theorem waking_is_exact_witness:
  "\<exists>t. tryWakeUp sleeping_scene = (Inr (), t) \<and> snd (snd (waiting (the_lock t) ! 0)) = None
     \<and> snd (snd (waiting (the_lock sleeping_scene) ! 0)) = Some 1"
proof -
  obtain r t where run: "tryWakeUp sleeping_scene = (r, t)" by (cases "tryWakeUp sleeping_scene")
  have "list_all proper_op sleeping_history"
    by (simp add: sleeping_history_def one_unit_def whole_lock_def access_ok_def)
  moreover have "has_turn (the_lock sleeping_scene) 0" by code_simp
  ultimately show ?thesis using waking_is_exact [OF sleeping_scene_def _ run refl] run by (simp add: sleeping_scene_simps)
qed

text \<open>
  C26: While no one owns a lock its first waiter has been woken, the lock is available to it, and its claim makes
  it an owner; if no one ever waited for more than the lock has.
\<close>

theorem free_locks_serve_the_first:
  assumes "0 < b" "b \<le> n" "list_all (modest b) qs" "s = after_history qs (first_scene (make_lock name n))"
    "owners (the_lock s) = []" "waiting (the_lock s) = (who, a, d) # ws" "who \<noteq> no_one"
  shows "d = None \<and> isAvailable who a (the_lock s)
     \<and> owners (the_lock (snd (claim_lock who a s))) = (if units a = 0 then [] else [(who, a)])"
proof -
  have "reached_within b s"
    unfolding assms(4) by (rule history_within [OF reached_within.fresh [OF assms(2)] assms(3)])
  from free_lock_serves [OF assms(1) this assms(5,6)] assms(7) show ?thesis by simp
qed

theorem free_locks_serve_the_first_witness:
  "isAvailable 3 one_unit (the_lock (after_history (sleeping_history @ [Release 1 one_unit]) (first_scene (make_lock [] 2))))"
proof -
  let ?qs = "sleeping_history @ [Release 1 one_unit]"
  have s: "owners (the_lock (after_history ?qs (first_scene (make_lock [] 2)))) = []"
    "waiting (the_lock (after_history ?qs (first_scene (make_lock [] 2)))) = [(3, one_unit, None)]" "list_all (modest 2) ?qs"
    by code_simp+
  from free_locks_serve_the_first [OF _ _ s(3) refl s(1,2)] show ?thesis by (simp add: no_one_def)
qed

text \<open>
  C27: A build that is not stopped gets all its locks or none: if all are available to it, it owns them all;
  otherwise it waits for one of them that is not, and no lock changes its owners.
\<close>

theorem builds_acquire_all_or_nothing:
  assumes "world_ok w" "requests_ok w (build_locks b)" "distinct (map fst (build_locks b))" "build_id b \<noteq> no_one"
    "not_waiting w (build_id b)" "\<not> build_stopped b" "build_locks b \<noteq> []" "build_acquireLocks (w, b) = (r, w', b')"
  shows "(r = Inr Acquired \<and> (\<forall>p\<in>set (build_locks b). held_by w' (fst p) (build_id b) (snd p)))
     \<or> (\<exists>d ref a l. r = Inr (Waits d) \<and> acquiringLock b' = Some (ref, Access a, d) \<and> (ref, Access a) \<in> set (build_locks b)
          \<and> \<not> free_for w ref (build_id b) (Access a) \<and> lock_at w' ref = Some l \<and> (build_id b, a, Some d) \<in> set (waiting l)
          \<and> (\<forall>ref'. owners_at w' ref' = owners_at w ref'))"
  by (rule build_acquires [OF assms(1-7)]) (use assms(8) in auto)

theorem builds_acquire_all_or_nothing_witness:
  "\<exists>w'. fst (build_acquireLocks (two_locks, demo_build)) = Inr Acquired \<and> held_by w' (fst lock_a) 1 (Access (whole (snd lock_a)))"
proof -
  obtain r w' b' where run: "build_acquireLocks (two_locks, demo_build) = (r, w', b')"
    by (cases "build_acquireLocks (two_locks, demo_build)") auto
  have r: "r = Inr Acquired" using run demo_build_runs by simp
  from builds_acquire_all_or_nothing [OF demo_build_ok run] r run show ?thesis by (auto simp: demo_build_def)
qed

text \<open>
  C28: A build that was woken for one lock, then waits for another and is stopped, stops waiting for the second
  only: it stays the first, exclusive waiter of the first lock, and whatever the others do, no one ever owns that
  lock again.
\<close>

theorem stopped_builds_block_locks:
  "\<exists>w b l. stopped_build = (Inr (), w, b) \<and> build_stopped b \<and> lock_at w (fst lock_a) = Some l \<and> owners l = []
     \<and> (\<forall>qs. list_all (\<lambda>q. actor q \<noteq> Some (build_id b)) qs \<longrightarrow> owners (the_lock (after_history qs (scene_at w l))) = [])"
proof -
  obtain w b l where run: "stopped_build = (Inr (), w, b)" "build_stopped b" "build_id b = 1" "lock_at w (fst lock_a) = Some l"
      "owners l = []" "claimed_excl l = 0" "claimed_counting l = 0" "waiting l = [(1, whole (snd lock_a), None)]"
    by (rule stopped_build_ends)
  have "scene_ok (scene_at w l)" "blocked_by 1 l"
    using run(5-8) by (simp_all add: scene_ok_def lock_ok_def deferreds_ok_def scene_at_def blocked_by_def whole_def)
  then have "owners (the_lock (after_history qs (scene_at w l))) = []" if "list_all (\<lambda>q. actor q \<noteq> Some 1) qs" for qs
    using blocked_forever [of "scene_at w l" 1 qs] that run(5) by simp
  with run(1-5) show ?thesis by (intro exI conjI) auto
qed

theorem stopped_builds_block_locks_witness:
  "\<exists>w l. lock_at w (fst lock_a) = Some l \<and> owners (the_lock (after_history [Wait 7 (whole (snd lock_a)), Claim 7 (whole (snd lock_a))] (scene_at w l))) = []"
proof -
  obtain w' b' where run: "stopped_build = (Inr (), w', b')" "build_id b' = 1" by (rule stopped_build_ends)
  obtain w b l where l: "stopped_build = (Inr (), w, b)" "lock_at w (fst lock_a) = Some l"
      "\<forall>qs. list_all (\<lambda>q. actor q \<noteq> Some (build_id b)) qs \<longrightarrow> owners (the_lock (after_history qs (scene_at w l))) = []"
    using stopped_builds_block_locks by metis
  have "(Inr (), w', b') = (Inr () :: exn + unit, w, b)" by (rule trans [OF run(1) [symmetric] l(1)])
  then have "build_id b = 1" using run(2) by simp
  then have "list_all (\<lambda>q. actor q \<noteq> Some (build_id b)) [Wait 7 (whole (snd lock_a)), Claim 7 (whole (snd lock_a))]" by simp
  with l(2,3) show ?thesis by metis
qed

section \<open>Distributing build requests\<close>


text \<open>
  C30: Claims are exclusive: if no one takes a claim this master has just made, every build it starts is for a request
  whose claim is its own at that moment; and if the others keep their claims in the meantime, this master takes none of
  them.
\<close>

theorem builds_start_on_own_claims:
  assumes "maybeStartBuildsOnBuilder n out s = (x, t)"
    and "\<forall>s h b. happened s = h @ [Claimed [b] True] \<and> claimed_by (at_db (desk s)) b = Some (masterid out) \<longrightarrow>
       claimed_by (at_db (meanwhile out s)) b = Some (masterid out)"
    and "\<forall>s b m. m \<noteq> masterid out \<and> claimed_by (at_db (desk s)) b = Some m \<longrightarrow> claimed_by (at_db (meanwhile out s)) b = Some m"
  shows "(\<exists>es. happened t = happened s @ es \<and>
      (\<forall>w bs holders. Started w bs holders \<in> set es \<longrightarrow> holders = map (\<lambda>_. Some (masterid out)) bs))
    \<and> (\<forall>b m. m \<noteq> masterid out \<and> claimed_by (at_db (desk s)) b = Some m \<longrightarrow> claimed_by (at_db (desk t)) b = Some m)"
proof -
  obtain s1 where new: "createBuildChooser out s = (Inr (), s1)" "desk s1 = desk s"
    by (simp add: createBuildChooser_def run_simps)
  with assms(1) have "start_builds n out s1 = (x, t)" by (simp add: maybeStartBuildsOnBuilder_def run_sq)
  note run = start_builds_distributes [OF this]
  have "respects_claims out" "\<And>s. spares_others (masterid out) (desk s) (meanwhile out s)"
    using assms(2,3) by (auto simp: respects_claims_def spares_others_def)
  from builds_start_held [OF run this(1)] others_keep_claims [OF run this(2)] show ?thesis
    using in_progress_silent(3) [OF new(1)] new(2) by (auto simp: starts_held_def spares_others_def)
qed

theorem builds_start_on_own_claims_witness:
  "\<exists>t. fst (maybeStartBuildsOnBuilder 4 (demo_out (\<lambda>_ _. True)) (demo_distributor demo_desk)) = Inr True
     \<and> maybeStartBuildsOnBuilder 4 (demo_out (\<lambda>_ _. True)) (demo_distributor demo_desk) = (Inr True, t)
     \<and> claimed_by (at_db (desk t)) 4 = Some 2"
proof -
  obtain x t where run: "maybeStartBuildsOnBuilder 4 (demo_out (\<lambda>_ _. True)) (demo_distributor demo_desk) = (x, t)" by force
  have "x = Inr True" using demo_runs run by auto
  moreover have "claimed_by (at_db (desk t)) 4 = Some 2"
    using builds_start_on_own_claims [OF run] by (simp add: demo_out_def demo_distributor_def demo_desk_def claimed_by_def)
  ultimately show ?thesis using run by simp
qed

text \<open>
  C31: In good conditions a new choice settles on the first request, by priority and then by age, for which some
  available worker suits, on a worker that suits; it gives up only if there is no such request.
\<close>

theorem best_request_is_chosen:
  assumes "agreeable out ws suits" "bc s = new_chooser ws" "distinct (map br_id (requests (at_db (meanwhile out s))))"
    and "popNextBuild out s = (x, t)"
  shows "case filter (\<lambda>b. \<exists>w\<in>set ws. suits w (br_id b)) (by_priority (waiting_requests out (at_db (meanwhile out s)))) of
      [] \<Rightarrow> x = Inr None
    | b # _ \<Rightarrow> \<exists>w r. x = Inr (Some (w, r)) \<and> fst r = br_id b \<and> w \<in> set ws \<and> suits w (br_id b)"
  using fresh_choice [OF assms] .

theorem best_request_is_chosen_witness:
  "\<exists>w r t. popNextBuild (demo_out (\<lambda>w b. b \<noteq> 2 \<and> w = 12)) (demo_distributor demo_desk\<lparr>bc := new_chooser [11, 12]\<rparr>) = (Inr (Some (w, r)), t)
     \<and> fst r = 3 \<and> w = 12"
proof -
  let ?fits = "\<lambda>w b. b \<noteq> (2::int) \<and> w = (12::nat)" and ?s = "demo_distributor demo_desk\<lparr>bc := new_chooser [11, 12]\<rparr>"
  obtain x t where run: "popNextBuild (demo_out ?fits) ?s = (x, t)" by force
  have away: "at_db (meanwhile (demo_out ?fits) ?s) = at_db demo_desk" by (simp add: demo_out_def demo_distributor_def)
  have "filter (\<lambda>b. \<exists>w\<in>set [11, 12]. ?fits w (br_id b)) (by_priority (waiting_requests (demo_out ?fits) (at_db demo_desk)))
      = [demo_br 3 5, demo_br 1 0]"
    unfolding demo_waiting by (simp add: by_priority_def demo_br_def)
  moreover have "distinct (map br_id (requests (at_db demo_desk)))" by (simp add: demo_desk_def demo_br_def)
  ultimately show ?thesis
    using best_request_is_chosen [OF demo_agreeable _ _ run] run unfolding away by (auto simp: demo_distributor_def demo_br_def)
qed



section \<open>Buildbot's caches, results and lines\<close>

text \<open>
  C33: As long as no key is put or asked for that was evicted and is known to the weak references alone, the cache
  with its queue, reference counts and compaction behaves as an ideal one, which keeps its keys by recency and
  drops the least recently used ones whenever it has more than its bound: every operation returns what the ideal
  one returns and never raises, and after every operation the cache has at most \<open>max_size\<close> keys.
\<close>

theorem cache_refines_ideal:
  assumes "0 \<le> n" "list_all sensible qs" "no_revival miss_fn qs (ideal_of (new_cache n))"
    and "s = after_ops miss_fn qs (new_cache n)" "i = ideal_ops miss_fn qs (ideal_of (new_cache n))"
    and "sensible q" "\<not> revives q i"
  shows "\<exists>t. lru_step miss_fn q s = (Inr (fst (ideal_step miss_fn q i)), t) \<and> inv_cache t
     \<and> ideal_of t = snd (ideal_step miss_fn q i) \<and> int (length (cache t)) \<le> max_size t"
proof -
  have s: "lru_ok s" "bounded (ideal_of s)" "ideal_of s = i"
    using after_ops_ok [OF new_cache_ok [OF assms(1)] new_cache_bounded [OF assms(1)] assms(2,3)]
    unfolding assms(4,5) by blast+
  from lru_refines [OF s(1) assms(6) s(2), of miss_fn] assms(7) s(3) obtain t
    where t: "lru_step miss_fn q s = (Inr (fst (ideal_step miss_fn q i)), t)" "lru_ok t" "ideal_of t = snd (ideal_step miss_fn q i)"
    by auto
  moreover from bounded_step [OF s(2) assms(6)] have "bounded (ideal_of t)" by (simp add: t(3) s(3))
  ultimately show ?thesis using ideal_bounded [OF t(2)] by (auto simp: lru_ok_def)
qed

theorem cache_refines_ideal_witness:
  "\<exists>t. lru_step (\<lambda>k. Some (k + 1)) (Get 7) (after_ops (\<lambda>k. Some (k + 1)) [Put 1 (5 :: nat), Get 2, Resize 1, Forget 1] (new_cache 2))
      = (Inr (Some (8 :: nat)), t) \<and> length (cache t) \<le> 1"
proof -
  let ?f = "\<lambda>k :: nat. Some (k + 1)" and ?qs = "[Put 1 (5 :: nat), Get 2, Resize 1, Forget 1]"
  define i where "i = ideal_ops ?f ?qs (ideal_of (new_cache 2))"
  have "no_revival ?f ?qs (ideal_of (new_cache 2))" by code_simp
  moreover have "\<not> revives (Get 7) i" "fst (ideal_step ?f (Get 7) i) = Some 8" "bound (snd (ideal_step ?f (Get 7) i)) = 1"
    unfolding i_def by code_simp+
  ultimately show ?thesis
    using cache_refines_ideal [OF _ _ _ refl i_def, of "Get 7"]
    by (auto simp: sensible_def simp flip: ideal_of_fields(4))
qed

text \<open>
  C34: Purging a sound cache ends without an error, whatever the order of uses: it leaves at most \<open>max_size\<close>
  keys, which are the most recently used ones, with the values they had.
\<close>

theorem purging_ends:
  assumes "0 \<le> max_size s" "distinct (keys_cache s)" "inv_cache s"
  shows "\<exists>t. purge s = (Inr (), t) \<and> int (length (cache t)) \<le> max_size s \<and> inv_cache t
     \<and> recency t = newest (max_size s) (recency s) \<and> map_of (cache t) = (map_of (cache s)) |` set (recency t)"
proof -
  have "lru_ok s" using assms by (simp add: lru_ok_def)
  then obtain t where t: "purge s = (Inr (), t)" "purged s t" using purge_run by blast
  then have "lru_ok t" "recency t = newest (max_size s) (recency s)" by (simp_all add: purged_def)
  then have "int (length (cache t)) \<le> max_size s"
    using recency_length [of t] newest_props(3) [OF assms(1), of "recency s"] by simp
  with t show ?thesis by (auto simp: purged_def lru_ok_def)
qed

theorem purging_ends_witness:
  "\<exists>t. purge (snd (put_cache (1 :: nat) True (new_cache 1))) = (Inr (), t) \<and> length (cache t) \<le> 1"
proof -
  have s: "0 \<le> max_size (snd (put_cache (1 :: nat) True (new_cache 1)))" "distinct (keys_cache (snd (put_cache (1 :: nat) True (new_cache 1))))"
    "max_size (snd (put_cache (1 :: nat) True (new_cache 1))) = 1" by code_simp+
  have "inv_cache (snd (put_cache (1 :: nat) True (new_cache 1)))"
    using after_ops_ok [OF new_cache_ok [of 1] new_cache_bounded [of 1], of "[Put (1 :: nat) True]" "\<lambda>_. None"]
    by (simp add: ideal_of_def new_cache_def after_ops_def sensible_def run_sq run_simps lru_ok_def split_beta split: sum.splits)
  from purging_ends [OF s(1,2) this] s(3) show ?thesis by auto
qed

text \<open>
  The asynchronous cache starts at most one fetch for a key at a time: a \<open>get\<close> returns the value at hand, or
  a new Deferred and starts a fetch just if none is under way; and when a fetch answers, every Deferred that waits for
  it is fired with the answer, in order, and no other; none is ever fired twice.
\<close>

theorem fetches_are_shared:
  assumes "async_ok s"
  shows "(\<exists>t. (case at_hand k s of
         Some v \<Rightarrow> async_get k s = (Inr (Inl v), t) \<and> fetches t = fetches s
       | None \<Rightarrow> async_get k s = (Inr (Inr (fresh_deferred s)), t)
           \<and> fetches t = fetches s @ (if concurrent s k = None then [k] else [])) \<and> async_ok t)
     \<and> (\<forall>ds. concurrent s k = Some ds \<longrightarrow> (\<exists>t. handle_result k result s = (Inr (), t)
         \<and> answers t = answers s @ map (\<lambda>d. (d, Value result)) ds \<and> concurrent t = (concurrent s)(k := None)
         \<and> distinct (map fst (answers t)) \<and> async_ok t))"
proof -
  obtain t where t: "case at_hand k s of
       Some v \<Rightarrow> async_get k s = (Inr (Inl v), t) \<and> fetches t = fetches s \<and> concurrent t = concurrent s
     | None \<Rightarrow> async_get k s = (Inr (Inr (fresh_deferred s)), t) \<and> (case concurrent s k of
           Some ds \<Rightarrow> fetches t = fetches s \<and> concurrent t = (concurrent s)(k \<mapsto> ds @ [fresh_deferred s])
         | None \<Rightarrow> fetches t = fetches s @ [k] \<and> concurrent t = (concurrent s)(k \<mapsto> [fresh_deferred s]))" "async_ok t"
    using async_get_run [OF assms, of k] by blast
  have "\<exists>u. handle_result k result s = (Inr (), u) \<and> answers u = answers s @ map (\<lambda>d. (d, Value result)) ds
      \<and> concurrent u = (concurrent s)(k := None) \<and> distinct (map fst (answers u)) \<and> async_ok u"
    if "concurrent s k = Some ds" for ds
    using handle_result_run [OF assms that, of result] by (auto simp: async_ok_def)
  moreover have "case at_hand k s of Some v \<Rightarrow> async_get k s = (Inr (Inl v), t) \<and> fetches t = fetches s
       | None \<Rightarrow> async_get k s = (Inr (Inr (fresh_deferred s)), t) \<and> fetches t = fetches s @ (if concurrent s k = None then [k] else [])"
    using t(1) by (auto split: option.splits)
  ultimately show ?thesis using t(2) by blast
qed

theorem fetches_are_shared_witness:
  "\<exists>t. async_get 3 (new_async 2 :: (nat, bool) AsyncLRUCache) = (Inr (Inr 0), t) \<and> fetches t = [3]"
proof -
  have "async_ok (new_async 2 :: (nat, bool) AsyncLRUCache)"
    by (simp add: async_ok_def new_async_def new_cache_ok)
  from fetches_are_shared [OF this, of 3 None] show ?thesis
    by (auto simp: at_hand_def new_async_def new_cache_def)
qed

text \<open>
  The result of a build is the worst of the results its steps stand for, in the order SKIPPED, SUCCESS,
  WARNINGS, FAILURE, EXCEPTION, RETRY, CANCELLED; so it does not depend on the order of the steps.
\<close>

theorem overall_result_is_the_worst:
  assumes "valid_result r" "\<forall>x\<in>set outcomes. valid_result (Some (snd x))" "mset outcomes = mset outcomes'"
  shows "severity (after_steps outcomes r) = Max (insert (severity r) ((\<lambda>(obj, i). severity (Some (possible_overall_result obj i))) ` set outcomes))
     \<and> after_steps outcomes r = after_steps outcomes' r"
proof -
  have "set outcomes = set outcomes'" using mset_eq_setD [OF assms(3)] .
  with after_steps_severity [OF assms(1,2)] after_steps_severity [OF assms(1), of outcomes'] assms(2) severity_inject
  show ?thesis by simp
qed

theorem overall_result_is_the_worst_witness:
  "after_steps [(default_config, WARNINGS), (default_config, SKIPPED)] None = after_steps [(default_config, SKIPPED), (default_config, WARNINGS)] None"
  by (rule conjunct2 [OF overall_result_is_the_worst]) (simp_all add: valid_result_def result_codes)

text \<open>
  Everything the line finder gives out ends with a newline. As long as no line is longer than the limit
  and the text has no cursor controls, what it has given out after any chunks is just the complete lines of all
  the text, and what it holds back is the rest, however the text was cut.
\<close>

theorem lines_do_not_depend_on_chunks:
  assumes "append_text chunk f = (Some out, g)" "uncontrolled (concat chunks)"
    "\<forall>i < length chunks. length (after_newline (concat (take i chunks))) \<le> MAX_LINELENGTH"
  shows "out \<noteq> [] \<and> last out = 10 \<and> fst (feed chunks new_finder) = upto_newline (concat chunks)
     \<and> held_text (snd (feed chunks new_finder)) = after_newline (concat chunks)"
  using append_ends [OF assms(1)] feed_run [of new_finder chunks] assms(2,3)
  by (simp add: new_finder_def held_text_def short_lines_def)

theorem lines_do_not_depend_on_chunks_witness:
  "fst (feed [[97, 98], [99, 10, 100], [101, 10, 102]] new_finder) = [97, 98, 99, 10, 100, 101, 10]"
proof -
  have "append_text [97, 10] new_finder = (Some [97, 10], new_finder)" by code_simp
  moreover have "uncontrolled (concat [[97, 98], [99, 10, 100], [101, 10, 102]])"
    "upto_newline (concat [[97, 98], [99, 10, 100], [101, 10, 102]]) = [97, 98, 99, 10, 100, 101, 10]" by code_simp+
  moreover have "\<forall>i < length [[97 :: nat, 98], [99, 10, 100], [101, 10, 102]].
      length (after_newline (concat (take i [[97, 98], [99, 10, 100], [101, 10, 102]]))) \<le> MAX_LINELENGTH"
    by (auto simp: less_Suc_eq numeral_2_eq_2 numeral_3_eq_3 after_newline_def MAX_LINELENGTH_def)
  ultimately show ?thesis using lines_do_not_depend_on_chunks by metis
qed

section \<open>The message queue\<close>

text \<open>
  C35: Over any history of a master's message queue in which callbacks, while they are called, only stop persistent
  consumers, every consumer that still consumes has been called with just the messages produced since it was made that
  its filter matches, in order; for a persistent one, those sent since it stopped are queued instead and lost neither.
\<close>

theorem consumers_miss_nothing:
  assumes "\<forall>m c msg. \<forall>q\<in>set (react m c msg). q < length (consumers m) \<longrightarrow> persistent (consumers m ! q)"
    and "q \<in> set (qrefs (mq_history react ops))"
  shows "let m = mq_history react ops; consumer = consumers m ! q in
    map (\<lambda>(_, _, msg). msg) (filter (\<lambda>(p, _, _). p = q) (calls m)) @ missed consumer
      = filter (\<lambda>msg. matchTuple (fst msg) (key_filter consumer)) (drop (born consumer) (produced ops))
    \<and> (callback consumer \<noteq> AddToQueue \<longrightarrow> missed consumer = [])"
proof -
  have "careful react" using assms(1) unfolding careful_def .
  from histories_are_complete [OF this, of ops] assms(2) show ?thesis
    by (auto simp: complete_mq_def received_def called_with_def matched_def histories_sent sound_mq_def steady_ref_def Let_def
        case_prod_beta subset_iff)
qed

theorem consumers_miss_nothing_witness:
  "map (\<lambda>(_, _, msg). msg) (filter (\<lambda>(p, _, _). p = 0) (calls (mq_history pausing demo_mq_ops)))
     = [([[97]], PyNone), ([[98]], PyNone), ([[99]], PyNone)]"
proof -
  have "filter (\<lambda>msg. matchTuple (fst msg) [None]) (produced demo_mq_ops) = [([[97]], PyNone), ([[98]], PyNone), ([[99]], PyNone)]"
    by code_simp
  then show ?thesis using consumers_miss_nothing [OF pausing_careful, of 0 demo_mq_ops] by (simp add: demo_mq Let_def)
qed

section \<open>Debounced methods\<close>



text \<open>
  C37: The timer of a debounced method rings just when calls are waiting, the function is not running, and the wait
  has passed since the last of these calls, or since the first one if the method does not wait for a pause; then
  the function begins.
\<close>

theorem debounced_runs_wait:
  assumes "debounces w u t0 s"
  shows "possible (Rings runs) s = (\<not> busy (log s) \<and> batch (log s) \<noteq> []
        \<and> (if u then hd (batch (log s)) else last (batch (log s))) + w \<le> now s)
     \<and> (possible (Rings runs) s \<longrightarrow> (\<exists>t l. happen (Rings runs) s = (Inr (), t) \<and> log t = l @ Began (now s) # log s))"
  using ring_exactly [OF debounces_settled [OF assms]] ring_begins [OF debounces_settled [OF assms]] by blast

theorem debounced_runs_wait_witness:
  "\<not> possible (Rings None) (snd (happen Called (Debouncer 5 True 0)))"
proof -
  have "debounces 5 True 0 (snd (happen Called (Debouncer 5 True 0)))"
    by (rule debounces_step [OF debounces.new]) simp
  from debounced_runs_wait [OF this, of "None"] show ?thesis
    by (auto simp: call_debounced_def call_phase_def callLater_def to_phase_def run_combinators note_that_def
        Debouncer_def)
qed

text \<open>
  A debouncer comes to rest: once no one calls it any more, the passing of time, the ringing of its timer and
  the end of at most two runs leave the function not running and fire the Deferred of every stop; and every call
  that was accepted has been followed by a run, if no one who waited for such a Deferred stopped the debouncer from
  within its callback.
\<close>

theorem debouncers_come_to_rest:
  assumes "debounces w u t0 s"
  shows "\<exists>hs t. quiet_events hs \<and> follow hs s = Some t \<and> \<not> busy (log t)
     \<and> (\<forall>d < made t. Fired d \<in> set (log t)) \<and> (debounces_patiently w u t0 s \<longrightarrow> \<not> owed (log t))"
proof (cases "debounces_patiently w u t0 s")
  case True
  from settled_rests [OF patient_settled [OF this]] idle_is_done show ?thesis by blast
next
  case False
  with settled_rests [OF debounces_settled [OF assms]] idle_is_done show ?thesis by blast
qed

theorem debouncers_come_to_rest_witness:
  "\<exists>hs t. follow hs (snd (happen Called (Debouncer 5 False 0))) = Some t \<and> \<not> owed (log t)"
proof -
  define s where "s = snd (happen Called (Debouncer 5 False 0))"
  have "debounces_patiently 5 False 0 s"
    unfolding s_def by (rule debounces_patiently.more [OF debounces_patiently.new, where h = Called
      and r = "fst (happen Called (Debouncer 5 False 0))"]) simp_all
  with debouncers_come_to_rest [OF patient_history [OF this]] show ?thesis unfolding s_def by blast
qed

section \<open>The data API\<close>

text \<open>
  C38: A collection to which a result specification was applied is a page of the items, with the selected fields,
  that satisfy every filter as it is documented, stably sorted by the fields of the order with \<open>None\<close> first and each
  descending field reversed; the total counts all that satisfy the filters. Filters that ask whether a text contains one of
  several values are excepted.
\<close>

theorem collections_are_filtered_sorted_paged:
  assumes "apply_spec spec (Items ds) = Inr r" "0 \<le> or_zero (offset spec)" "0 \<le> or_zero (limit spec)"
    and "\<forall>d\<in>set ds. \<forall>f\<in>set (filters spec). no_text_parts f (selected (sel_fields spec) d)"
  shows "let found = filter (\<lambda>d. \<forall>f\<in>set (filters spec). satisfies f d) (map (selected (sel_fields spec)) ds);
      ordered = (if given (order spec) then sort_key (sort_places (the (order spec))) found else found)
    in r = Page \<lparr>rows = paged ordered (offset spec) (limit spec), row_offset = offset spec,
         row_total = Some (int (length found)), row_limit = limit spec\<rparr>"
  using apply_items [OF assms(1), unfolded py_slice_paged [OF assms(2,3)]]
  by (simp only: Let_def arranged_def left_over_kept [OF assms(1,4)] kept_def)

theorem collections_are_filtered_sorted_paged_witness:
  "length (filter (\<lambda>d. \<forall>f\<in>set (filters demo_page_spec). satisfies f d) (map (selected (sel_fields demo_page_spec)) demo_items)) = 3"
proof -
  have "0 \<le> or_zero (offset demo_page_spec)" "0 \<le> or_zero (limit demo_page_spec)"
    by (simp_all add: demo_page_spec_def new_ResultSpec_def or_zero_def)
  moreover have "\<forall>d\<in>set demo_items. \<forall>f\<in>set (filters demo_page_spec). no_text_parts f (selected (sel_fields demo_page_spec) d)"
    by code_simp
  ultimately show ?thesis using collections_are_filtered_sorted_paged [OF demo_applied] by (simp add: Let_def)
qed

text \<open>
  C39: The pages of a collection, put together, are the whole collection, each item on one page: walking through a
  collection page by page loses and repeats nothing, and every page gives the same total.
\<close>

theorem pages_make_up_the_collection:
  assumes "\<forall>i<m. apply_spec (spec\<lparr>offset := Some (int (i * n)), limit := Some (int n)\<rparr>) (Items ds) = Inr (Page (page i))"
    and "apply_spec (spec\<lparr>offset := None, limit := None\<rparr>) (Items ds) = Inr (Page entire)" "length (rows entire) \<le> m * n"
  shows "concat (map (\<lambda>i. rows (page i)) [0..<m]) = rows entire \<and> (\<forall>i<m. row_total (page i) = row_total entire)"
proof -
  have entire: "rows entire = arranged spec ds \<and> row_total entire = Some (int (length (left_over spec ds)))"
    using apply_items [OF assms(2)] by simp
  have "rows (page i) = take n (drop (i * n) (arranged spec ds)) \<and> row_total (page i) = row_total entire" if "i < m" for i
    using apply_items [OF assms(1) [rule_format, OF that]] py_slice_nonneg [of "int (i * n)" "int n" "arranged spec ds"] entire
    by (simp add: nat_mult_distrib)
  then have pages: "map (\<lambda>i. rows (page i)) [0..<m] = map (\<lambda>i. take n (drop (i * n) (arranged spec ds))) [0..<m]"
    and total: "\<forall>i<m. row_total (page i) = row_total entire" by simp_all
  show ?thesis unfolding pages take_drop_pages using assms(3) entire total by simp
qed

theorem pages_make_up_the_collection_witness:
  "concat (map (\<lambda>i. [demo_items ! i]) [0..<4]) = demo_items"
proof -
  let ?page = "\<lambda>i. \<lparr>rows = [demo_items ! i], row_offset = Some (int i), row_total = Some 4, row_limit = Some 1\<rparr>"
  let ?all = "\<lparr>rows = demo_items, row_offset = None, row_total = Some 4, row_limit = None\<rparr>"
  let ?spec = "new_ResultSpec None None None None None None"
  have "apply_spec (?spec\<lparr>offset := Some (int (0 * 1)), limit := Some (int 1)\<rparr>) (Items demo_items) = Inr (Page (?page 0))"
    "apply_spec (?spec\<lparr>offset := Some (int (1 * 1)), limit := Some (int 1)\<rparr>) (Items demo_items) = Inr (Page (?page 1))"
    "apply_spec (?spec\<lparr>offset := Some (int (2 * 1)), limit := Some (int 1)\<rparr>) (Items demo_items) = Inr (Page (?page 2))"
    "apply_spec (?spec\<lparr>offset := Some (int (3 * 1)), limit := Some (int 1)\<rparr>) (Items demo_items) = Inr (Page (?page 3))"
    by code_simp+
  then have "\<forall>i<4. apply_spec (?spec\<lparr>offset := Some (int (i * 1)), limit := Some (int 1)\<rparr>) (Items demo_items) = Inr (Page (?page i))"
    by (simp only: less_Suc_eq numeral_nat) auto
  moreover have "apply_spec (?spec\<lparr>offset := None, limit := None\<rparr>) (Items demo_items) = Inr (Page ?all)"
    by code_simp
  moreover have "length (rows ?all) \<le> 4 * 1" by (simp add: demo_items_def)
  ultimately show ?thesis
    using pages_make_up_the_collection [where m = 4 and spec = ?spec and n = 1 and ds = demo_items and page = ?page and entire = ?all]
    by simp
qed

text \<open>
  A specification whose filters and order all have columns without \<open>NULL\<close> among the filtered ones, executed by a
  database and then applied, gives a page of just the items that Python would keep, in an order Python would give,
  and, if it asks for a part, their true total.
\<close>

theorem database_pages_agree:
  assumes "serves run_query count_of table column" "pushable spec q dictFromRow column table" "\<not> given (sel_fields spec)"
    and "thd_execute run_query count_of dictFromRow q spec = (Inr d, spec')"
  shows "\<exists>p xs. apply_spec spec' d = Inr (Page p) \<and> rows p = paged xs (offset spec) (limit spec)
     \<and> mset xs = mset (filter (\<lambda>d. \<forall>f\<in>set (filters spec). satisfies f d) (map dictFromRow table))
     \<and> (given (order spec) \<longrightarrow> sorted (map (sort_places (the (order spec))) xs))
     \<and> (or_zero (offset spec) \<noteq> 0 \<or> or_zero (limit spec) \<noteq> 0 \<longrightarrow>
         row_total p = Some (int (length (filter (\<lambda>d. \<forall>f\<in>set (filters spec). satisfies f d) (map dictFromRow table)))))"
proof -
  have kept: "kept spec (map dictFromRow table) = filter (\<lambda>d. \<forall>f\<in>set (filters spec). satisfies f d) (map dictFromRow table)"
    using assms(3) by (simp add: kept_unselected)
  show ?thesis
    by (rule direct_pages [OF assms(2,3,1,4)]) (unfold kept page_of_def, blast)
qed

theorem database_pages_agree_witness:
  "\<exists>d spec' p. thd_execute (answer_query table_column table_rows) (\<lambda>q. int (length (matching table_column table_rows q)))
       table_item table_query table_spec = (Inr d, spec') \<and> apply_spec spec' d = Inr (Page p)"
proof -
  let ?run = "thd_execute (answer_query table_column table_rows) (\<lambda>q. int (length (matching table_column table_rows q)))
    table_item table_query table_spec"
  obtain d spec' where run: "?run = (Inr d, spec')"
    using thd_execute_pushes [OF table_pushable, of "answer_query table_column table_rows"] by blast
  from database_pages_agree [OF answer_query_serves table_pushable table_not_selected run] run show ?thesis by blast
qed

text \<open>
  C40: A request the REST interface accepts names only fields and operators that exist. Applied to a collection whose
  items have all fields of their type, it never fails for a name, an index or a page: the only errors left are
  values of types that cannot be compared.
\<close>

theorem accepted_requests_are_served:
  assumes "resultspec_from_jsonapi req ent coll = Inr spec" "plain_names (fieldNames ent)"
    "\<forall>d\<in>set ds. complete_item ent d" "apply_spec spec (Items ds) = Inl e"
  shows "e = TypeError \<or> e = ValueError"
  using known_specs_serve [OF accepted_known [OF assms(1)] assms(2-4)] by simp

theorem accepted_requests_are_served_witness:
  "\<exists>spec. resultspec_from_jsonapi [(FText [98, 95, 95, 108, 116], [FBytes [122]])] demo_entity True = Inr spec
     \<and> apply_spec spec (Items demo_items) = Inl TypeError"
proof -
  let ?spec = "new_ResultSpec (Some [\<lparr>field = FText [98], op = py ''lt'', vals = [VStr [122]]\<rparr>]) None None None None None"
  have req: "resultspec_from_jsonapi [(FText [98, 95, 95, 108, 116], [FBytes [122]])] demo_entity True = Inr ?spec"
    by code_simp
  have err: "apply_spec ?spec (Items demo_items) = Inl TypeError" by (rule none_cannot_be_compared)
  have "plain_names (fieldNames demo_entity)" "\<forall>d\<in>set demo_items. complete_item demo_entity d"
    by (auto simp: plain_names_def fieldNames_def demo_entity_def complete_item_def demo_items_def demo_item_def)
  from accepted_requests_are_served [OF req this err] req err show ?thesis by auto
qed

end
